(* ===== verification/Prelude.thy ===== *)
theory Prelude
  imports Main "HOL-Library.Signed_Division" "HOL-Library.Multiset"
begin

text \<open>
  Shared vocabulary of the development.

  The programs of this repository are C programs that read a terminal, print to it, change
  files and stop by calling \<open>exit\<close>. A C statement is modelled as a state transformer of type
  \<open>('a, 's) prog\<close>: it takes the program's state and gives an outcome together with the state it
  leaves. The outcomes are a normal return, a process exit with its status, behaviour the C
  standard leaves undefined (a write before the start of an array, a read of an uninitialised
  variable), a loop that never ends, and exhausted fuel.
  The theory also holds the fixed-width reading of C integers and the list lemmas several
  components use.
\<close>

named_theorems run_simps \<open>equations that run a program one statement further\<close>
named_theorems wrap_simps \<open>facts about the fixed-width reading of C integers\<close>

section \<open>Programs with exits\<close>

datatype 'a outcome = Ret 'a | Exit int | Undef | Hang | NoFuel

type_synonym ('a, 's) prog = "'s \<Rightarrow> 'a outcome \<times> 's"

definition ret :: "'a \<Rightarrow> ('a, 's) prog" where
  "ret a s = (Ret a, s)"

definition exit_prog :: "int \<Rightarrow> ('a, 's) prog" where
  "exit_prog c s = (Exit c, s)"

definition undef :: "('a, 's) prog" where
  "undef s = (Undef, s)"

definition hang :: "('a, 's) prog" where
  "hang s = (Hang, s)"

definition bnd :: "('a, 's) prog \<Rightarrow> ('a \<Rightarrow> ('b, 's) prog) \<Rightarrow> ('b, 's) prog" where
  "bnd m k s = (case m s of
     (Ret a, t) \<Rightarrow> k a t
   | (Exit c, t) \<Rightarrow> (Exit c, t)
   | (Undef, t) \<Rightarrow> (Undef, t)
   | (Hang, t) \<Rightarrow> (Hang, t)
   | (NoFuel, t) \<Rightarrow> (NoFuel, t))"

definition sq :: "('a, 's) prog \<Rightarrow> ('b, 's) prog \<Rightarrow> ('b, 's) prog" where
  "sq m n = bnd m (\<lambda>_. n)"

definition gets :: "('s \<Rightarrow> 'a) \<Rightarrow> ('a, 's) prog" where
  "gets f s = (Ret (f s), s)"

definition upd :: "('s \<Rightarrow> 's) \<Rightarrow> (unit, 's) prog" where
  "upd f s = (Ret (), f s)"

text \<open>A C \<open>if\<close> without an else branch.\<close>

definition whenP :: "bool \<Rightarrow> (unit, 's) prog \<Rightarrow> (unit, 's) prog" where
  "whenP b m = (if b then m else ret ())"

lemma ret_run [run_simps]: "ret a s = (Ret a, s)"
  by (simp add: ret_def)

lemma exit_run [run_simps]: "exit_prog c s = (Exit c, s)"
  by (simp add: exit_prog_def)

lemma undef_run [run_simps]: "undef s = (Undef, s)"
  by (simp add: undef_def)

lemma hang_run [run_simps]: "hang s = (Hang, s)"
  by (simp add: hang_def)

lemma gets_run [run_simps]: "gets f s = (Ret (f s), s)"
  by (simp add: gets_def)

lemma upd_run [run_simps]: "upd f s = (Ret (), f s)"
  by (simp add: upd_def)

lemma bnd_run [run_simps]:
  "m s = (Ret a, t) \<Longrightarrow> bnd m k s = k a t"
  "m s = (Exit c, t) \<Longrightarrow> bnd m k s = (Exit c, t)"
  "m s = (Undef, t) \<Longrightarrow> bnd m k s = (Undef, t)"
  "m s = (Hang, t) \<Longrightarrow> bnd m k s = (Hang, t)"
  "m s = (NoFuel, t) \<Longrightarrow> bnd m k s = (NoFuel, t)"
  by (simp_all add: bnd_def)

lemma sq_run [run_simps]:
  "m s = (Ret a, t) \<Longrightarrow> sq m n s = n t"
  "m s = (Exit c, t) \<Longrightarrow> sq m n s = (Exit c, t)"
  "m s = (Undef, t) \<Longrightarrow> sq m n s = (Undef, t)"
  "m s = (Hang, t) \<Longrightarrow> sq m n s = (Hang, t)"
  "m s = (NoFuel, t) \<Longrightarrow> sq m n s = (NoFuel, t)"
  by (simp_all add: sq_def bnd_def)

text \<open>The first of these applied by \<open>rule\<close> runs one statement without any search.\<close>

lemma sq_then: "m s = (Ret a, t) \<Longrightarrow> n t = x \<Longrightarrow> sq m n s = x"
  by (simp add: sq_run)

lemma bnd_then: "m s = (Ret a, t) \<Longrightarrow> k a t = x \<Longrightarrow> bnd m k s = x"
  by (simp add: bnd_run)

lemma sq_assoc: "sq (sq m n) p = sq m (sq n p)"
  by (rule ext) (simp add: sq_def bnd_def split: outcome.split prod.split)

lemma whenP_run [run_simps]:
  "whenP True m = m" "whenP False m = ret ()"
  by (simp_all add: whenP_def)

subsection \<open>What a program keeps\<close>

text \<open>
  \<open>keeps I m\<close>: whatever the outcome, the state relates to the start state by \<open>I\<close>. The relation
  is composed along a program when it is reflexive and transitive, so a handler's frame or
  invariant lemma follows from those of its statements.
\<close>

definition keeps :: "('s \<Rightarrow> 's \<Rightarrow> bool) \<Rightarrow> ('a, 's) prog \<Rightarrow> bool" where
  "keeps I m \<longleftrightarrow> (\<forall>s r t. m s = (r, t) \<longrightarrow> I s t)"

lemma keepsI: "(\<And>s r t. m s = (r, t) \<Longrightarrow> I s t) \<Longrightarrow> keeps I m"
  by (simp add: keeps_def)

lemma keepsD: "keeps I m \<Longrightarrow> m s = (r, t) \<Longrightarrow> I s t"
  by (simp add: keeps_def)

lemma keeps_snd: "keeps I m \<Longrightarrow> I s (snd (m s))"
  by (cases "m s") (auto simp: keeps_def)

lemma bnd_cases:
  assumes "bnd m k s = (r, t)"
  obtains (step) a u where "m s = (Ret a, u)" and "k a u = (r, t)"
    | (stop) e where "m s = (e, t)" and "\<forall>a. e \<noteq> Ret a" and "\<forall>b. r \<noteq> Ret b"
  using assms by (cases "m s"; cases "fst (m s)") (auto simp: bnd_def)

lemma sq_cases:
  assumes "sq m n s = (r, t)"
  obtains (step) a u where "m s = (Ret a, u)" and "n u = (r, t)"
    | (stop) e where "m s = (e, t)" and "\<forall>a. e \<noteq> Ret a" and "\<forall>b. r \<noteq> Ret b"
  using assms unfolding sq_def by (cases rule: bnd_cases)

lemma keeps_mono: "keeps I m \<Longrightarrow> (\<And>s t. I s t \<Longrightarrow> J s t) \<Longrightarrow> keeps J m"
  by (auto simp: keeps_def)

lemma bnd_RetE:
  assumes "bnd m k s = (Ret a, t)"
  obtains b u where "m s = (Ret b, u)" and "k b u = (Ret a, t)"
  using assms by (cases rule: bnd_cases) auto

lemma sq_RetE:
  assumes "sq m n s = (Ret a, t)"
  obtains b u where "m s = (Ret b, u)" and "n u = (Ret a, t)"
  using assms unfolding sq_def by (cases rule: bnd_cases) auto

locale frame_rel =
  fixes I :: "'s \<Rightarrow> 's \<Rightarrow> bool"
  assumes frame_refl: "I s s"
    and frame_trans: "I s t \<Longrightarrow> I t u \<Longrightarrow> I s u"
begin

lemma keeps_ret: "keeps I (ret a)"
  by (auto simp: keeps_def ret_def frame_refl)

lemma keeps_exit: "keeps I (exit_prog c)"
  by (auto simp: keeps_def exit_prog_def frame_refl)

lemma keeps_undef: "keeps I undef"
  by (auto simp: keeps_def undef_def frame_refl)

lemma keeps_hang: "keeps I hang"
  by (auto simp: keeps_def hang_def frame_refl)

lemma keeps_gets: "keeps I (gets f)"
  by (auto simp: keeps_def gets_def frame_refl)

lemma keeps_upd: "(\<And>s. I s (f s)) \<Longrightarrow> keeps I (upd f)"
  by (auto simp: keeps_def upd_def)

lemma keeps_bnd:
  assumes "keeps I m" and "\<And>a. keeps I (k a)"
  shows "keeps I (bnd m k)"
proof (rule keepsI)
  fix s r t
  assume "bnd m k s = (r, t)"
  then show "I s t"
    by (cases rule: bnd_cases) (use assms in \<open>blast intro: frame_trans dest: keepsD\<close>)+
qed

lemma keeps_sq: "keeps I m \<Longrightarrow> keeps I n \<Longrightarrow> keeps I (sq m n)"
  by (simp add: sq_def keeps_bnd)

lemma keeps_when: "(b \<Longrightarrow> keeps I m) \<Longrightarrow> keeps I (whenP b m)"
  by (simp add: whenP_def keeps_ret)

lemma keeps_if: "(b \<Longrightarrow> keeps I m) \<Longrightarrow> (\<not> b \<Longrightarrow> keeps I n) \<Longrightarrow> keeps I (if b then m else n)"
  by simp

lemma keeps_option:
  "(r = None \<Longrightarrow> keeps I m) \<Longrightarrow> (\<And>x. r = Some x \<Longrightarrow> keeps I (k x)) \<Longrightarrow>
   keeps I (case r of None \<Rightarrow> m | Some x \<Rightarrow> k x)"
  by (cases r) auto

lemma keeps_prod: "(\<And>a b. p = (a, b) \<Longrightarrow> keeps I (k a b)) \<Longrightarrow> keeps I (case p of (a, b) \<Rightarrow> k a b)"
  by (cases p) auto

lemmas keeps_rules =
  keeps_ret keeps_exit keeps_undef keeps_hang keeps_gets keeps_bnd keeps_sq keeps_when keeps_if
  keeps_option keeps_prod

end

subsection \<open>Loops over a body\<close>

text \<open>
  \<open>for (;;) body\<close>, where the body says whether to go round again. The recursion spends fuel;
  the locale shows that a fuel above any measure the body decreases is enough, so that the
  fuel never decides the result.
\<close>

fun iter :: "nat \<Rightarrow> (bool, 's) prog \<Rightarrow> (unit, 's) prog" where
  "iter 0 m s = (NoFuel, s)"
| "iter (Suc n) m s = bnd m (\<lambda>again. if again then iter n m else ret ()) s"

text \<open>Here the body keeps an invariant under which it decreases the measure.\<close>

locale guarded_body =
  fixes body :: "(bool, 's) prog"
    and size_of :: "'s \<Rightarrow> nat"
    and inv :: "'s \<Rightarrow> bool"
  assumes shrinks_in: "inv s \<Longrightarrow> body s = (Ret True, t) \<Longrightarrow> size_of t < size_of s \<and> inv t"
    and fuel_in: "inv s \<Longrightarrow> fst (body s) \<noteq> NoFuel"
begin

lemma iter_step:
  assumes "body s = (Ret True, t)"
  shows "iter (Suc n) body s = iter n body t"
  using assms by (simp add: bnd_def)

lemma iter_enough_in: "inv s \<Longrightarrow> size_of s < n \<Longrightarrow> fst (iter n body s) \<noteq> NoFuel"
proof (induction n arbitrary: s)
  case 0
  then show ?case by simp
next
  case (Suc n)
  obtain e t where b: "body s = (e, t)" by fastforce
  show ?case
  proof (cases "e = Ret True")
    case True
    with b have "size_of t < n" "inv t" using shrinks_in [OF Suc.prems(1)] Suc.prems(2) by fastforce+
    then show ?thesis using Suc.IH b True by (simp add: bnd_def)
  next
    case False
    with b fuel_in [OF Suc.prems(1)] show ?thesis
      by (cases e) (auto simp: bnd_def ret_def)
  qed
qed

end

text \<open>Most bodies need no invariant.\<close>

locale shrinking_body =
  fixes body :: "(bool, 's) prog"
    and size_of :: "'s \<Rightarrow> nat"
  assumes shrinks: "body s = (Ret True, t) \<Longrightarrow> size_of t < size_of s"
    and body_fuel: "fst (body s) \<noteq> NoFuel"

sublocale shrinking_body \<subseteq> guarded_body body size_of "\<lambda>_. True"
  by unfold_locales (simp_all add: shrinks body_fuel)

context shrinking_body
begin

lemma iter_enough: "size_of s < n \<Longrightarrow> fst (iter n body s) \<noteq> NoFuel"
  by (rule iter_enough_in) simp

lemma iter_stable: "size_of s < n \<Longrightarrow> n \<le> n' \<Longrightarrow> iter n' body s = iter n body s"
proof (induction n arbitrary: s n')
  case 0
  then show ?case by simp
next
  case (Suc n)
  then obtain m where n': "n' = Suc m" "n \<le> m" by (cases n') auto
  obtain e t where b: "body s = (e, t)" by fastforce
  show ?case
  proof (cases "e = Ret True")
    case True
    with b have "size_of t < n" using shrinks Suc.prems by fastforce
    then have "iter m body t = iter n body t" using n'(2) by (rule Suc.IH)
    then show ?thesis by (simp add: n'(1) b True bnd_def)
  next
    case False
    with b n' show ?thesis by (cases e) (auto simp: bnd_def)
  qed
qed

end

context frame_rel
begin

lemma keeps_iter: "keeps I m \<Longrightarrow> keeps I (iter n m)"
proof (induction n)
  case 0
  then show ?case by (auto simp: keeps_def frame_refl)
next
  case (Suc n)
  then have "keeps I (bnd m (\<lambda>again. if again then iter n m else ret ()))"
    by (intro keeps_rules) auto
  then show ?case by (simp add: keeps_def)
qed

end

text \<open>
  \<open>do body while (nothing yet)\<close>: the loop's result is the first one the body gives. Again a measure
  that falls as long as there is none bounds the fuel.
\<close>

fun first_of :: "nat \<Rightarrow> ('a option, 's) prog \<Rightarrow> ('a, 's) prog" where
  "first_of 0 m s = (NoFuel, s)"
| "first_of (Suc n) m s = bnd m (\<lambda>r. case r of None \<Rightarrow> first_of n m | Some a \<Rightarrow> ret a) s"

locale searching_body =
  fixes body :: "('a option, 's) prog"
    and left :: "'s \<Rightarrow> nat"
  assumes search_shrinks: "body s = (Ret None, t) \<Longrightarrow> left t < left s"
    and search_fuel: "fst (body s) \<noteq> NoFuel"
begin

lemma first_of_enough: "left s < n \<Longrightarrow> fst (first_of n body s) \<noteq> NoFuel"
proof (induction n arbitrary: s)
  case (Suc n)
  obtain e t where b: "body s = (e, t)" by fastforce
  show ?case
  proof (cases "e = Ret None")
    case True
    with b have "left t < n" using search_shrinks Suc.prems by fastforce
    then show ?thesis using Suc.IH b True by (simp add: bnd_def)
  next
    case False
    with b search_fuel [of s] show ?thesis
      by (cases e) (auto simp: bnd_def ret_def split: option.split)
  qed
qed simp

end

context frame_rel
begin

lemma keeps_first_of: "keeps I m \<Longrightarrow> keeps I (first_of n m)"
proof (induction n)
  case 0
  then show ?case by (auto simp: keeps_def frame_refl)
next
  case (Suc n)
  then have "keeps I (bnd m (\<lambda>r. case r of None \<Rightarrow> first_of n m | Some a \<Rightarrow> ret a))"
    by (intro keeps_rules) auto
  then show ?case by (simp add: keeps_def)
qed

end

subsection \<open>Programs that do not run out of fuel, do not return, do not hang\<close>

definition fuelled :: "('a, 's) prog \<Rightarrow> bool" where
  "fuelled m \<longleftrightarrow> (\<forall>s. fst (m s) \<noteq> NoFuel)"

definition no_return :: "('a, 's) prog \<Rightarrow> bool" where
  "no_return m \<longleftrightarrow> (\<forall>s a. fst (m s) \<noteq> Ret a)"

lemma fuelled_basic:
  "fuelled (ret a)" "fuelled (exit_prog c)" "fuelled undef" "fuelled hang" "fuelled (gets f)"
  "fuelled (upd g)"
  by (simp_all add: fuelled_def ret_def exit_prog_def undef_def hang_def gets_def upd_def)

lemma fuelled_bnd: "fuelled m \<Longrightarrow> (\<And>a. fuelled (k a)) \<Longrightarrow> fuelled (bnd m k)"
  unfolding fuelled_def
proof
  fix s
  assume m: "\<forall>s. fst (m s) \<noteq> NoFuel" and k: "\<And>a. \<forall>s. fst (k a s) \<noteq> NoFuel"
  obtain o1 t where "m s = (o1, t)" by fastforce
  with m [rule_format, of s] k show "fst (bnd m k s) \<noteq> NoFuel" by (cases o1) (simp_all add: bnd_def)
qed

lemma fuelled_sq: "fuelled m \<Longrightarrow> fuelled n \<Longrightarrow> fuelled (sq m n)"
  by (simp add: sq_def fuelled_bnd)

lemma fuelled_when: "(b \<Longrightarrow> fuelled m) \<Longrightarrow> fuelled (whenP b m)"
  by (simp add: whenP_def fuelled_basic)

lemma fuelled_cases:
  "(b \<Longrightarrow> fuelled m) \<Longrightarrow> (\<not> b \<Longrightarrow> fuelled n) \<Longrightarrow> fuelled (if b then m else n)"
  "(r = None \<Longrightarrow> fuelled m) \<Longrightarrow> (\<And>x. r = Some x \<Longrightarrow> fuelled (j x)) \<Longrightarrow>
   fuelled (case r of None \<Rightarrow> m | Some x \<Rightarrow> j x)"
  "(\<And>a b. p = (a, b) \<Longrightarrow> fuelled (k a b)) \<Longrightarrow> fuelled (case p of (a, b) \<Rightarrow> k a b)"
  by (simp, cases r, auto, cases p, auto)

lemmas fuelled_rules = fuelled_basic fuelled_bnd fuelled_sq fuelled_when fuelled_cases

context shrinking_body
begin

lemma fuelled_iter: "(\<And>s. size_of s \<le> f s) \<Longrightarrow> fuelled (bnd (gets f) (\<lambda>n. iter (Suc n) body))"
  using iter_enough by (simp add: fuelled_def bnd_def gets_def less_Suc_eq_le del: iter.simps)

end

lemma no_return_exit: "no_return (exit_prog c)"
  by (simp add: no_return_def exit_prog_def)

lemma no_return_undef: "no_return undef"
  by (simp add: no_return_def undef_def)

lemma no_return_bnd: "(\<And>a. no_return (k a)) \<Longrightarrow> no_return (bnd m k)"
  unfolding no_return_def
proof (intro allI)
  fix s b
  assume k: "\<And>a. \<forall>s b. fst (k a s) \<noteq> Ret b"
  obtain o1 t where "m s = (o1, t)" by fastforce
  with k show "fst (bnd m k s) \<noteq> Ret b" by (cases o1) (simp_all add: bnd_def)
qed

lemma no_return_sq: "no_return n \<Longrightarrow> no_return (sq m n)"
  by (simp add: sq_def no_return_bnd)

lemma no_return_cases:
  "(b \<Longrightarrow> no_return m) \<Longrightarrow> (\<not> b \<Longrightarrow> no_return n) \<Longrightarrow> no_return (if b then m else n)"
  "(r = None \<Longrightarrow> no_return m) \<Longrightarrow> (\<And>x. r = Some x \<Longrightarrow> no_return (j x)) \<Longrightarrow>
   no_return (case r of None \<Rightarrow> m | Some x \<Rightarrow> j x)"
  "(\<And>a b. no_return (k a b)) \<Longrightarrow> no_return (case p of (a, b) \<Rightarrow> k a b)"
  by (simp, cases r, auto, cases p, auto)

lemmas no_return_rules = no_return_exit no_return_undef no_return_bnd no_return_sq no_return_cases

text \<open>Programs that never wait for ever.\<close>

definition no_hang :: "('a, 's) prog \<Rightarrow> bool" where
  "no_hang m \<longleftrightarrow> (\<forall>s. fst (m s) \<noteq> Hang)"

lemma no_hang_basic: "no_hang (ret a)" "no_hang (exit_prog c)" "no_hang undef" "no_hang (gets f)" "no_hang (upd g)"
  by (simp_all add: no_hang_def ret_def exit_prog_def undef_def gets_def upd_def)

lemma no_hang_bnd: "no_hang m \<Longrightarrow> (\<And>a. no_hang (k a)) \<Longrightarrow> no_hang (bnd m k)"
  unfolding no_hang_def
proof
  fix s
  assume m: "\<forall>s. fst (m s) \<noteq> Hang" and k: "\<And>a. \<forall>s. fst (k a s) \<noteq> Hang"
  obtain r t where "m s = (r, t)" by fastforce
  with m [rule_format, of s] k show "fst (bnd m k s) \<noteq> Hang" by (cases r) (simp_all add: bnd_def)
qed

lemma no_hang_sq: "no_hang m \<Longrightarrow> no_hang n \<Longrightarrow> no_hang (sq m n)"
  by (simp add: sq_def no_hang_bnd)

lemma no_hang_cases:
  "(b \<Longrightarrow> no_hang m) \<Longrightarrow> (\<not> b \<Longrightarrow> no_hang n) \<Longrightarrow> no_hang (if b then m else n)"
  "(r = None \<Longrightarrow> no_hang m) \<Longrightarrow> (\<And>x. r = Some x \<Longrightarrow> no_hang (j x)) \<Longrightarrow> no_hang (case r of None \<Rightarrow> m | Some x \<Rightarrow> j x)"
  "(\<And>a b. p = (a, b) \<Longrightarrow> no_hang (k a b)) \<Longrightarrow> no_hang (case p of (a, b) \<Rightarrow> k a b)"
  "(l = [] \<Longrightarrow> no_hang m) \<Longrightarrow> (\<And>x xs. l = x # xs \<Longrightarrow> no_hang (q x xs)) \<Longrightarrow> no_hang (case l of [] \<Rightarrow> m | x # xs \<Rightarrow> q x xs)"
  by (simp, cases r, auto, cases p, auto, cases l, auto)

lemma no_hang_iter: "no_hang m \<Longrightarrow> no_hang (iter n m)"
proof (induction n)
  case (Suc n)
  then have "no_hang (bnd m (\<lambda>again. if again then iter n m else ret ()))" by (intro no_hang_bnd no_hang_cases no_hang_basic)
  then show ?case by (simp add: no_hang_def)
qed (simp add: no_hang_def)

lemmas no_hang_rules = no_hang_basic no_hang_sq no_hang_bnd no_hang_cases no_hang_iter

text \<open>A program that settles neither uses its fuel up nor runs for ever.\<close>

definition settles :: "('a, 's) prog \<Rightarrow> bool" where
  "settles m \<longleftrightarrow> fuelled m \<and> no_hang m"

lemma settles_basic:
  "settles (ret a)" "settles (exit_prog c)" "settles undef" "settles (gets f)" "settles (upd g)"
  by (simp_all add: settles_def fuelled_basic no_hang_basic)

lemma settles_bnd: "settles m \<Longrightarrow> (\<And>a. settles (k a)) \<Longrightarrow> settles (bnd m k)"
  by (simp add: settles_def fuelled_bnd no_hang_bnd)

lemma settles_sq: "settles m \<Longrightarrow> settles n \<Longrightarrow> settles (sq m n)"
  by (simp add: sq_def settles_bnd)

lemma settles_when: "(b \<Longrightarrow> settles m) \<Longrightarrow> settles (whenP b m)"
  by (simp add: whenP_def settles_basic)

lemma settles_cases:
  "(b \<Longrightarrow> settles m) \<Longrightarrow> (\<not> b \<Longrightarrow> settles n) \<Longrightarrow> settles (if b then m else n)"
  "(r = None \<Longrightarrow> settles m) \<Longrightarrow> (\<And>x. r = Some x \<Longrightarrow> settles (j x)) \<Longrightarrow> settles (case r of None \<Rightarrow> m | Some x \<Rightarrow> j x)"
  "(\<And>a b. p = (a, b) \<Longrightarrow> settles (q a b)) \<Longrightarrow> settles (case p of (a, b) \<Rightarrow> q a b)"
  "settles m \<Longrightarrow> settles n \<Longrightarrow> settles (case c of True \<Rightarrow> m | False \<Rightarrow> n)"
  "(l = [] \<Longrightarrow> settles m) \<Longrightarrow> (\<And>x xs. l = x # xs \<Longrightarrow> settles (f x xs)) \<Longrightarrow> settles (case l of [] \<Rightarrow> m | x # xs \<Rightarrow> f x xs)"
  by (cases b; cases r; cases p; cases c; cases l; simp)+

lemmas settling = settles_basic settles_bnd settles_sq settles_when settles_cases

lemma settles_run: "settles m \<longleftrightarrow> (\<forall>s. fst (m s) \<noteq> NoFuel \<and> fst (m s) \<noteq> Hang)"
  by (auto simp: settles_def fuelled_def no_hang_def)

lemma no_hang_first_of: "no_hang m \<Longrightarrow> no_hang (first_of n m)"
proof (induction n)
  case (Suc n)
  then have "no_hang (bnd m (\<lambda>r. case r of None \<Rightarrow> first_of n m | Some a \<Rightarrow> ret a))"
    by (intro no_hang_bnd no_hang_cases no_hang_basic)
  then show ?case by (simp add: no_hang_def)
qed (simp add: no_hang_def)

subsection \<open>What a returning program establishes\<close>

text \<open>
  \<open>safe P m Q\<close>: from a state with \<open>P\<close> the program does not run out of fuel, and where it returns
  \<open>Q\<close> holds of the result and the state. Exits, hanging and undefined behaviour are allowed.
\<close>

definition safe :: "('s \<Rightarrow> bool) \<Rightarrow> ('a, 's) prog \<Rightarrow> ('a \<Rightarrow> 's \<Rightarrow> bool) \<Rightarrow> bool" where
  "safe P m Q \<longleftrightarrow> (\<forall>s. P s \<longrightarrow> fst (m s) \<noteq> NoFuel \<and> (\<forall>a t. m s = (Ret a, t) \<longrightarrow> Q a t))"

lemma safeD: "safe P m Q \<Longrightarrow> P s \<Longrightarrow> m s = (Ret a, t) \<Longrightarrow> Q a t"
  by (simp add: safe_def)

lemma safe_fuel: "safe P m Q \<Longrightarrow> P s \<Longrightarrow> fst (m s) \<noteq> NoFuel"
  by (simp add: safe_def)

lemma safe_conseq: "safe P m Q \<Longrightarrow> (\<And>s. P' s \<Longrightarrow> P s) \<Longrightarrow> (\<And>a t. Q a t \<Longrightarrow> Q' a t) \<Longrightarrow> safe P' m Q'"
  unfolding safe_def by blast

lemma safe_bnd:
  assumes "safe P m Q" and "\<And>a. safe (Q a) (k a) R"
  shows "safe P (bnd m k) R"
  unfolding safe_def
proof (intro allI impI)
  fix s
  assume "P s"
  obtain e u where m: "m s = (e, u)" by fastforce
  show "fst (bnd m k s) \<noteq> NoFuel \<and> (\<forall>a t. bnd m k s = (Ret a, t) \<longrightarrow> R a t)"
  proof (cases e)
    case (Ret a)
    with m assms(1) \<open>P s\<close> have "Q a u" by (simp add: safe_def)
    with assms(2) [of a] Ret m show ?thesis by (simp add: safe_def bnd_def)
  next
    case NoFuel
    with m assms(1) \<open>P s\<close> show ?thesis by (auto simp: safe_def)
  qed (simp_all add: m bnd_def)
qed

lemma safe_sq: "safe P m (\<lambda>_. Q) \<Longrightarrow> safe Q n R \<Longrightarrow> safe P (sq m n) R"
  by (simp add: sq_def safe_bnd)

lemma safe_basic:
  "safe (Q a) (ret a) Q" "safe P (exit_prog c) R" "safe P undef R" "safe P hang R"
  "safe (\<lambda>s. Q () (f s)) (upd f) Q" "safe (\<lambda>s. T (f s) s) (gets f) T"
  by (simp_all add: safe_def ret_def exit_prog_def undef_def hang_def upd_def gets_def)

lemma safe_cases:
  "(b \<Longrightarrow> safe P m Q) \<Longrightarrow> (\<not> b \<Longrightarrow> safe P n Q) \<Longrightarrow> safe P (if b then m else n) Q"
  "(r = None \<Longrightarrow> safe P m Q) \<Longrightarrow> (\<And>x. r = Some x \<Longrightarrow> safe P (j x) Q) \<Longrightarrow>
   safe P (case r of None \<Rightarrow> m | Some x \<Rightarrow> j x) Q"
  "(\<And>a b. p = (a, b) \<Longrightarrow> safe P (k a b) Q) \<Longrightarrow> safe P (case p of (a, b) \<Rightarrow> k a b) Q"
  by (simp, cases r, auto, cases p, auto)

lemma iter_stays: "safe P m (\<lambda>_. P) \<Longrightarrow> P s \<Longrightarrow> iter n m s = (Ret a, t) \<Longrightarrow> P t"
proof (induction n arbitrary: s)
  case (Suc n)
  from Suc.prems(3) have "bnd m (\<lambda>again. if again then iter n m else ret ()) s = (Ret a, t)" by simp
  then show ?case
  proof (cases rule: bnd_cases)
    case (step b u)
    have "P u" using safeD [OF Suc.prems(1,2) step(1)] .
    with step(2) Suc.IH [OF Suc.prems(1)] show ?thesis by (cases b) (auto simp: ret_def)
  qed simp
qed simp

section \<open>C integers\<close>

text \<open>
  A C \<open>int\<close> has 32 bits and a \<open>long\<close> 64 on the machines the programs run on. Values are
  integers in the type's range; \<open>s32\<close> and \<open>s64\<close> give the two's complement reading of a result
  that left it. Division and remainder round towards zero: \<open>sdiv\<close> and \<open>smod\<close> of the library.
\<close>

definition wrap :: "nat \<Rightarrow> int \<Rightarrow> int" where
  "wrap w x = (x + 2 ^ (w - 1)) mod 2 ^ w - 2 ^ (w - 1)"

definition s32 :: "int \<Rightarrow> int" where "s32 = wrap 32"
definition s64 :: "int \<Rightarrow> int" where "s64 = wrap 64"

definition LONG_MAX :: int where "LONG_MAX = 9223372036854775807"
definition LONG_MIN :: int where "LONG_MIN = - 9223372036854775808"

definition in_long :: "int \<Rightarrow> bool" where
  "in_long x \<longleftrightarrow> LONG_MIN \<le> x \<and> x \<le> LONG_MAX"

lemma s64_id [wrap_simps]: "in_long x \<Longrightarrow> s64 x = x"
  by (simp add: s64_def wrap_def in_long_def LONG_MAX_def LONG_MIN_def)

lemma in_long_s64 [wrap_simps]: "in_long (s64 x)"
proof -
  have "0 \<le> (x + 9223372036854775808) mod 18446744073709551616"
    and "(x + 9223372036854775808) mod 18446744073709551616 < 18446744073709551616"
    by simp_all
  then show ?thesis by (simp add: s64_def wrap_def in_long_def LONG_MAX_def LONG_MIN_def)
qed

lemma s32_id [wrap_simps]: "- 2147483648 \<le> x \<Longrightarrow> x \<le> 2147483647 \<Longrightarrow> s32 x = x"
  by (simp add: s32_def wrap_def)

lemma s32_range: "- 2147483648 \<le> s32 x" "s32 x \<le> 2147483647"
proof -
  have "0 \<le> (x + 2147483648) mod 4294967296" and "(x + 2147483648) mod 4294967296 < 4294967296"
    by simp_all
  then show "- 2147483648 \<le> s32 x" and "s32 x \<le> 2147483647"
    by (simp_all add: s32_def wrap_def)
qed

text \<open>Testing the last bit with \<open>%\<close>, and halving with \<open>/\<close>, as the bank does.\<close>

lemma smod2_zero_iff: "(x::int) smod 2 = 0 \<longleftrightarrow> even x"
  by (auto simp: signed_modulo_int_def sgn_if even_iff_mod_2_eq_zero [symmetric])

lemma sdiv2_nonneg: "0 \<le> (x::int) \<Longrightarrow> x sdiv 2 = x div 2"
  by (simp add: signed_divide_int_def sgn_if)

lemma sdiv2_odd_neg: "(b::int) < 0 \<Longrightarrow> (2 * b + 1) sdiv 2 = b + 1"
  by (auto simp: signed_divide_int_def sgn_if)

section \<open>Lists\<close>

text \<open>Replacing an element, growing the list with a filler when the index is past its end.\<close>

definition put_at :: "'a \<Rightarrow> nat \<Rightarrow> 'a \<Rightarrow> 'a list \<Rightarrow> 'a list" where
  "put_at z i x xs = (xs @ replicate (Suc i - length xs) z)[i := x]"

lemma length_put_at [simp]: "length (put_at z i x xs) = max (length xs) (Suc i)"
  by (simp add: put_at_def)

lemma put_at_in_range: "i < length xs \<Longrightarrow> put_at z i x xs = xs[i := x]"
  by (simp add: put_at_def)

lemma nth_put_at_same [simp]: "put_at z i x xs ! i = x"
  by (simp add: put_at_def)

lemma nth_put_at_other: "j \<noteq> i \<Longrightarrow> j < length xs \<Longrightarrow> put_at z i x xs ! j = xs ! j"
  by (simp add: put_at_def nth_append)

lemma nth_put_at_gap: "j < i \<Longrightarrow> length xs \<le> j \<Longrightarrow> put_at z i x xs ! j = z"
  by (simp add: put_at_def nth_append)

lemma put_at_length: "put_at z (length xs) x xs = xs @ [x]"
  by (simp add: put_at_def list_update_append)

text \<open>Exchanging two elements.\<close>

definition swap_at :: "nat \<Rightarrow> nat \<Rightarrow> 'a list \<Rightarrow> 'a list" where
  "swap_at i j xs = xs[i := xs ! j, j := xs ! i]"

lemma length_swap_at [simp]: "length (swap_at i j xs) = length xs"
  by (simp add: swap_at_def)

lemma nth_swap_at:
  "i < length xs \<Longrightarrow> j < length xs \<Longrightarrow> k < length xs \<Longrightarrow>
   swap_at i j xs ! k = (if k = i then xs ! j else if k = j then xs ! i else xs ! k)"
  by (auto simp: swap_at_def nth_list_update)

lemma mset_swap_at [simp]:
  "i < length xs \<Longrightarrow> j < length xs \<Longrightarrow> mset (swap_at i j xs) = mset xs"
  by (simp add: swap_at_def mset_swap)

lemma set_swap_at [simp]:
  "i < length xs \<Longrightarrow> j < length xs \<Longrightarrow> set (swap_at i j xs) = set xs"
  by (metis mset_swap_at set_mset_mset)

lemma distinct_swap_at [simp]:
  "i < length xs \<Longrightarrow> j < length xs \<Longrightarrow> distinct (swap_at i j xs) = distinct xs"
  by (metis mset_swap_at mset_eq_imp_distinct_iff)

end
