(* ===== verification/CLib.thy ===== *)
theory CLib
  imports Prelude "HOL-Library.List_Lexorder" "HOL-Library.Char_ord"
begin

text \<open>
  The part of the C library the programs use: strings as lists of bytes without their
  terminating NUL, character classes, comparison, bounded copies, conversion of decimal
  numbers, formatted output, and the two standard streams as a record that each program's
  state extends.
\<close>

section \<open>Characters and strings\<close>

abbreviation NUL :: char where "NUL \<equiv> CHR 0x00"
abbreviation TAB :: char where "TAB \<equiv> CHR 0x09"
abbreviation NL :: char where "NL \<equiv> CHR 0x0A"
abbreviation CR :: char where "CR \<equiv> CHR 0x0D"
abbreviation SPC :: char where "SPC \<equiv> CHR 0x20"

abbreviation byte :: "char \<Rightarrow> nat" where "byte c \<equiv> of_char c"

definition isspace :: "char \<Rightarrow> bool" where
  "isspace c \<longleftrightarrow> c = SPC \<or> (9 \<le> byte c \<and> byte c \<le> 13)"

definition isdigit :: "char \<Rightarrow> bool" where
  "isdigit c \<longleftrightarrow> 48 \<le> byte c \<and> byte c \<le> 57"

definition isprint :: "char \<Rightarrow> bool" where
  "isprint c \<longleftrightarrow> 32 \<le> byte c \<and> byte c \<le> 126"

definition isascii :: "char \<Rightarrow> bool" where "isascii c \<longleftrightarrow> byte c < 128"

definition islower :: "char \<Rightarrow> bool" where "islower c \<longleftrightarrow> 97 \<le> byte c \<and> byte c \<le> 122"

definition isupper :: "char \<Rightarrow> bool" where "isupper c \<longleftrightarrow> 65 \<le> byte c \<and> byte c \<le> 90"

definition tolower :: "char \<Rightarrow> char" where "tolower c = (if isupper c then char_of (byte c + 32) else c)"

text \<open>What a C function sees of a buffer: the bytes before the first NUL.\<close>

definition cstr :: "string \<Rightarrow> string" where
  "cstr = takeWhile (\<lambda>c. c \<noteq> NUL)"

lemma cstr_no_nul [simp]: "NUL \<notin> set (cstr s)"
  by (auto simp: cstr_def dest: set_takeWhileD)

lemma cstr_id: "NUL \<notin> set s \<Longrightarrow> cstr s = s"
  by (auto simp: cstr_def takeWhile_eq_all_conv)

lemma cstr_stops: "NUL \<notin> set w \<Longrightarrow> cstr (w @ NUL # rest) = w"
  by (auto simp: cstr_def takeWhile_append)

text \<open>A byte of a memory; reading outside it is undefined, which is \<open>None\<close> here.\<close>

definition mem_at :: "string \<Rightarrow> nat \<Rightarrow> char option" where
  "mem_at m i = (if i < length m then Some (m ! i) else None)"

lemma mem_at_SomeD: "mem_at m p = Some c \<Longrightarrow> p < length m \<and> c = m ! p"
  by (simp add: mem_at_def split: if_splits)

lemma mem_at_append [simp]: "mem_at (pre @ c # rest) (length pre) = Some c"
  by (simp add: mem_at_def)

lemma mem_at_append_Suc [simp]: "mem_at (pre @ b # c # rest) (Suc (length pre)) = Some c"
  by (simp add: mem_at_def nth_append)

lemma update_over_gap: "gap @ xs \<noteq> [] \<Longrightarrow> (pre @ gap @ xs @ rest)[length pre := c] = (pre @ [c]) @ tl (gap @ xs) @ rest"
  by (cases gap; cases xs) (auto simp: list_update_append)

text \<open>\<open>strcmp\<close>: only the sign of the result is used anywhere.\<close>

fun strcmp :: "string \<Rightarrow> string \<Rightarrow> int" where
  "strcmp [] [] = 0"
| "strcmp [] (_ # _) = -1"
| "strcmp (_ # _) [] = 1"
| "strcmp (a # as) (b # bs) =
     (if a = b then strcmp as bs else if byte a < byte b then -1 else 1)"

definition strncmp :: "string \<Rightarrow> string \<Rightarrow> nat \<Rightarrow> int" where
  "strncmp a b n = strcmp (take n a) (take n b)"

lemma strcmp_eq_0_iff [simp]: "strcmp a b = 0 \<longleftrightarrow> a = b"
  by (induction a b rule: strcmp.induct) auto

lemma strcmp_less_iff: "strcmp a b < 0 \<longleftrightarrow> a < b"
  by (induction a b rule: strcmp.induct) (auto simp: less_char_def)

lemma strcmp_greater_iff: "strcmp a b > 0 \<longleftrightarrow> b < a"
  by (metis linorder_neqE linorder_not_less not_less_iff_gr_or_eq strcmp_eq_0_iff strcmp_less_iff)

lemma strncmp_eq_0_iff: "strncmp a b n = 0 \<longleftrightarrow> take n a = take n b"
  by (simp add: strncmp_def)

text \<open>\<open>strlcpy\<close> leaves at most \<open>n - 1\<close> bytes and a terminator.\<close>

definition strlcpy :: "nat \<Rightarrow> string \<Rightarrow> string" where
  "strlcpy n s = take (n - 1) s"

lemma length_strlcpy: "0 < n \<Longrightarrow> length (strlcpy n s) < n"
  by (simp add: strlcpy_def)

lemma strlcpy_fits: "length s < n \<Longrightarrow> strlcpy n s = s"
  by (simp add: strlcpy_def)

text \<open>\<open>strchr s c\<close>: the text before the first \<open>c\<close> and the text after it.\<close>

fun split_at :: "char \<Rightarrow> string \<Rightarrow> (string \<times> string) option" where
  "split_at c [] = None"
| "split_at c (x # xs) =
     (if x = c then Some ([], xs)
      else map_option (\<lambda>(a, b). (x # a, b)) (split_at c xs))"

lemma split_at_None_iff: "split_at c s = None \<longleftrightarrow> c \<notin> set s"
  by (induction s) auto

lemma split_at_append: "c \<notin> set a \<Longrightarrow> split_at c (a @ c # b) = Some (a, b)"
  by (induction a) auto

lemma split_at_SomeD: "split_at c s = Some (a, b) \<Longrightarrow> s = a @ c # b \<and> c \<notin> set a"
  by (induction s arbitrary: a b) (auto split: if_splits)

text \<open>
  \<open>strchr\<close> in a buffer that need not be terminated: the character may be found, a NUL may come
  first, or the search may leave the buffer.
\<close>

datatype look = Found string string | Absent | Overrun

fun look_for :: "char \<Rightarrow> string \<Rightarrow> look" where
  "look_for c [] = Overrun"
| "look_for c (x # xs) =
     (if x = c then Found [] xs else if x = NUL then Absent
      else case look_for c xs of Found a b \<Rightarrow> Found (x # a) b | r \<Rightarrow> r)"

lemma look_for_append:
  "c \<notin> set a \<Longrightarrow> NUL \<notin> set a \<Longrightarrow> look_for c (a @ c # b) = Found a b"
  by (induction a) auto

text \<open>\<open>strspn\<close> and \<open>strcspn\<close> as the longest prefix in, or out of, a set of characters.\<close>

definition span_in :: "string \<Rightarrow> string \<Rightarrow> string" where
  "span_in l s = takeWhile (\<lambda>c. c \<in> set l) s"

section \<open>Decimal numbers\<close>

definition digit_val :: "char \<Rightarrow> int" where
  "digit_val c = int (byte c) - 48"

fun digits_val :: "int \<Rightarrow> string \<Rightarrow> int" where
  "digits_val acc [] = acc"
| "digits_val acc (c # cs) = digits_val (acc * 10 + digit_val c) cs"

text \<open>
  \<open>strtol\<close> in base 10: white space, an optional sign, digits; a value out of range is cut to
  \<open>LONG_MAX\<close> or \<open>LONG_MIN\<close>. The result is the value and the rest of the text, \<open>None\<close> when there
  are no digits.
\<close>

definition clamp_long :: "int \<Rightarrow> int" where
  "clamp_long x = max LONG_MIN (min LONG_MAX x)"

definition strtol10 :: "string \<Rightarrow> (int \<times> string) option" where
  "strtol10 s = (let s1 = dropWhile isspace s;
     neg = (s1 \<noteq> [] \<and> hd s1 = CHR ''-'');
     s2 = (if s1 \<noteq> [] \<and> (hd s1 = CHR ''-'' \<or> hd s1 = CHR ''+'') then tl s1 else s1);
     ds = takeWhile isdigit s2;
     v = digits_val 0 ds
   in if ds = [] then None
      else Some (clamp_long (if neg then - v else v), dropWhile isdigit s2))"

definition atol :: "string \<Rightarrow> int" where
  "atol s = (case strtol10 s of None \<Rightarrow> 0 | Some (v, _) \<Rightarrow> v)"

definition atoi :: "string \<Rightarrow> int" where
  "atoi s = s32 (atol s)"

lemma in_long_clamp [simp]: "in_long (clamp_long x)"
  by (simp add: clamp_long_def in_long_def LONG_MAX_def LONG_MIN_def)

lemma in_long_atol [simp]: "in_long (atol s)"
  by (auto simp: atol_def strtol10_def Let_def in_long_def LONG_MAX_def LONG_MIN_def
      clamp_long_def split: option.splits if_splits)

text \<open>\<open>sscanf\<close> and \<open>fscanf\<close> with one \<open>%d\<close> or \<open>%ld\<close>: end of input, no match, or a value.\<close>

datatype scan = ScanEOF | ScanFail | ScanOk int string

definition scan_long :: "string \<Rightarrow> scan" where
  "scan_long s = (if dropWhile isspace s = [] then ScanEOF
     else case strtol10 s of None \<Rightarrow> ScanFail | Some (v, rest) \<Rightarrow> ScanOk v rest)"

definition scan_int :: "string \<Rightarrow> scan" where
  "scan_int s = (case scan_long s of ScanOk v rest \<Rightarrow> ScanOk (s32 v) rest | r \<Rightarrow> r)"

lemma strtol10_blank: "dropWhile isspace s = [] \<Longrightarrow> strtol10 s = None"
  unfolding strtol10_def Let_def by (simp only:) simp

lemma scan_long_strtol: "strtol10 s = Some (v, rest) \<Longrightarrow> scan_long s = ScanOk v rest"
  using strtol10_blank [of s] by (auto simp: scan_long_def)

text \<open>Printing with \<open>%d\<close> and \<open>%ld\<close>.\<close>

definition digit_char :: "nat \<Rightarrow> char" where
  "digit_char d = char_of (48 + d)"

fun dec_nat :: "nat \<Rightarrow> string" where
  "dec_nat n = (if n < 10 then [digit_char n] else dec_nat (n div 10) @ [digit_char (n mod 10)])"

declare dec_nat.simps [simp del]

definition dec :: "int \<Rightarrow> string" where
  "dec x = (if x < 0 then CHR ''-'' # dec_nat (nat (- x)) else dec_nat (nat x))"

text \<open>A field width: \<open>%7ld\<close>, \<open>%8s\<close> pad on the left, \<open>%-30s\<close> on the right.\<close>

definition pad_left :: "nat \<Rightarrow> string \<Rightarrow> string" where
  "pad_left n s = replicate (n - length s) SPC @ s"

definition pad_right :: "nat \<Rightarrow> string \<Rightarrow> string" where
  "pad_right n s = s @ replicate (n - length s) SPC"

lemma digit_of_char: "d < 10 \<Longrightarrow> isdigit (digit_char d) \<and> digit_val (digit_char d) = int d"
  by (simp add: isdigit_def digit_char_def digit_val_def)

lemma digits_val_append: "digits_val acc (xs @ [c]) = digits_val acc xs * 10 + digit_val c"
  by (induction xs arbitrary: acc) auto

lemma dec_nat_digits: "set (dec_nat n) \<subseteq> Collect isdigit"
proof (induction n rule: dec_nat.induct)
  case (1 n)
  then show ?case by (subst dec_nat.simps) (auto simp: digit_of_char)
qed

lemma dec_nat_nonempty [simp]: "dec_nat n \<noteq> []"
  by (subst dec_nat.simps) simp

lemma digits_val_dec_nat: "digits_val 0 (dec_nat n) = int n"
proof (induction n rule: dec_nat.induct)
  case (1 n)
  then show ?case
    by (subst dec_nat.simps) (auto simp: digit_of_char digits_val_append zdiv_int zmod_int)
qed

text \<open>The conversions invert each other: reading back a printed number.\<close>

lemma isdigit_not_space: "isdigit c \<Longrightarrow> \<not> isspace c"
  by (auto simp: isdigit_def isspace_def)

lemma isdigit_not_sign: "isdigit c \<Longrightarrow> c \<noteq> CHR ''-'' \<and> c \<noteq> CHR ''+''"
  by (auto simp: isdigit_def)

lemma takeWhile_digits_dec:
  "(rest \<noteq> [] \<longrightarrow> \<not> isdigit (hd rest)) \<Longrightarrow>
   takeWhile isdigit (dec_nat n @ rest) = dec_nat n \<and>
   dropWhile isdigit (dec_nat n @ rest) = rest"
  using dec_nat_digits [of n]
  by (cases rest) (auto simp: takeWhile_append dropWhile_append takeWhile_eq_all_conv)

lemma dropWhile_hd: "xs \<noteq> [] \<Longrightarrow> \<not> P (hd xs) \<Longrightarrow> dropWhile P xs = xs"
  by (cases xs) auto

lemma hd_dec_nat: "isdigit (hd (dec_nat n @ rest))"
  using dec_nat_digits [of n] dec_nat_nonempty [of n] by (cases "dec_nat n") auto

lemma strtol10_dec:
  assumes "in_long x" and "rest \<noteq> [] \<longrightarrow> \<not> isdigit (hd rest)"
  shows "strtol10 (dec x @ rest) = Some (x, rest)"
proof -
  have clamp: "clamp_long x = x"
    using assms(1) by (simp add: clamp_long_def in_long_def LONG_MAX_def LONG_MIN_def)
  show ?thesis
  proof (cases "x < 0")
    case True
    have "dropWhile isspace (CHR ''-'' # dec_nat (nat (- x)) @ rest) =
          CHR ''-'' # dec_nat (nat (- x)) @ rest"
      by (simp add: isspace_def)
    with True show ?thesis
      using takeWhile_digits_dec [OF assms(2), of "nat (- x)"] clamp
      by (simp add: dec_def strtol10_def Let_def digits_val_dec_nat)
  next
    case False
    let ?d = "dec_nat (nat x) @ rest"
    have "dropWhile isspace ?d = ?d"
      using hd_dec_nat [of "nat x" rest] by (intro dropWhile_hd) (auto dest: isdigit_not_space)
    moreover have "hd ?d \<noteq> CHR ''-'' \<and> hd ?d \<noteq> CHR ''+''"
      using hd_dec_nat [of "nat x" rest] by (rule isdigit_not_sign)
    ultimately show ?thesis
      using False takeWhile_digits_dec [OF assms(2), of "nat x"] clamp
      by (simp add: dec_def strtol10_def Let_def digits_val_dec_nat)
  qed
qed

lemma atol_dec: "in_long x \<Longrightarrow> atol (dec x) = x"
  using strtol10_dec [of x "[]"] by (simp add: atol_def)

lemma scan_long_dec:
  "in_long x \<Longrightarrow> rest \<noteq> [] \<longrightarrow> \<not> isdigit (hd rest) \<Longrightarrow> scan_long (dec x @ rest) = ScanOk x rest"
  by (intro scan_long_strtol strtol10_dec)

section \<open>Standard input and output\<close>

text \<open>
  \<open>tin\<close> is the rest of standard input, \<open>tout\<close> what was printed so far (on either stream: the
  programs send both to the terminal).
\<close>

record tty =
  tin :: string
  tout :: string

definition puts :: "string \<Rightarrow> (unit, 'm tty_scheme) prog" where
  "puts x = upd (\<lambda>s. s\<lparr>tout := tout s @ x\<rparr>)"

lemma puts_run [run_simps]: "puts x s = (Ret (), s\<lparr>tout := tout s @ x\<rparr>)"
  by (simp add: puts_def upd_def)

text \<open>\<open>fgets(buf, n, f)\<close> takes at most \<open>n - 1\<close> bytes and stops after a newline.\<close>

fun take_line :: "nat \<Rightarrow> string \<Rightarrow> string \<times> string" where
  "take_line 0 s = ([], s)"
| "take_line (Suc k) [] = ([], [])"
| "take_line (Suc k) (c # cs) =
     (if c = NL then ([c], cs)
      else let (a, b) = take_line k cs in (c # a, b))"

lemma take_line_append: "take_line k s = (a, b) \<Longrightarrow> s = a @ b"
  by (induction k s arbitrary: a b rule: take_line.induct) (auto split: if_splits prod.splits)

lemma take_line_length: "take_line k s = (a, b) \<Longrightarrow> length a \<le> k"
  by (induction k s arbitrary: a b rule: take_line.induct) (auto split: if_splits prod.splits)

lemma take_line_nonempty: "take_line (Suc k) s = (a, b) \<Longrightarrow> s \<noteq> [] \<Longrightarrow> a \<noteq> []"
  by (cases s) (auto split: if_splits prod.splits)

lemma take_line_whole:
  "NL \<notin> set l \<Longrightarrow> length l < k \<Longrightarrow> take_line k (l @ NL # rest) = (l @ [NL], rest)"
proof (induction l arbitrary: k)
  case Nil
  then show ?case by (cases k) auto
next
  case (Cons c l)
  then show ?case by (cases k) auto
qed

lemma take_line_last:
  "NL \<notin> set l \<Longrightarrow> length l \<le> k \<Longrightarrow> take_line k l = (l, [])"
proof (induction l arbitrary: k)
  case Nil
  then show ?case by (cases k) auto
next
  case (Cons c l)
  then show ?case by (cases k) auto
qed

text \<open>All the lines \<open>fgets\<close> gives from a file, one after the other.\<close>

function pieces :: "nat \<Rightarrow> string \<Rightarrow> string list" where
  "pieces k f = (if f = [] \<or> k = 0 then []
     else let (a, b) = take_line k f in a # pieces k b)"
  by pat_completeness auto
termination
proof (relation "measure (\<lambda>(k, f). length f)", goal_cases)
  case (2 k f p a b)
  then obtain m where "k = Suc m" by (cases k) auto
  with 2 take_line_nonempty [of m f a b] take_line_append [of k f a b] show ?case by simp
qed simp

declare pieces.simps [simp del]

lemma pieces_line:
  assumes "NL \<notin> set l" "length l < k"
  shows "pieces k (l @ NL # rest) = (l @ [NL]) # pieces k rest"
  using assms take_line_whole [OF assms] by (subst pieces.simps) auto

lemma pieces_Nil [simp]: "pieces k [] = []"
  by (simp add: pieces.simps)

text \<open>\<open>None\<close> is a NULL result: end of file, and the caller's buffer keeps its contents.\<close>

definition fgets :: "nat \<Rightarrow> (string option, 'm tty_scheme) prog" where
  "fgets n s = (if tin s = [] then (Ret None, s)
     else let (a, b) = take_line (n - 1) (tin s) in (Ret (Some (cstr a)), s\<lparr>tin := b\<rparr>))"

definition getchar :: "(char option, 'm tty_scheme) prog" where
  "getchar s = (case tin s of [] \<Rightarrow> (Ret None, s) | c # cs \<Rightarrow> (Ret (Some c), s\<lparr>tin := cs\<rparr>))"

text \<open>\<open>while (getchar() != '\n');\<close> never ends once the input has.\<close>

definition skip_line :: "(unit, 'm tty_scheme) prog" where
  "skip_line s = (case split_at NL (tin s) of
     None \<Rightarrow> (Hang, s\<lparr>tin := []\<rparr>) | Some (_, rest) \<Rightarrow> (Ret (), s\<lparr>tin := rest\<rparr>))"

text \<open>Every one of these only consumes input.\<close>

definition consumes :: "'m tty_scheme \<Rightarrow> 'm tty_scheme \<Rightarrow> bool" where
  "consumes s t \<longleftrightarrow> length (tin t) \<le> length (tin s)"

interpretation eats: frame_rel consumes
  by unfold_locales (auto simp: consumes_def)

lemma puts_consumes [intro]: "keeps consumes (puts x)"
  by (auto simp: puts_def consumes_def intro!: eats.keeps_upd)

lemma fgets_consumes [intro]: "keeps consumes (fgets n)"
  by (auto simp: keeps_def fgets_def consumes_def dest: take_line_append
      split: if_splits prod.splits)

lemma getchar_consumes [intro]: "keeps consumes getchar"
  by (auto simp: keeps_def getchar_def consumes_def split: list.splits)

lemma skip_line_consumes [intro]: "keeps consumes skip_line"
  by (auto simp: keeps_def skip_line_def consumes_def dest!: split_at_SomeD split: option.splits)

lemma fgets_shrinks:
  assumes "fgets n s = (Ret (Some b), t)" and "1 < n"
  shows "length (tin t) < length (tin s)"
proof -
  obtain a rest where l: "take_line (n - 1) (tin s) = (a, rest)" by fastforce
  with assms have ne: "tin s \<noteq> []" and t: "tin t = rest"
    by (auto simp: fgets_def split: if_splits)
  from assms(2) obtain k where "n - 1 = Suc k" by (cases "n - 1") auto
  with l ne have "a \<noteq> []" by (metis take_line_nonempty)
  with l t show ?thesis by (auto dest: take_line_append)
qed

end
