(* ===== verification/Grexhash.thy ===== *)
theory Grexhash
  imports CLib
begin

text \<open>
  The password hash of \<open>soft/libgrex/grexhash.c\<close>: the realm taken from a host name, the keyed
  hash over password, user, instance and realm, the base-85 text form of a key and its inverse,
  and the two entry points. SHA-1 is OpenSSL's: a parameter \<open>sha1\<close> from byte lists to byte lists.
  Bytes are naturals below 256.
\<close>

section \<open>The realm of a host\<close>

text \<open>
  The scan keeps three pointers: the text after the last dot, after the one before, and after
  the one before that; a final dot is flagged and not passed.
\<close>

function scan_dots ::
  "string \<Rightarrow> string \<Rightarrow> string option \<Rightarrow> string option \<Rightarrow>
   nat \<times> string \<times> string option \<times> string option" where
  "scan_dots s1 s2 s3 s4 = (case split_at CHR ''.'' s1 of
     None \<Rightarrow> (0, s2, s3, s4)
   | Some (_, rest) \<Rightarrow>
       if rest = [] then (1, s2, s3, s4) else scan_dots rest rest (Some s2) s3)"
  by pat_completeness auto
termination
  by (relation "measure (\<lambda>(s1, s2, s3, s4). length s1)") (auto dest: split_at_SomeD)

declare scan_dots.simps [simp del]

definition foreign :: "string \<Rightarrow> string \<Rightarrow> nat \<Rightarrow> bool" where
  "foreign a b c \<longleftrightarrow> length a - c = 2 \<and> length b - c \<le> 6"

definition upcase :: "char \<Rightarrow> char" where
  "upcase c = (if 97 \<le> byte c \<and> byte c \<le> 122 then char_of (byte c - 32) else c)"

text \<open>
  The copy loop: fails when \<open>rsize\<close> runs out; a dot that turns out to be the last character
  is overwritten by the terminator. The flag is the C variable \<open>s2\<close>: the last character was a dot.
\<close>

fun copy_realm :: "string \<Rightarrow> int \<Rightarrow> bool \<Rightarrow> string \<Rightarrow> string option" where
  "copy_realm [] rsize dot out = Some (if dot then butlast out else out)"
| "copy_realm (c # cs) rsize dot out =
     (if rsize - 1 \<le> 0 then None
      else copy_realm cs (rsize - 1) (c = CHR ''.'') (out @ [upcase c]))"

definition kg_realmofhost :: "string \<Rightarrow> int \<Rightarrow> string option" where
  "kg_realmofhost hostname rsize =
     (let (c, s2, s3, s4) = scan_dots hostname hostname None None in
      case s3 of
        None \<Rightarrow> None
      | Some b \<Rightarrow>
          if foreign s2 b c \<and> s4 = None then None
          else let r = (case s4 of None \<Rightarrow> b | Some d \<Rightarrow> if foreign s2 b c then d else b)
               in copy_realm r (if c \<noteq> 0 then rsize + 1 else rsize) False [])"

definition GREXHASHREALM :: string where
  "GREXHASHREALM = ''grex.cyberspace.org''"

definition kg_localrealm :: "int \<Rightarrow> string option" where
  "kg_localrealm lsize = kg_realmofhost (strlcpy 512 GREXHASHREALM) lsize"

section \<open>The key\<close>

definition bytes :: "string \<Rightarrow> nat list" where
  "bytes s = map byte s"

definition cbytes :: "string \<Rightarrow> nat list" where
  "cbytes s = bytes s @ [0]"

definition kg_string_to_key ::
  "(nat list \<Rightarrow> nat list) \<Rightarrow> string \<Rightarrow> string \<Rightarrow> string \<Rightarrow> string \<Rightarrow> nat list" where
  "kg_string_to_key sha1 clear user instnc realm =
     (let len = length clear + 1;
          inner = sha1 (replicate (128 - len mod 64) 92 @ cbytes clear @ cbytes user
                        @ cbytes instnc @ cbytes realm)
      in sha1 (cbytes clear @ replicate (128 - len mod 64) 54 @ take 20 inner))"

section \<open>Base 85\<close>

text \<open>One pass of the encoder: divide the big-endian number in place by 85.\<close>

fun div_pass :: "nat \<Rightarrow> nat list \<Rightarrow> nat \<times> nat list" where
  "div_pass r [] = (r, [])"
| "div_pass r (u # us) =
     (let v = r * 256 + u; (r', us') = div_pass (v mod 85) us
      in (r', (v div 85) mod 256 # us'))"

definition b85_code :: "nat \<Rightarrow> nat" where
  "b85_code r0 =
     (let r1 = r0 + 33;
          r2 = (if 44 \<le> r1 then r1 + 1 else r1);
          r3 = (if 58 \<le> r2 then r2 + 1 else r2);
          r4 = (if 59 \<le> r3 then r3 + 1 else r3)
      in if 92 \<le> r4 then r4 + 1 else r4)"

fun b85_digits :: "nat \<Rightarrow> nat list \<Rightarrow> nat list \<Rightarrow> nat list" where
  "b85_digits 0 temp rp = rp"
| "b85_digits (Suc n) temp rp =
     (let (r, temp') = div_pass 0 temp in b85_digits n temp' (b85_code r # rp))"

definition b85_len :: "nat \<Rightarrow> nat" where
  "b85_len ksize = 1 + (ksize * 81800 + 65535) div 65536"

text \<open>
  \<open>kg_bin_to_str\<close>. The scratch area \<open>temp\<close> is not initialised before the call
  \<open>memmove(key, temp, ksize)\<close>, whose destination is \<open>key\<close>: \<open>junk\<close> stands for whatever the area
  held. The call overwrites the key with it, and the digits are those of \<open>junk\<close>. The last digit
  is stored over the last byte of the number, after its last division. The result is the text,
  or \<open>None\<close> with the string emptied, and the key as the call leaves it.
\<close>

definition kg_bin_to_str ::
  "nat list \<Rightarrow> nat list \<Rightarrow> nat \<Rightarrow> nat \<Rightarrow> nat list option \<times> nat list" where
  "kg_bin_to_str junk key ksize strsize =
     (let hlen = b85_len ksize in
      if strsize < hlen then (None, key)
      else let temp = take ksize junk
           in (Some (take (strsize - 1) (b85_digits hlen temp [])), temp @ drop ksize key))"

text \<open>Decoding: one character, then one multiplication pass from the right.\<close>

definition b85_value :: "nat \<Rightarrow> nat option" where
  "b85_value r =
     (if r = 92 then None else
      let r1 = (if 92 < r then r - 1 else r) in
      if r1 = 59 then None else if r1 = 58 then None else
      let r2 = (if 58 < r1 then r1 - 2 else r1) in
      if r2 = 44 then None else
      let r3 = (if 44 < r2 then r2 - 1 else r2) in
      if r3 < 33 \<or> 85 \<le> r3 - 33 then None else Some (r3 - 33))"

definition mul_step :: "nat \<Rightarrow> nat \<times> nat list \<Rightarrow> nat \<times> nat list" where
  "mul_step u p = (let v = fst p + u * 85 in (v div 256, v mod 256 # snd p))"

definition mul_pass :: "nat \<Rightarrow> nat list \<Rightarrow> nat \<times> nat list" where
  "mul_pass r key = foldr mul_step key (r, [])"

fun str_to_bin_loop :: "nat list \<Rightarrow> nat list \<Rightarrow> nat list option" where
  "str_to_bin_loop [] key = Some key"
| "str_to_bin_loop (c # cs) key = (case b85_value c of
     None \<Rightarrow> None
   | Some r \<Rightarrow> (let (carry, key') = mul_pass r key in
       if carry \<noteq> 0 then None else str_to_bin_loop cs key'))"

definition kg_str_to_bin :: "nat list \<Rightarrow> nat \<Rightarrow> nat list option" where
  "kg_str_to_bin str ksize = str_to_bin_loop str (replicate ksize 0)"

section \<open>The hash\<close>

definition HLEN :: nat where "HLEN = 26"

definition kg_pwhash ::
  "(nat list \<Rightarrow> nat list) \<Rightarrow> nat list \<Rightarrow> string \<Rightarrow> string \<Rightarrow> nat \<Rightarrow> nat list option" where
  "kg_pwhash sha1 junk clear user rsize =
     (if rsize < 3 then None else
      case kg_localrealm 64 of
        None \<Rightarrow> None
      | Some realm \<Rightarrow>
          (let key = kg_string_to_key sha1 clear user '''' realm
           in case fst (kg_bin_to_str junk key 20 (rsize - 2)) of
                None \<Rightarrow> None
              | Some t \<Rightarrow> Some (bytes ''%!'' @ t)))"

definition grexhash_r ::
  "(nat list \<Rightarrow> nat list) \<Rightarrow> nat list \<Rightarrow> string \<Rightarrow> string \<Rightarrow> nat \<Rightarrow> nat list option" where
  "grexhash_r sha1 junk pass user reslen =
     (if reslen < HLEN then None else kg_pwhash sha1 junk pass user reslen)"

section \<open>Correctness of the text form\<close>

subsection \<open>Numbers as byte lists\<close>

fun bval :: "nat list \<Rightarrow> nat" where
  "bval [] = 0"
| "bval (u # us) = u * 256 ^ length us + bval us"

fun dval :: "nat list \<Rightarrow> nat" where
  "dval [] = 0"
| "dval (d # ds) = d * 85 ^ length ds + dval ds"

definition octets :: "nat list \<Rightarrow> bool" where
  "octets us \<longleftrightarrow> (\<forall>u \<in> set us. u < 256)"

lemma octets_Cons [simp]: "octets (u # us) \<longleftrightarrow> u < 256 \<and> octets us"
  and octets_Nil [simp]: "octets []"
  and octets_replicate [simp]: "octets (replicate n 0)"
  by (auto simp: octets_def)

lemma place_less:
  fixes u v b m :: nat
  assumes "u < b" "v < m"
  shows "u * m + v < b * m"
proof -
  have "u * m + v < Suc u * m" using assms(2) by simp
  also have "Suc u * m \<le> b * m" using assms(1) by (intro mult_right_mono) auto
  finally show ?thesis .
qed

lemma bval_less: "octets us \<Longrightarrow> bval us < 256 ^ length us"
proof (induction us)
  case (Cons u us)
  then have "u * 256 ^ length us + bval us < 256 * 256 ^ length us"
    by (intro place_less) auto
  then show ?case by simp
qed simp

lemma base_split_unique:
  fixes a b c d m :: nat
  assumes "a * m + b = c * m + d" "b < m" "d < m"
  shows "a = c \<and> b = d"
proof -
  have "(a * m + b) div m = a" "(c * m + d) div m = c" using assms(2,3) by auto
  with assms show ?thesis by auto
qed

lemma bval_inj: "octets us \<Longrightarrow> octets vs \<Longrightarrow> length us = length vs \<Longrightarrow> bval us = bval vs \<Longrightarrow> us = vs"
proof (induction us arbitrary: vs)
  case Nil
  then show ?case by simp
next
  case (Cons u us)
  from Cons.prems(3) obtain v ws where vs: "vs = v # ws" by (cases vs) auto
  have o: "octets us" "octets ws" and l: "length us = length ws" using Cons.prems(1-3) vs by auto
  have "u * 256 ^ length us + bval us = v * 256 ^ length us + bval ws"
    using Cons.prems(4) l by (simp add: vs)
  moreover have "bval us < 256 ^ length us" using o(1) by (rule bval_less)
  moreover have "bval ws < 256 ^ length us" using bval_less [OF o(2)] l by simp
  ultimately have "u = v \<and> bval us = bval ws" by (rule base_split_unique)
  with Cons.IH [OF o l] vs show ?case by simp
qed

lemma dval_append: "dval (ds @ [r]) = 85 * dval ds + r"
  by (induction ds) (auto simp: algebra_simps)

lemma bval_replicate [simp]: "bval (replicate n 0) = 0"
  by (induction n) auto

subsection \<open>The two passes\<close>

lemma div_pass_spec:
  assumes "octets us" "r < 85" "div_pass r us = (r', us')"
  shows "r * 256 ^ length us + bval us = 85 * bval us' + r' \<and> r' < 85 \<and>
    length us' = length us \<and> octets us'"
  using assms
proof (induction us arbitrary: r us')
  case (Cons u us)
  define v where "v = r * 256 + u"
  obtain vs where d: "div_pass (v mod 85) us = (r', vs)" and us': "us' = (v div 85) mod 256 # vs"
    using Cons.prems(3) by (auto simp: Let_def v_def split: prod.splits)
  have small: "(v div 85) mod 256 = v div 85" using Cons.prems(1,2) by (auto simp: v_def)
  have ih: "v mod 85 * 256 ^ length us + bval us = 85 * bval vs + r'" "r' < 85"
    "length vs = length us" "octets vs"
    using Cons.IH [OF _ _ d] Cons.prems(1) by auto
  have "r * 256 ^ length (u # us) + bval (u # us) = v * 256 ^ length us + bval us"
    by (simp add: v_def algebra_simps)
  also have "v * 256 ^ length us = (85 * (v div 85) + v mod 85) * 256 ^ length us" by simp
  also have "\<dots> + bval us = 85 * ((v div 85) * 256 ^ length us) + (v mod 85 * 256 ^ length us + bval us)"
    by (simp only: distrib_right add.assoc mult.assoc)
  finally show ?case using ih small by (simp add: us')
qed simp

lemma mul_pass_Cons: "mul_pass r (u # us) = mul_step u (mul_pass r us)"
  by (simp add: mul_pass_def)

lemma mul_pass_spec:
  assumes "octets us" "mul_pass r us = (c, us')"
  shows "c * 256 ^ length us + bval us' = 85 * bval us + r \<and> length us' = length us \<and> octets us'"
  using assms
proof (induction us arbitrary: c us')
  case Nil
  then show ?case by (simp add: mul_pass_def)
next
  case (Cons u us)
  obtain c1 vs where m: "mul_pass r us = (c1, vs)" by fastforce
  define v where "v = c1 + u * 85"
  from Cons.prems(2) m have c: "c = v div 256" and us': "us' = v mod 256 # vs"
    by (auto simp: mul_pass_Cons mul_step_def Let_def v_def)
  have ih: "c1 * 256 ^ length us + bval vs = 85 * bval us + r" "length vs = length us" "octets vs"
    using Cons.IH [OF _ m] Cons.prems by auto
  have "c * 256 ^ length (u # us) + bval us' =
        (v div 256 * 256 + v mod 256) * 256 ^ length us + bval vs"
    by (simp only: c us' bval.simps length_Cons power_Suc ih(2) distrib_right mult.assoc add.assoc)
  also have "v div 256 * 256 + v mod 256 = c1 + u * 85" by (simp add: v_def)
  also have "(c1 + u * 85) * 256 ^ length us + bval vs = 85 * (u * 256 ^ length us) + (85 * bval us + r)"
    using ih(1) by (simp add: distrib_right)
  finally show ?case using ih by (simp add: us')
qed

lemma mul_pass_fits:
  assumes "octets us" "85 * bval us + r < 256 ^ length us"
  obtains us' where "mul_pass r us = (0, us')" "bval us' = 85 * bval us + r"
    "length us' = length us" "octets us'"
proof -
  obtain c us' where m: "mul_pass r us = (c, us')" by fastforce
  note spec = mul_pass_spec [OF assms(1) m]
  have "c = 0"
  proof (rule ccontr)
    assume "c \<noteq> 0"
    then have "1 * 256 ^ length us \<le> c * 256 ^ length us" by (intro mult_right_mono) auto
    with spec assms(2) show False by linarith
  qed
  with m spec that show ?thesis by auto
qed

subsection \<open>Characters\<close>

lemma b85_value_code: "r < 85 \<Longrightarrow> b85_value (b85_code r) = Some r"
  by (auto simp: b85_value_def b85_code_def Let_def)

lemma b85_code_printable: "r < 85 \<Longrightarrow> 33 \<le> b85_code r \<and> b85_code r \<le> 121 \<and>
   b85_code r \<notin> {44, 58, 59, 92}"
  by (auto simp: b85_code_def Let_def)

subsection \<open>Digits and back\<close>

lemma b85_digits_spec:
  "octets temp \<Longrightarrow> \<exists>ds q. b85_digits n temp rp = map b85_code ds @ rp \<and> length ds = n \<and>
     (\<forall>d \<in> set ds. d < 85) \<and> bval temp = q * 85 ^ n + dval ds"
proof (induction n arbitrary: temp rp)
  case 0
  then show ?case by simp
next
  case (Suc n)
  obtain r temp' where d: "div_pass 0 temp = (r, temp')" by fastforce
  note spec = div_pass_spec [OF Suc.prems _ d, simplified]
  from spec Suc.IH [of temp' "b85_code r # rp"] obtain ds q where
    ds: "b85_digits n temp' (b85_code r # rp) = map b85_code ds @ b85_code r # rp"
      "length ds = n" "\<forall>d \<in> set ds. d < 85" "bval temp' = q * 85 ^ n + dval ds" by blast
  have "bval temp = 85 * (q * 85 ^ n + dval ds) + r" using spec ds(4) by simp
  then have "bval temp = q * 85 ^ Suc n + dval (ds @ [r])" by (simp add: dval_append algebra_simps)
  with ds spec d show ?case by (intro exI [of _ "ds @ [r]"] exI [of _ q]) auto
qed

lemma b85_digits_length: "length (b85_digits n temp rp) = n + length rp"
  by (induction n arbitrary: temp rp) (auto split: prod.splits)

lemma str_to_bin_loop_spec:
  "octets key \<Longrightarrow> (\<forall>d \<in> set ds. d < 85) \<Longrightarrow>
   bval key * 85 ^ length ds + dval ds < 256 ^ length key \<Longrightarrow>
   \<exists>key'. str_to_bin_loop (map b85_code ds) key = Some key' \<and> length key' = length key \<and>
     octets key' \<and> bval key' = bval key * 85 ^ length ds + dval ds"
proof (induction ds arbitrary: key)
  case Nil
  then show ?case by simp
next
  case (Cons d ds)
  have eq: "bval key * 85 ^ length (d # ds) + dval (d # ds) =
      (85 * bval key + d) * 85 ^ length ds + dval ds" by (simp add: algebra_simps)
  have "85 * bval key + d \<le> (85 * bval key + d) * 85 ^ length ds" by simp
  with Cons.prems(3) eq have "85 * bval key + d < 256 ^ length key" by linarith
  then obtain key1 where k: "mul_pass d key = (0, key1)" "bval key1 = 85 * bval key + d"
    "length key1 = length key" "octets key1" using mul_pass_fits [OF Cons.prems(1)] by metis
  with Cons.prems eq Cons.IH [of key1] show ?case
    by (auto simp: b85_value_code)
qed

lemma decode_b85_digits:
  assumes "octets temp" "256 ^ length temp \<le> (85 :: nat) ^ n"
  shows "kg_str_to_bin (b85_digits n temp []) (length temp) = Some temp"
proof -
  obtain ds q where ds: "b85_digits n temp [] = map b85_code ds" "length ds = n"
    "\<forall>d \<in> set ds. d < 85" "bval temp = q * 85 ^ n + dval ds"
    using b85_digits_spec [OF assms(1), of n "[]"] by auto
  have "bval temp < 85 ^ n" using bval_less [OF assms(1)] assms(2) by simp
  with ds(4) have "q = 0" by (cases q) auto
  with ds have v: "bval temp = dval ds" by simp
  let ?z = "replicate (length temp) (0::nat)"
  have "bval ?z * 85 ^ length ds + dval ds < 256 ^ length ?z"
    using bval_less [OF assms(1)] v by simp
  from str_to_bin_loop_spec [OF _ ds(3) this] obtain key' where
    "str_to_bin_loop (map b85_code ds) ?z = Some key'" "length key' = length temp"
    "octets key'" "bval key' = bval temp" using v by auto
  then show ?thesis
    using assms(1) bval_inj [of key' temp] by (simp add: kg_str_to_bin_def ds(1))
qed

section \<open>The realm fits its buffer\<close>

lemma scan_dots_last:
  assumes "scan_dots s1 s2 s3 s4 = (c, t2, t3, t4)" "s1 \<noteq> []" "s2 \<noteq> []"
    and "last s2 = last s1" "\<forall>x. s3 = Some x \<or> s4 = Some x \<longrightarrow> x \<noteq> [] \<and> last x = last s1"
  shows "(\<forall>x. t3 = Some x \<or> t4 = Some x \<longrightarrow> x \<noteq> [] \<and> last x = last s1) \<and>
    (c = 0 \<or> c = 1 \<and> last s1 = CHR ''.'')"
  using assms
proof (induction s1 s2 s3 s4 rule: scan_dots.induct)
  case (1 s1 s2 s3 s4)
  show ?case
  proof (cases "split_at CHR ''.'' s1")
    case None
    with "1.prems" show ?thesis by (auto simp: scan_dots.simps [of s1])
  next
    case (Some p)
    obtain a rest where p: "p = (a, rest)" by fastforce
    then have s1: "s1 = a @ CHR ''.'' # rest" using Some by (auto dest: split_at_SomeD)
    have step: "scan_dots s1 s2 s3 s4 =
        (if rest = [] then (1, s2, s3, s4) else scan_dots rest rest (Some s2) s3)"
      using Some p by (subst scan_dots.simps) simp
    show ?thesis
    proof (cases "rest = []")
      case True
      with "1.prems" step s1 show ?thesis by auto
    next
      case False
      then have lr: "last rest = last s1" using s1 by simp
      have sd: "scan_dots rest rest (Some s2) s3 = (c, t2, t3, t4)"
        using "1.prems"(1) step False by simp
      have "\<forall>x. Some s2 = Some x \<or> s3 = Some x \<longrightarrow> x \<noteq> [] \<and> last x = last rest"
        unfolding lr using "1.prems"(3-5) by blast
      from "1.IH" [OF Some p [symmetric] False sd False False refl this] show ?thesis
        unfolding lr .
    qed
  qed
qed

lemma copy_realm_spec:
  "copy_realm cs n dot out = Some r \<Longrightarrow> cs \<noteq> [] \<Longrightarrow>
   int (length cs) < n \<and>
   r = (if last cs = CHR ''.'' then butlast (out @ map upcase cs) else out @ map upcase cs)"
proof (induction cs arbitrary: n dot out)
  case (Cons c cs)
  show ?case
  proof (cases "cs = []")
    case True
    with Cons.prems show ?thesis by (auto split: if_splits)
  next
    case False
    with Cons.prems Cons.IH [of "n - 1" "c = CHR ''.''" "out @ [upcase c]"] show ?thesis
      by (auto split: if_splits)
  qed
qed simp

lemma kg_realmofhost_bound:
  assumes "kg_realmofhost h n = Some r"
  shows "int (length r) < n"
proof -
  obtain c t2 t3 t4 where sd: "scan_dots h h None None = (c, t2, t3, t4)" by (cases "scan_dots h h None None") auto
  from assms sd obtain b where b: "t3 = Some b" by (auto simp: kg_realmofhost_def split: option.splits)
  have ne: "h \<noteq> []"
    using sd b by (auto simp: scan_dots.simps)
  define x where "x = (case t4 of None \<Rightarrow> b | Some d \<Rightarrow> if foreign t2 b c then d else b)"
  note last = scan_dots_last [OF sd ne ne]
  have x: "x \<noteq> []" "last x = last h"
    using last b by (auto simp: x_def split: option.splits)
  from assms sd b have cp: "copy_realm x (if c \<noteq> 0 then n + 1 else n) False [] = Some r"
    by (auto simp: kg_realmofhost_def x_def split: if_splits)
  note cs = copy_realm_spec [OF cp x(1)]
  have "c = 0 \<or> c = 1 \<and> last x = CHR ''.''" using last x(2) by simp
  then show ?thesis
  proof
    assume "c = 0"
    with cs show ?thesis by (auto split: if_splits)
  next
    assume c: "c = 1 \<and> last x = CHR ''.''"
    with cs have "r = butlast (map upcase x)" by simp
    then have "length r = length x - 1" by simp
    moreover have "0 < length x" using x(1) by simp
    moreover have "int (length x) < n + 1" using cs c by simp
    ultimately show ?thesis by linarith
  qed
qed

lemma kg_localrealm_grex: "kg_localrealm 64 = Some ''CYBERSPACE.ORG''"
proof -
  have "scan_dots ''grex.cyberspace.org'' ''grex.cyberspace.org'' None None =
      (0, ''org'', Some ''cyberspace.org'', Some ''grex.cyberspace.org'')"
    by (simp add: scan_dots.simps)
  moreover have "copy_realm ''cyberspace.org'' 64 False [] = Some ''CYBERSPACE.ORG''" by code_simp
  ultimately show ?thesis
    by (simp add: kg_localrealm_def kg_realmofhost_def GREXHASHREALM_def strlcpy_def
        foreign_def del: copy_realm.simps)
qed

section \<open>Properties\<close>

text \<open>
  C24: the text \<open>kg_bin_to_str\<close> makes of a 20-byte key, with room for its 26 digits and the terminator, decodes with
  \<open>kg_str_to_bin\<close> to exactly what the caller's key buffer holds after the call. Because the copy in front of the loop goes the
  wrong way, that is what the scratch area held before, whatever key was passed. With one byte less room
  the call still succeeds, and the text has lost its last digit.
\<close>

theorem b85_roundtrip:
  assumes "octets junk" and "20 \<le> length junk" and "length key = 20" and "27 \<le> strsize"
  shows "\<exists>str. kg_bin_to_str junk key 20 strsize = (Some str, take 20 junk) \<and> length str = 26 \<and>
    kg_str_to_bin str 20 = Some (take 20 junk) \<and> kg_bin_to_str junk key 20 26 = (Some (butlast str), take 20 junk)"
proof -
  have len: "b85_len 20 = 26" by (simp add: b85_len_def)
  let ?str = "b85_digits 26 (take 20 junk) []"
  have l: "length ?str = 26" by (simp add: b85_digits_length)
  have o: "octets (take 20 junk)" using assms(1) by (auto simp: octets_def dest: in_set_takeD)
  have "kg_str_to_bin ?str 20 = Some (take 20 junk)"
    using decode_b85_digits [OF o, of 26] assms(2) by simp
  moreover have "kg_bin_to_str junk key 20 strsize = (Some ?str, take 20 junk)"
    using assms(3,4) l by (simp add: kg_bin_to_str_def len Let_def)
  moreover have "kg_bin_to_str junk key 20 26 = (Some (butlast ?str), take 20 junk)"
    using assms(3) l by (simp add: kg_bin_to_str_def len Let_def butlast_conv_take)
  ultimately show ?thesis using l by blast
qed

theorem b85_roundtrip_witness:
  "\<exists>str. kg_bin_to_str (replicate 28 7) (replicate 20 1) 20 30 = (Some str, replicate 20 7) \<and> length str = 26 \<and>
    kg_str_to_bin str 20 = Some (replicate 20 7)"
proof -
  have o: "octets (replicate 28 7)" by (simp add: octets_def)
  have t: "take 20 (replicate 28 (7::nat)) = replicate 20 7" by simp
  show ?thesis using b85_roundtrip [OF o, of "replicate 20 1" 30] unfolding t by auto
qed

text \<open>
  The hash does not depend on the password, nor on the user: whatever SHA-1 does, two calls
  that find the same bytes in the uninitialised scratch area return the same string, because
  \<open>kg_bin_to_str\<close> copies the scratch area over the key instead of the key into it.
\<close>

theorem grexhash_ignores_password:
  "grexhash_r sha1 junk pass user reslen = grexhash_r sha1 junk pass' user' reslen"
  by (simp add: grexhash_r_def kg_pwhash_def kg_bin_to_str_def Let_def split: option.splits)

text \<open>
  Exactly which buffer sizes give a hash, and its length: below 28 there is none, from 29 on
  it has its 28 characters, and at 28 the call succeeds although the text has lost its last digit.
\<close>

theorem grexhash_length:
  "map_option length (grexhash_r sha1 junk pass user reslen) =
   (if reslen < 28 then None else Some (min (reslen - 1) 28))"
  by (auto simp: grexhash_r_def kg_pwhash_def kg_localrealm_grex kg_bin_to_str_def b85_len_def
      HLEN_def b85_digits_length bytes_def Let_def min_def)

text \<open>
  A realm always fits the buffer it is copied to, its terminator included, for every host
  name, with or without a final dot.
\<close>

theorem realm_fits_buffer:
  assumes "kg_realmofhost hostname rsize = Some realm"
  shows "int (length realm) + 1 \<le> rsize"
  using kg_realmofhost_bound [OF assms] by simp

theorem realm_fits_buffer_witness:
  "kg_realmofhost ''a.bcd.efg.'' 8 = Some ''BCD.EFG'' \<and> int (length ''BCD.EFG'') + 1 \<le> 8"
proof -
  have "scan_dots ''a.bcd.efg.'' ''a.bcd.efg.'' None None =
      (1, ''efg.'', Some ''bcd.efg.'', Some ''a.bcd.efg.'')"
    by (simp add: scan_dots.simps)
  moreover have "copy_realm ''bcd.efg.'' 9 False [] = Some ''BCD.EFG''" by code_simp
  ultimately have h: "kg_realmofhost ''a.bcd.efg.'' 8 = Some ''BCD.EFG''"
    by (simp add: kg_realmofhost_def foreign_def del: copy_realm.simps)
  show ?thesis using h realm_fits_buffer [OF h] by simp
qed

end
