(* ===== verification/BankStore.thy ===== *)
theory BankStore
  imports CLib
begin

text \<open>
  The storage layer of \<open>soft/apps/bank/bank.c\<close>: the bank file (one \<open>long\<close> per uid), the
  transaction file (fixed-size entries, possibly with a torn tail), the two lock files, and the
  operations on them. The operating system's side (account database, clock formatting, what other
  processes do while this one sleeps, whether the directory is writable) is the record
  \<open>bank_env\<close>, a parameter of every operation that needs it.
\<close>

section \<open>State\<close>

record trans_ent =
  to_uid :: int
  code :: int
  fr_id :: string
  why :: string
  amount :: int

definition TR_NONE :: int where "TR_NONE = 0"
definition TR_XFER :: int where "TR_XFER = 1"
definition TR_GIFT :: int where "TR_GIFT = 2"
definition TR_FINE :: int where "TR_FINE = 3"

definition OPENDELAY :: int where "OPENDELAY = 1"
definition INITBALANCE :: int where "INITBALANCE = 10"

definition abbr :: string where "abbr = ''gb''"

text \<open>\<open>trname\<close> has four entries; any other index reads outside the array.\<close>

definition trname :: "int \<Rightarrow> string option" where
  "trname c = (if c = 0 then Some ''bug'' else if c = 1 then Some ''transfer''
     else if c = 2 then Some ''gift'' else if c = 3 then Some ''fine'' else None)"

text \<open>
  The files every customer's process shares. \<open>tfrag\<close> is the length of an incomplete entry at the
  end of the transaction file. A lock file is its change time; the index is the C argument
  \<open>which\<close>: \<open>False\<close> for the bank lock, \<open>True\<close> for the transaction lock.
\<close>

record disk =
  bf :: "int list"
  tf :: "trans_ent list"
  tfrag :: nat
  lockfile :: "bool \<Rightarrow> int option"

text \<open>One process: its globals, its position in the bank file, the clock.\<close>

record bank = tty +
  myuid :: int
  myid :: string
  banker :: bool
  report :: bool
  mybal :: int
  buf :: string
  hisid :: string
  tm :: int
  bpos :: nat
  fclock :: "bool \<Rightarrow> int"
  clock :: int
  dsk :: disk

record bank_env =
  getpwnam :: "string \<Rightarrow> int option"
  getpwuid :: "int \<Rightarrow> string option"
  ctime :: "int \<Rightarrow> string"
  tm_hour :: "int \<Rightarrow> int"
  bankers_file :: "string option"
  bank_opens :: bool
  trans_opens :: bool
  dir_writable :: bool
  peers :: "disk \<Rightarrow> disk"

type_synonym 'a bankp = "('a, bank) prog"

abbreviation on_disk :: "(disk \<Rightarrow> disk) \<Rightarrow> bank \<Rightarrow> bank" where
  "on_disk f s \<equiv> s\<lparr>dsk := f (dsk s)\<rparr>"

section \<open>Locks\<close>

definition lock_name :: "bool \<Rightarrow> string" where
  "lock_name which = (if which then ''/arbornet/var/bank/t.lock'' else ''/arbornet/var/bank/b.lock'')"

definition lock_word :: "bool \<Rightarrow> string" where
  "lock_word which = (if which then ''transaction'' else ''bank'')"

definition unlock :: "bank_env \<Rightarrow> bool \<Rightarrow> unit bankp" where
  "unlock e which s =
     (if fclock s which = 0 then ret () s
      else sq (if lockfile (dsk s) which \<noteq> Some (fclock s which)
               then puts (''Warning: '' @ lock_word which @ '' lock file has been blasted.\<newline>'')
               else if \<not> dir_writable e
               then puts (''Warning: Can't remove lockfile '' @ lock_name which @ ''\<newline>'')
               else upd (on_disk (\<lambda>d. d\<lparr>lockfile := (lockfile d)(which := None)\<rparr>)))
            (upd (\<lambda>u. u\<lparr>fclock := (fclock u)(which := 0)\<rparr>)) s)"

text \<open>\<open>done(code)\<close>: release what is held, then exit.\<close>

definition bank_done :: "bank_env \<Rightarrow> int \<Rightarrow> 'a bankp" where
  "bank_done e c =
     bnd (gets (\<lambda>s. fclock s False \<noteq> 0)) (\<lambda>h0. sq (whenP h0 (unlock e False))
     (bnd (gets (\<lambda>s. fclock s True \<noteq> 0)) (\<lambda>h1. sq (whenP h1 (unlock e True))
     (exit_prog c))))"

text \<open>
  The loop of \<open>setlock\<close>. The exclusive open succeeds when there is no lock file and the directory
  can be written. A lock older than 300 seconds is removed and the open tried again at once;
  otherwise the process sleeps, at most five times, three seconds each, while others run.
\<close>

definition sleep3 :: "bank_env \<Rightarrow> bank \<Rightarrow> bank" where
  "sleep3 e s = s\<lparr>clock := clock s + 3, dsk := peers e (dsk s)\<rparr>"

definition make_lock :: "bool \<Rightarrow> bank \<Rightarrow> bank" where
  "make_lock which s =
     s\<lparr>dsk := (dsk s)\<lparr>lockfile := (lockfile (dsk s))(which := Some (clock s))\<rparr>,
       fclock := (fclock s)(which := clock s)\<rparr>"

definition drop_lock :: "bool \<Rightarrow> bank \<Rightarrow> bank" where
  "drop_lock which = on_disk (\<lambda>d. d\<lparr>lockfile := (lockfile d)(which := None)\<rparr>)"

function setlock_loop :: "bank_env \<Rightarrow> bool \<Rightarrow> nat \<Rightarrow> bank \<Rightarrow> unit outcome \<times> bank" where
  "setlock_loop e which trys s =
     (case lockfile (dsk s) which of
        None \<Rightarrow>
          if dir_writable e then (Ret (), make_lock which s)
          else sq (puts (''Can't create lockfile '' @ lock_name which @ ''\<newline>'')) (bank_done e 1) s
      | Some ct \<Rightarrow>
          if ct + 300 < clock s then
            (let t = s\<lparr>tout := tout s @ ''Blasting old '' @ lock_word which @ '' lockfile\<newline>''\<rparr> in
             if \<not> dir_writable e then sq (puts ''blast failed\<newline>'') (bank_done e 1) t
             else setlock_loop e which trys (drop_lock which t))
          else if trys < 5 then setlock_loop e which (trys + 1) (sleep3 e s)
          else sq (puts ''The bank is very busy right now.\<newline>Please try later.\<newline>'')
                 (bank_done e 1) s)"
  by pat_completeness auto
termination
  by (relation "measures [\<lambda>(e, which, trys, s). 5 - trys,
        \<lambda>(e, which, trys, s). if lockfile (dsk s) which = None then 0 else 1]")
     (auto simp: drop_lock_def)

declare setlock_loop.simps [simp del]

definition setlock :: "bank_env \<Rightarrow> bool \<Rightarrow> unit bankp" where
  "setlock e which s = (if fclock s which \<noteq> 0 then ret () s else setlock_loop e which 0 s)"

section \<open>The bank file\<close>

text \<open>
  \<open>lseek\<close> to record \<open>uid\<close> fails on a negative offset; a read at or past the end gives nothing; a
  write past the end fills the gap with zero bytes. Every access is a whole record.
\<close>

definition bf_lseek :: "int \<Rightarrow> bool bankp" where
  "bf_lseek uid s = (if uid < 0 then (Ret False, s) else (Ret True, s\<lparr>bpos := nat uid\<rparr>))"

definition bf_read :: "int option bankp" where
  "bf_read s = (if bpos s < length (bf (dsk s))
     then (Ret (Some (bf (dsk s) ! bpos s)), s\<lparr>bpos := bpos s + 1\<rparr>) else (Ret None, s))"

definition bf_write :: "int \<Rightarrow> unit bankp" where
  "bf_write v = upd (\<lambda>s. s\<lparr>dsk := (dsk s)\<lparr>bf := put_at 0 (bpos s) v (bf (dsk s))\<rparr>,
                           bpos := bpos s + 1\<rparr>)"

text \<open>
  \<open>balance\<close>: the code, and what it stored through the pointer, if anything. An odd record
  \<open>2 b + 1\<close> is an open account, zero is none, another even number is the opening date.
\<close>

definition balance :: "int \<Rightarrow> (int \<times> int option) bankp" where
  "balance uid = bnd (bf_lseek uid) (\<lambda>ok.
     if \<not> ok then ret (1, None) else
     bnd bf_read (\<lambda>r. case r of
       None \<Rightarrow> ret (1, None)
     | Some v \<Rightarrow> if v smod 2 = 0 then ret (if v = 0 then 1 else 2, Some v)
                 else ret (0, Some (v sdiv 2))))"

definition writebalance :: "int \<Rightarrow> int \<Rightarrow> unit bankp" where
  "writebalance uid bal = bnd (bf_lseek uid) (\<lambda>ok. whenP ok (bf_write bal))"

definition addbalance :: "bank_env \<Rightarrow> int \<Rightarrow> int \<Rightarrow> unit bankp" where
  "addbalance e uid bal = bnd (bf_lseek uid) (\<lambda>ok.
     if \<not> ok then ret () else
     sq (setlock e False)
     (bnd bf_read (\<lambda>r.
        let oldbal = (case r of None \<Rightarrow> INITBALANCE
                      | Some v \<Rightarrow> if v smod 2 = 0 then INITBALANCE else v sdiv 2)
        in sq (writebalance uid (s64 ((bal + oldbal) * 2 + 1))) (unlock e False))))"

definition openaccount :: "int \<Rightarrow> unit bankp" where
  "openaccount uid = bnd (gets clock) (\<lambda>now.
     let t = now + OPENDELAY * 86400 in
     writebalance uid (if t smod 2 = 1 then t - 1 else t))"

section \<open>The transaction file\<close>

text \<open>The first free slot, or the end, torn tail included, is overwritten.\<close>

definition free_slot :: "trans_ent list \<Rightarrow> nat" where
  "free_slot es = length (takeWhile (\<lambda>t. code t \<noteq> TR_NONE) es)"

definition put_trans :: "trans_ent \<Rightarrow> disk \<Rightarrow> disk" where
  "put_trans tr d =
     (let i = free_slot (tf d) in
      if i < length (tf d) then d\<lparr>tf := (tf d)[i := tr]\<rparr>
      else d\<lparr>tf := tf d @ [tr], tfrag := 0\<rparr>)"

definition transaction :: "bank_env \<Rightarrow> trans_ent \<Rightarrow> unit bankp" where
  "transaction e tr = sq (setlock e True) (sq (upd (on_disk (put_trans tr))) (unlock e True))"

text \<open>
  \<open>scantrans\<close> walks the whole entries in order, prints those of \<open>uid\<close> that are live unless
  \<open>silent\<close>, and writes each back as free. The fold gives the new entries, the text and whether
  anything was printed; \<open>None\<close> when a printed entry's code is no index of \<open>trname\<close>.
\<close>

definition show_trans :: "trans_ent \<Rightarrow> string option" where
  "show_trans t = map_option (\<lambda>n.
     ''\<newline>'' @ pad_left 7 (dec (amount t)) @ abbr @ '' '' @ n @ '' from '' @ take 8 (fr_id t)
     @ (if why t \<noteq> [] then '' for '' @ take 40 (why t) else [])) (trname (code t))"

fun scan_entries :: "int \<Rightarrow> bool \<Rightarrow> trans_ent list \<Rightarrow> (trans_ent list \<times> string \<times> bool) option" where
  "scan_entries uid silent [] = Some ([], [], False)"
| "scan_entries uid silent (t # ts) =
     (if code t \<noteq> TR_NONE \<and> to_uid t = uid then
        (case (if silent then Some [] else show_trans t) of
           None \<Rightarrow> None
         | Some line \<Rightarrow> map_option (\<lambda>(us, out, some). (t\<lparr>code := TR_NONE\<rparr> # us, line @ out, \<not> silent \<or> some))
             (scan_entries uid silent ts))
      else map_option (\<lambda>(us, out, some). (t # us, out, some)) (scan_entries uid silent ts))"

definition scantrans :: "int \<Rightarrow> bool \<Rightarrow> unit bankp" where
  "scantrans uid silent = bnd (gets (\<lambda>s. scan_entries uid silent (tf (dsk s)))) (\<lambda>r. case r of
     None \<Rightarrow> undef
   | Some (es, out, some) \<Rightarrow>
       sq (puts out)
       (sq (upd (on_disk (\<lambda>d. d\<lparr>tf := es\<rparr>)))
           (whenP (\<not> some \<and> \<not> silent) (puts ''None''))))"

definition closeaccount :: "int \<Rightarrow> unit bankp" where
  "closeaccount uid = sq (writebalance uid 0) (scantrans uid True)"

text \<open>
  \<open>dotrans\<close>: a transfer takes the amount from the customer; a fine takes it from \<open>uid\<close>; the
  record of it goes to the transaction file. Interrupts are ignored meanwhile.
\<close>

definition dotrans :: "bank_env \<Rightarrow> int \<Rightarrow> int \<Rightarrow> int \<Rightarrow> string \<Rightarrow> unit bankp" where
  "dotrans e type uid amt reason = bnd (gets id) (\<lambda>s.
     let tr = \<lparr>to_uid = uid, code = type, fr_id = strlcpy 33 (myid s),
               why = strlcpy 40 reason, amount = amt\<rparr> in
     sq (whenP (type = TR_XFER) (addbalance e (myuid s) (- amt)))
     (sq (addbalance e uid (if type = TR_FINE then - amt else amt))
         (transaction e tr)))"

end
