(* ===== verification/BankRich.thy ===== *)
theory BankRich
  imports BankStore
begin

text \<open>
  The two listings of \<open>soft/apps/bank/bank.c\<close>: \<open>wealthy\<close>, which keeps the ten largest balances in
  an array by insertion from its end, and \<open>listall\<close>. Both close the accounts of users that no
  longer exist.
\<close>

section \<open>The ten wealthiest\<close>

type_synonym rich = "(int \<times> int) list"

text \<open>
  The inner loop: from \<open>i = n\<close> down, while the new amount is larger than the entry before, that
  entry moves one place (if there is a place). The result is the final \<open>i\<close> and the array.
\<close>

fun rich_shift :: "nat \<Rightarrow> int \<Rightarrow> rich \<Rightarrow> nat \<times> rich" where
  "rich_shift 0 new rich = (0, rich)"
| "rich_shift (Suc i) new rich =
     (if snd (rich ! i) < new
      then rich_shift i new (if Suc i < 10 then rich[Suc i := rich ! i] else rich)
      else (Suc i, rich))"

definition rich_add :: "int \<Rightarrow> int \<Rightarrow> nat \<times> rich \<Rightarrow> nat \<times> rich" where
  "rich_add cuid new p = (case p of (n, rich) \<Rightarrow>
     let (i, rich') = rich_shift n new rich in
     if i < 10 then (if n < 10 then n + 1 else n, rich'[i := (cuid, new)])
     else (n, rich'))"

fun rich_scan :: "int \<Rightarrow> int list \<Rightarrow> nat \<times> rich \<Rightarrow> nat \<times> rich" where
  "rich_scan cuid [] p = p"
| "rich_scan cuid (new # rest) p =
     rich_scan (cuid + 1) rest
       (if new smod 2 = 0 then p else rich_add cuid ((new - 1) sdiv 2) p)"

fun print_rich :: "bank_env \<Rightarrow> nat \<Rightarrow> rich \<Rightarrow> unit bankp" where
  "print_rich e i [] = ret ()"
| "print_rich e i ((uid, bucks) # rs) =
     sq (case getpwuid e uid of
           None \<Rightarrow> closeaccount uid
         | Some name \<Rightarrow> puts (pad_left 2 (dec (int i + 1)) @ '': '' @ pad_left 8 (take 8 name)
                            @ pad_left 12 (dec bucks) @ abbr @ ''\<newline>''))
        (print_rich e (i + 1) rs)"

text \<open>
  Record 0 is read first and only seeds slot 0, which the first later account overwrites; slots
  not yet filled hold nothing the code reads.
\<close>

definition wealthy :: "bank_env \<Rightarrow> unit bankp" where
  "wealthy e = sq (bf_lseek 0) (bnd bf_read (\<lambda>r. case r of
     None \<Rightarrow> ret ()
   | Some new \<Rightarrow> bnd (gets id) (\<lambda>s.
       let (n, rich) = rich_scan 1 (drop (bpos s) (bf (dsk s)))
                         (0, (0, new) # replicate 9 (0, 0))
       in sq (upd (\<lambda>u. u\<lparr>bpos := length (bf (dsk s))\<rparr>)) (print_rich e 0 (take n rich)))))"

section \<open>All accounts\<close>

text \<open>
  The loop reads record after record; closing an account seeks and writes in the same file, and
  leaves the position where the next read wants it. The fuel is the number of records plus one.
\<close>

fun listall_loop :: "bank_env \<Rightarrow> nat \<Rightarrow> int \<Rightarrow> unit bankp" where
  "listall_loop e 0 cuid = (\<lambda>s. (NoFuel, s))"
| "listall_loop e (Suc k) cuid = bnd bf_read (\<lambda>r. case r of
     None \<Rightarrow> ret ()
   | Some bal \<Rightarrow>
       if bal smod 2 = 0 then listall_loop e k (cuid + 1)
       else sq (case getpwuid e cuid of
                  None \<Rightarrow> closeaccount cuid
                | Some name \<Rightarrow> puts (pad_left 8 (take 8 name)
                                 @ pad_left 12 (dec ((bal - 1) sdiv 2)) @ abbr @ ''\<newline>''))
               (listall_loop e k (cuid + 1)))"

definition listall :: "bank_env \<Rightarrow> unit bankp" where
  "listall e = sq (bf_lseek 0)
     (bnd (gets (\<lambda>s. length (bf (dsk s)))) (\<lambda>n. listall_loop e (Suc n) 0))"

end
