(* ===== verification/BankTeller.thy ===== *)
theory BankTeller
  imports BankRich
begin

text \<open>
  The customer's side of \<open>soft/apps/bank/bank.c\<close>: who is a banker, opening an account, the command
  line, the dialogue with a customer and the banker's command loop.
\<close>

definition bankname :: string where "bankname = ''the First National Bank of M-Net''"
definition unit_name :: string where "unit_name = ''gribbly''"
definition units_name :: string where "units_name = ''gribblies''"

section \<open>Who is a banker\<close>

text \<open>
  The bankers' file is read in pieces of at most 19 bytes; each piece is compared with the login
  over the longer of the login's length and the piece's length less one.
\<close>

definition piece_matches :: "string \<Rightarrow> string \<Rightarrow> bool" where
  "piece_matches login piece =
     (let buflen = int (length piece) - 1;
          idlen = (if buflen > int (length login) then buflen else int (length login))
      in strncmp login piece (nat idlen) = 0)"

function banker_lines :: "string \<Rightarrow> string \<Rightarrow> bool" where
  "banker_lines login f =
     (if f = [] then False
      else let (piece, rest) = take_line 19 f in
        if piece_matches login (cstr piece) then True else banker_lines login rest)"
  by pat_completeness auto
termination
proof (relation "measure (\<lambda>(login, f). length f)", goal_cases)
  case (2 login f x piece rest)
  obtain k where "(19::nat) = Suc k" by (cases "19::nat") auto
  then have "piece \<noteq> []" using 2 take_line_nonempty [of k f piece rest] by simp
  moreover have "f = piece @ rest" using 2 take_line_append [of 19 f] by simp
  ultimately show ?case by simp
qed simp

declare banker_lines.simps [simp del]

definition am_banker :: "bank_env \<Rightarrow> string \<Rightarrow> bool bankp" where
  "am_banker e login = (case bankers_file e of
     None \<Rightarrow> sq (puts ''cannot read /arbornet/etc/bankers\<newline>'') (ret False)
   | Some file \<Rightarrow> ret (banker_lines login file))"

section \<open>Opening one's account\<close>

definition checkme :: "bank_env \<Rightarrow> unit bankp" where
  "checkme e = bnd (gets myuid) (\<lambda>uid. bnd (balance uid) (\<lambda>(res, stored).
     sq (upd (\<lambda>s. case stored of None \<Rightarrow> s | Some v \<Rightarrow> s\<lparr>mybal := v\<rparr>))
     (bnd (gets id) (\<lambda>s.
     if res = 1 then
       (if report s then sq (puts ''You have no account\<newline>'') (bank_done e 0)
        else if banker s then
          sq (addbalance e (myuid s) 0) (upd (\<lambda>u. u\<lparr>mybal := INITBALANCE\<rparr>))
        else
          sq (puts (''Hello '' @ myid s @ '', would you like to open an account? ''))
          (bnd getchar (\<lambda>ch.
             if ch = Some CHR ''n'' \<or> ch = Some CHR ''N''
             then sq (puts ''Goodbye then...\<newline>'') (bank_done e 0)
             else sq (whenP (ch \<noteq> Some NL) skip_line)
                  (sq (openaccount (myuid s))
                  (sq (puts (''Very well...\<newline>There will be a '' @ dec OPENDELAY
                        @ '' day delay before your account can be opened.\<newline>    Thank you!\<newline>''))
                      (bank_done e 0))))))
     else if res = 2 then
       sq (whenP (mybal s > tm s)
            (if report s
             then sq (puts (''Your account will be open after '' @ ctime e (mybal s))) (bank_done e 0)
             else if \<not> banker s
             then sq (puts (''Sorry, the paperwork on your new account has not ''
                        @ ''been completed\<newline>Please come back after '' @ ctime e (mybal s)
                        @ ''    Thank you!\<newline>'')) (bank_done e 0)
             else ret ()))
       (sq (addbalance e (myuid s) 0) (upd (\<lambda>u. u\<lparr>mybal := INITBALANCE\<rparr>)))
     else ret ()))))"

section \<open>Naming another customer\<close>

text \<open>
  \<open>getwho\<close>: with no name given it reads a line and removes its last character; on an empty buffer
  that is a write before the array. The result is the uid, or -1.
\<close>

definition getwho :: "bank_env \<Rightarrow> string option \<Rightarrow> int bankp" where
  "getwho e did =
     sq (if did = None \<or> did = Some []
         then bnd (fgets 40) (\<lambda>l. sq (upd (\<lambda>s. case l of None \<Rightarrow> s | Some x \<Rightarrow> s\<lparr>hisid := x\<rparr>))
              (bnd (gets hisid) (\<lambda>h. if h = [] then undef
                 else upd (\<lambda>s. s\<lparr>hisid := butlast h\<rparr>))))
         else upd (\<lambda>s. s\<lparr>hisid := strlcpy 42 (the did)\<rparr>))
     (bnd (gets hisid) (\<lambda>h. case getpwnam e h of
        None \<Rightarrow> sq (puts (''No such user ('' @ h @ '')\<newline>'')) (ret (-1))
      | Some uid \<Rightarrow> ret uid))"

definition prompt_if :: "string option \<Rightarrow> string \<Rightarrow> unit bankp" where
  "prompt_if did text = whenP (did = None \<or> did = Some []) (puts text)"

definition askopen :: "bank_env \<Rightarrow> string option \<Rightarrow> unit bankp" where
  "askopen e did = sq (prompt_if did ''Open for whom? '')
     (bnd (getwho e did) (\<lambda>hisuid. if hisuid < 0 then ret () else addbalance e hisuid 0))"

definition askclose :: "bank_env \<Rightarrow> string option \<Rightarrow> unit bankp" where
  "askclose e did = sq (prompt_if did ''Close whom? '')
     (bnd (getwho e did) (\<lambda>hisuid. if hisuid < 0 then ret () else closeaccount hisuid))"

definition askreport :: "bank_env \<Rightarrow> string option \<Rightarrow> unit bankp" where
  "askreport e did = sq (prompt_if did ''Report on whom? '')
     (bnd (getwho e did) (\<lambda>hisuid. if hisuid < 0 then ret () else
      bnd (balance hisuid) (\<lambda>(res, stored).
        if res = 1 then puts ''no account\<newline>''
        else if res = 2 then puts (''account opens on '' @ ctime e (the stored))
        else puts (''balance ='' @ pad_left 3 (dec (the stored)) @ abbr @ ''\<newline>''))))"

section \<open>A transaction in dialogue\<close>

text \<open>
  The reason must fit one line of the buffer: a longer one is thrown away and asked for again.
  Each round returns whether to ask again.
\<close>

definition fgets_buf :: "unit bankp" where
  "fgets_buf = bnd (fgets 40) (\<lambda>l. upd (\<lambda>s. case l of None \<Rightarrow> s | Some x \<Rightarrow> s\<lparr>buf := x\<rparr>))"

definition reason_round :: "bool bankp" where
  "reason_round = sq (puts ''What for? '') (sq fgets_buf
     (bnd (gets buf) (\<lambda>b.
        if b = [] then undef
        else if last b = NL then ret False
        else sq (puts ''Only 40 characters, please.\<newline>'') (sq skip_line (ret True)))))"

definition ask_reason :: "unit bankp" where
  "ask_reason = sq (bnd (gets (\<lambda>s. length (tin s))) (\<lambda>n. iter (Suc n) reason_round))
                   (upd (\<lambda>s. s\<lparr>buf := butlast (buf s)\<rparr>))"

definition ask_amount :: "bank_env \<Rightarrow> int \<Rightarrow> int \<Rightarrow> unit bankp" where
  "ask_amount e type hisuid =
     sq (puts (''How many '' @ units_name @ ''? '')) (sq fgets_buf
     (bnd (gets id) (\<lambda>s. let amt = atol (buf s) in
        if amt \<le> 0 then ret ()
        else if type = TR_XFER \<and> amt > mybal s then
          puts (''You only have '' @ dec (mybal s) @ '' ''
                @ (if mybal s = 1 then unit_name else units_name) @ ''\<newline>'')
        else sq ask_reason
             (bnd (gets buf) (\<lambda>b. dotrans e type hisuid amt b)))))"

definition asktrans :: "bank_env \<Rightarrow> int \<Rightarrow> string option \<Rightarrow> unit bankp" where
  "asktrans e type did =
     sq (prompt_if did ((if type = TR_XFER then ''Transfer to'' else if type = TR_GIFT
           then ''Bestow upon'' else if type = TR_FINE then ''Fine'' else []) @ '' whom? ''))
     (bnd (getwho e did) (\<lambda>hisuid. if hisuid < 0 then ret () else
      bnd (gets id) (\<lambda>s0. if hisuid = myuid s0 then puts ''Why, that's you!\<newline>'' else
      bnd (balance hisuid) (\<lambda>(res, stored).
      bnd (gets id) (\<lambda>s.
        if res = 1 \<and> \<not> banker s then
          sq (puts (hisid s @ '' has not applied for an account\<newline>''
                @ ''However, we will open one in his name in '' @ dec OPENDELAY @ '' days\<newline>''))
             (openaccount hisuid)
        else if res = 2 \<and> \<not> banker s \<and> the stored < tm s then
          puts (hisid s @ '''s account will be open on '' @ ctime e (the stored))
        else sq (whenP (res = 1 \<or> res = 2) (addbalance e hisuid 0))
                (ask_amount e type hisuid))))))"

section \<open>The banker's secretary\<close>

text \<open>
  The argument of a command is the text after the first space of the line, less its last
  character. With nothing after the space that character is the space itself.
\<close>

definition split_command :: "string \<Rightarrow> string \<times> string" where
  "split_command b = (case split_at SPC b of
     None \<Rightarrow> (b, [])
   | Some (a, rest) \<Rightarrow> if rest = [] then (a, []) else (a @ SPC # butlast rest, butlast rest))"

definition dobank_round :: "bank_env \<Rightarrow> bool bankp" where
  "dobank_round e =
     sq (puts '': '') (sq (upd (\<lambda>s. s\<lparr>buf := []\<rparr>)) (sq fgets_buf
     (bnd (gets (\<lambda>s. split_command (buf s))) (\<lambda>(b, w).
      sq (upd (\<lambda>s. s\<lparr>buf := b\<rparr>))
      (let c = (if b = [] then NUL else hd b) in
       if c = CHR ''T'' \<or> c = CHR ''t'' then sq (asktrans e TR_XFER (Some w)) (ret True)
       else if c = CHR ''F'' \<or> c = CHR ''f'' then sq (asktrans e TR_FINE (Some w)) (ret True)
       else if c = CHR ''B'' \<or> c = CHR ''b'' then sq (asktrans e TR_GIFT (Some w)) (ret True)
       else if c = CHR ''O'' \<or> c = CHR ''o'' then sq (askopen e (Some w)) (ret True)
       else if c = CHR ''C'' \<or> c = CHR ''c'' then sq (askclose e (Some w)) (ret True)
       else if c = CHR ''R'' \<or> c = CHR ''r'' then sq (askreport e (Some w)) (ret True)
       else if c = NL then ret True
       else if c = NUL then sq (puts ''\<newline>'') (ret False)
       else if c = CHR ''Q'' \<or> c = CHR ''q'' then ret False
       else sq (puts ''Pardon me?\<newline>'') (ret True))))))"

definition dobank :: "bank_env \<Rightarrow> unit bankp" where
  "dobank e =
     sq (puts (''\<newline>You may either:\<newline>''
         @ ''   Transfer some of your own money to another user\<newline>''
         @ ''   Fine another user some money\<newline>''
         @ ''   Bestow some money on another user\<newline>''
         @ ''   Open an account for another user\<newline>''
         @ ''   Close a users account\<newline>''
         @ ''   Report on an account's balance\<newline>''
         @ ''   Quit\<newline>''))
     (bnd (gets (\<lambda>s. length (tin s))) (\<lambda>n. iter (Suc n) (dobank_round e)))"

section \<open>The command line\<close>

definition parsetrans :: "bank_env \<Rightarrow> int \<Rightarrow> string list \<Rightarrow> unit bankp" where
  "parsetrans e type argv = bnd (gets banker) (\<lambda>bk.
     if type \<noteq> TR_XFER \<and> \<not> bk then puts ''You're not a banker!\<newline>''
     else if length argv < 4 \<or> length argv > 5 then
       puts (''usage: '' @ argv ! 0 @ '' [-t'' @ (if bk then '' -b -f'' else [])
             @ ''] who amount [reason]\<newline>'')
     else case getpwnam e (argv ! 2) of
       None \<Rightarrow> puts (''No user '' @ argv ! 2 @ ''\<newline>'')
     | Some hisuid \<Rightarrow>
         (let amt = atol (argv ! 3) in
          if amt \<le> 0 then puts (''Bad amount '' @ argv ! 3 @ ''\<newline>'')
          else sq (checkme e) (bnd (gets id) (\<lambda>s.
            if type = TR_XFER \<and> amt > mybal s then puts ''You don't have that much money\<newline>''
            else if myuid s = hisuid then puts ''Can't transfer money to yourself\<newline>''
            else if length argv = 4
            then sq (upd (\<lambda>u. u\<lparr>buf := []\<rparr>)) (dotrans e type hisuid amt [])
            else dotrans e type hisuid amt (argv ! 4)))))"

fun report_users :: "bank_env \<Rightarrow> string list \<Rightarrow> unit bankp" where
  "report_users e [] = ret ()"
| "report_users e (a # as) =
     sq (puts (pad_left 8 a @ '' ''))
     (sq (case getpwnam e a of
            None \<Rightarrow> puts ''not found\<newline>''
          | Some uid \<Rightarrow> bnd (balance uid) (\<lambda>(res, stored).
              sq (upd (\<lambda>s. case stored of None \<Rightarrow> s | Some v \<Rightarrow> s\<lparr>mybal := v\<rparr>))
              (if res \<noteq> 0 then puts ''has no account\<newline>''
               else puts (''balance = '' @ dec (the stored) @ abbr @ ''\<newline>''))))
         (report_users e as))"

definition open_or_close :: "bank_env \<Rightarrow> char \<Rightarrow> string list \<Rightarrow> unit bankp" where
  "open_or_close e c argv = bnd (gets banker) (\<lambda>bk.
     if \<not> bk then sq (puts ''You're not a banker!\<newline>'') (bank_done e 1)
     else if length argv \<noteq> 3
     then sq (puts (''usage: '' @ argv ! 0 @ '' -'' @ [c] @ '' userid\<newline>'')) (bank_done e 1)
     else case getpwnam e (argv ! 2) of
       None \<Rightarrow> sq (puts (''Can't find user '' @ argv ! 2 @ ''\<newline>'')) (bank_done e 1)
     | Some uid \<Rightarrow> sq (if c = CHR ''o'' then addbalance e uid 0 else closeaccount uid)
                       (bank_done e 0))"

definition session :: "bank_env \<Rightarrow> unit bankp" where
  "session e =
     bnd (gets id) (\<lambda>s.
     sq (whenP (banker s)
          (puts (''Good '' @ (if tm_hour e (tm s) < 12 then ''Morning''
                   else if tm_hour e (tm s) < 18 then ''Afternoon'' else ''Evening'')
                 @ '', Banker '' @ myid s @ ''\<newline>'')))
     (sq (whenP (\<not> report s) (puts (''Welcome to '' @ bankname @ ''\<newline>\<newline>'')))
     (sq (checkme e)
     (sq (puts ''Transactions since your last visit:  '')
     (sq (scantrans (myuid s) False)
     (bnd (gets id) (\<lambda>u.
     sq (puts (''\<newline>Current balance: '' @ dec (mybal u) @ abbr @ ''\<newline>''))
     (sq (whenP (\<not> report u)
           (if banker u then dobank e
            else whenP (mybal u > 0)
              (sq (puts ''\<newline>Would you like to transfer funds to another user? '')
              (sq fgets_buf
              (bnd (gets buf) (\<lambda>b.
                 whenP (b = [] \<or> (hd b \<noteq> CHR ''n'' \<and> hd b \<noteq> CHR ''N''))
                   (asktrans e TR_XFER None)))))))
         (bank_done e 0)))))))))"

definition bank_main :: "bank_env \<Rightarrow> string list \<Rightarrow> unit bankp" where
  "bank_main e argv =
     (if \<not> bank_opens e
      then sq (puts ''Error: Cannot open bank file /arbornet/var/bank/bank\<newline>'') (bank_done e 1)
      else if \<not> trans_opens e
      then sq (puts ''Cannot open transaction file /arbornet/var/bank/trans\<newline>'') (bank_done e 1)
      else
      sq (upd (\<lambda>s. s\<lparr>tm := clock s\<rparr>))
      (bnd (gets (\<lambda>s. getpwuid e (myuid s))) (\<lambda>pwd. case pwd of
         None \<Rightarrow> undef
       | Some name \<Rightarrow>
         sq (upd (\<lambda>s. s\<lparr>myid := strlcpy 33 name\<rparr>))
         (bnd (am_banker e (strlcpy 33 name)) (\<lambda>bk.
          sq (upd (\<lambda>s. s\<lparr>banker := bk\<rparr>))
          (if length argv \<le> 1 then session e
           else let a = argv ! 1 in
             if a = [] \<or> hd a \<noteq> CHR ''-''
             then sq (report_users e (tl argv)) (bank_done e 0)
             else let c = (if length a < 2 then NUL else a ! 1) in
               if c = CHR ''w'' then sq (wealthy e) (exit_prog 0)
               else if c = CHR ''a'' then sq (listall e) (exit_prog 0)
               else if c = CHR ''r''
               then sq (upd (\<lambda>s. s\<lparr>report := True, banker := False\<rparr>)) (session e)
               else if c = CHR ''t'' then sq (parsetrans e TR_XFER argv) (bank_done e 0)
               else if c = CHR ''b'' then sq (parsetrans e TR_GIFT argv) (bank_done e 0)
               else if c = CHR ''f'' then sq (parsetrans e TR_FINE argv) (bank_done e 0)
               else if c = CHR ''o'' \<or> c = CHR ''c'' then open_or_close e c argv
               else sq (puts (''Legal options are -w -a -t ''
                           @ (if bk then ''-b -f -o -c '' else []) @ ''and -r\<newline>''))
                      (bank_done e 1)))))))"

end
