(* ===== verification/BankFacts.thy ===== *)
theory BankFacts
  imports BankTeller
begin

text \<open>
  What the bank's storage operations do to the accounts: an interface of account files with the
  one law its clients need, the bank file as an instance of it, the effect of a deposit and of a
  whole transaction, and the invariants every operation keeps.
\<close>

section \<open>Account files\<close>

text \<open>What an account record is worth to the listings, and what the tellers read.\<close>

definition worth :: "int \<Rightarrow> int" where
  "worth r = (if odd r then (r - 1) div 2 else 0)"

definition total_worth :: "(int \<Rightarrow> int) \<Rightarrow> int set \<Rightarrow> int" where
  "total_worth accts us = (\<Sum>u \<in> us. worth (accts u))"

lemma worth_odd [simp]: "worth (2 * b + 1) = b"
  by (simp add: worth_def)

lemma worth_odd_sum [simp]:
  "worth (2 * b + 2 * c + 1) = b + c" "worth (2 * b - 2 * c + 1) = b - c"
  using worth_odd [of "b + c"] worth_odd [of "b - c"]
  by (simp_all only: distrib_left right_diff_distrib)

locale account_file =
  fixes get :: "'s \<Rightarrow> int \<Rightarrow> int"
    and put :: "int \<Rightarrow> int \<Rightarrow> 's \<Rightarrow> 's"
  assumes get_put: "0 \<le> u \<Longrightarrow> get (put u v s) = (get s)(u := v)"
begin

lemma get_put_same: "0 \<le> u \<Longrightarrow> get (put u v s) u = v"
  by (simp add: get_put)

lemma get_put_other: "0 \<le> u \<Longrightarrow> w \<noteq> u \<Longrightarrow> get (put u v s) w = get s w"
  by (simp add: get_put)

lemma total_put:
  assumes "finite us" "u \<in> us" "0 \<le> u"
  shows "total_worth (get (put u v s)) us = total_worth (get s) us - worth (get s u) + worth v"
  using assms by (simp add: total_worth_def get_put sum.remove [of us u])

lemma total_put_outside:
  "u \<notin> us \<Longrightarrow> 0 \<le> u \<Longrightarrow> total_worth (get (put u v s)) us = total_worth (get s) us"
  unfolding total_worth_def by (rule sum.cong) (auto simp: get_put)

text \<open>Moving an amount between two accounts keeps the total.\<close>

lemma total_move:
  assumes "finite us" "a \<in> us" "b \<in> us" "a \<noteq> b" "0 \<le> a" "0 \<le> b"
    and "worth va = worth (get s a) - amt" and "worth vb = worth (get s b) + amt"
  shows "total_worth (get (put b vb (put a va s))) us = total_worth (get s) us"
proof -
  have "get (put a va s) b = get s b" using assms by (simp add: get_put_other)
  then show ?thesis using assms by (simp add: total_put)
qed

end

definition record_of :: "disk \<Rightarrow> int \<Rightarrow> int" where
  "record_of d uid = (if 0 \<le> uid \<and> nat uid < length (bf d) then bf d ! nat uid else 0)"

definition put_record :: "int \<Rightarrow> int \<Rightarrow> disk \<Rightarrow> disk" where
  "put_record uid v d = d\<lparr>bf := put_at 0 (nat uid) v (bf d)\<rparr>"

interpretation bankfile: account_file record_of put_record
proof
  fix u v :: int and d :: disk
  assume u: "0 \<le> u"
  show "record_of (put_record u v d) = (record_of d)(u := v)"
  proof
    fix w
    show "record_of (put_record u v d) w = ((record_of d)(u := v)) w"
    proof (cases "0 \<le> w \<and> w \<noteq> u")
      case True
      then have "nat w \<noteq> nat u" using u by auto
      consider (old) "nat w < length (bf d)" | (gap) "length (bf d) \<le> nat w" "nat w < nat u"
        | (past) "length (bf d) \<le> nat w" "Suc (nat u) \<le> nat w"
        using \<open>nat w \<noteq> nat u\<close> by linarith
      then show ?thesis
      proof cases
        case old
        with True \<open>nat w \<noteq> nat u\<close> show ?thesis
          by (simp add: record_of_def put_record_def nth_put_at_other less_max_iff_disj)
      next
        case gap
        with True show ?thesis
          by (simp add: record_of_def put_record_def nth_put_at_gap)
      next
        case past
        with True show ?thesis by (auto simp: record_of_def put_record_def less_max_iff_disj)
      qed
    next
      case False
      then consider "w = u" | "w < 0" by linarith
      then show ?thesis
      proof cases
        case 1
        with u show ?thesis by (simp add: record_of_def put_record_def less_max_iff_disj)
      next
        case 2
        with u show ?thesis by (simp add: record_of_def)
      qed
    qed
  qed
qed

section \<open>What a deposit writes\<close>

definition teller_value :: "int \<Rightarrow> int" where
  "teller_value r = (if r smod 2 = 0 then INITBALANCE else r sdiv 2)"

definition new_record :: "int \<Rightarrow> int \<Rightarrow> int" where
  "new_record amt r = s64 ((amt + teller_value r) * 2 + 1)"

lemma teller_value_even: "even r \<Longrightarrow> teller_value r = 10"
  by (simp add: teller_value_def smod2_zero_iff INITBALANCE_def)

lemma teller_value_odd:
  "teller_value (2 * b + 1) = (if b < 0 then b + 1 else b)"
  using sdiv2_odd_neg [of b] sdiv2_nonneg [of "2 * b + 1"]
  by (simp add: teller_value_def smod2_zero_iff)

lemma new_record_fits:
  "in_long ((amt + teller_value r) * 2 + 1) \<Longrightarrow>
   new_record amt r = 2 * (amt + teller_value r) + 1"
  by (simp add: new_record_def s64_id mult.commute)

lemma worth_new_record:
  "in_long ((amt + teller_value r) * 2 + 1) \<Longrightarrow> worth (new_record amt r) = amt + teller_value r"
  using worth_odd [of "amt + teller_value r"] by (simp only: new_record_fits)

lemma new_record_open:
  "0 \<le> b \<Longrightarrow> in_long (2 * (b + amt) + 1) \<Longrightarrow> new_record amt (2 * b + 1) = 2 * (b + amt) + 1"
  "b < 0 \<Longrightarrow> in_long (2 * (b + amt + 1) + 1) \<Longrightarrow>
   new_record amt (2 * b + 1) = 2 * (b + amt + 1) + 1"
proof -
  have e: "(amt + teller_value (2 * b + 1)) * 2 + 1 =
      (if b < 0 then 2 * (b + amt + 1) + 1 else 2 * (b + amt) + 1)"
    by (simp add: teller_value_odd)
  show "0 \<le> b \<Longrightarrow> in_long (2 * (b + amt) + 1) \<Longrightarrow> new_record amt (2 * b + 1) = 2 * (b + amt) + 1"
    unfolding new_record_def e by (simp only: not_less [symmetric] if_False s64_id)
  show "b < 0 \<Longrightarrow> in_long (2 * (b + amt + 1) + 1) \<Longrightarrow>
      new_record amt (2 * b + 1) = 2 * (b + amt + 1) + 1"
    unfolding new_record_def e by (simp only: if_True s64_id)
qed

lemma worth_eq_teller_value: "odd r \<Longrightarrow> 0 \<le> r \<Longrightarrow> worth r = teller_value r"
  by (auto elim!: oddE simp: teller_value_odd)

section \<open>Running the operations without contention\<close>

text \<open>No lock file, none held, and a directory that can be written.\<close>

definition lock_free :: "bank_env \<Rightarrow> bool \<Rightarrow> bank \<Rightarrow> bool" where
  "lock_free e which s \<longleftrightarrow> dir_writable e \<and> lockfile (dsk s) which = None \<and>
     fclock s which = 0 \<and> 0 < clock s"

lemma setlock_free:
  "lock_free e which s \<Longrightarrow> setlock e which s = (Ret (), make_lock which s)"
  by (simp add: lock_free_def setlock_def setlock_loop.simps)

lemma unlock_made:
  assumes "fclock s which = c" "c \<noteq> 0" "lockfile (dsk s) which = Some c" "dir_writable e"
  shows "unlock e which s = (Ret (), (drop_lock which s)\<lparr>fclock := (fclock s)(which := 0)\<rparr>)"
  using assms by (simp add: unlock_def drop_lock_def run_simps)

lemma bf_read_at:
  "bf_read s = (Ret (if bpos s < length (bf (dsk s)) then Some (bf (dsk s) ! bpos s) else None),
     if bpos s < length (bf (dsk s)) then s\<lparr>bpos := bpos s + 1\<rparr> else s)"
  by (simp add: bf_read_def)

lemma writebalance_run [run_simps]:
  "0 \<le> uid \<Longrightarrow> writebalance uid v s =
     (Ret (), s\<lparr>dsk := put_record uid v (dsk s), bpos := Suc (nat uid)\<rparr>)"
  by (simp add: writebalance_def bf_lseek_def bf_write_def put_record_def run_simps bnd_def)

lemma writebalance_neg: "uid < 0 \<Longrightarrow> writebalance uid v s = (Ret (), s)"
  by (simp add: writebalance_def bf_lseek_def run_simps bnd_def)

lemma addbalance_run:
  assumes "lock_free e False s" "0 \<le> uid"
  shows "addbalance e uid amt s =
     (Ret (), s\<lparr>dsk := put_record uid (new_record amt (record_of (dsk s) uid)) (dsk s),
                bpos := Suc (nat uid)\<rparr>)"
proof -
  let ?r = "record_of (dsk s) uid"
  let ?v = "if nat uid < length (bf (dsk s)) then Some (bf (dsk s) ! nat uid) else None"
  let ?s1 = "s\<lparr>bpos := nat uid\<rparr>"
  let ?s2 = "make_lock False ?s1"
  let ?s3 = "if nat uid < length (bf (dsk s)) then ?s2\<lparr>bpos := Suc (nat uid)\<rparr> else ?s2"
  let ?d = "put_record uid (new_record amt ?r) (dsk s)"
  let ?s4 = "s\<lparr>dsk := ?d\<lparr>lockfile := (lockfile (dsk s))(False := Some (clock s))\<rparr>,
              fclock := (fclock s)(False := clock s), bpos := Suc (nat uid)\<rparr>"
  have e1: "bf_lseek uid s = (Ret True, ?s1)" using assms(2) by (simp add: bf_lseek_def)
  have "lock_free e False ?s1" using assms(1) by (simp add: lock_free_def)
  then have e2: "setlock e False ?s1 = (Ret (), ?s2)" by (rule setlock_free)
  have e3: "bf_read ?s2 = (Ret ?v, ?s3)" by (simp add: bf_read_at make_lock_def)
  have val: "(case ?v of None \<Rightarrow> INITBALANCE
       | Some v \<Rightarrow> if v smod 2 = 0 then INITBALANCE else v sdiv 2) = teller_value ?r"
    using assms(2) by (auto simp: record_of_def teller_value_def)
  have e4: "writebalance uid (new_record amt ?r) ?s3 = (Ret (), ?s4)"
    using assms(2) by (auto simp: writebalance_run make_lock_def put_record_def)
  have e5: "unlock e False ?s4 = (Ret (), s\<lparr>dsk := ?d, bpos := Suc (nat uid)\<rparr>)"
    using assms(1) fun_upd_triv [of "lockfile (dsk s)" False] fun_upd_triv [of "fclock s" False]
    by (subst unlock_made) (auto simp: lock_free_def drop_lock_def put_record_def)
  show ?thesis
    by (simp only: addbalance_def bnd_run(1) [of "bf_lseek uid", OF e1]
        sq_run(1) [of "setlock e False", OF e2] bnd_run(1) [of bf_read, OF e3] Let_def
        val new_record_def [unfolded teller_value_def, symmetric] new_record_def [symmetric]
        sq_run(1) [of "writebalance uid _", OF e4] e5 if_False not_True_eq_False)
qed


text \<open>A deposit leaves the locks as it found them, so operations can follow each other.\<close>

lemma lock_free_after [simp]:
  "lock_free e w (s\<lparr>dsk := put_record u v (dsk s), bpos := p\<rparr>) = lock_free e w s"
  by (simp add: lock_free_def put_record_def)

lemma tf_put_record [simp]: "tf (put_record u v d) = tf d"
  by (simp add: put_record_def)

lemma record_of_put_trans [simp]: "record_of (put_trans tr d) = record_of d"
  by (rule ext) (auto simp: record_of_def put_trans_def Let_def)

lemma lockfile_put_trans [simp]: "lockfile (put_trans tr d) = lockfile d"
  by (simp add: put_trans_def Let_def)

lemma put_trans_lockfile:
  "put_trans tr (d\<lparr>lockfile := l\<rparr>) = (put_trans tr d)\<lparr>lockfile := l\<rparr>"
  by (simp add: put_trans_def Let_def)

lemma transaction_run:
  assumes "lock_free e True s"
  shows "transaction e tr s = (Ret (), on_disk (put_trans tr) s)"
proof -
  let ?s1 = "make_lock True s"
  let ?s2 = "on_disk (put_trans tr) ?s1"
  have e1: "setlock e True s = (Ret (), ?s1)" using assms by (rule setlock_free)
  have e2: "upd (on_disk (put_trans tr)) ?s1 = (Ret (), ?s2)" by (simp add: upd_def)
  have e3: "unlock e True ?s2 = (Ret (), on_disk (put_trans tr) s)"
    using assms fun_upd_triv [of "lockfile (dsk s)" True] fun_upd_triv [of "fclock s" True]
    by (subst unlock_made [where c = "clock s"])
       (auto simp: lock_free_def make_lock_def drop_lock_def put_trans_lockfile)
  show ?thesis
    by (simp only: transaction_def sq_run(1) [of "setlock e True", OF e1]
        sq_run(1) [of "upd (on_disk (put_trans tr))", OF e2] e3)
qed

definition trans_of :: "bank \<Rightarrow> int \<Rightarrow> int \<Rightarrow> int \<Rightarrow> string \<Rightarrow> trans_ent" where
  "trans_of s type uid amt reason =
     \<lparr>to_uid = uid, code = type, fr_id = strlcpy 33 (myid s), why = strlcpy 40 reason,
      amount = amt\<rparr>"

text \<open>What a transaction does to the disk, all of it.\<close>

definition after_trans :: "bank \<Rightarrow> int \<Rightarrow> int \<Rightarrow> int \<Rightarrow> string \<Rightarrow> disk" where
  "after_trans s type uid amt reason =
     (let d = dsk s;
          d1 = (if type = TR_XFER
                then put_record (myuid s) (new_record (- amt) (record_of d (myuid s))) d else d);
          v = (if type = TR_FINE then - amt else amt)
      in put_trans (trans_of s type uid amt reason)
           (put_record uid (new_record v (record_of d1 uid)) d1))"

lemma dotrans_run:
  assumes "lock_free e False s" "lock_free e True s" "0 \<le> uid" "0 \<le> myuid s"
  shows "dotrans e type uid amt reason s =
     (Ret (), s\<lparr>dsk := after_trans s type uid amt reason, bpos := Suc (nat uid)\<rparr>)"
proof -
  let ?r1 = "new_record (- amt) (record_of (dsk s) (myuid s))"
  let ?s1 = "if type = TR_XFER
    then s\<lparr>dsk := put_record (myuid s) ?r1 (dsk s), bpos := Suc (nat (myuid s))\<rparr> else s"
  let ?v = "if type = TR_FINE then - amt else amt"
  let ?d2 = "put_record uid (new_record ?v (record_of (dsk ?s1) uid)) (dsk ?s1)"
  let ?s2 = "?s1\<lparr>dsk := ?d2, bpos := Suc (nat uid)\<rparr>"
  have e1: "whenP (type = TR_XFER) (addbalance e (myuid s) (- amt)) s = (Ret (), ?s1)"
    using addbalance_run [OF assms(1,4), of "- amt"] by (simp add: whenP_def ret_def)
  have "lock_free e False ?s1" "lock_free e True ?s1" using assms by simp_all
  then have e2: "addbalance e uid ?v ?s1 = (Ret (), ?s2)"
    and e3: "transaction e (trans_of s type uid amt reason) ?s2 =
      (Ret (), on_disk (put_trans (trans_of s type uid amt reason)) ?s2)"
    using addbalance_run [of e ?s1 uid ?v] transaction_run [of e ?s2] assms(3) by simp_all
  have g: "gets id s = (Ret s, s)" by (simp add: gets_def)
  have "dotrans e type uid amt reason s =
      (Ret (), on_disk (put_trans (trans_of s type uid amt reason)) ?s2)"
    unfolding dotrans_def
    by (rule bnd_then, rule g, unfold Let_def trans_of_def [symmetric],
        rule sq_then, rule e1, rule sq_then, rule e2, rule e3)
  then show ?thesis by (simp add: after_trans_def Let_def)
qed

end
