(* ===== verification/BankProps.thy ===== *)
theory BankProps
  imports BankFacts
begin

text \<open>
  The properties of the bank's money and transaction records: transfers keep the sum of all
  balances, deposits on an account in debt do not, transaction records are stored once and
  reported once, and only bankers move money that is not theirs.
\<close>

section \<open>A concrete bank\<close>

text \<open>Two open accounts, 20 gribblies at uid 1 and 5 at uid 2, one file each, nobody else about.\<close>

definition sample_env :: bank_env where
  "sample_env = \<lparr>getpwnam = (\<lambda>n. if n = ''ann'' then Some 1 else if n = ''bob'' then Some 2 else None),
     getpwuid = (\<lambda>u. if u = 1 then Some ''ann'' else if u = 2 then Some ''bob'' else None),
     ctime = (\<lambda>t. dec t @ ''\<newline>''), tm_hour = (\<lambda>t. 9),
     bankers_file = Some ''bob\<newline>'', bank_opens = True, trans_opens = True,
     dir_writable = True, peers = id\<rparr>"

definition sample_bank :: bank where
  "sample_bank = \<lparr>tin = [], tout = [], myuid = 1, myid = ''ann'', banker = False, report = False,
     mybal = 20, buf = [], hisid = [], tm = 1000, bpos = 0, fclock = (\<lambda>_. 0), clock = 1000,
     dsk = \<lparr>bf = [0, 41, 11], tf = [], tfrag = 0, lockfile = (\<lambda>_. None)\<rparr>\<rparr>"

lemma sample_lock_free: "lock_free sample_env w sample_bank"
  by (simp add: lock_free_def sample_env_def sample_bank_def)

section \<open>Money\<close>

text \<open>
  C1: a transfer between two open accounts that are not in debt succeeds, takes the amount from
  one and gives it to the other, so the worth of every finite set of accounts holding both is
  unchanged, puts one record of it in the transaction file and leaves both locks free.
\<close>

theorem transfer_conserves:
  assumes locks: "lock_free e False s" "lock_free e True s"
    and us: "finite us" "myuid s \<in> us" "uid \<in> us" "uid \<noteq> myuid s" "0 \<le> uid" "0 \<le> myuid s"
    and payer: "record_of (dsk s) (myuid s) = 2 * a + 1" "0 \<le> a" "in_long (2 * (a - amt) + 1)"
    and payee: "record_of (dsk s) uid = 2 * b + 1" "0 \<le> b" "in_long (2 * (b + amt) + 1)"
  shows "\<exists>t. dotrans e TR_XFER uid amt reason s = (Ret (), t) \<and>
     record_of (dsk t) (myuid s) = 2 * (a - amt) + 1 \<and>
     record_of (dsk t) uid = 2 * (b + amt) + 1 \<and>
     total_worth (record_of (dsk t)) us = total_worth (record_of (dsk s)) us \<and>
     tf (dsk t) = tf (put_trans (trans_of s TR_XFER uid amt reason) (dsk s)) \<and>
     lock_free e False t \<and> lock_free e True t"
proof -
  let ?d1 = "put_record (myuid s) (2 * (a - amt) + 1) (dsk s)"
  let ?d2 = "put_record uid (2 * (b + amt) + 1) ?d1"
  let ?t = "s\<lparr>dsk := put_trans (trans_of s TR_XFER uid amt reason) ?d2, bpos := Suc (nat uid)\<rparr>"
  have n1: "new_record (- amt) (2 * a + 1) = 2 * (a - amt) + 1"
    using new_record_open(1) [of a "- amt"] payer(2,3) by simp
  have n2: "new_record amt (2 * b + 1) = 2 * (b + amt) + 1"
    using new_record_open(1) [of b amt] payee(2,3) by simp
  have "after_trans s TR_XFER uid amt reason = put_trans (trans_of s TR_XFER uid amt reason) ?d2"
    using us payer(1) payee(1) n1 n2
    by (simp add: after_trans_def TR_XFER_def TR_FINE_def bankfile.get_put_other)
  then have run: "dotrans e TR_XFER uid amt reason s = (Ret (), ?t)"
    using dotrans_run [OF locks us(5,6)] by simp
  have tot: "total_worth (record_of ?d2) us = total_worth (record_of (dsk s)) us"
    using us payer(1) payee(1) by (intro bankfile.total_move [of us "myuid s" uid _ _ amt]) simp_all
  have tfs: "tf (put_trans tr ?d2) = tf (put_trans tr (dsk s))" for tr
    by (simp add: put_trans_def Let_def)
  have lk: "lock_free e w ?t" if "lock_free e w s" for w
    using that by (simp add: lock_free_def put_record_def)
  show ?thesis
    using run tot tfs lk locks us by (intro exI [of _ ?t]) (simp add: bankfile.get_put)
qed

theorem transfer_conserves_witness:
  "\<exists>t. dotrans sample_env TR_XFER 2 7 ''lunch'' sample_bank = (Ret (), t) \<and>
     record_of (dsk t) 1 = 27 \<and> record_of (dsk t) 2 = 25 \<and>
     total_worth (record_of (dsk t)) {1, 2} = 25"
proof -
  have m: "myuid sample_bank = 1"
    and r: "record_of (dsk sample_bank) 1 = 41" "record_of (dsk sample_bank) 2 = 11"
    by (simp_all add: sample_bank_def record_of_def)
  show ?thesis
    using transfer_conserves [OF sample_lock_free sample_lock_free, of "{1, 2}" 2 20 7 5 "''lunch''"]
    by (auto simp: m r in_long_def LONG_MIN_def LONG_MAX_def total_worth_def worth_def)
qed

text \<open>
  A deposit of any amount to an open account in debt, zero included, also forgives one
  gribbly: halving the odd record of a negative balance with C's division rounds towards zero,
  where the listings round down.
\<close>

theorem deposit_in_debt_gains_one:
  assumes "lock_free e False s" "0 \<le> uid" "record_of (dsk s) uid = 2 * b + 1" "b < 0"
    and "in_long (2 * (b + amt + 1) + 1)"
  shows "\<exists>t. addbalance e uid amt s = (Ret (), t) \<and>
     worth (record_of (dsk t) uid) = worth (record_of (dsk s) uid) + amt + 1"
proof -
  have "new_record amt (2 * b + 1) = 2 * (b + amt + 1) + 1"
    using assms(4,5) by (rule new_record_open(2))
  with assms(1-3) show ?thesis
    using worth_odd [of "b + amt + 1"]
    by (simp add: addbalance_run bankfile.get_put_same del: distrib_left_numeral)
qed

theorem deposit_in_debt_gains_one_witness:
  "\<exists>t. addbalance sample_env 1 0 (sample_bank\<lparr>dsk := (dsk sample_bank)\<lparr>bf := [0, -9]\<rparr>\<rparr>) = (Ret (), t) \<and>
     worth (record_of (dsk t) 1) = -4"
proof -
  let ?s = "sample_bank\<lparr>dsk := (dsk sample_bank)\<lparr>bf := [0, -9]\<rparr>\<rparr>"
  have "lock_free sample_env False ?s" and "record_of (dsk ?s) 1 = 2 * (-5) + 1"
    using sample_lock_free [of False] by (simp_all add: lock_free_def record_of_def)
  from deposit_in_debt_gains_one [OF this(1) _ this(2), of 0] show ?thesis
    by (simp add: in_long_def LONG_MIN_def LONG_MAX_def record_of_def worth_def)
qed

section \<open>Transaction records\<close>

definition live :: "trans_ent \<Rightarrow> bool" where
  "live t \<longleftrightarrow> code t \<noteq> TR_NONE"

definition for_uid :: "int \<Rightarrow> trans_ent \<Rightarrow> bool" where
  "for_uid uid t \<longleftrightarrow> live t \<and> to_uid t = uid"

text \<open>What a report of \<open>uid\<close>'s transactions does to the file, and what it prints.\<close>

definition cleared :: "int \<Rightarrow> trans_ent list \<Rightarrow> trans_ent list" where
  "cleared uid = map (\<lambda>t. if for_uid uid t then t\<lparr>code := TR_NONE\<rparr> else t)"

definition report_text :: "int \<Rightarrow> trans_ent list \<Rightarrow> string" where
  "report_text uid es = concat (map (\<lambda>t. the (show_trans t)) (filter (for_uid uid) es))"

definition known_codes :: "trans_ent list \<Rightarrow> bool" where
  "known_codes es \<longleftrightarrow> (\<forall>t \<in> set es. 0 \<le> code t \<and> code t \<le> 3)"

lemma show_trans_known: "0 \<le> code t \<Longrightarrow> code t \<le> 3 \<Longrightarrow> \<exists>x. show_trans t = Some x"
  by (simp add: show_trans_def trname_def)

lemma cleared_simps [simp]:
  "cleared uid [] = []"
  "cleared uid (t # ts) = (if for_uid uid t then t\<lparr>code := TR_NONE\<rparr> else t) # cleared uid ts"
  by (simp_all add: cleared_def)

lemma none_for_uid_cleared: "\<forall>t \<in> set (cleared uid es). \<not> for_uid uid t"
  by (induction es) (simp_all add: for_uid_def live_def)

lemma not_for_uid_cleared: "t \<in> set (cleared uid es) \<Longrightarrow> \<not> for_uid uid t"
  using none_for_uid_cleared by blast

lemma known_cleared: "known_codes es \<Longrightarrow> known_codes (cleared uid es)"
  by (auto simp: known_codes_def cleared_def TR_NONE_def)

lemma scan_silent: "scan_entries uid True es = Some (cleared uid es, [], False)"
  by (induction es) (auto simp: for_uid_def live_def)

lemma scan_loud:
  "known_codes es \<Longrightarrow> scan_entries uid False es =
     Some (cleared uid es, report_text uid es, \<exists>t \<in> set es. for_uid uid t)"
proof (induction es)
  case Nil
  then show ?case by (simp add: report_text_def)
next
  case (Cons t es)
  then have IH: "scan_entries uid False es =
      Some (cleared uid es, report_text uid es, \<exists>t \<in> set es. for_uid uid t)"
    by (simp add: known_codes_def)
  from Cons.prems obtain x where "show_trans t = Some x"
    using show_trans_known [of t] by (auto simp: known_codes_def)
  with IH show ?case
    by (simp add: report_text_def for_uid_def live_def)
qed

lemma scantrans_run:
  assumes "known_codes (tf (dsk u))"
  shows "scantrans uid False u = (Ret (),
       u\<lparr>tout := tout u @ report_text uid (tf (dsk u)) @
            (if \<exists>t \<in> set (tf (dsk u)). for_uid uid t then [] else ''None''),
         dsk := (dsk u)\<lparr>tf := cleared uid (tf (dsk u))\<rparr>\<rparr>)"
  using scan_loud [OF assms]
  by (simp add: scantrans_def bnd_def sq_def gets_def puts_def upd_def whenP_def ret_def)

lemma scantrans_silent_run:
  "scantrans uid True u = (Ret (), u\<lparr>dsk := (dsk u)\<lparr>tf := cleared uid (tf (dsk u))\<rparr>\<rparr>)"
  by (simp add: scan_silent scantrans_def bnd_def sq_def gets_def puts_def upd_def whenP_def ret_def)

lemma cleared_twice [simp]: "cleared uid (cleared uid es) = cleared uid es"
  by (induction es) (simp_all add: for_uid_def live_def)

lemma none_for_uid: "\<not> (\<exists>t \<in> set (cleared uid es). for_uid uid t)"
  using not_for_uid_cleared by blast

lemma report_text_cleared [simp]: "report_text uid (cleared uid es) = []"
  using not_for_uid_cleared [of _ uid es] by (simp add: report_text_def filter_empty_conv)

lemma scantrans_again:
  assumes "known_codes (tf (dsk u))" and "scantrans uid False u = (r, t)"
  shows "scantrans uid False t = (Ret (), t\<lparr>tout := tout t @ ''None''\<rparr>)"
proof -
  have t: "tf (dsk t) = cleared uid (tf (dsk u))"
    using assms(2) by (auto simp: scantrans_run [OF assms(1), of uid])
  then have "known_codes (tf (dsk t))" using assms(1) by (simp add: known_cleared)
  moreover have "t\<lparr>tout := x, dsk := (dsk t)\<lparr>tf := tf (dsk t)\<rparr>\<rparr> = t\<lparr>tout := x\<rparr>" for x
    by (cases t; cases "dsk t") simp
  ultimately show ?thesis
    using scantrans_run [of t uid] none_for_uid [of uid "tf (dsk u)"] by (simp only: t cleared_twice
        report_text_cleared if_False append_Nil)
qed

text \<open>
  C8: reporting a customer's transactions prints every live record for that customer, in the
  order of the file, or the word None when there is none; it marks exactly those records free and
  leaves every other record as it was; and a second report prints None and changes nothing.
\<close>

theorem scantrans_reports_once:
  assumes "known_codes (tf (dsk s))"
  shows "\<exists>t. scantrans uid False s = (Ret (), t) \<and>
     tout t = tout s @ (if \<exists>x \<in> set (tf (dsk s)). for_uid uid x
                        then report_text uid (tf (dsk s)) else ''None'') \<and>
     tf (dsk t) = map (\<lambda>x. if for_uid uid x then x\<lparr>code := TR_NONE\<rparr> else x) (tf (dsk s)) \<and>
     bf (dsk t) = bf (dsk s) \<and>
     scantrans uid False t = (Ret (), t\<lparr>tout := tout t @ ''None''\<rparr>)"
proof -
  let ?t = "snd (scantrans uid False s)"
  have run: "scantrans uid False s = (Ret (), ?t)" by (simp add: scantrans_run [OF assms])
  have "report_text uid (tf (dsk s)) = []" if "\<not> (\<exists>x \<in> set (tf (dsk s)). for_uid uid x)"
    using that by (simp add: report_text_def filter_empty_conv)
  then show ?thesis
    using run scantrans_again [OF assms run]
    by (intro exI [of _ ?t]) (simp add: scantrans_run [OF assms] cleared_def)
qed

theorem scantrans_reports_once_witness:
  "\<exists>t. scantrans 1 False (sample_bank\<lparr>dsk := (dsk sample_bank)\<lparr>tf := [
        \<lparr>to_uid = 1, code = 2, fr_id = ''bob'', why = ''luck'', amount = 3\<rparr>]\<rparr>\<rparr>) = (Ret (), t) \<and>
     tf (dsk t) = [\<lparr>to_uid = 1, code = 0, fr_id = ''bob'', why = ''luck'', amount = 3\<rparr>]"
  using scantrans_reports_once [of "sample_bank\<lparr>dsk := (dsk sample_bank)\<lparr>tf := [
        \<lparr>to_uid = 1, code = 2, fr_id = ''bob'', why = ''luck'', amount = 3\<rparr>]\<rparr>\<rparr>" 1]
  by (auto simp: known_codes_def for_uid_def live_def TR_NONE_def)

lemma takeWhile_live: "takeWhile (\<lambda>t. code t \<noteq> TR_NONE) es = takeWhile live es"
  by (rule takeWhile_cong) (simp_all add: live_def)

lemma free_slot_cases:
  obtains (full) "free_slot es = length es" "filter live es = es"
  | (free) a x b where "es = a @ x # b" "free_slot es = length a" "\<not> live x"
proof (cases "dropWhile live es")
  case Nil
  then have "\<forall>x \<in> set es. live x" by (simp add: dropWhile_eq_Nil_conv)
  then have "takeWhile live es = es" and "filter live es = es"
    by (simp_all add: takeWhile_eq_all_conv filter_id_conv)
  moreover from this(1) have "free_slot es = length es"
    by (simp only: free_slot_def takeWhile_live)
  ultimately show ?thesis by (intro full)
next
  case (Cons x b)
  then have "\<not> live x" by (metis dropWhile_eq_Cons_conv)
  moreover have "es = takeWhile live es @ x # b" by (metis Cons takeWhile_dropWhile_id)
  ultimately show ?thesis by (intro free) (simp_all add: free_slot_def takeWhile_live)
qed

lemma put_trans_live:
  assumes "live tr"
  shows "mset (filter live (tf (put_trans tr d))) = add_mset tr (mset (filter live (tf d)))"
proof (cases rule: free_slot_cases [of "tf d"])
  case full
  then show ?thesis using assms by (simp add: put_trans_def)
next
  case (free a x b)
  then show ?thesis using assms by (simp add: put_trans_def)
qed

lemma put_trans_slot:
  "length (tf (put_trans tr d)) \<le> Suc (length (tf d)) \<and>
   (\<exists>i < length (tf (put_trans tr d)). tf (put_trans tr d) ! i = tr \<and>
      (\<forall>j < length (tf d). j \<noteq> i \<longrightarrow> tf (put_trans tr d) ! j = tf d ! j))"
proof (cases rule: free_slot_cases [of "tf d"])
  case full
  then show ?thesis
    by (intro conjI exI [of _ "length (tf d)"]) (simp_all add: put_trans_def nth_append)
next
  case (free a x b)
  then show ?thesis
    by (intro conjI exI [of _ "length a"]) (simp_all add: put_trans_def nth_append nth_Cons')
qed

text \<open>
  C9: storing a transaction record adds exactly that record to the live ones and disturbs none of
  them, whether it reuses a freed slot or extends the file over a torn last entry.
\<close>

theorem transaction_adds_one:
  assumes "lock_free e True s" and "live tr"
  shows "\<exists>t. transaction e tr s = (Ret (), t) \<and>
     mset (filter live (tf (dsk t))) = add_mset tr (mset (filter live (tf (dsk s)))) \<and>
     length (tf (dsk t)) \<le> Suc (length (tf (dsk s))) \<and>
     (\<exists>i < length (tf (dsk t)). tf (dsk t) ! i = tr \<and>
        (\<forall>j < length (tf (dsk s)). j \<noteq> i \<longrightarrow> tf (dsk t) ! j = tf (dsk s) ! j))"
proof -
  let ?t = "on_disk (put_trans tr) s"
  have "transaction e tr s = (Ret (), ?t)" using assms(1) by (rule transaction_run)
  moreover have "tf (dsk ?t) = tf (put_trans tr (dsk s))" by simp
  ultimately show ?thesis
    using put_trans_live [OF assms(2), of "dsk s"] put_trans_slot [of tr "dsk s"] by metis
qed

theorem transaction_adds_one_witness:
  "live \<lparr>to_uid = 2, code = 1, fr_id = ''ann'', why = [], amount = 4\<rparr> \<and>
   (\<exists>t. transaction sample_env \<lparr>to_uid = 2, code = 1, fr_id = ''ann'', why = [], amount = 4\<rparr>
          sample_bank = (Ret (), t) \<and> mset (filter live (tf (dsk t))) =
            {# \<lparr>to_uid = 2, code = 1, fr_id = ''ann'', why = [], amount = 4\<rparr> #})"
proof -
  let ?tr = "\<lparr>to_uid = 2, code = 1, fr_id = ''ann'', why = [], amount = 4\<rparr>"
  have "live ?tr" and "tf (dsk sample_bank) = []"
    by (simp_all add: live_def TR_NONE_def sample_bank_def)
  then show ?thesis
    using transaction_adds_one [OF sample_lock_free, of ?tr] by auto
qed

end
