(* ===== verification/BankLists.thy ===== *)
theory BankLists
  imports BankProps
begin

text \<open>
  The two listings against their specifications: the ten wealthiest are the first ten of all open
  accounts sorted by balance, equal balances in the order of the file; the listing of all accounts
  prints every open account of an existing user and closes exactly those of vanished users.
\<close>

section \<open>The array of ten as a sorted list\<close>

lemma sdiv2_even: "even (x::int) \<Longrightarrow> x sdiv 2 = x div 2"
  by (auto elim!: evenE simp: signed_divide_int_def sgn_if abs_if)

definition open_accounts :: "int \<Rightarrow> int list \<Rightarrow> rich" where
  "open_accounts cuid recs =
     map (\<lambda>(u, v). (u, worth v)) (filter (\<lambda>(u, v). odd v) (zip (map (\<lambda>i. cuid + int i) [0..<length recs]) recs))"

definition by_wealth :: "rich \<Rightarrow> rich" where
  "by_wealth = sort_key (\<lambda>p. - snd p)"

text \<open>Insertion after the entries that are at least as rich.\<close>

fun ins_rich :: "int \<times> int \<Rightarrow> rich \<Rightarrow> rich" where
  "ins_rich x [] = [x]"
| "ins_rich x (y # ys) = (if snd x \<le> snd y then y # ins_rich x ys else x # y # ys)"

lemma mset_ins_rich [simp]: "mset (ins_rich x ys) = add_mset x (mset ys)"
  by (induction ys) auto

lemma set_ins_rich [simp]: "set (ins_rich x ys) = insert x (set ys)"
  by (induction ys) auto

lemma sorted_ins_rich:
  "sorted (map (\<lambda>p. - snd p) ys) \<Longrightarrow> sorted (map (\<lambda>p. - snd p) (ins_rich x ys))"
  by (induction ys) auto

lemma filter_ins_rich:
  "sorted (map (\<lambda>p. - snd p) ys) \<Longrightarrow>
   filter (\<lambda>p. k = - snd p) (ins_rich x ys) =
   filter (\<lambda>p. k = - snd p) ys @ (if k = - snd x then [x] else [])"
proof (induction ys)
  case Nil
  then show ?case by simp
next
  case (Cons y ys)
  show ?case
  proof (cases "snd x \<le> snd y")
    case True
    have IH: "filter (\<lambda>p. k = - snd p) (ins_rich x ys) =
        filter (\<lambda>p. k = - snd p) ys @ (if k = - snd x then [x] else [])"
      using Cons by simp
    show ?thesis by (simp only: True ins_rich.simps if_True filter.simps IH) simp
  next
    case False
    then have "\<forall>p \<in> set (y # ys). snd p < snd x" using Cons.prems by auto
    then have "filter (\<lambda>p. - snd x = - snd p) (y # ys) = []" by (simp add: filter_empty_conv) force
    with False show ?thesis by auto
  qed
qed

lemma sort_key_snoc: "by_wealth (xs @ [x]) = ins_rich x (by_wealth xs)"
  unfolding by_wealth_def
proof (rule properties_for_sort_key)
  have s: "sorted (map (\<lambda>p. - snd p) (sort_key (\<lambda>p. - snd p) xs))" by simp
  show "mset (ins_rich x (sort_key (\<lambda>p. - snd p) xs)) = mset (xs @ [x])" by simp
  show "sorted (map (\<lambda>p. - snd p) (ins_rich x (sort_key (\<lambda>p. - snd p) xs)))"
    using s by (rule sorted_ins_rich)
  fix k assume "k \<in> set (ins_rich x (sort_key (\<lambda>p. - snd p) xs))"
  show "filter (\<lambda>p. - snd k = - snd p) (ins_rich x (sort_key (\<lambda>p. - snd p) xs)) =
      filter (\<lambda>p. - snd k = - snd p) (xs @ [x])"
    using filter_ins_rich [OF s, of "- snd k" x] sort_key_stable [of "\<lambda>p. - snd p" "- snd k" xs]
    by (simp add: eq_commute)
qed

lemma take_ins_rich: "take n (ins_rich x (take n ys)) = take n (ins_rich x ys)"
proof (induction ys arbitrary: n)
  case (Cons y ys)
  show ?case
  proof (cases n)
    case (Suc m)
    have "take m (y # take m ys) = take m (y # ys)" by (cases m) (simp_all add: take_Suc min_def)
    with Cons.IH [of m] Suc show ?thesis by simp
  qed simp
qed simp

section \<open>What the insertion loop does to the array\<close>

lemma rich_shift_spec:
  assumes "rich_shift n new rich = (i, rich')" "n \<le> 10" "length rich = 10"
  shows "i \<le> n \<and> length rich' = 10 \<and> (\<forall>k. i \<le> k \<and> k < n \<longrightarrow> snd (rich ! k) < new) \<and>
    (0 < i \<longrightarrow> new \<le> snd (rich ! (i - 1))) \<and>
    (\<forall>k < 10. rich' ! k = (if i < k \<and> k \<le> n then rich ! (k - 1) else rich ! k))"
  using assms
proof (induction n arbitrary: rich)
  case 0
  then show ?case by auto
next
  case (Suc n)
  show ?case
  proof (cases "snd (rich ! n) < new")
    case True
    let ?r = "if Suc n < 10 then rich[Suc n := rich ! n] else rich"
    have r: "rich_shift n new ?r = (i, rich')" using Suc.prems(1) True by simp
    have len: "length ?r = 10" using Suc.prems(3) by simp
    have at: "?r ! k = (if k = Suc n then rich ! n else rich ! k)" if "k < 10" for k
      using that Suc.prems(3) by (auto simp: nth_list_update)
    from Suc.IH [OF r _ len] Suc.prems(2) have ih: "i \<le> n" "length rich' = 10"
      "\<forall>k. i \<le> k \<and> k < n \<longrightarrow> snd (?r ! k) < new" "0 < i \<longrightarrow> new \<le> snd (?r ! (i - 1))"
      "\<forall>k < 10. rich' ! k = (if i < k \<and> k \<le> n then ?r ! (k - 1) else ?r ! k)" by simp_all
    have a: "\<forall>k. i \<le> k \<and> k < Suc n \<longrightarrow> snd (rich ! k) < new"
    proof (intro allI impI)
      fix k assume k: "i \<le> k \<and> k < Suc n"
      show "snd (rich ! k) < new"
        using ih(3) [rule_format, of k] at [of k] True k Suc.prems(2) by (cases "k = n") auto
    qed
    have b: "0 < i \<longrightarrow> new \<le> snd (rich ! (i - 1))"
    proof
      assume "0 < i"
      then have "i - 1 \<noteq> Suc n" and "i - 1 < 10" using ih(1) Suc.prems(2) by simp_all
      then show "new \<le> snd (rich ! (i - 1))" using ih(4) at [of "i - 1"] \<open>0 < i\<close> by metis
    qed
    have c: "\<forall>k < 10. rich' ! k = (if i < k \<and> k \<le> Suc n then rich ! (k - 1) else rich ! k)"
    proof (intro allI impI)
      fix k :: nat assume k: "k < 10"
      consider "k = Suc n" | "i < k" "k \<le> n" | "k \<le> i" | "Suc n < k" by linarith
      then show "rich' ! k = (if i < k \<and> k \<le> Suc n then rich ! (k - 1) else rich ! k)"
        using ih(1) ih(5) [rule_format, OF k] at [OF k] at [of "k - 1"] k by cases auto
    qed
    show ?thesis using ih(1,2) a b c by simp
  next
    case False
    then show ?thesis using Suc.prems by auto
  qed
qed

text \<open>In a list sorted by wealth, the loop's index is where the insertion belongs.\<close>

lemma ins_rich_at:
  assumes "i \<le> length ys" "\<forall>k. i \<le> k \<and> k < length ys \<longrightarrow> snd (ys ! k) < snd x"
    and "0 < i \<longrightarrow> snd x \<le> snd (ys ! (i - 1))" "sorted (map (\<lambda>p. - snd p) ys)"
  shows "ins_rich x ys = take i ys @ x # drop i ys"
  using assms
proof (induction ys arbitrary: i)
  case Nil
  then show ?case by simp
next
  case (Cons y ys)
  show ?case
  proof (cases i)
    case 0
    with Cons.prems(2) [rule_format, of 0] show ?thesis by simp
  next
    case (Suc j)
    have "snd x \<le> snd y"
    proof (cases j)
      case 0
      with Suc Cons.prems(3) show ?thesis by simp
    next
      case (Suc l)
      then have "ys ! l \<in> set ys" using \<open>i = Suc j\<close> Cons.prems(1) by simp
      then have "snd (ys ! l) \<le> snd y" using Cons.prems(4) by auto
      with Suc \<open>i = Suc j\<close> Cons.prems(3) show ?thesis by simp
    qed
    moreover have "ins_rich x ys = take j ys @ x # drop j ys"
    proof (rule Cons.IH)
      show "\<forall>k. j \<le> k \<and> k < length ys \<longrightarrow> snd (ys ! k) < snd x"
        using Cons.prems(2) Suc by (metis Suc_le_mono Suc_less_eq length_Cons nth_Cons_Suc)
      show "0 < j \<longrightarrow> snd x \<le> snd (ys ! (j - 1))"
        using Cons.prems(3) Suc by (cases j) auto
    qed (use Cons.prems Suc in auto)
    ultimately show ?thesis using Suc by simp
  qed
qed


definition top_of :: "nat \<times> rich \<Rightarrow> rich" where
  "top_of p = take (fst p) (snd p)"

definition ten_slots :: "nat \<times> rich \<Rightarrow> bool" where
  "ten_slots p \<longleftrightarrow> fst p \<le> 10 \<and> length (snd p) = 10 \<and> sorted (map (\<lambda>q. - snd q) (top_of p))"

lemma rich_add_spec:
  assumes "ten_slots p"
  shows "ten_slots (rich_add u v p) \<and> top_of (rich_add u v p) = take 10 (ins_rich (u, v) (top_of p))"
proof -
  obtain n rich where p: "p = (n, rich)" by fastforce
  obtain i rich' where sh: "rich_shift n v rich = (i, rich')" by fastforce
  from assms have n: "n \<le> 10" "length rich = 10" "sorted (map (\<lambda>q. - snd q) (take n rich))"
    by (simp_all add: p ten_slots_def top_of_def)
  note sp = rich_shift_spec [OF sh n(1,2)]
  let ?ys = "take n rich"
  have ins: "ins_rich (u, v) ?ys = take i ?ys @ (u, v) # drop i ?ys"
    using sp n by (intro ins_rich_at) auto
  have top: "top_of (rich_add u v p) = take 10 (ins_rich (u, v) ?ys)"
  proof (cases "i < 10")
    case True
    let ?m = "if n < 10 then n + 1 else n"
    have m: "top_of (rich_add u v p) = take ?m (rich'[i := (u, v)])"
      using True by (simp add: rich_add_def p sh top_of_def)
    show ?thesis
    proof (rule nth_equalityI)
      show "length (top_of (rich_add u v p)) = length (take 10 (ins_rich (u, v) ?ys))"
        using sp n True by (auto simp: m ins min_def)
      fix k assume "k < length (top_of (rich_add u v p))"
      then have "k < ?m" using sp n by (simp add: m)
      then have k: "k < ?m" "k < 10" using n by (simp_all split: if_splits)
      consider "k < i" | "k = i" | "i < k" by linarith
      then show "top_of (rich_add u v p) ! k = take 10 (ins_rich (u, v) ?ys) ! k"
        using sp n k True by cases
          (auto simp: m ins nth_append nth_list_update nth_Cons' min_def split: if_splits)
    qed
  next
    case False
    with sp n have "n = 10" "i = 10" by auto
    with n sp have "rich' = rich" by (intro nth_equalityI) auto
    have "rich_shift 10 v rich = (10, rich)"
      using sh \<open>n = 10\<close> \<open>i = 10\<close> \<open>rich' = rich\<close> by simp
    moreover have "take 10 (ins_rich (u, v) rich) = rich"
      using ins \<open>n = 10\<close> \<open>i = 10\<close> n(2) by simp
    ultimately show ?thesis using n(2) by (simp add: rich_add_def p \<open>n = 10\<close> top_of_def)
  qed
  have "sorted (map (\<lambda>q. - snd q) (take 10 (ins_rich (u, v) ?ys)))"
    using sorted_ins_rich [OF n(3)] by (simp add: take_map [symmetric] sorted_wrt_take)
  moreover have "fst (rich_add u v p) \<le> 10" "length (snd (rich_add u v p)) = 10"
    using sp n by (auto simp: rich_add_def p sh)
  ultimately show ?thesis using top by (simp add: ten_slots_def top_of_def p)
qed

lemma open_accounts_simps [simp]:
  "open_accounts c [] = []"
  "open_accounts c (v # vs) = (if odd v then [(c, worth v)] else []) @ open_accounts (c + 1) vs"
proof -
  have "map (\<lambda>i. c + int i) [0..<Suc (length vs)] = c # map (\<lambda>i. c + 1 + int i) [0..<length vs]"
    by (simp add: map_upt_Suc algebra_simps del: upt_Suc)
  then show "open_accounts c (v # vs) =
      (if odd v then [(c, worth v)] else []) @ open_accounts (c + 1) vs"
    by (simp add: open_accounts_def del: upt_Suc)
qed (simp add: open_accounts_def)

lemma rich_scan_spec:
  assumes "ten_slots p" "top_of p = take 10 (by_wealth xs)"
  shows "top_of (rich_scan c recs p) = take 10 (by_wealth (xs @ open_accounts c recs))"
  using assms
proof (induction recs arbitrary: c p xs)
  case Nil
  then show ?case by simp
next
  case (Cons v vs)
  show ?case
  proof (cases "odd v")
    case False
    with Cons show ?thesis by (simp add: smod2_zero_iff)
  next
    case True
    have w: "(v - 1) sdiv 2 = worth v" using True by (simp add: worth_def sdiv2_even)
    let ?p = "rich_add c (worth v) p"
    have "ten_slots ?p" "top_of ?p = take 10 (by_wealth (xs @ [(c, worth v)]))"
      using rich_add_spec [OF Cons.prems(1), of c "worth v"]
      by (simp_all add: Cons.prems(2) take_ins_rich sort_key_snoc)
    from Cons.IH [OF this, of "c + 1"] True w show ?thesis by (simp add: smod2_zero_iff)
  qed
qed

text \<open>
  C21: the listing of the wealthiest prints the first ten of all open accounts from uid 1 on, sorted
  by balance with the larger first and equal balances in the order of their uids, whatever the
  number of accounts.
\<close>

theorem wealthy_prints_top_ten:
  "wealthy e s =
     (if bf (dsk s) = [] then (Ret (), s\<lparr>bpos := 0\<rparr>)
      else print_rich e 0 (take 10 (by_wealth (open_accounts 1 (tl (bf (dsk s))))))
             (s\<lparr>bpos := length (bf (dsk s))\<rparr>))"
proof (cases "bf (dsk s)")
  case Nil
  then show ?thesis by (simp add: wealthy_def bf_lseek_def bf_read_def bnd_def sq_def ret_def)
next
  case (Cons v vs)
  let ?p = "(0, (0, v) # replicate 9 (0, 0)) :: nat \<times> rich"
  have "top_of (rich_scan 1 vs ?p) = take 10 (by_wealth ([] @ open_accounts 1 vs))"
    by (rule rich_scan_spec) (simp_all add: ten_slots_def top_of_def by_wealth_def)
  then show ?thesis using Cons
    by (cases "rich_scan 1 vs ?p")
       (simp add: wealthy_def bf_lseek_def bf_read_def bnd_def sq_def gets_def upd_def top_of_def)
qed

section \<open>The listing of all accounts\<close>

definition vanished :: "bank_env \<Rightarrow> int \<Rightarrow> int \<Rightarrow> bool" where
  "vanished e u v \<longleftrightarrow> odd v \<and> getpwuid e u = None"

fun kept_records :: "bank_env \<Rightarrow> int \<Rightarrow> int list \<Rightarrow> int list" where
  "kept_records e u [] = []"
| "kept_records e u (v # vs) = (if vanished e u v then 0 else v) # kept_records e (u + 1) vs"

fun kept_trans :: "bank_env \<Rightarrow> int \<Rightarrow> int list \<Rightarrow> trans_ent list \<Rightarrow> trans_ent list" where
  "kept_trans e u [] ts = ts"
| "kept_trans e u (v # vs) ts =
     kept_trans e (u + 1) vs (if vanished e u v then cleared u ts else ts)"

fun list_text :: "bank_env \<Rightarrow> int \<Rightarrow> int list \<Rightarrow> string" where
  "list_text e u [] = []"
| "list_text e u (v # vs) =
     (if odd v then (case getpwuid e u of None \<Rightarrow> []
        | Some name \<Rightarrow> pad_left 8 (take 8 name) @ pad_left 12 (dec (worth v)) @ abbr @ ''\<newline>'')
      else []) @ list_text e (u + 1) vs"

lemma length_kept_records [simp]: "length (kept_records e u vs) = length vs"
  by (induction vs arbitrary: u) auto

lemma nth_kept_records:
  "i < length vs \<Longrightarrow> kept_records e u vs ! i = (if vanished e (u + int i) (vs ! i) then 0 else vs ! i)"
proof (induction vs arbitrary: u i)
  case (Cons v vs)
  then show ?case by (cases i) (simp_all add: algebra_simps)
qed simp

lemma nth_kept_trans:
  "kept_trans e u vs ts =
     map (\<lambda>t. if live t \<and> (\<exists>i < length vs. to_uid t = u + int i \<and> vanished e (to_uid t) (vs ! i))
              then t\<lparr>code := TR_NONE\<rparr> else t) ts"
proof (induction vs arbitrary: u ts)
  case Nil
  then show ?case by simp
next
  case (Cons v vs)
  have ex: "(\<exists>i < length (v # vs). x = u + int i \<and> vanished e x ((v # vs) ! i)) \<longleftrightarrow>
      x = u \<and> vanished e x v \<or> (\<exists>i < length vs. x = u + 1 + int i \<and> vanished e x (vs ! i))" for x
    by (auto simp: Ex_less_Suc2 algebra_simps)
  show ?case
    unfolding kept_trans.simps Cons.IH ex
    by (cases "vanished e u v") (auto simp: cleared_def for_uid_def live_def)
qed

lemma closeaccount_run:
  "0 \<le> u \<Longrightarrow> closeaccount u s = (Ret (), s\<lparr>dsk := (dsk s)\<lparr>bf := put_at 0 (nat u) 0 (bf (dsk s)),
       tf := cleared u (tf (dsk s))\<rparr>, bpos := Suc (nat u)\<rparr>)"
  unfolding closeaccount_def
  by (rule sq_then, erule writebalance_run) (simp add: scantrans_silent_run put_record_def)

lemma listall_loop_run:
  assumes "bf (dsk s) = pre @ vs" "bpos s = length pre" "length vs < n"
  shows "listall_loop e n (int (length pre)) s = (Ret (),
     s\<lparr>tout := tout s @ list_text e (int (length pre)) vs,
       dsk := (dsk s)\<lparr>bf := pre @ kept_records e (int (length pre)) vs,
         tf := kept_trans e (int (length pre)) vs (tf (dsk s))\<rparr>,
       bpos := length pre + length vs\<rparr>)"
  using assms
proof (induction vs arbitrary: pre n s)
  case Nil
  then obtain m where "n = Suc m" by (cases n) auto
  with Nil show ?case by (simp add: bnd_def bf_read_def ret_def)
next
  case (Cons v vs)
  then obtain m where n: "n = Suc m" "length vs < m" by (cases n) auto
  let ?u = "int (length pre)"
  let ?s1 = "s\<lparr>bpos := Suc (length pre)\<rparr>"
  have rd: "bf_read s = (Ret (Some v), ?s1)"
    using Cons.prems by (simp add: bf_read_def nth_append)
  have step: "listall_loop e n ?u s = (if v smod 2 = 0 then listall_loop e m (?u + 1)
       else sq (case getpwuid e ?u of
                  None \<Rightarrow> closeaccount ?u
                | Some name \<Rightarrow> puts (pad_left 8 (take 8 name)
                                 @ pad_left 12 (dec ((v - 1) sdiv 2)) @ abbr @ ''\<newline>''))
               (listall_loop e m (?u + 1))) ?s1"
    unfolding n(1) listall_loop.simps by (rule bnd_then, rule rd) simp
  have nxt: "?u + 1 = int (length (pre @ [w]))" for w :: int by simp
  have IH: "listall_loop e m (?u + 1) t = (Ret (),
     t\<lparr>tout := tout t @ list_text e (?u + 1) vs,
       dsk := (dsk t)\<lparr>bf := (pre @ [w]) @ kept_records e (?u + 1) vs,
         tf := kept_trans e (?u + 1) vs (tf (dsk t))\<rparr>,
       bpos := Suc (length pre) + length vs\<rparr>)"
    if "bf (dsk t) = (pre @ [w]) @ vs" "bpos t = Suc (length pre)" for t w
    using Cons.IH [of t "pre @ [w]" m] that n(2) by (simp add: add.commute)
  show ?case
  proof (cases "odd v")
    case False
    with IH [of ?s1 v] Cons.prems step show ?thesis by (simp add: smod2_zero_iff vanished_def)
  next
    case True
    have w: "(v - 1) sdiv 2 = worth v" using True by (simp add: worth_def sdiv2_even)
    show ?thesis
    proof (cases "getpwuid e ?u")
      case None
      let ?t = "?s1\<lparr>dsk := (dsk s)\<lparr>bf := pre @ 0 # vs, tf := cleared ?u (tf (dsk s))\<rparr>\<rparr>"
      have "put_at 0 (length pre) 0 (pre @ v # vs) = pre @ 0 # vs"
        by (simp add: put_at_in_range)
      then have "closeaccount ?u ?s1 = (Ret (), ?t)"
        using Cons.prems(1) by (simp add: closeaccount_run)
      with step True None have "listall_loop e n ?u s = listall_loop e m (?u + 1) ?t"
        by (simp add: smod2_zero_iff sq_run)
      with IH [of ?t 0] True None show ?thesis by (simp add: vanished_def)
    next
      case (Some name)
      let ?t = "?s1\<lparr>tout := tout s @ pad_left 8 (take 8 name)
          @ pad_left 12 (dec (worth v)) @ abbr @ ''\<newline>''\<rparr>"
      have "listall_loop e n ?u s = listall_loop e m (?u + 1) ?t"
        using step True Some w by (simp add: smod2_zero_iff sq_run puts_run)
      with IH [of ?t v] Cons.prems True Some show ?thesis by (simp add: vanished_def)
    qed
  qed
qed

text \<open>
  C33: the listing of all accounts always ends, prints every open account of an existing user with
  its balance, sets exactly the records of open accounts whose user no longer exists to zero, and
  frees exactly the live transaction records addressed to those users.
\<close>

theorem listall_closes_vanished:
  "\<exists>t. listall e s = (Ret (), t) \<and> tout t = tout s @ list_text e 0 (bf (dsk s)) \<and>
     length (bf (dsk t)) = length (bf (dsk s)) \<and>
     (\<forall>i. i < length (bf (dsk s)) \<longrightarrow> bf (dsk t) ! i =
        (if odd (bf (dsk s) ! i) \<and> getpwuid e (int i) = None then 0 else bf (dsk s) ! i)) \<and>
     tf (dsk t) = map (\<lambda>x. if live x \<and> (\<exists>i < length (bf (dsk s)). to_uid x = int i \<and>
                            vanished e (to_uid x) (bf (dsk s) ! i))
                          then x\<lparr>code := TR_NONE\<rparr> else x) (tf (dsk s))"
proof -
  let ?s = "s\<lparr>bpos := 0\<rparr>"
  have "listall e s = listall_loop e (Suc (length (bf (dsk s)))) 0 ?s"
    by (simp add: listall_def sq_def bnd_def bf_lseek_def gets_def del: listall_loop.simps)
  with listall_loop_run [of ?s "[]" "bf (dsk s)" "Suc (length (bf (dsk s)))" e]
  show ?thesis
    by (simp add: nth_kept_records nth_kept_trans vanished_def)
qed

theorem listall_closes_vanished_witness:
  "\<exists>t. listall sample_env (sample_bank\<lparr>dsk := (dsk sample_bank)\<lparr>bf := [21, 41]\<rparr>\<rparr>) = (Ret (), t) \<and>
     bf (dsk t) ! 0 = 0 \<and> bf (dsk t) ! 1 = 41"
proof -
  let ?s = "sample_bank\<lparr>dsk := (dsk sample_bank)\<lparr>bf := [21, 41]\<rparr>\<rparr>"
  obtain t where t: "listall sample_env ?s = (Ret (), t)"
    "\<forall>i. i < length (bf (dsk ?s)) \<longrightarrow> bf (dsk t) ! i =
      (if odd (bf (dsk ?s) ! i) \<and> getpwuid sample_env (int i) = None then 0 else bf (dsk ?s) ! i)"
    using listall_closes_vanished [of sample_env ?s] by blast
  from t(2) [rule_format, of 0] t(2) [rule_format, of 1] t(1) show ?thesis
    by (simp add: sample_env_def)
qed

end
