(* ===== verification/BankSafety.thy ===== *)
theory BankSafety
  imports BankLists
begin

text \<open>
  Properties of whole runs of the bank. A relation between the state before and after that holds
  for every primitive statement holds for every operation up to \<open>bank_main\<close>: this is proved
  once, in a locale, and used for the input that is left and for the locks.
\<close>

section \<open>Relations kept by the primitives are kept by the program\<close>

locale bank_frame = frame_rel I for I :: "bank \<Rightarrow> bank \<Rightarrow> bool" +
  assumes prim_io: "keeps I (puts x)" "keeps I (fgets n)" "keeps I getchar" "keeps I skip_line"
    and prim_globals: "I s (s\<lparr>hisid := x\<rparr>)" "I s (s\<lparr>buf := x\<rparr>)" "I s (s\<lparr>mybal := v\<rparr>)"
      "I s (s\<lparr>tm := v\<rparr>)" "I s (s\<lparr>myid := x\<rparr>)" "I s (s\<lparr>banker := b\<rparr>)"
      "I s (s\<lparr>report := b, banker := False\<rparr>)" "I s (s\<lparr>bpos := p\<rparr>)"
    and prim_files: "I s (s\<lparr>dsk := (dsk s)\<lparr>bf := bs\<rparr>\<rparr>)" "I s (s\<lparr>dsk := (dsk s)\<lparr>tf := es, tfrag := k\<rparr>\<rparr>)"
    and prim_locked: "keeps I (addbalance e uid bal)" "keeps I (transaction e tr)"
      "keeps I (bank_done e c :: unit bankp)"
begin

lemma keeps_globals:
  "keeps I (upd (\<lambda>s. s\<lparr>hisid := f s\<rparr>))" "keeps I (upd (\<lambda>s. s\<lparr>buf := f s\<rparr>))"
  "keeps I (upd (\<lambda>s. s\<lparr>mybal := g s\<rparr>))" "keeps I (upd (\<lambda>s. s\<lparr>tm := g s\<rparr>))"
  "keeps I (upd (\<lambda>s. s\<lparr>myid := f s\<rparr>))" "keeps I (upd (\<lambda>s. s\<lparr>banker := h s\<rparr>))"
  "keeps I (upd (\<lambda>s. s\<lparr>report := True, banker := False\<rparr>))"
  "keeps I (upd (\<lambda>s. s\<lparr>bpos := p s\<rparr>))"
  "keeps I (upd (\<lambda>s. case l of None \<Rightarrow> s | Some x \<Rightarrow> s\<lparr>hisid := x\<rparr>))"
  "keeps I (upd (\<lambda>s. case l of None \<Rightarrow> s | Some x \<Rightarrow> s\<lparr>buf := x\<rparr>))"
  "keeps I (upd (\<lambda>s. case v of None \<Rightarrow> s | Some x \<Rightarrow> s\<lparr>mybal := x\<rparr>))"
  by (auto intro!: keeps_upd prim_globals frame_refl split: option.split)

lemma keeps_tf: "keeps I (upd (on_disk (\<lambda>d. d\<lparr>tf := es\<rparr>)))"
proof (rule keeps_upd)
  fix s
  have "I s (s\<lparr>dsk := (dsk s)\<lparr>tf := es, tfrag := tfrag (dsk s)\<rparr>\<rparr>)" by (rule prim_files)
  then show "I s (on_disk (\<lambda>d. d\<lparr>tf := es\<rparr>) s)" by simp
qed

lemma keeps_lseek: "keeps I (bf_lseek uid)"
  by (auto simp: keeps_def bf_lseek_def frame_refl prim_globals split: if_splits)

lemma keeps_read: "keeps I bf_read"
  by (auto simp: keeps_def bf_read_def frame_refl prim_globals split: if_splits)

lemma keeps_write: "keeps I (bf_write v)"
  unfolding bf_write_def
proof (rule keeps_upd)
  fix s
  have "I s (s\<lparr>dsk := (dsk s)\<lparr>bf := put_at 0 (bpos s) v (bf (dsk s))\<rparr>\<rparr>)" by (rule prim_files)
  moreover have "I (s\<lparr>dsk := x\<rparr>) (s\<lparr>dsk := x, bpos := p\<rparr>)" for x p
    using prim_globals(8) [of "s\<lparr>dsk := x\<rparr>" p] by simp
  ultimately show "I s (s\<lparr>dsk := (dsk s)\<lparr>bf := put_at 0 (bpos s) v (bf (dsk s))\<rparr>,
      bpos := bpos s + 1\<rparr>)"
    by (rule frame_trans)
qed

lemmas prim_rules = prim_io prim_locked keeps_globals keeps_tf keeps_lseek keeps_read keeps_write

lemma keeps_balance: "keeps I (balance uid)"
  unfolding balance_def by (intro keeps_rules prim_rules)

lemma keeps_writebalance: "keeps I (writebalance uid v)"
  unfolding writebalance_def by (intro keeps_rules prim_rules)

lemma keeps_openaccount: "keeps I (openaccount uid)"
  unfolding openaccount_def Let_def by (intro keeps_rules keeps_writebalance)

lemma keeps_scantrans: "keeps I (scantrans uid silent)"
  unfolding scantrans_def by (intro keeps_rules prim_rules)

lemma keeps_closeaccount: "keeps I (closeaccount uid)"
  unfolding closeaccount_def by (intro keeps_rules keeps_writebalance keeps_scantrans)

lemma keeps_dotrans: "keeps I (dotrans e type uid amt reason)"
  unfolding dotrans_def Let_def by (intro keeps_rules prim_rules)

lemma keeps_print_rich: "keeps I (print_rich e i rs)"
proof (induction rs arbitrary: i)
  case (Cons r rs)
  then show ?case by (cases r) (simp, intro keeps_rules keeps_closeaccount prim_rules)
qed (simp add: keeps_ret)

lemma keeps_wealthy: "keeps I (wealthy e)"
  unfolding wealthy_def Let_def by (intro keeps_rules prim_rules keeps_print_rich)

lemma keeps_listall_loop: "keeps I (listall_loop e n cuid)"
proof (induction n arbitrary: cuid)
  case 0
  then show ?case by (simp add: keeps_def frame_refl)
next
  case (Suc n)
  then show ?case
    unfolding listall_loop.simps by (intro keeps_rules prim_rules keeps_closeaccount)
qed

lemma keeps_listall: "keeps I (listall e)"
  unfolding listall_def by (intro keeps_rules prim_rules keeps_listall_loop)

lemma keeps_am_banker: "keeps I (am_banker e login)"
  unfolding am_banker_def by (intro keeps_rules prim_rules)

lemma keeps_checkme: "keeps I (checkme e)"
  unfolding checkme_def by (intro keeps_rules prim_rules keeps_balance keeps_openaccount)

lemma keeps_getwho: "keeps I (getwho e did)"
  unfolding getwho_def by (intro keeps_rules prim_rules)

lemma keeps_prompt: "keeps I (prompt_if did x)"
  unfolding prompt_if_def by (intro keeps_rules prim_rules)

lemma keeps_fgets_buf: "keeps I fgets_buf"
  unfolding fgets_buf_def by (intro keeps_rules prim_rules)

lemma keeps_reason_round: "keeps I reason_round"
  unfolding reason_round_def by (intro keeps_rules prim_rules keeps_fgets_buf)

lemma keeps_ask_reason: "keeps I ask_reason"
  unfolding ask_reason_def by (intro keeps_rules prim_rules keeps_iter keeps_reason_round)

lemmas ask_rules = keeps_balance keeps_openaccount keeps_closeaccount keeps_getwho keeps_prompt
  keeps_fgets_buf keeps_ask_reason keeps_dotrans keeps_scantrans keeps_checkme

lemma keeps_ask:
  "keeps I (askopen e did)" "keeps I (askclose e did)" "keeps I (askreport e did)"
  "keeps I (ask_amount e type uid)"
  unfolding askopen_def askclose_def askreport_def ask_amount_def Let_def
  by (intro keeps_rules prim_rules ask_rules)+

lemma keeps_asktrans: "keeps I (asktrans e type did)"
  unfolding asktrans_def by (intro keeps_rules prim_rules ask_rules keeps_ask)

lemma keeps_dobank_round: "keeps I (dobank_round e)"
  unfolding dobank_round_def Let_def
  by (intro keeps_rules prim_rules ask_rules keeps_ask keeps_asktrans)

lemma keeps_dobank: "keeps I (dobank e)"
  unfolding dobank_def by (intro keeps_rules prim_rules keeps_iter keeps_dobank_round)

lemma keeps_parsetrans: "keeps I (parsetrans e type argv)"
  unfolding parsetrans_def Let_def by (intro keeps_rules prim_rules ask_rules)

lemma keeps_report_users: "keeps I (report_users e us)"
proof (induction us)
  case (Cons u us)
  then show ?case unfolding report_users.simps by (intro keeps_rules prim_rules ask_rules)
qed (simp add: keeps_ret)

lemma keeps_session: "keeps I (session e)"
  unfolding session_def
  by (intro keeps_rules prim_rules ask_rules keeps_asktrans keeps_dobank)

lemma keeps_open_or_close: "keeps I (open_or_close e c argv)"
  unfolding open_or_close_def by (intro keeps_rules prim_rules ask_rules)

theorem keeps_bank_main: "keeps I (bank_main e argv)"
  unfolding bank_main_def Let_def
  by (intro keeps_rules prim_rules keeps_am_banker keeps_session keeps_report_users
      keeps_wealthy keeps_listall keeps_parsetrans keeps_open_or_close)

end

section \<open>Input is only consumed\<close>

lemma consumes_refl [simp]: "consumes s s"
  by (simp add: consumes_def)

lemma unlock_consumes: "keeps consumes (unlock e w)"
  by (auto simp: keeps_def unlock_def consumes_def sq_def bnd_def puts_def upd_def ret_def)

lemma bank_done_consumes: "keeps consumes (bank_done e c)"
  unfolding bank_done_def by (intro eats.keeps_rules unlock_consumes)

lemma give_up_consumes: "keeps consumes (sq (puts x) (bank_done e c))"
  by (intro eats.keeps_rules bank_done_consumes puts_consumes)

lemma setlock_loop_consumes:
  "setlock_loop e w n s = (r, t) \<Longrightarrow> length (tin t) \<le> length (tin s)"
proof (induction e w n s rule: setlock_loop.induct)
  case (1 e w n s)
  note stop = keepsD [OF give_up_consumes, unfolded consumes_def]
  show ?case
  proof (cases "lockfile (dsk s) w")
    case None
    with 1(3) stop show ?thesis
      by (subst (asm) setlock_loop.simps) (auto simp: make_lock_def split: if_splits)
  next
    case (Some ct)
    let ?t = "s\<lparr>tout := tout s @ ''Blasting old '' @ lock_word w @ '' lockfile\<newline>''\<rparr>"
    show ?thesis
    proof (cases "ct + 300 < clock s")
      case True
      with 1(3) Some have "(if \<not> dir_writable e then sq (puts ''blast failed\<newline>'') (bank_done e 1) ?t
          else setlock_loop e w n (drop_lock w ?t)) = (r, t)"
        by (subst (asm) setlock_loop.simps) (simp add: Let_def split: if_splits)
      then show ?thesis
        using 1(1) [OF Some True refl] stop
        by (fastforce simp: drop_lock_def split: if_splits)
    next
      case False
      with 1(3) Some show ?thesis
        using 1(2) [OF Some False] stop
        by (subst (asm) setlock_loop.simps) (fastforce simp: sleep3_def split: if_splits)
    qed
  qed
qed

lemma setlock_consumes: "keeps consumes (setlock e w)"
  by (auto simp: keeps_def setlock_def consumes_def ret_def dest: setlock_loop_consumes split: if_splits)

lemma plain_upd_consumes: "(\<And>s. tin (f s) = tin s) \<Longrightarrow> keeps consumes (upd f)"
  by (auto simp: consumes_def intro!: eats.keeps_upd)

lemma addbalance_consumes: "keeps consumes (addbalance e uid v)"
proof -
  have "keeps consumes (bf_lseek u)" "keeps consumes bf_read" "keeps consumes (bf_write x)" for u x
    by (auto simp: keeps_def bf_lseek_def bf_read_def bf_write_def upd_def consumes_def split: if_splits)
  then show ?thesis
    unfolding addbalance_def writebalance_def Let_def
    by (intro eats.keeps_rules setlock_consumes unlock_consumes)
qed

lemma transaction_consumes: "keeps consumes (transaction e tr)"
  unfolding transaction_def
  by (intro eats.keeps_rules setlock_consumes unlock_consumes plain_upd_consumes) simp

interpretation input: bank_frame consumes
  by unfold_locales
     (auto simp: consumes_def addbalance_consumes transaction_consumes bank_done_consumes)

section \<open>Locks\<close>

text \<open>Nobody holds a lock: neither this process nor a file in the directory.\<close>

definition quiet :: "bank \<Rightarrow> bool" where
  "quiet s \<longleftrightarrow> fclock s = (\<lambda>_. 0) \<and> lockfile (dsk s) = (\<lambda>_. None) \<and> 0 < clock s"

definition stays_quiet :: "bank \<Rightarrow> bank \<Rightarrow> bool" where
  "stays_quiet s t \<longleftrightarrow> (quiet s \<longrightarrow> quiet t)"

lemma quiet_lock_free: "quiet s \<Longrightarrow> dir_writable e \<Longrightarrow> lock_free e w s"
  by (simp add: quiet_def lock_free_def)

lemma quiet_puts [simp]: "quiet (s\<lparr>tout := x\<rparr>) = quiet s"
  by (simp add: quiet_def)

lemma bank_done_quiet: "quiet s \<Longrightarrow> bank_done e c s = (Exit c, s)"
  by (simp add: quiet_def bank_done_def bnd_def sq_def gets_def whenP_def ret_def exit_prog_def)

lemma setlock_unwritable:
  assumes "quiet s" "\<not> dir_writable e"
  shows "setlock e w s = (Exit 1, s\<lparr>tout := tout s @ ''Can't create lockfile '' @ lock_name w @ ''\<newline>''\<rparr>)"
proof -
  have "setlock e w s = setlock_loop e w 0 s" using assms(1) by (simp add: setlock_def quiet_def)
  also have "\<dots> = sq (puts (''Can't create lockfile '' @ lock_name w @ ''\<newline>'')) (bank_done e 1) s"
    using assms by (subst setlock_loop.simps) (simp add: quiet_def)
  also have "\<dots> = (Exit 1, s\<lparr>tout := tout s @ ''Can't create lockfile '' @ lock_name w @ ''\<newline>''\<rparr>)"
    by (rule sq_then, rule puts_run, rule bank_done_quiet) (simp add: assms)
  finally show ?thesis .
qed

lemma addbalance_quiet: "keeps stays_quiet (addbalance e uid v)"
proof (rule keepsI, unfold stays_quiet_def, rule impI)
  fix s r t
  assume run: "addbalance e uid v s = (r, t)" and q: "quiet s"
  show "quiet t"
  proof (cases "0 \<le> uid")
    case False
    with run q show ?thesis by (simp add: addbalance_def bf_lseek_def bnd_def ret_def)
  next
    case uid: True
    show ?thesis
    proof (cases "dir_writable e")
      case True
      with run addbalance_run [OF quiet_lock_free [OF q True] uid, of v] q show ?thesis
        by (auto simp: quiet_def put_record_def)
    next
      case False
      let ?s = "s\<lparr>bpos := nat uid\<rparr>"
      have q': "quiet ?s" using q by (simp add: quiet_def)
      let ?t = "?s\<lparr>tout := tout s @ ''Can't create lockfile '' @ lock_name False @ ''\<newline>''\<rparr>"
      have e1: "bf_lseek uid s = (Ret True, ?s)" using uid by (simp add: bf_lseek_def)
      have e2: "setlock e False ?s = (Exit 1, ?t)"
        using setlock_unwritable [OF q' False, of False] by simp
      have "addbalance e uid v s = (Exit 1, ?t)"
        unfolding addbalance_def
        by (rule bnd_then, rule e1, simp only: not_True_eq_False if_False, rule sq_run(2), rule e2)
      with run q' show ?thesis by auto
    qed
  qed
qed

lemma transaction_quiet: "keeps stays_quiet (transaction e tr)"
proof (rule keepsI, unfold stays_quiet_def, rule impI)
  fix s r t
  assume run: "transaction e tr s = (r, t)" and q: "quiet s"
  show "quiet t"
  proof (cases "dir_writable e")
    case True
    with run transaction_run [OF quiet_lock_free [OF q True], of tr] q show ?thesis
      by (auto simp: quiet_def)
  next
    case False
    have "transaction e tr s =
        (Exit 1, s\<lparr>tout := tout s @ ''Can't create lockfile '' @ lock_name True @ ''\<newline>''\<rparr>)"
      unfolding transaction_def by (rule sq_run(2), rule setlock_unwritable [OF q False])
    with run q show ?thesis by auto
  qed
qed

interpretation locks: bank_frame stays_quiet
proof
  show "keeps stays_quiet (fgets n)" for n
    by (auto simp: keeps_def stays_quiet_def quiet_def fgets_def split: if_splits prod.splits)
  show "keeps stays_quiet getchar"
    by (auto simp: keeps_def stays_quiet_def quiet_def getchar_def split: list.splits)
  show "keeps stays_quiet skip_line"
    by (auto simp: keeps_def stays_quiet_def quiet_def skip_line_def split: option.splits)
  show "keeps stays_quiet (bank_done e c :: unit bankp)" for e c
    by (auto simp: keeps_def stays_quiet_def bank_done_quiet)
qed (auto simp: stays_quiet_def quiet_def puts_def upd_def keeps_def
        addbalance_quiet [unfolded keeps_def stays_quiet_def quiet_def]
        transaction_quiet [unfolded keeps_def stays_quiet_def quiet_def])

text \<open>
  C10: a run of the bank that starts with no lock held and no lock file, whatever its arguments, its
  input and how it ends, leaves none held and no lock file behind.
\<close>

theorem bank_leaves_no_lock:
  assumes "bank_main e argv s = (r, t)" and "fclock s = (\<lambda>_. 0)"
    and "lockfile (dsk s) = (\<lambda>_. None)" and "0 < clock s"
  shows "fclock t = (\<lambda>_. 0) \<and> lockfile (dsk t) = (\<lambda>_. None)"
  using keepsD [OF locks.keeps_bank_main assms(1)] assms(2-)
  by (simp add: stays_quiet_def quiet_def)

theorem bank_leaves_no_lock_witness:
  "lockfile (dsk (snd (bank_main sample_env [''bank'', ''-t'', ''bob'', ''3''] sample_bank))) = (\<lambda>_. None)"
  using bank_leaves_no_lock [of sample_env "[''bank'', ''-t'', ''bob'', ''3'']" sample_bank
      "fst (bank_main sample_env [''bank'', ''-t'', ''bob'', ''3''] sample_bank)"
      "snd (bank_main sample_env [''bank'', ''-t'', ''bob'', ''3''] sample_bank)"]
  by (simp add: sample_bank_def)

end
