(* ===== verification/BankRuns.thy ===== *)
theory BankRuns
  imports BankSafety
begin

text \<open>
  How runs of the bank end, and who may do what: every run ends by itself as long as its input is
  there, waiting for a lock is bounded, gifts and fines are for bankers, and the bankers' file
  decides exactly who is one as long as its names are short.
\<close>

section \<open>Every loop ends\<close>

lemma fuelled_no_loop:
  "fuelled (puts x)" "fuelled (fgets n)" "fuelled getchar" "fuelled skip_line"
  "fuelled (bf_lseek u)" "fuelled bf_read" "fuelled (bf_write v)" "fuelled (unlock e w)"
  "fuelled (bank_done e c)"
proof -
  show io: "fuelled (puts x)" "fuelled (fgets n)" "fuelled getchar" "fuelled skip_line"
    by (auto simp: fuelled_def puts_def upd_def fgets_def getchar_def skip_line_def
        split: prod.split list.split option.split)
  show "fuelled (bf_lseek u)" "fuelled bf_read" "fuelled (bf_write v)"
    by (simp_all add: fuelled_def bf_lseek_def bf_read_def bf_write_def upd_def)
  show u: "fuelled (unlock e w)" for w
    by (simp add: fuelled_def unlock_def sq_def bnd_def puts_def upd_def ret_def)
  show "fuelled (bank_done e c)"
    unfolding bank_done_def by (intro fuelled_rules u)
qed

lemma fuelled_give_up: "fuelled (sq (puts x) (bank_done e c) :: unit bankp)"
  by (intro fuelled_rules fuelled_no_loop)

lemma setlock_loop_fuelled: "fst (setlock_loop e w n s) \<noteq> NoFuel"
proof (induction e w n s rule: setlock_loop.induct)
  case (1 e w n s)
  note stop = fuelled_give_up [unfolded fuelled_def, rule_format]
  show ?case
  proof (cases "lockfile (dsk s) w")
    case None
    then show ?thesis using stop by (subst setlock_loop.simps) simp
  next
    case (Some ct)
    then show ?thesis
      using 1(1) [OF Some _ refl] 1(2) [OF Some] stop
      by (subst setlock_loop.simps) (simp add: Let_def)
  qed
qed

lemma fuelled_setlock: "fuelled (setlock e w)"
  by (simp add: fuelled_def setlock_def setlock_loop_fuelled ret_def)

lemmas fuelled_prims = fuelled_no_loop fuelled_setlock

lemma fuelled_files:
  "fuelled (balance uid)" "fuelled (writebalance uid v)" "fuelled (addbalance e uid amt)"
  "fuelled (openaccount uid)" "fuelled (transaction e tr)" "fuelled (scantrans uid silent)"
proof -
  show w: "fuelled (writebalance uid v)" for uid v
    unfolding writebalance_def by (intro fuelled_rules fuelled_prims)
  show "fuelled (balance uid)"
    unfolding balance_def by (intro fuelled_rules fuelled_prims)
  show "fuelled (addbalance e uid amt)"
    unfolding addbalance_def Let_def by (intro fuelled_rules fuelled_prims w)
  show "fuelled (openaccount uid)"
    unfolding openaccount_def Let_def by (intro fuelled_rules w)
  show "fuelled (transaction e tr)"
    unfolding transaction_def by (intro fuelled_rules fuelled_prims)
  show "fuelled (scantrans uid silent)"
    unfolding scantrans_def by (intro fuelled_rules fuelled_prims)
qed

lemma fuelled_closeaccount: "fuelled (closeaccount uid)"
  unfolding closeaccount_def by (intro fuelled_rules fuelled_files)

lemma fuelled_dotrans: "fuelled (dotrans e type uid amt reason)"
  unfolding dotrans_def Let_def by (intro fuelled_rules fuelled_files)

lemma fuelled_print_rich: "fuelled (print_rich e i rs)"
proof (induction rs arbitrary: i)
  case (Cons r rs)
  then show ?case
    by (cases r) (simp, intro fuelled_rules fuelled_closeaccount fuelled_prims)
qed (simp add: fuelled_basic)

lemma fuelled_wealthy: "fuelled (wealthy e)"
  using fuelled_print_rich [of e] by (simp add: fuelled_def wealthy_prints_top_ten)

lemma fuelled_listall: "fuelled (listall e)"
  unfolding fuelled_def
proof
  fix s
  obtain t where "listall e s = (Ret (), t)" using listall_closes_vanished [of e s] by blast
  then show "fst (listall e s) \<noteq> NoFuel" by simp
qed

lemma fuelled_dialogue:
  "fuelled fgets_buf" "fuelled reason_round" "fuelled (getwho e did)" "fuelled (prompt_if did x)"
  "fuelled (checkme e)"
proof -
  show b: "fuelled fgets_buf"
    unfolding fgets_buf_def by (intro fuelled_rules fuelled_prims)
  show "fuelled reason_round"
    unfolding reason_round_def by (intro fuelled_rules fuelled_prims b)
  show "fuelled (getwho e did)"
    unfolding getwho_def by (intro fuelled_rules fuelled_prims)
  show "fuelled (prompt_if did x)"
    unfolding prompt_if_def by (intro fuelled_rules fuelled_prims)
  show "fuelled (checkme e)"
    unfolding checkme_def by (intro fuelled_rules fuelled_prims fuelled_files)
qed

text \<open>Asking again costs input: the rest of the rejected line has at least its newline.\<close>

lemma skip_line_shrinks: "skip_line s = (Ret (), t) \<Longrightarrow> length (tin t) < length (tin s)"
  by (auto simp: skip_line_def dest!: split_at_SomeD split: option.splits)

lemma reason_round_shrinks:
  assumes "reason_round s = (Ret True, t)"
  shows "length (tin t) < length (tin s)"
proof -
  let ?m = "sq (puts ''What for? '') fgets_buf"
  let ?rest = "bnd (gets buf) (\<lambda>b. if b = [] then undef else if last b = NL then ret False
        else sq (puts ''Only 40 characters, please.\<newline>'') (sq skip_line (ret True)))"
  have "reason_round = sq ?m ?rest"
    by (rule ext) (simp add: reason_round_def sq_def bnd_def split: prod.split outcome.split)
  with assms have "bnd ?m (\<lambda>_. ?rest) s = (Ret True, t)" by (simp add: sq_def)
  then obtain u where m: "?m s = (Ret (), u)" and rest: "?rest u = (Ret True, t)"
    by (cases rule: bnd_cases) auto
  have "keeps consumes ?m" by (intro eats.keeps_rules input.keeps_fgets_buf puts_consumes)
  from keepsD [OF this m] have 1: "length (tin u) \<le> length (tin s)" by (simp add: consumes_def)
  from rest obtain v where "skip_line v = (Ret (), t)" "tin v = tin u"
    by (auto simp: bnd_def sq_def gets_def undef_def ret_def puts_def upd_def
        split: if_splits prod.splits outcome.splits)
  with 1 skip_line_shrinks [of v t] show ?thesis by simp
qed

interpretation reason_loop: shrinking_body reason_round "\<lambda>s. length (tin s)"
  using fuelled_dialogue(2) by unfold_locales (auto simp: fuelled_def reason_round_shrinks)

lemma fuelled_ask_reason: "fuelled ask_reason"
  unfolding ask_reason_def by (intro fuelled_rules reason_loop.fuelled_iter) simp

lemmas fuelled_talk = fuelled_prims fuelled_files fuelled_closeaccount fuelled_dotrans
  fuelled_dialogue fuelled_ask_reason

lemma fuelled_ask:
  "fuelled (askopen e did)" "fuelled (askclose e did)" "fuelled (askreport e did)"
  "fuelled (ask_amount e type uid)"
  unfolding askopen_def askclose_def askreport_def ask_amount_def Let_def
  by (intro fuelled_rules fuelled_talk)+

lemma fuelled_asktrans: "fuelled (asktrans e type did)"
  unfolding asktrans_def by (intro fuelled_rules fuelled_talk fuelled_ask)

lemma fuelled_dobank_round: "fuelled (dobank_round e)"
  unfolding dobank_round_def Let_def
  by (intro fuelled_rules fuelled_talk fuelled_ask fuelled_asktrans)

text \<open>A round of the command loop that goes on has read at least one byte.\<close>

lemma dobank_round_shrinks:
  assumes "dobank_round e s = (Ret True, t)"
  shows "length (tin t) < length (tin s)"
proof -
  let ?u = "s\<lparr>tout := tout s @ '': '', buf := []\<rparr>"
  let ?rest = "bnd (gets (\<lambda>s. split_command (buf s))) (\<lambda>(b, w).
      sq (upd (\<lambda>s. s\<lparr>buf := b\<rparr>))
      (let c = (if b = [] then NUL else hd b) in
       if c = CHR ''T'' \<or> c = CHR ''t'' then sq (asktrans e TR_XFER (Some w)) (ret True)
       else if c = CHR ''F'' \<or> c = CHR ''f'' then sq (asktrans e TR_FINE (Some w)) (ret True)
       else if c = CHR ''B'' \<or> c = CHR ''b'' then sq (asktrans e TR_GIFT (Some w)) (ret True)
       else if c = CHR ''O'' \<or> c = CHR ''o'' then sq (askopen e (Some w)) (ret True)
       else if c = CHR ''C'' \<or> c = CHR ''c'' then sq (askclose e (Some w)) (ret True)
       else if c = CHR ''R'' \<or> c = CHR ''r'' then sq (askreport e (Some w)) (ret True)
       else if c = NL then ret True
       else if c = NUL then sq (puts ''\<newline>'') (ret False)
       else if c = CHR ''Q'' \<or> c = CHR ''q'' then ret False
       else sq (puts ''Pardon me?\<newline>'') (ret True)))"
  have step: "dobank_round e s = sq fgets_buf ?rest ?u"
    unfolding dobank_round_def
    by (rule sq_then, rule puts_run, rule sq_then, rule upd_run, simp)
  have rest: "keeps consumes ?rest"
    unfolding Let_def
    by (intro eats.keeps_rules input.prim_rules input.ask_rules input.keeps_ask input.keeps_asktrans)
  show ?thesis
  proof (cases "tin s = []")
    case True
    then have "fgets_buf ?u = (Ret (), ?u)"
      by (simp add: fgets_buf_def fgets_def bnd_def upd_def)
    then have "sq fgets_buf ?rest ?u = ?rest ?u" by (rule sq_then) simp
    with assms step have "?rest ?u = (Ret True, t)" by simp
    then have False
      by (simp add: bnd_def sq_def gets_def upd_def puts_def ret_def split_command_def)
    then show ?thesis ..
  next
    case False
    obtain b v where f: "fgets 40 ?u = (Ret (Some b), v)"
      using False by (cases "take_line 39 (tin s)") (auto simp: fgets_def)
    then have v: "length (tin v) < length (tin s)" using fgets_shrinks [OF f] by simp
    let ?v = "v\<lparr>buf := b\<rparr>"
    have "fgets_buf ?u = (Ret (), ?v)"
      unfolding fgets_buf_def by (rule bnd_then, rule f) (simp add: upd_def)
    then have "sq fgets_buf ?rest ?u = ?rest ?v" by (rule sq_then) simp
    with assms step have "?rest ?v = (Ret True, t)" by simp
    then have "consumes ?v t" using rest by (simp only: keeps_def)
    with v show ?thesis by (simp add: consumes_def)
  qed
qed

interpretation command_loop: shrinking_body "dobank_round e" "\<lambda>s. length (tin s)" for e
  using fuelled_dobank_round by unfold_locales (auto simp: fuelled_def dobank_round_shrinks)

lemma fuelled_dobank: "fuelled (dobank e)"
  unfolding dobank_def by (intro fuelled_rules fuelled_prims command_loop.fuelled_iter) simp

lemma fuelled_session: "fuelled (session e)"
  unfolding session_def
  by (intro fuelled_rules fuelled_talk fuelled_asktrans fuelled_dobank)

lemma fuelled_report_users: "fuelled (report_users e us)"
proof (induction us)
  case (Cons u us)
  then show ?case unfolding report_users.simps by (intro fuelled_rules fuelled_talk)
qed (simp add: fuelled_basic)

lemma fuelled_commands:
  "fuelled (parsetrans e type argv)" "fuelled (open_or_close e c argv)" "fuelled (am_banker e l)"
  unfolding parsetrans_def open_or_close_def am_banker_def Let_def
  by (intro fuelled_rules fuelled_talk)+

lemma fuelled_bank_main: "fuelled (bank_main e argv)"
  unfolding bank_main_def Let_def
  by (intro fuelled_rules fuelled_talk fuelled_commands fuelled_session fuelled_report_users
      fuelled_wealthy fuelled_listall)

lemma no_return_bank_done: "no_return (bank_done e c)"
  unfolding bank_done_def by (intro no_return_rules)

lemma no_return_bank_main: "no_return (bank_main e argv)"
proof -
  have "no_return (session e)"
    unfolding session_def by (intro no_return_rules no_return_bank_done)
  moreover have "no_return (open_or_close e c argv)" for c
    unfolding open_or_close_def by (intro no_return_rules no_return_bank_done)
  ultimately show ?thesis
    unfolding bank_main_def Let_def by (intro no_return_rules no_return_bank_done)
qed

text \<open>
  C30: every run of the bank ends by calling exit, unless it waits for the end of a line that the
  input does not have or meets behaviour the C standard leaves undefined: no loop of the program
  runs out of the fuel of its model, and the main function never falls off its end.
\<close>

theorem bank_main_exits:
  "(\<exists>c t. bank_main e argv s = (Exit c, t)) \<or> (\<exists>t. bank_main e argv s = (Hang, t)) \<or>
   (\<exists>t. bank_main e argv s = (Undef, t))"
proof -
  obtain r t where "bank_main e argv s = (r, t)" by fastforce
  then show ?thesis
    using fuelled_bank_main [of e argv] no_return_bank_main [of e argv]
    by (cases r) (auto simp: fuelled_def no_return_def dest!: spec [of _ s])
qed

section \<open>Waiting for a lock is bounded\<close>

lemma bank_done_clock: "bank_done e c s = (r, t) \<Longrightarrow> clock t = clock s"
  by (auto simp: bank_done_def bnd_def sq_def gets_def whenP_def unlock_def ret_def exit_prog_def
      puts_def upd_def split: if_splits)

lemma give_up_clock: "sq (puts x) (bank_done e c) s = (r, t) \<Longrightarrow> clock t = clock s"
  by (auto simp: sq_run(1) [OF puts_run] dest: bank_done_clock)

lemma setlock_loop_clock:
  "setlock_loop e w n s = (r, t) \<Longrightarrow> n \<le> 5 \<Longrightarrow>
   clock s \<le> clock t \<and> clock t \<le> clock s + 3 * int (5 - n)"
proof (induction e w n s rule: setlock_loop.induct)
  case (1 e w n s)
  show ?case
  proof (cases "lockfile (dsk s) w")
    case None
    have "clock t = clock s"
    proof (cases "dir_writable e")
      case True
      with None 1(3) show ?thesis by (subst (asm) setlock_loop.simps) (auto simp: make_lock_def)
    next
      case False
      with None 1(3) show ?thesis
        by (subst (asm) setlock_loop.simps) (simp add: give_up_clock)
    qed
    then show ?thesis by simp
  next
    case (Some ct)
    let ?t = "s\<lparr>tout := tout s @ ''Blasting old '' @ lock_word w @ '' lockfile\<newline>''\<rparr>"
    consider (old) "ct + 300 < clock s" "dir_writable e" | (stuck) "ct + 300 < clock s" "\<not> dir_writable e"
      | (wait) "\<not> ct + 300 < clock s" "n < 5" | (busy) "\<not> ct + 300 < clock s" "\<not> n < 5" by blast
    then show ?thesis
    proof cases
      case old
      have "setlock_loop e w n (drop_lock w ?t) = (r, t)"
        using old Some 1(3) by (subst (asm) setlock_loop.simps) (simp add: Let_def)
      from 1(1) [OF Some old(1) refl _ this] old 1(4) show ?thesis by (simp add: drop_lock_def)
    next
      case stuck
      with Some 1(3) have "clock t = clock s"
        by (subst (asm) setlock_loop.simps) (auto simp: Let_def dest: give_up_clock)
      then show ?thesis by simp
    next
      case wait
      then have "setlock_loop e w (n + 1) (sleep3 e s) = (r, t)"
        using Some 1(3) by (subst (asm) setlock_loop.simps) simp
      from 1(2) [OF Some wait this] wait show ?thesis by (simp add: sleep3_def)
    next
      case busy
      with Some 1(3) have "clock t = clock s"
        by (subst (asm) setlock_loop.simps) (auto dest: give_up_clock)
      then show ?thesis by simp
    qed
  qed
qed

text \<open>
  Acquiring a lock takes at most fifteen seconds of sleeping, whatever the lock file's age and
  whatever other processes do meanwhile; it ends with the lock held or with an exit.
\<close>

theorem setlock_wait_bounded:
  assumes "setlock e w s = (r, t)"
  shows "clock t \<le> clock s + 15"
proof (cases "fclock s w = 0")
  case True
  with assms have "setlock_loop e w 0 s = (r, t)" by (simp add: setlock_def)
  from setlock_loop_clock [OF this] show ?thesis by simp
next
  case False
  with assms show ?thesis by (simp add: setlock_def ret_def)
qed

theorem setlock_wait_bounded_witness:
  "clock (snd (setlock sample_env True (sample_bank\<lparr>dsk := (dsk sample_bank)\<lparr>lockfile := (\<lambda>_. Some 900)\<rparr>\<rparr>)))
     \<le> 1015"
  using setlock_wait_bounded [of sample_env True
      "sample_bank\<lparr>dsk := (dsk sample_bank)\<lparr>lockfile := (\<lambda>_. Some 900)\<rparr>\<rparr>"
      "fst (setlock sample_env True (sample_bank\<lparr>dsk := (dsk sample_bank)\<lparr>lockfile := (\<lambda>_. Some 900)\<rparr>\<rparr>))"
      "snd (setlock sample_env True (sample_bank\<lparr>dsk := (dsk sample_bank)\<lparr>lockfile := (\<lambda>_. Some 900)\<rparr>\<rparr>))"]
  by (simp add: sample_bank_def)

section \<open>Who is a banker\<close>

text \<open>A name short enough for one read of the file, and with no byte that ends it early.\<close>

definition plain_name :: "string \<Rightarrow> bool" where
  "plain_name n \<longleftrightarrow> length n \<le> 18 \<and> NL \<notin> set n \<and> NUL \<notin> set n"

definition bankers_text :: "string list \<Rightarrow> string" where
  "bankers_text ns = concat (map (\<lambda>n. n @ [NL]) ns)"

lemma piece_matches_line:
  assumes "NL \<notin> set login"
  shows "piece_matches login (n @ [NL]) \<longleftrightarrow> login = n"
proof (cases "length login \<le> length n")
  case True
  then have "piece_matches login (n @ [NL]) \<longleftrightarrow> take (length n) login = n"
    by (simp add: piece_matches_def Let_def strncmp_eq_0_iff)
  with True show ?thesis by simp
next
  case False
  then have "piece_matches login (n @ [NL]) \<longleftrightarrow> login = n @ [NL]"
    by (simp add: piece_matches_def Let_def strncmp_eq_0_iff)
  with assms False show ?thesis by auto
qed

lemma banker_lines_text:
  assumes "NL \<notin> set login" "\<forall>n \<in> set ns. plain_name n"
  shows "banker_lines login (bankers_text ns) \<longleftrightarrow> login \<in> set ns"
  using assms
proof (induction ns)
  case Nil
  then show ?case by (simp add: bankers_text_def banker_lines.simps)
next
  case (Cons n ns)
  have "take_line 19 (n @ NL # bankers_text ns) = (n @ [NL], bankers_text ns)"
    using Cons.prems by (intro take_line_whole) (simp_all add: plain_name_def)
  moreover have "cstr (n @ [NL]) = n @ [NL]"
    using Cons.prems by (intro cstr_id) (simp add: plain_name_def)
  moreover have "bankers_text (n # ns) = n @ NL # bankers_text ns"
    by (simp add: bankers_text_def)
  ultimately show ?case
    using Cons piece_matches_line [OF Cons.prems(1), of n]
    by (subst banker_lines.simps) simp
qed

text \<open>
  With a bankers' file of newline-terminated names of at most 18 bytes, the program treats
  exactly the logins listed there as bankers: a prefix or an extension of a listed name is not one.
\<close>

theorem am_banker_exact:
  assumes "bankers_file e = Some (bankers_text ns)" "\<forall>n \<in> set ns. plain_name n" "NL \<notin> set login"
  shows "am_banker e login s = (Ret (login \<in> set ns), s)"
  using assms by (simp add: am_banker_def banker_lines_text ret_def)

theorem am_banker_exact_witness:
  "am_banker sample_env ''bo'' sample_bank = (Ret False, sample_bank) \<and> plain_name ''bob''"
  using am_banker_exact [of sample_env "[''bob'']" "''bo''" sample_bank]
  by (simp add: sample_env_def bankers_text_def plain_name_def)

text \<open>
  A longer line is read in pieces and each piece counts as a name, so listing the 22 byte name
  made of nineteen times the letter a and bob makes bob a banker.
\<close>

theorem long_line_makes_banker:
  "banker_lines ''bob'' (replicate 19 CHR ''a'' @ ''bob'' @ [NL])"
proof -
  have "take_line 19 (replicate 19 CHR ''a'' @ ''bob'' @ [NL]) = (replicate 19 CHR ''a'', ''bob'' @ [NL])"
    by (simp add: eval_nat_numeral)
  moreover have "take_line 19 (''bob'' @ [NL]) = (''bob'' @ [NL], [])"
    by (simp add: eval_nat_numeral)
  ultimately show ?thesis
    by (subst banker_lines.simps, simp, subst banker_lines.simps)
       (simp add: piece_matches_def strncmp_def cstr_def)
qed

section \<open>Gifts and fines are for bankers\<close>

text \<open>
  Somebody who is not a banker and asks on the command line to give or fine gets a message and
  nothing else happens: no file, no lock and no balance changes.
\<close>

theorem gift_needs_banker:
  assumes "\<not> banker s" "type \<noteq> TR_XFER"
  shows "parsetrans e type argv s = (Ret (), s\<lparr>tout := tout s @ ''You're not a banker!\<newline>''\<rparr>)"
  using assms by (simp add: parsetrans_def bnd_def gets_def puts_run)

theorem gift_needs_banker_witness:
  "parsetrans sample_env TR_GIFT [''bank'', ''-b'', ''bob'', ''9''] sample_bank =
     (Ret (), sample_bank\<lparr>tout := ''You're not a banker!\<newline>''\<rparr>)"
  using gift_needs_banker [of sample_bank TR_GIFT sample_env "[''bank'', ''-b'', ''bob'', ''9'']"]
  by (simp add: sample_bank_def TR_GIFT_def TR_XFER_def)

text \<open>
  A transfer on the command line by a customer with an open account never takes more than the
  balance read for it: asking for more leaves every file as it was.
\<close>

theorem transfer_within_balance:
  assumes "record_of (dsk s) (myuid s) = 2 * b + 1" "0 \<le> myuid s" "0 \<le> b" "b < atol amt" "0 < atol amt"
    and "getpwnam e who = Some uid"
  shows "\<exists>t. parsetrans e TR_XFER [prog, ''-t'', who, amt] s = (Ret (), t) \<and> dsk t = dsk s \<and>
     tout t = tout s @ ''You don't have that much money\<newline>''"
proof -
  let ?p = "nat (myuid s)"
  have "2 * b + 1 \<noteq> 0" by presburger
  then have len: "?p < length (bf (dsk s))" and rec: "bf (dsk s) ! ?p = 2 * b + 1"
    using assms(1,2) by (auto simp: record_of_def split: if_splits)
  have bal: "balance (myuid s) s = (Ret (0, Some b), s\<lparr>bpos := Suc ?p\<rparr>)"
    using len rec assms(2,3) sdiv2_nonneg [of "2 * b + 1"]
    by (simp add: balance_def bf_lseek_def bf_read_def bnd_def ret_def smod2_zero_iff)
  have me: "checkme e s = (Ret (), s\<lparr>bpos := Suc ?p, mybal := b\<rparr>)"
    unfolding checkme_def
    by (rule bnd_then, rule gets_run, rule bnd_then, rule bal)
       (simp add: sq_def bnd_def upd_def gets_def ret_def)
  show ?thesis
    using assms(4-) me
    by (simp add: parsetrans_def TR_XFER_def bnd_def sq_def gets_def puts_def upd_def Let_def)
qed

theorem transfer_within_balance_witness:
  "\<exists>t. parsetrans sample_env TR_XFER [''bank'', ''-t'', ''bob'', ''21''] sample_bank = (Ret (), t) \<and>
     dsk t = dsk sample_bank"
proof -
  have "atol ''21'' = 21" by code_simp
  then show ?thesis
    using transfer_within_balance [of sample_bank 20 "''21''" sample_env "''bob''" 2 "''bank''"]
    by (auto simp: sample_bank_def sample_env_def record_of_def)
qed

end
