(* ===== verification/BankLocks.thy ===== *)
theory BankLocks
  imports Prelude
begin

text \<open>
  The lock files of the bank between processes (\<open>setlock\<close> and \<open>unlock\<close> of \<open>soft/apps/bank/bank.c\<close>): one
  system call of one process at a time, the others in between. The theory of the files runs one process
  to its end; here the calls of any number of processes interleave.
\<close>

section \<open>The steps\<close>

text \<open>
  Where a process is: not in \<open>setlock\<close>; about to open the file exclusively; after a failed open, about
  to look at the file; having found it old, about to remove it; asleep; holding the lock with the change
  time it recorded; having found its own file in \<open>unlock\<close>, about to remove it; or ended by
  \<open>done(1)\<close>. The number is \<open>trys\<close>.
\<close>

datatype phase = Outside | Opening nat | Looking nat | Blasting nat | Asleep nat | Holding int | Removing int | Ended

text \<open>The change time of the lock file, if it is there, the clock, and the processes.\<close>

record lockworld =
  lockfile_ctime :: "int option"
  wall :: int
  proc :: "nat \<Rightarrow> phase"

definition goes :: "nat \<Rightarrow> phase \<Rightarrow> lockworld \<Rightarrow> lockworld" where
  "goes p ph w = w\<lparr>proc := (proc w)(p := ph)\<rparr>"

inductive lock_step :: "lockworld \<Rightarrow> lockworld \<Rightarrow> bool" where
  enter: "proc w p = Outside \<Longrightarrow> lock_step w (goes p (Opening 0) w)"
| created: "proc w p = Opening n \<Longrightarrow> lockfile_ctime w = None \<Longrightarrow>
    lock_step w (goes p (Holding (wall w)) (w\<lparr>lockfile_ctime := Some (wall w)\<rparr>))"
| exists: "proc w p = Opening n \<Longrightarrow> lockfile_ctime w = Some c \<Longrightarrow> lock_step w (goes p (Looking n) w)"
| vanished: "proc w p = Looking n \<Longrightarrow> lockfile_ctime w = None \<Longrightarrow> lock_step w (goes p Ended w)"
| old: "proc w p = Looking n \<Longrightarrow> lockfile_ctime w = Some c \<Longrightarrow> c + 300 < wall w \<Longrightarrow>
    lock_step w (goes p (Blasting n) w)"
| waits: "proc w p = Looking n \<Longrightarrow> lockfile_ctime w = Some c \<Longrightarrow> \<not> c + 300 < wall w \<Longrightarrow> n < 5 \<Longrightarrow>
    lock_step w (goes p (Asleep (n + 1)) w)"
| gives_up: "proc w p = Looking n \<Longrightarrow> lockfile_ctime w = Some c \<Longrightarrow> \<not> c + 300 < wall w \<Longrightarrow> \<not> n < 5 \<Longrightarrow>
    lock_step w (goes p Ended w)"
| blasts: "proc w p = Blasting n \<Longrightarrow> lockfile_ctime w = Some c \<Longrightarrow>
    lock_step w (goes p (Opening n) (w\<lparr>lockfile_ctime := None\<rparr>))"
| blast_fails: "proc w p = Blasting n \<Longrightarrow> lockfile_ctime w = None \<Longrightarrow> lock_step w (goes p Ended w)"
| wakes: "proc w p = Asleep n \<Longrightarrow> lock_step w (goes p (Opening n) w)"
| own: "proc w p = Holding c \<Longrightarrow> lockfile_ctime w = Some c \<Longrightarrow> lock_step w (goes p (Removing c) w)"
| blasted: "proc w p = Holding c \<Longrightarrow> lockfile_ctime w \<noteq> Some c \<Longrightarrow> lock_step w (goes p Outside w)"
| removes: "proc w p = Removing c \<Longrightarrow> lock_step w (goes p Outside (w\<lparr>lockfile_ctime := None\<rparr>))"
| ticks: "0 \<le> d \<Longrightarrow> lock_step w (w\<lparr>wall := wall w + d\<rparr>)"

inductive_cases lock_stepE: "lock_step w v"

text \<open>A run, and one in which no process ever finds an old lock file.\<close>

inductive lock_run :: "(lockworld \<Rightarrow> bool) \<Rightarrow> lockworld \<Rightarrow> lockworld \<Rightarrow> bool" for P w where
  here: "P w \<Longrightarrow> lock_run P w w"
| on: "lock_run P w v \<Longrightarrow> lock_step v u \<Longrightarrow> P u \<Longrightarrow> lock_run P w u"

definition lock_start :: lockworld where
  "lock_start = \<lparr>lockfile_ctime = None, wall = 1, proc = \<lambda>_. Outside\<rparr>"

definition none_blasting :: "lockworld \<Rightarrow> bool" where
  "none_blasting w \<longleftrightarrow> (\<forall>p n. proc w p \<noteq> Blasting n)"

definition inside :: "phase \<Rightarrow> bool" where
  "inside ph \<longleftrightarrow> (case ph of Holding c \<Rightarrow> True | Removing c \<Rightarrow> True | _ \<Rightarrow> False)"

lemma inside_simps [simp]:
  "inside (Holding c)" "inside (Removing c)" "\<not> inside Outside" "\<not> inside (Opening n)" "\<not> inside (Looking n)"
  "\<not> inside (Blasting n)" "\<not> inside (Asleep n)" "\<not> inside Ended"
  by (simp_all add: inside_def)

text \<open>A process that gave up does nothing more, and none waits more than five times.\<close>

lemma ended_stays: "lock_step w v \<Longrightarrow> proc w p = Ended \<Longrightarrow> proc v p = Ended"
  by (erule lock_stepE) (auto simp: goes_def)

definition trys_in :: "phase \<Rightarrow> nat" where
  "trys_in ph = (case ph of Opening n \<Rightarrow> n | Looking n \<Rightarrow> n | Blasting n \<Rightarrow> n | Asleep n \<Rightarrow> n | _ \<Rightarrow> 0)"

lemma trys_step: "lock_step w v \<Longrightarrow> trys_in (proc w p) \<le> 5 \<Longrightarrow> trys_in (proc v p) \<le> 5"
  by (erule lock_stepE) (auto simp: goes_def trys_in_def split: if_splits)

lemma trys_bounded: "lock_run P lock_start w \<Longrightarrow> trys_in (proc w p) \<le> 5"
proof (induction arbitrary: p rule: lock_run.induct)
  case here
  show ?case by (simp add: lock_start_def trys_in_def)
next
  case (on v u)
  then show ?case using trys_step by blast
qed

section \<open>At most one holder\<close>

text \<open>While nobody blasts, a process inside the lock owns the lock file, and there is only one.\<close>

definition one_owner :: "lockworld \<Rightarrow> bool" where
  "one_owner w \<longleftrightarrow>
     (\<forall>p c. proc w p = Holding c \<or> proc w p = Removing c \<longrightarrow> lockfile_ctime w = Some c) \<and>
     (\<forall>p q. inside (proc w p) \<longrightarrow> inside (proc w q) \<longrightarrow> p = q)"

lemma inside_owner: "one_owner w \<Longrightarrow> inside (proc w p) \<Longrightarrow> lockfile_ctime w \<noteq> None"
  by (cases "proc w p") (auto simp: one_owner_def)

lemma inside_cases: "inside ph \<longleftrightarrow> (\<exists>c. ph = Holding c \<or> ph = Removing c)"
  by (cases ph) simp_all

lemma outside_moves: "one_owner w \<Longrightarrow> \<not> inside ph \<Longrightarrow> one_owner (goes p ph w)"
  by (auto simp: one_owner_def goes_def inside_cases)

lemma holder_moves: "one_owner w \<Longrightarrow> proc w p = Holding c \<Longrightarrow> one_owner (goes p (Removing c) w)"
  unfolding one_owner_def goes_def inside_cases by (simp; metis)

lemma others_outside:
  assumes "\<forall>q. q \<noteq> p \<longrightarrow> \<not> inside (proc w q)"
  shows "\<not> inside ph \<Longrightarrow> one_owner (goes p ph (w\<lparr>lockfile_ctime := l\<rparr>))"
    and "one_owner (goes p (Holding c) (w\<lparr>lockfile_ctime := Some c\<rparr>))"
  using assms by (auto simp: one_owner_def goes_def inside_cases)

lemma one_owner_step:
  assumes "lock_step w v" "one_owner w" "none_blasting w"
  shows "one_owner v"
  using assms(1)
proof cases
  case (created p n)
  then have "\<forall>q. q \<noteq> p \<longrightarrow> \<not> inside (proc w q)" using inside_owner [OF assms(2)] by blast
  then show ?thesis unfolding created(1) by (rule others_outside(2))
next
  case (removes p c)
  then have "\<forall>q. q \<noteq> p \<longrightarrow> \<not> inside (proc w q)" using assms(2) by (auto simp: one_owner_def)
  then show ?thesis unfolding removes(1) by (rule others_outside(1)) simp
next
  case (blasts p n c)
  then show ?thesis using assms(3) by (simp add: none_blasting_def)
next
  case (own p c)
  then show ?thesis using holder_moves [OF assms(2)] by simp
next
  case (ticks d)
  then show ?thesis using assms(2) by (simp add: one_owner_def)
qed (simp_all add: outside_moves [OF assms(2)])

lemma lock_run_holds: "lock_run P w v \<Longrightarrow> P v"
  by (erule lock_run.cases) simp_all

text \<open>
  C2: as long as no process finds a lock file old enough to remove, whatever the processes and the clock
  do, at most one process at a time is inside the bank's lock.
\<close>

theorem lock_excludes:
  assumes "lock_run none_blasting lock_start w" "inside (proc w p)" "inside (proc w q)"
  shows "p = q"
proof -
  have "one_owner w"
    using assms(1)
  proof (induction rule: lock_run.induct)
    case here
    show ?case by (simp add: one_owner_def lock_start_def)
  next
    case (on v u)
    then show ?case using one_owner_step lock_run_holds by blast
  qed
  then show ?thesis using assms(2,3) by (auto simp: one_owner_def)
qed

text \<open>A world of three processes.\<close>

definition three :: "int option \<Rightarrow> int \<Rightarrow> phase \<Rightarrow> phase \<Rightarrow> phase \<Rightarrow> lockworld" where
  "three l t a b c = \<lparr>lockfile_ctime = l, wall = t, proc = (\<lambda>_. Outside)(0 := a, 1 := b, 2 := c)\<rparr>"

lemma three_simps:
  "lock_start = three None 1 Outside Outside Outside"
  "lockfile_ctime (three l t a b c) = l" "wall (three l t a b c) = t"
  "proc (three l t a b c) 0 = a" "proc (three l t a b c) (Suc 0) = b" "proc (three l t a b c) 2 = c"
  "(three l t a b c)\<lparr>lockfile_ctime := l'\<rparr> = three l' t a b c" "(three l t a b c)\<lparr>wall := t'\<rparr> = three l t' a b c"
  "goes 0 ph (three l t a b c) = three l t ph b c" "goes (Suc 0) ph (three l t a b c) = three l t a ph c"
  "goes 2 ph (three l t a b c) = three l t a b ph"
  by (simp_all add: three_def lock_start_def goes_def fun_eq_iff)

lemma by_step: "lock_run P w v \<Longrightarrow> lock_step v u1 \<Longrightarrow> u1 = u \<Longrightarrow> P u \<Longrightarrow> lock_run P w u"
  by (auto intro: lock_run.on)

theorem lock_excludes_witness:
  "\<exists>w. lock_run none_blasting lock_start w \<and> inside (proc w 0) \<and> (\<forall>q. inside (proc w q) \<longrightarrow> 0 = q)"
proof -
  have calm: "none_blasting (three l t a Outside Outside)" if "\<forall>n. a \<noteq> Blasting n" for l t a
    using that by (simp add: none_blasting_def three_def)
  have "lock_run none_blasting lock_start (three None 1 Outside Outside Outside)"
    unfolding three_simps(1) by (rule lock_run.here) (simp add: calm)
  then have "lock_run none_blasting lock_start (three None 1 (Opening 0) Outside Outside)"
    by (rule by_step [OF _ lock_step.enter [of _ 0]]) (simp_all add: three_simps calm)
  then have "lock_run none_blasting lock_start (three (Some 1) 1 (Holding 1) Outside Outside)"
    by (rule by_step [OF _ lock_step.created [of _ 0 0]]) (simp_all add: three_simps calm)
  moreover have "inside (proc (three (Some 1) 1 (Holding 1) Outside Outside) 0)" by (simp add: three_simps)
  ultimately show ?thesis using lock_excludes by blast
qed

section \<open>The race for an old lock file\<close>

text \<open>
  Two processes that both found the same lock file old can both come to hold the lock at the same
  moment: the second one removes the file the first one has just made, because between looking at a lock
  file and removing it nobody checks that it is still the same file.
\<close>

theorem old_lock_lets_two_in:
  "\<exists>w. lock_run (\<lambda>_. True) lock_start w \<and> proc w 1 = Holding (wall w) \<and> proc w 2 = Holding (wall w)"
proof -
  let ?run = "lock_run (\<lambda>_. True) lock_start"
  have "?run (three None 1 Outside Outside Outside)"
    unfolding three_simps(1) by (rule lock_run.here) simp
  then have "?run (three None 1 (Opening 0) Outside Outside)"
    by (rule by_step [OF _ lock_step.enter [of _ 0]]) (simp_all add: three_simps)
  then have "?run (three (Some 1) 1 (Holding 1) Outside Outside)"
    by (rule by_step [OF _ lock_step.created [of _ 0 0]]) (simp_all add: three_simps)
  then have "?run (three (Some 1) 401 (Holding 1) Outside Outside)"
    by (rule by_step [OF _ lock_step.ticks [of 400]]) (simp_all add: three_simps)
  then have "?run (three (Some 1) 401 (Holding 1) (Opening 0) Outside)"
    by (rule by_step [OF _ lock_step.enter [of _ 1]]) (simp_all add: three_simps)
  then have "?run (three (Some 1) 401 (Holding 1) (Looking 0) Outside)"
    by (rule by_step [OF _ lock_step.exists [of _ 1 0 1]]) (simp_all add: three_simps)
  then have "?run (three (Some 1) 401 (Holding 1) (Blasting 0) Outside)"
    by (rule by_step [OF _ lock_step.old [of _ 1 0 1]]) (simp_all add: three_simps)
  then have "?run (three (Some 1) 401 (Holding 1) (Blasting 0) (Opening 0))"
    by (rule by_step [OF _ lock_step.enter [of _ 2]]) (simp_all add: three_simps)
  then have "?run (three (Some 1) 401 (Holding 1) (Blasting 0) (Looking 0))"
    by (rule by_step [OF _ lock_step.exists [of _ 2 0 1]]) (simp_all add: three_simps)
  then have "?run (three (Some 1) 401 (Holding 1) (Blasting 0) (Blasting 0))"
    by (rule by_step [OF _ lock_step.old [of _ 2 0 1]]) (simp_all add: three_simps)
  then have "?run (three None 401 (Holding 1) (Opening 0) (Blasting 0))"
    by (rule by_step [OF _ lock_step.blasts [of _ 1 0 1]]) (simp_all add: three_simps)
  then have "?run (three (Some 401) 401 (Holding 1) (Holding 401) (Blasting 0))"
    by (rule by_step [OF _ lock_step.created [of _ 1 0]]) (simp_all add: three_simps)
  then have "?run (three None 401 (Holding 1) (Holding 401) (Opening 0))"
    by (rule by_step [OF _ lock_step.blasts [of _ 2 0 401]]) (simp_all add: three_simps)
  then have "?run (three (Some 401) 401 (Holding 1) (Holding 401) (Holding 401))"
    by (rule by_step [OF _ lock_step.created [of _ 2 0]]) (simp_all add: three_simps)
  then show ?thesis by (intro exI conjI) (auto simp: three_simps)
qed

end
