(* ===== verification/VoteFiles.thy ===== *)
theory VoteFiles
  imports CLib
begin

text \<open>
  What the voting programs under \<open>soft/apps/vote/src\<close> share: the election directory as a small file
  system with a current directory, the test whether the polls are open, and the random order of
  the candidates (the same code in \<open>board.c\<close> and \<open>vote.c\<close>). Which directories can be entered and
  which files can be written is the record \<open>site\<close>, a parameter, as is the clock.
\<close>

section \<open>Files\<close>

type_synonym path = "string list"

record site =
  enterable :: "path \<Rightarrow> bool"
  writable :: "path \<Rightarrow> bool"
  now :: int
  now_text :: string

record place = tty +
  cwd :: path
  fs :: "path \<Rightarrow> string option"

definition chdir :: "site \<Rightarrow> path \<Rightarrow> (bool, 'm place_scheme) prog" where
  "chdir e p s = (if enterable e p then (Ret True, s\<lparr>cwd := p\<rparr>) else (Ret False, s))"

definition chdir_into :: "site \<Rightarrow> string \<Rightarrow> (bool, 'm place_scheme) prog" where
  "chdir_into e d s = chdir e (cwd s @ [d]) s"

definition chdir_up :: "site \<Rightarrow> (bool, 'm place_scheme) prog" where
  "chdir_up e s = chdir e (butlast (cwd s)) s"

definition fopen_r :: "string \<Rightarrow> (string option, 'm place_scheme) prog" where
  "fopen_r name = gets (\<lambda>s. fs s (cwd s @ [name]))"

definition unlink :: "site \<Rightarrow> string \<Rightarrow> (unit, 'm place_scheme) prog" where
  "unlink e name = upd (\<lambda>s. if writable e (cwd s @ [name])
     then s\<lparr>fs := (fs s)(cwd s @ [name] := None)\<rparr> else s)"

text \<open>Write a whole file, and add to the end of one; \<open>False\<close> when it cannot be opened.\<close>

definition fwrite_file :: "site \<Rightarrow> string \<Rightarrow> string \<Rightarrow> (bool, 'm place_scheme) prog" where
  "fwrite_file e name x s =
     (if writable e (cwd s @ [name]) then (Ret True, s\<lparr>fs := (fs s)(cwd s @ [name] := Some x)\<rparr>)
      else (Ret False, s))"

definition fappend_file :: "site \<Rightarrow> string \<Rightarrow> string \<Rightarrow> (bool, 'm place_scheme) prog" where
  "fappend_file e name x s = (let p = cwd s @ [name] in
     if writable e p
     then (Ret True, s\<lparr>fs := (fs s)(p := Some ((case fs s p of None \<Rightarrow> [] | Some y \<Rightarrow> y) @ x))\<rparr>)
     else (Ret False, s))"

lemma fwrite_then_open:
  "fwrite_file e name x s = (Ret True, t) \<Longrightarrow> fopen_r name t = (Ret (Some x), t)"
  by (auto simp: fwrite_file_def fopen_r_def gets_def split: if_splits)

lemma file_ops_consume:
  "keeps consumes (chdir e p)" "keeps consumes (chdir_into e d)" "keeps consumes (chdir_up e)"
  "keeps consumes (fopen_r name)" "keeps consumes (unlink e name)"
  "keeps consumes (fwrite_file e name x)" "keeps consumes (fappend_file e name x)"
  by (auto simp: keeps_def chdir_def chdir_into_def chdir_up_def fopen_r_def gets_def unlink_def
      upd_def fwrite_file_def fappend_file_def consumes_def Let_def split: if_splits)

lemma file_ops_fuelled:
  "fuelled (chdir e p)" "fuelled (chdir_into e d)" "fuelled (chdir_up e)"
  "fuelled (fopen_r name)" "fuelled (unlink e name)"
  "fuelled (fwrite_file e name x)" "fuelled (fappend_file e name x)"
  by (auto simp: fuelled_def chdir_def chdir_into_def chdir_up_def fopen_r_def gets_def unlink_def
      upd_def fwrite_file_def fappend_file_def Let_def)

section \<open>Opening hours\<close>

text \<open>
  The files \<open>start\<close> and \<open>end\<close> hold a time each. \<open>fscanf\<close> gives 0 for a file that does not start
  with a number, and the polls count as closed; for an empty file it gives EOF, the test passes
  and an uninitialised variable is compared.
\<close>

definition polls_open :: "site \<Rightarrow> (bool, 'm place_scheme) prog" where
  "polls_open e = bnd (fopen_r ''start'') (\<lambda>f. case f of
     None \<Rightarrow> sq (puts ''start: No such file or directory\<newline>'') (ret False)
   | Some ftext \<Rightarrow> bnd (fopen_r ''end'') (\<lambda>g. case g of
     None \<Rightarrow> sq (puts ''end: No such file or directory\<newline>'') (ret False)
   | Some gtext \<Rightarrow>
     if scan_long ftext = ScanFail then sq (puts ''file start: bad format\<newline>'') (ret False)
     else if scan_long gtext = ScanFail then sq (puts ''file end: bad format\<newline>'') (ret False)
     else case (scan_long ftext, scan_long gtext) of
       (ScanOk b _, ScanOk c _) \<Rightarrow> ret (b \<le> now e \<and> now e \<le> c)
     | _ \<Rightarrow> undef))"

section \<open>Random order\<close>

text \<open>
  \<open>rndorder\<close> sorts an array of random numbers by bubble sort and moves the entries of the identity
  permutation along. The arrays are the pair \<open>(rnd, p)\<close>.
\<close>

definition bub_step :: "nat \<Rightarrow> int list \<times> nat list \<Rightarrow> int list \<times> nat list" where
  "bub_step j a = (case a of (rnd, p) \<Rightarrow>
     if rnd ! j < rnd ! (j - 1) then (swap_at (j - 1) j rnd, swap_at (j - 1) j p) else (rnd, p))"

fun bub_pass :: "nat list \<Rightarrow> int list \<times> nat list \<Rightarrow> int list \<times> nat list" where
  "bub_pass [] a = a"
| "bub_pass (j # js) a = bub_pass js (bub_step j a)"

fun bub_sort :: "nat \<Rightarrow> int list \<times> nat list \<Rightarrow> int list \<times> nat list" where
  "bub_sort 0 a = a"
| "bub_sort (Suc i) a = bub_sort i (bub_pass [1..<Suc (Suc i)] a)"

text \<open>\<open>draw\<close> is the sequence of numbers \<open>arc4random\<close> gives.\<close>

definition rndorder :: "(nat \<Rightarrow> int) \<Rightarrow> nat \<Rightarrow> nat list" where
  "rndorder draw n = snd (bub_sort (n - 1) (map draw [0..<n], [0..<n]))"

text \<open>The arrays stay in step: position \<open>k\<close> holds the number drawn for the entry there.\<close>

definition in_step :: "(nat \<Rightarrow> int) \<Rightarrow> nat \<Rightarrow> int list \<times> nat list \<Rightarrow> bool" where
  "in_step draw n a \<longleftrightarrow> length (fst a) = n \<and> fst a = map draw (snd a) \<and> mset (snd a) = mset [0..<n]"

lemma in_step_start: "in_step draw n (map draw [0..<n], [0..<n])"
  by (simp add: in_step_def)

lemma map_swap_at:
  "i < length xs \<Longrightarrow> j < length xs \<Longrightarrow> map f (swap_at i j xs) = swap_at i j (map f xs)"
  by (simp add: swap_at_def map_update)

lemma in_step_bub_step:
  assumes "in_step draw n a" "0 < j" "j < n"
  shows "in_step draw n (bub_step j a)"
proof (cases a)
  case (Pair rnd p)
  with assms(1) have "length p = n" by (auto simp: in_step_def dest: arg_cong [where f = length])
  with assms Pair show ?thesis
    by (auto simp: in_step_def bub_step_def map_swap_at)
qed

lemma in_step_bub_pass:
  "in_step draw n a \<Longrightarrow> \<forall>j \<in> set js. 0 < j \<and> j < n \<Longrightarrow> in_step draw n (bub_pass js a)"
  by (induction js a rule: bub_pass.induct) (simp_all add: in_step_bub_step)

lemma in_step_bub_sort: "in_step draw n a \<Longrightarrow> i < n \<Longrightarrow> in_step draw n (bub_sort i a)"
proof (induction i a rule: bub_sort.induct)
  case (2 i a)
  then show ?case by (simp add: in_step_bub_pass del: upt_Suc)
qed simp

text \<open>
  One pass up to \<open>i\<close> carries the largest of the first \<open>i + 1\<close> numbers to place \<open>i\<close> and leaves the
  places above alone; the passes sort from the top down.
\<close>

definition max_at :: "int list \<Rightarrow> nat \<Rightarrow> bool" where
  "max_at xs i \<longleftrightarrow> (\<forall>k \<le> i. xs ! k \<le> xs ! i)"

lemma bub_step_fst:
  "fst (bub_step j a) = (if fst a ! j < fst a ! (j - 1) then swap_at (j - 1) j (fst a) else fst a)"
  by (cases a) (simp add: bub_step_def)

lemma max_at_bub_step:
  assumes "max_at (fst a) (j - 1)" "0 < j" "j < length (fst a)"
  shows "max_at (fst (bub_step j a)) j"
  unfolding max_at_def
proof (intro allI impI)
  fix k assume k: "k \<le> j"
  show "fst (bub_step j a) ! k \<le> fst (bub_step j a) ! j"
  proof (cases "k < j")
    case True
    then have "fst a ! k \<le> fst a ! (j - 1)" using assms(1) by (simp add: max_at_def)
    then show ?thesis using assms(2,3) True by (auto simp: bub_step_fst nth_swap_at)
  next
    case False
    with k show ?thesis by simp
  qed
qed

lemma bub_step_above:
  assumes "0 < j" "j < k" "k < length (fst a)"
  shows "fst (bub_step j a) ! k = fst a ! k"
proof -
  have "k \<noteq> j - 1" using assms by simp
  then show ?thesis using assms by (auto simp: bub_step_fst nth_swap_at)
qed

lemma length_bub_step [simp]: "length (fst (bub_step j a)) = length (fst a)"
  by (simp add: bub_step_fst)

lemma mset_take_bub_step:
  assumes "0 < j" "j < m" "m \<le> length (fst a)"
  shows "mset (take m (fst (bub_step j a))) = mset (take m (fst a))"
proof -
  have "take m (swap_at (j - 1) j (fst a)) = swap_at (j - 1) j (take m (fst a))"
    using assms by (simp add: swap_at_def take_update_swap)
  then show ?thesis using assms by (simp add: bub_step_fst)
qed

lemma bub_pass_snoc: "bub_pass (js @ [j]) a = bub_step j (bub_pass js a)"
  by (induction js a rule: bub_pass.induct) auto

lemma length_bub_pass [simp]: "length (fst (bub_pass js a)) = length (fst a)"
  by (induction js a rule: bub_pass.induct) auto

lemma bub_pass_spec:
  "i < length (fst a) \<Longrightarrow>
   max_at (fst (bub_pass [1..<Suc i] a)) i \<and>
   (\<forall>k. i < k \<and> k < length (fst a) \<longrightarrow> fst (bub_pass [1..<Suc i] a) ! k = fst a ! k) \<and>
   mset (take (Suc i) (fst (bub_pass [1..<Suc i] a))) = mset (take (Suc i) (fst a))"
proof (induction i)
  case 0
  then show ?case by (simp add: max_at_def)
next
  case (Suc i)
  let ?b = "bub_pass [1..<Suc i] a"
  have step: "bub_pass [1..<Suc (Suc i)] a = bub_step (Suc i) ?b"
    using bub_pass_snoc [of "[1..<Suc i]" "Suc i" a] by simp
  from Suc have IH: "max_at (fst ?b) i"
    "\<forall>k. i < k \<and> k < length (fst a) \<longrightarrow> fst ?b ! k = fst a ! k"
    "mset (take (Suc i) (fst ?b)) = mset (take (Suc i) (fst a))" by (simp_all del: upt_Suc)
  have a: "max_at (fst (bub_step (Suc i) ?b)) (Suc i)"
    using IH(1) Suc.prems by (intro max_at_bub_step) (simp_all del: upt_Suc)
  have b: "fst (bub_step (Suc i) ?b) ! k = fst a ! k" if "Suc i < k" "k < length (fst a)" for k
    using that IH(2) by (subst bub_step_above) (simp_all del: upt_Suc)
  have "mset (take (Suc (Suc i)) (fst (bub_step (Suc i) ?b))) = mset (take (Suc (Suc i)) (fst ?b))"
    using Suc.prems by (intro mset_take_bub_step) (simp_all del: upt_Suc)
  also have "\<dots> = mset (take (Suc (Suc i)) (fst a))"
    using IH(2,3) Suc.prems by (simp add: take_Suc_conv_app_nth del: upt_Suc)
  finally show ?case unfolding step using a b by (intro conjI allI impI) simp_all
qed

lemma length_bub_sort [simp]: "length (fst (bub_sort i a)) = length (fst a)"
  by (induction i a rule: bub_sort.induct) auto

text \<open>What is above the index of the outer loop is sorted and not smaller than what is below.\<close>

definition top_sorted :: "nat \<Rightarrow> int list \<Rightarrow> bool" where
  "top_sorted i xs \<longleftrightarrow> sorted (drop i xs) \<and> (\<forall>x \<in> set (take i xs). \<forall>y \<in> set (drop i xs). x \<le> y)"

lemma top_sorted_pass:
  assumes "top_sorted (Suc (Suc i)) (fst a)" "Suc i < length (fst a)"
  shows "top_sorted (Suc i) (fst (bub_pass [1..<Suc (Suc i)] a))"
proof -
  let ?xs = "fst a" and ?ys = "fst (bub_pass [1..<Suc (Suc i)] a)"
  note sp = bub_pass_spec [OF assms(2)]
  have len: "length ?ys = length ?xs" by simp
  have tl_eq: "drop (Suc (Suc i)) ?ys = drop (Suc (Suc i)) ?xs"
    using sp len by (intro nth_equalityI) simp_all
  have hd_eq: "drop (Suc i) ?ys = ?ys ! Suc i # drop (Suc (Suc i)) ?xs"
    using assms(2) len tl_eq by (metis Cons_nth_drop_Suc)
  have set_eq: "set (take (Suc (Suc i)) ?ys) = set (take (Suc (Suc i)) ?xs)"
    using sp by (metis set_mset_mset)
  have mx: "x \<le> ?ys ! Suc i" if "x \<in> set (take (Suc i) ?ys)" for x
    using that sp len assms(2) unfolding in_set_conv_nth max_at_def by auto
  have "?ys ! Suc i \<in> set (take (Suc (Suc i)) ?ys)"
    using assms(2) len by (simp add: take_Suc_conv_app_nth)
  then have in_low: "?ys ! Suc i \<in> set (take (Suc (Suc i)) ?xs)" using set_eq by blast
  have low: "set (take (Suc i) ?ys) \<subseteq> set (take (Suc (Suc i)) ?xs)"
    using set_eq set_take_subset_set_take [of "Suc i" "Suc (Suc i)" ?ys] by auto
  have up: "x \<le> y" if "x \<in> set (take (Suc (Suc i)) ?xs)" "y \<in> set (drop (Suc (Suc i)) ?xs)" for x y
    using that assms(1) by (simp add: top_sorted_def)
  have srt: "sorted (drop (Suc (Suc i)) ?xs)" using assms(1) by (simp add: top_sorted_def)
  show ?thesis
    unfolding top_sorted_def hd_eq
  proof (intro conjI ballI)
    show "sorted (?ys ! Suc i # drop (Suc (Suc i)) ?xs)" using srt up in_low by simp
  next
    fix x y
    assume x: "x \<in> set (take (Suc i) ?ys)" and y: "y \<in> set (?ys ! Suc i # drop (Suc (Suc i)) ?xs)"
    then show "x \<le> y" using mx up low by auto
  qed
qed

lemma bub_sort_sorted:
  "top_sorted (Suc i) (fst a) \<Longrightarrow> i < length (fst a) \<Longrightarrow> sorted (fst (bub_sort i a))"
proof (induction i a rule: bub_sort.induct)
  case (1 a)
  then show ?case
    by (cases "fst a") (auto simp: top_sorted_def)
next
  case (2 i a)
  then show ?case using top_sorted_pass [of i a] by (simp del: upt_Suc)
qed

lemma rndorder_in_step:
  "in_step draw n (bub_sort (n - 1) (map draw [0..<n], [0..<n]))"
proof (cases n)
  case 0
  then show ?thesis by (simp add: in_step_def)
next
  case (Suc m)
  then show ?thesis by (intro in_step_bub_sort in_step_start) simp
qed

text \<open>
  The random order is a permutation of the candidates' numbers, and it is the one that sorts the
  numbers drawn: every candidate has exactly one place.
\<close>

theorem rndorder_permutes:
  "mset (rndorder draw n) = mset [0..<n] \<and> sorted (map draw (rndorder draw n))"
proof -
  let ?a = "(map draw [0..<n], [0..<n])"
  have step: "in_step draw n (bub_sort (n - 1) ?a)" by (rule rndorder_in_step)
  have "sorted (fst (bub_sort (n - 1) ?a))"
  proof (cases n)
    case 0
    then show ?thesis by simp
  next
    case (Suc m)
    then have "top_sorted (Suc (n - 1)) (fst ?a)" by (simp add: top_sorted_def)
    moreover have "n - 1 < length (fst ?a)" using Suc by simp
    ultimately show ?thesis by (rule bub_sort_sorted)
  qed
  with step show ?thesis by (simp add: in_step_def rndorder_def)
qed

lemma rndorder_facts:
  "length (rndorder draw n) = n" "distinct (rndorder draw n)" "set (rndorder draw n) = {..<n}"
proof -
  have m: "mset (rndorder draw n) = mset [0..<n]"
    using rndorder_in_step [of draw n] by (simp add: in_step_def rndorder_def)
  show "length (rndorder draw n) = n" using mset_eq_length [OF m] by simp
  show "distinct (rndorder draw n)" using mset_eq_imp_distinct_iff [OF m] by simp
  show "set (rndorder draw n) = {..<n}" using mset_eq_setD [OF m] by (simp add: atLeast0LessThan)
qed

text \<open>
  With well-formed times in both files the polls are open exactly from the first time to the
  second, both included, and nothing is printed or changed by asking.
\<close>

theorem polls_open_exact:
  assumes "fs s (cwd s @ [''start'']) = Some (dec b @ NL # x)"
    and "fs s (cwd s @ [''end'']) = Some (dec c @ NL # y)" and "in_long b" "in_long c"
  shows "polls_open e s = (Ret (b \<le> now e \<and> now e \<le> c), s)"
proof -
  have d: "scan_long (dec v @ NL # z) = ScanOk v (NL # z)" if "in_long v" for v z
    using that by (intro scan_long_dec) (simp_all add: isdigit_def)
  show ?thesis
    using assms d [OF assms(3), of x] d [OF assms(4), of y]
    by (simp add: polls_open_def bnd_def fopen_r_def gets_def ret_def)
qed

theorem polls_open_exact_witness:
  "polls_open \<lparr>enterable = (\<lambda>_. True), writable = (\<lambda>_. True), now = 50, now_text = []\<rparr>
     \<lparr>tin = [], tout = [], cwd = [],
      fs = [[''start''] \<mapsto> dec 10 @ [NL], [''end''] \<mapsto> dec 60 @ [NL]]\<rparr> =
   (Ret True, \<lparr>tin = [], tout = [], cwd = [],
      fs = [[''start''] \<mapsto> dec 10 @ [NL], [''end''] \<mapsto> dec 60 @ [NL]]\<rparr>)"
  by (subst polls_open_exact [where b = 10 and c = 60 and x = "[]" and y = "[]"])
     (simp_all add: in_long_def LONG_MIN_def LONG_MAX_def)

text \<open>
  An empty start file makes the program read a variable it never set.
\<close>

theorem polls_open_empty_start:
  assumes "fs s (cwd s @ [''start'']) = Some []" and "fs s (cwd s @ [''end'']) = Some g"
    and "scan_long g \<noteq> ScanFail"
  shows "fst (polls_open e s) = Undef"
  using assms by (simp add: polls_open_def bnd_def fopen_r_def gets_def scan_long_def undef_def)

theorem polls_open_empty_start_witness:
  "fst (polls_open \<lparr>enterable = (\<lambda>_. True), writable = (\<lambda>_. True), now = 50, now_text = []\<rparr>
     \<lparr>tin = [], tout = [], cwd = [], fs = [[''start''] \<mapsto> [], [''end''] \<mapsto> []]\<rparr>) = Undef"
  by (rule polls_open_empty_start [where g = "[]"]) (simp_all add: scan_long_def)

end
