(* ===== verification/VoteBoard.thy ===== *)
theory VoteBoard
  imports VoteFiles
begin

text \<open>
  The terminal voting booth, \<open>soft/apps/vote/src/board.c\<close>: reading the candidates and the user's
  earlier vote, the ballot, recording it, the listing, the candidates' statements and the menus.
\<close>

section \<open>State\<close>

record cand =
  descrip :: string
  dir :: string
  stmt :: "string option"
  uvote :: bool

record booth = place +
  pw_name :: string
  numcand :: int
  numslots :: int
  numvotes :: int
  candlist :: "cand list"

text \<open>The numbers \<open>arc4random\<close> gives and the statement files that can be opened.\<close>

record booth_env = site +
  draw :: "nat \<Rightarrow> int"
  stmt_file :: "string \<Rightarrow> string option"

type_synonym 'a boothp = "('a, booth) prog"

definition MAXCAND :: int where "MAXCAND = 50"
definition MAXBALLOT :: nat where "MAXBALLOT = 4096"
definition LINEMAX :: nat where "LINEMAX = 128"
definition STMTROWS :: nat where "STMTROWS = 23"
definition STMTCOLS :: nat where "STMTCOLS = 79"

definition BOARDDIR :: path where "BOARDDIR = [''var'', ''spool'', ''vote'']"
definition HASHDIR :: path where "HASHDIR = BOARDDIR @ [''.vdir'']"
definition VOTEDIR :: string where "VOTEDIR = ''votes''"

definition fail_with :: "string \<Rightarrow> int \<Rightarrow> 'a boothp" where
  "fail_with msg c = sq (puts msg) (exit_prog c)"

definition bye :: "'a boothp" where
  "bye = fail_with ''\<newline>Thank you for visiting the Grex Voting Booth.\<newline>'' 0"

definition votepause :: "unit boothp" where
  "votepause = sq (puts ''Type <return> to continue...'') (sq getchar (ret ()))"

definition display :: "string \<Rightarrow> unit boothp" where
  "display name = bnd (fopen_r name) (\<lambda>f. case f of
     None \<Rightarrow> fail_with (''Can't access file '' @ name @ ''\<newline>'') 3
   | Some x \<Rightarrow> sq (puts x) votepause)"

section \<open>Reading the candidates\<close>

text \<open>\<open>strtok\<close>: skip delimiters, take the token, step over one delimiter.\<close>

definition strtok :: "char \<Rightarrow> string \<Rightarrow> (string \<times> string) option" where
  "strtok d s = (let s1 = dropWhile (\<lambda>c. c = d) s in
     if s1 = [] then None
     else Some (takeWhile (\<lambda>c. c \<noteq> d) s1, drop 1 (dropWhile (\<lambda>c. c \<noteq> d) s1)))"

definition cand_fields :: "string \<Rightarrow> (string \<times> string \<times> string) option" where
  "cand_fields line = (case strtok CHR '':'' line of
     None \<Rightarrow> None
   | Some (a, r1) \<Rightarrow> (case strtok CHR '':'' r1 of
       None \<Rightarrow> None
     | Some (b, r2) \<Rightarrow> (case strtok NL r2 of
         None \<Rightarrow> None
       | Some (c, _) \<Rightarrow> Some (a, b, c))))"

text \<open>
  A field goes to the ballot buffer with what room is left; once there is none, the length of
  what lies after the buffer is taken. The result is the stored text and the room left.
\<close>

definition put_item :: "nat \<Rightarrow> string \<Rightarrow> (string \<times> nat) option" where
  "put_item room x = (if room = 0 then None
     else Some (strlcpy room x, room - (length (strlcpy room x) + 1)))"

fun read_cands :: "booth_env \<Rightarrow> nat list \<Rightarrow> string \<Rightarrow> nat \<Rightarrow> cand list \<Rightarrow> cand list boothp" where
  "read_cands e [] rest room cl = ret cl"
| "read_cands e (j # js) rest room cl =
     (if rest = [] then fail_with ''Unexpected EOF in candlist\<newline>'' 6
      else let (piece, rest') = take_line (LINEMAX - 1) rest; line = cstr piece in
        if line = [] then undef
        else if last line \<noteq> NL then fail_with ''Line too long in file candlist\<newline>'' 7
        else case cand_fields line of
          None \<Rightarrow> fail_with ''Improper format in candlist\<newline>'' 8
        | Some (a, b, c) \<Rightarrow> (case put_item room a of
            None \<Rightarrow> undef
          | Some (a', room') \<Rightarrow> (case put_item room' b of
              None \<Rightarrow> undef
            | Some (b', room'') \<Rightarrow>
                read_cands e js rest' room''
                  (cl[j := \<lparr>descrip = a', dir = b', stmt = stmt_file e c, uvote = False\<rparr>]))))"

definition no_cand :: cand where
  "no_cand = \<lparr>descrip = [], dir = [], stmt = None, uvote = False\<rparr>"

text \<open>The words \<open>fscanf("%s")\<close> reads one after the other.\<close>

function words :: "string \<Rightarrow> string list" where
  "words s = (let s1 = dropWhile isspace s in
     if s1 = [] then []
     else takeWhile (\<lambda>c. \<not> isspace c) s1 # words (dropWhile (\<lambda>c. \<not> isspace c) s1))"
  by pat_completeness auto
termination
proof (relation "measure length", goal_cases)
  case (2 s x)
  then obtain c cs where x: "x = c # cs" by (cases x) blast+
  with 2 have "dropWhile isspace s = c # cs" by simp
  then have "\<not> isspace c" using hd_dropWhile [of isspace s] by (metis list.distinct(1) list.sel(1))
  moreover have "length x \<le> length s" using 2 by (simp add: length_dropWhile_le)
  moreover have "length (dropWhile (\<lambda>c. \<not> isspace c) cs) \<le> length cs"
    by (rule length_dropWhile_le)
  ultimately show ?case using x by simp
qed simp

declare words.simps [simp del]

definition cand_index :: "cand list \<Rightarrow> string \<Rightarrow> nat" where
  "cand_index cl w = length (takeWhile (\<lambda>c. dir c \<noteq> w) cl)"

text \<open>One word of the user's vote file; \<open>candid\<close> holds 127 bytes.\<close>

fun mark_votes :: "string list \<Rightarrow> cand list \<times> int \<Rightarrow> (cand list \<times> int) option" where
  "mark_votes [] p = Some p"
| "mark_votes (w # ws) (cl, n) =
     (if LINEMAX \<le> length w then None
      else let t = cand_index cl (cstr w) in
        mark_votes ws (if t < length cl then (cl[t := (cl ! t)\<lparr>uvote := True\<rparr>], n + 1) else (cl, n)))"

text \<open>A number and the rest of its line; without a line end the search for it never stops.\<close>

definition number_line :: "string \<Rightarrow> string \<Rightarrow> int \<Rightarrow> (int \<times> string) boothp" where
  "number_line x msg c = (case scan_int x of
     ScanOk v rest \<Rightarrow> (case split_at NL rest of
         None \<Rightarrow> hang
       | Some (_, rest') \<Rightarrow> ret (v, rest'))
   | _ \<Rightarrow> fail_with msg c)"

definition getcands :: "booth_env \<Rightarrow> unit boothp" where
  "getcands e =
     bnd (chdir (site.truncate e) BOARDDIR) (\<lambda>ok. if \<not> ok then fail_with ''Can't access voting directory!\<newline>'' 2 else
     bnd (polls_open (site.truncate e)) (\<lambda>open. if \<not> open then fail_with ''We're sorry, the polls are closed.\<newline>'' 0 else
     bnd (fopen_r ''candlist'') (\<lambda>f. case f of
       None \<Rightarrow> fail_with ''Can't open candlist\<newline>'' 3
     | Some x \<Rightarrow>
       bnd (number_line x ''Can't read # of candidates from candlist\<newline>'' 5) (\<lambda>(nc, x1).
       sq (upd (\<lambda>s. s\<lparr>numcand := nc\<rparr>))
       (bnd (number_line x1 ''Can't read # of vacancies from candlist\<newline>'' 4) (\<lambda>(ns, x2).
       sq (upd (\<lambda>s. s\<lparr>numslots := ns\<rparr>))
       (if MAXCAND < nc then undef else
        bnd (read_cands e (rndorder (draw e) (nat nc)) x2 MAXBALLOT (replicate (nat nc) no_cand)) (\<lambda>cl.
        bnd (chdir_into (site.truncate e) VOTEDIR) (\<lambda>ok2. if \<not> ok2 then fail_with ''Can't access vote directory\<newline>'' 9 else
        bnd (gets pw_name) (\<lambda>me.
        bnd (fopen_r me) (\<lambda>v.
        (case mark_votes (case v of None \<Rightarrow> [] | Some y \<Rightarrow> words y) (cl, 0) of
           None \<Rightarrow> undef
         | Some (cl', nv) \<Rightarrow>
             sq (upd (\<lambda>s. s\<lparr>candlist := cl', numvotes := nv\<rparr>))
                (sq (chdir_up (site.truncate e)) (ret ()))))))))))))))"

section \<open>Voting\<close>

text \<open>The first byte of an answer that is not white space; a newline counts as a byte.\<close>

definition answer :: "string \<Rightarrow> char" where
  "answer line = (let r = dropWhile (\<lambda>c. isspace c \<and> c \<noteq> NL) line in if r = [] then NUL else hd r)"

definition says_yes :: "string \<Rightarrow> bool" where
  "says_yes line \<longleftrightarrow> answer line = CHR ''y'' \<or> answer line = CHR ''Y''"

definition eof_bye :: "'a boothp" where
  "eof_bye = sq (puts ''\<newline>Unexpected EOF during voting.\<newline>Previous vote (if any) unchanged.\<newline>'') bye"

fun ask_cands :: "nat list \<Rightarrow> unit boothp" where
  "ask_cands [] = ret ()"
| "ask_cands (i # is) =
     bnd (gets (\<lambda>s. descrip (candlist s ! i))) (\<lambda>d.
     sq (puts (pad_right 30 d @ '' (y/n): ''))
     (bnd (fgets LINEMAX) (\<lambda>l. case l of
        None \<Rightarrow> eof_bye
      | Some line \<Rightarrow>
          sq (upd (\<lambda>s. s\<lparr>numvotes := (if says_yes line then numvotes s + 1 else numvotes s),
                          candlist := (candlist s)[i := (candlist s ! i)\<lparr>uvote := says_yes line\<rparr>]\<rparr>))
             (ask_cands is))))"

definition restore_votes :: "bool list \<Rightarrow> unit boothp" where
  "restore_votes saved = upd (\<lambda>s. s\<lparr>candlist := map2 (\<lambda>c v. c\<lparr>uvote := v\<rparr>) (candlist s) saved\<rparr>)"

definition chosen :: "cand list \<Rightarrow> cand list" where
  "chosen = filter uvote"

definition schar :: "char \<Rightarrow> int" where
  "schar c = (if byte c < 128 then int (byte c) else int (byte c) - 256)"

definition vote_hash :: "cand list \<Rightarrow> int" where
  "vote_hash cl = sum_list (map (\<lambda>c. sum_list (map schar (dir c))) (chosen cl))"

definition vote_text :: "cand list \<Rightarrow> string" where
  "vote_text cl = concat (map (\<lambda>c. pad_right 32 (dir c) @ ''\<newline>'') (chosen cl))"

definition hashrec :: "booth_env \<Rightarrow> string \<Rightarrow> int \<Rightarrow> unit boothp" where
  "hashrec e user hash =
     bnd (chdir (site.truncate e) HASHDIR) (\<lambda>ok. if \<not> ok then fail_with ''Can't sloop\<newline>'' 1 else
     bnd (fappend_file (site.truncate e) user (dec hash @ '' '' @ now_text e)) (\<lambda>ok2.
       if \<not> ok2 then fail_with ''Can't gloop\<newline>'' 1 else
     sq (chdir (site.truncate e) BOARDDIR) (sq (chdir_into (site.truncate e) VOTEDIR) (ret ()))))"

definition record_vote :: "booth_env \<Rightarrow> unit boothp" where
  "record_vote e =
     bnd (chdir_into (site.truncate e) VOTEDIR) (\<lambda>ok. if \<not> ok then fail_with ''Can't access vote directory in record()\<newline>'' 11 else
     bnd (gets id) (\<lambda>s.
     sq (unlink (site.truncate e) (pw_name s))
     (bnd (fwrite_file (site.truncate e) (pw_name s) (vote_text (candlist s))) (\<lambda>ok2.
       if \<not> ok2 then undef else
     sq (hashrec e (pw_name s) (vote_hash (candlist s)))
        (sq (chdir_up (site.truncate e)) (ret ()))))))"

text \<open>The ballot's end: too many votes, a confirmation, or the old vote kept.\<close>

definition finish_vote :: "booth_env \<Rightarrow> bool list \<Rightarrow> unit boothp" where
  "finish_vote e saved = bnd (gets id) (\<lambda>s1.
      if numvotes s1 > numslots s1 then
        sq (puts (''\<newline>You voted for '' @ dec (numvotes s1) @ '' candidates.\<newline>''
             @ ''There are only '' @ dec (numslots s1) @ '' positions.\<newline>''
             @ ''Vote canceled; previous vote (if any) unchanged.\<newline>''
             @ ''Please select the vote option from the menu if you wish to vote.\<newline>\<newline>''))
           (restore_votes saved)
      else
        sq (puts (''\<newline>You voted for the following candidates:\<newline>\<newline>''
             @ concat (map (\<lambda>c. descrip c @ ''\<newline>'') (chosen (candlist s1)))
             @ ''\<newline>Is this correct (y/n)? ''))
        (bnd (fgets LINEMAX) (\<lambda>l. case l of
           None \<Rightarrow> eof_bye
         | Some line \<Rightarrow>
             if says_yes line then sq (puts ''Recording vote...\<newline>'') (record_vote e)
             else sq (puts ''Previous vote (if any) unchanged.\<newline>'') (restore_votes saved))))"

text \<open>The questions, with the marks of the vote before them.\<close>

definition ask_ballot :: "bool list boothp" where
  "ask_ballot =
     sq (display ''votemsg'')
     (bnd (gets id) (\<lambda>s0.
     sq (puts (''Vote for at most '' @ dec (numslots s0) @ '':\<newline>''))
     (sq (upd (\<lambda>s. s\<lparr>numvotes := 0\<rparr>))
     (sq (ask_cands [0..<nat (numcand s0)]) (ret (map uvote (candlist s0)))))))"

definition vote :: "booth_env \<Rightarrow> unit boothp" where
  "vote e = bnd ask_ballot (finish_vote e)"

section \<open>Listing, statements, menu\<close>

definition listcands :: "unit boothp" where
  "listcands = bnd (gets id) (\<lambda>s.
     sq (puts (''There are '' @ dec (numcand s) @ '' candidates for '' @ dec (numslots s)
          @ '' open positions.\<newline>'' @ ''The candidates are listed in random order.\<newline>''
          @ ''Candidates you've voted for are marked with a *.\<newline>\<newline>''
          @ concat (map (\<lambda>c. (if uvote c then ''*'' else '' '') @ descrip c @ '' ('' @ dir c @ '')\<newline>'')
                      (take (nat (numcand s)) (candlist s)))
          @ ''\<newline>You have voted for '' @ dec (numvotes s) @ '' candidates.\<newline>\<newline>''))
        votepause)"

text \<open>At most \<open>STMTROWS\<close> rows of at most \<open>STMTCOLS\<close> bytes, printable bytes and tabs only.\<close>

definition stmt_row :: "string \<Rightarrow> string" where
  "stmt_row piece =
     filter (\<lambda>c. isprint c \<or> c = TAB) (take STMTCOLS (takeWhile (\<lambda>c. c \<noteq> NL) (cstr piece)))"

fun stmt_rows :: "nat \<Rightarrow> string \<Rightarrow> string list" where
  "stmt_rows 0 f = []"
| "stmt_rows (Suc r) f =
     (if f = [] then [] else let (piece, rest) = take_line STMTCOLS f in stmt_row piece # stmt_rows r rest)"

definition stmt_rule :: string where
  "stmt_rule = replicate 70 CHR ''-'' @ ''\<newline>''"

definition dispstmt :: "nat \<Rightarrow> unit boothp" where
  "dispstmt nc = bnd (gets (\<lambda>s. candlist s ! nc)) (\<lambda>c. case stmt c of
     None \<Rightarrow> undef
   | Some f \<Rightarrow> puts (''Statement by '' @ descrip c @ '':\<newline>'' @ stmt_rule
        @ concat (map (\<lambda>l. l @ ''\<newline>'') (stmt_rows STMTROWS f)) @ stmt_rule))"

definition stmt_index :: "booth \<Rightarrow> nat list" where
  "stmt_index s = filter (\<lambda>i. stmt (candlist s ! i) \<noteq> None) [0..<nat (numcand s)]"

definition stmt_round :: "nat list \<Rightarrow> bool boothp" where
  "stmt_round index = bnd (gets id) (\<lambda>s.
     sq (puts (concat (map (\<lambda>i. ''   '' @ pad_left 2 (dec (int i + 1)) @ ''. ''
                                @ descrip (candlist s ! (index ! i)) @ ''\<newline>'') [0..<length index])
          @ ''\<newline>To view a statement, type the corresponding number,\<newline>''
          @ ''or type 0 to return to the main menu.\<newline>'' @ ''Your choice? ''))
     (bnd (fgets LINEMAX) (\<lambda>l. case l of
        None \<Rightarrow> sq (puts ''\<newline>'') bye
      | Some line \<Rightarrow>
          let select = (case scan_int line of ScanOk v _ \<Rightarrow> v | _ \<Rightarrow> 0) in
          if select \<le> 0 \<or> select > int (length index) then ret False
          else sq (dispstmt (index ! nat (select - 1)))
                 (sq votepause (sq (puts ''\<newline>'') (ret True))))))"

definition stmtmenu :: "unit boothp" where
  "stmtmenu =
     sq (puts (''The following candidates have prepared statements that\<newline>'' @ ''you can view:\<newline>\<newline>''))
     (bnd (gets stmt_index) (\<lambda>index.
      bnd (gets (\<lambda>s. length (tin s))) (\<lambda>n. iter (Suc n) (stmt_round index))))"

definition menu_text :: string where
  "menu_text = ''Choose an option by number:\<newline>\<newline>'' @ ''  1. Election information\<newline>''
     @ ''  2. List of candidates\<newline>'' @ ''  3. View statements by the candidates\<newline>''
     @ ''  4. Vote\<newline>'' @ ''  5. Exit the vote program\<newline>'' @ ''\<newline>Your choice (1-5)? ''"

definition menu_round :: "booth_env \<Rightarrow> bool boothp" where
  "menu_round e = sq (puts menu_text) (bnd (fgets LINEMAX) (\<lambda>l. case l of
     None \<Rightarrow> sq (puts ''\<newline>'') bye
   | Some line \<Rightarrow> (case scan_int line of
       ScanOk v _ \<Rightarrow>
         if v < 1 \<or> 5 < v then sq (puts ''Invalid option.\<newline>'') (ret True)
         else if v = 1 then sq (display ''info.txt'') (ret True)
         else if v = 2 then sq listcands (ret True)
         else if v = 3 then sq stmtmenu (ret True)
         else if v = 4 then sq (vote e) (ret True)
         else bye
     | _ \<Rightarrow> sq (puts ''Invalid option.\<newline>'') (ret True))))"

definition menu :: "booth_env \<Rightarrow> unit boothp" where
  "menu e = bnd (gets (\<lambda>s. length (tin s))) (\<lambda>n. iter (Suc n) (menu_round e))"

text \<open>\<open>validate\<close>: the uid and the account database decide; root may not vote.\<close>

definition validate :: "int \<Rightarrow> string option \<Rightarrow> string boothp" where
  "validate uid acct = (case acct of
     None \<Rightarrow> fail_with ''We don't know who you are!\<newline>'' 1
   | Some name \<Rightarrow> if uid = 0 then fail_with ''We don't know who you are!\<newline>'' 1 else ret name)"

definition board_main :: "booth_env \<Rightarrow> int \<Rightarrow> string option \<Rightarrow> unit boothp" where
  "board_main e uid acct = bnd (validate uid acct) (\<lambda>name.
     sq (upd (\<lambda>s. s\<lparr>pw_name := name\<rparr>))
     (sq (puts (''\<newline>          *** Welcome to the Grex Voting Booth, '' @ name @ ''! ***\<newline>\<newline>''))
     (sq (getcands e) (sq (menu e) (exit_prog 0)))))"

end
