(* ===== verification/VoteBoardFacts.thy ===== *)
theory VoteBoardFacts
  imports VoteBoard
begin

text \<open>
  Properties of the terminal voting booth: a recorded vote is read back, a ballot never records
  more votes than there are positions, cancelling leaves the old vote, the listing holds every
  candidate once, and statements cannot send control characters to the terminal.
\<close>

section \<open>Reading a recorded vote back\<close>

text \<open>A name that survives being written to the vote file and read with \<open>%s\<close>.\<close>

definition wordlike :: "string \<Rightarrow> bool" where
  "wordlike w \<longleftrightarrow> w \<noteq> [] \<and> length w < LINEMAX \<and> (\<forall>c \<in> set w. \<not> isspace c \<and> c \<noteq> NUL)"

lemma isspace_blank [simp]: "isspace SPC" "isspace NL" "isspace TAB"
  by (simp_all add: isspace_def)

lemma words_blank: "\<forall>c \<in> set s. isspace c \<Longrightarrow> words s = []"
  by (subst words.simps) (simp add: Let_def dropWhile_eq_Nil_conv)

lemma words_skip: "\<forall>c \<in> set b. isspace c \<Longrightarrow> words (b @ s) = words s"
  by (subst (1 2) words.simps) (simp add: Let_def dropWhile_append)

lemma words_cons:
  assumes "wordlike w" "rest = [] \<or> isspace (hd rest)"
  shows "words (w @ rest) = w # words rest"
proof -
  obtain c cs where w: "w = c # cs" using assms(1) by (cases w) (auto simp: wordlike_def)
  have ns: "\<forall>c \<in> set w. \<not> isspace c" using assms(1) by (simp add: wordlike_def)
  have d: "dropWhile isspace (w @ rest) = w @ rest" using ns w by simp
  have t: "takeWhile (\<lambda>c. \<not> isspace c) (w @ rest) = w"
    and r: "dropWhile (\<lambda>c. \<not> isspace c) (w @ rest) = rest"
    using ns assms(2) by (cases rest, simp_all add: takeWhile_append dropWhile_append takeWhile_eq_all_conv)+
  have "w @ rest \<noteq> []" using w by simp
  then show ?thesis by (subst words.simps) (simp only: Let_def d t r if_False)
qed

definition good_cands :: "cand list \<Rightarrow> bool" where
  "good_cands cl \<longleftrightarrow> distinct (map dir cl) \<and> (\<forall>c \<in> set cl. wordlike (dir c))"

lemma words_vote_text:
  "\<forall>c \<in> set cl. wordlike (dir c) \<Longrightarrow> words (vote_text cl) = map dir (chosen cl)"
proof (induction cl)
  case Nil
  then show ?case by (simp add: vote_text_def chosen_def words_blank)
next
  case (Cons c cl)
  then have IH: "words (vote_text cl) = map dir (chosen cl)" by simp
  show ?case
  proof (cases "uvote c")
    case True
    let ?pad = "replicate (32 - length (dir c)) SPC @ [NL]"
    have "vote_text (c # cl) = dir c @ (?pad @ vote_text cl)"
      using True by (simp add: vote_text_def chosen_def pad_right_def)
    moreover have "isspace (hd (?pad @ vote_text cl))" by (simp add: hd_append)
    ultimately have "words (vote_text (c # cl)) = dir c # words (?pad @ vote_text cl)"
      using Cons.prems words_cons [of "dir c"] by simp
    also have "words (?pad @ vote_text cl) = words (vote_text cl)"
      by (rule words_skip) auto
    finally show ?thesis using True IH by (simp add: chosen_def)
  next
    case False
    then show ?thesis using IH by (simp add: vote_text_def chosen_def)
  qed
qed

text \<open>Marking by the name of a candidate.\<close>

definition mark :: "string set \<Rightarrow> cand list \<Rightarrow> cand list" where
  "mark ds = map (\<lambda>c. if dir c \<in> ds then c\<lparr>uvote := True\<rparr> else c)"

lemma dir_mark [simp]: "map dir (mark ds cl) = map dir cl"
  by (simp add: mark_def)

lemma cand_index_found:
  "w \<in> dir ` set cl \<Longrightarrow> cand_index cl w < length cl \<and> dir (cl ! cand_index cl w) = w"
proof (induction cl)
  case (Cons c cl)
  then show ?case by (cases "dir c = w") (auto simp: cand_index_def)
qed simp

lemma mark_insert:
  assumes "distinct (map dir cl)" "i < length cl"
  shows "(mark ds cl)[i := (mark ds cl ! i)\<lparr>uvote := True\<rparr>] = mark (insert (dir (cl ! i)) ds) cl"
proof (rule nth_equalityI)
  fix k assume k: "k < length ((mark ds cl)[i := (mark ds cl ! i)\<lparr>uvote := True\<rparr>])"
  then have "k < length cl" by (simp add: mark_def)
  with assms have "dir (cl ! k) = dir (cl ! i) \<longleftrightarrow> k = i"
    by (metis length_map nth_eq_iff_index_eq nth_map)
  then show "(mark ds cl)[i := (mark ds cl ! i)\<lparr>uvote := True\<rparr>] ! k =
      mark (insert (dir (cl ! i)) ds) cl ! k"
    using assms(2) \<open>k < length cl\<close> by (simp add: mark_def nth_list_update)
qed (simp add: mark_def)

lemma mark_votes_words:
  assumes "distinct (map dir cl)" "\<forall>w \<in> set ws. wordlike w \<and> w \<in> dir ` set cl"
  shows "mark_votes ws (mark ds cl, n) = Some (mark (ds \<union> set ws) cl, n + int (length ws))"
  using assms(2)
proof (induction ws arbitrary: ds n)
  case Nil
  then show ?case by simp
next
  case (Cons w ws)
  then have w: "wordlike w" "w \<in> dir ` set (mark ds cl)"
    using dir_mark [of ds cl] by (auto simp: image_set simp del: dir_mark set_map)
  let ?t = "cand_index (mark ds cl) w"
  have cs: "cstr w = w" using w(1) by (intro cstr_id) (auto simp: wordlike_def)
  have t: "?t < length cl" "dir (cl ! ?t) = w"
    using cand_index_found [OF w(2)] by (auto simp: mark_def split: if_splits)
  have "mark_votes (w # ws) (mark ds cl, n) = mark_votes ws (mark (insert w ds) cl, n + 1)"
    using w(1) t mark_insert [OF assms(1) t(1), of ds]
    by (simp add: wordlike_def cs Let_def mark_def)
  with Cons show ?case by simp
qed

text \<open>
  What the booth writes for a vote, the booth reads as the same vote: a later session that lists
  the same candidates, in any order, marks exactly the candidates chosen and counts them.
\<close>

theorem recorded_vote_reads_back:
  assumes "good_cands old" "good_cands new" "dir ` set new = dir ` set old" "\<forall>c \<in> set new. \<not> uvote c"
  shows "\<exists>cl. mark_votes (words (vote_text old)) (new, 0) = Some (cl, int (length (chosen old))) \<and>
     map dir cl = map dir new \<and> dir ` set (chosen cl) = dir ` set (chosen old)"
proof -
  let ?ws = "map dir (chosen old)"
  have "words (vote_text old) = ?ws" using assms(1) by (simp add: words_vote_text good_cands_def)
  moreover have "\<forall>w \<in> set ?ws. wordlike w \<and> w \<in> dir ` set new"
    using assms(1,3) by (auto simp: good_cands_def chosen_def)
  moreover have "mark {} new = new" by (simp add: mark_def)
  ultimately have m: "mark_votes (words (vote_text old)) (new, 0) =
      Some (mark (set ?ws) new, int (length (chosen old)))"
    using mark_votes_words [of new ?ws "{}" 0] assms(2) by (simp add: good_cands_def)
  have "dir ` set (chosen (mark (set ?ws) new)) = dir ` set (chosen old)"
  proof
    show "dir ` set (chosen (mark (set ?ws) new)) \<subseteq> dir ` set (chosen old)"
      using assms(4) by (auto simp: mark_def chosen_def split: if_splits)
    show "dir ` set (chosen old) \<subseteq> dir ` set (chosen (mark (set ?ws) new))"
    proof
      fix d assume d: "d \<in> dir ` set (chosen old)"
      then have "d \<in> dir ` set new" using assms(3) by (auto simp: chosen_def)
      then obtain c where c: "c \<in> set new" "dir c = d" by blast
      then have "c\<lparr>uvote := True\<rparr> \<in> set (chosen (mark (set ?ws) new))"
        using d by (force simp: mark_def chosen_def)
      then show "d \<in> dir ` set (chosen (mark (set ?ws) new))" by (rule image_eqI [rotated]) (simp add: c)
    qed
  qed
  with m show ?thesis by auto
qed

definition two_cands :: "cand list" where
  "two_cands = [\<lparr>descrip = ''Ann'', dir = ''ann'', stmt = None, uvote = False\<rparr>,
                \<lparr>descrip = ''Bob'', dir = ''bob'', stmt = None, uvote = True\<rparr>]"

theorem recorded_vote_reads_back_witness:
  "\<exists>cl. mark_votes (words (vote_text two_cands)) (map (\<lambda>c. c\<lparr>uvote := False\<rparr>) (rev two_cands), 0) =
      Some (cl, 1) \<and> dir ` set (chosen cl) = {''bob''}"
proof -
  have w: "wordlike ''ann''" "wordlike ''bob''"
    by (simp_all add: wordlike_def LINEMAX_def isspace_def)
  show ?thesis
    using recorded_vote_reads_back [of two_cands "map (\<lambda>c. c\<lparr>uvote := False\<rparr>) (rev two_cands)"] w
    by (auto simp: two_cands_def good_cands_def chosen_def)
qed

section \<open>The candidates' statements\<close>

lemma stmt_row_clean: "\<forall>c \<in> set (stmt_row p). isprint c \<or> c = TAB"
  by (simp add: stmt_row_def)

lemma stmt_row_width: "length (stmt_row p) \<le> STMTCOLS"
  unfolding stmt_row_def by (rule order_trans [OF length_filter_le]) simp

lemma stmt_rows_spec:
  "length (stmt_rows r f) \<le> r \<and>
   (\<forall>l \<in> set (stmt_rows r f). length l \<le> STMTCOLS \<and> (\<forall>c \<in> set l. isprint c \<or> c = TAB))"
proof (induction r f rule: stmt_rows.induct)
  case (1 f)
  then show ?case by simp
next
  case (2 r f)
  obtain p q where "take_line STMTCOLS f = (p, q)" by fastforce
  with 2 show ?case using stmt_row_clean [of p] stmt_row_width [of p] by simp
qed

text \<open>
  Whatever a candidate's statement file holds, showing it prints at most 23 rows of at most 79
  printable characters or tabs between the two rules, each row ended by a newline: no escape
  sequence of the candidate reaches the voter's terminal.
\<close>

theorem statement_is_tame:
  assumes "stmt (candlist s ! nc) = Some f"
  shows "\<exists>rows. dispstmt nc s = (Ret (), s\<lparr>tout := tout s @ ''Statement by '' @
       descrip (candlist s ! nc) @ '':\<newline>'' @ stmt_rule @
       concat (map (\<lambda>l. l @ ''\<newline>'') rows) @ stmt_rule\<rparr>) \<and>
     length rows \<le> 23 \<and> (\<forall>l \<in> set rows. length l \<le> 79 \<and> (\<forall>c \<in> set l. isprint c \<or> c = TAB))"
  using assms stmt_rows_spec [of STMTROWS f]
  by (intro exI [of _ "stmt_rows STMTROWS f"])
     (simp add: dispstmt_def bnd_def gets_def puts_run STMTROWS_def STMTCOLS_def)

definition empty_booth :: booth where
  "empty_booth = \<lparr>tin = [], tout = [], cwd = BOARDDIR, fs = (\<lambda>_. None), pw_name = ''joe'',
     numcand = 2, numslots = 1, numvotes = 0, candlist = two_cands\<rparr>"

theorem statement_is_tame_witness:
  "\<exists>rows. length rows \<le> 23 \<and> dispstmt 0 (empty_booth\<lparr>candlist := [no_cand\<lparr>stmt := Some ''hi''\<rparr>]\<rparr>) =
     (Ret (), empty_booth\<lparr>candlist := [no_cand\<lparr>stmt := Some ''hi''\<rparr>],
        tout := ''Statement by :\<newline>'' @ stmt_rule @ concat (map (\<lambda>l. l @ ''\<newline>'') rows) @ stmt_rule\<rparr>)"
  using statement_is_tame [of "empty_booth\<lparr>candlist := [no_cand\<lparr>stmt := Some ''hi''\<rparr>]\<rparr>" 0 "''hi''"]
  by (auto simp: empty_booth_def no_cand_def)

section \<open>A ballot\<close>

text \<open>What a ballot in progress may not touch.\<close>

definition same_setup :: "booth \<Rightarrow> booth \<Rightarrow> bool" where
  "same_setup s t \<longleftrightarrow> fs t = fs s \<and> cwd t = cwd s \<and> pw_name t = pw_name s \<and>
     numcand t = numcand s \<and> numslots t = numslots s \<and>
     map (\<lambda>c. c\<lparr>uvote := False\<rparr>) (candlist t) = map (\<lambda>c. c\<lparr>uvote := False\<rparr>) (candlist s)"

interpretation ballot: frame_rel same_setup
  by unfold_locales (auto simp: same_setup_def)

lemma setup_length: "same_setup s t \<Longrightarrow> length (candlist t) = length (candlist s)"
  unfolding same_setup_def using map_eq_imp_length_eq by blast

lemma setup_io:
  "keeps same_setup (puts x)" "keeps same_setup (fgets n)" "keeps same_setup getchar"
  "keeps same_setup (fopen_r name)"
  by (auto simp: keeps_def same_setup_def puts_def upd_def fgets_def getchar_def fopen_r_def gets_def
      split: if_splits prod.splits list.splits)

lemma setup_exits: "keeps same_setup (fail_with msg c)" "keeps same_setup bye" "keeps same_setup eof_bye"
  unfolding eof_bye_def bye_def fail_with_def by (intro ballot.keeps_rules setup_io)+

lemma setup_display: "keeps same_setup (display name)" "keeps same_setup votepause"
  unfolding display_def votepause_def by (intro ballot.keeps_rules setup_io setup_exits)+

lemma map_forget_update:
  "i < length cl \<Longrightarrow> map (\<lambda>c. c\<lparr>uvote := False\<rparr>) (cl[i := (cl ! i)\<lparr>uvote := b\<rparr>]) =
     map (\<lambda>c. c\<lparr>uvote := False\<rparr>) cl"
  by (rule nth_equalityI) (auto simp: nth_list_update)

lemma setup_answer:
  "same_setup s (s\<lparr>numvotes := v, candlist := (candlist s)[i := (candlist s ! i)\<lparr>uvote := b\<rparr>]\<rparr>)"
  by (cases "i < length (candlist s)") (simp_all add: same_setup_def map_forget_update list_update_beyond not_less)

lemma setup_ask_cands: "keeps same_setup (ask_cands ks)"
proof (induction ks)
  case (Cons i ks)
  have "keeps same_setup (upd (\<lambda>s. s\<lparr>numvotes := (if says_yes line then numvotes s + 1 else numvotes s),
      candlist := (candlist s)[i := (candlist s ! i)\<lparr>uvote := says_yes line\<rparr>]\<rparr>))" for line
    by (rule ballot.keeps_upd) (rule setup_answer)
  with Cons show ?case
    unfolding ask_cands.simps by (intro ballot.keeps_rules setup_io setup_exits)
qed (simp add: ballot.keeps_ret)

text \<open>Only the positions not asked about keep their old mark; the count is of those asked.\<close>

lemma ask_cands_count:
  "ask_cands [k..<length (candlist s)] s = (Ret (), t) \<Longrightarrow> k \<le> length (candlist s) \<Longrightarrow>
   take k (candlist t) = take k (candlist s) \<and>
   numvotes t = numvotes s + int (length (chosen (drop k (candlist t))))"
proof (induction "length (candlist s) - k" arbitrary: k s)
  case 0
  then have "k = length (candlist s)" by simp
  with 0 show ?case by (simp add: ret_def chosen_def)
next
  case (Suc n)
  then have k: "k < length (candlist s)" by simp
  then have upt: "[k..<length (candlist s)] = k # [Suc k..<length (candlist s)]" by (rule upt_conv_Cons)
  obtain line u where f: "tin s \<noteq> []" "take_line (LINEMAX - 1) (tin s) = (line, u)"
    using Suc.prems(1) upt
    by (cases "tin s = []"; cases "take_line (LINEMAX - 1) (tin s)")
       (auto simp: bnd_def sq_def gets_def puts_def upd_def fgets_def eof_bye_def bye_def
          fail_with_def exit_prog_def)
  let ?b = "says_yes (cstr line)"
  let ?s = "s\<lparr>tout := tout s @ pad_right 30 (descrip (candlist s ! k)) @ '' (y/n): '', tin := u,
      numvotes := (if ?b then numvotes s + 1 else numvotes s),
      candlist := (candlist s)[k := (candlist s ! k)\<lparr>uvote := ?b\<rparr>]\<rparr>"
  have run: "ask_cands [Suc k..<length (candlist ?s)] ?s = (Ret (), t)"
    using Suc.prems(1) f upt
    by (cases ?b) (simp_all add: bnd_def sq_def gets_def puts_def upd_def fgets_def del: upt_Suc)
  have "n = length (candlist ?s) - Suc k" "Suc k \<le> length (candlist ?s)"
    using Suc.hyps(2) k by simp_all
  from Suc.hyps(1) [OF this(1) run this(2)]
  have IH: "take (Suc k) (candlist t) = take (Suc k) ((candlist s)[k := (candlist s ! k)\<lparr>uvote := ?b\<rparr>])"
    "numvotes t = numvotes ?s + int (length (chosen (drop (Suc k) (candlist t))))" by simp_all
  have "length (take (Suc k) (candlist t)) = Suc k" using k by (simp add: IH(1))
  then have len: "k < length (candlist t)" by (simp add: min_def split: if_splits)
  have "take (Suc k) (candlist t) ! k = (candlist s ! k)\<lparr>uvote := ?b\<rparr>"
    using k by (simp add: IH(1))
  then have "candlist t ! k = (candlist s ! k)\<lparr>uvote := ?b\<rparr>" by simp
  then have "drop k (candlist t) = (candlist s ! k)\<lparr>uvote := ?b\<rparr> # drop (Suc k) (candlist t)"
    using len by (metis Cons_nth_drop_Suc)
  moreover have "take k (candlist t) = take k (candlist s)"
    using arg_cong [OF IH(1), of "take k"] by (simp add: min_def)
  ultimately show ?case using IH(2) by (simp add: chosen_def)
qed

section \<open>Recording a ballot\<close>

abbreviation vote_path :: "string \<Rightarrow> path" where
  "vote_path who \<equiv> BOARDDIR @ [VOTEDIR, who]"

lemma exits_frame:
  "fail_with msg c s = (Exit c, s\<lparr>tout := tout s @ msg\<rparr>)"
  by (simp add: fail_with_def sq_def bnd_def puts_run exit_prog_def)

lemma hashrec_frame:
  assumes "hashrec e user h s = (r, t)"
  shows "candlist t = candlist s \<and> (\<forall>p. p \<noteq> HASHDIR @ [user] \<longrightarrow> fs t p = fs s p)"
  using assms
  by (auto simp: hashrec_def bnd_def sq_def chdir_def chdir_into_def fappend_file_def exits_frame
      Let_def ret_def split: if_splits)

lemma record_vote_frame:
  assumes "record_vote e s = (r, t)" "cwd s = BOARDDIR"
  shows "candlist t = candlist s \<and>
    (fs t = fs s \<or> fs t (vote_path (pw_name s)) = Some (vote_text (candlist s)))"
proof (cases "enterable e (BOARDDIR @ [VOTEDIR]) \<and> writable e (vote_path (pw_name s))")
  case True
  let ?s1 = "s\<lparr>cwd := BOARDDIR @ [VOTEDIR]\<rparr>"
  let ?s2 = "?s1\<lparr>fs := (fs s)(vote_path (pw_name s) := Some (vote_text (candlist s)))\<rparr>"
  have "record_vote e s =
      sq (hashrec e (pw_name s) (vote_hash (candlist s))) (sq (chdir_up (site.truncate e)) (ret ())) ?s2"
    using True assms(2)
    by (simp add: record_vote_def bnd_def sq_def chdir_into_def chdir_def gets_def unlink_def upd_def
        fwrite_file_def site.truncate_def)
  with assms(1) have run: "sq (hashrec e (pw_name s) (vote_hash (candlist s)))
      (sq (chdir_up (site.truncate e)) (ret ())) ?s2 = (r, t)" by simp
  have tail: "candlist v = candlist u \<and> fs v = fs u"
    if "sq (chdir_up (site.truncate e)) (ret ()) u = (r, v)" for u v
    using that by (auto simp: sq_def bnd_def chdir_up_def chdir_def ret_def split: if_splits)
  have "vote_path (pw_name s) \<noteq> HASHDIR @ [pw_name s]" by (simp add: HASHDIR_def VOTEDIR_def)
  from run show ?thesis
  proof (cases rule: sq_cases)
    case (step a u)
    with hashrec_frame [OF step(1)] tail [OF step(2)]
      \<open>vote_path (pw_name s) \<noteq> HASHDIR @ [pw_name s]\<close> show ?thesis by simp
  next
    case (stop x)
    with hashrec_frame [OF stop(1)] \<open>vote_path (pw_name s) \<noteq> HASHDIR @ [pw_name s]\<close>
    show ?thesis by simp
  qed
next
  case False
  with assms show ?thesis
    by (auto simp: record_vote_def bnd_def sq_def chdir_into_def chdir_def gets_def unlink_def upd_def
        fwrite_file_def site.truncate_def exits_frame undef_def split: if_splits)
qed

lemma restore_votes_run:
  assumes "map (\<lambda>c. c\<lparr>uvote := False\<rparr>) (candlist s) = map (\<lambda>c. c\<lparr>uvote := False\<rparr>) cl"
  shows "restore_votes (map uvote cl) s = (Ret (), s\<lparr>candlist := cl\<rparr>)"
proof -
  have "map2 (\<lambda>c v. c\<lparr>uvote := v\<rparr>) cs (map uvote cl) = cl"
    if "map (\<lambda>c. c\<lparr>uvote := False\<rparr>) cs = map (\<lambda>c. c\<lparr>uvote := False\<rparr>) cl" for cs
    using that
  proof (induction cs arbitrary: cl)
    case (Cons c cs)
    then obtain d ds where cl: "cl = d # ds" by (cases cl) auto
    from Cons.prems cl have "c\<lparr>uvote := False\<rparr> = d\<lparr>uvote := False\<rparr>" by simp
    then have "c\<lparr>uvote := uvote d\<rparr> = d" by (cases c; cases d) simp
    with Cons cl show ?case by simp
  qed simp
  with assms show ?thesis by (simp add: restore_votes_def upd_def)
qed

text \<open>How a ballot can end, once its questions are answered.\<close>

lemma setup_print: "same_setup s (s\<lparr>tout := x\<rparr>)"
  by (simp add: same_setup_def)

lemma finish_vote_cases:
  assumes "finish_vote e (map uvote cl) u = (r, t)"
    and "map (\<lambda>c. c\<lparr>uvote := False\<rparr>) (candlist u) = map (\<lambda>c. c\<lparr>uvote := False\<rparr>) cl"
  obtains (early) "same_setup u t" "r \<noteq> Ret ()"
    | (undone) "numvotes u > numslots u" "r = Ret ()" "fs t = fs u" "candlist t = cl" "numvotes t = numvotes u"
    | (declined) "numvotes u \<le> numslots u" "r = Ret ()" "fs t = fs u" "candlist t = cl"
    | (recorded) v line where "same_setup u v" "candlist v = candlist u" "numvotes u \<le> numslots u"
        "tin u \<noteq> []" "take_line (LINEMAX - 1) (tin u) = (line, tin v)" "says_yes (cstr line)"
        "record_vote e v = (r, t)"
proof (cases "numvotes u > numslots u")
  case True
  then have "r = Ret () \<and> fs t = fs u \<and> candlist t = cl \<and> numvotes t = numvotes u"
    using assms restore_votes_run [of _ cl]
    by (auto simp: finish_vote_def bnd_def sq_def gets_def puts_run)
  with True undone show ?thesis by blast
next
  case False
  define w where "w = u\<lparr>tout := tout u @ ''\<newline>You voted for the following candidates:\<newline>\<newline>''
             @ concat (map (\<lambda>c. descrip c @ ''\<newline>'') (chosen (candlist u)))
             @ ''\<newline>Is this correct (y/n)? ''\<rparr>"
  have w: "same_setup u w" "candlist w = candlist u" by (simp_all add: w_def setup_print)
  have run: "bnd (fgets LINEMAX) (\<lambda>l. case l of
           None \<Rightarrow> eof_bye
         | Some line \<Rightarrow>
             if says_yes line then sq (puts ''Recording vote...\<newline>'') (record_vote e)
             else sq (puts ''Previous vote (if any) unchanged.\<newline>'') (restore_votes (map uvote cl))) w = (r, t)"
    using assms(1) False by (simp add: finish_vote_def bnd_def sq_def gets_def puts_run w_def)
  show ?thesis
  proof (cases "tin w = []")
    case True
    then have "eof_bye w = (r, t)" using run by (simp add: fgets_def bnd_def)
    moreover from this have "r \<noteq> Ret ()" by (auto simp: eof_bye_def bye_def exits_frame sq_def bnd_def puts_run)
    ultimately show ?thesis
      using early keepsD [OF setup_exits(3)] w(1) ballot.frame_trans by blast
  next
    case inp: False
    obtain line rest where tl: "take_line (LINEMAX - 1) (tin w) = (line, rest)" by fastforce
    define v where "v = w\<lparr>tin := rest\<rparr>"
    have v: "same_setup u v" "candlist v = candlist u" "numvotes v = numvotes u"
      using w by (simp_all add: v_def w_def same_setup_def)
    show ?thesis
    proof (cases "says_yes (cstr line)")
      case True
      then have "record_vote e (v\<lparr>tout := tout v @ ''Recording vote...\<newline>''\<rparr>) = (r, t)"
        using run inp tl by (simp add: fgets_def bnd_def sq_def puts_run v_def)
      moreover have "same_setup u (v\<lparr>tout := tout v @ ''Recording vote...\<newline>''\<rparr>)"
        using v(1) by (simp add: same_setup_def)
      moreover have "tin u \<noteq> []" "take_line (LINEMAX - 1) (tin u) = (line, rest)" using inp tl by (simp_all add: w_def)
      ultimately show ?thesis
        using recorded [of "v\<lparr>tout := tout v @ ''Recording vote...\<newline>''\<rparr>" line] v(2) False True by (simp add: not_less v_def)
    next
      case no: False
      then have "restore_votes (map uvote cl) (v\<lparr>tout := tout v @ ''Previous vote (if any) unchanged.\<newline>''\<rparr>) = (r, t)"
        using run inp tl by (simp add: fgets_def bnd_def sq_def puts_run v_def)
      moreover have "map (\<lambda>c. c\<lparr>uvote := False\<rparr>) (candlist v) = map (\<lambda>c. c\<lparr>uvote := False\<rparr>) cl"
        using assms(2) v(2) by simp
      ultimately have "r = Ret ()" "fs t = fs v" "candlist t = cl"
        using restore_votes_run [of "v\<lparr>tout := tout v @ ''Previous vote (if any) unchanged.\<newline>''\<rparr>" cl]
        by auto
      then show ?thesis using declined v(1) False by (simp add: same_setup_def not_less)
    qed
  qed
qed

lemma display_candlist: "display name s = (r, t) \<Longrightarrow> candlist t = candlist s"
  by (auto simp: display_def votepause_def bnd_def sq_def fopen_r_def gets_def puts_run getchar_def
      exits_frame ret_def split: option.splits list.splits)

lemma ask_ballot_cases:
  assumes "ask_ballot s = (r, u)" "length (candlist s) = nat (numcand s)"
  shows "same_setup s u \<and> (\<forall>saved. r = Ret saved \<longrightarrow> saved = map uvote (candlist s) \<and> numvotes u = int (length (chosen (candlist u))))"
  using assms(1) unfolding ask_ballot_def
proof (cases rule: sq_cases)
  case (stop x)
  then show ?thesis using keepsD [OF setup_display(1) stop(1)] by blast
next
  case (step a s0)
  have s0: "same_setup s s0" "candlist s0 = candlist s"
    using keepsD [OF setup_display(1) step(1)] display_candlist [OF step(1)] by simp_all
  define s1 where "s1 = s0\<lparr>tout := tout s0 @ ''Vote for at most '' @ dec (numslots s0) @ '':\<newline>'', numvotes := 0\<rparr>"
  have s1: "same_setup s s1" "numvotes s1 = 0" "candlist s1 = candlist s0"
    using s0 by (simp_all add: s1_def same_setup_def)
  have "sq (ask_cands [0..<nat (numcand s0)]) (ret (map uvote (candlist s0))) s1 = (r, u)"
    using step(2) by (simp add: bnd_def sq_def gets_def puts_run upd_def s1_def)
  then show ?thesis
  proof (cases rule: sq_cases)
    case (stop x)
    then have "same_setup s1 u" using keepsD [OF setup_ask_cands stop(1)] by blast
    then show ?thesis using s1(1) stop(3) ballot.frame_trans by blast
  next
    case (step b v)
    then have v: "v = u" "r = Ret (map uvote (candlist s))" using s0(2) by (simp_all add: ret_def)
    have "same_setup s u" using keepsD [OF setup_ask_cands step(1)] s1(1) v ballot.frame_trans by blast
    moreover have "nat (numcand s0) = length (candlist s1)"
      using assms(2) s0 s1(3) by (simp add: same_setup_def)
    with step(1) v have "ask_cands [0..<length (candlist s1)] s1 = (Ret (), u)" by simp
    from ask_cands_count [OF this] s1(2) have "numvotes u = int (length (chosen (candlist u)))" by simp
    ultimately show ?thesis using v(2) by simp
  qed
qed

lemma vote_cases:
  assumes "vote e s = (r, t)" "length (candlist s) = nat (numcand s)"
  obtains (early) "same_setup s t" "r \<noteq> Ret ()"
    | (asked) u where "ask_ballot s = (Ret (map uvote (candlist s)), u)" "same_setup s u" "numvotes u = int (length (chosen (candlist u)))"
        "finish_vote e (map uvote (candlist s)) u = (r, t)"
  using assms(1) unfolding vote_def
proof (cases rule: bnd_cases)
  case (stop x)
  then show ?thesis using early ask_ballot_cases [OF stop(1) assms(2)] by blast
next
  case (step a u)
  then show ?thesis using asked ask_ballot_cases [OF step(1) assms(2)] by blast
qed

text \<open>Recording reads no input.\<close>

interpretation still: frame_rel "\<lambda>s t :: booth. tin t = tin s"
  by unfold_locales simp_all

lemma record_vote_reads_nothing: "keeps (\<lambda>s t. tin t = tin s) (record_vote e)"
proof -
  have f: "keeps (\<lambda>s t. tin t = tin s) (puts x :: unit boothp)" for x by (auto simp: keeps_def puts_run)
  have c: "keeps (\<lambda>s t. tin t = tin s) (chdir (site.truncate e) p :: bool boothp)"
    "keeps (\<lambda>s t. tin t = tin s) (chdir_into (site.truncate e) d :: bool boothp)"
    "keeps (\<lambda>s t. tin t = tin s) (chdir_up (site.truncate e) :: bool boothp)"
    "keeps (\<lambda>s t. tin t = tin s) (unlink (site.truncate e) d :: unit boothp)"
    "keeps (\<lambda>s t. tin t = tin s) (fwrite_file (site.truncate e) d x :: bool boothp)"
    "keeps (\<lambda>s t. tin t = tin s) (fappend_file (site.truncate e) d x :: bool boothp)" for p d x
    by (auto simp: keeps_def chdir_def chdir_into_def chdir_up_def unlink_def fwrite_file_def fappend_file_def upd_def Let_def split: if_splits)
  show ?thesis unfolding record_vote_def hashrec_def fail_with_def by (intro still.keeps_rules f c)
qed

text \<open>A recorded ballot always leaves a trace: the line added to the history.\<close>

lemma hashrec_adds:
  assumes "hashrec e user h s = (Ret (), t)"
  shows "fs t (HASHDIR @ [user]) \<noteq> fs s (HASHDIR @ [user])"
  using assms
  by (auto simp: hashrec_def bnd_def sq_def chdir_def chdir_into_def fappend_file_def exits_frame
      Let_def ret_def split: if_splits option.splits)

lemma record_vote_changes:
  assumes "record_vote e s = (Ret (), t)" "cwd s = BOARDDIR"
  shows "fs t (HASHDIR @ [pw_name s]) \<noteq> fs s (HASHDIR @ [pw_name s])"
proof -
  have ne: "vote_path (pw_name s) \<noteq> HASHDIR @ [pw_name s]" by (simp add: HASHDIR_def VOTEDIR_def)
  let ?u = "s\<lparr>cwd := BOARDDIR @ [VOTEDIR],
      fs := (fs s)(vote_path (pw_name s) \<mapsto> vote_text (candlist s))\<rparr>"
  obtain v where "hashrec e (pw_name s) (vote_hash (candlist s)) ?u = (Ret (), v)" "fs t = fs v"
    using assms
    by (auto simp: record_vote_def bnd_def sq_def chdir_into_def chdir_def gets_def unlink_def upd_def
        fwrite_file_def exits_frame undef_def chdir_up_def ret_def split: if_splits prod.splits outcome.splits)
  with hashrec_adds [of e "pw_name s" _ ?u v] ne show ?thesis by simp
qed

text \<open>
  C26: a ballot changes the files only when the voter confirmed it: after all questions were answered, with no more candidates
  marked than there are positions, the next line of the input was read and answers yes. Then the vote file is the
  list of the candidates marked by the answers. A ballot that returns without touching the files has put the
  earlier marks back.
\<close>

theorem ballot_respects_positions:
  assumes "vote e s = (r, t)" "cwd s = BOARDDIR" "length (candlist s) = nat (numcand s)"
  shows "(fs t \<noteq> fs s \<longrightarrow> (\<exists>u line. ask_ballot s = (Ret (map uvote (candlist s)), u) \<and>
            int (length (chosen (candlist u))) \<le> numslots s \<and>
            tin u \<noteq> [] \<and> take_line (LINEMAX - 1) (tin u) = (line, tin t) \<and> says_yes (cstr line) \<and>
            candlist t = candlist u \<and> fs t (vote_path (pw_name s)) = Some (vote_text (candlist u)))) \<and>
    (r = Ret () \<and> fs t = fs s \<longrightarrow> candlist t = candlist s)"
  using assms(1,3)
proof (cases rule: vote_cases)
  case early
  then show ?thesis by (simp add: same_setup_def)
next
  case (asked u)
  then have "map (\<lambda>c. c\<lparr>uvote := False\<rparr>) (candlist u) = map (\<lambda>c. c\<lparr>uvote := False\<rparr>) (candlist s)"
    by (simp add: same_setup_def)
  with asked(4) show ?thesis
  proof (cases rule: finish_vote_cases)
    case early
    then show ?thesis using asked(2) by (simp add: same_setup_def)
  next
    case undone
    then show ?thesis using asked(2) by (simp add: same_setup_def)
  next
    case declined
    then show ?thesis using asked(2) by (simp add: same_setup_def)
  next
    case (recorded v line)
    have v: "cwd v = BOARDDIR" "fs v = fs s" "pw_name v = pw_name s" "numslots u = numslots s"
      using recorded(1) asked(2) assms(2) by (simp_all add: same_setup_def)
    have "r \<noteq> Ret () \<or> fs t \<noteq> fs s"
      using record_vote_changes [of e v t] recorded(7) v by auto
    moreover have "tin t = tin v" using keepsD [OF record_vote_reads_nothing recorded(7)] .
    ultimately show ?thesis
      using record_vote_frame [OF recorded(7) v(1)] recorded(2-6) asked(1,3) v by auto
  qed
qed

text \<open>A voter who marks both candidates for the one position.\<close>

definition ballot_env :: booth_env where
  "ballot_env = \<lparr>enterable = (\<lambda>_. True), writable = (\<lambda>_. True), now = 50, now_text = ''today\<newline>'',
     draw = (\<lambda>_. 0), stmt_file = (\<lambda>_. None)\<rparr>"

definition ballot_start :: booth where
  "ballot_start = empty_booth\<lparr>tin := ''\<newline>y\<newline>y\<newline>y\<newline>'', fs := [BOARDDIR @ [''votemsg''] \<mapsto> []],
     candlist := map (\<lambda>c. c\<lparr>uvote := False\<rparr>) two_cands\<rparr>"

text \<open>And one who marks the first alone and confirms it.\<close>

definition ballot_yes :: booth where
  "ballot_yes = ballot_start\<lparr>tin := ''\<newline>y\<newline>n\<newline> Yes\<newline>''\<rparr>"

theorem ballot_respects_positions_witness:
  "fs (snd (vote ballot_env ballot_yes)) \<noteq> fs ballot_yes \<and>
   (\<exists>u line. ask_ballot ballot_yes = (Ret [False, False], u) \<and> take_line (LINEMAX - 1) (tin u) = (line, tin (snd (vote ballot_env ballot_yes))) \<and>
     says_yes (cstr line))"
proof -
  obtain r t where run: "vote ballot_env ballot_yes = (r, t)" by fastforce
  have "fs ballot_yes (vote_path (pw_name ballot_yes)) = None"
    by (simp add: ballot_yes_def ballot_start_def empty_booth_def VOTEDIR_def)
  moreover have "fs (snd (vote ballot_env ballot_yes)) (vote_path (pw_name ballot_yes)) \<noteq> None" by code_simp
  ultimately have "fs t \<noteq> fs ballot_yes" using run by auto
  then show ?thesis
    using ballot_respects_positions [OF run] run by (auto simp: ballot_yes_def ballot_start_def empty_booth_def two_cands_def)
qed

text \<open>
  A cancelled ballot leaves the count of the voter's votes at the number of marks refused, so
  the listing afterwards claims two votes while the voter has none.
\<close>

theorem cancelled_ballot_miscounts:
  "numvotes (snd (vote ballot_env ballot_start)) = 2 \<and>
   chosen (candlist (snd (vote ballot_env ballot_start))) = [] \<and>
   fst (vote ballot_env ballot_start) = Ret ()"
  by code_simp

end
