(* ===== verification/VoteBoardRuns.thy ===== *)
theory VoteBoardRuns
  imports VoteBoardFacts
begin

text \<open>
  Whole operations of the terminal voting booth: reading a well-formed candidate list gives every
  candidate one place and the voter's earlier marks, and every session ends.
\<close>

section \<open>The candidate list\<close>

type_synonym cand_entry = "string \<times> string \<times> string"

definition cand_line :: "cand_entry \<Rightarrow> string" where
  "cand_line l = (case l of (a, b, c) \<Rightarrow> a @ '':'' @ b @ '':'' @ c @ ''\<newline>'')"

definition plain_entry :: "cand_entry \<Rightarrow> bool" where
  "plain_entry l = (case l of (a, b, c) \<Rightarrow>
     a \<noteq> [] \<and> c \<noteq> [] \<and> wordlike b \<and> CHR '':'' \<notin> set a \<and> CHR '':'' \<notin> set b \<and>
     NL \<notin> set a \<and> NL \<notin> set c \<and> NUL \<notin> set a \<and> NUL \<notin> set c \<and>
     length a + length b + length c < 125)"

definition entry_room :: "cand_entry \<Rightarrow> nat" where
  "entry_room l = (case l of (a, b, c) \<Rightarrow> length a + length b + 2)"

definition cand_of :: "booth_env \<Rightarrow> cand_entry \<Rightarrow> cand" where
  "cand_of e l = (case l of (a, b, c) \<Rightarrow>
     \<lparr>descrip = a, dir = b, stmt = stmt_file e c, uvote = False\<rparr>)"

lemma wordlike_no: "wordlike b \<Longrightarrow> NL \<notin> set b \<and> NUL \<notin> set b \<and> b \<noteq> []"
  unfolding wordlike_def using isspace_blank(2) by blast

lemma strtok_token:
  "x \<noteq> [] \<Longrightarrow> d \<notin> set x \<Longrightarrow> strtok d (x @ d # rest) = Some (x, rest)"
proof -
  assume x: "x \<noteq> []" "d \<notin> set x"
  then have a: "dropWhile (\<lambda>c. c = d) (x @ d # rest) = x @ d # rest" by (cases x) auto
  have b: "takeWhile (\<lambda>c. c \<noteq> d) (x @ d # rest) = x" "dropWhile (\<lambda>c. c \<noteq> d) (x @ d # rest) = d # rest"
    using x by (auto simp: takeWhile_append dropWhile_append takeWhile_eq_all_conv)
  show ?thesis by (simp add: strtok_def Let_def a b)
qed

lemma cand_fields_line:
  assumes "plain_entry (a, b, c)"
  shows "cand_fields (cand_line (a, b, c)) = Some (a, b, c)"
proof -
  have "b \<noteq> []" using assms by (auto simp: plain_entry_def wordlike_def)
  then show ?thesis
    using assms strtok_token [of a "CHR '':''" "b @ '':'' @ c @ ''\<newline>''"]
      strtok_token [of b "CHR '':''" "c @ ''\<newline>''"] strtok_token [of c NL "[]"]
    by (simp add: cand_fields_def cand_line_def plain_entry_def)
qed

lemma put_item_fits: "length x < room \<Longrightarrow> put_item room x = Some (x, room - (length x + 1))"
  by (simp add: put_item_def strlcpy_fits)

fun place_all :: "booth_env \<Rightarrow> nat list \<Rightarrow> cand_entry list \<Rightarrow> cand list \<Rightarrow> cand list" where
  "place_all e (j # js) (l # ls) cl = place_all e js ls (cl[j := cand_of e l])"
| "place_all e js ls cl = cl"

lemma read_cands_lines:
  assumes "length js = length ls" "\<forall>l \<in> set ls. plain_entry l" "sum_list (map entry_room ls) \<le> room"
  shows "read_cands e js (concat (map cand_line ls) @ rest) room cl = ret (place_all e js ls cl)"
  using assms
proof (induction js ls arbitrary: room cl rule: list_induct2')
  case (4 j js l ls)
  obtain a b c where l: "l = (a, b, c)" by (cases l)
  have p: "plain_entry (a, b, c)" using 4 l by simp
  let ?body = "a @ '':'' @ b @ '':'' @ c"
  have nl: "NL \<notin> set ?body" "NUL \<notin> set ?body"
    using p wordlike_no [of b] by (simp_all add: plain_entry_def)
  have "length ?body < LINEMAX - 1" using p by (simp add: plain_entry_def LINEMAX_def)
  from take_line_whole [OF nl(1) this, of "concat (map cand_line ls) @ rest"]
  have tl: "take_line (LINEMAX - 1) (concat (map cand_line (l # ls)) @ rest) =
      (cand_line l, concat (map cand_line ls) @ rest)"
    by (simp add: l cand_line_def)
  have cs: "cstr (cand_line l) = cand_line l"
    using nl(2) by (intro cstr_id) (simp add: l cand_line_def)
  have ne: "concat (map cand_line (l # ls)) @ rest \<noteq> []" "cand_line l \<noteq> []" "last (cand_line l) = NL"
    by (simp_all add: l cand_line_def)
  have r: "length a < room" "length b < room - (length a + 1)"
    "sum_list (map entry_room ls) \<le> room - (length a + 1) - (length b + 1)"
    using 4(4) by (simp_all add: l entry_room_def [of "(a, b, c)"])
  have "read_cands e (j # js) (concat (map cand_line (l # ls)) @ rest) room cl =
      read_cands e js (concat (map cand_line ls) @ rest) (room - (length a + 1) - (length b + 1))
        (cl[j := cand_of e l])"
    using ne cand_fields_line [OF p] put_item_fits [OF r(1)] put_item_fits [OF r(2)]
    by (simp only: read_cands.simps tl [unfolded l] cs [unfolded l] Let_def case_prod_conv if_False not_True_eq_False
          option.case l cand_of_def simp_thms)
  also have "\<dots> = ret (place_all e js ls (cl[j := cand_of e l]))"
    using 4 r(3) by (intro 4(1)) simp_all
  finally show ?case by simp
qed auto

lemma place_all_nth:
  "length js = length ls \<Longrightarrow> distinct js \<Longrightarrow> \<forall>j \<in> set js. j < length cl \<Longrightarrow>
   length (place_all e js ls cl) = length cl \<and>
   (\<forall>k < length js. place_all e js ls cl ! (js ! k) = cand_of e (ls ! k)) \<and>
   (\<forall>i < length cl. i \<notin> set js \<longrightarrow> place_all e js ls cl ! i = cl ! i)"
proof (induction e js ls cl rule: place_all.induct)
  case (1 e j js l ls cl)
  let ?cl = "cl[j := cand_of e l]"
  from 1 have IH: "length (place_all e js ls ?cl) = length cl"
    "\<forall>k < length js. place_all e js ls ?cl ! (js ! k) = cand_of e (ls ! k)"
    "\<forall>i < length cl. i \<notin> set js \<longrightarrow> place_all e js ls ?cl ! i = ?cl ! i" by simp_all
  have "\<forall>k < length (j # js). place_all e js ls ?cl ! ((j # js) ! k) = cand_of e ((l # ls) ! k)"
    using IH(2,3) 1(3,4) by (auto simp: less_Suc_eq_0_disj)
  with IH 1(3,4) show ?case by (auto simp: nth_list_update)
qed auto

lemma mset_place_all:
  assumes "length ls = n"
  shows "mset (place_all e (rndorder d n) ls (replicate n no_cand)) = mset (map (cand_of e) ls)"
proof -
  let ?js = "rndorder d n" and ?cl = "place_all e (rndorder d n) ls (replicate n no_cand)"
  note f = rndorder_facts [of d n]
  have "length ?js = length ls" "\<forall>j \<in> set ?js. j < length (replicate n no_cand)"
    using f assms by auto
  from place_all_nth [OF this(1) f(2) this(2), of e]
  have pl: "length ?cl = n" "\<forall>k < n. ?cl ! (?js ! k) = cand_of e (ls ! k)" using f by simp_all
  have "map ((!) ?cl) ?js = map (cand_of e) ls"
    using pl f assms by (intro nth_equalityI) simp_all
  then have "mset (map (cand_of e) ls) = image_mset ((!) ?cl) (mset ?js)" by (metis mset_map)
  also have "mset ?js = mset [0..<n]"
    using f by (metis atLeast0LessThan mset_set_set mset_upt)
  also have "image_mset ((!) ?cl) (mset [0..<n]) = mset (map ((!) ?cl) [0..<n])" by simp
  also have "map ((!) ?cl) [0..<n] = ?cl" using pl(1) map_nth [of ?cl] by simp
  finally show ?thesis ..
qed

section \<open>Opening the booth\<close>

definition candlist_text :: "int \<Rightarrow> cand_entry list \<Rightarrow> string" where
  "candlist_text ns ls = dec (int (length ls)) @ NL # dec ns @ NL # concat (map cand_line ls)"

text \<open>The directory of an open poll.\<close>

definition poll_ready :: "booth_env \<Rightarrow> (path \<Rightarrow> string option) \<Rightarrow> int \<Rightarrow> cand_entry list \<Rightarrow> bool" where
  "poll_ready e f ns ls \<longleftrightarrow>
     enterable e BOARDDIR \<and> enterable e (BOARDDIR @ [VOTEDIR]) \<and>
     (\<exists>b c. f (BOARDDIR @ [''start'']) = Some (dec b @ NL # []) \<and>
            f (BOARDDIR @ [''end'']) = Some (dec c @ NL # []) \<and>
            in_long b \<and> in_long c \<and> b \<le> now e \<and> now e \<le> c) \<and>
     f (BOARDDIR @ [''candlist'']) = Some (candlist_text ns ls) \<and>
     0 \<le> ns \<and> ns \<le> 2147483647 \<and> length ls \<le> 50 \<and> (\<forall>l \<in> set ls. plain_entry l) \<and>
     distinct (map (\<lambda>(a, b, c). b) ls) \<and> sum_list (map entry_room ls) \<le> MAXBALLOT"

definition old_marks :: "(path \<Rightarrow> string option) \<Rightarrow> string \<Rightarrow> string list" where
  "old_marks f who = (case f (vote_path who) of None \<Rightarrow> [] | Some y \<Rightarrow> words y)"

lemma number_line_dec:
  assumes "0 \<le> v" "v \<le> 2147483647"
  shows "number_line (dec v @ NL # x) msg c s = (Ret (v, x), s)"
proof -
  have "scan_long (dec v @ NL # x) = ScanOk v (NL # x)"
    using assms by (intro scan_long_dec) (simp_all add: in_long_def LONG_MIN_def LONG_MAX_def isdigit_def)
  then show ?thesis
    using assms by (simp add: number_line_def scan_int_def s32_id ret_def)
qed

lemma mset_map_cong: "mset xs = mset ys \<Longrightarrow> mset (map f xs) = mset (map f ys)"
  by (metis mset_map)

text \<open>The list in random order, before and after the marks of the voter's file are put on it.\<close>

lemma placed_marked:
  fixes e :: booth_env and ls :: "cand_entry list"
  defines "cl \<equiv> place_all e (rndorder (draw e) (length ls)) ls (replicate (length ls) no_cand)"
  assumes ready: "distinct (map (\<lambda>(a, b, c). b) ls)" and marks: "\<forall>w \<in> set ws. wordlike w \<and> w \<in> (\<lambda>(a, b, c). b) ` set ls"
  shows "mark_votes ws (cl, 0) = Some (mark (set ws) cl, int (length ws))" "length cl = length ls"
    "mset (map (\<lambda>c. (descrip c, dir c, uvote c)) (mark (set ws) cl)) = mset (map (\<lambda>(a, b, c). (a, b, b \<in> set ws)) ls)"
proof -
  have m: "mset cl = mset (map (cand_of e) ls)" unfolding cl_def by (rule mset_place_all) simp
  have dirs: "dir ` set cl = (\<lambda>(a, b, c). b) ` set ls" "\<forall>c \<in> set cl. \<not> uvote c"
    using mset_eq_setD [OF m] by (simp_all add: image_image cand_of_def case_prod_unfold)
  have "mset (map dir cl) = mset (map (\<lambda>(a, b, c). b) ls)"
    using mset_map_cong [OF m, of dir] by (simp add: cand_of_def case_prod_unfold comp_def)
  then have dist: "distinct (map dir cl)" using ready by (metis mset_eq_imp_distinct_iff)
  show "mark_votes ws (cl, 0) = Some (mark (set ws) cl, int (length ws))"
    using mark_votes_words [OF dist, of ws "{}" 0] marks dirs(1) by (simp add: mark_def)
  show "length cl = length ls" using mset_eq_length [OF m] by simp
  have "map (\<lambda>c. (descrip c, dir c, uvote c)) (mark (set ws) cl) = map (\<lambda>c. (descrip c, dir c, dir c \<in> set ws)) cl"
    using dirs(2) by (auto simp: mark_def)
  then show "mset (map (\<lambda>c. (descrip c, dir c, uvote c)) (mark (set ws) cl)) = mset (map (\<lambda>(a, b, c). (a, b, b \<in> set ws)) ls)"
    using mset_map_cong [OF m, of "\<lambda>c. (descrip c, dir c, dir c \<in> set ws)"] by (simp add: cand_of_def case_prod_unfold comp_def)
qed

text \<open>A ready poll is read and marked without a way out.\<close>

lemma getcands_run:
  assumes ready: "poll_ready e (fs s) ns ls"
    and marks: "\<forall>w \<in> set (old_marks (fs s) (pw_name s)). wordlike w \<and> w \<in> (\<lambda>(a, b, c). b) ` set ls"
  shows "getcands e s = (Ret (), s\<lparr>cwd := BOARDDIR, numcand := int (length ls), numslots := ns,
    candlist := mark (set (old_marks (fs s) (pw_name s))) (place_all e (rndorder (draw e) (length ls)) ls (replicate (length ls) no_cand)),
    numvotes := int (length (old_marks (fs s) (pw_name s)))\<rparr>)"
proof -
  let ?n = "int (length ls)" and ?ws = "old_marks (fs s) (pw_name s)"
  let ?e = "site.truncate e"
  let ?cl = "place_all e (rndorder (draw e) (length ls)) ls (replicate (length ls) no_cand)"
  obtain b c where bc: "fs s (BOARDDIR @ [''start'']) = Some (dec b @ NL # [])"
    "fs s (BOARDDIR @ [''end'']) = Some (dec c @ NL # [])" "in_long b" "in_long c"
    "b \<le> now e" "now e \<le> c" using ready by (auto simp: poll_ready_def)
  let ?s1 = "s\<lparr>cwd := BOARDDIR\<rparr>"
  have e1: "chdir ?e BOARDDIR s = (Ret True, ?s1)"
    using ready by (simp add: chdir_def poll_ready_def site.truncate_def)
  have e2: "polls_open ?e ?s1 = (Ret True, ?s1)"
    using polls_open_exact [of ?s1 b "[]" c "[]" ?e] bc by (simp add: site.truncate_def)
  have e3: "fopen_r ''candlist'' ?s1 = (Ret (Some (candlist_text ns ls)), ?s1)"
    using ready by (simp add: fopen_r_def gets_def poll_ready_def)
  have n50: "?n \<le> 2147483647" "\<not> MAXCAND < ?n" using ready by (simp_all add: poll_ready_def MAXCAND_def)
  let ?s2 = "?s1\<lparr>numcand := ?n\<rparr>" and ?x = "concat (map cand_line ls)"
  let ?s3 = "?s2\<lparr>numslots := ns\<rparr>"
  have e4: "number_line (candlist_text ns ls) m k ?s1 = (Ret (?n, dec ns @ NL # ?x), ?s1)" for m k
    using number_line_dec [of ?n] n50 by (simp add: candlist_text_def)
  have e5: "number_line (dec ns @ NL # ?x) m k ?s2 = (Ret (ns, ?x), ?s2)" for m k
    using number_line_dec [of ns] ready by (simp add: poll_ready_def)
  have e6: "read_cands e (rndorder (draw e) (length ls)) ?x MAXBALLOT (replicate (length ls) no_cand) ?s3 =
      (Ret ?cl, ?s3)"
    using read_cands_lines [of "rndorder (draw e) (length ls)" ls MAXBALLOT e "[]"] ready
    by (simp add: poll_ready_def rndorder_facts ret_def)
  let ?s4 = "?s3\<lparr>cwd := BOARDDIR @ [VOTEDIR]\<rparr>"
  have e7: "chdir_into ?e VOTEDIR ?s3 = (Ret True, ?s4)"
    using ready by (simp add: chdir_into_def chdir_def poll_ready_def site.truncate_def)
  have "distinct (map (\<lambda>(a, b, c). b) ls)" using ready by (simp add: poll_ready_def)
  note e8 = placed_marked(1) [OF this marks, of e]
  let ?s5 = "?s4\<lparr>candlist := mark (set ?ws) ?cl, numvotes := int (length ?ws)\<rparr>"
  let ?t = "?s5\<lparr>cwd := BOARDDIR\<rparr>"
  have e9: "fopen_r (pw_name ?s4) ?s4 = (Ret (fs s (vote_path (pw_name s))), ?s4)"
    by (simp add: fopen_r_def gets_def)
  have e10: "mark_votes (case fs s (vote_path (pw_name s)) of None \<Rightarrow> [] | Some y \<Rightarrow> words y) (?cl, 0) =
      Some (mark (set ?ws) ?cl, int (length ?ws))"
    using e8 by (simp add: old_marks_def)
  have e11: "chdir_up ?e ?s5 = (Ret True, ?t)"
    using ready by (simp add: chdir_up_def chdir_def poll_ready_def site.truncate_def)
  have "getcands e s = (Ret (), ?t)"
    unfolding getcands_def
    by (rule bnd_then, rule e1, simp only: not_True_eq_False if_False,
        rule bnd_then, rule e2, simp only: not_True_eq_False if_False,
        rule bnd_then, rule e3, simp only: option.case,
        rule bnd_then, rule e4, simp only: case_prod_conv,
        rule sq_then, rule upd_run,
        rule bnd_then, rule e5, simp only: case_prod_conv,
        rule sq_then, rule upd_run, simp only: n50(2) if_False nat_int,
        rule bnd_then, rule e6,
        rule bnd_then, rule e7, simp only: not_True_eq_False if_False,
        rule bnd_then, rule gets_run, rule bnd_then, rule e9,
        simp only: e10 option.case case_prod_conv,
        rule sq_then, rule upd_run, rule sq_then, rule e11, simp add: ret_def)
  then show ?thesis by simp
qed

text \<open>
  C27: on a well-formed poll the booth opens: every candidate of the file has exactly one place in
  the listing, with a mark exactly when the voter's file names the candidate, and the count of
  votes is the number of names in that file.
\<close>

theorem getcands_lists_everyone:
  assumes ready: "poll_ready e (fs s) ns ls"
    and marks: "\<forall>w \<in> set (old_marks (fs s) (pw_name s)). wordlike w \<and> w \<in> (\<lambda>(a, b, c). b) ` set ls"
  shows "\<exists>t. getcands e s = (Ret (), t) \<and> cwd t = BOARDDIR \<and> fs t = fs s \<and>
     numcand t = int (length ls) \<and> numslots t = ns \<and>
     numvotes t = int (length (old_marks (fs s) (pw_name s))) \<and> length (candlist t) = length ls \<and>
     mset (map (\<lambda>c. (descrip c, dir c, uvote c)) (candlist t)) =
       mset (map (\<lambda>(a, b, c). (a, b, b \<in> set (old_marks (fs s) (pw_name s)))) ls)"
proof -
  have "distinct (map (\<lambda>(a, b, c). b) ls)" using ready by (simp add: poll_ready_def)
  note placed = placed_marked [OF this marks, of e]
  have "length (mark A l) = length l" for A l by (simp add: mark_def)
  then show ?thesis using getcands_run [OF ready marks] placed by simp
qed

definition sample_poll :: "path \<Rightarrow> string option" where
  "sample_poll = [BOARDDIR @ [''start''] \<mapsto> dec 10 @ [NL], BOARDDIR @ [''end''] \<mapsto> dec 60 @ [NL],
     BOARDDIR @ [''candlist''] \<mapsto> candlist_text 1 [(''Ann'', ''ann'', ''/a''), (''Bob'', ''bob'', ''/b'')],
     vote_path ''joe'' \<mapsto> ''bob\<newline>'']"

lemma sample_poll_ready:
  "poll_ready ballot_env sample_poll 1 [(''Ann'', ''ann'', ''/a''), (''Bob'', ''bob'', ''/b'')]"
proof -
  have "\<exists>b c. sample_poll (BOARDDIR @ [''start'']) = Some (dec b @ NL # []) \<and>
      sample_poll (BOARDDIR @ [''end'']) = Some (dec c @ NL # []) \<and>
      in_long b \<and> in_long c \<and> b \<le> now ballot_env \<and> now ballot_env \<le> c"
    by (intro exI [of _ 10] exI [of _ 60])
       (simp add: sample_poll_def ballot_env_def VOTEDIR_def in_long_def LONG_MIN_def LONG_MAX_def)
  then show ?thesis
    by (simp add: poll_ready_def sample_poll_def ballot_env_def VOTEDIR_def plain_entry_def
        wordlike_def LINEMAX_def MAXBALLOT_def entry_room_def isspace_def)
qed

lemma words_one: "words (''bob\<newline>'') = [''bob'']"
  using words_cons [of "''bob''" "''\<newline>''"] words_blank [of "''\<newline>''"]
  by (simp add: wordlike_def LINEMAX_def isspace_def)

theorem getcands_lists_everyone_witness:
  "\<exists>t. getcands ballot_env (empty_booth\<lparr>fs := sample_poll\<rparr>) = (Ret (), t) \<and>
     mset (map (\<lambda>c. (descrip c, dir c, uvote c)) (candlist t)) =
       {# (''Ann'', ''ann'', False), (''Bob'', ''bob'', True) #} \<and> numvotes t = 1"
proof -
  let ?s = "empty_booth\<lparr>fs := sample_poll\<rparr>"
  let ?ls = "[(''Ann'', ''ann'', ''/a''), (''Bob'', ''bob'', ''/b'')]"
  have m: "old_marks sample_poll (pw_name empty_booth) = [''bob'']"
    using words_one by (simp add: old_marks_def sample_poll_def empty_booth_def VOTEDIR_def)
  have "wordlike ''bob''" by (simp add: wordlike_def LINEMAX_def isspace_def)
  then have "\<forall>w \<in> set (old_marks (fs ?s) (pw_name ?s)). wordlike w \<and> w \<in> (\<lambda>(a, b, c). b) ` set ?ls"
    by (simp add: m)
  from getcands_lists_everyone [of ballot_env ?s 1 ?ls, OF _ this] sample_poll_ready
  obtain t where "getcands ballot_env ?s = (Ret (), t)"
    "numvotes t = int (length (old_marks (fs ?s) (pw_name ?s)))"
    "mset (map (\<lambda>c. (descrip c, dir c, uvote c)) (candlist t)) =
       mset (map (\<lambda>(a, b, c). (a, b, b \<in> set (old_marks (fs ?s) (pw_name ?s)))) ?ls)"
    by auto
  then show ?thesis by (simp add: m)
qed

section \<open>Every session ends\<close>

lemma booth_exits_consume: "keeps consumes (fail_with msg c)" "keeps consumes bye" "keeps consumes eof_bye"
  unfolding eof_bye_def bye_def fail_with_def by (intro eats.keeps_rules puts_consumes)+

lemmas booth_io = puts_consumes fgets_consumes getchar_consumes skip_line_consumes file_ops_consume
  booth_exits_consume

lemma pause_consumes: "keeps consumes votepause" "keeps consumes (display name)"
  unfolding votepause_def display_def by (intro eats.keeps_rules booth_io)+

lemma booth_upd_consumes: "(\<And>s. tin (f s) = tin s) \<Longrightarrow> keeps consumes (upd f)"
  by (auto simp: consumes_def intro!: eats.keeps_upd)

lemma ask_cands_consumes: "keeps consumes (ask_cands ks)"
proof (induction ks)
  case (Cons i ks)
  then show ?case
    unfolding ask_cands.simps by (intro eats.keeps_rules booth_io booth_upd_consumes) simp_all
qed (simp add: eats.keeps_ret)

lemma ballot_consumes:
  "keeps consumes (restore_votes vs)" "keeps consumes (hashrec e user h)"
  "keeps consumes (record_vote e)" "keeps consumes (finish_vote e vs)" "keeps consumes (vote e)"
proof -
  show r: "keeps consumes (restore_votes vs)" for vs
    unfolding restore_votes_def by (rule booth_upd_consumes) simp
  show h: "keeps consumes (hashrec e user h)" for e user h
    unfolding hashrec_def by (intro eats.keeps_rules booth_io)
  show rec: "keeps consumes (record_vote e)" for e
    unfolding record_vote_def by (intro eats.keeps_rules booth_io h)
  show f: "keeps consumes (finish_vote e vs)" for e vs
    unfolding finish_vote_def by (intro eats.keeps_rules booth_io r rec)
  show "keeps consumes (vote e)"
    unfolding vote_def ask_ballot_def
    by (intro eats.keeps_rules booth_io pause_consumes ask_cands_consumes f booth_upd_consumes) simp
qed

lemma screens_consume:
  "keeps consumes listcands" "keeps consumes (dispstmt i)" "keeps consumes (stmt_round ix)" "keeps consumes stmtmenu"
proof -
  show "keeps consumes listcands"
    unfolding listcands_def by (intro eats.keeps_rules booth_io pause_consumes)
  show d: "keeps consumes (dispstmt i)" for i
    unfolding dispstmt_def by (intro eats.keeps_rules booth_io)
  show r: "keeps consumes (stmt_round ix)" for ix
    unfolding stmt_round_def Let_def by (intro eats.keeps_rules booth_io pause_consumes d)
  show "keeps consumes stmtmenu"
    unfolding stmtmenu_def by (intro eats.keeps_rules booth_io eats.keeps_iter r)
qed

text \<open>A program that reads a line first and then only consumes is a shrinking one.\<close>

lemma line_first_shrinks:
  assumes run: "bnd (fgets n) (\<lambda>l. case l of None \<Rightarrow> m | Some x \<Rightarrow> k x) s = (Ret a, t)"
    and k: "\<And>x. keeps consumes (k x)" and m: "\<And>s b. fst (m s) \<noteq> Ret b" and n: "1 < n"
  shows "length (tin t) < length (tin s)"
proof (cases "tin s = []")
  case True
  then have "m s = (Ret a, t)" using run by (simp add: fgets_def bnd_def)
  with m [of s a] show ?thesis by simp
next
  case False
  obtain x u where f: "fgets n s = (Ret (Some x), u)"
    using False by (cases "take_line (n - 1) (tin s)") (auto simp: fgets_def)
  then have "k x u = (Ret a, t)" using run by (simp add: bnd_def)
  then have "length (tin t) \<le> length (tin u)" using k [of x] by (simp add: keeps_def consumes_def)
  with fgets_shrinks [OF f n] show ?thesis by simp
qed

lemma bye_never_returns: "fst (sq (puts x) bye s) \<noteq> Ret b"
  by (simp add: bye_def exits_frame sq_def bnd_def puts_run)

lemma booth_fuelled_basic:
  "fuelled (puts x)" "fuelled (fgets n)" "fuelled getchar" "fuelled (fail_with msg c)"
  "fuelled bye" "fuelled eof_bye" "fuelled (polls_open d)" "fuelled (number_line x msg c)"
proof -
  show io: "fuelled (puts x)" "fuelled (fgets n)" "fuelled getchar" for x n
    by (auto simp: fuelled_def puts_def upd_def fgets_def getchar_def split: prod.split list.split)
  show f: "fuelled (fail_with msg c)" for msg c
    unfolding fail_with_def by (intro fuelled_rules io)
  show b: "fuelled bye" unfolding bye_def by (rule f)
  show "fuelled eof_bye" unfolding eof_bye_def by (intro fuelled_rules io b)
  show "fuelled (polls_open d)"
    unfolding polls_open_def fuelled_def
    by (auto simp: bnd_def sq_def fopen_r_def gets_def puts_def upd_def ret_def undef_def
        split: option.split scan.split)
  show "fuelled (number_line x msg c)"
    unfolding number_line_def by (cases "scan_int x") (auto intro!: fuelled_rules f)
qed

lemmas booth_fuelled = booth_fuelled_basic file_ops_fuelled

lemma ballot_fuelled: "fuelled (display name)" "fuelled votepause" "fuelled (ask_cands ks)" "fuelled (vote e)"
proof -
  show p: "fuelled votepause" unfolding votepause_def by (intro fuelled_rules booth_fuelled)
  show d: "fuelled (display name)" for name
    unfolding display_def by (intro fuelled_rules booth_fuelled p)
  show a: "fuelled (ask_cands ks)" for ks
  proof (induction ks)
    case (Cons i ks)
    then show ?case unfolding ask_cands.simps by (intro fuelled_rules booth_fuelled)
  qed (simp add: fuelled_basic)
  show "fuelled (vote e)"
    unfolding vote_def ask_ballot_def finish_vote_def record_vote_def hashrec_def restore_votes_def
    by (intro fuelled_rules booth_fuelled p d a)
qed

lemma screens_fuelled: "fuelled listcands" "fuelled (dispstmt i)" "fuelled (stmt_round ix)"
proof -
  show "fuelled listcands"
    unfolding listcands_def by (intro fuelled_rules booth_fuelled ballot_fuelled)
  show d: "fuelled (dispstmt i)" for i
    unfolding dispstmt_def by (intro fuelled_rules booth_fuelled)
  show "fuelled (stmt_round ix)"
    unfolding stmt_round_def Let_def by (intro fuelled_rules booth_fuelled ballot_fuelled d)
qed

lemma stmt_round_shrinks:
  assumes "stmt_round ix s = (Ret True, t)"
  shows "length (tin t) < length (tin s)"
proof -
  let ?k = "\<lambda>line. let select = (case scan_int line of ScanOk v _ \<Rightarrow> v | _ \<Rightarrow> 0) in
          if select \<le> 0 \<or> select > int (length ix) then ret False
          else sq (dispstmt (ix ! nat (select - 1))) (sq votepause (sq (puts ''\<newline>'') (ret True)))"
  obtain x where "stmt_round ix s =
      bnd (fgets LINEMAX) (\<lambda>l. case l of None \<Rightarrow> sq (puts ''\<newline>'') bye | Some x \<Rightarrow> ?k x) (s\<lparr>tout := x\<rparr>)"
    by (rule that, unfold stmt_round_def, rule bnd_then, rule gets_run, rule sq_then, rule puts_run, rule refl)
  with assms have "bnd (fgets LINEMAX)
      (\<lambda>l. case l of None \<Rightarrow> sq (puts ''\<newline>'') bye | Some x \<Rightarrow> ?k x) (s\<lparr>tout := x\<rparr>) = (Ret True, t)" by simp
  moreover have "keeps consumes (?k line)" for line
    unfolding Let_def by (intro eats.keeps_rules booth_io pause_consumes screens_consume)
  ultimately have "length (tin t) < length (tin (s\<lparr>tout := x\<rparr>))"
    by (rule line_first_shrinks) (rule bye_never_returns, simp add: LINEMAX_def)
  then show ?thesis by simp
qed

interpretation stmt_loop: shrinking_body "stmt_round ix" "\<lambda>s. length (tin s)" for ix
  using screens_fuelled(3) by unfold_locales (auto simp: fuelled_def stmt_round_shrinks)

lemma stmtmenu_fuelled: "fuelled stmtmenu"
  unfolding stmtmenu_def by (intro fuelled_rules booth_fuelled stmt_loop.fuelled_iter) simp

lemma menu_round_fuelled: "fuelled (menu_round e)"
proof -
  have "fuelled (case scan_int line of
       ScanOk v _ \<Rightarrow>
         if v < 1 \<or> 5 < v then sq (puts ''Invalid option.\<newline>'') (ret True)
         else if v = 1 then sq (display ''info.txt'') (ret True)
         else if v = 2 then sq listcands (ret True)
         else if v = 3 then sq stmtmenu (ret True)
         else if v = 4 then sq (vote e) (ret True)
         else bye
     | _ \<Rightarrow> sq (puts ''Invalid option.\<newline>'') (ret True))" for line
    by (cases "scan_int line")
       (auto intro!: fuelled_rules booth_fuelled ballot_fuelled screens_fuelled stmtmenu_fuelled)
  then show ?thesis unfolding menu_round_def by (intro fuelled_rules booth_fuelled)
qed

lemma menu_round_shrinks:
  assumes "menu_round e s = (Ret True, t)"
  shows "length (tin t) < length (tin s)"
proof -
  let ?k = "\<lambda>line. case scan_int line of
       ScanOk v _ \<Rightarrow>
         if v < 1 \<or> 5 < v then sq (puts ''Invalid option.\<newline>'') (ret True)
         else if v = 1 then sq (display ''info.txt'') (ret True)
         else if v = 2 then sq listcands (ret True)
         else if v = 3 then sq stmtmenu (ret True)
         else if v = 4 then sq (vote e) (ret True)
         else bye
     | _ \<Rightarrow> sq (puts ''Invalid option.\<newline>'') (ret True)"
  have "bnd (fgets LINEMAX) (\<lambda>l. case l of None \<Rightarrow> sq (puts ''\<newline>'') bye | Some x \<Rightarrow> ?k x)
      (s\<lparr>tout := tout s @ menu_text\<rparr>) = (Ret True, t)"
    using assms by (simp add: menu_round_def sq_run(1) [OF puts_run])
  moreover have "keeps consumes (?k line)" for line
    by (cases "scan_int line")
       (auto intro!: eats.keeps_rules booth_io pause_consumes screens_consume ballot_consumes)
  ultimately have "length (tin t) < length (tin (s\<lparr>tout := tout s @ menu_text\<rparr>))"
    by (rule line_first_shrinks) (rule bye_never_returns, simp add: LINEMAX_def)
  then show ?thesis by simp
qed

interpretation menu_loop: shrinking_body "menu_round e" "\<lambda>s. length (tin s)" for e
  using menu_round_fuelled by unfold_locales (auto simp: fuelled_def menu_round_shrinks)

lemma read_cands_fuelled: "fuelled (read_cands e js rest room cl)"
proof (induction e js rest room cl rule: read_cands.induct)
  case (2 e j js rest room cl)
  then show ?case
    unfolding read_cands.simps Let_def by (intro fuelled_rules booth_fuelled) auto
qed (simp add: fuelled_basic)

lemma getcands_fuelled: "fuelled (getcands e)"
  unfolding getcands_def by (intro fuelled_rules booth_fuelled read_cands_fuelled)

text \<open>
  A session of the booth never runs on for ever of itself: with any input, files and candidates
  it ends by exit, or it searches for a line end the candidate list does not have, or it meets
  undefined behaviour; the fuel of the menus' models is never used up, and main does not return.
\<close>

theorem board_main_ends:
  "(\<exists>c t. board_main e uid acct s = (Exit c, t)) \<or> (\<exists>t. board_main e uid acct s = (Hang, t)) \<or>
   (\<exists>t. board_main e uid acct s = (Undef, t))"
proof -
  have "fuelled (board_main e uid acct)"
    unfolding board_main_def menu_def validate_def
    by (intro fuelled_rules booth_fuelled getcands_fuelled menu_loop.fuelled_iter) simp
  moreover have "no_return (board_main e uid acct)"
    unfolding board_main_def by (intro no_return_rules)
  moreover obtain r t where "board_main e uid acct s = (r, t)" by fastforce
  ultimately show ?thesis
    by (cases r) (auto simp: fuelled_def no_return_def dest!: spec [of _ s])
qed

end
