(* ===== verification/VoteLib.thy ===== *)
theory VoteLib
  imports VoteBoardRuns
begin

text \<open>
  The library of the web voting programs, \<open>soft/apps/vote/src/vote.c\<close>: reading the election's data
  for a voter and recording a vote, with its error codes. Files are read into buffers that have no
  terminating NUL, so a search that leaves the buffer is undefined behaviour here.
\<close>

section \<open>State\<close>

record candrec =
  cr_name :: string
  logid :: string
  cr_stmt :: string
  votefor :: bool

record voterec =
  vr_voter :: string
  vr_title :: string
  vr_info :: string
  vr_nslots :: int
  clist :: "candrec list"

record poll = place +
  voter :: string
  nobody :: bool
  err :: int

record poll_env = site +
  poll_draw :: "nat \<Rightarrow> int"
  poll_uid :: int
  account :: "string option"
  remote_user :: "string option"
  vote_dir :: "path option"
  openable :: "path \<Rightarrow> bool"
  can_alloc :: "int \<Rightarrow> bool"

type_synonym ('a, 'm) pollp = "('a, 'm poll_scheme) prog"

definition NOBODY_UID :: int where "NOBODY_UID = 67"

definition ERR_VALID :: int where "ERR_VALID = 1"
definition ERR_VOTEREC_ALLOC :: int where "ERR_VOTEREC_ALLOC = 2"
definition ERR_NOTITLE :: int where "ERR_NOTITLE = 3"
definition ERR_NOINFO :: int where "ERR_NOINFO = 4"
definition ERR_CDVOTEDIR :: int where "ERR_CDVOTEDIR = 5"
definition ERR_STATFILE :: int where "ERR_STATFILE = 6"
definition ERR_ALLOCFILE :: int where "ERR_ALLOCFILE = 7"
definition ERR_OPENFILE :: int where "ERR_OPENFILE = 8"
definition ERR_OPENCANDLIST :: int where "ERR_OPENCANDLIST = 13"
definition ERR_ALLOCCANDLIST :: int where "ERR_ALLOCCANDLIST = 14"
definition ERR_CANDFMT :: int where "ERR_CANDFMT = 15"
definition ERR_CDVOTES :: int where "ERR_CDVOTES = 16"
definition ERR_PERMUTE :: int where "ERR_PERMUTE = 17"
definition ERR_WRTVOTE :: int where "ERR_WRTVOTE = 18"
definition ERR_CDHIST :: int where "ERR_CDHIST = 19"
definition ERR_WRTHIST :: int where "ERR_WRTHIST = 20"
definition ERR_POLLS_CLOSED :: int where "ERR_POLLS_CLOSED = 21"

abbreviation the_site :: "'e site_scheme \<Rightarrow> site" where "the_site e \<equiv> site.truncate e"

text \<open>Set the error code and give the value that reports it.\<close>

definition set_err :: "int \<Rightarrow> 'a \<Rightarrow> ('a, 'm) pollp" where
  "set_err c v = sq (upd (\<lambda>s. s\<lparr>err := c\<rparr>)) (ret v)"

definition getfile :: "'e poll_env_scheme \<Rightarrow> string \<Rightarrow> (string option, 'm) pollp" where
  "getfile e name = bnd (gets (\<lambda>s. (fs s (cwd s @ [name]), cwd s @ [name]))) (\<lambda>(f, p). case f of
     None \<Rightarrow> set_err ERR_STATFILE None
   | Some x \<Rightarrow> if \<not> can_alloc e (int (length x) + 1) then set_err ERR_ALLOCFILE None
       else if \<not> openable e p then set_err ERR_OPENFILE None
       else set_err 0 (Some x))"

text \<open>The web server's word for the voter when running as nobody, the account otherwise.\<close>

definition validate_voter :: "'e poll_env_scheme \<Rightarrow> (string option, 'm) pollp" where
  "validate_voter e =
     (let web = (poll_uid e = NOBODY_UID);
          who = (if web then remote_user e else if poll_uid e = 0 then None else account e)
      in sq (upd (\<lambda>s. s\<lparr>nobody := web, voter := (case who of None \<Rightarrow> [] | Some v \<Rightarrow> v)\<rparr>))
         (set_err (if who = None then ERR_VALID else 0) who))"

section \<open>Recording\<close>

definition cr_chosen :: "candrec list \<Rightarrow> candrec list" where
  "cr_chosen = filter votefor"

definition cr_hash :: "candrec list \<Rightarrow> int" where
  "cr_hash cr = sum_list (map (\<lambda>c. sum_list (map schar (logid c))) (cr_chosen cr))"

definition cr_text :: "candrec list \<Rightarrow> string" where
  "cr_text cr = concat (map (\<lambda>c. pad_right 32 (logid c) @ ''\<newline>'') (cr_chosen cr))"

text \<open>The result is the C function's: 0, or 1 with the error code set.\<close>

definition record_votes :: "'e poll_env_scheme \<Rightarrow> candrec list \<Rightarrow> (int, 'm) pollp" where
  "record_votes e cr =
     bnd (chdir_into (the_site e) ''votes'') (\<lambda>ok. if \<not> ok then set_err ERR_CDVOTES 1 else
     bnd (gets voter) (\<lambda>me.
     sq (unlink (the_site e) me)
     (sq (puts (''<P>'' @ me @ ''</P>\<newline>''))
     (bnd (fwrite_file (the_site e) me (cr_text cr)) (\<lambda>ok2. if \<not> ok2 then set_err ERR_WRTVOTE 1 else
     sq (chdir_up (the_site e))
     (bnd (chdir_into (the_site e) ''.vdir'') (\<lambda>ok3. if \<not> ok3 then set_err ERR_CDHIST 1 else
     bnd (fappend_file (the_site e) me ((if poll_uid e = NOBODY_UID then ''W'' else [])
            @ dec (cr_hash cr) @ '' '' @ now_text e)) (\<lambda>ok4.
       sq (chdir_up (the_site e)) (if \<not> ok4 then set_err ERR_WRTHIST 1 else set_err 0 0)))))))))"

section \<open>Reading\<close>

definition alphanum :: string where
  "alphanum = ''abcdefghijklmnopqrstuvwxyz0123456789''"

text \<open>
  1 when a line of the voter's file, cut after its first run of lower-case letters and digits, is
  the login; 0 when none is; -1 when the votes directory cannot be entered.
\<close>

definition line_names :: "string \<Rightarrow> string \<Rightarrow> bool" where
  "line_names login piece \<longleftrightarrow> span_in alphanum (cstr piece) = login"

definition votedfor :: "'e poll_env_scheme \<Rightarrow> string \<Rightarrow> (int, 'm) pollp" where
  "votedfor e login =
     bnd (chdir_into (the_site e) ''votes'') (\<lambda>ok. if \<not> ok then set_err ERR_CDVOTES (-1) else
     bnd (gets voter) (\<lambda>me. bnd (fopen_r me) (\<lambda>f.
     sq (chdir_up (the_site e))
        (ret (case f of None \<Rightarrow> 0
              | Some x \<Rightarrow> if \<exists>p \<in> set (pieces 79 x). line_names login p then 1 else 0)))))"

text \<open>A field of the candidate list up to a separator.\<close>

definition take_field :: "char \<Rightarrow> string \<Rightarrow> ((string \<times> string) option, 'm) pollp" where
  "take_field c x = (case look_for c x of
     Found a b \<Rightarrow> ret (Some (a, b)) | Absent \<Rightarrow> set_err ERR_CANDFMT None | Overrun \<Rightarrow> undef)"

definition take_number :: "string \<Rightarrow> ((int \<times> string) option, 'm) pollp" where
  "take_number x = bnd (take_field NL x) (\<lambda>r. case r of
     None \<Rightarrow> ret None
   | Some (a, b) \<Rightarrow> (case scan_int (cstr a) of
       ScanOk v _ \<Rightarrow> ret (Some (v, b)) | _ \<Rightarrow> set_err ERR_CANDFMT None))"

fun read_clist :: "'e poll_env_scheme \<Rightarrow> nat list \<Rightarrow> string \<Rightarrow> candrec list \<Rightarrow> (candrec list option, 'm) pollp" where
  "read_clist e [] x cl = ret (Some cl)"
| "read_clist e (j # js) x cl =
     bnd (take_field CHR '':'' x) (\<lambda>r1. case r1 of None \<Rightarrow> ret None | Some (a, x1) \<Rightarrow>
     bnd (take_field CHR '':'' x1) (\<lambda>r2. case r2 of None \<Rightarrow> ret None | Some (b, x2) \<Rightarrow>
     bnd (take_field NL x2) (\<lambda>r3. case r3 of None \<Rightarrow> ret None | Some (c, x3) \<Rightarrow>
     bnd (votedfor e b) (\<lambda>v. if v = -1 then ret None else
       read_clist e js x3 (cl[j := \<lparr>cr_name = a, logid = b, cr_stmt = c, votefor = (v = 1)\<rparr>])))))"

definition no_candrec :: candrec where
  "no_candrec = \<lparr>cr_name = [], logid = [], cr_stmt = [], votefor = False\<rparr>"

text \<open>
  With a negative number of candidates the permutation cannot be allocated, and the function
  leaves its result uninitialised.
\<close>

definition read_candidates :: "'e poll_env_scheme \<Rightarrow> ((int \<times> candrec list) option, 'm) pollp" where
  "read_candidates e = bnd (getfile e ''candlist'') (\<lambda>f. case f of
     None \<Rightarrow> set_err ERR_OPENCANDLIST None
   | Some x \<Rightarrow> bnd (take_number x) (\<lambda>r. case r of None \<Rightarrow> ret None | Some (nc, x1) \<Rightarrow>
       bnd (take_number x1) (\<lambda>q. case q of None \<Rightarrow> ret None | Some (ns, x2) \<Rightarrow>
       if nc < 0 \<or> \<not> can_alloc e (4 * nc) then sq (upd (\<lambda>s. s\<lparr>err := ERR_PERMUTE\<rparr>)) undef
       else if \<not> can_alloc e (32 * nc) then set_err ERR_ALLOCCANDLIST None
       else bnd (read_clist e (rndorder (poll_draw e) (nat nc)) x2 (replicate (nat nc) no_candrec))
              (\<lambda>cl. ret (map_option (\<lambda>c. (ns, c)) cl)))))"

definition VDIR_DFLT :: path where "VDIR_DFLT = [''var'', ''spool'', ''vote'']"

definition read_election :: "'e poll_env_scheme \<Rightarrow> string \<Rightarrow> (voterec option, 'm) pollp" where
  "read_election e me =
     bnd (getfile e ''title'') (\<lambda>t. case t of None \<Rightarrow> set_err ERR_NOTITLE None | Some tx \<Rightarrow>
     (case look_for NL tx of Overrun \<Rightarrow> undef | lk \<Rightarrow>
      bnd (gets nobody) (\<lambda>web.
      bnd (getfile e (if web then ''info.html'' else ''info.txt'')) (\<lambda>i. case i of
        None \<Rightarrow> set_err ERR_NOINFO None
      | Some ix \<Rightarrow> bnd (read_candidates e) (\<lambda>c. case c of
          None \<Rightarrow> ret None
        | Some (ns, cl) \<Rightarrow> set_err 0 (Some \<lparr>vr_voter = me,
            vr_title = (case lk of Found a _ \<Rightarrow> a | _ \<Rightarrow> cstr tx), vr_info = ix,
            vr_nslots = ns, clist = cl\<rparr>))))))"

definition vote_home :: "'e poll_env_scheme \<Rightarrow> path" where
  "vote_home e = (case vote_dir e of None \<Rightarrow> VDIR_DFLT | Some p \<Rightarrow> p)"

definition getvdata :: "'e poll_env_scheme \<Rightarrow> (voterec option, 'm) pollp" where
  "getvdata e =
     bnd (chdir (the_site e) (vote_home e)) (\<lambda>ok. if \<not> ok then set_err ERR_CDVOTEDIR None else
     bnd (polls_open (the_site e)) (\<lambda>open. if \<not> open then set_err ERR_POLLS_CLOSED None else
     if \<not> can_alloc e 48 then set_err ERR_VOTEREC_ALLOC None else
     bnd (validate_voter e) (\<lambda>who. case who of None \<Rightarrow> ret None | Some me \<Rightarrow> read_election e me)))"

section \<open>A recorded vote is read back for plain logins only\<close>

definition web_login :: "string \<Rightarrow> bool" where
  "web_login l \<longleftrightarrow> l \<noteq> [] \<and> length l < 78 \<and> set l \<subseteq> set alphanum"

lemma alphanum_clean: "c \<in> set alphanum \<Longrightarrow> c \<noteq> NL \<and> c \<noteq> NUL \<and> c \<noteq> SPC"
  by (auto simp: alphanum_def)

lemma span_in_prefix:
  "set a \<subseteq> set cs \<Longrightarrow> b = [] \<or> hd b \<notin> set cs \<Longrightarrow> span_in cs (a @ b) = a"
  by (cases b) (auto simp: span_in_def takeWhile_append takeWhile_eq_all_conv)

text \<open>What a line of the vote file counts for.\<close>

definition read_as :: "string \<Rightarrow> string" where
  "read_as l = span_in alphanum l"

lemma span_in_stop: "x \<notin> set cs \<Longrightarrow> span_in cs (l @ x # r) = span_in cs l"
  by (induction l) (auto simp: span_in_def)

lemma line_names_recorded:
  assumes "NL \<notin> set l" "NUL \<notin> set l"
  shows "line_names login (pad_right 32 l @ [NL]) \<longleftrightarrow> read_as l = login"
proof -
  have "NUL \<notin> set (pad_right 32 l @ [NL])" using assms by (auto simp: pad_right_def)
  then have c: "cstr (pad_right 32 l @ [NL]) = pad_right 32 l @ [NL]" by (rule cstr_id)
  have "\<exists>x r. pad_right 32 l @ [NL] = l @ x # r \<and> x \<notin> set alphanum"
    by (cases "32 - length l") (auto simp: pad_right_def alphanum_def)
  then have "span_in alphanum (pad_right 32 l @ [NL]) = span_in alphanum l"
    using span_in_stop by metis
  then show ?thesis by (simp add: line_names_def c read_as_def)
qed

lemma pieces_cr_text:
  assumes "\<forall>c \<in> set cr. NL \<notin> set (logid c) \<and> NUL \<notin> set (logid c) \<and> length (logid c) < 78"
  shows "pieces 79 (cr_text cr) = map (\<lambda>c. pad_right 32 (logid c) @ [NL]) (cr_chosen cr)"
  using assms
proof (induction cr)
  case Nil
  then show ?case by (simp add: cr_text_def cr_chosen_def)
next
  case (Cons c cr)
  show ?case
  proof (cases "votefor c")
    case True
    have "NL \<notin> set (pad_right 32 (logid c))" "length (pad_right 32 (logid c)) < 79"
      using Cons.prems by (auto simp: pad_right_def)
    from pieces_line [OF this, of "cr_text cr"] True Cons show ?thesis
      by (simp add: cr_text_def cr_chosen_def)
  next
    case False
    with Cons show ?thesis by (simp add: cr_text_def cr_chosen_def)
  qed
qed

text \<open>
  The web programs take a recorded vote for a vote for the longest run of lower-case letters and
  digits its login starts with. So a vote for a plain login is read back exactly, whatever the
  other candidates are.
\<close>

theorem votedfor_reads_prefix:
  assumes "fs s (cwd s @ [''votes'', voter s]) = Some (cr_text cr)"
    and "enterable e (cwd s @ [''votes''])" "enterable e (cwd s)"
    and "\<forall>c \<in> set cr. NL \<notin> set (logid c) \<and> NUL \<notin> set (logid c) \<and> length (logid c) < 78"
  shows "votedfor e login s =
    (Ret (if \<exists>c \<in> set (cr_chosen cr). read_as (logid c) = login then 1 else 0), s)"
proof -
  have ch: "NL \<notin> set (logid c) \<and> NUL \<notin> set (logid c)" if "c \<in> set (cr_chosen cr)" for c
    using that assms(4) by (auto simp: cr_chosen_def)
  have "(\<exists>p \<in> set (pieces 79 (cr_text cr)). line_names login p) \<longleftrightarrow>
      (\<exists>c \<in> set (cr_chosen cr). read_as (logid c) = login)"
    using line_names_recorded ch by (simp add: pieces_cr_text [OF assms(4)])
  then show ?thesis
    using assms(1-3)
    by (simp add: votedfor_def bnd_def sq_def chdir_into_def chdir_def gets_def fopen_r_def
        chdir_up_def ret_def site.truncate_def)
qed

definition web_env :: poll_env where
  "web_env = \<lparr>enterable = (\<lambda>_. True), writable = (\<lambda>_. True), now = 50, now_text = ''today\<newline>'',
     poll_draw = (\<lambda>_. 0), poll_uid = 67, account = None, remote_user = Some ''joe'',
     vote_dir = None, openable = (\<lambda>_. True), can_alloc = (\<lambda>_. True)\<rparr>"

definition web_start :: poll where
  "web_start = \<lparr>tin = [], tout = [], cwd = VDIR_DFLT,
     fs = [VDIR_DFLT @ [''votes'', ''joe''] \<mapsto> cr_text [\<lparr>cr_name = ''J'', logid = ''jo-x'', cr_stmt = [], votefor = True\<rparr>]],
     voter = ''joe'', nobody = True, err = 0\<rparr>"

theorem votedfor_reads_prefix_witness:
  "votedfor web_env ''jo'' web_start = (Ret 1, web_start) \<and>
   votedfor web_env ''jo-x'' web_start = (Ret 0, web_start)"
proof -
  let ?cr = "[\<lparr>cr_name = ''J'', logid = ''jo-x'', cr_stmt = [], votefor = True\<rparr>]"
  have "fs web_start (cwd web_start @ [''votes'', voter web_start]) = Some (cr_text ?cr)"
    by (simp add: web_start_def)
  moreover have "enterable web_env (cwd web_start @ [''votes''])" "enterable web_env (cwd web_start)"
    by (simp_all add: web_env_def)
  moreover have "read_as ''jo-x'' = ''jo''" by (simp add: read_as_def span_in_def alphanum_def)
  ultimately show ?thesis
    using votedfor_reads_prefix [of web_start ?cr web_env "''jo''"]
      votedfor_reads_prefix [of web_start ?cr web_env "''jo-x''"]
    by (simp add: cr_chosen_def)
qed

section \<open>Recording and its errors\<close>

text \<open>
  C34: recording a vote reports success only when both the vote file holds exactly the chosen
  candidates and the history has the new line, with the current directory back where it was; every
  error code but one leaves the directory there too, but when the vote file cannot be written the
  program stays in the votes directory.
\<close>

theorem record_votes_outcomes:
  assumes "enterable e (cwd s)"
  shows "\<exists>n t. record_votes e cr s = (Ret n, t) \<and> (n = 0 \<or> n = 1) \<and>
    (n = 0 \<longrightarrow> err t = 0 \<and> cwd t = cwd s \<and>
       fs t (cwd s @ [''votes'', voter s]) = Some (cr_text cr) \<and>
       (\<exists>old. fs t (cwd s @ [''.vdir'', voter s]) = Some (old @
          (if poll_uid e = NOBODY_UID then ''W'' else []) @ dec (cr_hash cr) @ '' '' @ now_text e))) \<and>
    (n = 1 \<longrightarrow> (err t = ERR_CDVOTES \<and> cwd t = cwd s \<and> fs t = fs s) \<or>
               (err t = ERR_WRTVOTE \<and> cwd t = cwd s @ [''votes'']) \<or>
               (err t = ERR_CDHIST \<and> cwd t = cwd s) \<or> (err t = ERR_WRTHIST \<and> cwd t = cwd s))"
proof -
  have split_dir: "cwd s @ [''votes'', v] = (cwd s @ [''votes'']) @ [v]"
    "cwd s @ [''.vdir'', v] = (cwd s @ [''.vdir'']) @ [v]" for v by simp_all
  show ?thesis
    unfolding split_dir using assms
    by (simp add: record_votes_def bnd_def sq_def chdir_into_def chdir_def gets_def unlink_def upd_def
        puts_run fwrite_file_def fappend_file_def chdir_up_def set_err_def ret_def site.truncate_def
        ERR_CDVOTES_def ERR_WRTVOTE_def ERR_CDHIST_def ERR_WRTHIST_def Let_def)
qed

theorem record_votes_outcomes_witness:
  "\<exists>n t. record_votes web_env [] web_start = (Ret n, t) \<and> (n = 0 \<or> n = 1)"
  using record_votes_outcomes [of web_env web_start "[]"] by (auto simp: web_env_def)

end
