(* ===== verification/FormVars.thy ===== *)
theory FormVars
  imports VoteLib
begin

text \<open>
  Form data of the web programs, \<open>soft/apps/vote/src/formvars.c\<close>: decoding the URL-encoded string
  into a table of names and values, and looking values up by name, one after the other.
\<close>

section \<open>Decoding\<close>

text \<open>\<open>Hex2Int\<close>, on an unsigned byte, with the wrap of the byte it is stored in.\<close>

definition Hex2Int :: "char \<Rightarrow> int" where
  "Hex2Int c = (if 65 \<le> byte c then int (byte c) - 55 else int (byte c) - 48)"

definition hex_byte :: "char \<Rightarrow> char \<Rightarrow> char" where
  "hex_byte a b = char_of (nat ((16 * Hex2Int a + Hex2Int b) mod 256))"

text \<open>
  The second pass: the decoded text of the current segment so far, and the rest of the string. A
  percent sign without two bytes after it makes the loop read past the end of the string.
\<close>

function udec :: "string \<Rightarrow> string \<Rightarrow> string list option" where
  "udec acc [] = Some [acc]"
| "udec acc (c # cs) =
     (if c = CHR ''%'' then
        (if length cs < 2 then None
         else let d = hex_byte (cs ! 0) (cs ! 1); rest = drop 2 cs in
           if d = CR \<and> take 3 rest = ''%0A'' then udec (acc @ [NL]) (drop 3 rest)
           else udec (acc @ [d]) rest)
      else if c = CHR ''+'' then udec (acc @ [SPC]) cs
      else if c = CHR ''='' \<or> c = CHR ''&'' then map_option ((#) acc) (udec [] cs)
      else udec (acc @ [c]) cs)"
  by pat_completeness auto
termination by (relation "measure (\<lambda>(acc, cs). length cs)") auto

declare udec.simps(2) [simp del]

text \<open>
  \<open>urldecode\<close> counts the equals signs, asks for the bytes of the table, and fills it: one pointer for
  the first name, one for each separator, and NULL. The allocator is the parameter \<open>room\<close>: for the
  number of bytes it is asked for, \<open>None\<close> is NULL, and \<open>Some b\<close> a block of \<open>b\<close> bytes; a pointer has
  eight. Storing past the block is undefined. Without an equals sign nothing is stored, and the
  table stays what it was.
\<close>

datatype urltab = NoTable | NoPairs | Overflow | Runaway | Tab "string list"

definition nvars_of :: "string \<Rightarrow> nat" where
  "nvars_of url = length (filter (\<lambda>c. c = CHR ''='') url)"

definition table_bytes :: "nat \<Rightarrow> nat" where
  "table_bytes nvars = 2 * nvars * 8 + 1"

definition urldecode :: "(nat \<Rightarrow> nat option) \<Rightarrow> string \<Rightarrow> urltab" where
  "urldecode room url =
     (case room (table_bytes (nvars_of url)) of
        None \<Rightarrow> NoTable
      | Some b \<Rightarrow>
          if nvars_of url = 0 then NoPairs
          else case udec [] url of
            None \<Rightarrow> Runaway
          | Some segs \<Rightarrow> if b < 8 * (length segs + 1) then Overflow else Tab (map cstr segs))"

section \<open>The request\<close>

record cgi = poll +
  table :: "string list option"
  savedtp :: "nat option"

record cgi_env = poll_env +
  request_method :: "string option"
  query_string :: "string option"
  content_type :: "string option"
  content_length :: "string option"
  table_room :: "nat \<Rightarrow> nat option"

type_synonym 'a cgip = "('a, cgi) prog"

definition same_nocase :: "string \<Rightarrow> string \<Rightarrow> bool" where
  "same_nocase a b \<longleftrightarrow>
     map (\<lambda>c. if 65 \<le> byte c \<and> byte c \<le> 90 then char_of (byte c + 32) else c) a =
     map (\<lambda>c. if 65 \<le> byte c \<and> byte c \<le> 90 then char_of (byte c + 32) else c) b"

text \<open>Store the table, and say whether there is one.\<close>

definition decode_request :: "cgi_env \<Rightarrow> string \<Rightarrow> bool cgip" where
  "decode_request e url = (case urldecode (table_room e) url of
     NoTable \<Rightarrow> ret False
   | NoPairs \<Rightarrow> ret True
   | Overflow \<Rightarrow> undef
   | Runaway \<Rightarrow> undef
   | Tab ps \<Rightarrow> sq (upd (\<lambda>s. s\<lparr>table := Some ps\<rparr>)) (ret True))"

definition getcgivars :: "cgi_env \<Rightarrow> bool cgip" where
  "getcgivars e = (case request_method e of
     None \<Rightarrow> ret False
   | Some rm \<Rightarrow>
     if rm = ''GET'' then
       (case query_string e of
          None \<Rightarrow> ret False
        | Some qs \<Rightarrow> if \<not> can_alloc e (int (length qs) + 1) then ret False else decode_request e qs)
     else if rm = ''POST'' then
       (case content_type e of
          None \<Rightarrow> ret False
        | Some ct \<Rightarrow> if \<not> same_nocase ct ''application/x-www-form-urlencoded'' then ret False
          else case content_length e of
            None \<Rightarrow> ret False
          | Some cl \<Rightarrow> let n = atoi cl in
              if n < -1 \<or> \<not> can_alloc e (n + 1) then ret False
              else if n = -1 then undef
              else bnd (gets (\<lambda>s. take (nat n) (tin s))) (\<lambda>body.
                   sq (upd (\<lambda>s. s\<lparr>tin := drop (nat n) (tin s)\<rparr>))
                   (if int (length body) \<noteq> n then ret False
                    else decode_request e (cstr body))))
     else ret False)"

section \<open>Looking values up\<close>

text \<open>
  The search from a position of the table. Position \<open>length\<close> is the NULL at its end; a table with
  an odd number of pointers makes the search step over it.
\<close>

datatype hit = Hit nat string | Miss | Beyond

function seek :: "string list \<Rightarrow> string \<Rightarrow> nat \<Rightarrow> hit" where
  "seek tab name i =
     (if length tab < i then Beyond
      else if i = length tab then Miss
      else if tab ! i = name then (if i + 1 = length tab then Hit i [] else Hit i (tab ! (i + 1)))
      else seek tab name (i + 2))"
  by pat_completeness auto
termination by (relation "measure (\<lambda>(tab, name, i). length tab + 1 - i)") auto

declare seek.simps [simp del]

text \<open>\<open>cgival\<close>: \<open>None\<close> for the name asks for the next value of the last one found.\<close>

definition cgival :: "string option \<Rightarrow> string option cgip" where
  "cgival name = bnd (gets (\<lambda>s. (table s, savedtp s))) (\<lambda>(tab, sv). case tab of
     None \<Rightarrow> ret None
   | Some tb \<Rightarrow>
     (case (case name of
         Some n \<Rightarrow> Some (n, 0)
       | None \<Rightarrow> map_option (\<lambda>i. (tb ! i, i + 2)) sv) of
       None \<Rightarrow> ret None
     | Some (n, start) \<Rightarrow> (case seek tb n start of
         Beyond \<Rightarrow> undef
       | Miss \<Rightarrow> sq (upd (\<lambda>s. s\<lparr>savedtp := None\<rparr>)) (ret None)
       | Hit i v \<Rightarrow>
           if i + 1 = length tb then sq (upd (\<lambda>s. s\<lparr>savedtp := Some i\<rparr>)) (ret None)
           else sq (upd (\<lambda>s. s\<lparr>savedtp := Some i\<rparr>)) (ret (Some v)))))"

section \<open>Decoding inverts encoding\<close>

definition plain_char :: "char \<Rightarrow> bool" where
  "plain_char c \<longleftrightarrow> isdigit c \<or> (65 \<le> byte c \<and> byte c \<le> 90) \<or> (97 \<le> byte c \<and> byte c \<le> 122)"

definition hex_digit :: "nat \<Rightarrow> char" where
  "hex_digit d = char_of (if d < 10 then 48 + d else 55 + d)"

definition enc_char :: "char \<Rightarrow> string" where
  "enc_char c = (if plain_char c then [c] else if c = SPC then ''+''
     else [CHR ''%'', hex_digit (byte c div 16), hex_digit (byte c mod 16)])"

definition enc :: "string \<Rightarrow> string" where
  "enc s = concat (map enc_char s)"

fun enc_form :: "(string \<times> string) list \<Rightarrow> string" where
  "enc_form [] = []"
| "enc_form [(n, v)] = enc n @ ''='' @ enc v"
| "enc_form ((n, v) # p # ps) = enc n @ ''='' @ enc v @ ''&'' @ enc_form (p # ps)"

text \<open>What the decoder makes of line ends: carriage return and line feed become one newline.\<close>

fun one_nl :: "string \<Rightarrow> string" where
  "one_nl (a # b # s) = (if a = CR \<and> b = NL then NL # one_nl s else a # one_nl (b # s))"
| "one_nl s = s"

lemma Hex2Int_digit: "d < 16 \<Longrightarrow> Hex2Int (hex_digit d) = int d"
  by (auto simp: Hex2Int_def hex_digit_def)

lemma hex_byte_digits: "hex_byte (hex_digit (byte c div 16)) (hex_digit (byte c mod 16)) = c"
proof -
  have d: "byte c div 16 < 16" "byte c mod 16 < 16"
    by (simp_all add: less_mult_imp_div_less)
  have "16 * int (byte c div 16) + int (byte c mod 16) = int (byte c)"
    by (metis mult_div_mod_eq of_nat_add of_nat_mult of_nat_numeral)
  then have "nat ((16 * Hex2Int (hex_digit (byte c div 16)) + Hex2Int (hex_digit (byte c mod 16))) mod 256) = byte c"
    by (simp add: Hex2Int_digit d)
  then show ?thesis by (simp add: hex_byte_def)
qed

lemma udec_plain: "plain_char c \<Longrightarrow> udec acc (c # cs) = udec (acc @ [c]) cs"
  by (subst udec.simps) (auto simp: plain_char_def isdigit_def)

lemma udec_plus: "udec acc (CHR ''+'' # cs) = udec (acc @ [SPC]) cs"
  by (subst udec.simps) simp

lemma udec_sep: "c = CHR ''='' \<or> c = CHR ''&'' \<Longrightarrow> udec acc (c # cs) = map_option ((#) acc) (udec [] cs)"
  by (subst udec.simps) auto

lemma udec_hex:
  "udec acc (CHR ''%'' # hex_digit (byte c div 16) # hex_digit (byte c mod 16) # cs) =
     (if c = CR \<and> take 3 cs = ''%0A'' then udec (acc @ [NL]) (drop 3 cs) else udec (acc @ [c]) cs)"
  by (subst udec.simps) (simp add: hex_byte_digits Let_def)

lemma enc_NL: "enc_char NL = ''%0A''"
  by code_simp

lemma enc_SPC: "enc_char SPC = ''+''"
  by code_simp

lemma enc_NL_only:
  assumes "take 3 (enc_char c @ r) = ''%0A''"
  shows "c = NL"
proof -
  have np: "\<not> plain_char c"
  proof
    assume "plain_char c"
    with assms have "c = CHR ''%''" by (simp add: enc_char_def eval_nat_numeral)
    with \<open>plain_char c\<close> show False by (simp add: plain_char_def isdigit_def)
  qed
  have ns: "c \<noteq> SPC"
  proof
    assume "c = SPC"
    with assms have "take 3 (''+'' @ r) = ''%0A''" by (simp only: enc_SPC)
    then show False by (simp add: eval_nat_numeral)
  qed
  have "enc_char c = [CHR ''%'', hex_digit (byte c div 16), hex_digit (byte c mod 16)]"
    using np ns by (simp only: enc_char_def if_False)
  with assms have "take 3 ([CHR ''%'', hex_digit (byte c div 16), hex_digit (byte c mod 16)] @ r) = ''%0A''"
    by (simp only:)
  then have "[CHR ''%'', hex_digit (byte c div 16), hex_digit (byte c mod 16)] = ''%0A''"
    by (simp only: numeral_3_eq_3 append_Cons take_Suc_Cons take_0 append_Nil)
  then have "hex_digit (byte c div 16) = CHR ''0''" "hex_digit (byte c mod 16) = CHR ''A''"
    by (simp_all only: list.inject)
  then have "c = hex_byte CHR ''0'' CHR ''A''" by (metis hex_byte_digits)
  also have "\<dots> = NL" by code_simp
  finally show ?thesis .
qed

lemma enc_cases:
  obtains "plain_char c" "enc_char c = [c]" | "c = SPC" "enc_char c = ''+''"
    | "enc_char c = [CHR ''%'', hex_digit (byte c div 16), hex_digit (byte c mod 16)]"
      "\<not> plain_char c" "c \<noteq> SPC"
proof -
  consider "plain_char c" | "\<not> plain_char c" "c = SPC" | "\<not> plain_char c" "c \<noteq> SPC" by blast
  then show thesis
  proof cases
    case 1
    then show ?thesis using that(1) by (simp add: enc_char_def)
  next
    case 2
    then show ?thesis using that(2) enc_SPC by blast
  next
    case 3
    then show ?thesis using that(3) by (simp add: enc_char_def)
  qed
qed

lemma udec_char:
  assumes "\<not> (c = CR \<and> take 3 cs = ''%0A'')"
  shows "udec acc (enc_char c @ cs) = udec (acc @ [c]) cs"
proof (cases c rule: enc_cases)
  case 1
  then show ?thesis by (simp add: udec_plain)
next
  case 2
  then show ?thesis by (simp add: udec_plus)
next
  case 3
  show ?thesis unfolding 3(1) by (simp only: append_Cons append_Nil udec_hex assms if_False)
qed

lemma enc_Cons: "enc (c # s) = enc_char c @ enc s"
  by (simp add: enc_def)

definition sep_next :: "string \<Rightarrow> bool" where
  "sep_next r \<longleftrightarrow> r = [] \<or> hd r = CHR ''='' \<or> hd r = CHR ''&''"

lemma sep_next_not_nl: "sep_next r \<Longrightarrow> take 3 r \<noteq> ''%0A''"
  by (cases r) (auto simp: sep_next_def eval_nat_numeral)

lemma udec_last: "sep_next r \<Longrightarrow> udec acc (enc [c] @ r) = udec (acc @ [c]) r"
  using udec_char [of c r acc] sep_next_not_nl [of r] by (simp add: enc_def)

text \<open>One encoded text in front of a separator or the end.\<close>

lemma udec_enc: "sep_next r \<Longrightarrow> udec acc (enc s @ r) = udec (acc @ one_nl s) r"
proof (induction s arbitrary: acc rule: one_nl.induct)
  case (1 a b s)
  have step: "udec acc (enc_char a @ enc (b # s) @ r) = udec (acc @ [a]) (enc (b # s) @ r)"
    if "\<not> (a = CR \<and> b = NL)"
  proof (rule udec_char)
    show "\<not> (a = CR \<and> take 3 (enc (b # s) @ r) = ''%0A'')"
      using that enc_NL_only [of b "enc s @ r"] enc_Cons [of b s] by (metis append_assoc)
  qed
  show ?case
  proof (cases "a = CR \<and> b = NL")
    case True
    have cr: "enc_char CR = [CHR ''%'', hex_digit (byte CR div 16), hex_digit (byte CR mod 16)]"
      by code_simp
    have "enc (a # b # s) @ r = enc_char CR @ ''%0A'' @ enc s @ r"
      using True by (simp add: enc_def enc_NL)
    then have "udec acc (enc (a # b # s) @ r) = udec (acc @ [NL]) (enc s @ r)"
      using udec_hex [of acc CR "''%0A'' @ enc s @ r"] by (simp add: cr)
    then show ?thesis using 1(1) [OF True 1(3)] True by simp
  next
    case False
    have "udec acc (enc (a # b # s) @ r) = udec (acc @ [a]) (enc (b # s) @ r)"
      using step [OF False] by (simp add: enc_def)
    moreover have "one_nl (a # b # s) = a # one_nl (b # s)"
      using False by (simp only: one_nl.simps if_False)
    ultimately show ?thesis
      using 1(2) [OF False 1(3), of "acc @ [a]"] by (simp only: append_assoc append_Cons append_Nil)
  qed
next
  case "2_1"
  then show ?case by (simp add: enc_def)
next
  case "2_2"
  then show ?case by (simp add: udec_last)
qed

lemma udec_form:
  "ps \<noteq> [] \<Longrightarrow> udec [] (enc_form ps) = Some (concat (map (\<lambda>(n, v). [one_nl n, one_nl v]) ps))"
proof (induction ps rule: enc_form.induct)
  case (2 n v)
  have "udec [] (enc n @ ''='' @ enc v) = udec (one_nl n) (''='' @ enc v)"
    using udec_enc [of "''='' @ enc v" "[]" n] by (simp add: sep_next_def)
  also have "\<dots> = map_option ((#) (one_nl n)) (udec [] (enc v))" by (simp add: udec_sep)
  also have "udec [] (enc v) = Some [one_nl v]"
    using udec_enc [of "[]" "[]" v] by (simp add: sep_next_def)
  finally show ?case by simp
next
  case (3 n v p ps)
  let ?r = "''&'' @ enc_form (p # ps)"
  have "udec [] (enc n @ ''='' @ enc v @ ?r) = udec (one_nl n) (''='' @ enc v @ ?r)"
    using udec_enc [of "''='' @ enc v @ ?r" "[]" n] by (simp add: sep_next_def)
  also have "\<dots> = map_option ((#) (one_nl n)) (udec [] (enc v @ ?r))" by (simp add: udec_sep)
  also have "udec [] (enc v @ ?r) = udec (one_nl v) ?r"
    using udec_enc [of ?r "[]" v] by (simp add: sep_next_def)
  also have "\<dots> = map_option ((#) (one_nl v)) (udec [] (enc_form (p # ps)))" by (simp add: udec_sep)
  finally show ?case using 3 by simp
qed simp

lemma enc_no_eq: "CHR ''='' \<notin> set (enc s)"
proof -
  have h: "hex_digit d \<noteq> CHR ''=''" if "d < 16" for d
  proof
    assume "hex_digit d = CHR ''=''"
    then have "byte (hex_digit d) = 61" by simp
    with that show False by (simp add: hex_digit_def split: if_splits)
  qed
  have "CHR ''='' \<notin> set (enc_char c)" for c
    by (cases c rule: enc_cases) (simp_all add: h [THEN not_sym] less_mult_imp_div_less, auto simp: plain_char_def isdigit_def)
  then show ?thesis by (auto simp: enc_def)
qed

lemma nvars_enc_form: "ps \<noteq> [] \<Longrightarrow> nvars_of (enc_form ps) = length ps"
proof (induction ps rule: enc_form.induct)
  case (2 n v)
  have "filter (\<lambda>c. c = CHR ''='') (enc x) = []" for x
    using enc_no_eq [of x] by (auto simp: filter_empty_conv)
  then show ?case by (simp add: nvars_of_def)
next
  case (3 n v p ps)
  have "filter (\<lambda>c. c = CHR ''='') (enc x) = []" for x
    using enc_no_eq [of x] by (auto simp: filter_empty_conv)
  with 3 show ?case by (simp add: nvars_of_def)
qed simp

text \<open>The table of a list of pairs.\<close>

definition pair_table :: "(string \<times> string) list \<Rightarrow> string list" where
  "pair_table ps = concat (map (\<lambda>(n, v). [n, v]) ps)"

lemma pair_table_simps [simp]:
  "pair_table [] = []" "pair_table ((n, v) # ps) = n # v # pair_table ps"
  by (simp_all add: pair_table_def)

lemma length_pair_table [simp]: "length (pair_table ps) = 2 * length ps"
  by (induction ps) auto

lemma nth_pair_table:
  "j < length ps \<Longrightarrow> pair_table ps ! (2 * j) = fst (ps ! j) \<and> pair_table ps ! (2 * j + 1) = snd (ps ! j)"
proof (induction ps arbitrary: j)
  case (Cons p ps)
  then show ?case by (cases j; cases p) auto
qed simp

lemma map_pair_table: "map h (pair_table ps) = pair_table (map (\<lambda>(n, v). (h n, h v)) ps)"
  by (induction ps) auto

definition seen_pair :: "string \<times> string \<Rightarrow> string \<times> string" where
  "seen_pair = (\<lambda>(n, v). (cstr (one_nl n), cstr (one_nl v)))"

lemma udec_form_table:
  "ps \<noteq> [] \<Longrightarrow> map_option (map cstr) (udec [] (enc_form ps)) = Some (pair_table (map seen_pair ps))"
proof -
  have "map cstr (concat (map (\<lambda>(n, v). [one_nl n, one_nl v]) ps)) = pair_table (map seen_pair ps)"
    by (induction ps) (auto simp: seen_pair_def)
  then show "ps \<noteq> [] \<Longrightarrow> map_option (map cstr) (udec [] (enc_form ps)) = Some (pair_table (map seen_pair ps))"
    by (simp add: udec_form)
qed

lemma udec_form_count:
  assumes "ps \<noteq> []"
  obtains segs where "udec [] (enc_form ps) = Some segs" "map cstr segs = pair_table (map seen_pair ps)"
    "length segs = 2 * length ps"
proof -
  obtain segs where s: "udec [] (enc_form ps) = Some segs" "map cstr segs = pair_table (map seen_pair ps)"
    using udec_form_table [OF assms] by auto
  from arg_cong [OF s(2), of length] have "length segs = 2 * length ps" by simp
  with s show thesis by (rule that)
qed

lemma urldecode_form:
  "urldecode room (enc_form ps) =
     (case room (16 * length ps + 1) of
        None \<Rightarrow> NoTable
      | Some b \<Rightarrow> if ps = [] then NoPairs
          else if b < 16 * length ps + 8 then Overflow
          else Tab (pair_table (map seen_pair ps)))"
proof (cases "ps = []")
  case True
  then show ?thesis by (simp add: urldecode_def nvars_of_def table_bytes_def split: option.split)
next
  case False
  from udec_form_count [OF this] obtain segs where "udec [] (enc_form ps) = Some segs"
    "map cstr segs = pair_table (map seen_pair ps)" "length segs = 2 * length ps" .
  with False show ?thesis
    by (simp add: urldecode_def nvars_enc_form table_bytes_def split: option.split)
qed

text \<open>
  C11: decoding an encoded form, for every answer of the allocator to the bytes asked for, sixteen
  for each pair and one: without memory there is no table; a block with less than eight bytes more
  than sixteen for each pair is overrun; in a larger one decoding gives back the names and values in
  order, whatever bytes they have, except that a carriage return and line feed become one newline
  and a NUL ends the text. An empty form stores nothing.
\<close>

theorem urldecode_inverts_encoding:
  "urldecode room (enc_form ps) =
     (case room (16 * length ps + 1) of
        None \<Rightarrow> NoTable
      | Some b \<Rightarrow> if ps = [] then NoPairs
          else if b < 16 * length ps + 8 then Overflow
          else Tab (pair_table (map seen_pair ps)))"
  by (rule urldecode_form)

theorem urldecode_inverts_encoding_witness:
  "urldecode (\<lambda>n. Some (n + 15)) (enc_form [(''cand'', ''a b''), (''cand'', ''x&y'')]) =
     Tab [''cand'', ''a b'', ''cand'', ''x&y''] \<and>
   urldecode Some (enc_form [(''cand'', ''a b''), (''cand'', ''x&y'')]) = Overflow \<and>
   urldecode (\<lambda>n. None) (enc_form [(''cand'', ''a b''), (''cand'', ''x&y'')]) = NoTable"
proof -
  let ?ps = "[(''cand'', ''a b''), (''cand'', ''x&y'')]"
  have "pair_table (map seen_pair ?ps) = [''cand'', ''a b'', ''cand'', ''x&y'']"
    by code_simp
  then show ?thesis
    using urldecode_inverts_encoding [of "\<lambda>n. Some (n + 15)" ?ps]
      urldecode_inverts_encoding [of Some ?ps] urldecode_inverts_encoding [of "\<lambda>n. None" ?ps]
    by simp
qed

text \<open>
  The table is asked for one pointer too small: in a block of exactly the bytes asked for every form
  with a pair overflows it.
\<close>

lemma form_table_too_small: "ps \<noteq> [] \<Longrightarrow> urldecode Some (enc_form ps) = Overflow"
proof -
  assume ps: "ps \<noteq> []"
  from udec_form_count [OF this] obtain segs where "udec [] (enc_form ps) = Some segs"
    "length segs = 2 * length ps" .
  with ps show ?thesis by (simp add: urldecode_def nvars_enc_form table_bytes_def)
qed

section \<open>Looking up all values of a name\<close>

fun find_from :: "(string \<times> string) list \<Rightarrow> string \<Rightarrow> nat \<Rightarrow> hit" where
  "find_from [] name i = Miss"
| "find_from (p # ps) name i = (if fst p = name then Hit (2 * i) (snd p) else find_from ps name (i + 1))"

lemma seek_pairs: "i \<le> length ps \<Longrightarrow> seek (pair_table ps) name (2 * i) = find_from (drop i ps) name i"
proof (induction "length ps - i" arbitrary: i)
  case 0
  then show ?case by (subst seek.simps) simp
next
  case (Suc k)
  then have i: "i < length ps" by simp
  then have "drop i ps = ps ! i # drop (Suc i) ps" by (simp add: Cons_nth_drop_Suc)
  moreover have "seek (pair_table ps) name (2 * Suc i) = find_from (drop (Suc i) ps) name (Suc i)"
    using Suc i by (intro Suc.hyps(1)) simp_all
  ultimately show ?case
    using i nth_pair_table [OF i] by (subst seek.simps) simp
qed

lemma find_from_cases:
  "(find_from ps name i = Miss \<and> (\<forall>p \<in> set ps. fst p \<noteq> name)) \<or>
   (\<exists>j < length ps. find_from ps name i = Hit (2 * (i + j)) (snd (ps ! j)) \<and> fst (ps ! j) = name \<and>
      (\<forall>k < j. fst (ps ! k) \<noteq> name))"
proof (induction ps arbitrary: i)
  case (Cons p ps)
  show ?case
  proof (cases "fst p = name")
    case False
    from Cons.IH [of "i + 1"] show ?thesis
    proof
      assume "\<exists>j < length ps. find_from ps name (i + 1) = Hit (2 * (i + 1 + j)) (snd (ps ! j)) \<and>
        fst (ps ! j) = name \<and> (\<forall>k < j. fst (ps ! k) \<noteq> name)"
      then obtain j where "j < length ps" "find_from ps name (i + 1) = Hit (2 * (i + 1 + j)) (snd (ps ! j))"
        "fst (ps ! j) = name" "\<forall>k < j. fst (ps ! k) \<noteq> name" by blast
      then show ?thesis
        using False by (intro disjI2 exI [of _ "Suc j"]) (auto simp: less_Suc_eq_0_disj)
    qed (use False in simp)
  qed auto
qed simp

text \<open>The values a name has, in order.\<close>

definition values_of :: "string \<Rightarrow> (string \<times> string) list \<Rightarrow> string list" where
  "values_of name ps = map snd (filter (\<lambda>p. fst p = name) ps)"

text \<open>
  The caller's loop: ask for the name, then for its next value until there is none or the wanted one
  is found (\<open>webcast.c\<close>, main).
\<close>

fun look_through :: "nat \<Rightarrow> string \<Rightarrow> string option \<Rightarrow> bool cgip" where
  "look_through 0 who name s = (NoFuel, s)"
| "look_through (Suc k) who name s = bnd (cgival name) (\<lambda>v. case v of
     None \<Rightarrow> ret False
   | Some l \<Rightarrow> if l = who then ret True else look_through k who None) s"

lemma skip_before:
  "j < length qs \<Longrightarrow> \<forall>k < j. fst (qs ! k) \<noteq> name \<Longrightarrow> fst (qs ! j) = name \<Longrightarrow>
   values_of name qs = snd (qs ! j) # values_of name (drop (Suc j) qs)"
proof (induction qs arbitrary: j)
  case (Cons q qs)
  show ?case
  proof (cases j)
    case 0
    with Cons show ?thesis by (simp add: values_of_def)
  next
    case (Suc m)
    have "fst q \<noteq> name" using Cons.prems(2) Suc by force
    moreover have "values_of name qs = snd (qs ! m) # values_of name (drop (Suc m) qs)"
      using Cons.prems Suc by (intro Cons.IH) auto
    ultimately show ?thesis using Suc by (simp add: values_of_def)
  qed
qed simp

lemma look_through_from:
  assumes "table s = Some (pair_table ps)"
    and "name = Some n \<and> i = 0 \<or>
         name = None \<and> 0 < i \<and> savedtp s = Some (2 * (i - 1)) \<and> fst (ps ! (i - 1)) = n"
    and "i \<le> length ps" "length ps - i < k"
  shows "\<exists>sv. look_through k who name s =
     (Ret (who \<in> set (values_of n (drop i ps))), s\<lparr>savedtp := sv\<rparr>)"
  using assms
proof (induction k arbitrary: i name s)
  case 0
  then show ?case by simp
next
  case (Suc k)
  have start: "(case name of Some n \<Rightarrow> Some (n, 0)
       | None \<Rightarrow> map_option (\<lambda>i. (pair_table ps ! i, i + 2)) (savedtp s)) = Some (n, 2 * i)"
    using Suc.prems(2)
  proof
    assume a: "name = None \<and> 0 < i \<and> savedtp s = Some (2 * (i - 1)) \<and> fst (ps ! (i - 1)) = n"
    then have "i - 1 < length ps" using Suc.prems(3) by linarith
    from nth_pair_table [OF this] a show ?thesis by (cases i) auto
  qed simp
  note sk = seek_pairs [OF Suc.prems(3), of n]
  let ?qs = "drop i ps"
  from find_from_cases [of ?qs n i] show ?case
  proof
    assume miss: "find_from ?qs n i = Miss \<and> (\<forall>p \<in> set ?qs. fst p \<noteq> n)"
    then have "values_of n ?qs = []" by (auto simp: values_of_def filter_empty_conv)
    with miss sk start Suc.prems(1) show ?thesis
      by (simp add: cgival_def bnd_def sq_def gets_def upd_def ret_def) blast
  next
    assume "\<exists>j < length ?qs. find_from ?qs n i = Hit (2 * (i + j)) (snd (?qs ! j)) \<and>
      fst (?qs ! j) = n \<and> (\<forall>l < j. fst (?qs ! l) \<noteq> n)"
    then obtain j where j: "j < length ?qs" "find_from ?qs n i = Hit (2 * (i + j)) (snd (?qs ! j))"
      "fst (?qs ! j) = n" "\<forall>l < j. fst (?qs ! l) \<noteq> n" by blast
    have vals: "values_of n ?qs = snd (?qs ! j) # values_of n (drop (Suc (i + j)) ps)"
      using skip_before [OF j(1,4,3)] by (simp add: add.commute)
    have ne: "2 * (i + j) + 1 \<noteq> length (pair_table ps)" by simp presburger
    let ?s = "s\<lparr>savedtp := Some (2 * (i + j))\<rparr>"
    have cg: "cgival name s = (Ret (Some (snd (?qs ! j))), ?s)"
      using start sk j(2) ne Suc.prems(1)
      by (simp add: cgival_def bnd_def sq_def gets_def upd_def ret_def)
    show ?thesis
    proof (cases "snd (?qs ! j) = who")
      case True
      then show ?thesis using cg vals by (auto simp: bnd_def ret_def)
    next
      case False
      have "\<exists>sv. look_through k who None ?s =
          (Ret (who \<in> set (values_of n (drop (Suc (i + j)) ps))), ?s\<lparr>savedtp := sv\<rparr>)"
        using Suc.prems j(1,3) by (intro Suc.IH) auto
      then show ?thesis using cg vals False by (auto simp: bnd_def)
    qed
  qed
qed

text \<open>
  Asking for a name and then for its further values goes through exactly the values the form
  has for it, in order, and ends: the search finds a wanted value just when it is among them.
\<close>

theorem cgival_finds_all:
  assumes "table s = Some (pair_table ps)" "length ps < k"
  shows "\<exists>sv. look_through k who (Some n) s = (Ret (who \<in> set (values_of n ps)), s\<lparr>savedtp := sv\<rparr>)"
  using look_through_from [of s ps "Some n" n 0 k who] assms by simp

definition form_start :: cgi where
  "form_start = \<lparr>tin = [], tout = [], cwd = VDIR_DFLT, fs = (\<lambda>_. None), voter = ''joe'',
     nobody = True, err = 0, table = Some (pair_table [(''cand'', ''ann''), (''x'', ''bob''), (''cand'', ''cy'')]),
     savedtp = None\<rparr>"

theorem cgival_finds_all_witness:
  "(\<exists>sv. look_through 4 ''cy'' (Some ''cand'') form_start = (Ret True, form_start\<lparr>savedtp := sv\<rparr>)) \<and>
   (\<exists>sv. look_through 4 ''bob'' (Some ''cand'') form_start = (Ret False, form_start\<lparr>savedtp := sv\<rparr>))"
proof -
  let ?ps = "[(''cand'', ''ann''), (''x'', ''bob''), (''cand'', ''cy'')]"
  have "table form_start = Some (pair_table ?ps)" by (simp add: form_start_def)
  then show ?thesis
    using cgival_finds_all [of form_start ?ps 4 "''cy''" "''cand''"]
      cgival_finds_all [of form_start ?ps 4 "''bob''" "''cand''"]
    by (simp add: values_of_def)
qed

end
