(* ===== verification/WebCast.thy ===== *)
theory WebCast
  imports FormVars
begin

text \<open>
  Casting a vote from the web form, \<open>soft/apps/vote/src/webcast.c\<close>: the election's data, the form's
  values, the limit on the number of votes, and the recording.
\<close>

section \<open>Pages\<close>
















section \<open>The program\<close>



section \<open>What a form casts\<close>





























end
