(* ===== verification/CflHeap.thy ===== *)
theory CflHeap
  imports CLib
begin

text \<open>
  The doubly linked list of \<open>soft/cmd/cflbuild\<close>: the user's conference list as nodes in a heap, with
  the pointer operations of \<open>cflbuild.c\<close> and \<open>cflsub.c\<close> as they are written, and their effect on the
  list of nodes. Node 0 is the header the list starts with.
\<close>

section \<open>Nodes\<close>

text \<open>
  \<open>NextRecord\<close> and \<open>PrevRecord\<close> are \<open>None\<close> for a NULL pointer; \<open>brk\<close> is the next address \<open>malloc\<close> gives.
\<close>

record heap =
  ConfName :: "nat \<Rightarrow> string"
  ConfNum :: "nat \<Rightarrow> int"
  NextRecord :: "nat \<Rightarrow> nat option"
  PrevRecord :: "nat \<Rightarrow> nat option"
  alive :: "nat \<Rightarrow> bool"
  brk :: nat

definition set_next :: "nat \<Rightarrow> nat option \<Rightarrow> heap \<Rightarrow> heap" where
  "set_next a p h = h\<lparr>NextRecord := (NextRecord h)(a := p)\<rparr>"

definition set_prev :: "nat \<Rightarrow> nat option \<Rightarrow> heap \<Rightarrow> heap" where
  "set_prev a p h = h\<lparr>PrevRecord := (PrevRecord h)(a := p)\<rparr>"

text \<open>Storing through a pointer that may be NULL is undefined: \<open>None\<close>.\<close>

definition via :: "nat option \<Rightarrow> (nat \<Rightarrow> heap \<Rightarrow> heap) \<Rightarrow> heap \<Rightarrow> heap option" where
  "via p f h = (case p of None \<Rightarrow> None | Some a \<Rightarrow> Some (f a h))"

text \<open>The stores guarded by a test for NULL.\<close>

definition if_some :: "nat option \<Rightarrow> (nat \<Rightarrow> heap \<Rightarrow> heap) \<Rightarrow> heap \<Rightarrow> heap" where
  "if_some p f h = (case p of None \<Rightarrow> h | Some a \<Rightarrow> f a h)"

section \<open>Pointer operations\<close>

definition InitList :: "heap \<Rightarrow> heap" where
  "InitList h = h\<lparr>ConfName := (ConfName h)(0 := []), NextRecord := (NextRecord h)(0 := None),
     PrevRecord := (PrevRecord h)(0 := None), alive := (alive h)(0 := True), brk := 1\<rparr>"

text \<open>\<open>WriteToBuffers\<close> after its walk to the last node: append a fresh node there.\<close>

definition append_node :: "nat \<Rightarrow> string \<Rightarrow> int \<Rightarrow> heap \<Rightarrow> heap" where
  "append_node l name n h = (let a = brk h in
     h\<lparr>ConfName := (ConfName h)(a := name), ConfNum := (ConfNum h)(a := n),
       NextRecord := (NextRecord h)(l := Some a, a := None),
       PrevRecord := (PrevRecord h)(a := Some l),
       alive := (alive h)(a := True), brk := a + 1\<rparr>)"

definition unlink_node :: "nat \<Rightarrow> heap \<Rightarrow> heap" where
  "unlink_node a h =
     (let h1 = if_some (PrevRecord h a) (\<lambda>p. set_next p (NextRecord h a)) h
      in if_some (NextRecord h1 a) (\<lambda>q. set_prev q (PrevRecord h1 a)) h1)"

definition free_node :: "nat \<Rightarrow> heap \<Rightarrow> heap" where
  "free_node a h = h\<lparr>alive := (alive h)(a := False)\<rparr>"

definition rename :: "nat \<Rightarrow> string \<Rightarrow> heap \<Rightarrow> heap" where
  "rename a name h = h\<lparr>ConfName := (ConfName h)(a := name)\<rparr>"

definition Insert :: "nat \<Rightarrow> nat \<Rightarrow> heap \<Rightarrow> heap option" where
  "Insert c1 c2 h = (case via (PrevRecord h c1) (\<lambda>p. set_next p (NextRecord h c1)) h of
     None \<Rightarrow> None
   | Some h1 \<Rightarrow>
       (let h2 = if_some (NextRecord h1 c1) (\<lambda>q. set_prev q (PrevRecord h1 c1)) h1;
            h3 = set_prev c1 (PrevRecord h2 c2) h2;
            h4 = if_some (PrevRecord h3 c2) (\<lambda>p. set_next p (Some c1)) h3;
            h5 = set_prev c2 (Some c1) h4
        in Some (set_next c1 (Some c2) h5)))"

definition SwapNodes :: "nat \<Rightarrow> nat \<Rightarrow> heap \<Rightarrow> heap option" where
  "SwapNodes c1 c2 h =
     (let h1 = if_some (PrevRecord h c1) (\<lambda>p. set_next p (Some c2)) h;
          h2 = if_some (NextRecord h1 c2) (\<lambda>q. set_prev q (Some c1)) h1
      in if NextRecord h2 c1 = Some c2 then
           (let h3 = set_prev c2 (PrevRecord h2 c1) h2;
                h4 = set_prev c1 (Some c2) h3;
                h5 = set_next c1 (NextRecord h4 c2) h4
            in Some (set_next c2 (Some c1) h5))
         else (case via (NextRecord h2 c1) (\<lambda>q. set_prev q (Some c2)) h2 of
             None \<Rightarrow> None
           | Some h3 \<Rightarrow> (case via (PrevRecord h3 c2) (\<lambda>p. set_next p (Some c1)) h3 of
               None \<Rightarrow> None
             | Some h4 \<Rightarrow>
                 (let a = PrevRecord h4 c1;
                      h5 = set_prev c1 (PrevRecord h4 c2) h4;
                      h6 = set_prev c2 a h5;
                      b = NextRecord h6 c1;
                      h7 = set_next c1 (NextRecord h6 c2) h6
                  in Some (set_next c2 b h7)))))"

section \<open>Walking the list\<close>

text \<open>
  The nodes from a pointer on. With more steps than there are nodes the pointers form a cycle; a
  pointer to a freed node is undefined behaviour.
\<close>

datatype walked = Whole "nat list" | Loops | Dangling

fun walk :: "nat \<Rightarrow> heap \<Rightarrow> nat option \<Rightarrow> walked" where
  "walk n h None = Whole []"
| "walk 0 h (Some a) = Loops"
| "walk (Suc n) h (Some a) =
     (if \<not> alive h a then Dangling
      else case walk n h (NextRecord h a) of Whole xs \<Rightarrow> Whole (a # xs) | w \<Rightarrow> w)"

text \<open>\<open>Find\<close> stops at the first node that matches.\<close>

datatype found = FoundAt nat | NotThere | FindLoops | FindDangling

fun find_node :: "nat \<Rightarrow> heap \<Rightarrow> (nat \<Rightarrow> bool) \<Rightarrow> nat option \<Rightarrow> found" where
  "find_node n h P None = NotThere"
| "find_node 0 h P (Some a) = FindLoops"
| "find_node (Suc n) h P (Some a) =
     (if \<not> alive h a then FindDangling
      else if P a then FoundAt a else find_node n h P (NextRecord h a))"

text \<open>\<open>Shuffle\<close> numbers the nodes of the list from 0.\<close>

fun renumber :: "int \<Rightarrow> nat list \<Rightarrow> heap \<Rightarrow> heap" where
  "renumber k [] h = h"
| "renumber k (a # as) h = renumber (k + 1) as (h\<lparr>ConfNum := (ConfNum h)(a := k)\<rparr>)"

text \<open>
  The two loops of \<open>SortAll\<close>. The inner one goes on from the node after \<open>Conf2\<close>, where \<open>Conf1\<close> and
  \<open>Conf2\<close> are exchanged with their nodes; \<open>None\<close> is undefined behaviour or exhausted fuel, of which
  a list as long as the fuel has enough.
\<close>

fun sort_inner :: "nat \<Rightarrow> heap \<Rightarrow> nat \<Rightarrow> nat option \<Rightarrow> bool \<Rightarrow> (heap \<times> nat \<times> bool) option" where
  "sort_inner n h c1 None sw = Some (h, c1, sw)"
| "sort_inner 0 h c1 (Some c2) sw = None"
| "sort_inner (Suc n) h c1 (Some c2) sw =
     (if strcmp (ConfName h c1) (ConfName h c2) > 0 then
        (case SwapNodes c1 c2 h of None \<Rightarrow> None
         | Some h' \<Rightarrow> sort_inner n h' c2 (NextRecord h' c1) True)
      else sort_inner n h c1 (NextRecord h c2) sw)"

fun sort_outer :: "nat \<Rightarrow> nat \<Rightarrow> heap \<Rightarrow> nat option \<Rightarrow> bool \<Rightarrow> (heap \<times> bool) option" where
  "sort_outer n m h None sw = Some (h, sw)"
| "sort_outer 0 m h (Some c1) sw = None"
| "sort_outer (Suc n) m h (Some c1) sw =
     (case sort_inner m h c1 (NextRecord h c1) sw of None \<Rightarrow> None
      | Some (h', c1', sw') \<Rightarrow> sort_outer n m h' (NextRecord h' c1') sw')"

section \<open>Well-formed lists\<close>

definition nth_opt :: "'a list \<Rightarrow> nat \<Rightarrow> 'a option" where
  "nth_opt xs k = (if k < length xs then Some (xs ! k) else None)"

definition linked :: "heap \<Rightarrow> nat list \<Rightarrow> bool" where
  "linked h xs \<longleftrightarrow> xs \<noteq> [] \<and> distinct xs \<and>
     (\<forall>k < length xs. alive h (xs ! k) \<and> xs ! k < brk h \<and>
        NextRecord h (xs ! k) = nth_opt xs (k + 1) \<and>
        PrevRecord h (xs ! k) = (if k = 0 then None else Some (xs ! (k - 1))))"

lemma linked_at:
  "linked h xs \<Longrightarrow> k < length xs \<Longrightarrow> alive h (xs ! k) \<and> xs ! k < brk h \<and>
     NextRecord h (xs ! k) = nth_opt xs (k + 1) \<and>
     PrevRecord h (xs ! k) = (if k = 0 then None else Some (xs ! (k - 1)))"
  by (simp add: linked_def)

lemma linked_same: "linked h xs \<Longrightarrow> i < length xs \<Longrightarrow> j < length xs \<Longrightarrow> xs ! i = xs ! j \<longleftrightarrow> i = j"
  by (simp add: linked_def nth_eq_iff_index_eq)

lemma linked_init: "linked (InitList h) [0]"
  by (simp add: linked_def InitList_def nth_opt_def)

lemma length_le_card: "distinct xs \<Longrightarrow> \<forall>x \<in> set xs. x < n \<Longrightarrow> length xs \<le> n"
  using card_mono [of "{..<n}" "set xs"] by (auto simp: distinct_card)

lemma linked_length: "linked h xs \<Longrightarrow> length xs \<le> brk h"
  by (rule length_le_card) (auto simp: linked_def in_set_conv_nth)

lemma walk_linked:
  "linked h xs \<Longrightarrow> k \<le> length xs \<Longrightarrow> length xs - k \<le> n \<Longrightarrow> walk n h (nth_opt xs k) = Whole (drop k xs)"
proof (induction n arbitrary: k)
  case 0
  then show ?case by (simp add: nth_opt_def)
next
  case (Suc n)
  show ?case
  proof (cases "k < length xs")
    case True
    with Suc linked_at [OF Suc.prems(1) True] Suc.IH [of "k + 1"] show ?thesis
      by (simp add: nth_opt_def Cons_nth_drop_Suc)
  next
    case False
    with Suc.prems show ?thesis by (simp add: nth_opt_def)
  qed
qed

lemma find_linked:
  "linked h xs \<Longrightarrow> k \<le> length xs \<Longrightarrow> length xs - k \<le> n \<Longrightarrow>
   find_node n h P (nth_opt xs k) =
     (case List.find P (drop k xs) of None \<Rightarrow> NotThere | Some a \<Rightarrow> FoundAt a)"
proof (induction n arbitrary: k)
  case 0
  then show ?case by (simp add: nth_opt_def)
next
  case (Suc n)
  show ?case
  proof (cases "k < length xs")
    case True
    then have "drop k xs = xs ! k # drop (Suc k) xs" by (simp add: Cons_nth_drop_Suc)
    with True Suc linked_at [OF Suc.prems(1) True] Suc.IH [of "k + 1"] show ?thesis
      by (simp add: nth_opt_def)
  next
    case False
    with Suc.prems show ?thesis by (simp add: nth_opt_def)
  qed
qed

section \<open>The operations on well-formed lists\<close>

lemma pointers [simp]:
  "NextRecord (set_next a p h) = (NextRecord h)(a := p)" "PrevRecord (set_next a p h) = PrevRecord h"
  "NextRecord (set_prev a p h) = NextRecord h" "PrevRecord (set_prev a p h) = (PrevRecord h)(a := p)"
  by (simp_all add: set_next_def set_prev_def)

definition same_cells :: "heap \<Rightarrow> heap \<Rightarrow> bool" where
  "same_cells h h' \<longleftrightarrow> ConfName h' = ConfName h \<and> ConfNum h' = ConfNum h \<and> alive h' = alive h \<and> brk h' = brk h"

lemma same_cells_set [simp]:
  "same_cells g (set_next a p h) = same_cells g h" "same_cells g (set_prev a p h) = same_cells g h" "same_cells h h"
  by (simp_all add: set_next_def set_prev_def same_cells_def)

lemma SwapNodes_adjacent:
  assumes "PrevRecord h a = Some p" "NextRecord h a = Some b" "distinct [p, a, b]"
    "NextRecord h b \<notin> {Some p, Some a, Some b}"
  shows "\<exists>h'. SwapNodes a b h = Some h' \<and> same_cells h h' \<and>
    NextRecord h' = (NextRecord h)(p := Some b, a := NextRecord h b, b := Some a) \<and>
    PrevRecord h' = (case NextRecord h b of None \<Rightarrow> PrevRecord h | Some q \<Rightarrow> (PrevRecord h)(q := Some a))
      (b := Some p, a := Some b)"
  using assms by (cases "NextRecord h b") (auto simp: SwapNodes_def Let_def if_some_def via_def fun_eq_iff)

lemma SwapNodes_apart:
  assumes "PrevRecord h a = Some p" "NextRecord h a = Some m" "PrevRecord h b = Some n"
    "distinct [p, a, b, m]" "distinct [a, b, n]" "NextRecord h b \<notin> {Some a, Some b, Some m, Some n}"
  shows "\<exists>h'. SwapNodes a b h = Some h' \<and> same_cells h h' \<and>
    NextRecord h' = (NextRecord h)(p := Some b, n := Some a, a := NextRecord h b, b := Some m) \<and>
    PrevRecord h' = (case NextRecord h b of None \<Rightarrow> PrevRecord h | Some q \<Rightarrow> (PrevRecord h)(q := Some a))
      (m := Some b, b := Some p, a := Some n)"
  using assms by (cases "NextRecord h b") (auto simp: SwapNodes_def Let_def if_some_def via_def fun_eq_iff)

lemma linked_nodes:
  assumes "linked h xs"
  shows "\<And>k l. k < length xs \<Longrightarrow> l < length xs \<Longrightarrow> (xs ! k = xs ! l) = (k = l)"
    and "\<And>k. k < length xs \<Longrightarrow> NextRecord h (xs ! k) = (if k + 1 < length xs then Some (xs ! (k + 1)) else None)"
    and "\<And>k. k < length xs \<Longrightarrow> PrevRecord h (xs ! k) = (if k = 0 then None else Some (xs ! (k - 1)))"
    and "\<And>k. k < length xs \<Longrightarrow> alive h (xs ! k) \<and> xs ! k < brk h"
    and "xs \<noteq> []" "distinct xs"
  using assms linked_at [OF assms] linked_same [OF assms] by (simp_all add: nth_opt_def linked_def)

lemma linkedI:
  assumes "xs \<noteq> []" "distinct xs"
    and "\<And>k. k < length xs \<Longrightarrow> alive h (xs ! k) \<and> xs ! k < brk h"
    and "\<And>k. k < length xs \<Longrightarrow> NextRecord h (xs ! k) = (if k + 1 < length xs then Some (xs ! (k + 1)) else None)"
    and "\<And>k. k < length xs \<Longrightarrow> PrevRecord h (xs ! k) = (if k = 0 then None else Some (xs ! (k - 1)))"
  shows "linked h xs"
  using assms by (simp add: linked_def nth_opt_def)

lemma linked_swap:
  assumes L: "linked h xs" and ij: "0 < i" "i < j" "j < length xs"
  shows "\<exists>h'. SwapNodes (xs ! i) (xs ! j) h = Some h' \<and> linked h' (swap_at i j xs) \<and> same_cells h h'"
proof -
  note N = linked_nodes [OF L]
  let ?q = "PrevRecord h"
  have last: "NextRecord h (xs ! j) = (if j + 1 < length xs then Some (xs ! (j + 1)) else None)"
    using N(2) ij by simp
  have "\<exists>h'. SwapNodes (xs ! i) (xs ! j) h = Some h' \<and> same_cells h h' \<and>
     (\<forall>k < length xs. NextRecord h' (swap_at i j xs ! k) = (if k + 1 < length xs then Some (swap_at i j xs ! (k + 1)) else None)) \<and>
     (\<forall>k < length xs. PrevRecord h' (swap_at i j xs ! k) = (if k = 0 then None else Some (swap_at i j xs ! (k - 1))))"
  proof (cases "j = i + 1")
    case True
    have "\<exists>h'. SwapNodes (xs ! i) (xs ! j) h = Some h' \<and> same_cells h h' \<and>
      NextRecord h' = (NextRecord h)(xs ! (i - 1) := Some (xs ! j), xs ! i := NextRecord h (xs ! j), xs ! j := Some (xs ! i)) \<and>
      PrevRecord h' = (case NextRecord h (xs ! j) of None \<Rightarrow> PrevRecord h | Some q \<Rightarrow> (PrevRecord h)(q := Some (xs ! i)))
      (xs ! j := Some (xs ! (i - 1)), xs ! i := Some (xs ! j))"
      by (rule SwapNodes_adjacent) (use True ij N in auto)
    then obtain h' where h': "SwapNodes (xs ! i) (xs ! j) h = Some h'" "same_cells h h'"
      "NextRecord h' = (NextRecord h)(xs ! (i - 1) := Some (xs ! j), xs ! i := NextRecord h (xs ! j), xs ! j := Some (xs ! i))"
      "PrevRecord h' = (case NextRecord h (xs ! j) of None \<Rightarrow> PrevRecord h | Some q \<Rightarrow> (PrevRecord h)(q := Some (xs ! i)))
      (xs ! j := Some (xs ! (i - 1)), xs ! i := Some (xs ! j))" by blast
    show ?thesis
      using h' ij True by (intro exI [of _ h'] conjI allI impI) (auto simp: last N nth_swap_at)
  next
    case False
    with ij have far: "i + 1 < j" by simp
    have "\<exists>h'. SwapNodes (xs ! i) (xs ! j) h = Some h' \<and> same_cells h h' \<and>
      NextRecord h' = (NextRecord h)(xs ! (i - 1) := Some (xs ! j), xs ! (j - 1) := Some (xs ! i), xs ! i := NextRecord h (xs ! j), xs ! j := Some (xs ! (i + 1))) \<and>
      PrevRecord h' = (case NextRecord h (xs ! j) of None \<Rightarrow> PrevRecord h | Some q \<Rightarrow> (PrevRecord h)(q := Some (xs ! i)))
      (xs ! (i + 1) := Some (xs ! j), xs ! j := Some (xs ! (i - 1)), xs ! i := Some (xs ! (j - 1)))"
      by (rule SwapNodes_apart) (use far ij N in auto)
    then obtain h' where h': "SwapNodes (xs ! i) (xs ! j) h = Some h'" "same_cells h h'"
      "NextRecord h' = (NextRecord h)(xs ! (i - 1) := Some (xs ! j), xs ! (j - 1) := Some (xs ! i), xs ! i := NextRecord h (xs ! j), xs ! j := Some (xs ! (i + 1)))"
      "PrevRecord h' = (case NextRecord h (xs ! j) of None \<Rightarrow> PrevRecord h | Some q \<Rightarrow> (PrevRecord h)(q := Some (xs ! i)))
      (xs ! (i + 1) := Some (xs ! j), xs ! j := Some (xs ! (i - 1)), xs ! i := Some (xs ! (j - 1)))" by blast
    show ?thesis
      using h' ij far by (intro exI [of _ h'] conjI allI impI) (auto simp: last N nth_swap_at)
  qed
  then obtain h' where h': "SwapNodes (xs ! i) (xs ! j) h = Some h'" "same_cells h h'"
    "\<And>k. k < length xs \<Longrightarrow> NextRecord h' (swap_at i j xs ! k) = (if k + 1 < length xs then Some (swap_at i j xs ! (k + 1)) else None)"
    "\<And>k. k < length xs \<Longrightarrow> PrevRecord h' (swap_at i j xs ! k) = (if k = 0 then None else Some (swap_at i j xs ! (k - 1)))" by blast
  have "linked h' (swap_at i j xs)"
    using N(4-6) ij h'
    by (intro linkedI) (auto simp: same_cells_def nth_swap_at simp flip: length_0_conv)
  with h' show ?thesis by blast
qed

text \<open>Given the later node first it still works, unless they are neighbours or the later is the last.\<close>

lemma linked_swap_back:
  assumes L: "linked h xs" and ij: "0 < i" "i + 1 < j" "j + 1 < length xs"
  shows "\<exists>h'. SwapNodes (xs ! j) (xs ! i) h = Some h' \<and> linked h' (swap_at i j xs) \<and> same_cells h h'"
proof -
  note N = linked_nodes [OF L]
  have "\<exists>h'. SwapNodes (xs ! j) (xs ! i) h = Some h' \<and> same_cells h h' \<and>
    NextRecord h' = (NextRecord h)(xs ! (j - 1) := Some (xs ! i), xs ! (i - 1) := Some (xs ! j), xs ! j := NextRecord h (xs ! i), xs ! i := Some (xs ! (j + 1))) \<and>
    PrevRecord h' = (case NextRecord h (xs ! i) of None \<Rightarrow> PrevRecord h | Some q \<Rightarrow> (PrevRecord h)(q := Some (xs ! j)))
      (xs ! (j + 1) := Some (xs ! i), xs ! i := Some (xs ! (j - 1)), xs ! j := Some (xs ! (i - 1)))"
    by (rule SwapNodes_apart) (use ij N in auto)
  moreover have "NextRecord h (xs ! i) = Some (xs ! (i + 1))" using N(2) ij by simp
  ultimately obtain h' where h': "SwapNodes (xs ! j) (xs ! i) h = Some h'" "same_cells h h'"
    "NextRecord h' = (NextRecord h)(xs ! (j - 1) := Some (xs ! i), xs ! (i - 1) := Some (xs ! j), xs ! j := Some (xs ! (i + 1)), xs ! i := Some (xs ! (j + 1)))"
    "PrevRecord h' = (PrevRecord h)(xs ! (i + 1) := Some (xs ! j), xs ! (j + 1) := Some (xs ! i), xs ! i := Some (xs ! (j - 1)), xs ! j := Some (xs ! (i - 1)))"
    by auto
  have "linked h' (swap_at i j xs)"
  proof (rule linkedI)
    fix k assume "k < length (swap_at i j xs)"
    then have k: "k < length xs" by simp
    show "alive h' (swap_at i j xs ! k) \<and> swap_at i j xs ! k < brk h'"
      using k ij N(4) h'(2) by (auto simp: same_cells_def nth_swap_at)
    show "NextRecord h' (swap_at i j xs ! k) = (if k + 1 < length (swap_at i j xs) then Some (swap_at i j xs ! (k + 1)) else None)"
    proof -
      have at: "NextRecord h' (xs ! l) = (if l = i then Some (xs ! (j + 1)) else if l = j then Some (xs ! (i + 1))
          else if l = i - 1 then Some (xs ! j) else if l = j - 1 then Some (xs ! i) else NextRecord h (xs ! l))"
        if "l < length xs" for l
        using that ij N(1) [of l i] N(1) [of l j] N(1) [of l "i - 1"] N(1) [of l "j - 1"] h'(3) by auto
      consider "k = i" | "k = j" | "k = i - 1" "k \<noteq> i" "k \<noteq> j" | "k = j - 1" "k \<noteq> i" "k \<noteq> j"
        | "k \<notin> {i, j, i - 1, j - 1}" by auto
      then show ?thesis
        by cases (use k ij N(2) at in \<open>auto simp: nth_swap_at\<close>)
    qed
    show "PrevRecord h' (swap_at i j xs ! k) = (if k = 0 then None else Some (swap_at i j xs ! (k - 1)))"
    proof -
      have at: "PrevRecord h' (xs ! l) = (if l = j then Some (xs ! (i - 1)) else if l = i then Some (xs ! (j - 1))
          else if l = j + 1 then Some (xs ! i) else if l = i + 1 then Some (xs ! j) else PrevRecord h (xs ! l))"
        if "l < length xs" for l
        using that ij N(1) [of l i] N(1) [of l j] N(1) [of l "i + 1"] N(1) [of l "j + 1"] h'(4) by auto
      consider "k = i" | "k = j" | "k = i + 1" "k \<noteq> i" "k \<noteq> j" | "k = j + 1" "k \<noteq> i" "k \<noteq> j"
        | "k \<notin> {i, j, i + 1, j + 1}" by auto
      then show ?thesis
        by cases (use k ij N(3) at in \<open>auto simp: nth_swap_at\<close>)
    qed
  qed (use N(5,6) ij in \<open>auto simp flip: length_0_conv\<close>)
  with h'(1,2) show ?thesis by blast
qed
text \<open>Taking an element out of a list, and putting one in.\<close>

definition remove_at :: "nat \<Rightarrow> 'a list \<Rightarrow> 'a list" where
  "remove_at i xs = take i xs @ drop (Suc i) xs"

definition insert_at :: "nat \<Rightarrow> 'a \<Rightarrow> 'a list \<Rightarrow> 'a list" where
  "insert_at j c xs = take j xs @ c # drop j xs"

lemma length_remove_at [simp]: "i < length xs \<Longrightarrow> length (remove_at i xs) = length xs - 1"
  by (simp add: remove_at_def)

lemma length_insert_at [simp]: "j \<le> length xs \<Longrightarrow> length (insert_at j c xs) = Suc (length xs)"
  by (simp add: insert_at_def)

lemma nth_remove_at:
  "i < length xs \<Longrightarrow> k + 1 < length xs \<Longrightarrow> remove_at i xs ! k = (if k < i then xs ! k else xs ! (k + 1))"
  by (simp add: remove_at_def nth_append min_def)

lemma nth_insert_at:
  "j \<le> length xs \<Longrightarrow> k \<le> length xs \<Longrightarrow>
   insert_at j c xs ! k = (if k < j then xs ! k else if k = j then c else xs ! (k - 1))"
  by (cases "k - j") (auto simp: insert_at_def nth_append min_def nth_Cons intro!: arg_cong [where f = "nth xs"])

lemma set_insert_at [simp]: "set (insert_at j c xs) = insert c (set xs)"
  by (simp add: insert_at_def) (metis Un_commute append_take_drop_id set_append)

lemma distinct_insert_at [simp]: "distinct (insert_at j c xs) \<longleftrightarrow> c \<notin> set xs \<and> distinct xs"
  by (simp add: insert_at_def) (metis append_take_drop_id distinct_append set_append Un_iff)

lemma remove_at_distinct:
  assumes "distinct xs" "i < length xs"
  shows "distinct (remove_at i xs)" and "set (remove_at i xs) = set xs - {xs ! i}"
proof -
  have "xs = take i xs @ xs ! i # drop (Suc i) xs" using assms by (simp add: id_take_nth_drop)
  then have "distinct (take i xs @ xs ! i # drop (Suc i) xs)"
    and s: "set xs = set (take i xs @ xs ! i # drop (Suc i) xs)" using assms by metis+
  then show "distinct (remove_at i xs)" and "set (remove_at i xs) = set xs - {xs ! i}"
    unfolding s by (auto simp: remove_at_def)
qed

lemma unlink_pointers:
  assumes "PrevRecord h a = Some p" "p \<noteq> a"
  shows "NextRecord (unlink_node a h) = (NextRecord h)(p := NextRecord h a)"
    and "PrevRecord (unlink_node a h) =
      (case NextRecord h a of None \<Rightarrow> PrevRecord h | Some q \<Rightarrow> (PrevRecord h)(q := Some p))"
    and "same_cells h (unlink_node a h)"
  using assms by (auto simp: unlink_node_def Let_def if_some_def split: option.splits)

lemma linked_unlink:
  assumes L: "linked h xs" and i: "0 < i" "i < length xs"
  shows "linked (unlink_node (xs ! i) h) (remove_at i xs)"
    and "same_cells h (unlink_node (xs ! i) h)"
proof -
  note N = linked_nodes [OF L]
  have P: "PrevRecord h (xs ! i) = Some (xs ! (i - 1))" and "xs ! (i - 1) \<noteq> xs ! i" using N i by auto
  note U = unlink_pointers [OF this]
  have X: "NextRecord h (xs ! i) = (if i + 1 < length xs then Some (xs ! (i + 1)) else None)" using N i by simp
  have "remove_at i xs \<noteq> []" using i length_remove_at [of i xs] by (cases "remove_at i xs") auto
  then show "linked (unlink_node (xs ! i) h) (remove_at i xs)"
    by (intro linkedI)
      (use i N(4-6) U(3) in \<open>auto simp: U X N nth_remove_at remove_at_distinct same_cells_def\<close>)
  show "same_cells h (unlink_node (xs ! i) h)" by (rule U(3))
qed

text \<open>\<open>Insert\<close> takes its first node out and links it before the second.\<close>

definition splice :: "nat \<Rightarrow> nat \<Rightarrow> heap \<Rightarrow> heap" where
  "splice a b h =
     (let h1 = set_prev a (PrevRecord h b) h;
          h2 = if_some (PrevRecord h1 b) (\<lambda>p. set_next p (Some a)) h1;
          h3 = set_prev b (Some a) h2
      in set_next a (Some b) h3)"

lemma Insert_splice:
  "PrevRecord h a = Some p \<Longrightarrow> p \<noteq> a \<Longrightarrow> Insert a b h = Some (splice a b (unlink_node a h))"
  by (cases "NextRecord h a")
    (simp_all add: Insert_def splice_def unlink_node_def via_def if_some_def Let_def
      cong: option.case_cong)

lemma splice_pointers:
  assumes "PrevRecord h b = Some p" "a \<noteq> b"
  shows "NextRecord (splice a b h) = (NextRecord h)(p := Some a, a := Some b)"
    and "PrevRecord (splice a b h) = (PrevRecord h)(a := Some p, b := Some a)"
    and "same_cells h (splice a b h)"
  using assms by (simp_all add: splice_def if_some_def Let_def)

lemma linked_splice:
  assumes L: "linked h xs" and j: "0 < j" "j < length xs" and a: "a \<notin> set xs" "alive h a" "a < brk h"
  shows "linked (splice a (xs ! j) h) (insert_at j a xs)"
    and "same_cells h (splice a (xs ! j) h)"
proof -
  note N = linked_nodes [OF L]
  have P: "PrevRecord h (xs ! j) = Some (xs ! (j - 1))" and "a \<noteq> xs ! j" using N(3) j a(1) by auto
  note S = splice_pointers [OF this]
  have out: "xs ! k \<noteq> a" if "k < length xs" for k using a(1) that by auto
  have ne: "insert_at j a xs \<noteq> []" by (simp add: insert_at_def)
  have shift: "xs ! (k - 1) = xs ! j \<longleftrightarrow> k = j + 1" if "k \<noteq> 0" "k \<le> length xs" for k
    using N(1) [of "k - 1" j] that j by auto
  show "linked (splice a (xs ! j) h) (insert_at j a xs)"
  proof (rule linkedI [OF ne])
    fix k assume k: "k < length (insert_at j a xs)"
    consider "k < j" | "k = j" | "j < k" by linarith
    note kc = this
    show "alive (splice a (xs ! j) h) (insert_at j a xs ! k) \<and>
        insert_at j a xs ! k < brk (splice a (xs ! j) h)"
      using kc by cases (use k j a N(4) S(3) in \<open>auto simp: nth_insert_at same_cells_def\<close>)
    show "NextRecord (splice a (xs ! j) h) (insert_at j a xs ! k) =
        (if k + 1 < length (insert_at j a xs) then Some (insert_at j a xs ! (k + 1)) else None)"
      using kc by cases (use k j out N(1,2) in \<open>auto simp: S nth_insert_at\<close>)
    show "PrevRecord (splice a (xs ! j) h) (insert_at j a xs ! k) =
        (if k = 0 then None else Some (insert_at j a xs ! (k - 1)))"
      using kc by cases (use k j out N(1,3) in \<open>auto simp: S nth_insert_at shift\<close>)
  qed (use a N(6) in simp_all)
  show "same_cells h (splice a (xs ! j) h)" by (rule S(3))
qed

lemma linked_insert:
  assumes L: "linked h xs" and ij: "0 < i" "i < length xs" "0 < j" "j < length xs" "i \<noteq> j"
  defines "k \<equiv> (if i < j then j - 1 else j)"
  shows "\<exists>h'. Insert (xs ! i) (xs ! j) h = Some h' \<and> same_cells h h' \<and>
           linked h' (insert_at k (xs ! i) (remove_at i xs))"
proof -
  note N = linked_nodes [OF L]
  let ?h = "unlink_node (xs ! i) h" and ?xs = "remove_at i xs"
  have U: "linked ?h ?xs" "same_cells h ?h" using linked_unlink [OF L ij(1,2)] .
  have k: "0 < k" "k < length ?xs" "?xs ! k = xs ! j"
    using ij nth_remove_at [of i xs k] by (auto simp: k_def)
  have "linked (splice (xs ! i) (?xs ! k) ?h) (insert_at k (xs ! i) ?xs)"
    "same_cells ?h (splice (xs ! i) (?xs ! k) ?h)"
    using linked_splice [OF U(1) k(1,2), of "xs ! i"] U(2) N ij
    by (auto simp: remove_at_distinct same_cells_def)
  moreover have "Insert (xs ! i) (xs ! j) h = Some (splice (xs ! i) (?xs ! k) ?h)"
    using Insert_splice [of h "xs ! i" "xs ! (i - 1)" "xs ! j"] N(1,3) ij k(3) by simp
  ultimately show ?thesis using U(2) by (auto simp: same_cells_def)
qed

text \<open>\<open>WriteToBuffers\<close> appends, and a fresh node is none of the old ones.\<close>

lemma linked_append:
  assumes L: "linked h xs"
  shows "linked (append_node (last xs) name n h) (xs @ [brk h])"
    and "ConfName (append_node (last xs) name n h) = (ConfName h)(brk h := name)"
    and "ConfNum (append_node (last xs) name n h) = (ConfNum h)(brk h := n)"
proof -
  note N = linked_nodes [OF L]
  have new: "xs ! k \<noteq> brk h" if "k < length xs" for k using N(4) [OF that] by simp
  then have fresh: "brk h \<notin> set xs" by (metis in_set_conv_nth)
  have l: "xs ! (length xs - 1) = last xs" using N(5) by (simp add: last_conv_nth)
  have lst: "xs ! k = last xs \<longleftrightarrow> k + 1 = length xs" if "k < length xs" for k
    using N(1) [of k "length xs - 1"] that l by auto
  have ll: "last xs \<noteq> brk h" using fresh last_in_set [OF N(5)] by metis
  let ?h = "append_node (last xs) name n h" and ?ys = "xs @ [brk h]"
  show "linked ?h ?ys"
  proof (rule linkedI)
    fix k assume k: "k < length ?ys"
    consider "k = length xs" | "k < length xs" using k by fastforce
    note kc = this
    show "alive ?h (?ys ! k) \<and> ?ys ! k < brk ?h"
      using kc by cases (use N(4) in \<open>auto simp: append_node_def Let_def nth_append less_Suc_eq\<close>)
    show "NextRecord ?h (?ys ! k) = (if k + 1 < length ?ys then Some (?ys ! (k + 1)) else None)"
    proof (cases "k = length xs")
      case True
      then show ?thesis by (simp add: append_node_def Let_def)
    next
      case False
      with k have "k < length xs" by simp
      with N(2) [OF this] new [OF this] lst [OF this] show ?thesis
        by (auto simp: append_node_def Let_def nth_append)
    qed
    show "PrevRecord ?h (?ys ! k) = (if k = 0 then None else Some (?ys ! (k - 1)))"
    proof (cases "k = length xs")
      case True
      then show ?thesis using N(5) l by (simp add: append_node_def Let_def nth_append)
    next
      case False
      with k have "k < length xs" by simp
      moreover from this have "k - 1 < length xs" by simp
      ultimately show ?thesis using N(3) [of k] new [of k]
        by (simp add: append_node_def Let_def nth_append)
    qed
  qed (use N(5,6) fresh in simp_all)
qed (simp_all add: append_node_def Let_def)

end
