(* ===== verification/CflSort.thy ===== *)
theory CflSort
  imports CflHeap
begin

text \<open>
  \<open>Shuffle\<close> and \<open>SortAll\<close> on well-formed lists: what they do to the nodes' numbers and order, and
  the exchange of two conferences given in the wrong order, which breaks the list.
\<close>

section \<open>Numbering\<close>

lemma renumber_same:
  "NextRecord (renumber k as h) = NextRecord h" "PrevRecord (renumber k as h) = PrevRecord h"
  "ConfName (renumber k as h) = ConfName h" "alive (renumber k as h) = alive h"
  "brk (renumber k as h) = brk h"
  by (induction k as h rule: renumber.induct) simp_all

lemma renumber_outside: "a \<notin> set as \<Longrightarrow> ConfNum (renumber k as h) a = ConfNum h a"
  by (induction k as h rule: renumber.induct) simp_all

lemma renumber_nth:
  "distinct as \<Longrightarrow> i < length as \<Longrightarrow> ConfNum (renumber k as h) (as ! i) = k + int i"
proof (induction k as h arbitrary: i rule: renumber.induct)
  case (2 k a as h)
  then show ?case by (cases i) (simp_all add: renumber_outside)
qed simp

lemma linked_cells:
  "linked h xs \<Longrightarrow> NextRecord g = NextRecord h \<Longrightarrow> PrevRecord g = PrevRecord h \<Longrightarrow>
   alive g = alive h \<Longrightarrow> brk g = brk h \<Longrightarrow> linked g xs"
  by (simp add: linked_def)

lemma linked_renumber: "linked h xs \<Longrightarrow> linked (renumber k as h) xs"
  by (erule linked_cells) (simp_all add: renumber_same)

text \<open>The names and the numbers a list shows: those of every node after the header.\<close>

definition names :: "heap \<Rightarrow> nat list \<Rightarrow> string list" where
  "names h xs = map (ConfName h) (tl xs)"

definition numbered :: "heap \<Rightarrow> nat list \<Rightarrow> bool" where
  "numbered h xs \<longleftrightarrow> (\<forall>i. 0 < i \<and> i < length xs \<longrightarrow> ConfNum h (xs ! i) = int i - 1)"

lemma tl_nth: "0 < i \<Longrightarrow> i < length xs \<Longrightarrow> tl xs ! (i - 1) = xs ! i"
  by (cases xs) auto

lemma renumber_numbered:
  assumes "linked h xs"
  shows "numbered (renumber 0 (tl xs) h) xs"
proof -
  have "distinct (tl xs)" using assms by (simp add: linked_def distinct_tl)
  then have n: "ConfNum (renumber 0 (tl xs) h) (tl xs ! i) = int i" if "i < length (tl xs)" for i
    using that by (simp add: renumber_nth)
  show ?thesis
    unfolding numbered_def
  proof (intro allI impI)
    fix i assume i: "0 < i \<and> i < length xs"
    then have "tl xs ! (i - 1) = xs ! i" by (simp only: tl_nth)
    moreover have "i - 1 < length (tl xs)" using i by (simp add: diff_less_mono)
    ultimately show "ConfNum (renumber 0 (tl xs) h) (xs ! i) = int i - 1"
      using n [of "i - 1"] i by (simp add: of_nat_diff)
  qed
qed

section \<open>Sorting\<close>

definition ordered_from :: "heap \<Rightarrow> nat list \<Rightarrow> nat \<Rightarrow> nat \<Rightarrow> bool" where
  "ordered_from h xs i j \<longleftrightarrow> (\<forall>k. i < k \<and> k < j \<longrightarrow> ConfName h (xs ! i) \<le> ConfName h (xs ! k))"

lemma sort_inner_linked:
  "linked h xs \<Longrightarrow> 0 < i \<Longrightarrow> i < j \<Longrightarrow> j \<le> length xs \<Longrightarrow> length xs - j \<le> n \<Longrightarrow> ordered_from h xs i j \<Longrightarrow>
   \<exists>h' ys sw'. sort_inner n h (xs ! i) (nth_opt xs j) sw = Some (h', ys ! i, sw') \<and>
     linked h' ys \<and> same_cells h h' \<and> mset ys = mset xs \<and> take i ys = take i xs \<and>
     ordered_from h ys i (length xs) \<and> (sw \<longrightarrow> sw') \<and> (\<not> sw' \<longrightarrow> h' = h \<and> ys = xs) \<and>
     (sw' \<longrightarrow> sw \<or> \<not> ordered_from h xs i (length xs))"
proof (induction n arbitrary: h xs j sw)
  case 0
  then show ?case by (auto simp: nth_opt_def intro!: exI [of _ h] exI [of _ xs])
next
  case (Suc n)
  note N = linked_nodes [OF Suc.prems(1)]
  show ?case
  proof (cases "j < length xs")
    case False
    with Suc.prems show ?thesis by (auto simp: nth_opt_def intro!: exI [of _ h] exI [of _ xs])
  next
    case True
    note j = True
    show ?thesis
    proof (cases "ConfName h (xs ! j) < ConfName h (xs ! i)")
      case False
      with Suc.prems(6) have o: "ordered_from h xs i (j + 1)"
        by (auto simp: ordered_from_def less_Suc_eq)
      have nx: "NextRecord h (xs ! j) = nth_opt xs (j + 1)" using N(2) j by (simp add: nth_opt_def)
      have "sort_inner (Suc n) h (xs ! i) (nth_opt xs j) sw = sort_inner n h (xs ! i) (nth_opt xs (j + 1)) sw"
        using j False nx by (simp add: nth_opt_def strcmp_greater_iff)
      with Suc.IH [OF Suc.prems(1,2) _ _ _ o, of sw] Suc.prems(3,5) j show ?thesis by simp
    next
      case lt: True
      obtain g where g: "SwapNodes (xs ! i) (xs ! j) h = Some g" "linked g (swap_at i j xs)" "same_cells h g"
        using linked_swap [OF Suc.prems(1-3) j] by blast
      let ?ys = "swap_at i j xs"
      have i: "i < length xs" using Suc.prems(3) j by simp
      have y: "?ys ! i = xs ! j" "?ys ! j = xs ! i" "\<And>k. k < length xs \<Longrightarrow> k \<noteq> i \<Longrightarrow> k \<noteq> j \<Longrightarrow> ?ys ! k = xs ! k"
        using i j by (simp_all add: nth_swap_at)
      have names_eq: "ConfName g = ConfName h" using g(3) by (simp add: same_cells_def)
      have nx: "NextRecord g (xs ! i) = nth_opt ?ys (j + 1)"
        using linked_nodes(2) [OF g(2), of j] j y(2) by (simp add: nth_opt_def)
      have o: "ordered_from g ?ys i (j + 1)"
        unfolding ordered_from_def
      proof (intro allI impI)
        fix k assume k: "i < k \<and> k < j + 1"
        show "ConfName g (?ys ! i) \<le> ConfName g (?ys ! k)"
        proof (cases "k = j")
          case True
          then show ?thesis using lt by (simp add: names_eq y)
        next
          case False
          then have "ConfName h (xs ! i) \<le> ConfName h (xs ! k)"
            using Suc.prems(6) k by (auto simp: ordered_from_def)
          with lt show ?thesis using False k j by (simp add: names_eq y)
        qed
      qed
      have "sort_inner (Suc n) h (xs ! i) (nth_opt xs j) sw = sort_inner n g (?ys ! i) (nth_opt ?ys (j + 1)) True"
        using j lt g(1) nx y(1) by (simp add: nth_opt_def strcmp_greater_iff)
      moreover obtain h' ys sw' where r:
        "sort_inner n g (?ys ! i) (nth_opt ?ys (j + 1)) True = Some (h', ys ! i, sw')"
        "linked h' ys" "same_cells g h'" "mset ys = mset ?ys" "take i ys = take i ?ys"
        "ordered_from g ys i (length ?ys)" "sw'"
      proof -
        have "i < j + 1" "j + 1 \<le> length ?ys" "length ?ys - (j + 1) \<le> n"
          using Suc.prems(3,5) j by simp_all
        from Suc.IH [OF g(2) Suc.prems(2) this o, of True] that show thesis by blast
      qed
      moreover have "take i ?ys = take i xs" using Suc.prems(3) by (simp add: swap_at_def)
      moreover have "\<not> ordered_from h xs i (length xs)"
        using lt Suc.prems(3) j by (auto simp: ordered_from_def)
      moreover have "same_cells h h'" using g(3) r(3) by (simp add: same_cells_def)
      moreover have "ordered_from h ys i (length xs)" using r(6) by (simp add: ordered_from_def names_eq)
      ultimately show ?thesis using i j by (intro exI [of _ h'] exI [of _ ys] exI [of _ sw']) simp
    qed
  qed
qed

lemma ordered_from_perm:
  assumes "ordered_from h xs a (length xs)" "a < i" "mset ys = mset xs" "take i ys = take i xs"
  shows "ordered_from h ys a (length xs)"
  unfolding ordered_from_def
proof (intro allI impI)
  fix k assume k: "a < k \<and> k < length xs"
  have len: "length ys = length xs" using assms(3) by (metis size_mset)
  have same: "ys ! b = xs ! b" if "b < i" for b using assms(4) that by (metis nth_take)
  show "ConfName h (ys ! a) \<le> ConfName h (ys ! k)"
  proof (cases "k < i")
    case True
    with assms(1,2) k same show ?thesis by (auto simp: ordered_from_def)
  next
    case False
    have "mset (drop i ys) = mset (drop i xs)"
      using assms(3,4) by (metis add_left_cancel append_take_drop_id mset_append)
    moreover have "ys ! k \<in> set (drop i ys)"
      using False k len by (auto simp: in_set_conv_nth intro!: exI [of _ "k - i"])
    ultimately have "ys ! k \<in> set (drop i xs)" by (metis set_mset_mset)
    then obtain l where "l < length xs - i" "ys ! k = xs ! (i + l)" by (auto simp: in_set_conv_nth)
    with assms(1,2) same show ?thesis by (auto simp: ordered_from_def)
  qed
qed

lemma sort_outer_linked:
  "linked h xs \<Longrightarrow> 0 < i \<Longrightarrow> i \<le> length xs \<Longrightarrow> length xs - i \<le> n \<Longrightarrow> length xs \<le> m \<Longrightarrow>
   \<forall>a. 0 < a \<and> a < i \<longrightarrow> ordered_from h xs a (length xs) \<Longrightarrow>
   \<exists>h' ys sw'. sort_outer n m h (nth_opt xs i) sw = Some (h', sw') \<and> linked h' ys \<and>
     same_cells h h' \<and> mset ys = mset xs \<and> take 1 ys = take 1 xs \<and>
     (\<forall>a. 0 < a \<longrightarrow> ordered_from h ys a (length xs)) \<and> (\<not> sw' \<longrightarrow> ys = xs \<and> h' = h) \<and> (sw \<longrightarrow> sw') \<and>
     (sw' \<longrightarrow> sw \<or> (\<exists>a>0. \<not> ordered_from h xs a (length xs)))"
proof (induction n arbitrary: h xs i sw)
  case 0
  then have "i = length xs" by simp
  moreover have "ordered_from h xs a (length xs)" if "0 < a" for a
    using 0 that by (cases "a < i") (auto simp: ordered_from_def)
  ultimately show ?case
    using 0 by (intro exI [of _ h] exI [of _ xs] exI [of _ sw]) (auto simp: nth_opt_def)
next
  case (Suc n)
  show ?case
  proof (cases "i < length xs")
    case False
    then have "i = length xs" using Suc.prems by simp
    moreover have "ordered_from h xs a (length xs)" if "0 < a" for a
      using Suc.prems False that by (cases "a < i") (auto simp: ordered_from_def)
    ultimately show ?thesis
      using Suc.prems by (intro exI [of _ h] exI [of _ xs] exI [of _ sw]) (auto simp: nth_opt_def)
  next
    case i: True
    have nx: "NextRecord h (xs ! i) = nth_opt xs (i + 1)"
      using linked_nodes(2) [OF Suc.prems(1) i] by (simp add: nth_opt_def)
    have "i < i + 1" "i + 1 \<le> length xs" "length xs - (i + 1) \<le> m" "ordered_from h xs i (i + 1)"
      using i Suc.prems(5) by (auto simp: ordered_from_def)
    from sort_inner_linked [OF Suc.prems(1,2) this, of sw] obtain g ys sw1 where r:
      "sort_inner m h (xs ! i) (nth_opt xs (i + 1)) sw = Some (g, ys ! i, sw1)" "linked g ys"
      "same_cells h g" "mset ys = mset xs" "take i ys = take i xs" "ordered_from h ys i (length xs)"
      "sw \<longrightarrow> sw1" "\<not> sw1 \<longrightarrow> g = h \<and> ys = xs" "sw1 \<longrightarrow> sw \<or> \<not> ordered_from h xs i (length xs)"
      by blast
    have len: "length ys = length xs" using r(4) by (metis size_mset)
    have nxy: "NextRecord g (ys ! i) = nth_opt ys (i + 1)"
      using linked_nodes(2) [OF r(2), of i] i len by (simp add: nth_opt_def)
    have nm: "ordered_from g zs a b = ordered_from h zs a b" for zs a b
      using r(3) by (simp add: ordered_from_def same_cells_def)
    have pre: "\<forall>a. 0 < a \<and> a < i + 1 \<longrightarrow> ordered_from g ys a (length ys)"
      using Suc.prems(6) r(4-6) len by (auto simp: nm less_Suc_eq intro: ordered_from_perm)
    have "0 < i + 1" "i + 1 \<le> length ys" "length ys - (i + 1) \<le> n" "length ys \<le> m"
      using i len Suc.prems(4,5) by simp_all
    from Suc.IH [OF r(2) this pre, of sw1] obtain h' zs sw2 where z:
      "sort_outer n m g (nth_opt ys (i + 1)) sw1 = Some (h', sw2)" "linked h' zs" "same_cells g h'"
      "mset zs = mset ys" "take 1 zs = take 1 ys"
      "\<forall>a. 0 < a \<longrightarrow> ordered_from g zs a (length ys)" "\<not> sw2 \<longrightarrow> zs = ys \<and> h' = g" "sw1 \<longrightarrow> sw2"
      "sw2 \<longrightarrow> sw1 \<or> (\<exists>a>0. \<not> ordered_from g ys a (length ys))"
      by blast
    have run: "sort_outer (Suc n) m h (nth_opt xs i) sw = Some (h', sw2)"
      using i r(1) z(1) nx nxy by (simp add: nth_opt_def)
    have "take 1 ys = take 1 xs"
    proof -
      have "take 1 ys = take 1 (take i ys)" "take 1 xs = take 1 (take i xs)" using Suc.prems(2) by simp_all
      then show ?thesis using r(5) by simp
    qed
    moreover have "same_cells h h'" using r(3) z(3) by (simp add: same_cells_def)
    moreover have "sw2 \<longrightarrow> sw \<or> (\<exists>a>0. \<not> ordered_from h xs a (length xs))"
      using r(8,9) z(9) Suc.prems(2) by (auto simp: nm)
    ultimately show ?thesis
      using run z(2,4-8) r(4,7,8) len by (intro exI [of _ h'] exI [of _ zs] exI [of _ sw2]) (auto simp: nm)
  qed
qed

lemma ordered_sorted: "(\<forall>a. 0 < a \<longrightarrow> ordered_from h xs a (length xs)) \<longleftrightarrow> sorted (names h xs)"
proof -
  have "(\<forall>a. 0 < a \<longrightarrow> ordered_from h xs a (length xs)) \<longleftrightarrow>
    (\<forall>i j. i < j \<and> j < length (names h xs) \<longrightarrow> names h xs ! i \<le> names h xs ! j)"
  proof (intro iffI allI impI)
    fix i j
    assume o: "\<forall>a. 0 < a \<longrightarrow> ordered_from h xs a (length xs)" and ij: "i < j \<and> j < length (names h xs)"
    then have "ordered_from h xs (Suc i) (length xs)" by simp
    then show "names h xs ! i \<le> names h xs ! j"
      using ij by (auto simp: ordered_from_def names_def nth_tl)
  next
    fix a :: nat
    assume o: "\<forall>i j. i < j \<and> j < length (names h xs) \<longrightarrow> names h xs ! i \<le> names h xs ! j" and a: "0 < a"
    show "ordered_from h xs a (length xs)"
      unfolding ordered_from_def
    proof (intro allI impI)
      fix k assume k: "a < k \<and> k < length xs"
      with a have "a - 1 < k - 1 \<and> k - 1 < length (names h xs)" by (simp add: names_def diff_less_mono)
      with o have "names h xs ! (a - 1) \<le> names h xs ! (k - 1)" by blast
      then show "ConfName h (xs ! a) \<le> ConfName h (xs ! k)"
        using a k tl_nth [of a xs] tl_nth [of k xs] by (simp add: names_def diff_less_mono)
    qed
  qed
  then show ?thesis by (simp add: sorted_iff_nth_mono_less imp_conjL)
qed

lemma names_perm:
  assumes "mset ys = mset xs" "take 1 ys = take 1 xs" "xs \<noteq> []"
  shows "mset (names h ys) = mset (names h xs)"
proof -
  have "tl ys = drop 1 ys" "tl xs = drop 1 xs" by (simp_all add: drop_Suc)
  then have "mset (tl ys) = mset (tl xs)"
    using assms(1,2) by (metis add_left_cancel append_take_drop_id mset_append)
  then show ?thesis by (simp add: names_def)
qed

text \<open>\<open>SortAll\<close> sorts, and notices exactly the lists that were not in order.\<close>

lemma sort_linked:
  assumes L: "linked h xs" and n: "length xs \<le> n" "length xs \<le> m"
  shows "\<exists>h' ys sw. sort_outer n m h (nth_opt xs 1) False = Some (h', sw) \<and> linked h' ys \<and>
    same_cells h h' \<and> ys ! 0 = xs ! 0 \<and> names h' ys = sort (names h xs) \<and>
    (sw \<longleftrightarrow> \<not> sorted (names h xs)) \<and> (\<not> sw \<longrightarrow> h' = h \<and> ys = xs)"
proof -
  have ne: "xs \<noteq> []" using L by (simp add: linked_def)
  then have "(0::nat) < 1" "1 \<le> length xs" "length xs - 1 \<le> n" "length xs \<le> m"
    "\<forall>a. 0 < a \<and> a < 1 \<longrightarrow> ordered_from h xs a (length xs)"
    using n by (simp_all add: Suc_le_eq)
  from sort_outer_linked [OF L this, of False] obtain h' ys sw where r:
    "sort_outer n m h (nth_opt xs 1) False = Some (h', sw)" "linked h' ys" "same_cells h h'"
    "mset ys = mset xs" "take 1 ys = take 1 xs" "\<forall>a. 0 < a \<longrightarrow> ordered_from h ys a (length xs)"
    "\<not> sw \<longrightarrow> ys = xs \<and> h' = h" "sw \<longrightarrow> (\<exists>a>0. \<not> ordered_from h xs a (length xs))"
    by blast
  have len: "length ys = length xs" using r(4) by (metis size_mset)
  have srt: "sorted (names h ys)" using r(6) ordered_sorted [of h ys] len by simp
  have nm: "names h' ys = names h ys" using r(3) by (simp add: names_def same_cells_def)
  have "names h' ys = sort (names h xs)"
    using names_perm [OF r(4,5) ne, of h] srt by (simp add: nm properties_for_sort)
  moreover have "sw \<longleftrightarrow> \<not> sorted (names h xs)"
    using r(7,8) srt ordered_sorted [of h xs] by auto
  moreover have "ys ! 0 = xs ! 0" using r(5) ne by (metis nth_take zero_less_one)
  ultimately show ?thesis using r by blast
qed

section \<open>Exchanging backwards\<close>

text \<open>
  \<open>SwapNodes\<close> expects its first node before the second. Given two neighbours the other way round
  it makes them point at each other, and given the last node first it stores through NULL.
\<close>

lemma swap_backwards_pointers:
  assumes "PrevRecord h a = Some b" "PrevRecord h b = Some p" "NextRecord h a = Some q"
    "NextRecord h b = Some a" "distinct [p, b, a, q]"
  shows "\<exists>h'. SwapNodes a b h = Some h' \<and> same_cells h h' \<and>
    NextRecord h' = (NextRecord h)(b := Some a, a := Some b)"
  using assms by (auto simp: SwapNodes_def Let_def if_some_def via_def fun_eq_iff)

lemma swap_last_backwards:
  assumes L: "linked h xs" and ij: "0 < j" "j < i" "i + 1 = length xs"
  shows "SwapNodes (xs ! i) (xs ! j) h = None"
proof -
  note N = linked_nodes [OF L]
  have "NextRecord h (xs ! i) = None" "PrevRecord h (xs ! i) = Some (xs ! (i - 1))" "xs ! (i - 1) \<noteq> xs ! i"
    using N ij by auto
  then show ?thesis by (simp add: SwapNodes_def Let_def if_some_def via_def split: option.splits)
qed

lemma walk_cycle:
  assumes "NextRecord h a = Some b" "NextRecord h b = Some a" "alive h a" "alive h b"
  shows "walk n h (Some a) = Loops" and "walk n h (Some b) = Loops"
  using assms by (induction n) simp_all

lemma swap_backwards_loops:
  assumes L: "linked h xs" and j: "0 < j" "j + 2 < length xs"
  shows "\<exists>h'. SwapNodes (xs ! (j + 1)) (xs ! j) h = Some h' \<and> (\<forall>n. walk n h' (NextRecord h' (xs ! 0)) = Loops)"
proof -
  note N = linked_nodes [OF L]
  have "PrevRecord h (xs ! (j + 1)) = Some (xs ! j)" "PrevRecord h (xs ! j) = Some (xs ! (j - 1))"
    "NextRecord h (xs ! (j + 1)) = Some (xs ! (j + 2))" "NextRecord h (xs ! j) = Some (xs ! (j + 1))"
    "distinct [xs ! (j - 1), xs ! j, xs ! (j + 1), xs ! (j + 2)]"
    using N(1-3) j by auto
  from swap_backwards_pointers [OF this] obtain h' where h':
    "SwapNodes (xs ! (j + 1)) (xs ! j) h = Some h'" "same_cells h h'"
    "NextRecord h' = (NextRecord h)(xs ! j := Some (xs ! (j + 1)), xs ! (j + 1) := Some (xs ! j))" by blast
  have al: "alive h' (xs ! k)" if "k < length xs" for k
    using h'(2) N(4) that by (simp add: same_cells_def)
  have "walk n h' (Some (xs ! k)) = Loops" if "k \<le> j" for k n
    using that
  proof (induction "j - k" arbitrary: k n)
    case 0
    then have "k = j" by simp
    have "NextRecord h' (xs ! j) = Some (xs ! (j + 1))" "NextRecord h' (xs ! (j + 1)) = Some (xs ! j)"
      using h'(3) N(1) j by auto
    from walk_cycle(1) [OF this] al j show ?case unfolding \<open>k = j\<close> by simp
  next
    case (Suc d)
    then have k: "k < j" by simp
    then have "NextRecord h' (xs ! k) = Some (xs ! (k + 1))"
      using h'(3) N(1,2) j by auto
    with Suc.hyps(1) [of "k + 1"] Suc.hyps(2) k al [of k] j show ?case by (cases n) auto
  qed
  moreover have "NextRecord h' (xs ! 0) = Some (xs ! 1)"
    using h'(3) N(1) [of 0 j] N(1) [of 0 "j + 1"] N(2) [of 0] N(5) j by auto
  ultimately have "\<forall>n. walk n h' (NextRecord h' (xs ! 0)) = Loops" using j by simp
  with h'(1) show ?thesis by blast
qed

end
