(* ===== verification/CflText.thy ===== *)
theory CflText
  imports CflSort
begin

text \<open>
  The state of \<open>soft/cmd/cflbuild\<close>, its memory, and the routines on text: keyboard input, wrapped
  output, blank lines, the tokens of a \<open>.cflist\<close> line and the name in a line of \<open>public.txt\<close>.
\<close>

section \<open>The state\<close>

text \<open>
  \<open>PublicConf\<close> and \<open>Category\<close> lists are only ever appended to and nothing keeps a pointer into them
  across an append, so they are lists; \<open>CatList\<close> is \<open>None\<close> while the pointer is NULL, and the header
  node it starts with is left out.
\<close>

record pub =
  pub_line :: string
  pub_num :: int
  SerialNum :: int

record cat =
  Category :: string
  CatNum :: int
  ConfPub :: "pub list"

text \<open>
  \<open>grants\<close> is the number of allocations the system still satisfies. \<open>files\<close> holds the files by path.
\<close>

record cfl = tty +
  nodes :: heap
  Conf :: "nat option"
  CatList :: "cat list option"
  PrintCount :: nat
  CflName :: string
  User :: string
  files :: "string \<Rightarrow> string option"
  grants :: nat

type_synonym 'a cflp = "('a, cfl) prog"

text \<open>
  What the program asks of the system: the login name and home directory, whether an existing file
  can be opened for update, whether a file can be created or truncated, whether a write succeeds
  that follows the given text in the file, and the list of public conferences.
\<close>

record cfl_env =
  pw_name :: string
  pw_dir :: string
  updatable :: "string \<Rightarrow> bool"
  creatable :: "string \<Rightarrow> bool"
  fwrite_ok :: "string \<Rightarrow> bool"
  public_txt :: "string option"

section \<open>Memory\<close>

definition malloc :: "bool cflp" where
  "malloc s = (if grants s = 0 then (Ret False, s) else (Ret True, s\<lparr>grants := grants s - 1\<rparr>))"

text \<open>Every walk visits at most \<open>brk\<close> nodes unless it goes round for ever.\<close>

definition whole_list :: "nat option \<Rightarrow> (nat list \<Rightarrow> 'a cflp) \<Rightarrow> 'a cflp" where
  "whole_list p k s = (case walk (Suc (brk (nodes s))) (nodes s) p of
     Whole xs \<Rightarrow> k xs s | Loops \<Rightarrow> (Hang, s) | Dangling \<Rightarrow> (Undef, s))"

text \<open>Freeing a list that goes round frees and then reads its first node a second time.\<close>

definition FreeList :: "unit cflp" where
  "FreeList s = (case walk (Suc (brk (nodes s))) (nodes s) (Conf s) of
     Whole xs \<Rightarrow> (Ret (), s\<lparr>Conf := None, nodes := fold free_node xs (nodes s)\<rparr>)
   | _ \<Rightarrow> (Undef, s))"

definition FreePublicConf :: "unit cflp" where
  "FreePublicConf = upd (\<lambda>s. s\<lparr>CatList := None\<rparr>)"

definition FreeMemory :: "unit cflp" where
  "FreeMemory = sq FreeList FreePublicConf"

definition no_memory :: "'a cflp" where
  "no_memory = sq (puts ''Cannot Allocate Memory\<newline>'') (sq FreeMemory (exit_prog 0))"

definition thanks :: "string \<Rightarrow> string" where
  "thanks u = ''\<newline>Thanks for using .cflist builder program \"'' @ u @ ''\". Bye!!!\<newline>\<newline>''"

definition Ctrl_C_Handler :: "unit cflp" where
  "Ctrl_C_Handler = sq FreeMemory
     (sq (puts ''\<newline>\<newline>Ctrl-C Encountered...\<newline>'') (sq (puts ''Exiting the program...\<newline>'')
     (bnd (gets User) (\<lambda>u. sq (puts (thanks u)) (exit_prog 0)))))"

section \<open>Input and output\<close>

text \<open>
  \<open>GetString\<close> keeps digits, blanks and \<open>q\<close>; it stops at a line end, or at the character after \<open>Len\<close>
  kept ones. A character read as negative, which is the end of the input or a byte with its high
  bit set, ends the program. \<open>fflush\<close> of the input has no effect.
\<close>

fun get_string :: "nat \<Rightarrow> string \<Rightarrow> string \<Rightarrow> string option \<times> string" where
  "get_string n acc [] = (None, [])"
| "get_string n acc (c # cs) =
     (if 128 \<le> byte c then (None, cs)
      else if c = CR \<or> c = NL \<or> n \<le> length acc then (Some acc, cs)
      else get_string n (if isdigit c \<or> c = SPC \<or> c = CHR ''q'' then acc @ [c] else acc) cs)"

definition GetString :: "nat \<Rightarrow> string cflp" where
  "GetString n s = (case get_string n [] (tin s) of
     (Some str, rest) \<Rightarrow> (Ret str, s\<lparr>tin := rest\<rparr>)
   | (None, rest) \<Rightarrow>
       sq FreeMemory
         (sq (puts ''\<newline>\<newline>Ctrl Character Encountered...\<newline>'') (sq (puts ''Exiting the program...\<newline>'')
         (bnd (gets User) (\<lambda>u. sq (puts (thanks u)) (exit_prog 0))))) (s\<lparr>tin := rest\<rparr>))"

fun print_string :: "string \<Rightarrow> nat \<Rightarrow> string \<times> nat" where
  "print_string [] n = ([], n)"
| "print_string (c # cs) n =
     (let (pre, n1) = (if 78 \<le> n then (''\<newline>'', 0) else ('''', n));
          (out, n2) = print_string cs (n1 + 1)
      in (pre @ c # out, n2))"

definition PrintString :: "string \<Rightarrow> unit cflp" where
  "PrintString b = upd (\<lambda>s. let (out, n) = print_string b (PrintCount s)
     in s\<lparr>tout := tout s @ out, PrintCount := n\<rparr>)"

text \<open>\<open>Yes = getchar(); getc(stdin);\<close> with the end of the input not being a \<open>y\<close>.\<close>

definition ask_yes :: "bool cflp" where
  "ask_yes = bnd getchar (\<lambda>c. bnd getchar (\<lambda>_. ret (c = Some CHR ''y'')))"

section \<open>Text\<close>

definition blank_char :: "char \<Rightarrow> bool" where
  "blank_char c \<longleftrightarrow> c = CR \<or> c = NL \<or> c = TAB \<or> c = SPC"

definition Isblank :: "string \<Rightarrow> bool" where
  "Isblank b = list_all blank_char b"

definition separator :: "char \<Rightarrow> bool" where
  "separator c \<longleftrightarrow> c = SPC \<or> c = CHR '','' \<or> c = TAB"

text \<open>\<open>ExtractTokens\<close> on the rest of the line from \<open>Index\<close> on: the token, and the rest after it.\<close>

definition ExtractTokens :: "string \<Rightarrow> string \<times> string" where
  "ExtractTokens f =
     (let f1 = dropWhile separator f
      in (takeWhile (\<lambda>c. \<not> separator c) f1,
          dropWhile separator (dropWhile (\<lambda>c. \<not> separator c) f1)))"

lemma ExtractTokens_shrinks:
  assumes "f \<noteq> []"
  shows "length (snd (ExtractTokens f)) < length f"
proof (cases "separator (hd f)")
  case True
  with assms have "length (dropWhile separator f) < length f"
    by (cases f) (simp_all add: length_dropWhile_le less_Suc_eq_le)
  then show ?thesis
    unfolding ExtractTokens_def Let_def snd_conv
    by (meson le_less_trans length_dropWhile_le)
next
  case False
  with assms have "dropWhile separator f = f" "length (dropWhile (\<lambda>c. \<not> separator c) f) < length f"
    by (cases f; simp add: length_dropWhile_le less_Suc_eq_le)+
  then show ?thesis
    unfolding ExtractTokens_def Let_def snd_conv
    by (metis le_less_trans length_dropWhile_le)
qed

function tokens :: "string \<Rightarrow> string list" where
  "tokens f = (if f = [] then [] else fst (ExtractTokens f) # tokens (snd (ExtractTokens f)))"
  by pat_completeness auto
termination
  by (relation "measure length") (simp_all add: ExtractTokens_shrinks)

declare tokens.simps [simp del]

text \<open>
  \<open>ExtractConfName\<close> into a buffer of \<open>n\<close> bytes. A line of a conference starts with a blank, a line of
  a category does not and has a colon. The copy of a conference's name ends at a blank or tab only:
  \<open>Overruns\<close> is running off the end of the line, or of the buffer.
\<close>

datatype extracted = NoName | CatName string | TheName string | Overruns

definition ExtractConfName :: "nat \<Rightarrow> string \<Rightarrow> extracted" where
  "ExtractConfName n f =
     (let is_cat = (f = [] \<or> hd f \<noteq> SPC) in
      if is_cat \<and> CHR '':'' \<notin> set f then NoName
      else if Isblank f then NoName
      else let g = dropWhile (\<lambda>c. c = SPC \<or> c = TAB) f in
        if is_cat then
          (let name = takeWhile (\<lambda>c. c \<noteq> CHR '':'' \<and> c \<noteq> NL) g
           in if length name < n then CatName name else Overruns)
        else
          (let name = takeWhile (\<lambda>c. c \<noteq> SPC \<and> c \<noteq> TAB) g
           in if name = g \<or> n \<le> length name then Overruns else TheName name))"

end
