(* ===== verification/CflPublic.thy ===== *)
theory CflPublic
  imports CflText
begin

text \<open>
  The list of public conferences (\<open>soft/cmd/cflbuild/cflsub.c\<close>): reading \<open>public.txt\<close> into categories
  and their conferences, displaying it, and looking a conference up by number.
\<close>

section \<open>Building the lists\<close>

text \<open>A record and the room for its name; either allocation may fail.\<close>

definition AllocCats :: "unit cflp" where
  "AllocCats = bnd malloc (\<lambda>ok. if \<not> ok then no_memory
     else bnd malloc (\<lambda>ok2. if \<not> ok2 then no_memory else ret ()))"

definition AllocConfs :: "unit cflp" where
  "AllocConfs = bnd malloc (\<lambda>ok. if \<not> ok then no_memory
     else bnd malloc (\<lambda>ok2. if \<not> ok2 then no_memory else ret ()))"

text \<open>
  When the second pair of allocations fails, the cleanup follows the new header's link field before
  anything was stored there.
\<close>

definition InitPublicConf :: "unit cflp" where
  "InitPublicConf = sq AllocCats (bnd (gets grants) (\<lambda>g.
     if g < 2 then undef else sq AllocConfs (upd (\<lambda>s. s\<lparr>CatList := Some []\<rparr>))))"

fun find_cat :: "int \<Rightarrow> cat list \<Rightarrow> cat option" where
  "find_cat n [] = None"
| "find_cat n (c # cs) = (if CatNum c = n then Some c else find_cat n cs)"

definition cats :: "cfl \<Rightarrow> cat list" where
  "cats s = (case CatList s of None \<Rightarrow> [] | Some cs \<Rightarrow> cs)"

text \<open>Every use of \<open>CatList\<close> dereferences it.\<close>

definition with_cats :: "(cat list \<Rightarrow> 'a cflp) \<Rightarrow> 'a cflp" where
  "with_cats k s = (case CatList s of None \<Rightarrow> (Undef, s) | Some cs \<Rightarrow> k cs s)"

definition FindCat :: "int \<Rightarrow> cat option cflp" where
  "FindCat n = with_cats (\<lambda>cs. ret (find_cat n cs))"

text \<open>Append a conference to the first category with the number.\<close>

fun add_pub :: "int \<Rightarrow> pub \<Rightarrow> cat list \<Rightarrow> cat list" where
  "add_pub n p [] = []"
| "add_pub n p (c # cs) =
     (if CatNum c = n then c\<lparr>ConfPub := ConfPub c @ [p]\<rparr> # cs else c # add_pub n p cs)"

definition set_cats :: "(cat list \<Rightarrow> cat list) \<Rightarrow> unit cflp" where
  "set_cats f = upd (\<lambda>s. s\<lparr>CatList := map_option f (CatList s)\<rparr>)"

definition WriteToPublicConf :: "string \<Rightarrow> string \<Rightarrow> int \<Rightarrow> int \<Rightarrow> int \<Rightarrow> bool \<Rightarrow> unit cflp" where
  "WriteToPublicConf buffer name catnum confnum serial which =
     (if which then
        with_cats (\<lambda>_. sq AllocCats
          (set_cats (\<lambda>cs. cs @ [\<lparr>Category = name, CatNum = catnum, ConfPub = []\<rparr>])))
      else bnd (FindCat (catnum - 1)) (\<lambda>c. case c of
          None \<Rightarrow> ret ()
        | Some _ \<Rightarrow> sq AllocConfs
            (set_cats (add_pub (catnum - 1) \<lparr>pub_line = buffer, pub_num = confnum, SerialNum = serial\<rparr>))))"

text \<open>The loop over the lines of \<open>public.txt\<close>; the conference numbers start again in every category.\<close>

fun read_public :: "string list \<Rightarrow> int \<Rightarrow> int \<Rightarrow> int \<Rightarrow> unit cflp" where
  "read_public [] catnum confnum serial = ret ()"
| "read_public (l # ls) catnum confnum serial =
     (case ExtractConfName 30 l of
        CatName name \<Rightarrow> sq (WriteToPublicConf l name catnum confnum serial True)
                          (read_public ls (catnum + 1) 0 serial)
      | TheName name \<Rightarrow> sq (WriteToPublicConf l name catnum confnum serial False)
                          (read_public ls catnum (confnum + 1) (serial + 1))
      | NoName \<Rightarrow> read_public ls catnum confnum serial
      | Overruns \<Rightarrow> undef)"

definition ReadPublicTxt :: "cfl_env \<Rightarrow> unit cflp" where
  "ReadPublicTxt e = (case public_txt e of
     None \<Rightarrow> sq (puts ''File \"public.txt\" doesn't exist\<newline>'') (sq FreeMemory (exit_prog 0))
   | Some f \<Rightarrow> sq InitPublicConf (read_public (map cstr (pieces 127 f)) 0 0 0))"

section \<open>Displaying them\<close>

definition print_all :: "string list \<Rightarrow> unit cflp" where
  "print_all xs = foldr (\<lambda>x m. sq (PrintString x) m) xs (ret ())"

definition DispCategories :: "unit cflp" where
  "DispCategories = sq (upd (\<lambda>s. s\<lparr>PrintCount := 0\<rparr>))
     (sq (puts ''\<newline>These are the categories available :\<newline>\<newline>'')
     (with_cats (\<lambda>cs.
        sq (print_all (map (\<lambda>c. take 199 (dec (CatNum c) @ ''.'' @ Category c @ '' '')) cs))
           (puts ''\<newline>\<newline>''))))"

definition disp_pub :: "pub \<Rightarrow> unit cflp" where
  "disp_pub p = (case ExtractConfName 200 (pub_line p) of
     TheName name \<Rightarrow> PrintString (take 399 (dec (SerialNum p) @ ''.'' @ name @ '' ''))
   | Overruns \<Rightarrow> undef | _ \<Rightarrow> ret ())"

definition DispAllPublicConfs :: "unit cflp" where
  "DispAllPublicConfs = sq (upd (\<lambda>s. s\<lparr>PrintCount := 0\<rparr>))
     (sq (puts ''\<newline>Short Listing Of All Conferences : \<newline>\<newline>'')
     (with_cats (\<lambda>cs.
        sq (foldr (\<lambda>p m. sq (disp_pub p) m) (concat (map ConfPub cs)) (ret ()))
           (puts ''\<newline>\<newline>''))))"

text \<open>The result is the list of the category's conferences; an empty one is the NULL pointer.\<close>

definition DispPublicConf :: "int \<Rightarrow> pub list cflp" where
  "DispPublicConf n = bnd (FindCat n) (\<lambda>c. case c of
     None \<Rightarrow> ret []
   | Some c \<Rightarrow> sq (puts (''\<newline>Conferences availiable in \"'' @ Category c @ ''\" :\<newline>\<newline>''))
       (sq (puts (concat (map (\<lambda>p. dec (pub_num p) @ ''.'' @ pub_line p) (ConfPub c))))
       (sq (puts ''\<newline>\<newline>'') (ret (ConfPub c)))))"

section \<open>Looking a conference up\<close>

definition GetConfFromPublicTxt :: "pub list \<Rightarrow> int \<Rightarrow> nat \<Rightarrow> string option cflp" where
  "GetConfFromPublicTxt pubs n room = with_cats (\<lambda>cs.
     let hit = (if pubs = [] then List.find (\<lambda>p. SerialNum p = n) (concat (map ConfPub cs))
                else List.find (\<lambda>p. pub_num p = n) pubs)
     in case hit of
          None \<Rightarrow> sq (puts (''The conference number \"'' @ dec n @ ''\" is not found\<newline>'')) (ret None)
        | Some p \<Rightarrow> (case ExtractConfName room (pub_line p) of
              TheName name \<Rightarrow> ret (Some name)
            | CatName name \<Rightarrow> ret (Some name)
            | NoName \<Rightarrow> ret None
            | Overruns \<Rightarrow> undef))"

text \<open>The loop of \<open>LongList\<close>, which shows one category after another.\<close>

definition long_round :: "bool cflp" where
  "long_round = sq DispCategories
     (sq (puts (''Enter the no to display all confs\<newline>'' @ ''in that category Or 'q' to quit : ''))
     (bnd (GetString 5) (\<lambda>str.
      if str \<noteq> [] \<and> hd str = CHR ''q'' then ret False
      else if Isblank str then
        sq (puts ''\<newline>Category num not entered Quitting...\<newline>'') (ret False)
      else bnd (DispPublicConf (atoi str)) (\<lambda>pubs.
        if pubs = [] then
          sq (puts (''Category \"'' @ dec (atoi str) @ ''\" doesn't exist\<newline>'')) (ret False)
        else sq (puts ''List categories again press (y/n): '') ask_yes))))"

definition LongList :: "unit cflp" where
  "LongList = bnd (gets (\<lambda>s. length (tin s))) (\<lambda>n. iter (Suc n) long_round)"

text \<open>Reading the menus: again until the number is in the range.\<close>

definition pick_round :: "string \<Rightarrow> int \<Rightarrow> int option cflp" where
  "pick_round text hi = sq (puts text) (bnd (GetString 5) (\<lambda>str.
     ret (if 1 \<le> atoi str \<and> atoi str \<le> hi then Some (atoi str) else None)))"

fun pick :: "nat \<Rightarrow> string \<Rightarrow> int \<Rightarrow> int cflp" where
  "pick 0 text hi s = (NoFuel, s)"
| "pick (Suc n) text hi s = bnd (pick_round text hi) (\<lambda>c. case c of
     None \<Rightarrow> pick n text hi | Some k \<Rightarrow> ret k) s"

definition from_menu :: "string \<Rightarrow> int \<Rightarrow> int cflp" where
  "from_menu text hi = bnd (gets (\<lambda>s. length (tin s))) (\<lambda>n. pick (Suc n) text hi)"

definition SelectList :: "int cflp" where
  "SelectList = from_menu (''Select from below....\<newline>1. Short Listing Of Conferences\<newline>''
     @ ''2. Long  Listing Of Conferences\<newline>3. Quit \<newline>\<newline>Enter your choice : '') 3"

definition DispMenu :: "int cflp" where
  "DispMenu = from_menu (''\<newline>1. Add\<newline>2. Change\<newline>3. Delete\<newline>4. List\<newline>5. Sort\<newline>6. Quit''
     @ ''\<newline>\<newline>Enter the Choice : '') 6"

end
