(* ===== verification/CflCmds.thy ===== *)
theory CflCmds
  imports CflPublic
begin

text \<open>
  The commands of \<open>soft/cmd/cflbuild\<close> on the user's own list, and the program's main loop.
\<close>

section \<open>The list\<close>

text \<open>Every command dereferences \<open>Conf\<close>; the list proper starts after the header.\<close>

definition with_conf :: "(nat \<Rightarrow> 'a cflp) \<Rightarrow> 'a cflp" where
  "with_conf k s = (case Conf s of None \<Rightarrow> (Undef, s) | Some c \<Rightarrow> k c s)"

definition with_list :: "(nat list \<Rightarrow> 'a cflp) \<Rightarrow> 'a cflp" where
  "with_list k = with_conf (\<lambda>c. bnd (gets (\<lambda>s. NextRecord (nodes s) c)) (\<lambda>p. whole_list p k))"

definition on_nodes :: "(heap \<Rightarrow> heap) \<Rightarrow> unit cflp" where
  "on_nodes f = upd (\<lambda>s. s\<lparr>nodes := f (nodes s)\<rparr>)"

text \<open>A store through NULL in a pointer operation.\<close>

definition try_nodes :: "(heap \<Rightarrow> heap option) \<Rightarrow> unit cflp" where
  "try_nodes f s = (case f (nodes s) of None \<Rightarrow> (Undef, s) | Some h \<Rightarrow> (Ret (), s\<lparr>nodes := h\<rparr>))"

definition InitConf :: "unit cflp" where
  "InitConf = bnd malloc (\<lambda>ok. if \<not> ok then no_memory
     else bnd malloc (\<lambda>ok2. if \<not> ok2 then undef
     else upd (\<lambda>s. s\<lparr>nodes := InitList (nodes s), Conf := Some 0\<rparr>)))"

text \<open>
  \<open>WriteToBuffers\<close>: when the second allocation fails the new node is already linked, and the cleanup
  reads its uninitialised fields.
\<close>

definition WriteToBuffers :: "string \<Rightarrow> int \<Rightarrow> nat \<Rightarrow> unit cflp" where
  "WriteToBuffers buffer num len = with_conf (\<lambda>c. whole_list (Some c) (\<lambda>xs.
     bnd malloc (\<lambda>ok. if \<not> ok then no_memory
     else bnd malloc (\<lambda>ok2. if \<not> ok2 then undef
     else on_nodes (append_node (last xs) (take len buffer) num)))))"

definition DisplayList :: "unit cflp" where
  "DisplayList = bnd (gets Conf) (\<lambda>c. if c = None then ret () else
     sq (upd (\<lambda>s. s\<lparr>PrintCount := 0\<rparr>))
     (sq (puts ''\<newline>Conferences availiable in your \".cflist\" :\<newline>\<newline>'')
     (with_list (\<lambda>xs. bnd (gets nodes) (\<lambda>h.
        sq (print_all (map (\<lambda>a. take 199 (dec (ConfNum h a) @ ''.'' @ ConfName h a @ '' '')) xs))
           (puts ''\<newline>\<newline>''))))))"

definition Shuffle :: "unit cflp" where
  "Shuffle = with_list (\<lambda>xs. on_nodes (renumber 0 xs))"

text \<open>\<open>Find\<close> by number, and by name.\<close>

definition find_by :: "(heap \<Rightarrow> nat \<Rightarrow> bool) \<Rightarrow> nat option cflp" where
  "find_by P = with_conf (\<lambda>c s. case find_node (Suc (brk (nodes s))) (nodes s) (P (nodes s))
       (NextRecord (nodes s) c) of
     FoundAt a \<Rightarrow> (Ret (Some a), s) | NotThere \<Rightarrow> (Ret None, s)
   | FindLoops \<Rightarrow> (Hang, s) | FindDangling \<Rightarrow> (Undef, s))"

definition Find_num :: "int \<Rightarrow> nat option cflp" where
  "Find_num n = find_by (\<lambda>h a. ConfNum h a = n)"

definition Find_name :: "string \<Rightarrow> nat option cflp" where
  "Find_name x = find_by (\<lambda>h a. ConfName h a = x)"

section \<open>The file\<close>

text \<open>Each record is written through a buffer of 200 bytes; a write may fail.\<close>

fun write_records :: "cfl_env \<Rightarrow> string list \<Rightarrow> string \<Rightarrow> string \<times> bool" where
  "write_records e [] f = (f, True)"
| "write_records e (x # xs) f =
     (if fwrite_ok e f then write_records e xs (f @ take 199 (x @ ''\<newline>'')) else (f, False))"

definition WriteTocflist :: "cfl_env \<Rightarrow> unit cflp" where
  "WriteTocflist e = bnd (gets CflName) (\<lambda>path.
     if \<not> creatable e path then
       sq (puts (''File \"'' @ path @ ''\" doesn't exist:check directory\<newline>''))
          (sq FreeMemory (exit_prog 0))
     else with_list (\<lambda>xs. bnd (gets nodes) (\<lambda>h.
       let (text, ok) = write_records e (map (ConfName h) xs) [] in
       sq (upd (\<lambda>s. s\<lparr>files := (files s)(path \<mapsto> text)\<rparr>))
       (if ok then ret ()
        else sq (puts (''Cannot write to file \"'' @ path @ ''\" check harddisk\<newline>''))
               (sq FreeMemory (exit_prog 0))))))"

text \<open>Lines of blanks add nothing; of any other line the last character is cut off.\<close>

fun load_tokens :: "string list \<Rightarrow> int \<Rightarrow> nat \<Rightarrow> int cflp" where
  "load_tokens [] num len = ret num"
| "load_tokens (t # ts) num len = sq (WriteToBuffers t num len) (load_tokens ts (num + 1) len)"

fun load_lines :: "string list \<Rightarrow> int \<Rightarrow> unit cflp" where
  "load_lines [] num = ret ()"
| "load_lines (l # ls) num =
     (if Isblank l then load_lines ls num
      else bnd (load_tokens (tokens (butlast l)) num (length l - 1)) (load_lines ls))"

section \<open>The commands\<close>

definition is_q :: "string \<Rightarrow> bool" where
  "is_q str \<longleftrightarrow> str \<noteq> [] \<and> hd str = CHR ''q''"

text \<open>
  \<open>GetString\<close>, and returning from the command when a \<open>q\<close> or nothing was entered.
\<close>

definition ask_number :: "nat \<Rightarrow> string \<Rightarrow> (string \<Rightarrow> unit cflp) \<Rightarrow> unit cflp" where
  "ask_number n nothing k = bnd (GetString n) (\<lambda>str.
     if is_q str then ret () else if Isblank str then puts nothing else k str)"

definition Delete :: "cfl_env \<Rightarrow> unit cflp" where
  "Delete e = sq DisplayList
     (sq (puts ''Enter the conference number to delete or 'q' to quit: '')
     (bnd (GetString 5) (\<lambda>str.
      if is_q str then ret ()
      else if Isblank str then puts (''Cannot delete the conf no : '' @ str @ ''\<newline>'')
      else bnd (Find_num (atoi str)) (\<lambda>p. case p of
          None \<Rightarrow> puts (''Cannot Find Conference Number \"'' @ dec (atoi str) @ ''\"\<newline>'')
        | Some a \<Rightarrow> sq (on_nodes (unlink_node a))
            (bnd (gets (\<lambda>s. ConfName (nodes s) a)) (\<lambda>name.
             sq (puts (''Conference '' @ dec (atoi str) @ '' : '' @ name @ '' deleted from your .cflist\<newline>''))
            (sq (on_nodes (free_node a)) (sq Shuffle (WriteTocflist e)))))))))"

text \<open>One conference number of \<open>Add\<close>'s input line.\<close>

definition add_one :: "cfl_env \<Rightarrow> pub list \<Rightarrow> string \<Rightarrow> unit cflp" where
  "add_one e pubs t =
     (if Isblank t then ret ()
      else bnd (GetConfFromPublicTxt pubs (atoi t) 40) (\<lambda>r. case r of
        None \<Rightarrow> ret ()
      | Some name \<Rightarrow> bnd (Find_name name) (\<lambda>p. bnd
          (if p = None then ret True
           else sq (puts (''\<newline>\"'' @ name @ ''\" already exists in \".cflist\"\<newline>''
                  @ ''Do u still wanna add it press(y/n) : '')) ask_yes)
          (\<lambda>go. if \<not> go then ret () else
             sq (WriteToBuffers name (atoi t) (length name))
             (sq (puts (''\<newline>Conference '' @ dec (atoi t) @ '' : '' @ name @ '' added to your .cflist\<newline>''))
             (sq Shuffle (WriteTocflist e)))))))"

fun add_all :: "cfl_env \<Rightarrow> pub list \<Rightarrow> string list \<Rightarrow> unit cflp" where
  "add_all e pubs [] = ret ()"
| "add_all e pubs (t # ts) = sq (add_one e pubs t) (add_all e pubs ts)"

definition add_numbers :: "cfl_env \<Rightarrow> pub list \<Rightarrow> unit cflp" where
  "add_numbers e pubs =
     sq (puts (''Enter the conference numbers with space inbetween\<newline>''
       @ ''to be added to your .cflist file or 'q' to quit  :''))
     (ask_number 35 ''Conf num not entered quitting..\<newline>'' (\<lambda>str. add_all e pubs (tokens str)))"

definition Add :: "cfl_env \<Rightarrow> unit cflp" where
  "Add e = bnd SelectList (\<lambda>c.
     if c = 3 then ret ()
     else if c = 1 then sq DispAllPublicConfs (add_numbers e [])
     else if c = 2 then sq DispCategories
       (sq (puts (''Enter the no to display all confs\<newline>'' @ ''in that category Or 'q' to quit : ''))
       (ask_number 5 ''\<newline>Category num not entered Quitting...\<newline>'' (\<lambda>str.
         bnd (DispPublicConf (atoi str)) (\<lambda>pubs.
           if pubs = [] then puts (''Category \"'' @ dec (atoi str) @ ''\" doesn't exist\<newline>'')
           else add_numbers e pubs))))
     else add_numbers e [])"

definition Change :: "cfl_env \<Rightarrow> unit cflp" where
  "Change e = sq DisplayList
     (sq (puts ''Enter the conference number to change or 'q' to quit :'')
     (ask_number 5 ''\<newline>Conference num not entered Quitting...\<newline>'' (\<lambda>str1.
      bnd (Find_num (atoi str1)) (\<lambda>p. case p of
        None \<Rightarrow> puts ''Invalid conference number\<newline>''
      | Some a \<Rightarrow> bnd (gets (\<lambda>s. strlcpy 200 (ConfName (nodes s) a))) (\<lambda>name1.
          sq DispAllPublicConfs
          (sq (puts (''Changing \"'' @ name1 @ ''\" in \".cflist\" file...\<newline>''
             @ ''Enter the conference number or 'q' to quit : ''))
          (ask_number 5 ''\<newline>Conference num not entered Quitting...\<newline>'' (\<lambda>str2.
           bnd (GetConfFromPublicTxt [] (atoi str2) 200) (\<lambda>r. case r of
             None \<Rightarrow> ret ()
           | Some name2 \<Rightarrow> bnd (Find_name name2) (\<lambda>q. bnd
               (if q = None then ret True
                else sq (puts (''Conference \"'' @ name2 @ ''\" already exists in \".cflist\"\<newline>''
                   @ ''Still want to change \"'' @ name1 @ ''\" by \"'' @ name2 @ ''\" Press(y/n) : '')) ask_yes)
               (\<lambda>go. if \<not> go then ret () else
                  bnd malloc (\<lambda>ok. if \<not> ok then no_memory else
                  sq (on_nodes (rename a name2))
                  (sq (WriteTocflist e)
                  (puts (''\<newline>Conference '' @ dec (atoi str1) @ '' : '' @ name1 @ '' has been changed to ''
                     @ dec (atoi str2) @ '' : '' @ name2 @ ''\<newline>'')))))))))))))))"

definition SortAll :: "cfl_env \<Rightarrow> unit cflp" where
  "SortAll e = with_conf (\<lambda>c. bnd (gets nodes) (\<lambda>h.
     case sort_outer (Suc (brk h)) (Suc (brk h)) h (NextRecord h c) False of
       None \<Rightarrow> (\<lambda>s. (NoFuel, s))
     | Some (h', swapped) \<Rightarrow> sq (on_nodes (\<lambda>_. h'))
         (if swapped then sq Shuffle (sq (WriteTocflist e) (puts ''\<newline>\".cflist\" is sorted\<newline>\<newline>''))
          else puts ''\<newline>\".cflist\" is already in sorting order\<newline>\<newline>'')))"

text \<open>What is printed of a node: its number and its name.\<close>

definition shown :: "heap \<Rightarrow> nat \<Rightarrow> string" where
  "shown h a = dec (ConfNum h a) @ '' : '' @ ConfName h a"

definition not_found :: "int \<Rightarrow> unit cflp" where
  "not_found n = puts (''Conf with number \"'' @ dec n @ ''\" not Found\<newline>'')"

text \<open>\<open>sscanf\<close> with two numbers.\<close>

definition two_numbers :: "string \<Rightarrow> (int \<times> int) option" where
  "two_numbers str = (case scan_int str of
     ScanOk a rest \<Rightarrow> (case scan_int rest of ScanOk b _ \<Rightarrow> Some (a, b) | _ \<Rightarrow> None) | _ \<Rightarrow> None)"

definition Swap :: "cfl_env \<Rightarrow> unit cflp" where
  "Swap e = sq DisplayList
     (sq (puts (''Enter the 2 conf numbers to be swapped\<newline>'' @ ''with spaces inbetween or 'q' to quit : ''))
     (ask_number 25 ''Conf num not entered quitting..\<newline>'' (\<lambda>str. case two_numbers str of
        None \<Rightarrow> puts ''Invalid Number of Arguments\<newline>''
      | Some (n1, n2) \<Rightarrow>
          if n1 = n2 then puts ''\<newline>Numbers cannot be the same\<newline>''
          else bnd (Find_num n1) (\<lambda>p. case p of
              None \<Rightarrow> not_found n1
            | Some a \<Rightarrow> bnd (Find_num n2) (\<lambda>q. case q of
                None \<Rightarrow> not_found n2
              | Some b \<Rightarrow> sq (try_nodes (SwapNodes a b))
                  (bnd (gets nodes) (\<lambda>h.
                   sq (puts (''Conference '' @ shown h a @ '' and Conference '' @ shown h b @ '' are Swapped\<newline>''))
                  (sq Shuffle (WriteTocflist e)))))))))"

definition not_num :: "int \<Rightarrow> unit cflp" where
  "not_num n = puts (''Conf with num \"'' @ dec n @ ''\" not Found\<newline>'')"

definition Move :: "cfl_env \<Rightarrow> unit cflp" where
  "Move e = sq DisplayList
     (sq (puts ''Enter the conf num to be moved or 'q' to quit: '')
     (ask_number 5 ''Conf num not entered quitting..\<newline>'' (\<lambda>str1.
      sq (puts ''Enter the position where it should be moved or 'q' to quit: '')
     (ask_number 5 ''Conf num not entered quitting..\<newline>'' (\<lambda>str2.
      if atoi str1 = atoi str2 then puts ''\<newline>Numbers cannot be the same\<newline>''
      else bnd (Find_num (atoi str1)) (\<lambda>p. case p of
          None \<Rightarrow> not_num (atoi str1)
        | Some a \<Rightarrow> bnd (Find_num (atoi str2)) (\<lambda>q. case q of
            None \<Rightarrow> not_num (atoi str2)
          | Some b \<Rightarrow> sq (try_nodes (Insert a b))
              (bnd (gets nodes) (\<lambda>h.
               sq (puts (''\<newline>Conference '' @ shown h a @ '' moved before '' @ shown h b @ ''\<newline>''))
              (sq Shuffle (WriteTocflist e)))))))))))"

definition Sort :: "cfl_env \<Rightarrow> unit cflp" where
  "Sort e = bnd (from_menu (''\<newline>1. Sort Alphabetically\<newline>2. Swap any 2 conferences''
       @ ''\<newline>3. Move the conference\<newline>4. Quit\<newline>\<newline>Enter the Choice : '') 4) (\<lambda>c.
     if c = 1 then SortAll e else if c = 2 then Swap e else if c = 3 then Move e else ret ())"

definition List_cmd :: "unit cflp" where
  "List_cmd = bnd (from_menu (''\<newline>1. List conferences in your \".cflist\"''
       @ ''\<newline>2. Short listing of all conferences in \"Grex\"''
       @ ''\<newline>3. Long listing of all conferences in \"Grex\"\<newline>4. Quit\<newline>\<newline>Enter the Choice : '') 4) (\<lambda>c.
     if c = 1 then DisplayList else if c = 2 then DispAllPublicConfs
     else if c = 3 then LongList else ret ())"

section \<open>The program\<close>

definition command :: "cfl_env \<Rightarrow> bool cflp" where
  "command e = bnd DispMenu (\<lambda>c.
     sq (if c = 1 then Add e else if c = 2 then Change e else if c = 3 then Delete e
         else if c = 4 then List_cmd else if c = 5 then Sort e
         else if c = 6 then puts [CHR 0x07] else ret ())
     (ret (c \<noteq> 6)))"

text \<open>
  Which \<open>.cflist\<close> is used: the one in \<open>.cfdir\<close>, then the one in the home directory, then a new one.
  At the end of the input the answer is never stored.
\<close>

definition open_cflist :: "cfl_env \<Rightarrow> unit cflp" where
  "open_cflist e =
     (let home = strlcpy 1024 (pw_dir e);
          p1 = take 199 (home @ ''/.cfdir/.cflist''); p2 = take 199 (home @ ''/.cflist'');
          can = (\<lambda>p s. files s p \<noteq> None \<and> updatable e p) in
      sq (upd (\<lambda>s. s\<lparr>CflName := p1\<rparr>))
      (bnd (gets (can p1)) (\<lambda>ok1. if ok1 then ret () else
       sq (upd (\<lambda>s. s\<lparr>CflName := p2\<rparr>))
      (bnd (gets (can p2)) (\<lambda>ok2. if ok2 then ret () else
       sq (puts (''\<newline>File \"'' @ p2 @ ''\" doesn't exist\<newline>'' @ ''Create \".cflist\" press(y/n) : ''))
      (bnd getchar (\<lambda>c. case c of
         None \<Rightarrow> undef
       | Some y \<Rightarrow> bnd getchar (\<lambda>_. bnd (gets User) (\<lambda>u.
           if y \<noteq> CHR ''y'' then
             sq (puts (''\<newline>\"'' @ u @ ''\" chosen \"'' @ [y] @ ''\" to create \"'' @ p2 @ ''\"\<newline>''))
                (exit_prog 0)
           else if \<not> creatable e p2 then
             sq (puts (''Cannot create file \"'' @ p2 @ ''\"\<newline>'')) (exit_prog 0)
           else upd (\<lambda>s. s\<lparr>files := (files s)(p2 \<mapsto> [])\<rparr>))))))))))"

definition load_cflist :: "unit cflp" where
  "load_cflist = sq InitConf (bnd (gets (\<lambda>s. files s (CflName s))) (\<lambda>f. case f of
     None \<Rightarrow> ret () | Some f \<Rightarrow> load_lines (map cstr (pieces 127 f)) 0))"

definition cfl_main :: "cfl_env \<Rightarrow> unit cflp" where
  "cfl_main e =
     sq (puts ''\<newline>\".cflist\" builder program version 1.0 written by \"nt\"\<newline>'')
     (sq (upd (\<lambda>s. s\<lparr>User := strlcpy 128 (pw_name e)\<rparr>))
     (sq (open_cflist e) (sq (upd (\<lambda>s. s\<lparr>PrintCount := 0\<rparr>)) (sq load_cflist (sq (ReadPublicTxt e)
     (sq (bnd (gets (\<lambda>s. length (tin s))) (\<lambda>n. iter (Suc n) (command e)))
     (sq FreeMemory
     (bnd (gets User) (\<lambda>u. sq (puts (thanks u)) (exit_prog 0))))))))))"

end
