(* ===== verification/CflFacts.thy ===== *)
theory CflFacts
  imports CflCmds
begin

text \<open>
  How the statements of \<open>soft/cmd/cflbuild\<close> run on a well-formed list. The abstract list is that of
  the conference names; \<open>shows s ns\<close> relates the two.
\<close>

section \<open>The abstract list\<close>

definition chain :: "cfl \<Rightarrow> nat list \<Rightarrow> bool" where
  "chain s xs \<longleftrightarrow> linked (nodes s) xs \<and> Conf s = Some (xs ! 0)"

definition shows_by :: "cfl \<Rightarrow> nat list \<Rightarrow> string list \<Rightarrow> bool" where
  "shows_by s xs ns \<longleftrightarrow> chain s xs \<and> numbered (nodes s) xs \<and> names (nodes s) xs = ns"

definition shows_list :: "cfl \<Rightarrow> string list \<Rightarrow> bool" where
  "shows_list s ns \<longleftrightarrow> (\<exists>xs. shows_by s xs ns)"

lemma chain_ne: "chain s xs \<Longrightarrow> xs \<noteq> []"
  by (simp add: chain_def linked_def)

lemma names_nth: "i < length (names h xs) \<Longrightarrow> names h xs ! i = ConfName h (xs ! (i + 1))"
  by (simp add: names_def nth_tl)

lemma length_names [simp]: "length (names h xs) = length xs - 1"
  by (simp add: names_def)

lemma chain_first:
  assumes "chain s xs"
  shows "NextRecord (nodes s) (xs ! 0) = nth_opt xs 1" and "length xs \<le> brk (nodes s)"
  using assms linked_at [of "nodes s" xs 0] linked_length chain_ne [OF assms]
  by (auto simp: chain_def)

lemma with_list_run:
  assumes "chain s xs"
  shows "with_list k s = k (tl xs) s"
proof -
  have "walk (Suc (brk (nodes s))) (nodes s) (nth_opt xs 1) = Whole (drop 1 xs)"
    using assms chain_first(2) [OF assms] chain_ne [OF assms]
    by (intro walk_linked) (simp_all add: chain_def Suc_le_eq)
  then show ?thesis
    using assms chain_first(1) [OF assms]
    by (simp add: with_list_def with_conf_def chain_def bnd_def gets_def whole_list_def drop_Suc)
qed

lemma Shuffle_run:
  assumes "chain s xs"
  shows "\<exists>h. Shuffle s = (Ret (), s\<lparr>nodes := h\<rparr>) \<and> linked h xs \<and> numbered h xs \<and>
    ConfName h = ConfName (nodes s)"
proof -
  have "Shuffle s = (Ret (), s\<lparr>nodes := renumber 0 (tl xs) (nodes s)\<rparr>)"
    by (simp add: Shuffle_def with_list_run [OF assms] on_nodes_def upd_def)
  moreover have "linked (nodes s) xs" using assms by (simp add: chain_def)
  ultimately show ?thesis
    using linked_renumber renumber_numbered renumber_same(3) by blast
qed

lemma FreeMemory_run:
  assumes "chain s xs"
  shows "\<exists>t. FreeMemory s = (Ret (), t) \<and> files t = files s \<and> tout t = tout s \<and> User t = User s"
proof -
  have "walk (Suc (brk (nodes s))) (nodes s) (nth_opt xs 0) = Whole (drop 0 xs)"
    using assms chain_first(2) [OF assms] by (intro walk_linked) (simp_all add: chain_def)
  then show ?thesis
    using assms chain_ne [OF assms]
    by (simp add: FreeMemory_def FreeList_def FreePublicConf_def sq_def bnd_def upd_def chain_def nth_opt_def)
qed

lemma Find_run:
  assumes "chain s xs"
  shows "find_by P s = (Ret (List.find (P (nodes s)) (tl xs)), s)"
proof -
  have "find_node (Suc (brk (nodes s))) (nodes s) (P (nodes s)) (nth_opt xs 1) =
      (case List.find (P (nodes s)) (drop 1 xs) of None \<Rightarrow> NotThere | Some a \<Rightarrow> FoundAt a)"
    using assms chain_first(2) [OF assms] chain_ne [OF assms]
    by (intro find_linked) (simp_all add: chain_def Suc_le_eq)
  then show ?thesis
    using assms chain_first(1) [OF assms]
    by (simp add: find_by_def with_conf_def chain_def drop_Suc split: option.splits)
qed

text \<open>The nodes are numbered from 0, so looking for a number is indexing.\<close>

lemma Find_num_run:
  assumes "shows_by s xs ns"
  shows "Find_num n s = (Ret (if 0 \<le> n \<and> n < int (length ns) then Some (xs ! (nat n + 1)) else None), s)"
proof -
  have c: "chain s xs" and nm: "numbered (nodes s) xs" and len: "length ns = length xs - 1"
    using assms by (auto simp: shows_by_def)
  have at: "ConfNum (nodes s) (tl xs ! i) = int i" if "i < length (tl xs)" for i
    using nm that nth_tl [of i xs] by (auto simp: numbered_def)
  have "List.find (\<lambda>a. ConfNum (nodes s) a = n) (tl xs) =
    (if 0 \<le> n \<and> n < int (length ns) then Some (xs ! (nat n + 1)) else None)"
  proof (cases "0 \<le> n \<and> n < int (length ns)")
    case True
    then have i: "nat n < length (tl xs)" using len by (simp add: nat_less_iff)
    then have t: "tl xs ! nat n = xs ! (nat n + 1)" by (simp add: nth_tl)
    have "List.find (\<lambda>a. ConfNum (nodes s) a = n) (tl xs) = Some (tl xs ! nat n)"
      unfolding find_Some_iff using i at True by (intro exI [of _ "nat n"]) auto
    with t True show ?thesis by simp
  next
    case False
    then show ?thesis using at len by (auto simp: find_None_iff in_set_conv_nth)
  qed
  then show ?thesis by (simp add: Find_num_def Find_run [OF c])
qed

lemma Find_name_run:
  assumes "shows_by s xs ns"
  shows "\<exists>r. Find_name x s = (Ret r, s) \<and> (r = None \<longleftrightarrow> x \<notin> set ns)"
proof -
  have c: "chain s xs" and ns: "ns = map (ConfName (nodes s)) (tl xs)"
    using assms by (auto simp: shows_by_def names_def)
  have "Find_name x s = (Ret (List.find (\<lambda>a. ConfName (nodes s) a = x) (tl xs)), s)"
    by (simp add: Find_name_def Find_run [OF c])
  moreover have "List.find (\<lambda>a. ConfName (nodes s) a = x) (tl xs) = None \<longleftrightarrow> x \<notin> set ns"
    unfolding ns find_None_iff set_map image_iff by blast
  ultimately show ?thesis by (intro exI conjI)
qed

section \<open>Output and input\<close>

text \<open>What only prints or reads the keyboard leaves the lists, the file and the memory as they are.\<close>

definition same_data :: "cfl \<Rightarrow> cfl \<Rightarrow> bool" where
  "same_data s t \<longleftrightarrow> nodes t = nodes s \<and> Conf t = Conf s \<and> CatList t = CatList s \<and> files t = files s \<and>
     CflName t = CflName s \<and> User t = User s \<and> grants t = grants s"

lemma same_data_refl: "same_data s s"
  by (simp add: same_data_def)

lemma same_data_trans: "same_data s t \<Longrightarrow> same_data t u \<Longrightarrow> same_data s u"
  by (simp add: same_data_def)

lemma same_data_shows: "same_data s t \<Longrightarrow> shows_by t xs ns = shows_by s xs ns"
  by (simp add: same_data_def shows_by_def chain_def)

definition prints :: "unit cflp \<Rightarrow> bool" where
  "prints m \<longleftrightarrow> (\<forall>s. \<exists>t. m s = (Ret (), t) \<and> same_data s t \<and> tin t = tin s)"

lemma printsD: "prints m \<Longrightarrow> \<exists>t. m s = (Ret (), t) \<and> same_data s t \<and> tin t = tin s"
  by (simp add: prints_def)

lemma prints_upd: "(\<And>s. same_data s (f s) \<and> tin (f s) = tin s) \<Longrightarrow> prints (upd f)"
  by (simp add: prints_def upd_def)

lemma prints_puts: "prints (puts x)"
  unfolding puts_def by (rule prints_upd) (simp add: same_data_def)

lemma prints_PrintString: "prints (PrintString b)"
  unfolding PrintString_def
  by (rule prints_upd) (simp add: same_data_def Let_def split: prod.split)

lemma prints_ret: "prints (ret ())"
  by (simp add: prints_def ret_def same_data_refl)

lemma prints_sq:
  assumes "prints m" "prints n"
  shows "prints (sq m n)"
  unfolding prints_def
proof
  fix s
  obtain t where t: "m s = (Ret (), t)" "same_data s t" "tin t = tin s"
    using printsD [OF assms(1)] by blast
  obtain u where u: "n t = (Ret (), u)" "same_data t u" "tin u = tin t"
    using printsD [OF assms(2)] by blast
  from t(1) u(1) have "sq m n s = (Ret (), u)" by (rule sq_then)
  then show "\<exists>u. sq m n s = (Ret (), u) \<and> same_data s u \<and> tin u = tin s"
    using t u same_data_trans by auto
qed

lemma prints_print_all: "prints (print_all xs)"
  unfolding print_all_def by (induction xs) (simp_all add: prints_ret prints_sq prints_PrintString)

lemma prints_column: "prints (upd (\<lambda>s. s\<lparr>PrintCount := 0\<rparr>))"
  by (rule prints_upd) (simp add: same_data_def)

lemmas prints_rules = prints_puts prints_PrintString prints_ret prints_sq prints_print_all prints_column

lemma with_list_prints:
  assumes c: "chain s xs" and p: "\<And>h. prints (k h (tl xs))"
  shows "\<exists>t. with_list (\<lambda>xs. bnd (gets nodes) (\<lambda>h. k h xs)) s = (Ret (), t) \<and> same_data s t \<and> tin t = tin s"
proof -
  have "with_list (\<lambda>xs. bnd (gets nodes) (\<lambda>h. k h xs)) s = k (nodes s) (tl xs) s"
    by (simp add: with_list_run [OF c] bnd_def gets_def)
  with printsD [OF p] show ?thesis by simp
qed

lemma DisplayList_run:
  assumes "chain s xs"
  shows "\<exists>t. DisplayList s = (Ret (), t) \<and> same_data s t \<and> tin t = tin s"
proof -
  obtain t where t: "upd (\<lambda>s. s\<lparr>PrintCount := 0\<rparr>) s = (Ret (), t)" "same_data s t" "tin t = tin s"
    using printsD [OF prints_column] by blast
  obtain u where u: "puts ''\<newline>Conferences availiable in your \".cflist\" :\<newline>\<newline>'' t = (Ret (), u)"
    "same_data t u" "tin u = tin t"
    using printsD [OF prints_puts] by blast
  have c: "chain u xs" using assms t(2) u(2) by (simp add: chain_def same_data_def)
  let ?k = "\<lambda>h xs. sq (print_all (map (\<lambda>a. take 199 (dec (ConfNum h a) @ ''.'' @ ConfName h a @ '' '')) xs))
    (puts ''\<newline>\<newline>'')"
  have "prints (?k h (tl xs))" for h by (intro prints_rules)
  from with_list_prints [OF c, of ?k, OF this] obtain v where
    v: "with_list (\<lambda>xs. bnd (gets nodes) (\<lambda>h. ?k h xs)) u = (Ret (), v)" "same_data u v" "tin v = tin u"
    by blast
  have "Conf s \<noteq> None" using assms by (simp add: chain_def)
  then have "DisplayList s = sq (upd (\<lambda>s. s\<lparr>PrintCount := 0\<rparr>))
     (sq (puts ''\<newline>Conferences availiable in your \".cflist\" :\<newline>\<newline>'')
     (with_list (\<lambda>xs. bnd (gets nodes) (\<lambda>h. ?k h xs)))) s"
    by (simp only: DisplayList_def bnd_run(1) [OF gets_run] if_False)
  also have "\<dots> = (Ret (), v)"
    by (rule sq_then, rule t(1), rule sq_then, rule u(1), rule v(1))
  finally have "DisplayList s = (Ret (), v)" .
  moreover have "same_data s v" using t(2) u(2) v(2) same_data_trans by blast
  ultimately show ?thesis using t(3) u(3) v(3) by simp
qed

lemma GetString_run:
  "get_string n [] (tin s) = (Some str, rest) \<Longrightarrow> GetString n s = (Ret str, s\<lparr>tin := rest\<rparr>)"
  by (simp add: GetString_def)

lemma same_data_tin [simp]: "same_data s (s\<lparr>tin := r\<rparr>)"
  by (simp add: same_data_def)

section \<open>The file\<close>

definition file_text :: "string list \<Rightarrow> string" where
  "file_text ns = concat (map (\<lambda>x. take 199 (x @ ''\<newline>'')) ns)"

lemma write_records_all:
  "(\<And>f. fwrite_ok e f) \<Longrightarrow> write_records e ns f = (f @ file_text ns, True)"
  by (induction ns arbitrary: f) (simp_all add: file_text_def)

lemma WriteTocflist_run:
  assumes c: "chain s xs" and ok: "creatable e (CflName s)" "\<And>f. fwrite_ok e f"
  shows "WriteTocflist e s =
    (Ret (), s\<lparr>files := (files s)(CflName s \<mapsto> file_text (names (nodes s) xs))\<rparr>)"
  using ok by (simp add: WriteTocflist_def with_list_run [OF c] bnd_def gets_def write_records_all names_def sq_def upd_def ret_def)

text \<open>The end of every changing command: number the nodes again and write the file.\<close>

lemma Shuffle_Write_run:
  assumes c: "chain s xs" and ok: "creatable e (CflName s)" "\<And>f. fwrite_ok e f"
  shows "\<exists>t. sq Shuffle (WriteTocflist e) s = (Ret (), t) \<and> shows_by t xs (names (nodes s) xs) \<and>
    files t = (files s)(CflName s \<mapsto> file_text (names (nodes s) xs)) \<and> tin t = tin s \<and>
    CatList t = CatList s \<and> CflName t = CflName s \<and> grants t = grants s"
proof -
  obtain h where h: "Shuffle s = (Ret (), s\<lparr>nodes := h\<rparr>)" "linked h xs" "numbered h xs"
    "ConfName h = ConfName (nodes s)" using Shuffle_run [OF c] by blast
  let ?s = "s\<lparr>nodes := h\<rparr>"
  have c': "chain ?s xs" using c h(2) by (simp add: chain_def)
  have nm: "names h xs = names (nodes s) xs" using h(4) by (simp add: names_def)
  have "WriteTocflist e ?s = (Ret (), ?s\<lparr>files := (files ?s)(CflName ?s \<mapsto> file_text (names (nodes ?s) xs))\<rparr>)"
    by (rule WriteTocflist_run [OF c']) (use ok in simp_all)
  with h(1) have "sq Shuffle (WriteTocflist e) s =
      (Ret (), ?s\<lparr>files := (files ?s)(CflName ?s \<mapsto> file_text (names (nodes ?s) xs))\<rparr>)"
    by (rule sq_then)
  then show ?thesis using c' h(2,3) nm by (simp add: shows_by_def chain_def)
qed

section \<open>The commands as operations on the abstract list\<close>

text \<open>What was typed at a prompt, when it is neither blank nor a \<open>q\<close>, and what input is left.\<close>

definition entered :: "nat \<Rightarrow> string \<Rightarrow> string \<Rightarrow> string \<Rightarrow> bool" where
  "entered n inp str rest \<longleftrightarrow> get_string n [] inp = (Some str, rest) \<and> \<not> is_q str \<and> \<not> Isblank str"

text \<open>The list, the file and the rest of the input a changing command leaves.\<close>

definition leaves :: "cfl \<Rightarrow> string list \<Rightarrow> string \<Rightarrow> cfl \<Rightarrow> bool" where
  "leaves s ns rest t \<longleftrightarrow> shows_list t ns \<and> files t = (files s)(CflName s \<mapsto> file_text ns) \<and>
     tin t = rest \<and> CatList t = CatList s \<and> CflName t = CflName s"

definition file_ok :: "cfl_env \<Rightarrow> cfl \<Rightarrow> bool" where
  "file_ok e s \<longleftrightarrow> creatable e (CflName s) \<and> (\<forall>f. fwrite_ok e f)"

text \<open>
  The common end: the nodes have been relinked to the chain \<open>ys\<close>; a line is printed, the nodes are
  numbered and the file is written.
\<close>

lemma relinked_leaves:
  assumes c: "linked h ys" "Conf s = Some (ys ! 0)" and nm: "map (ConfName h) (tl ys) = ns"
    and ok: "file_ok e s"
  shows "\<exists>t. sq (puts x) (sq Shuffle (WriteTocflist e)) (s\<lparr>nodes := h\<rparr>) = (Ret (), t) \<and> leaves s ns (tin s) t"
proof -
  let ?s = "s\<lparr>nodes := h, tout := tout s @ x\<rparr>"
  have "chain ?s ys" using c by (simp add: chain_def)
  from Shuffle_Write_run [OF this, of e] ok obtain t where
    t: "sq Shuffle (WriteTocflist e) ?s = (Ret (), t)" "shows_by t ys (names (nodes ?s) ys)"
    "files t = (files ?s)(CflName ?s \<mapsto> file_text (names (nodes ?s) ys))" "tin t = tin ?s"
    "CatList t = CatList ?s" "CflName t = CflName ?s"
    by (auto simp: file_ok_def)
  have "puts x (s\<lparr>nodes := h\<rparr>) = (Ret (), ?s)" by (simp add: puts_run)
  then have "sq (puts x) (sq Shuffle (WriteTocflist e)) (s\<lparr>nodes := h\<rparr>) = (Ret (), t)"
    using t(1) by (rule sq_then)
  moreover have "names (nodes ?s) ys = ns" using nm by (simp add: names_def)
  ultimately show ?thesis using t by (auto simp: leaves_def shows_list_def)
qed

text \<open>The list is shown and a prompt answered.\<close>

lemma prompted:
  assumes xs: "shows_by s xs ns" and inp: "get_string n [] (tin s) = (Some str, rest)"
  shows "\<exists>v. (\<forall>k :: string \<Rightarrow> unit cflp. sq DisplayList (sq (puts p) (bnd (GetString n) k)) s = k str v) \<and> same_data s v \<and>
    tin v = rest \<and> shows_by v xs ns"
proof -
  obtain u where u: "DisplayList s = (Ret (), u)" "same_data s u" "tin u = tin s"
    using DisplayList_run [of s xs] xs by (auto simp: shows_by_def)
  let ?u = "u\<lparr>tout := tout u @ p\<rparr>"
  have g: "GetString n ?u = (Ret str, ?u\<lparr>tin := rest\<rparr>)"
    by (rule GetString_run) (simp add: inp u(3))
  have "sq DisplayList (sq (puts p) (bnd (GetString n) k)) s = k str (?u\<lparr>tin := rest\<rparr>)" for k :: "string \<Rightarrow> unit cflp"
    by (rule sq_then, rule u(1), rule sq_then, rule puts_run, rule bnd_then, rule g, rule refl)
  moreover have "same_data s (?u\<lparr>tin := rest\<rparr>)" using u(2) by (simp add: same_data_def)
  ultimately show ?thesis
    using same_data_shows [of s "?u\<lparr>tin := rest\<rparr>" xs ns] xs by (intro exI [of _ "?u\<lparr>tin := rest\<rparr>"]) simp
qed

lemma ask_number_entered:
  assumes "entered n inp str rest"
  shows "ask_number n q k = bnd (GetString n) (\<lambda>x. if is_q x then ret () else if Isblank x then puts q else k x)"
    and "(if is_q str then ret () else if Isblank str then puts q else k str) = k str"
  using assms by (simp_all add: ask_number_def entered_def)

lemma prompted_number:
  assumes xs: "shows_by s xs ns" and inp: "entered n (tin s) str rest"
  shows "\<exists>v. (\<forall>q k. sq DisplayList (sq (puts p) (ask_number n q k)) s = k str v) \<and> same_data s v \<and>
    tin v = rest \<and> shows_by v xs ns"
proof -
  from inp have g: "get_string n [] (tin s) = (Some str, rest)" by (simp add: entered_def)
  from prompted [OF xs g, of p] obtain v where
    v: "\<And>k :: string \<Rightarrow> unit cflp. sq DisplayList (sq (puts p) (bnd (GetString n) k)) s = k str v"
    "same_data s v" "tin v = rest" "shows_by v xs ns" by blast
  have "sq DisplayList (sq (puts p) (ask_number n q k)) s = k str v" for q k
    unfolding ask_number_def v(1) using ask_number_entered(2) [OF inp] by simp
  with v(2-4) show ?thesis by blast
qed

lemma on_nodes_run: "on_nodes f s = (Ret (), s\<lparr>nodes := f (nodes s)\<rparr>)"
  by (simp add: on_nodes_def upd_def)

lemma puts_on_nodes:
  "sq (puts x) (sq (on_nodes f) m) s = sq (puts x) m (s\<lparr>nodes := f (nodes s)\<rparr>)"
proof -
  have "s\<lparr>tout := tout s @ x, nodes := f (nodes s)\<rparr> = s\<lparr>nodes := f (nodes s), tout := tout s @ x\<rparr>" by simp
  then have "m (s\<lparr>tout := tout s @ x, nodes := f (nodes s)\<rparr>) = m (s\<lparr>nodes := f (nodes s), tout := tout s @ x\<rparr>)"
    by (rule arg_cong)
  moreover have "sq (puts x) (sq (on_nodes f) m) s = m (s\<lparr>tout := tout s @ x, nodes := f (nodes s)\<rparr>)"
    by (simp add: sq_def bnd_def puts_run on_nodes_run)
  moreover have "sq (puts x) m (s\<lparr>nodes := f (nodes s)\<rparr>) = m (s\<lparr>nodes := f (nodes s), tout := tout s @ x\<rparr>)"
    by (simp add: sq_def bnd_def puts_run)
  ultimately show ?thesis by (simp only:)
qed

lemma leaves_same: "leaves v ns rest t \<Longrightarrow> same_data s v \<Longrightarrow> leaves s ns rest t"
  by (simp add: leaves_def same_data_def)

lemma file_ok_same: "file_ok e s \<Longrightarrow> same_data s v \<Longrightarrow> file_ok e v"
  by (simp add: file_ok_def same_data_def)

lemma names_remove_at:
  assumes "0 < i" "i < length xs"
  shows "tl (remove_at i xs) = remove_at (i - 1) (tl xs)"
proof (cases xs)
  case (Cons a as)
  obtain j where "i = Suc j" using assms(1) gr0_implies_Suc by blast
  with Cons show ?thesis by (simp add: remove_at_def)
qed (use assms in simp)

lemma remove_at_first: "0 < i \<Longrightarrow> i < length xs \<Longrightarrow> remove_at i xs ! 0 = xs ! 0"
  by (simp add: remove_at_def nth_append)

lemma map_remove_at: "map f (remove_at i xs) = remove_at i (map f xs)"
  by (simp add: remove_at_def take_map drop_map)

lemma linked_free:
  assumes "linked h xs" "a \<notin> set xs"
  shows "linked (free_node a h) xs"
  using assms linked_nodes [OF assms(1)]
  by (auto simp: linked_def free_node_def in_set_conv_nth)

lemma insert_at_first: "0 < k \<Longrightarrow> xs \<noteq> [] \<Longrightarrow> insert_at k a xs ! 0 = xs ! 0"
  by (cases xs; cases k) (simp_all add: insert_at_def)

lemma tl_insert_at: "0 < k \<Longrightarrow> xs \<noteq> [] \<Longrightarrow> tl (insert_at k a xs) = insert_at (k - 1) a (tl xs)"
  by (cases xs; cases k) (simp_all add: insert_at_def)

lemma map_insert_at: "map f (insert_at k a xs) = insert_at k (f a) (map f xs)"
  by (simp add: insert_at_def take_map drop_map)

lemma map_swap_names:
  assumes "i + 1 < length xs" "j + 1 < length xs"
  shows "map f (tl (swap_at (i + 1) (j + 1) xs)) = swap_at i j (map f (tl xs))"
  using assms by (cases xs) (simp_all add: swap_at_def map_update)

text \<open>Appending a node numbered with the length of the list.\<close>

lemma nodes_same: "shows_by s xs ns \<Longrightarrow> nodes t = nodes s \<Longrightarrow> Conf t = Conf s \<Longrightarrow> shows_by t xs ns"
  by (simp add: shows_by_def chain_def)

lemma whole_chain:
  assumes "chain s xs"
  shows "whole_list (Conf s) k s = k xs s"
proof -
  have "walk (Suc (brk (nodes s))) (nodes s) (nth_opt xs 0) = Whole (drop 0 xs)"
    using assms chain_first(2) [OF assms] by (intro walk_linked) (simp_all add: chain_def)
  then show ?thesis
    using assms chain_ne [OF assms] by (simp add: chain_def whole_list_def nth_opt_def)
qed

lemma appended_shows:
  assumes "shows_by s xs ns"
  shows "shows_by (s\<lparr>nodes := append_node (last xs) b (int (length ns)) (nodes s)\<rparr>) (xs @ [brk (nodes s)]) (ns @ [b])"
proof -
  let ?h = "append_node (last xs) b (int (length ns)) (nodes s)" and ?ys = "xs @ [brk (nodes s)]"
  have c: "chain s xs" and L: "linked (nodes s) xs" "Conf s = Some (xs ! 0)" "numbered (nodes s) xs"
    "names (nodes s) xs = ns"
    using assms by (auto simp: shows_by_def chain_def)
  note A = linked_append [OF L(1), of b "int (length ns)"]
  note N = linked_nodes [OF L(1)]
  have old: "xs ! i \<noteq> brk (nodes s)" if "i < length xs" for i using N(4) [OF that] by simp
  have len: "length ns = length xs - 1" using L(4) by auto
  have pos: "0 < length xs" using N(5) by simp
  have "numbered ?h ?ys"
    unfolding numbered_def
  proof (intro allI impI)
    fix i assume i: "0 < i \<and> i < length ?ys"
    show "ConfNum ?h (?ys ! i) = int i - 1"
    proof (cases "i < length xs")
      case True
      then show ?thesis using i L(3) old [OF True] by (simp add: A(3) nth_append numbered_def)
    next
      case False
      then have "i = length xs" using i by simp
      then have "ConfNum ?h (?ys ! i) = int (length ns)" by (simp only: A(3)) simp
      moreover have "int (length ns) = int i - 1"
        using \<open>i = length xs\<close> pos len by linarith
      ultimately show ?thesis by (simp only:)
    qed
  qed
  moreover have "names ?h ?ys = ns @ [b]"
  proof -
    have tl: "tl ?ys = tl xs @ [brk (nodes s)]" using N(5) by simp
    have "brk (nodes s) \<notin> set xs" using old by (metis in_set_conv_nth)
    then have "brk (nodes s) \<notin> set (tl xs)" using N(5) by (meson list.set_sel(2))
    then have "map ((ConfName (nodes s))(brk (nodes s) := b)) (tl xs) = map (ConfName (nodes s)) (tl xs)"
      by (intro map_cong) auto
    then have "map ((ConfName (nodes s))(brk (nodes s) := b)) (tl xs) = ns"
      using L(4) by (simp only: names_def)
    then show ?thesis by (simp add: names_def tl A(2))
  qed
  ultimately show ?thesis
    using A(1) L(2) pos by (simp add: shows_by_def chain_def nth_append)
qed

section \<open>A small list\<close>

definition no_nodes :: heap where
  "no_nodes = \<lparr>ConfName = (\<lambda>_. []), ConfNum = (\<lambda>_. 0), NextRecord = (\<lambda>_. None), PrevRecord = (\<lambda>_. None),
     alive = (\<lambda>_. False), brk = 0\<rparr>"

definition sample_cfl :: "string \<Rightarrow> cfl" where
  "sample_cfl inp = \<lparr>tin = inp, tout = [],
     nodes = append_node 2 ''coop'' 2 (append_node 1 ''agora'' 1 (append_node 0 ''bbs'' 0 (InitList no_nodes))),
     Conf = Some 0, CatList = Some [], PrintCount = 0, CflName = ''/u/ann/.cflist'', User = ''ann'',
     files = (\<lambda>_. None), grants = 100\<rparr>"

definition sample_cfl_env :: cfl_env where
  "sample_cfl_env = \<lparr>pw_name = ''ann'', pw_dir = ''/u/ann'', updatable = (\<lambda>_. True), creatable = (\<lambda>_. True),
     fwrite_ok = (\<lambda>_. True), public_txt = Some []\<rparr>"

lemma brk_simps: "brk (InitList h) = 1" "brk (append_node l x n h) = brk h + 1"
  by (simp_all add: InitList_def append_node_def Let_def)

lemma sample_shows: "shows_list (sample_cfl inp) [''bbs'', ''agora'', ''coop'']"
proof -
  let ?s = "sample_cfl inp"
  let ?start = "?s\<lparr>nodes := InitList no_nodes\<rparr>"
  have "shows_by ?start [0] []"
    by (simp add: shows_by_def chain_def linked_init numbered_def names_def sample_cfl_def)
  from appended_shows [OF this, of "''bbs''"]
  have "shows_by (?s\<lparr>nodes := append_node 0 ''bbs'' 0 (InitList no_nodes)\<rparr>) [0, 1] [''bbs'']"
    by (simp add: brk_simps numeral_2_eq_2)
  from appended_shows [OF this, of "''agora''"]
  have "shows_by (?s\<lparr>nodes := append_node 1 ''agora'' 1 (append_node 0 ''bbs'' 0 (InitList no_nodes))\<rparr>)
      [0, 1, 2] [''bbs'', ''agora'']"
    by (simp add: brk_simps numeral_2_eq_2)
  from appended_shows [OF this, of "''coop''"]
  have "shows_by ?s [0, 1, 2, 3] [''bbs'', ''agora'', ''coop'']"
    by (simp add: brk_simps sample_cfl_def numeral_2_eq_2 numeral_3_eq_3)
  then show ?thesis by (auto simp: shows_list_def)
qed

lemma sample_file_ok: "file_ok sample_cfl_env (sample_cfl inp)"
  by (simp add: file_ok_def sample_cfl_env_def)

lemma sample_tin: "tin (sample_cfl inp) = inp"
  by (simp add: sample_cfl_def)

end
