(* ===== verification/CflProps.thy ===== *)
theory CflProps
  imports CflFacts
begin

text \<open>
  What the changing commands of \<open>soft/cmd/cflbuild\<close> do to the list of names and to the file: deleting,
  moving, exchanging and sorting as operations on the abstract list.
\<close>

text \<open>
  Deleting conference \<open>k\<close> of the list removes exactly the \<open>k\<close>-th name, keeps the others in order
  and numbered from 0, and rewrites the file with what is left.
\<close>

theorem delete_removes_one:
  assumes s: "shows_list s ns" and inp: "entered 5 (tin s) str rest" and k: "atoi str = int k" "k < length ns"
    and ok: "file_ok e s"
  shows "\<exists>t. Delete e s = (Ret (), t) \<and> leaves s (remove_at k ns) rest t"
proof -
  obtain xs where xs: "shows_by s xs ns" using s by (auto simp: shows_list_def)
  from prompted [OF xs, of 5 str rest] inp obtain v where
    v: "\<And>k :: string \<Rightarrow> unit cflp. sq DisplayList (sq (puts ''Enter the conference number to delete or 'q' to quit: '')
        (bnd (GetString 5) k)) s = k str v" "same_data s v" "tin v = rest" and shv: "shows_by v xs ns"
    unfolding entered_def by blast
  let ?a = "xs ! (k + 1)"
  have L: "linked (nodes v) xs" "Conf v = Some (xs ! 0)" "names (nodes v) xs = ns" "length ns = length xs - 1"
    using shv by (auto simp: shows_by_def chain_def)
  have find: "Find_num (int k) v = (Ret (Some ?a), v)" using Find_num_run [OF shv, of "int k"] k by simp
  have i: "0 < k + 1" "k + 1 < length xs" using k(2) L(4) by simp_all
  define h where "h = free_node ?a (unlink_node ?a (nodes v))"
  have U: "linked (unlink_node ?a (nodes v)) (remove_at (k + 1) xs)" "same_cells (nodes v) (unlink_node ?a (nodes v))"
    using linked_unlink [OF L(1) i] by simp_all
  have nh: "linked h (remove_at (k + 1) xs)"
    unfolding h_def using U(1) by (rule linked_free) (use i L(1) in \<open>simp add: remove_at_distinct linked_def\<close>)
  have nm: "map (ConfName h) (tl (remove_at (k + 1) xs)) = remove_at k ns"
    using i L(3) U(2) by (simp add: h_def free_node_def same_cells_def names_remove_at map_remove_at names_def)
  have c0: "Conf v = Some (remove_at (k + 1) xs ! 0)" using L(2) i by (simp add: remove_at_first)
  let ?x = "''Conference '' @ dec (atoi str) @ '' : '' @ ConfName h ?a @ '' deleted from your .cflist\<newline>''"
  obtain t where t: "sq (puts ?x) (sq Shuffle (WriteTocflist e)) (v\<lparr>nodes := h\<rparr>) = (Ret (), t)"
    "leaves v (remove_at k ns) (tin v) t"
    using relinked_leaves [OF nh c0 nm file_ok_same [OF ok v(2)]] by blast
  have same_name: "ConfName (unlink_node ?a (nodes v)) ?a = ConfName h ?a" by (simp add: h_def free_node_def)
  have no: "\<not> is_q str" "\<not> Isblank str" using inp by (auto simp: entered_def)
  have "Delete e s = (Ret (), t)"
    unfolding Delete_def v(1) k(1) if_not_P [OF no(1)] if_not_P [OF no(2)]
    by (rule bnd_then, rule find, unfold option.case, rule sq_then, rule on_nodes_run, rule bnd_then,
        rule gets_run, unfold puts_on_nodes)
      (use t(1) same_name k(1) in \<open>simp add: h_def\<close>)
  then show ?thesis using leaves_same [OF t(2) v(2)] v(3) by blast
qed

theorem delete_removes_one_witness:
  "\<exists>t. Delete sample_cfl_env (sample_cfl ''1\<newline>'') = (Ret (), t) \<and>
    leaves (sample_cfl ''1\<newline>'') [''bbs'', ''coop''] [] t"
proof -
  have "entered 5 (tin (sample_cfl ''1\<newline>'')) ''1'' []" by code_simp
  from delete_removes_one [OF sample_shows this, of 1 sample_cfl_env] show ?thesis
    by (simp add: sample_file_ok remove_at_def) (simp add: atoi_def atol_def strtol10_def isspace_def isdigit_def
        clamp_long_def digit_val_def s32_def wrap_def LONG_MAX_def LONG_MIN_def Let_def)
qed


text \<open>
  Moving conference \<open>i\<close> to position \<open>j\<close> takes its name out of the list and puts it back in front
  of the name that stood at \<open>j\<close>, whichever of the two came first, and rewrites the file.
\<close>

theorem move_reinserts:
  assumes s: "shows_list s ns" and inp: "entered 5 (tin s) str1 r1" "entered 5 r1 str2 rest"
    and i: "atoi str1 = int i" "i < length ns" and j: "atoi str2 = int j" "j < length ns" "i \<noteq> j"
    and ok: "file_ok e s"
  shows "\<exists>t. Move e s = (Ret (), t) \<and>
    leaves s (insert_at (if i < j then j - 1 else j) (ns ! i) (remove_at i ns)) rest t"
proof -
  let ?ns = "insert_at (if i < j then j - 1 else j) (ns ! i) (remove_at i ns)"
  obtain xs where xs: "shows_by s xs ns" using s by (auto simp: shows_list_def)
  from prompted_number [OF xs inp(1)] obtain u where
    u: "\<And>q k. sq DisplayList (sq (puts ''Enter the conf num to be moved or 'q' to quit: '') (ask_number 5 q k)) s
        = k str1 u" "same_data s u" "tin u = r1" "shows_by u xs ns"
    by blast
  let ?p = "''Enter the position where it should be moved or 'q' to quit: ''"
  define v where "v = u\<lparr>tout := tout u @ ?p, tin := rest\<rparr>"
  have v: "sq (puts ?p) (ask_number 5 q k) u = k str2 v" for q k
    using inp(2) ask_number_entered [of 5 "tin u" str2 rest q k] u(3)
    by (simp add: sq_def bnd_def puts_run entered_def GetString_def v_def)
  have sd: "same_data u v" by (simp add: same_data_def v_def)
  then have shv: "shows_by v xs ns" using u(4) same_data_shows by blast
  have L: "linked (nodes v) xs" "Conf v = Some (xs ! 0)" "names (nodes v) xs = ns" "length ns = length xs - 1"
    using shv by (auto simp: shows_by_def chain_def)
  let ?a = "xs ! (i + 1)" and ?b = "xs ! (j + 1)"
  have find: "Find_num (int i) v = (Ret (Some ?a), v)" "Find_num (int j) v = (Ret (Some ?b), v)"
    using Find_num_run [OF shv, of "int i"] Find_num_run [OF shv, of "int j"] i j by simp_all
  let ?k = "if i + 1 < j + 1 then j + 1 - 1 else j + 1"
  let ?ys = "insert_at ?k ?a (remove_at (i + 1) xs)"
  have r: "0 < i + 1" "i + 1 < length xs" "0 < j + 1" "j + 1 < length xs" "i + 1 \<noteq> j + 1"
    using i(2) j(2,3) L(4) by simp_all
  obtain h where h: "Insert ?a ?b (nodes v) = Some h" "same_cells (nodes v) h" "linked h ?ys"
    using linked_insert [OF L(1) r] by blast
  have k: "0 < ?k" using j(3) by (simp split: if_split)
  have ne: "remove_at (i + 1) xs \<noteq> []" using r(2) by (simp flip: length_0_conv)
  have c0: "Conf v = Some (?ys ! 0)"
    using L(2) insert_at_first [OF k ne] remove_at_first [OF r(1,2)] by simp
  have "tl ?ys = insert_at (?k - 1) ?a (remove_at i (tl xs))"
    using tl_insert_at [OF k ne] names_remove_at [OF r(1,2)] by simp
  then have nm: "map (ConfName h) (tl ?ys) = ?ns"
    using L(3) h(2) i(2) names_nth [of i "nodes v" xs] r(2)
    by (auto simp: map_insert_at map_remove_at same_cells_def names_def nth_tl)
  have okv: "file_ok e v" using file_ok_same [OF ok same_data_trans [OF u(2) sd]] .
  let ?x = "''\<newline>Conference '' @ shown h ?a @ '' moved before '' @ shown h ?b @ ''\<newline>''"
  obtain t where t: "sq (puts ?x) (sq Shuffle (WriteTocflist e)) (v\<lparr>nodes := h\<rparr>) = (Ret (), t)"
    "leaves v ?ns (tin v) t"
    using relinked_leaves [OF h(3) c0 nm okv] by blast
  have ins: "try_nodes (Insert ?a ?b) v = (Ret (), v\<lparr>nodes := h\<rparr>)" using h(1) by (simp add: try_nodes_def)
  have ne: "int i \<noteq> int j" using j(3) by simp
  have "Move e s = (Ret (), t)"
    unfolding Move_def u(1) v i(1) j(1) if_not_P [OF ne]
    by (rule bnd_then, rule find(1), unfold option.case, rule bnd_then, rule find(2), unfold option.case,
        rule sq_then, rule ins, rule bnd_then, rule gets_run) (use t(1) in simp)
  moreover have "tin v = rest" by (simp add: v_def)
  ultimately show ?thesis using leaves_same [OF t(2) same_data_trans [OF u(2) sd]] by auto
qed

theorem move_reinserts_witness:
  "\<exists>t. Move sample_cfl_env (sample_cfl ''0\<newline>2\<newline>'') = (Ret (), t) \<and>
    leaves (sample_cfl ''0\<newline>2\<newline>'') [''agora'', ''bbs'', ''coop''] [] t"
proof -
  have "entered 5 (tin (sample_cfl ''0\<newline>2\<newline>'')) ''0'' ''2\<newline>''" "entered 5 ''2\<newline>'' ''2'' []"
    "atoi ''0'' = int 0" "atoi ''2'' = int 2" by code_simp+
  from move_reinserts [OF sample_shows this(1,2,3) _ this(4) _ _ sample_file_ok] show ?thesis
    by (simp add: remove_at_def insert_at_def)
qed


lemma try_then:
  "sq (try_nodes f) (bnd (gets nodes) k) v =
    (case try_nodes f v of (Ret _, w) \<Rightarrow> k (nodes w) w | _ \<Rightarrow> try_nodes f v)"
  by (simp add: sq_def bnd_def gets_def try_nodes_def split: option.split)

text \<open>The first part of \<open>Swap\<close>, up to the exchange of the nodes.\<close>

lemma swap_start:
  assumes s: "shows_by s xs ns" and inp: "entered 25 (tin s) str rest" "two_numbers str = Some (int i, int j)"
    and ij: "i < length ns" "j < length ns" "i \<noteq> j"
  shows "\<exists>v. same_data s v \<and> tin v = rest \<and> shows_by v xs ns \<and>
    Swap e s = (case try_nodes (SwapNodes (xs ! (i + 1)) (xs ! (j + 1))) v of
        (Ret _, w) \<Rightarrow> sq (puts (''Conference '' @ shown (nodes w) (xs ! (i + 1)) @ '' and Conference ''
           @ shown (nodes w) (xs ! (j + 1)) @ '' are Swapped\<newline>'')) (sq Shuffle (WriteTocflist e)) w
      | _ \<Rightarrow> try_nodes (SwapNodes (xs ! (i + 1)) (xs ! (j + 1))) v)"
proof -
  from prompted_number [OF s inp(1)] obtain v where
    v: "\<And>q k. sq DisplayList (sq (puts (''Enter the 2 conf numbers to be swapped\<newline>''
        @ ''with spaces inbetween or 'q' to quit : '')) (ask_number 25 q k)) s = k str v"
    "same_data s v" "tin v = rest" "shows_by v xs ns"
    by blast
  let ?a = "xs ! (i + 1)" and ?b = "xs ! (j + 1)"
  have find: "Find_num (int i) v = (Ret (Some ?a), v)" "Find_num (int j) v = (Ret (Some ?b), v)"
    using Find_num_run [OF v(4), of "int i"] Find_num_run [OF v(4), of "int j"] ij by simp_all
  let ?fin = "\<lambda>h. sq (puts (''Conference '' @ shown h ?a @ '' and Conference '' @ shown h ?b @ '' are Swapped\<newline>''))
     (sq Shuffle (WriteTocflist e))"
  have ne: "int i \<noteq> int j" using ij(3) by simp
  have "Swap e s = sq (try_nodes (SwapNodes ?a ?b)) (bnd (gets nodes) ?fin) v"
    unfolding Swap_def v(1) inp(2) option.case prod.case if_not_P [OF ne]
    by (rule bnd_then, rule find(1), unfold option.case, rule bnd_then, rule find(2), unfold option.case, rule refl)
  also have "\<dots> = (case try_nodes (SwapNodes ?a ?b) v of (Ret _, w) \<Rightarrow> ?fin (nodes w) w
      | _ \<Rightarrow> try_nodes (SwapNodes ?a ?b) v)"
    by (rule try_then)
  finally show ?thesis using v(2-4) by (intro exI [of _ v] conjI)
qed

lemma swap_at_commute: "i \<noteq> j \<Longrightarrow> swap_at i j xs = swap_at j i xs"
  by (simp add: swap_at_def list_update_swap)

text \<open>
  Exchanging two conferences exchanges their names and rewrites the file, whenever the first
  number given is the smaller, and also when it is the larger, unless the two are neighbours or
  the larger is the last of the list.
\<close>

theorem swap_exchanges:
  assumes s: "shows_list s ns" and inp: "entered 25 (tin s) str rest" "two_numbers str = Some (int i, int j)"
    and ij: "i < length ns" "j < length ns" "i < j \<or> j + 1 < i \<and> i + 1 < length ns"
    and ok: "file_ok e s"
  shows "\<exists>t. Swap e s = (Ret (), t) \<and> leaves s (swap_at i j ns) rest t"
proof -
  obtain xs where xs: "shows_by s xs ns" using s by (auto simp: shows_list_def)
  have ne: "i \<noteq> j" using ij(3) by auto
  obtain v where v: "same_data s v" "tin v = rest" "shows_by v xs ns"
    "Swap e s = (case try_nodes (SwapNodes (xs ! (i + 1)) (xs ! (j + 1))) v of
        (Ret _, w) \<Rightarrow> sq (puts (''Conference '' @ shown (nodes w) (xs ! (i + 1)) @ '' and Conference ''
           @ shown (nodes w) (xs ! (j + 1)) @ '' are Swapped\<newline>'')) (sq Shuffle (WriteTocflist e)) w
      | _ \<Rightarrow> try_nodes (SwapNodes (xs ! (i + 1)) (xs ! (j + 1))) v)"
    using swap_start [OF xs inp ij(1,2) ne, of e] by blast
  have L: "linked (nodes v) xs" "Conf v = Some (xs ! 0)" "names (nodes v) xs = ns" "length ns = length xs - 1"
    using v(3) by (auto simp: shows_by_def chain_def)
  obtain h where h: "SwapNodes (xs ! (i + 1)) (xs ! (j + 1)) (nodes v) = Some h"
    "linked h (swap_at (i + 1) (j + 1) xs)" "same_cells (nodes v) h"
  proof (cases "i < j")
    case True
    then have "0 < i + 1" "i + 1 < j + 1" "j + 1 < length xs" using ij(2) L(4) by simp_all
    from linked_swap [OF L(1) this] that show thesis by blast
  next
    case False
    then have "0 < j + 1" "j + 1 + 1 < i + 1" "i + 1 + 1 < length xs" using ij(3) L(4) by linarith+
    from linked_swap_back [OF L(1) this] that swap_at_commute [of "i + 1" "j + 1" xs] ne show thesis by auto
  qed
  let ?ys = "swap_at (i + 1) (j + 1) xs"
  have "try_nodes (SwapNodes (xs ! (i + 1)) (xs ! (j + 1))) v = (Ret (), v\<lparr>nodes := h\<rparr>)"
    using h(1) by (simp add: try_nodes_def)
  then have run: "Swap e s = sq (puts (''Conference '' @ shown h (xs ! (i + 1)) @ '' and Conference ''
       @ shown h (xs ! (j + 1)) @ '' are Swapped\<newline>'')) (sq Shuffle (WriteTocflist e)) (v\<lparr>nodes := h\<rparr>)"
    by (simp only: v(4) prod.case outcome.case) simp
  have r: "i + 1 < length xs" "j + 1 < length xs" using ij L(4) by simp_all
  have c0: "Conf v = Some (?ys ! 0)" using L(2) by (simp add: swap_at_def)
  have nm: "map (ConfName h) (tl ?ys) = swap_at i j ns"
    using L(3) h(3) map_swap_names [OF r, of "ConfName h"] by (simp add: names_def same_cells_def)
  obtain t where "sq (puts (''Conference '' @ shown h (xs ! (i + 1)) @ '' and Conference ''
           @ shown h (xs ! (j + 1)) @ '' are Swapped\<newline>'')) (sq Shuffle (WriteTocflist e)) (v\<lparr>nodes := h\<rparr>) = (Ret (), t)"
    "leaves v (swap_at i j ns) (tin v) t"
    using relinked_leaves [OF h(2) c0 nm file_ok_same [OF ok v(1)]] by blast
  then show ?thesis using run leaves_same [OF _ v(1)] v(2) by auto
qed

theorem swap_exchanges_witness:
  "\<exists>t. Swap sample_cfl_env (sample_cfl ''0 2\<newline>'') = (Ret (), t) \<and>
    leaves (sample_cfl ''0 2\<newline>'') [''coop'', ''agora'', ''bbs''] [] t"
proof -
  have "entered 25 (tin (sample_cfl ''0 2\<newline>'')) ''0 2'' []" "two_numbers ''0 2'' = Some (int 0, int 2)"
    by code_simp+
  from swap_exchanges [OF sample_shows this _ _ _ sample_file_ok] show ?thesis
    by (simp add: swap_at_def)
qed


text \<open>
  Exchanging the last conference with an earlier one, the last one's number given first, stores
  through a NULL pointer; exchanging two neighbours that way round makes the list go round for
  ever, and the program hangs while numbering it.
\<close>

theorem swap_backwards_breaks:
  assumes s: "shows_list s ns" and inp: "entered 25 (tin s) str rest" "two_numbers str = Some (int i, int j)"
    and ij: "j < i" "i < length ns"
  shows "(i + 1 = length ns \<longrightarrow> fst (Swap e s) = Undef) \<and>
    (i = j + 1 \<and> i + 1 < length ns \<longrightarrow> fst (Swap e s) = Hang)"
proof -
  obtain xs where xs: "shows_by s xs ns" using s by (auto simp: shows_list_def)
  have r: "i < length ns" "j < length ns" "i \<noteq> j" using ij by auto
  obtain v where v: "shows_by v xs ns"
    "Swap e s = (case try_nodes (SwapNodes (xs ! (i + 1)) (xs ! (j + 1))) v of
        (Ret _, w) \<Rightarrow> sq (puts (''Conference '' @ shown (nodes w) (xs ! (i + 1)) @ '' and Conference ''
           @ shown (nodes w) (xs ! (j + 1)) @ '' are Swapped\<newline>'')) (sq Shuffle (WriteTocflist e)) w
      | _ \<Rightarrow> try_nodes (SwapNodes (xs ! (i + 1)) (xs ! (j + 1))) v)"
    using swap_start [OF xs inp r, of e] by blast
  have L: "linked (nodes v) xs" "Conf v = Some (xs ! 0)" "length ns = length xs - 1"
    using v(1) by (auto simp: shows_by_def chain_def)
  have last: "fst (Swap e s) = Undef" if "i + 1 = length ns"
  proof -
    have "SwapNodes (xs ! (i + 1)) (xs ! (j + 1)) (nodes v) = None"
      by (rule swap_last_backwards [OF L(1)]) (use that ij L(3) in simp_all)
    then have "try_nodes (SwapNodes (xs ! (i + 1)) (xs ! (j + 1))) v = (Undef, v)" by (simp add: try_nodes_def)
    then show ?thesis by (simp only: v(2) prod.case outcome.case fst_conv)
  qed
  have near: "fst (Swap e s) = Hang" if i: "i = j + 1" and "i + 1 < length ns"
  proof -
    have "0 < j + 1" "j + 1 + 2 < length xs" using that L(3) by simp_all
    from swap_backwards_loops [OF L(1) this] obtain h where
      h: "SwapNodes (xs ! (i + 1)) (xs ! (j + 1)) (nodes v) = Some h"
      "\<And>n. walk n h (NextRecord h (xs ! 0)) = Loops"
      unfolding i by blast
    then have "try_nodes (SwapNodes (xs ! (i + 1)) (xs ! (j + 1))) v = (Ret (), v\<lparr>nodes := h\<rparr>)"
      by (simp add: try_nodes_def)
    then show ?thesis
      unfolding v(2) using h(2) L(2)
      by (simp only: prod.case outcome.case) (simp add: sq_def bnd_def puts_run Shuffle_def with_list_def with_conf_def gets_def whole_list_def)
  qed
  show ?thesis using last near by simp
qed

theorem swap_backwards_breaks_witness:
  "fst (Swap sample_cfl_env (sample_cfl ''2 0\<newline>'')) = Undef \<and>
   fst (Swap sample_cfl_env (sample_cfl ''1 0\<newline>'')) = Hang"
proof -
  have a: "entered 25 (tin (sample_cfl ''2 0\<newline>'')) ''2 0'' []" "two_numbers ''2 0'' = Some (int 2, int 0)"
    and b: "entered 25 (tin (sample_cfl ''1 0\<newline>'')) ''1 0'' []" "two_numbers ''1 0'' = Some (int 1, int 0)"
    by code_simp+
  from swap_backwards_breaks [OF sample_shows a, of sample_cfl_env]
    swap_backwards_breaks [OF sample_shows b, of sample_cfl_env] show ?thesis by simp
qed


text \<open>
  C4: sorting leaves the names in increasing order and rewrites the file when they were not in order;
  a list already in order is left alone and the file is not touched.
\<close>

theorem sort_all_sorts:
  assumes s: "shows_list s ns" and ok: "file_ok e s"
  shows "\<exists>t. SortAll e s = (Ret (), t) \<and> shows_list t (sort ns) \<and> tin t = tin s \<and>
    files t = (if sorted ns then files s else (files s)(CflName s \<mapsto> file_text (sort ns)))"
proof -
  obtain xs where xs: "shows_by s xs ns" using s by (auto simp: shows_list_def)
  then have c: "chain s xs" and L: "linked (nodes s) xs" "Conf s = Some (xs ! 0)" "names (nodes s) xs = ns"
    by (auto simp: shows_by_def chain_def)
  let ?n = "Suc (brk (nodes s))"
  have "length xs \<le> ?n" using chain_first(2) [OF c] by simp
  from sort_linked [OF L(1) this this] obtain h ys sw where
    h: "sort_outer ?n ?n (nodes s) (nth_opt xs 1) False = Some (h, sw)" "linked h ys" "same_cells (nodes s) h"
    "ys ! 0 = xs ! 0" "names h ys = sort ns" "sw \<longleftrightarrow> \<not> sorted ns" "\<not> sw \<longrightarrow> h = nodes s \<and> ys = xs"
    using L(3) by blast
  let ?s = "s\<lparr>nodes := h\<rparr>"
  have run: "SortAll e s = (if sw then sq Shuffle (sq (WriteTocflist e) (puts ''\<newline>\".cflist\" is sorted\<newline>\<newline>''))
       else puts ''\<newline>\".cflist\" is already in sorting order\<newline>\<newline>'') ?s"
    using h(1) L(2) chain_first(1) [OF c]
    by (simp add: SortAll_def with_conf_def bnd_def gets_def sq_def on_nodes_run del: sort_outer.simps)
  have c': "chain ?s ys" using h(2,4) L(2) by (simp add: chain_def)
  show ?thesis
  proof (cases sw)
    case True
    from Shuffle_Write_run [OF c', of e] ok h(5) obtain t where
      t: "sq Shuffle (WriteTocflist e) ?s = (Ret (), t)" "shows_by t ys (sort ns)"
      "files t = (files s)(CflName s \<mapsto> file_text (sort ns))" "tin t = tin s"
      by (auto simp: file_ok_def)
    let ?t = "t\<lparr>tout := tout t @ ''\<newline>\".cflist\" is sorted\<newline>\<newline>''\<rparr>"
    have "sq Shuffle (sq (WriteTocflist e) (puts ''\<newline>\".cflist\" is sorted\<newline>\<newline>'')) ?s = (Ret (), ?t)"
      using t(1) by (auto simp: sq_def bnd_def puts_run split: prod.splits outcome.splits)
    moreover have "shows_by ?t ys (sort ns)" using t(2) by (simp add: shows_by_def chain_def)
    ultimately show ?thesis using run True t(3,4) h(6) by (auto simp: shows_list_def)
  next
    case False
    then have "sorted ns" "h = nodes s" "ys = xs" using h(6,7) by auto
    moreover from this have "sort ns = ns" by (simp add: sorted_sort_id)
    ultimately show ?thesis
      using run False xs by (simp add: puts_run shows_list_def shows_by_def chain_def) blast
  qed
qed

theorem sort_all_sorts_witness:
  "\<exists>t. SortAll sample_cfl_env (sample_cfl []) = (Ret (), t) \<and> shows_list t [''agora'', ''bbs'', ''coop'']"
proof -
  have "sort [''bbs'', ''agora'', ''coop''] = [''agora'', ''bbs'', ''coop'']" by code_simp
  with sort_all_sorts [OF sample_shows sample_file_ok, of "[]"] show ?thesis by auto
qed


end
