(* ===== verification/CflLoad.thy ===== *)
theory CflLoad
  imports CflProps
begin

text \<open>
  Reading the \<open>.cflist\<close> file at the start of \<open>soft/cmd/cflbuild\<close>: a file the program wrote gives the
  list it was written from.
\<close>

lemma WriteToBuffers_run:
  assumes s: "shows_by s xs ns" and g: "2 \<le> grants s" and len: "length b \<le> len"
  shows "\<exists>t. WriteToBuffers b (int (length ns)) len s = (Ret (), t) \<and> shows_list t (ns @ [b]) \<and>
    grants t = grants s - 2 \<and> tin t = tin s \<and> files t = files s \<and> CflName t = CflName s"
proof -
  let ?s = "s\<lparr>grants := grants s - 2\<rparr>"
  have c: "chain s xs" using s by (simp add: shows_by_def)
  have sh: "shows_by ?s xs ns" by (rule nodes_same [OF s]) simp_all
  let ?t = "?s\<lparr>nodes := append_node (last xs) b (int (length ns)) (nodes ?s)\<rparr>"
  have "Conf s = Some (xs ! 0)" using c by (simp add: chain_def)
  then have "WriteToBuffers b (int (length ns)) len s =
      bnd malloc (\<lambda>ok. if \<not> ok then no_memory else bnd malloc (\<lambda>ok2. if \<not> ok2 then undef
        else on_nodes (append_node (last xs) (take len b) (int (length ns))))) s"
    using whole_chain [OF c] by (simp add: WriteToBuffers_def with_conf_def)
  also have "\<dots> = (Ret (), ?t)"
    using g len by (simp add: bnd_def malloc_def on_nodes_run numeral_2_eq_2)
  finally have run: "WriteToBuffers b (int (length ns)) len s = (Ret (), ?t)" .
  have "shows_list ?t (ns @ [b])" using appended_shows [OF sh] unfolding shows_list_def by blast
  with run show ?thesis by simp
qed

text \<open>Names that survive being written as a line and read as a token.\<close>

definition plain_name :: "string \<Rightarrow> bool" where
  "plain_name x \<longleftrightarrow> x \<noteq> [] \<and> length x < 127 \<and>
     (\<forall>c \<in> set x. \<not> separator c \<and> \<not> blank_char c \<and> c \<noteq> NUL)"

lemma tokens_plain:
  assumes "plain_name x"
  shows "tokens x = [x]"
proof -
  have no: "\<forall>c \<in> set x. \<not> separator c" and ne: "x \<noteq> []" using assms by (auto simp: plain_name_def)
  have "dropWhile separator x = x" using no ne by (cases x) auto
  moreover have "takeWhile (\<lambda>c. \<not> separator c) x = x" using no by (simp add: takeWhile_eq_all_conv)
  moreover have "dropWhile (\<lambda>c. \<not> separator c) x = []" by (subst dropWhile_eq_Nil_conv) (rule no)
  ultimately have "ExtractTokens x = (x, [])"
    by (simp only: ExtractTokens_def Let_def dropWhile.simps)
  with ne show ?thesis by (subst tokens.simps) (simp add: tokens.simps [of "[]"])
qed

lemma file_pieces:
  "\<forall>x \<in> set ns. plain_name x \<Longrightarrow> map cstr (pieces 127 (file_text ns)) = map (\<lambda>x. x @ [NL]) ns"
proof (induction ns)
  case Nil
  then show ?case by (simp add: file_text_def)
next
  case (Cons x ns)
  then have x: "NL \<notin> set x" "NUL \<notin> set x" "length x < 127" by (auto simp: plain_name_def blank_char_def)
  have "file_text (x # ns) = x @ NL # file_text ns" using x(3) by (simp add: file_text_def)
  moreover have "pieces 127 (x @ NL # file_text ns) = (x @ [NL]) # pieces 127 (file_text ns)"
    by (rule pieces_line [OF x(1,3)])
  moreover have "cstr (x @ [NL]) = x @ [NL]" using x(2) by (simp add: cstr_id)
  ultimately show ?case using Cons by simp
qed

lemma load_lines_run:
  "shows_list s ns \<Longrightarrow> \<forall>x \<in> set ms. plain_name x \<Longrightarrow> 2 * length ms \<le> grants s \<Longrightarrow>
   \<exists>t. load_lines (map (\<lambda>x. x @ [NL]) ms) (int (length ns)) s = (Ret (), t) \<and> shows_list t (ns @ ms)"
proof (induction ms arbitrary: s ns)
  case Nil
  then show ?case by (simp add: ret_def)
next
  case (Cons x ms)
  then have x: "plain_name x" and g: "2 \<le> grants s" by simp_all
  obtain xs where "shows_by s xs ns" using Cons.prems(1) by (auto simp: shows_list_def)
  from WriteToBuffers_run [OF this g, of x "length x"] obtain u where
    u: "WriteToBuffers x (int (length ns)) (length x) s = (Ret (), u)" "shows_list u (ns @ [x])"
    "grants u = grants s - 2" by auto
  have "2 * length ms \<le> grants u" using u(3) Cons.prems(3) by simp
  from Cons.IH [OF u(2) _ this] Cons.prems(2) obtain t where
    t: "load_lines (map (\<lambda>x. x @ [NL]) ms) (int (length (ns @ [x]))) u = (Ret (), t)"
    "shows_list t ((ns @ [x]) @ ms)" by auto
  have nb: "\<not> Isblank (x @ [NL])"
    using x by (cases x) (auto simp: Isblank_def plain_name_def)
  have "load_tokens [x] (int (length ns)) (length x) s = (Ret (int (length ns) + 1), u)"
    using u(1) by (simp add: sq_def bnd_def ret_def)
  then have "load_lines (map (\<lambda>x. x @ [NL]) (x # ms)) (int (length ns)) s = (Ret (), t)"
    using nb t(1) tokens_plain [OF x] by (simp add: bnd_def add.commute)
  with t(2) show ?case by simp
qed

text \<open>
  C25: a file written from a list of plain names, none of them empty or longer than a line can be,
  gives the same list back, in the same order, when the program starts with it.
\<close>

theorem cflist_reads_back:
  assumes f: "files s (CflName s) = Some (file_text ns)" and ns: "\<forall>x \<in> set ns. plain_name x"
    and mem: "2 + 2 * length ns \<le> grants s"
  shows "\<exists>t. load_cflist s = (Ret (), t) \<and> shows_list t ns"
proof -
  let ?s = "s\<lparr>grants := grants s - 2, nodes := InitList (nodes s), Conf := Some 0\<rparr>"
  have init: "InitConf s = (Ret (), ?s)"
    using mem by (simp add: InitConf_def bnd_def malloc_def upd_def numeral_2_eq_2)
  have "shows_by ?s [0] []"
    by (simp add: shows_by_def chain_def linked_init numbered_def names_def)
  then have s0: "shows_list ?s []" unfolding shows_list_def by blast
  have "2 * length ns \<le> grants ?s" using mem by simp
  from load_lines_run [OF s0 ns this] obtain t where
    t: "load_lines (map (\<lambda>x. x @ [NL]) ns) 0 ?s = (Ret (), t)" "shows_list t ns" by auto
  have "load_cflist s = (Ret (), t)"
    using init f t(1) file_pieces [OF ns] by (simp add: load_cflist_def sq_def bnd_def gets_def)
  with t(2) show ?thesis by blast
qed

theorem cflist_reads_back_witness:
  "\<exists>t. load_cflist ((sample_cfl [])\<lparr>files := [''/u/ann/.cflist'' \<mapsto> file_text [''bbs'', ''agora'']]\<rparr>) = (Ret (), t) \<and>
    shows_list t [''bbs'', ''agora'']"
proof -
  have "\<forall>x \<in> set [''bbs'', ''agora'']. plain_name x" by code_simp
  then show ?thesis by (intro cflist_reads_back) (simp_all add: sample_cfl_def)
qed

end
