(* ===== verification/CflReads.thy ===== *)
theory CflReads
  imports CflLoad
begin

text \<open>
  The statements of \<open>soft/cmd/cflbuild\<close> that leave the lists and the file alone, the input every
  statement consumes, and the end of the menus.
\<close>

section \<open>Programs that leave the data alone\<close>

definition reads :: "'a cflp \<Rightarrow> bool" where
  "reads m \<longleftrightarrow> (\<forall>s0. safe (same_data s0) m (\<lambda>_. same_data s0))"

lemma reads_bnd: "reads m \<Longrightarrow> (\<And>a. reads (k a)) \<Longrightarrow> reads (bnd m k)"
  unfolding reads_def using safe_bnd by blast

lemma reads_sq: "reads m \<Longrightarrow> reads n \<Longrightarrow> reads (sq m n)"
  by (simp add: sq_def reads_bnd)

lemma reads_basic: "reads (ret a)" "reads (exit_prog c)" "reads undef" "reads hang" "reads (gets f)"
  by (simp_all add: reads_def safe_def ret_def exit_prog_def undef_def hang_def gets_def)

lemma reads_cases:
  "(b \<Longrightarrow> reads m) \<Longrightarrow> (\<not> b \<Longrightarrow> reads n) \<Longrightarrow> reads (if b then m else n)"
  "(r = None \<Longrightarrow> reads m) \<Longrightarrow> (\<And>x. r = Some x \<Longrightarrow> reads (j x)) \<Longrightarrow>
   reads (case r of None \<Rightarrow> m | Some x \<Rightarrow> j x)"
  by (simp, cases r, auto)

lemma reads_prints: "prints m \<Longrightarrow> reads m"
  unfolding reads_def safe_def using same_data_trans
  by (metis fst_conv outcome.distinct(7) printsD prod.inject)

lemma reads_puts: "reads (puts x)"
  by (rule reads_prints) (rule prints_puts)

lemma reads_getchar: "reads getchar"
  by (auto simp: reads_def safe_def getchar_def same_data_def split: list.splits)

lemma FreeMemory_fuel: "fst (FreeMemory s) \<noteq> NoFuel"
  by (simp add: FreeMemory_def FreeList_def FreePublicConf_def sq_def bnd_def upd_def split: walked.splits)

lemma FreeMemory_fuelD: "FreeMemory s = (NoFuel, t) \<Longrightarrow> False"
  using FreeMemory_fuel [of s] by simp

text \<open>A program that frees everything does not return.\<close>

lemma reads_gone: "reads (sq FreeMemory (sq (puts x) (exit_prog c)))" "reads (sq FreeMemory (exit_prog c))"
  by (auto simp: reads_def safe_def sq_def bnd_def puts_run exit_prog_def dest: FreeMemory_fuelD
      split: prod.splits outcome.splits)

lemma GetString_cases:
  obtains str rest where "get_string n [] (tin s) = (Some str, rest)" "GetString n s = (Ret str, s\<lparr>tin := rest\<rparr>)"
    | "\<forall>a. fst (GetString n s) \<noteq> Ret a" "fst (GetString n s) \<noteq> NoFuel"
proof (cases "fst (get_string n [] (tin s))")
  case None
  obtain rest where g: "get_string n [] (tin s) = (None, rest)" using None by (metis prod.collapse)
  have "(\<forall>a. fst (GetString n s) \<noteq> Ret a) \<and> fst (GetString n s) \<noteq> NoFuel"
    using FreeMemory_fuel [of "s\<lparr>tin := rest\<rparr>"]
    by (auto simp: GetString_def g sq_def bnd_def puts_run gets_def exit_prog_def split: prod.splits outcome.splits)
  then show thesis using that(2) by blast
next
  case (Some str)
  then show thesis using that(1) GetString_run by (metis prod.collapse)
qed

lemma reads_GetString: "reads (GetString n)"
  unfolding reads_def safe_def
proof (intro allI impI)
  fix s0 s assume "same_data s0 s"
  then show "fst (GetString n s) \<noteq> NoFuel \<and> (\<forall>a t. GetString n s = (Ret a, t) \<longrightarrow> same_data s0 t)"
    by (cases rule: GetString_cases [of n s]) (auto intro: same_data_trans)
qed

lemma get_string_shrinks: "get_string n acc inp = (Some str, rest) \<Longrightarrow> length rest < length inp"
  by (induction n acc inp rule: get_string.induct) (auto split: if_splits)

lemma GetString_shrinks: "GetString n s = (Ret str, t) \<Longrightarrow> length (tin t) < length (tin s)"
  by (cases rule: GetString_cases [of n s]) (auto dest: get_string_shrinks)

lemma reads_with_cats: "(\<And>cs. reads (k cs)) \<Longrightarrow> reads (with_cats k)"
  by (auto simp: reads_def safe_def with_cats_def split: option.splits)

lemma reads_foldr: "(\<And>x. reads (f x)) \<Longrightarrow> reads (foldr (\<lambda>x m. sq (f x) m) xs (ret ()))"
  by (induction xs) (simp_all add: reads_basic reads_sq)

lemmas reads_rules = reads_bnd reads_sq reads_basic reads_cases reads_puts reads_getchar reads_GetString
  reads_with_cats

lemma reads_columns: "reads (upd (\<lambda>s. s\<lparr>PrintCount := 0\<rparr>))" "reads (print_all xs)" "reads (PrintString x)"
  by (intro reads_prints prints_rules)+

lemma reads_ask_yes: "reads ask_yes"
  unfolding ask_yes_def by (intro reads_rules)

lemma reads_ask_number: "(\<And>x. reads (k x)) \<Longrightarrow> reads (ask_number n q k)"
  unfolding ask_number_def by (intro reads_rules)

lemma reads_displays: "reads DispCategories" "reads (DispPublicConf n)" "reads (disp_pub p)"
  unfolding DispCategories_def DispPublicConf_def FindCat_def disp_pub_def
  by (intro reads_rules reads_columns | simp split: extracted.split add: reads_basic reads_columns)+

lemma reads_all: "reads DispAllPublicConfs"
  unfolding DispAllPublicConfs_def by (intro reads_rules reads_columns reads_foldr reads_displays)

lemma reads_lookup: "reads (GetConfFromPublicTxt pubs n room)"
  unfolding GetConfFromPublicTxt_def Let_def
  by (intro reads_rules | simp split: extracted.split option.split add: reads_basic)+

section \<open>Input is only consumed\<close>

lemma eats_whole_list: "(\<And>xs. keeps consumes (k xs)) \<Longrightarrow> keeps consumes (whole_list p k)"
  by (auto simp: keeps_def whole_list_def consumes_def split: walked.splits)

lemma eats_with_conf: "(\<And>c. keeps consumes (k c)) \<Longrightarrow> keeps consumes (with_conf k)"
  by (auto simp: keeps_def with_conf_def consumes_def split: option.splits)

lemma eats_with_cats: "(\<And>c. keeps consumes (k c)) \<Longrightarrow> keeps consumes (with_cats k)"
  by (auto simp: keeps_def with_cats_def consumes_def split: option.splits)

lemma eats_upd: "(\<And>s. tin (f s) = tin s) \<Longrightarrow> keeps consumes (upd f)"
  by (simp add: keeps_def upd_def consumes_def)

lemma eats_Free: "keeps consumes FreeMemory"
  unfolding FreeMemory_def FreePublicConf_def
  by (intro eats.keeps_rules eats_upd) (auto simp: keeps_def FreeList_def consumes_def split: walked.splits)

lemma eats_malloc: "keeps consumes malloc"
  by (auto simp: keeps_def malloc_def consumes_def split: if_splits)

lemma eats_GetString: "keeps consumes (GetString n)"
proof (rule keepsI)
  fix s r t
  assume r: "GetString n s = (r, t)"
  show "consumes s t"
  proof (cases "fst (get_string n [] (tin s))")
    case None
    have "length (snd (get_string n acc inp)) \<le> length inp" for acc inp
      by (induction n acc inp rule: get_string.induct) (auto simp: le_Suc_eq)
    then obtain rest where g: "get_string n [] (tin s) = (None, rest)" "length rest \<le> length (tin s)"
      using None by (metis prod.collapse)
    let ?m = "sq FreeMemory
      (sq (puts ''\<newline>\<newline>Ctrl Character Encountered...\<newline>'') (sq (puts ''Exiting the program...\<newline>'')
      (bnd (gets User) (\<lambda>u. sq (puts (thanks u)) (exit_prog 0)))))"
    have "keeps consumes (?m :: string cflp)" by (intro eats.keeps_rules eats_Free puts_consumes)
    moreover have "?m (s\<lparr>tin := rest\<rparr>) = (r, t)" using r g(1) by (simp add: GetString_def)
    ultimately have "consumes (s\<lparr>tin := rest\<rparr>) t" by (rule keepsD)
    then show ?thesis using g(2) by (simp add: consumes_def)
  next
    case (Some str)
    then obtain rest where g: "get_string n [] (tin s) = (Some str, rest)" by (metis prod.collapse)
    then show ?thesis using r get_string_shrinks [OF g] GetString_run [OF g] by (auto simp: consumes_def)
  qed
qed

lemma eats_on_nodes: "keeps consumes (on_nodes f)"
  unfolding on_nodes_def by (rule eats_upd) simp

lemma eats_try: "keeps consumes (try_nodes f)"
  by (auto simp: keeps_def try_nodes_def consumes_def split: option.splits)

lemmas eats_rules = eats.keeps_rules puts_consumes getchar_consumes eats_whole_list eats_with_conf
  eats_with_cats eats_Free eats_malloc eats_GetString eats_on_nodes eats_try

lemma eats_foldr: "(\<And>x. keeps consumes (f x)) \<Longrightarrow> keeps consumes (foldr (\<lambda>x m. sq (f x) m) xs (ret ()))"
  by (induction xs) (simp_all add: eats.keeps_ret eats.keeps_sq)

lemma eats_columns: "keeps consumes (PrintString x)" "keeps consumes (print_all xs)"
    "keeps consumes (upd (\<lambda>s. s\<lparr>PrintCount := 0\<rparr>))"
proof -
  show p: "keeps consumes (PrintString x)" for x
    unfolding PrintString_def by (rule eats_upd) (simp add: Let_def split: prod.split)
  show "keeps consumes (print_all xs)" unfolding print_all_def by (rule eats_foldr) (rule p)
  show "keeps consumes (upd (\<lambda>s. s\<lparr>PrintCount := 0\<rparr>))" by (rule eats_upd) simp
qed

lemma eats_with_list: "(\<And>xs. keeps consumes (k xs)) \<Longrightarrow> keeps consumes (with_list k)"
  unfolding with_list_def by (intro eats_rules)

lemma eats_displays: "keeps consumes DisplayList" "keeps consumes DispCategories"
    "keeps consumes (DispPublicConf n)" "keeps consumes DispAllPublicConfs"
    "keeps consumes (GetConfFromPublicTxt pubs n room)" "keeps consumes ask_yes"
  unfolding DisplayList_def DispCategories_def DispPublicConf_def DispAllPublicConfs_def FindCat_def
    GetConfFromPublicTxt_def disp_pub_def Let_def ask_yes_def
  by (intro eats_rules eats_with_list eats_columns eats_foldr
      | simp split: extracted.split add: eats_rules eats_columns)+

lemma eats_write: "keeps consumes (WriteTocflist e)" "keeps consumes Shuffle"
    "keeps consumes (WriteToBuffers b n l)" "keeps consumes (Find_num n)" "keeps consumes (Find_name x)"
proof -
  show "keeps consumes (WriteTocflist e)"
    unfolding WriteTocflist_def Let_def by (intro eats_rules eats_with_list eats_upd | simp)+
  show "keeps consumes Shuffle" unfolding Shuffle_def by (intro eats_rules eats_with_list)
  show "keeps consumes (WriteToBuffers b n l)"
    unfolding WriteToBuffers_def no_memory_def by (intro eats_rules)
  have f: "keeps consumes (find_by P)" for P
    unfolding find_by_def
    by (rule eats_with_conf) (auto simp: keeps_def consumes_def split: found.splits)
  show "keeps consumes (Find_num n)" "keeps consumes (Find_name x)"
    unfolding Find_num_def Find_name_def by (rule f)+
qed

lemma eats_ask_number: "(\<And>x. keeps consumes (k x)) \<Longrightarrow> keeps consumes (ask_number n q k)"
  unfolding ask_number_def by (intro eats_rules)

lemma eats_pick: "keeps consumes (pick n text hi)"
proof (induction n)
  case (Suc n)
  then have "keeps consumes (bnd (pick_round text hi) (\<lambda>c. case c of None \<Rightarrow> pick n text hi | Some k \<Rightarrow> ret k))"
    unfolding pick_round_def by (intro eats_rules)
  then show ?case by (simp add: keeps_def)
qed (simp add: keeps_def consumes_def)

lemma eats_menus: "keeps consumes (from_menu text hi)"
  unfolding from_menu_def by (intro eats_rules eats_pick)

lemma eats_LongList: "keeps consumes LongList"
  unfolding LongList_def long_round_def
  by (intro eats_rules eats.keeps_iter eats_displays)

lemma eats_add: "keeps consumes (add_numbers e pubs)"
proof -
  have "keeps consumes (add_one e pubs t)" for t
    unfolding add_one_def by (intro eats_rules eats_displays eats_write)
  then have "keeps consumes (add_all e pubs ts)" for ts
    by (induction ts) (simp_all add: eats.keeps_ret eats.keeps_sq)
  then show ?thesis unfolding add_numbers_def by (intro eats_rules eats_ask_number)
qed

lemma eats_commands: "keeps consumes (Add e)" "keeps consumes (Change e)" "keeps consumes (Delete e)"
    "keeps consumes (Sort e)" "keeps consumes List_cmd"
proof -
  show "keeps consumes (Add e)"
    unfolding Add_def SelectList_def
    by (intro eats_rules eats_menus eats_add eats_displays eats_ask_number)
  show "keeps consumes (Change e)"
    unfolding Change_def no_memory_def
    by (intro eats_rules eats_displays eats_ask_number eats_write)
  show "keeps consumes (Delete e)"
    unfolding Delete_def by (intro eats_rules eats_displays eats_write)
  have "keeps consumes (SortAll e)"
    unfolding SortAll_def
    by (intro eats_rules eats_write) (auto simp: keeps_def consumes_def)
  moreover have "keeps consumes (Swap e)"
    unfolding Swap_def not_found_def by (intro eats_rules eats_displays eats_ask_number eats_write)
  moreover have "keeps consumes (Move e)"
    unfolding Move_def not_num_def by (intro eats_rules eats_displays eats_ask_number eats_write)
  ultimately show "keeps consumes (Sort e)" unfolding Sort_def by (intro eats_rules eats_menus)
  show "keeps consumes List_cmd"
    unfolding List_cmd_def by (intro eats_rules eats_menus eats_displays eats_LongList)
qed

section \<open>The menus end\<close>

text \<open>
  A menu asks again only after it has read at least one character, so the length of the input is
  fuel enough; nothing changes but the input and the output.
\<close>

lemma reads_pick_round: "reads (pick_round x hi)"
  unfolding pick_round_def by (intro reads_rules)

lemma pick_round_shrinks: "pick_round x hi s = (Ret c, t) \<Longrightarrow> length (tin t) < length (tin s)"
  using GetString_shrinks [of 5 "s\<lparr>tout := tout s @ x\<rparr>"]
  by (auto simp: pick_round_def sq_def bnd_def puts_run ret_def split: prod.splits outcome.splits)

lemma pick_enough:
  "length (tin s) < n \<Longrightarrow> fst (pick n x hi s) \<noteq> NoFuel \<and> (\<forall>c t. pick n x hi s = (Ret c, t) \<longrightarrow> same_data s t)"
proof (induction n arbitrary: s)
  case (Suc n)
  obtain r u where r: "pick_round x hi s = (r, u)" by fastforce
  have rd: "r \<noteq> NoFuel" "\<And>c. r = Ret c \<Longrightarrow> same_data s u"
    using reads_pick_round [of x hi] same_data_refl [of s] r unfolding reads_def safe_def by fastforce+
  show ?case
  proof (cases r)
    case (Ret c)
    show ?thesis
    proof (cases c)
      case None
      have "length (tin u) < n" using pick_round_shrinks [of x hi s c u] r Ret Suc.prems by simp
      from Suc.IH [OF this] show ?thesis
        using r Ret None rd(2) [OF Ret] same_data_trans by (simp add: bnd_def)
    next
      case (Some k)
      then show ?thesis using r Ret rd(2) [OF Ret] by (simp add: bnd_def ret_def)
    qed
  next
    case NoFuel
    then show ?thesis using rd(1) by simp
  qed (use r in \<open>simp_all add: bnd_def\<close>)
qed simp

lemma reads_menu: "reads (from_menu x hi)"
  unfolding reads_def safe_def
proof (intro allI impI)
  fix s0 s assume s: "same_data s0 s"
  have "from_menu x hi s = pick (Suc (length (tin s))) x hi s" by (simp add: from_menu_def bnd_def gets_def)
  with pick_enough [of s "Suc (length (tin s))" x hi] s same_data_trans
  show "fst (from_menu x hi s) \<noteq> NoFuel \<and> (\<forall>a t. from_menu x hi s = (Ret a, t) \<longrightarrow> same_data s0 t)"
    by (metis lessI)
qed

lemma GetString_then_shrinks:
  assumes "bnd (GetString n) k s = (Ret a, t)" and "\<And>x. keeps consumes (k x)"
  shows "length (tin t) < length (tin s)"
  using assms(1)
proof (cases rule: bnd_cases)
  case (step x u)
  with GetString_shrinks [of n s x u] assms(2) [of x] show ?thesis
    by (auto simp: consumes_def dest: keepsD)
qed simp

interpretation long_loop: shrinking_body long_round "\<lambda>s. length (tin s)"
proof
  fix s t
  let ?k = "\<lambda>str. if str \<noteq> [] \<and> hd str = CHR ''q'' then ret False
      else if Isblank str then sq (puts ''\<newline>Category num not entered Quitting...\<newline>'') (ret False)
      else bnd (DispPublicConf (atoi str)) (\<lambda>pubs.
        if pubs = [] then sq (puts (''Category \"'' @ dec (atoi str) @ ''\" doesn't exist\<newline>'')) (ret False)
        else sq (puts ''List categories again press (y/n): '') ask_yes)"
  assume r: "long_round s = (Ret True, t)"
  have k: "keeps consumes (?k x)" for x by (intro eats_rules eats_displays)
  from r obtain u v where u: "DispCategories s = (Ret (), u)"
    "puts (''Enter the no to display all confs\<newline>'' @ ''in that category Or 'q' to quit : '') u = (Ret (), v)"
    "bnd (GetString 5) ?k v = (Ret True, t)"
    unfolding long_round_def by (elim sq_cases) auto
  have "length (tin t) < length (tin v)" using u(3) k by (rule GetString_then_shrinks)
  moreover have "length (tin v) = length (tin u)" using u(2) by (auto simp: puts_run)
  moreover have "length (tin u) \<le> length (tin s)"
    using keepsD [OF eats_displays(2) u(1)] by (simp add: consumes_def)
  ultimately show "length (tin t) < length (tin s)" by (simp add: consumes_def)
next
  fix s
  have "reads long_round"
    unfolding long_round_def by (intro reads_rules reads_displays reads_ask_yes)
  then show "fst (long_round s) \<noteq> NoFuel" using same_data_refl unfolding reads_def safe_def by blast
qed

lemma reads_LongList: "reads LongList"
proof -
  have r: "reads long_round"
    unfolding long_round_def by (intro reads_rules reads_displays reads_ask_yes)
  show ?thesis
    unfolding reads_def safe_def
  proof (intro allI impI)
    fix s0 s assume s: "same_data s0 s"
    let ?n = "Suc (length (tin s))"
    have run: "LongList s = iter ?n long_round s" by (simp add: LongList_def bnd_def gets_def)
    have "fst (iter ?n long_round s) \<noteq> NoFuel" by (rule long_loop.iter_enough) simp
    moreover have "same_data s0 t" if "iter ?n long_round s = (Ret a, t)" for a t
      using r s that unfolding reads_def by (blast intro: iter_stays)
    ultimately show "fst (LongList s) \<noteq> NoFuel \<and> (\<forall>a t. LongList s = (Ret a, t) \<longrightarrow> same_data s0 t)"
      unfolding run by blast
  qed
qed
end
