(* ===== verification/CflSafe.thy ===== *)
theory CflSafe
  imports CflReads
begin

text \<open>
  Every command of \<open>soft/cmd/cflbuild\<close> that returns leaves a well-formed list, whatever is typed and
  whichever writes or allocations fail.
\<close>

section \<open>Well-formed lists\<close>

definition well :: "cfl \<Rightarrow> bool" where
  "well s \<longleftrightarrow> (\<exists>ns. shows_list s ns)"

definition strung :: "cfl \<Rightarrow> bool" where
  "strung s \<longleftrightarrow> (\<exists>xs. chain s xs)"

text \<open>A node of the list.\<close>

definition listed :: "nat \<Rightarrow> cfl \<Rightarrow> bool" where
  "listed a s \<longleftrightarrow> (\<exists>xs ns i. shows_by s xs ns \<and> 0 < i \<and> i < length xs \<and> a = xs ! i)"

lemma same_stable:
  assumes "same_data s t"
  shows "well s \<Longrightarrow> well t" and "strung s \<Longrightarrow> strung t" and "listed a s \<Longrightarrow> listed a t"
proof -
  have sh: "shows_by t xs ns = shows_by s xs ns" for xs ns using same_data_shows [OF assms] .
  have ch: "chain t xs = chain s xs" for xs using assms by (simp add: same_data_def chain_def)
  show "well s \<Longrightarrow> well t" by (simp add: well_def shows_list_def sh)
  show "strung s \<Longrightarrow> strung t" by (simp add: strung_def ch)
  show "listed a s \<Longrightarrow> listed a t" by (simp add: listed_def sh)
qed

lemma safe_reads:
  assumes "reads m" and "\<And>s t. same_data s t \<Longrightarrow> P s \<Longrightarrow> P t"
  shows "safe P m (\<lambda>_. P)"
  using assms unfolding reads_def safe_def using same_data_refl by metis

lemma well_reads: "reads m \<Longrightarrow> safe well m (\<lambda>_. well)"
  and listed_reads: "reads m \<Longrightarrow> safe (listed a) m (\<lambda>_. listed a)"
  and strung_reads: "reads m \<Longrightarrow> safe strung m (\<lambda>_. strung)"
  by (rule safe_reads; simp add: same_stable)+

lemma well_strung: "well s \<Longrightarrow> strung s"
  by (auto simp: well_def shows_list_def shows_by_def strung_def)

lemma listed_well: "listed a s \<Longrightarrow> well s"
  by (auto simp: well_def shows_list_def listed_def)

lemma safe_DisplayList: "safe well DisplayList (\<lambda>_. well)"
  unfolding safe_def
proof (intro allI impI)
  fix s assume "well s"
  then obtain xs where "chain s xs" using well_strung by (auto simp: strung_def)
  from DisplayList_run [OF this] same_stable(1) \<open>well s\<close>
  show "fst (DisplayList s) \<noteq> NoFuel \<and> (\<forall>a t. DisplayList s = (Ret a, t) \<longrightarrow> well t)" by auto
qed

lemma safe_Shuffle: "safe strung Shuffle (\<lambda>_. well)"
  unfolding safe_def
proof (intro allI impI)
  fix s assume "strung s"
  then obtain xs where c: "chain s xs" by (auto simp: strung_def)
  from Shuffle_run [OF c] obtain h where h: "Shuffle s = (Ret (), s\<lparr>nodes := h\<rparr>)" "linked h xs" "numbered h xs"
    by blast
  then have "shows_by (s\<lparr>nodes := h\<rparr>) xs (names h xs)" using c by (simp add: shows_by_def chain_def)
  then have "well (s\<lparr>nodes := h\<rparr>)" by (auto simp: well_def shows_list_def)
  with h(1) show "fst (Shuffle s) \<noteq> NoFuel \<and> (\<forall>a t. Shuffle s = (Ret a, t) \<longrightarrow> well t)" by simp
qed

lemma safe_Write: "safe well (WriteTocflist e) (\<lambda>_. well)"
  unfolding safe_def
proof (intro allI impI)
  fix s assume w: "well s"
  then obtain xs where c: "chain s xs" using well_strung by (auto simp: strung_def)
  have any: "well (s\<lparr>files := f\<rparr>)" for f
    using w by (simp add: well_def shows_list_def shows_by_def chain_def)
  show "fst (WriteTocflist e s) \<noteq> NoFuel \<and> (\<forall>a t. WriteTocflist e s = (Ret a, t) \<longrightarrow> well t)"
    using any
    by (auto simp: WriteTocflist_def with_list_run [OF c] bnd_def gets_def sq_def upd_def puts_run exit_prog_def ret_def
        Let_def dest: FreeMemory_fuelD split: prod.splits outcome.splits if_splits)
qed

lemma safe_finish: "safe strung (sq Shuffle (WriteTocflist e)) (\<lambda>_. well)"
  by (rule safe_sq [OF safe_Shuffle safe_Write])

lemma Find_num_cases:
  assumes "shows_by s xs ns"
  obtains (hit) "0 \<le> n" "n < int (length ns)" "Find_num n s = (Ret (Some (xs ! (nat n + 1))), s)"
    | (miss) "Find_num n s = (Ret None, s)"
  using Find_num_run [OF assms, of n] by (cases "0 \<le> n \<and> n < int (length ns)") auto

lemma safe_Find_num: "safe well (Find_num n) (\<lambda>p s. case p of None \<Rightarrow> well s | Some a \<Rightarrow> listed a s)"
  unfolding safe_def
proof (intro allI impI)
  fix s assume w: "well s"
  then obtain xs ns where sh: "shows_by s xs ns" by (auto simp: well_def shows_list_def)
  then have len: "length ns = length xs - 1" by (auto simp: shows_by_def)
  have "listed (xs ! (nat n + 1)) s" if "0 \<le> n" "n < int (length ns)"
  proof -
    have "0 < nat n + 1" "nat n + 1 < length xs" using that len by linarith+
    then show ?thesis using sh unfolding listed_def by (intro exI [of _ xs] exI [of _ ns] exI [of _ "nat n + 1"]) simp
  qed
  with w show "fst (Find_num n s) \<noteq> NoFuel \<and>
      (\<forall>a t. Find_num n s = (Ret a, t) \<longrightarrow> (case a of None \<Rightarrow> well t | Some a \<Rightarrow> listed a t))"
    by (cases rule: Find_num_cases [OF sh, of n]) simp_all
qed

lemma reads_Find_name_in: "safe (listed a) (Find_name x) (\<lambda>_. listed a)" "safe well (Find_name x) (\<lambda>_. well)"
proof -
  have "fst (Find_name x s) \<noteq> NoFuel \<and> (\<forall>a t. Find_name x s = (Ret a, t) \<longrightarrow> t = s)" if w: "well s" for s
  proof -
    obtain xs ns where "shows_by s xs ns" using w by (auto simp: well_def shows_list_def)
    from Find_name_run [OF this, of x] show ?thesis by auto
  qed
  then show "safe (listed a) (Find_name x) (\<lambda>_. listed a)" "safe well (Find_name x) (\<lambda>_. well)"
    using listed_well unfolding safe_def by blast+
qed

lemma safe_Append: "safe well (WriteToBuffers b n l) (\<lambda>_. strung)"
  unfolding safe_def
proof (intro allI impI)
  fix s assume "well s"
  then obtain xs where c: "chain s xs" using well_strung by (auto simp: strung_def)
  then have cn: "Conf s = Some (xs ! 0)" by (simp add: chain_def)
  let ?m = "bnd malloc (\<lambda>ok. if \<not> ok then no_memory else bnd malloc (\<lambda>ok2. if \<not> ok2 then undef
      else on_nodes (append_node (last xs) (take l b) n)))"
  have run: "WriteToBuffers b n l s = ?m s"
    by (simp add: WriteToBuffers_def with_conf_def cn whole_chain [OF c, unfolded cn])
  have "strung (s\<lparr>grants := g, nodes := append_node (last xs) (take l b) n (nodes s)\<rparr>)" for g
    using c linked_append(1) [of "nodes s" xs "take l b" n] chain_ne [OF c]
    by (auto simp: strung_def chain_def nth_append intro!: exI [of _ "xs @ [brk (nodes s)]"])
  then show "fst (WriteToBuffers b n l s) \<noteq> NoFuel \<and> (\<forall>a t. WriteToBuffers b n l s = (Ret a, t) \<longrightarrow> strung t)"
    unfolding run
    by (auto simp: bnd_def malloc_def undef_def no_memory_def sq_def puts_run
        exit_prog_def on_nodes_run dest: FreeMemory_fuelD split: prod.splits outcome.splits)
qed

text \<open>Two different nodes of the list; a node taken out of it; a list that goes round for ever.\<close>

definition two_listed :: "nat \<Rightarrow> nat \<Rightarrow> cfl \<Rightarrow> bool" where
  "two_listed a b s \<longleftrightarrow> (\<exists>xs ns i j. shows_by s xs ns \<and> 0 < i \<and> i < length xs \<and> 0 < j \<and> j < length xs \<and>
     i \<noteq> j \<and> a = xs ! i \<and> b = xs ! j)"

definition cut_out :: "nat \<Rightarrow> cfl \<Rightarrow> bool" where
  "cut_out a s \<longleftrightarrow> (\<exists>xs. chain s xs \<and> a \<notin> set xs)"

definition endless :: "cfl \<Rightarrow> bool" where
  "endless s \<longleftrightarrow> (\<exists>c. Conf s = Some c \<and> (\<forall>n. walk n (nodes s) (NextRecord (nodes s) c) = Loops))"

definition relinked :: "cfl \<Rightarrow> bool" where
  "relinked s \<longleftrightarrow> strung s \<or> endless s"

lemma frame_reads: "reads m \<Longrightarrow> safe (cut_out a) m (\<lambda>_. cut_out a)" "reads m \<Longrightarrow> safe relinked m (\<lambda>_. relinked)"
  by (rule safe_reads; auto simp: cut_out_def relinked_def strung_def endless_def chain_def same_data_def)+

lemma safe_endless: "safe relinked (sq Shuffle (WriteTocflist e)) (\<lambda>_. well)"
proof -
  have "Shuffle s = (Hang, s)" if "endless s" for s
    using that by (auto simp: endless_def Shuffle_def with_list_def with_conf_def bnd_def gets_def whole_list_def
        simp del: walk.simps)
  then have "safe relinked Shuffle (\<lambda>_. well)"
    using safe_Shuffle unfolding relinked_def safe_def by (metis fst_conv outcome.distinct(19) outcome.distinct(5) prod.inject)
  then show ?thesis using safe_Write by (rule safe_sq)
qed

lemma safe_unlink: "safe (listed a) (on_nodes (unlink_node a)) (\<lambda>_. cut_out a)"
  unfolding safe_def
proof (intro allI impI)
  fix s assume "listed a s"
  then obtain xs ns i where a: "shows_by s xs ns" "0 < i" "i < length xs" "a = xs ! i"
    unfolding listed_def by blast
  then have L: "linked (nodes s) xs" "Conf s = Some (xs ! 0)" by (auto simp: shows_by_def chain_def)
  have "chain (s\<lparr>nodes := unlink_node a (nodes s)\<rparr>) (remove_at i xs)"
    using linked_unlink(1) [OF L(1) a(2,3)] L(2) remove_at_first [OF a(2,3)] by (simp add: chain_def a(4))
  moreover have "a \<notin> set (remove_at i xs)" using L(1) a(3,4) by (simp add: remove_at_distinct linked_def)
  ultimately show "fst (on_nodes (unlink_node a) s) \<noteq> NoFuel \<and>
      (\<forall>x t. on_nodes (unlink_node a) s = (Ret x, t) \<longrightarrow> cut_out a t)"
    by (auto simp: on_nodes_run cut_out_def)
qed

lemma safe_free: "safe (cut_out a) (on_nodes (free_node a)) (\<lambda>_. strung)"
  using linked_free by (auto simp: safe_def cut_out_def on_nodes_run strung_def chain_def)

lemma safe_rename: "safe (listed a) (on_nodes (rename a x)) (\<lambda>_. well)"
proof -
  have "shows_by (s\<lparr>nodes := rename a x (nodes s)\<rparr>) xs (names (rename a x (nodes s)) xs)"
    if "shows_by s xs ns" for s xs ns
    using that by (simp add: shows_by_def chain_def rename_def linked_def numbered_def)
  then show ?thesis
    by (fastforce simp: safe_def listed_def on_nodes_run well_def shows_list_def)
qed

lemma safe_Find_second:
  "n \<noteq> m \<Longrightarrow> safe (\<lambda>s. \<exists>xs ns. shows_by s xs ns \<and> 0 \<le> n \<and> n < int (length ns) \<and> a = xs ! (nat n + 1))
     (Find_num m) (\<lambda>p s. case p of None \<Rightarrow> well s | Some b \<Rightarrow> two_listed a b s)"
  unfolding safe_def
proof (intro allI impI, elim exE conjE)
  fix s xs ns
  assume nm: "n \<noteq> m" and sh: "shows_by s xs ns" and n: "0 \<le> n" "n < int (length ns)" "a = xs ! (nat n + 1)"
  have len: "length ns = length xs - 1" using sh by (auto simp: shows_by_def)
  have w: "well s" using sh by (auto simp: well_def shows_list_def)
  have "two_listed a (xs ! (nat m + 1)) s" if m: "0 \<le> m" "m < int (length ns)"
  proof -
    have "0 < nat n + 1" "nat n + 1 < length xs" "0 < nat m + 1" "nat m + 1 < length xs" "nat n + 1 \<noteq> nat m + 1"
      using n m len nm by linarith+
    then show ?thesis using sh n(3) unfolding two_listed_def
      by (intro exI [of _ xs] exI [of _ ns] exI [of _ "nat n + 1"] exI [of _ "nat m + 1"]) simp
  qed
  with w show "fst (Find_num m s) \<noteq> NoFuel \<and>
      (\<forall>p t. Find_num m s = (Ret p, t) \<longrightarrow> (case p of None \<Rightarrow> well t | Some b \<Rightarrow> two_listed a b t))"
    by (cases rule: Find_num_cases [OF sh, of m]) simp_all
qed

lemma safe_Find_first:
  "safe well (Find_num n) (\<lambda>p s. case p of None \<Rightarrow> well s
     | Some a \<Rightarrow> \<exists>xs ns. shows_by s xs ns \<and> 0 \<le> n \<and> n < int (length ns) \<and> a = xs ! (nat n + 1))"
  unfolding safe_def
proof (intro allI impI)
  fix s assume w: "well s"
  then obtain xs ns where sh: "shows_by s xs ns" by (auto simp: well_def shows_list_def)
  show "fst (Find_num n s) \<noteq> NoFuel \<and> (\<forall>p t. Find_num n s = (Ret p, t) \<longrightarrow>
      (case p of None \<Rightarrow> well t
       | Some a \<Rightarrow> \<exists>xs ns. shows_by t xs ns \<and> 0 \<le> n \<and> n < int (length ns) \<and> a = xs ! (nat n + 1)))"
  proof (cases rule: Find_num_cases [OF sh, of n, case_names hit miss])
    case hit
    with sh have "\<exists>ys ms. shows_by s ys ms \<and> 0 \<le> n \<and> n < int (length ms) \<and> xs ! (nat n + 1) = ys ! (nat n + 1)"
      by blast
    with hit show ?thesis by simp
  next
    case miss
    with w show ?thesis by simp
  qed
qed

lemma safe_swap_nodes: "safe (two_listed a b) (try_nodes (SwapNodes a b)) (\<lambda>_. relinked)"
  unfolding safe_def
proof (intro allI impI)
  fix s assume "two_listed a b s"
  then obtain xs ns i j where a: "shows_by s xs ns" "0 < i" "i < length xs" "0 < j" "j < length xs" "i \<noteq> j"
    "a = xs ! i" "b = xs ! j"
    unfolding two_listed_def by blast
  then have L: "linked (nodes s) xs" "Conf s = Some (xs ! 0)" by (auto simp: shows_by_def chain_def)
  have first: "swap_at i j xs ! 0 = xs ! 0" using a(2,4) by (simp add: swap_at_def)
  have ok: "relinked (s\<lparr>nodes := h\<rparr>)" if "linked h (swap_at i j xs)" for h
    using that L(2) first by (auto simp: relinked_def strung_def chain_def intro!: exI [of _ "swap_at i j xs"])
  consider "i < j" | "j < i" "i + 1 = length xs" | "i = j + 1" "j + 2 < length xs" | "j + 1 < i" "i + 1 < length xs"
    using a(3,6) by linarith
  then have "SwapNodes a b (nodes s) = None \<or> (\<exists>h. SwapNodes a b (nodes s) = Some h \<and> relinked (s\<lparr>nodes := h\<rparr>))"
  proof cases
    case 1
    from linked_swap [OF L(1) a(2) this a(5)] ok show ?thesis by (auto simp: a(7,8))
  next
    case 2
    from swap_last_backwards [OF L(1) a(4) this] show ?thesis by (simp add: a(7,8))
  next
    case 3
    from swap_backwards_loops [OF L(1) a(4) this(2)] L(2) show ?thesis
      unfolding a(7,8) 3(1) relinked_def endless_def by fastforce
  next
    case 4
    from linked_swap_back [OF L(1) a(4) this] ok swap_at_commute [OF a(6), of xs] show ?thesis
      by (auto simp: a(7,8))
  qed
  then show "fst (try_nodes (SwapNodes a b) s) \<noteq> NoFuel \<and>
      (\<forall>x t. try_nodes (SwapNodes a b) s = (Ret x, t) \<longrightarrow> relinked t)"
    by (auto simp: try_nodes_def)
qed

lemma safe_insert_nodes: "safe (two_listed a b) (try_nodes (Insert a b)) (\<lambda>_. relinked)"
  unfolding safe_def
proof (intro allI impI)
  fix s assume "two_listed a b s"
  then obtain xs ns i j where a: "shows_by s xs ns" "0 < i" "i < length xs" "0 < j" "j < length xs" "i \<noteq> j"
    "a = xs ! i" "b = xs ! j"
    unfolding two_listed_def by blast
  then have L: "linked (nodes s) xs" "Conf s = Some (xs ! 0)" by (auto simp: shows_by_def chain_def)
  define k where "k = (if i < j then j - 1 else j)"
  have k: "0 < k" using a(2,4,6) by (auto simp: k_def)
  have ne: "remove_at i xs \<noteq> []" using a(2,3) by (simp flip: length_0_conv)
  from linked_insert [OF L(1) a(2-6)] obtain h where
    h: "Insert a b (nodes s) = Some h" "linked h (insert_at k a (remove_at i xs))"
    unfolding a(7,8) k_def by blast
  have "Conf s = Some (insert_at k a (remove_at i xs) ! 0)"
    using L(2) insert_at_first [OF k ne] remove_at_first [OF a(2,3)] by simp
  with h show "fst (try_nodes (Insert a b) s) \<noteq> NoFuel \<and>
      (\<forall>x t. try_nodes (Insert a b) s = (Ret x, t) \<longrightarrow> relinked t)"
    by (auto simp: try_nodes_def relinked_def strung_def chain_def)
qed

section \<open>The commands keep the list well-formed\<close>

lemma safe_ask_number: "(\<And>x. safe well (k x) (\<lambda>_. well)) \<Longrightarrow> safe well (ask_number n q k) (\<lambda>_. well)"
  unfolding ask_number_def
  by (rule safe_bnd [OF well_reads [OF reads_GetString]])
    (simp add: well_reads reads_basic reads_puts)

lemma safe_Delete: "safe well (Delete e) (\<lambda>_. well)"
  unfolding Delete_def
proof (rule safe_sq [OF safe_DisplayList], rule safe_sq [OF well_reads [OF reads_puts]],
    rule safe_bnd [OF well_reads [OF reads_GetString]], intro safe_cases(1))
  fix str
  show "safe well (bnd (Find_num (atoi str)) (\<lambda>p. case p of
      None \<Rightarrow> puts (''Cannot Find Conference Number \"'' @ dec (atoi str) @ ''\"\<newline>'')
    | Some a \<Rightarrow> sq (on_nodes (unlink_node a)) (bnd (gets (\<lambda>s. ConfName (nodes s) a)) (\<lambda>name.
        sq (puts (''Conference '' @ dec (atoi str) @ '' : '' @ name @ '' deleted from your .cflist\<newline>''))
          (sq (on_nodes (free_node a)) (sq Shuffle (WriteTocflist e))))))) (\<lambda>_. well)"
  proof (rule safe_bnd [OF safe_Find_num], rule safe_cases(2), goal_cases)
    case (1 p)
    then show ?case by (simp add: well_reads reads_puts)
  next
    case (2 p a)
    show ?case
      unfolding 2 option.case
      by (rule safe_sq [OF safe_unlink], rule safe_bnd [OF frame_reads(1) [OF reads_basic(5)]],
          rule safe_sq [OF frame_reads(1) [OF reads_puts]], rule safe_sq [OF safe_free safe_finish])
  qed
qed (intro well_reads reads_rules)+

lemma safe_two_nodes:
  assumes "n1 \<noteq> n2" and "\<And>a b. safe (two_listed a b) (k a b) (\<lambda>_. well)"
  shows "safe well (bnd (Find_num n1) (\<lambda>p. case p of None \<Rightarrow> puts x | Some a \<Rightarrow>
      bnd (Find_num n2) (\<lambda>q. case q of None \<Rightarrow> puts y | Some b \<Rightarrow> k a b))) (\<lambda>_. well)"
proof (rule safe_bnd [OF safe_Find_first], rule safe_cases(2), goal_cases)
  case (1 p)
  then show ?case by (simp add: well_reads reads_puts)
next
  case (2 p a)
  show ?case
    unfolding 2 option.case
  proof (rule safe_bnd [OF safe_Find_second [OF assms(1)]], rule safe_cases(2), goal_cases)
    case (1 q)
    then show ?case by (simp add: well_reads reads_puts)
  next
    case (2 q b)
    then show ?case by (simp add: assms(2))
  qed
qed

lemma safe_after_links:
  assumes "safe P m (\<lambda>_. relinked)"
  shows "safe P (sq m (bnd (gets nodes) (\<lambda>h. sq (puts (f h)) (sq Shuffle (WriteTocflist e))))) (\<lambda>_. well)"
  by (rule safe_sq [OF assms], rule safe_bnd [OF frame_reads(2) [OF reads_basic(5)]],
      rule safe_sq [OF frame_reads(2) [OF reads_puts] safe_endless])

lemma safe_Swap: "safe well (Swap e) (\<lambda>_. well)"
  unfolding Swap_def not_found_def
proof (rule safe_sq [OF safe_DisplayList], rule safe_sq [OF well_reads [OF reads_puts]],
    rule safe_ask_number, rule safe_cases(2), goal_cases)
  case (1 str)
  show ?case by (rule well_reads) (rule reads_puts)
next
  case (2 str p)
  show ?case
    by (rule safe_cases(3), rule safe_cases(1), rule well_reads, rule reads_puts,
        erule safe_two_nodes, rule safe_after_links [OF safe_swap_nodes])
qed

lemma safe_Move: "safe well (Move e) (\<lambda>_. well)"
  unfolding Move_def not_num_def
  by (rule safe_sq [OF safe_DisplayList], rule safe_sq [OF well_reads [OF reads_puts]], rule safe_ask_number,
      rule safe_sq [OF well_reads [OF reads_puts]], rule safe_ask_number, rule safe_cases(1), rule well_reads,
      rule reads_puts, erule safe_two_nodes, rule safe_after_links [OF safe_insert_nodes])

lemma safe_SortAll: "safe well (SortAll e) (\<lambda>_. well)"
  unfolding safe_def
proof (intro allI impI)
  fix s assume "well s"
  then obtain xs ns where xs: "shows_by s xs ns" by (auto simp: well_def shows_list_def)
  then have c: "chain s xs" and L: "linked (nodes s) xs" "Conf s = Some (xs ! 0)"
    by (auto simp: shows_by_def chain_def)
  let ?n = "Suc (brk (nodes s))"
  have "length xs \<le> ?n" using chain_first(2) [OF c] by simp
  from sort_linked [OF L(1) this this] obtain h ys sw where
    h: "sort_outer ?n ?n (nodes s) (nth_opt xs 1) False = Some (h, sw)" "linked h ys" "ys ! 0 = xs ! 0"
      "\<not> sw \<longrightarrow> h = nodes s \<and> ys = xs"
    by blast
  let ?s = "s\<lparr>nodes := h\<rparr>"
  let ?m = "if sw then sq Shuffle (sq (WriteTocflist e) (puts ''\<newline>\".cflist\" is sorted\<newline>\<newline>''))
       else puts ''\<newline>\".cflist\" is already in sorting order\<newline>\<newline>''"
  have run: "SortAll e s = ?m ?s"
    using h(1) L(2) chain_first(1) [OF c]
    by (simp add: SortAll_def with_conf_def bnd_def gets_def sq_def on_nodes_run del: sort_outer.simps)
  have "strung ?s" using h(2,3) L(2) by (auto simp: strung_def chain_def)
  moreover have "\<not> sw \<Longrightarrow> well ?s" using h(4) \<open>well s\<close> by simp
  moreover have "safe strung (sq Shuffle (sq (WriteTocflist e) (puts x))) (\<lambda>_. well)" for x
    by (rule safe_sq [OF safe_Shuffle], rule safe_sq [OF safe_Write], rule well_reads, rule reads_puts)
  moreover have "safe well (puts x) (\<lambda>_. well)" for x by (rule well_reads, rule reads_puts)
  ultimately show "fst (SortAll e s) \<noteq> NoFuel \<and> (\<forall>a t. SortAll e s = (Ret a, t) \<longrightarrow> well t)"
    unfolding run safe_def by (cases sw) simp_all
qed

lemma safe_Sort: "safe well (Sort e) (\<lambda>_. well)"
  unfolding Sort_def
  by (rule safe_bnd [OF well_reads [OF reads_menu]])
    (simp add: safe_SortAll safe_Swap safe_Move well_reads reads_basic)

lemma safe_List: "safe well List_cmd (\<lambda>_. well)"
  unfolding List_cmd_def
  by (rule safe_bnd [OF well_reads [OF reads_menu]])
    (simp add: safe_DisplayList well_reads reads_basic reads_all reads_LongList)

lemma safe_if_present:
  "safe P m (\<lambda>_. P) \<Longrightarrow> safe P (ret x) (\<lambda>_. P) \<Longrightarrow> safe P (if b then ret x else m) (\<lambda>_. P)"
  by simp

lemma safe_add: "safe well (add_numbers e pubs) (\<lambda>_. well)"
proof -
  have one: "safe well (add_one e pubs t) (\<lambda>_. well)" for t
    unfolding add_one_def
    by (rule safe_cases(1), rule well_reads, rule reads_basic, rule safe_bnd [OF well_reads [OF reads_lookup]],
        rule safe_cases(2), rule well_reads, rule reads_basic, rule safe_bnd [OF reads_Find_name_in(2)],
        rule safe_bnd [OF well_reads [OF reads_cases(1)]], rule reads_basic, rule reads_sq [OF reads_puts reads_ask_yes],
        rule safe_cases(1), rule well_reads, rule reads_basic, rule safe_sq [OF safe_Append],
        rule safe_sq [OF strung_reads [OF reads_puts] safe_finish])
  have "safe well (add_all e pubs ts) (\<lambda>_. well)" for ts
    by (induction ts) (simp_all add: well_reads reads_basic safe_sq [OF one])
  then show ?thesis
    unfolding add_numbers_def by (intro safe_sq [OF well_reads [OF reads_puts]] safe_ask_number)
qed

lemma safe_Add: "safe well (Add e) (\<lambda>_. well)"
  unfolding Add_def SelectList_def
  by (rule safe_bnd [OF well_reads [OF reads_menu]], intro safe_cases(1), rule well_reads, rule reads_basic,
      rule safe_sq [OF well_reads [OF reads_all] safe_add],
      rule safe_sq [OF well_reads [OF reads_displays(1)]], rule safe_sq [OF well_reads [OF reads_puts]],
      rule safe_ask_number, rule safe_bnd [OF well_reads [OF reads_displays(2)]], rule safe_cases(1),
      rule well_reads, rule reads_puts, rule safe_add, rule safe_add)

lemma reads_no_memory: "reads (no_memory :: 'a cflp)"
proof -
  have "fst ((no_memory :: 'a cflp) s) \<noteq> NoFuel \<and> (\<forall>a. fst ((no_memory :: 'a cflp) s) \<noteq> Ret a)" for s
    by (auto simp: no_memory_def sq_def bnd_def puts_run exit_prog_def dest: FreeMemory_fuelD
        split: prod.splits outcome.splits)
  then show ?thesis unfolding reads_def safe_def by (metis fst_conv)
qed

lemma safe_Change: "safe well (Change e) (\<lambda>_. well)"
proof -
  have upd: "safe (listed a) (bnd malloc (\<lambda>ok. if \<not> ok then no_memory else
      sq (on_nodes (rename a x)) (sq (WriteTocflist e) (puts y)))) (\<lambda>_. well)" for a x y
  proof (rule safe_bnd)
    show "safe (listed a) malloc (\<lambda>_. listed a)"
      by (auto simp: safe_def malloc_def listed_def shows_by_def chain_def)
    show "safe (listed a) (if \<not> ok then no_memory else
      sq (on_nodes (rename a x)) (sq (WriteTocflist e) (puts y))) (\<lambda>_. well)" for ok
      by (rule safe_cases(1), rule safe_conseq [OF listed_reads [OF reads_no_memory]], assumption, erule listed_well,
          rule safe_sq [OF safe_rename], rule safe_sq [OF safe_Write], rule well_reads, rule reads_puts)
  qed
  have ret: "safe (listed a) (ret ()) (\<lambda>_. well)" "safe (listed a) (puts x) (\<lambda>_. well)" for a x
    by (rule safe_conseq [OF listed_reads], rule reads_basic reads_puts, assumption, erule listed_well)+
  have rest: "safe (listed a) (ask_number 5 q (\<lambda>str2.
      bnd (GetConfFromPublicTxt [] (atoi str2) 200) (\<lambda>r. case r of
        None \<Rightarrow> ret ()
      | Some name2 \<Rightarrow> bnd (Find_name name2) (\<lambda>q. bnd
          (if q = None then ret True else sq (puts (f name2)) ask_yes)
          (\<lambda>go. if \<not> go then ret () else bnd malloc (\<lambda>ok. if \<not> ok then no_memory else
             sq (on_nodes (rename a name2)) (sq (WriteTocflist e) (puts (g str2 name2))))))))) (\<lambda>_. well)" for a q f g
    unfolding ask_number_def
    by (rule safe_bnd [OF listed_reads [OF reads_GetString]], rule safe_cases(1), rule ret, rule safe_cases(1), rule ret,
        rule safe_bnd [OF listed_reads [OF reads_lookup]], rule safe_cases(2), rule ret,
        rule safe_bnd [OF reads_Find_name_in(1)], rule safe_bnd [OF listed_reads [OF reads_cases(1)]],
        rule reads_basic, rule reads_sq [OF reads_puts reads_ask_yes], rule safe_cases(1), rule ret, rule upd)
  show ?thesis
    unfolding Change_def
  proof (rule safe_sq [OF safe_DisplayList], rule safe_sq [OF well_reads [OF reads_puts]], rule safe_ask_number,
      rule safe_bnd [OF safe_Find_num], rule safe_cases(2), goal_cases)
    case (1 x p)
    then show ?case by (simp add: well_reads reads_puts)
  next
    case (2 x p a)
    show ?case
      unfolding 2 option.case
      by (rule safe_bnd [OF listed_reads [OF reads_basic(5)]], rule safe_sq [OF listed_reads [OF reads_all]],
          rule safe_sq [OF listed_reads [OF reads_puts] rest])
  qed
qed
end
