(* ===== verification/CflRuns.thy ===== *)
theory CflRuns
  imports CflSafe
begin

text \<open>Whole runs of \<open>soft/cmd/cflbuild\<close>, from the opening of the file to the end of the menu.\<close>

section \<open>The whole program\<close>

lemma pick_shrinks: "pick n x hi s = (Ret c, t) \<Longrightarrow> length (tin t) < length (tin s)"
proof (induction n arbitrary: s)
  case (Suc n)
  from Suc.prems have "bnd (pick_round x hi) (\<lambda>c. case c of None \<Rightarrow> pick n x hi | Some k \<Rightarrow> ret k) s = (Ret c, t)"
    by simp
  then show ?case
  proof (cases rule: bnd_cases)
    case (step b u)
    have u: "length (tin u) < length (tin s)" using step(1) by (rule pick_round_shrinks)
    show ?thesis
    proof (cases b)
      case None
      with step(2) Suc.IH [of u] u show ?thesis by simp
    next
      case (Some k)
      with step(2) u show ?thesis by (simp add: ret_def)
    qed
  qed simp
qed simp

lemma command_shrinks: "command e s = (Ret True, t) \<Longrightarrow> length (tin t) < length (tin s)"
proof -
  let ?k = "\<lambda>c. sq (if c = 1 then Add e else if c = 2 then Change e else if c = 3 then Delete e
         else if c = 4 then List_cmd else if c = 5 then Sort e
         else if c = 6 then puts [CHR 0x07] else ret ()) (ret (c \<noteq> 6))"
  assume "command e s = (Ret True, t)"
  then have "bnd DispMenu ?k s = (Ret True, t)" by (simp only: command_def)
  then show ?thesis
  proof (cases rule: bnd_cases)
    case (step c u)
    have "length (tin u) < length (tin s)"
      using step(1) by (auto simp: DispMenu_def from_menu_def bnd_def gets_def simp del: pick.simps dest: pick_shrinks)
    moreover have "consumes u t"
      using step(2) by (rule keepsD [rotated]) (intro eats_rules eats_commands)
    ultimately show ?thesis by (simp add: consumes_def)
  qed blast
qed

lemma safe_command: "safe well (command e) (\<lambda>_. well)"
  unfolding command_def DispMenu_def
proof (rule safe_bnd [OF well_reads [OF reads_menu]])
  fix c
  show "safe well (sq (if c = 1 then Add e else if c = 2 then Change e else if c = 3 then Delete e
         else if c = 4 then List_cmd else if c = 5 then Sort e
         else if c = 6 then puts [CHR 0x07] else ret ()) (ret (c \<noteq> 6))) (\<lambda>_. well)"
    by (rule safe_sq [where Q = well])
      (simp_all add: safe_Add safe_Change safe_Delete safe_List safe_Sort well_reads reads_puts reads_basic)
qed

interpretation cfl_loop: guarded_body "command e" "\<lambda>s. length (tin s)" well for e
proof
  fix s t
  assume "well s" "command e s = (Ret True, t)"
  then show "length (tin t) < length (tin s) \<and> well t"
    using safeD [OF safe_command, of s e] command_shrinks [of e s t] by simp
next
  fix s assume "well s"
  then show "fst (command e s) \<noteq> NoFuel" by (rule safe_fuel [OF safe_command])
qed

text \<open>Loading: what the file holds is numbered as it comes.\<close>

definition counted :: "int \<Rightarrow> cfl \<Rightarrow> bool" where
  "counted n s \<longleftrightarrow> (\<exists>ns. shows_list s ns \<and> int (length ns) = n)"

lemma counted_well: "counted n s \<Longrightarrow> well s"
  by (auto simp: counted_def well_def)

lemma safe_count: "safe (counted n) (WriteToBuffers b n l) (\<lambda>_. counted (n + 1))"
  unfolding safe_def
proof (intro allI impI)
  fix s assume "counted n s"
  then obtain xs ns where sh: "shows_by s xs ns" "n = int (length ns)" by (auto simp: counted_def shows_list_def)
  then have c: "chain s xs" and cn: "Conf s = Some (xs ! 0)" by (auto simp: shows_by_def chain_def)
  let ?m = "bnd malloc (\<lambda>ok. if \<not> ok then no_memory else bnd malloc (\<lambda>ok2. if \<not> ok2 then undef
      else on_nodes (append_node (last xs) (take l b) n)))"
  have run: "WriteToBuffers b n l s = ?m s"
    by (simp add: WriteToBuffers_def with_conf_def cn whole_chain [OF c, unfolded cn])
  have "counted (n + 1) (s\<lparr>grants := g, nodes := append_node (last xs) (take l b) n (nodes s)\<rparr>)" for g
  proof -
    have "shows_by (s\<lparr>grants := g\<rparr>) xs ns" by (rule nodes_same [OF sh(1)]) simp_all
    from appended_shows [OF this, of "take l b"] show ?thesis
      unfolding counted_def shows_list_def sh(2) by (intro exI [of _ "ns @ [take l b]"] conjI exI) simp_all
  qed
  then show "fst (WriteToBuffers b n l s) \<noteq> NoFuel \<and> (\<forall>a t. WriteToBuffers b n l s = (Ret a, t) \<longrightarrow> counted (n + 1) t)"
    unfolding run
    by (auto simp: bnd_def malloc_def undef_def no_memory_def sq_def puts_run
        exit_prog_def on_nodes_run dest: FreeMemory_fuelD split: prod.splits outcome.splits)
qed

lemma safe_tokens: "safe (counted n) (load_tokens ts n l) (\<lambda>m. counted m)"
proof (induction ts arbitrary: n)
  case Nil
  show ?case by (simp add: safe_def ret_def)
next
  case (Cons t ts)
  show ?case by (simp add: safe_sq [OF safe_count Cons])
qed

lemma safe_lines: "safe (counted n) (load_lines ls n) (\<lambda>_. well)"
proof (induction ls arbitrary: n)
  case Nil
  show ?case by (simp add: safe_def ret_def counted_well)
next
  case (Cons l ls)
  then show ?case by (simp add: safe_bnd [OF safe_tokens])
qed

lemma counted_reads: "reads m \<Longrightarrow> safe (counted n) m (\<lambda>_. counted n)"
  by (rule safe_reads) (simp_all add: counted_def shows_list_def same_data_shows)

lemma safe_load: "safe (\<lambda>_. True) load_cflist (\<lambda>_. well)"
  unfolding load_cflist_def
proof (rule safe_sq)
  have "counted 0 (s\<lparr>grants := g, nodes := InitList (nodes s), Conf := Some 0\<rparr>)" for s g
  proof -
    have "shows_by (s\<lparr>grants := g, nodes := InitList (nodes s), Conf := Some 0\<rparr>) [0] []"
      by (simp add: shows_by_def chain_def linked_init numbered_def names_def)
    then have "shows_list (s\<lparr>grants := g, nodes := InitList (nodes s), Conf := Some 0\<rparr>) []"
      unfolding shows_list_def by blast
    then show ?thesis by (simp add: counted_def)
  qed
  then show "safe (\<lambda>_. True) InitConf (\<lambda>_. counted 0)"
    by (auto simp: safe_def InitConf_def bnd_def malloc_def undef_def no_memory_def sq_def puts_run upd_def
        exit_prog_def dest: FreeMemory_fuelD split: prod.splits outcome.splits)
  show "safe (counted 0) (bnd (gets (\<lambda>s. files s (CflName s))) (\<lambda>f. case f of
      None \<Rightarrow> ret () | Some f \<Rightarrow> load_lines (map cstr (pieces 127 f)) 0)) (\<lambda>_. well)"
    by (rule safe_bnd [OF counted_reads [OF reads_basic(5)]], rule safe_cases(2),
        rule safe_conseq [OF well_reads [OF reads_basic(1)]], erule counted_well, assumption, rule safe_lines)
qed

text \<open>Reading the public conferences leaves the list alone.\<close>

lemma well_cells: "well s \<Longrightarrow> nodes t = nodes s \<Longrightarrow> Conf t = Conf s \<Longrightarrow> well t"
  unfolding well_def shows_list_def using nodes_same by blast

lemma well_upd: "(\<And>s. nodes (f s) = nodes s \<and> Conf (f s) = Conf s) \<Longrightarrow> safe well (upd f) (\<lambda>_. well)"
  by (simp add: safe_def upd_def well_cells)

lemma safe_alloc: "safe well AllocCats (\<lambda>_. well)" "safe well AllocConfs (\<lambda>_. well)"
proof -
  have m: "safe well malloc (\<lambda>_. well)"
    by (auto simp: safe_def malloc_def elim: well_cells)
  show "safe well AllocCats (\<lambda>_. well)" "safe well AllocConfs (\<lambda>_. well)"
    unfolding AllocCats_def AllocConfs_def
    by (rule safe_bnd [OF m], rule safe_cases(1), rule well_reads, rule reads_no_memory, rule safe_bnd [OF m],
        rule safe_cases(1), rule well_reads, rule reads_no_memory, rule well_reads, rule reads_basic)+
qed

lemma safe_with_cats: "(\<And>cs. safe well (k cs) (\<lambda>_. well)) \<Longrightarrow> safe well (with_cats k) (\<lambda>_. well)"
  by (auto simp: safe_def with_cats_def split: option.splits)

lemma safe_WriteToPublic: "safe well (WriteToPublicConf b x i j k w) (\<lambda>_. well)"
  unfolding WriteToPublicConf_def set_cats_def FindCat_def
  by (intro safe_cases safe_with_cats safe_sq [OF safe_alloc(1)] safe_sq [OF safe_alloc(2)] well_upd
      safe_bnd [OF well_reads [OF reads_with_cats]] reads_basic well_reads) simp_all

lemma safe_public: "safe well (ReadPublicTxt e) (\<lambda>_. well)"
proof -
  have "safe well (read_public ls i j k) (\<lambda>_. well)" for ls i j k
    by (induction ls arbitrary: i j k)
      (simp_all add: well_reads reads_basic safe_sq [OF safe_WriteToPublic] split: extracted.split)
  moreover have "safe well InitPublicConf (\<lambda>_. well)"
    unfolding InitPublicConf_def
    by (rule safe_sq [OF safe_alloc(1)], rule safe_bnd [OF well_reads [OF reads_basic(5)]], rule safe_cases(1),
        rule well_reads, rule reads_basic, rule safe_sq [OF safe_alloc(2)], rule well_upd) simp
  ultimately show ?thesis
    unfolding ReadPublicTxt_def
    by (intro safe_cases(2) well_reads [OF reads_sq [OF reads_puts reads_gone(2)]] safe_sq) simp_all
qed

lemma fuelled_open: "fuelled (open_cflist e)"
  unfolding open_cflist_def Let_def
  by (intro fuelled_rules) (simp_all add: fuelled_def puts_def upd_def getchar_def split: list.split)

lemma iter_command: "safe well (bnd (gets (\<lambda>s. length (tin s))) (\<lambda>n. iter (Suc n) (command e))) (\<lambda>_. well)"
  unfolding safe_def
proof (intro allI impI)
  fix s assume w: "well s"
  let ?n = "Suc (length (tin s))"
  have "fst (iter ?n (command e) s) \<noteq> NoFuel" by (rule cfl_loop.iter_enough_in [OF w]) simp
  moreover have "well t" if "iter ?n (command e) s = (Ret a, t)" for a t
    using safe_command w that by (rule iter_stays)
  moreover have "bnd (gets (\<lambda>s. length (tin s))) (\<lambda>n. iter (Suc n) (command e)) s = iter ?n (command e) s"
    by (simp only: bnd_run(1) [OF gets_run])
  ultimately show "fst (bnd (gets (\<lambda>s. length (tin s))) (\<lambda>n. iter (Suc n) (command e)) s) \<noteq> NoFuel \<and>
      (\<forall>a t. bnd (gets (\<lambda>s. length (tin s))) (\<lambda>n. iter (Suc n) (command e)) s = (Ret a, t) \<longrightarrow> well t)"
    by (simp del: iter.simps)
qed

text \<open>
  C29: every run of the list builder ends by exit, in undefined behaviour or in an endless walk of a
  broken list: no menu, list walk or sort runs out of fuel, and main does not return. And from
  whatever files and input, with whichever allocations or writes failing, loading the list, when it
  returns, leaves a well-formed one, and reading the public conferences and every command of the
  menu, when they return, leave a well-formed list well-formed.
\<close>

theorem cfl_main_ends:
  "((\<exists>c. fst (cfl_main e s) = Exit c) \<or> fst (cfl_main e s) = Undef \<or> fst (cfl_main e s) = Hang) \<and>
   safe (\<lambda>_. True) load_cflist (\<lambda>_. well) \<and> safe well (ReadPublicTxt e) (\<lambda>_. well) \<and>
   safe well (command e) (\<lambda>_. well)"
proof -
  have "safe (\<lambda>_. True) (cfl_main e) (\<lambda>_ _. False)"
    unfolding cfl_main_def
  proof (rule safe_sq [where Q = "\<lambda>_. True"], goal_cases)
    case 1
    show ?case by (simp add: safe_def puts_run)
  next
    case 2
    show ?case
    proof (rule safe_sq [where Q = "\<lambda>_. True"], goal_cases)
      case 1
      show ?case by (simp add: safe_def upd_def)
    next
      case 2
      show ?case
      proof (rule safe_sq [where Q = "\<lambda>_. True"], goal_cases)
        case 1
        show ?case using fuelled_open by (simp add: safe_def fuelled_def)
      next
        case 2
        have "safe well (sq FreeMemory (bnd (gets User) (\<lambda>u. sq (puts (thanks u)) (exit_prog 0)))) (\<lambda>(_::unit) _. False)"
          using FreeMemory_fuel
          by (auto simp: safe_def sq_def bnd_def puts_run exit_prog_def gets_def dest: FreeMemory_fuelD
              split: prod.splits outcome.splits)
        then show ?case
          by (rule_tac safe_sq [where Q = "\<lambda>_. True"], simp add: safe_def upd_def)
            (intro safe_sq [OF safe_load] safe_sq [OF safe_public] safe_sq [OF iter_command])
      qed
    qed
  qed
  then have "fst (cfl_main e s) \<noteq> NoFuel" "\<And>a. fst (cfl_main e s) \<noteq> Ret a"
    unfolding safe_def by (auto, metis prod.collapse)
  then have "(\<exists>c. fst (cfl_main e s) = Exit c) \<or> fst (cfl_main e s) = Undef \<or> fst (cfl_main e s) = Hang"
    by (cases "fst (cfl_main e s)") auto
  with safe_load safe_public safe_command show ?thesis by blast
qed

end
