(* ===== verification/BbsText.thy ===== *)
theory BbsText
  imports CLib
begin

text \<open>
  The lower layers of the conference reader, \<open>soft/cmd/bbsread\<close>: the program's state, matching a name
  against a pattern, ranges, the words of the command line, the list of conferences and a
  conference's configuration file.
\<close>

section \<open>The state\<close>

text \<open>An entry of the participation file (\<open>struct pfe\<close>), without its link.\<close>

record pfe =
  item_no :: int
  resp_no :: int
  forgotten :: bool
  old_resp_no :: int
  date :: int
  delete :: bool

record range =
  r_first :: int
  r_last :: int

text \<open>
  The globals of the programs. \<open>sum_file\<close> and \<open>sum_pos\<close> are the open sum file and the position in it;
  \<open>config_buf\<close> is the static buffer of \<open>readconfig\<close>, \<open>which_range\<close> the static counter of \<open>parse_arg\<close>.
\<close>

record pico = tty +
  alias_name :: string
  pflist :: "pfe list"
  filename :: string
  no_pf :: bool
  sum_file :: "string option"
  sum_pos :: nat
  sum_item :: int
  item :: range
  resp :: range
  which_range :: int
  read_brandnew :: bool
  read_newresp :: int
  read_old :: bool
  read_forgotten :: int
  reverse :: bool
  prompt_rfp :: bool
  noresponse :: bool
  extracting :: bool
  dont_page :: bool
  dont_update :: bool
  dont_join :: bool
  confdir :: string
  config_buf :: string
  curitem :: int
  curresp :: int
  max_resp :: int
  max_read :: int
  again :: "int \<times> int \<times> int"
  disk :: "string \<Rightarrow> string option"

type_synonym 'a picop = "('a, pico) prog"

text \<open>
  What the programs ask of the system: the command name, the home directory, the real name in the
  account file, the clock, \<open>ctime\<close>, whether a directory or file is there, whether a file can be
  written, whether standard output is a terminal, whether the pager starts, and what a shell escape
  does to the terminal.
\<close>

record pico_env =
  progname :: string
  home :: string
  gecos :: string
  now :: int
  ctime :: "int \<Rightarrow> string"
  there :: "string \<Rightarrow> bool"
  writable :: "string \<Rightarrow> bool"
  isatty :: bool
  pager_starts :: bool
  usystem :: "string \<Rightarrow> pico \<Rightarrow> string"

definition BFSZ :: nat where "BFSZ = 1024"

section \<open>Tokens\<close>

text \<open>\<open>firstin s l\<close> and \<open>firstout s l\<close> are given by what they skip and what they leave.\<close>

definition skip_in :: "string \<Rightarrow> string \<Rightarrow> string" where
  "skip_in s l = takeWhile (\<lambda>c. c \<notin> set l) s"

definition firstin :: "string \<Rightarrow> string \<Rightarrow> string" where
  "firstin s l = dropWhile (\<lambda>c. c \<notin> set l) s"

definition firstout :: "string \<Rightarrow> string \<Rightarrow> string" where
  "firstout s l = dropWhile (\<lambda>c. c \<in> set l) s"


definition digits :: string where "digits = ''0123456789''"

text \<open>Does a string start with a digit?\<close>

definition numeric :: "string \<Rightarrow> bool" where
  "numeric s \<longleftrightarrow> s \<noteq> [] \<and> isascii (hd s) \<and> isdigit (hd s)"

section \<open>Hexadecimal numbers\<close>

definition isxdigit :: "char \<Rightarrow> bool" where
  "isxdigit c \<longleftrightarrow> isdigit c \<or> (65 \<le> byte c \<and> byte c \<le> 70) \<or> (97 \<le> byte c \<and> byte c \<le> 102)"

definition hex_val :: "char \<Rightarrow> int" where
  "hex_val c = (if isdigit c then int (byte c) - 48
     else int (byte c) - (if byte c < 97 then 65 else 97) + 10)"

definition ULONG :: int where "ULONG = 18446744073709551616"

fun hex_value :: "int \<Rightarrow> string \<Rightarrow> int" where
  "hex_value n [] = n"
| "hex_value n (c # cs) = hex_value (n * 16 + hex_val c) cs"

definition atolh :: "string \<Rightarrow> int" where
  "atolh s = hex_value 0 (takeWhile isxdigit s) mod ULONG"

text \<open>
  \<open>sscanf\<close> with \<open>%lx\<close>: white space, a sign, an optional \<open>0x\<close>, digits; too large a value is cut to the
  largest.
\<close>

definition scan_hex :: "string \<Rightarrow> int option" where
  "scan_hex s = (let s1 = dropWhile isspace s;
     neg = (s1 \<noteq> [] \<and> hd s1 = CHR ''-'');
     s2 = (if s1 \<noteq> [] \<and> (hd s1 = CHR ''-'' \<or> hd s1 = CHR ''+'') then tl s1 else s1);
     s3 = (if take 2 s2 \<in> {''0x'', ''0X''} \<and> (\<exists>c cs. drop 2 s2 = c # cs \<and> isxdigit c) then drop 2 s2 else s2);
     ds = takeWhile isxdigit s3; v = hex_value 0 ds
   in if ds = [] then None else Some (if ULONG \<le> v then ULONG - 1 else if neg then (- v) mod ULONG else v))"

definition hex_digit_up :: "nat \<Rightarrow> char" where
  "hex_digit_up d = char_of (if d < 10 then 48 + d else 55 + d)"

fun hex_nat :: "nat \<Rightarrow> string" where
  "hex_nat n = (if n < 16 then [hex_digit_up n] else hex_nat (n div 16) @ [hex_digit_up (n mod 16)])"

declare hex_nat.simps [simp del]

text \<open>\<open>%lX\<close> of a \<open>long\<close> seen as an \<open>unsigned long\<close>.\<close>

definition hex_text :: "int \<Rightarrow> string" where
  "hex_text v = hex_nat (nat (v mod ULONG))"

section \<open>Names and patterns\<close>

definition at_end :: "string \<Rightarrow> bool" where
  "at_end pat \<longleftrightarrow> pat = [] \<or> hd pat = CHR '':''"

fun match_loop :: "string \<Rightarrow> string \<Rightarrow> bool \<Rightarrow> bool" where
  "match_loop [] pat dash = (if at_end pat then True else dash \<or> hd pat = CHR ''_'')"
| "match_loop (n # ns) [] dash = False"
| "match_loop (n # ns) (p # ps) dash =
     (if p = CHR '':'' then False
      else if p = CHR ''_'' then match_loop (n # ns) ps True
      else if n \<noteq> p then False
      else match_loop ns ps dash)"

definition match :: "string \<Rightarrow> string \<Rightarrow> bool" where
  "match name pat = match_loop name pat False"

section \<open>Ranges\<close>

definition usage_text :: "pico_env \<Rightarrow> string" where
  "usage_text e = ''usage: '' @ progname e @ '' [-pjm] <confname> ''
     @ ''[<options>] [<item>-<item>] [<item> [<resp>[-<resp>]]\<newline>options are:''"

definition usage :: "pico_env \<Rightarrow> string list \<Rightarrow> 'a picop" where
  "usage e words = sq (puts (usage_text e @ concat (map (\<lambda>w. (if 80 \<le> 12 + length w then ''\<newline>'' else '' '')
       @ filter (\<lambda>c. c \<noteq> CHR ''_'') w) words) @ ''\<newline>'')) (exit_prog 1)"

text \<open>
  \<open>parse_range\<close>: the range a text gives, \<open>None\<close> for a wrong one (the program's \<open>usage\<close> ends it), and
  whether it was a single number.
\<close>

definition parse_range :: "string \<Rightarrow> (range \<times> bool) option" where
  "parse_range arg =
     (let f = atoi arg; rest = firstout arg digits;
          order = (\<lambda>l. if l \<noteq> -1 \<and> f > l then \<lparr>r_first = l, r_last = f\<rparr> else \<lparr>r_first = f, r_last = l\<rparr>)
      in if rest = [] then Some (order f, True)
      else if hd rest \<noteq> CHR ''-'' then None
      else if tl rest = [] \<or> hd (tl rest) = CHR ''$'' then Some (order (-1), False)
      else if numeric (tl rest) then Some (order (atoi (tl rest)), False)
      else None)"

section \<open>Words of the command line\<close>

definition set_new :: "pico \<Rightarrow> pico" where
  "set_new s = s\<lparr>read_brandnew := True, read_newresp := 1, read_old := False\<rparr>"

definition set_all :: "pico \<Rightarrow> pico" where
  "set_all s = s\<lparr>read_brandnew := True, read_newresp := 2, read_old := True\<rparr>"

definition set_old :: "pico \<Rightarrow> pico" where
  "set_old s = s\<lparr>read_brandnew := False, read_newresp := 0, read_old := True\<rparr>"

definition set_brandnew :: "pico \<Rightarrow> pico" where
  "set_brandnew s = s\<lparr>read_brandnew := True, read_newresp := 0, read_old := False\<rparr>"

definition set_nwresponse :: "pico \<Rightarrow> pico" where
  "set_nwresponse s = s\<lparr>read_brandnew := False, read_newresp := 1, read_old := False\<rparr>"

definition set_forgotten :: "pico \<Rightarrow> pico" where
  "set_forgotten s = s\<lparr>read_brandnew := False, read_newresp := 0, read_old := False, read_forgotten := 1\<rparr>"

definition set_noforget :: "pico \<Rightarrow> pico" where "set_noforget s = s\<lparr>read_forgotten := 1\<rparr>"
definition set_reverse :: "pico \<Rightarrow> pico" where "set_reverse s = s\<lparr>reverse := True\<rparr>"
definition set_pass :: "pico \<Rightarrow> pico" where "set_pass s = s\<lparr>prompt_rfp := False\<rparr>"
definition set_nopass :: "pico \<Rightarrow> pico" where "set_nopass s = s\<lparr>prompt_rfp := True\<rparr>"
definition set_noresponse :: "pico \<Rightarrow> pico" where "set_noresponse s = s\<lparr>noresponse := True\<rparr>"

definition arg_list :: "(string \<times> (pico \<Rightarrow> pico)) list" where
  "arg_list = [(''n_ew'', set_new), (''r_everse'', set_reverse), (''a_ll'', set_all),
     (''bra_ndnew'', set_brandnew), (''newr_response'', set_nwresponse), (''o_ld'', set_old),
     (''for_gotten'', set_forgotten), (''nof_orget'', set_noforget), (''nor_esponse'', set_noresponse),
     (''nop_ass'', set_nopass), (''p_ass'', set_pass)]"

definition bbs_usage :: "pico_env \<Rightarrow> 'a picop" where
  "bbs_usage e = usage e (map fst arg_list)"

text \<open>The numeric words set a range and then go on to the table as well.\<close>

definition number_arg :: "pico_env \<Rightarrow> string \<Rightarrow> unit picop" where
  "number_arg e arg = bnd (gets id) (\<lambda>s.
     if which_range s = 0 then
       (case parse_range arg of
          None \<Rightarrow> bbs_usage e
        | Some (r, single) \<Rightarrow> upd (\<lambda>s. s\<lparr>item := r, read_forgotten := (if single then 2 else read_forgotten s),
            read_brandnew := True, read_newresp := 2, read_old := True, which_range := which_range s + 1\<rparr>))
     else if which_range s = 1 then
       (if r_first (item s) \<noteq> r_last (item s) then bbs_usage e
        else sq (upd (\<lambda>s. s\<lparr>extracting := True\<rparr>))
          (case parse_range arg of
             None \<Rightarrow> bbs_usage e
           | Some (r, _) \<Rightarrow> upd (\<lambda>s. s\<lparr>resp := r, which_range := which_range s + 1\<rparr>)))
     else bbs_usage e)"

definition parse_arg :: "pico_env \<Rightarrow> string \<Rightarrow> unit picop" where
  "parse_arg e arg =
     (if arg \<noteq> [] \<and> \<not> isascii (hd arg) then bbs_usage e
      else sq (whenP (arg \<noteq> [] \<and> isdigit (hd arg)) (number_arg e arg))
        (case List.find (\<lambda>(p, f). match arg p) arg_list of
           Some (_, f) \<Rightarrow> upd f
         | None \<Rightarrow> bbs_usage e))"

section \<open>The list of conferences\<close>

definition CONFLIST :: string where "CONFLIST = ''/cyberspace/grex/bbs/conflist''"
definition CONFDIR :: string where "CONFDIR = ''/cyberspace/grex/bbs/''"

definition complain :: "pico_env \<Rightarrow> string \<Rightarrow> 'a picop" where
  "complain e x = sq (puts (progname e @ '': '' @ x @ ''\<newline>'')) (exit_prog 1)"

definition weird_path :: "pico_env \<Rightarrow> 'a picop" where
  "weird_path e = complain e (''conference list '' @ CONFLIST @ '' in weird format'')"

text \<open>
  \<open>subchar\<close> replaces the first character of a text by a string. The path is a piece of a buffer of
  \<open>BFSZ\<close> bytes, which the longer text may leave: \<open>off\<close> is where it starts.
\<close>

definition subchar :: "string \<Rightarrow> string \<Rightarrow> string" where
  "subchar buf str = str @ tl buf"

definition expand_path :: "nat \<Rightarrow> string \<Rightarrow> string option" where
  "expand_path off path = (case split_at (CHR ''%'') path of
     None \<Rightarrow> Some path
   | Some (a, b) \<Rightarrow> (let p = a @ subchar (CHR ''%'' # b) CONFDIR
       in if off + length p < BFSZ then Some p else None))"

fun find_conf :: "pico_env \<Rightarrow> string \<Rightarrow> string list \<Rightarrow> string option picop" where
  "find_conf e name [] = ret None"
| "find_conf e name (b # bs) =
     (if b \<noteq> [] \<and> (hd b = CHR ''#'' \<or> hd b = NL) then find_conf e name bs
      else if match name b then
        (case split_at (CHR '':'') b of
           None \<Rightarrow> weird_path e
         | Some (x, a) \<Rightarrow> (case split_at NL a of
             None \<Rightarrow> weird_path e
           | Some (path, _) \<Rightarrow> (case expand_path (length x + 1) path of
               None \<Rightarrow> undef | Some p \<Rightarrow> ret (Some p))))
      else find_conf e name bs)"

definition cfpath :: "pico_env \<Rightarrow> string \<Rightarrow> string option picop" where
  "cfpath e name = bnd (gets (\<lambda>s. disk s CONFLIST)) (\<lambda>f. case f of
     None \<Rightarrow> complain e (''could not open '' @ CONFLIST)
   | Some f \<Rightarrow> (case map cstr (pieces (BFSZ - 1) f) of
       magic # path # confs \<Rightarrow> if magic \<noteq> ''!<hl01>\<newline>'' then weird_path e else find_conf e name confs
     | _ \<Rightarrow> weird_path e))"

section \<open>The configuration of a conference\<close>

text \<open>
  \<open>readconfig\<close> appends the path to what its static buffer holds, and leaves the last line it read
  there. The result is the name of the participation file and the mode.
\<close>

definition config_weird :: "pico_env \<Rightarrow> 'a picop" where
  "config_weird e = complain e ''conference configuration file in weird format''"

definition readconfig :: "pico_env \<Rightarrow> string \<Rightarrow> (string \<times> int) picop" where
  "readconfig e dir =
     sq (upd (\<lambda>s. s\<lparr>config_buf := take (BFSZ - 1) (config_buf s @ dir @ ''/config'')\<rparr>))
     (bnd (gets (\<lambda>s. (config_buf s, disk s (config_buf s)))) (\<lambda>(path, f). case f of
        None \<Rightarrow> complain e (''could not open '' @ path)
      | Some f \<Rightarrow> (case map cstr (pieces (BFSZ - 1) f) of
          magic # part # zero # fws # rest \<Rightarrow>
            if magic \<noteq> ''!<pc02>\<newline>'' then config_weird e
            else (case split_at NL part of
                None \<Rightarrow> config_weird e
              | Some (name, _) \<Rightarrow>
                  sq (upd (\<lambda>s. s\<lparr>config_buf := (if rest = [] then fws else hd rest)\<rparr>))
                  (ret (name, if rest = [] then 0 else atoi (hd rest))))
        | _ \<Rightarrow> config_weird e)))"

end
