(* ===== verification/BbsFile.thy ===== *)
theory BbsFile
  imports BbsText
begin

text \<open>
  The participation file (\<open>soft/cmd/bbsread/pf.c\<close>): reading it into a list of entries in the order of
  the item numbers, looking an item up, marking it read or forgotten, taking a reading back, marking
  the items that have gone, and writing the file.
\<close>

section \<open>Reading\<close>

definition weird_pf :: "pico_env \<Rightarrow> 'a picop" where
  "weird_pf e = bnd (gets filename) (\<lambda>f. complain e (''participation file '' @ f @ '' in weird format''))"

definition pf_path :: "pico_env \<Rightarrow> string \<Rightarrow> string" where
  "pf_path e name =
     (let dir = take (BFSZ - 1) (home e @ ''/.cfdir'');
          d = (if there e dir then dir else rev (tl (dropWhile (\<lambda>c. c \<noteq> CHR ''/'') (rev dir))))
      in take (BFSZ - 1) (d @ ''/'' @ name))"

definition fullpfpath :: "pico_env \<Rightarrow> string \<Rightarrow> unit picop" where
  "fullpfpath e name = upd (\<lambda>s. s\<lparr>filename := pf_path e name\<rparr>)"

text \<open>A line: the item, a number of responses with a minus sign for a forgotten item, and the time.\<close>

definition read_entry :: "string \<Rightarrow> pfe option" where
  "read_entry buf =
     (if \<not> numeric buf then None
      else let t = firstout (firstin buf '' '') '' '';
               f = (t \<noteq> [] \<and> hd t = CHR ''-''); t1 = (if f then tl t else t)
           in case scan_int t1 of
                ScanOk r rest \<Rightarrow> (case scan_hex rest of
                    None \<Rightarrow> None
                  | Some d \<Rightarrow> Some \<lparr>item_no = atoi buf, resp_no = r, forgotten = f, old_resp_no = r,
                      date = s64 d, delete = False\<rparr>)
              | _ \<Rightarrow> None)"

text \<open>The entries read so far are linked in before a line of a wrong format ends the program.\<close>

fun read_entries :: "pico_env \<Rightarrow> pfe list \<Rightarrow> string list \<Rightarrow> unit picop" where
  "read_entries e acc [] = (if acc = [] then ret () else upd (\<lambda>s. s\<lparr>pflist := acc\<rparr>))"
| "read_entries e acc (l # ls) = (case read_entry l of
     None \<Rightarrow> weird_pf e
   | Some p \<Rightarrow> read_entries e (acc @ [p]) ls)"

definition pfload :: "pico_env \<Rightarrow> string \<Rightarrow> unit picop" where
  "pfload e f = (case map cstr (pieces (BFSZ - 1) f) of
     magic # al # ls \<Rightarrow> if magic \<noteq> ''!<pr03>\<newline>'' then weird_pf e
       else sq (upd (\<lambda>s. s\<lparr>alias_name := skip_in al ''\<newline>''\<rparr>))
            (sq (read_entries e [] ls) (upd (\<lambda>s. s\<lparr>no_pf := False\<rparr>)))
   | _ \<Rightarrow> weird_pf e)"

text \<open>The result is 1 when there is no file.\<close>

definition pfread :: "pico_env \<Rightarrow> string \<Rightarrow> int picop" where
  "pfread e name = sq (fullpfpath e name) (bnd (gets (\<lambda>s. disk s (filename s))) (\<lambda>f. case f of
     Some f \<Rightarrow> sq (pfload e f) (ret 0)
   | None \<Rightarrow> sq (upd (\<lambda>s. s\<lparr>filename := take (BFSZ - 1) (home e @ ''/'' @ name)\<rparr>))
       (bnd (gets (\<lambda>s. disk s (filename s))) (\<lambda>f. case f of
          Some f \<Rightarrow> sq (pfload e f) (ret 0) | None \<Rightarrow> ret 1))))"

definition pfnew :: "pico_env \<Rightarrow> string \<Rightarrow> unit picop" where
  "pfnew e name = sq (fullpfpath e name)
     (upd (\<lambda>s. s\<lparr>pflist := [], alias_name := gecos e, no_pf := False\<rparr>))"

section \<open>The entries\<close>

fun find_entry :: "int \<Rightarrow> pfe list \<Rightarrow> pfe option" where
  "find_entry i [] = None"
| "find_entry i (p # ps) =
     (if item_no p > i then None else if item_no p = i then Some p else find_entry i ps)"

definition last_read :: "int \<Rightarrow> (int \<times> bool) picop" where
  "last_read i = gets (\<lambda>s. if no_pf s then (-1, False)
     else case find_entry i (pflist s) of None \<Rightarrow> (-1, False) | Some p \<Rightarrow> (resp_no p - 1, forgotten p))"

definition new_entry :: "int \<Rightarrow> int \<Rightarrow> int \<Rightarrow> pfe" where
  "new_entry t i r = \<lparr>item_no = i, resp_no = (if r = -1 then 0 else r + 1), forgotten = (r = -1),
     old_resp_no = 0, date = (if r = -1 then 0 else t), delete = False\<rparr>"

fun put_entry :: "int \<Rightarrow> int \<Rightarrow> int \<Rightarrow> pfe list \<Rightarrow> pfe list" where
  "put_entry t i r [] = [new_entry t i r]"
| "put_entry t i r (p # ps) =
     (if item_no p > i then new_entry t i r # p # ps
      else if item_no p = i then
        (if r = -1 then p\<lparr>forgotten := \<not> forgotten p\<rparr> else p\<lparr>resp_no := r + 1, date := t\<rparr>) # ps
      else p # put_entry t i r ps)"

definition update_item :: "pico_env \<Rightarrow> int \<Rightarrow> int \<Rightarrow> unit picop" where
  "update_item e i r = upd (\<lambda>s. if no_pf s then s else s\<lparr>pflist := put_entry (now e) i r (pflist s)\<rparr>)"

fun undo_entry :: "int \<Rightarrow> pfe list \<Rightarrow> pfe list" where
  "undo_entry i [] = []"
| "undo_entry i (p # ps) =
     (if item_no p > i then p # ps
      else if item_no p = i then p\<lparr>resp_no := old_resp_no p\<rparr> # ps
      else p # undo_entry i ps)"

definition reset_item :: "int \<Rightarrow> unit picop" where
  "reset_item i = upd (\<lambda>s. if no_pf s then s else s\<lparr>pflist := undo_entry i (pflist s)\<rparr>)"

text \<open>The first entry from \<open>lo\<close> on starts the run of entries to delete, one beyond \<open>hi\<close> ends it.\<close>

fun drop_entries :: "bool \<Rightarrow> int \<Rightarrow> int \<Rightarrow> pfe list \<Rightarrow> pfe list" where
  "drop_entries started lo hi [] = []"
| "drop_entries started lo hi (p # ps) =
     (let st = started \<or> lo \<le> item_no p in
      if st then (if item_no p > hi then p # ps else p\<lparr>delete := True\<rparr> # drop_entries True lo hi ps)
      else p # drop_entries False lo hi ps)"

definition INT_MAX :: int where "INT_MAX = 2147483647"

definition lost_items :: "int \<Rightarrow> int \<Rightarrow> unit picop" where
  "lost_items lo hi = upd (\<lambda>s. if no_pf s \<or> hi < lo then s
     else s\<lparr>pflist := drop_entries False lo (if hi = -1 then INT_MAX else hi) (pflist s)\<rparr>)"

section \<open>Writing\<close>

definition entry_text :: "pfe \<Rightarrow> string" where
  "entry_text p = dec (item_no p) @ (if forgotten p then '' -'' else '' '') @ dec (resp_no p) @ '' ''
     @ hex_text (date p) @ ''\<newline>''"

definition pf_text :: "string \<Rightarrow> pfe list \<Rightarrow> string" where
  "pf_text al ps = ''!<pr03>\<newline>'' @ al @ ''\<newline>'' @ concat (map entry_text (filter (\<lambda>p. \<not> delete p) ps))"

definition pfwrite :: "pico_env \<Rightarrow> unit picop" where
  "pfwrite e = bnd (gets id) (\<lambda>s. if no_pf s then ret ()
     else if \<not> writable e (filename s) then complain e (''cannot open '' @ filename s @ '' to write'')
     else upd (\<lambda>s. s\<lparr>disk := (disk s)(filename s \<mapsto> pf_text (alias_name s) (pflist s)), pflist := []\<rparr>))"

section \<open>The list as a map\<close>

text \<open>The abstract participation: for each item how far it was read, and whether it is forgotten.\<close>

definition by_item :: "pfe list \<Rightarrow> int \<Rightarrow> pfe option" where
  "by_item ps = map_of (map (\<lambda>p. (item_no p, p)) ps)"

abbreviation in_order :: "pfe list \<Rightarrow> bool" where
  "in_order ps \<equiv> sorted_wrt (<) (map item_no ps)"

definition updated :: "int \<Rightarrow> int \<Rightarrow> int \<Rightarrow> pfe option \<Rightarrow> pfe" where
  "updated t i r p = (case p of
     None \<Rightarrow> new_entry t i r
   | Some p \<Rightarrow> if r = -1 then p\<lparr>forgotten := \<not> forgotten p\<rparr> else p\<lparr>resp_no := r + 1, date := t\<rparr>)"

lemma by_item_simps [simp]:
  "by_item [] = Map.empty" "by_item (p # ps) = (by_item ps)(item_no p \<mapsto> p)"
  by (simp_all add: by_item_def)

lemma by_item_above: "\<forall>p \<in> set ps. i < item_no p \<Longrightarrow> by_item ps i = None"
  by (induction ps) auto

lemma find_entry_map: "in_order ps \<Longrightarrow> find_entry i ps = by_item ps i"
proof (induction ps)
  case (Cons p ps)
  have "by_item ps i = None" if "i < item_no p"
    using Cons.prems that by (intro by_item_above) auto
  with Cons show ?case by auto
qed simp

lemma put_entry_item: "set (map item_no (put_entry t i r ps)) = insert i (set (map item_no ps))"
  by (induction ps) (auto simp: new_entry_def)

lemma put_entry_order: "in_order ps \<Longrightarrow> in_order (put_entry t i r ps)"
proof (induction ps)
  case (Cons p ps)
  have "\<forall>x \<in> set (map item_no (put_entry t i r ps)). item_no p < x" if "\<not> i < item_no p" "item_no p \<noteq> i"
    using Cons.prems that unfolding put_entry_item by auto
  with Cons show ?case by (auto simp: new_entry_def)
qed (simp add: new_entry_def)

lemma put_entry_map:
  "in_order ps \<Longrightarrow> by_item (put_entry t i r ps) = (by_item ps)(i \<mapsto> updated t i r (by_item ps i))"
proof (induction ps)
  case (Cons p ps)
  have above: "by_item ps i = None" if "i \<le> item_no p"
    using Cons.prems that by (intro by_item_above) auto
  show ?case
    using Cons above by (auto simp: updated_def new_entry_def fun_eq_iff)
qed (simp add: updated_def new_entry_def)

lemma undo_entry_order: "map item_no (undo_entry i ps) = map item_no ps"
  by (induction ps) auto

lemma undo_entry_map:
  "in_order ps \<Longrightarrow> by_item (undo_entry i ps) =
     (case by_item ps i of None \<Rightarrow> by_item ps | Some p \<Rightarrow> (by_item ps)(i \<mapsto> p\<lparr>resp_no := old_resp_no p\<rparr>))"
proof (induction ps)
  case (Cons p ps)
  have above: "by_item ps i = None" if "i \<le> item_no p"
    using Cons.prems that by (intro by_item_above) auto
  show ?case
    using Cons above by (auto simp: fun_eq_iff split: option.splits)
qed simp

lemma drop_entries_started:
  "in_order ps \<Longrightarrow> drop_entries True lo hi ps = map (\<lambda>p. if item_no p \<le> hi then p\<lparr>delete := True\<rparr> else p) ps"
proof (induction ps)
  case (Cons p ps)
  have "map (\<lambda>p. if item_no p \<le> hi then p\<lparr>delete := True\<rparr> else p) ps = ps" if "hi < item_no p"
    using Cons.prems that by (intro map_idI) auto
  with Cons show ?case by auto
qed simp

lemma drop_entries_map:
  "in_order ps \<Longrightarrow> drop_entries False lo hi ps =
     map (\<lambda>p. if lo \<le> item_no p \<and> item_no p \<le> hi then p\<lparr>delete := True\<rparr> else p) ps"
proof (induction ps)
  case (Cons p ps)
  let ?f = "\<lambda>p. if lo \<le> item_no p \<and> item_no p \<le> hi then p\<lparr>delete := True\<rparr> else p"
  show ?case
  proof (cases "lo \<le> item_no p")
    case True
    have "map ?f (p # ps) = map (\<lambda>p. if item_no p \<le> hi then p\<lparr>delete := True\<rparr> else p) (p # ps)"
      using Cons.prems True by (intro map_cong) auto
    also have "\<dots> = drop_entries True lo hi (p # ps)"
      using Cons.prems by (rule drop_entries_started [symmetric])
    also have "\<dots> = drop_entries False lo hi (p # ps)" using True by simp
    finally show ?thesis by (rule sym)
  next
    case False then show ?thesis using Cons by simp
  qed
qed simp

end
