(* ===== verification/BbsSum.thy ===== *)
theory BbsSum
  imports BbsFile
begin

text \<open>
  The sum file of a conference (\<open>soft/cmd/bbsread/sum.c\<close>): one binary record for every item, read
  forwards and backwards past the items that are gone, and the same steps over the list of records.
\<close>

section \<open>The records\<close>

record sume =
  s_flags :: int
  s_resp_no :: int
  s_resp_date :: int
  s_item_date :: int

text \<open>A structure of two unsigned ints and two longs has 24 bytes, low bytes first.\<close>

definition sume_size :: nat where "sume_size = 24"
definition HEADSIZE :: nat where "HEADSIZE = 20"

fun le_val :: "string \<Rightarrow> int" where
  "le_val [] = 0"
| "le_val (c # cs) = int (byte c) + 256 * le_val cs"

definition sume_of :: "string \<Rightarrow> sume" where
  "sume_of bs = \<lparr>s_flags = le_val (take 4 bs), s_resp_no = le_val (take 4 (drop 4 bs)),
     s_resp_date = s64 (le_val (take 8 (drop 8 bs))), s_item_date = s64 (le_val (take 8 (drop 16 bs)))\<rparr>"

definition present_rec :: "sume \<Rightarrow> bool" where
  "present_rec r \<longleftrightarrow> s_resp_no r \<noteq> 0 \<or> s_resp_date r \<noteq> 0"

text \<open>Both macros compute in \<open>unsigned long\<close>.\<close>

definition offset_of :: "int \<Rightarrow> int" where
  "offset_of n = (int sume_size * (n - 1) + int HEADSIZE) mod ULONG"

definition items_in :: "int \<Rightarrow> int" where
  "items_in n = (n - 2 * int sume_size + int HEADSIZE) mod ULONG div int sume_size"

section \<open>The file\<close>

definition open_sum :: "pico_env \<Rightarrow> string \<Rightarrow> int picop" where
  "open_sum e dir = bnd (gets (\<lambda>s. disk s (take (BFSZ - 1) (dir @ ''/sum'')))) (\<lambda>f. case f of
     None \<Rightarrow> ret 1
   | Some f \<Rightarrow>
       let (magic, rest) = take_line (BFSZ - 1) f in
       sq (upd (\<lambda>s. s\<lparr>sum_file := Some f, sum_pos := length magic\<rparr>))
       (if cstr magic \<noteq> ''!<sm02>\<newline>'' then complain e ''conference sum file in weird format'' else ret 0))"

text \<open>A seek before the start of the file fails and leaves the position.\<close>

definition seek_pos :: "nat \<Rightarrow> int \<Rightarrow> nat" where
  "seek_pos p i = (let o1 = s64 (offset_of i) in if o1 < 0 then p else nat o1)"

definition seek_sum :: "int \<Rightarrow> unit picop" where
  "seek_sum n = upd (\<lambda>s. s\<lparr>sum_pos := seek_pos (sum_pos s) n\<rparr>)"

definition last_no :: "string \<Rightarrow> int" where
  "last_no f = s32 (items_in (int (length f)))"

definition seek_item :: "int \<Rightarrow> unit picop" where
  "seek_item n = bnd (gets sum_file) (\<lambda>f. case f of
     None \<Rightarrow> undef
   | Some f \<Rightarrow> let i = (if n = -1 then last_no f else n) in
       sq (upd (\<lambda>s. s\<lparr>sum_item := i\<rparr>)) (seek_sum i))"

text \<open>\<open>fread\<close> of one record: what it gives, and the position it leaves.\<close>

definition read_sume :: "string \<Rightarrow> nat \<Rightarrow> sume option \<times> nat" where
  "read_sume f p = (if p + sume_size \<le> length f then (Some (sume_of (drop p f)), p + sume_size)
     else (None, max p (length f)))"

text \<open>The loop of \<open>next_item\<close>: the present_rec record it stops at, the position and the item number.\<close>

function scan_up :: "string \<Rightarrow> nat \<Rightarrow> int \<Rightarrow> sume option \<times> nat \<times> int" where
  "scan_up f p i = (case read_sume f p of
     (None, q) \<Rightarrow> (None, q, i)
   | (Some r, q) \<Rightarrow> if present_rec r then (Some r, q, i) else scan_up f q (i + 1))"
  by pat_completeness auto
termination
  by (relation "measure (\<lambda>(f, p, i). length f - p)")
     (auto simp: read_sume_def sume_size_def split: if_splits)

declare scan_up.simps [simp del]

text \<open>\<open>lost\<close> is the program's \<open>lost_items\<close>; the result is the item and its \<open>resp_no\<close>, or the end.\<close>

definition next_item :: "(int \<Rightarrow> int \<Rightarrow> unit picop) \<Rightarrow> (int \<times> int) option picop" where
  "next_item lost = bnd (gets id) (\<lambda>s. case sum_file s of
     None \<Rightarrow> undef
   | Some f \<Rightarrow> (case scan_up f (sum_pos s) (sum_item s) of
       (Some r, q, i) \<Rightarrow>
         sq (whenP (i \<noteq> sum_item s) (lost (sum_item s) (i - 1)))
         (sq (upd (\<lambda>s. s\<lparr>sum_item := i + 1, sum_pos := q\<rparr>)) (ret (Some (i, s32 (s_resp_no r)))))
     | (None, q, i) \<Rightarrow>
         sq (whenP (i \<noteq> sum_item s) (lost (sum_item s) (-1)))
         (sq (upd (\<lambda>s. s\<lparr>sum_item := i, sum_pos := q\<rparr>)) (ret None))))"

text \<open>The loop of \<open>prev_item\<close> reads, and seeks to the record before.\<close>

datatype look_back = Strange | Front | Back sume

function scan_down :: "string \<Rightarrow> nat \<Rightarrow> int \<Rightarrow> look_back \<times> nat \<times> int" where
  "scan_down f p i = (if i \<le> 0 then (Front, p, i) else
     case read_sume f p of
       (None, q) \<Rightarrow> (Strange, q, i)
     | (Some r, q) \<Rightarrow> if present_rec r then (Back r, q, i) else scan_down f (seek_pos q (i - 1)) (i - 1))"
  by pat_completeness auto
termination by (relation "measure (\<lambda>(f, p, i). nat i)") auto

declare scan_down.simps [simp del]

definition prev_item :: "pico_env \<Rightarrow> (int \<Rightarrow> int \<Rightarrow> unit picop) \<Rightarrow> (int \<times> int) option picop" where
  "prev_item e lost = bnd (gets id) (\<lambda>s. case sum_file s of
     None \<Rightarrow> undef
   | Some f \<Rightarrow> (case scan_down f (sum_pos s) (sum_item s) of
       (Strange, q, i) \<Rightarrow> complain e ''strange error reading sumfile''
     | (Front, q, i) \<Rightarrow>
         sq (whenP (i \<noteq> sum_item s) (lost 1 (sum_item s)))
         (sq (upd (\<lambda>s. s\<lparr>sum_item := i, sum_pos := q\<rparr>)) (ret None))
     | (Back r, q, i) \<Rightarrow>
         sq (whenP (i \<noteq> sum_item s) (lost (i + 1) (sum_item s)))
         (sq (upd (\<lambda>s. s\<lparr>sum_item := i - 1, sum_pos := q\<rparr>))
         (sq (whenP (0 < i - 1) (seek_sum (i - 1))) (ret (Some (i, s32 (s_resp_no r))))))))"

end
