(* ===== verification/BbsItem.thy ===== *)
theory BbsItem
  imports BbsSum
begin

text \<open>
  Displaying an item (\<open>soft/cmd/bbsread/readitem.c\<close>): the item file is read a line at a time by a
  machine whose state is the header fields collected so far, the number of the response the line
  belongs to and a few flags.
\<close>

section \<open>The state of the display\<close>

text \<open>
  \<open>i_buf\<close> holds the bytes of the line buffer that were ever written; a line leaves what the ones
  before it put behind its NUL. \<open>i_resp\<close> is the local \<open>resp\<close>.
\<close>

record showing =
  i_buf :: string
  title :: string
  fullname :: string
  login :: string
  uid :: int
  i_date :: int
  i_resp :: int
  printing :: bool
  scribbled :: bool
  thisversion :: bool
  gotversion :: bool
  didE :: bool

text \<open>The arguments of \<open>dispitem\<close>, without the device and the directory.\<close>

record request =
  q_item :: int
  q_first :: int
  q_last :: int
  q_max :: int
  q_header :: int
  q_html :: bool

text \<open>
  \<open>copyto\<close> into an array of \<open>n\<close> bytes stops at the character alone, not at a NUL, and writes its
  NUL after as many as \<open>n\<close> bytes: \<open>None\<close> where it leaves the source or the target.
\<close>

definition copyto :: "string \<Rightarrow> char \<Rightarrow> nat \<Rightarrow> string option" where
  "copyto b ch n = (case split_at ch b of
     Some (a, _) \<Rightarrow> if length a < n then Some (cstr a) else None
   | None \<Rightarrow> None)"

definition item_head :: "pico_env \<Rightarrow> int \<Rightarrow> showing \<Rightarrow> string" where
  "item_head e n d = ''Item #'' @ dec n @ '' entered by '' @ fullname d @ ''('' @ login d @ '') on ''
     @ ctime e (i_date d)
     @ (if scribbled d then '' '' @ title d @ ''\<newline> <scribbled>\<newline>'' else '' '' @ title d @ ''\<newline>\<newline>'')"

definition resp_head :: "pico_env \<Rightarrow> showing \<Rightarrow> string" where
  "resp_head e d = ''#'' @ dec (i_resp d) @ '' '' @ fullname d @ ''('' @ login d @ '') on ''
     @ pad_left 24 (take 24 (ctime e (i_date d))) @ '':\<newline>''
     @ (if scribbled d then '' <scribbled>\<newline>'' else [])"

definition new_responses :: "int \<Rightarrow> int \<Rightarrow> bool \<Rightarrow> string" where
  "new_responses frst mx pr =
     (if mx = 0 then ''No responses.\<newline>''
      else let f = (if frst = 0 then 1 else frst) in
        if pr then ''\<newline>'' @ dec mx @ '' response'' @ (if mx = 1 then [] else ''s'') @ '' total.\<newline>\<newline>''
        else dec (mx - (if f = 0 then 0 else f - 1)) @ '' new of '' @ dec mx @ '' response''
          @ (if mx = 1 then [] else ''s'') @ '' total.\<newline>\<newline>'')"

section \<open>One line\<close>

text \<open>What a line does: go on with some output, show the header only, or end the program.\<close>

datatype step = Go showing string | HeadOnly string | Weird | Smash

definition show_text :: "showing \<Rightarrow> string \<Rightarrow> step" where
  "show_text d x = (if printing d \<and> \<not> scribbled d \<and> thisversion d
     then Go (d\<lparr>gotversion := True\<rparr>) ('' '' @ x) else Go d [])"

definition end_entry :: "request \<Rightarrow> showing \<Rightarrow> step" where
  "end_entry q d =
     (let out = (if i_resp d = 0 \<and> q_last q = INT_MAX
            then new_responses (q_first q) (q_max q) (printing d \<or> q_header q \<noteq> 0) else []);
          d1 = (if uid d \<noteq> -1 then d\<lparr>fullname := [], login := [], uid := -1, i_date := -1\<rparr> else d);
          r = i_resp d1 + 1
      in Go (d1\<lparr>didE := True, i_resp := r, printing := q_first q \<le> r \<and> r \<le> q_last q\<rparr>) out)"

definition date_line :: "pico_env \<Rightarrow> request \<Rightarrow> showing \<Rightarrow> string \<Rightarrow> step" where
  "date_line e q d x =
     (let d1 = d\<lparr>i_date := s64 (atolh x)\<rparr>;
          d2 = d1\<lparr>thisversion := q_html q, gotversion := False\<rparr>
      in if i_resp d = 0 then
           (let out = (if q_header q \<noteq> 0 then item_head e (q_item q) d1 else [])
            in if q_header q = 2 then HeadOnly out
               else Go (if q_first q > 0 then d2\<lparr>printing := False\<rparr> else d2) out)
         else Go d2 (resp_head e d1))"

definition user_line :: "showing \<Rightarrow> string \<Rightarrow> step" where
  "user_line d x = (case split_at (CHR '','') (cstr x) of
     None \<Rightarrow> Weird
   | Some (a, _) \<Rightarrow> (case copyto (drop (Suc (length a)) x) NL 9 of
       None \<Rightarrow> Smash
     | Some l \<Rightarrow> Go (d\<lparr>uid := atoi (cstr x), login := l\<rparr>) []))"

text \<open>\<open>x\<close> is the buffer from its third byte on.\<close>

definition comma_line :: "pico_env \<Rightarrow> request \<Rightarrow> showing \<Rightarrow> char \<Rightarrow> string \<Rightarrow> step" where
  "comma_line e q d k x =
     (if k = CHR ''H'' then
        (if \<not> printing d then Go d [] else case copyto x NL BFSZ of
           None \<Rightarrow> Smash | Some t \<Rightarrow> Go (d\<lparr>title := t\<rparr>) [])
      else if k = CHR ''A'' then
        (if \<not> printing d then Go d [] else case copyto x NL BFSZ of
           None \<Rightarrow> Smash | Some t \<Rightarrow> Go (d\<lparr>fullname := t\<rparr>) [])
      else if k = CHR ''U'' then (if \<not> printing d then Go d [] else user_line d x)
      else if k = CHR ''D'' then (if \<not> printing d then Go d [] else date_line e q d (cstr x))
      else if k = CHR ''T'' then Go (d\<lparr>thisversion := \<not> gotversion d, didE := False\<rparr>) []
      else if k = CHR ''R'' then
        (if length x < 4 then Smash
         else let d1 = d\<lparr>scribbled := (x ! 3 = CHR ''3'')\<rparr> in
           if didE d then Go d1 [] else end_entry q d1)
      else if k = CHR ''E'' then end_entry q d
      else if k = CHR '':'' then show_text d (cstr x)
      else if k = CHR '','' then show_text d (k # cstr x)
      else Weird)"

definition over :: "string \<Rightarrow> string \<Rightarrow> string" where
  "over l old = l @ NUL # drop (Suc (length l)) old"

definition item_line :: "pico_env \<Rightarrow> request \<Rightarrow> showing \<Rightarrow> string \<Rightarrow> step" where
  "item_line e q d l =
     (let b = over l (i_buf d); d1 = d\<lparr>i_buf := b\<rparr>
      in if hd b = CHR '','' then comma_line e q d1 (b ! 1) (drop 2 b) else show_text d1 (cstr b))"

section \<open>The whole item\<close>

definition weird_item :: "pico_env \<Rightarrow> 'a picop" where
  "weird_item e = complain e ''item file in weird format''"

fun show_lines :: "pico_env \<Rightarrow> request \<Rightarrow> showing \<Rightarrow> string list \<Rightarrow> int picop" where
  "show_lines e q d [] = ret (i_resp d - 1)"
| "show_lines e q d (l # ls) = (case item_line e q d l of
     Go d1 out \<Rightarrow> sq (puts out) (show_lines e q d1 ls)
   | HeadOnly out \<Rightarrow> sq (puts out) (ret (-1))
   | Weird \<Rightarrow> weird_item e
   | Smash \<Rightarrow> undef)"

definition item_name :: "string \<Rightarrow> int \<Rightarrow> string" where
  "item_name dir n = take (BFSZ - 1) (dir @ ''/_'' @ dec n)"

definition dispitem :: "pico_env \<Rightarrow> string \<Rightarrow> request \<Rightarrow> int picop" where
  "dispitem e dir q0 =
     (let q = q0\<lparr>q_last := (if q_last q0 = -1 then INT_MAX else q_last q0)\<rparr>;
          name = item_name dir (q_item q)
      in bnd (gets (\<lambda>s. disk s name)) (\<lambda>f. case f of
           None \<Rightarrow> complain e (''could not open '' @ name)
         | Some f \<Rightarrow> (case pieces (BFSZ - 1) f of
             [] \<Rightarrow> weird_item e
           | magic # ls \<Rightarrow> if cstr magic \<noteq> ''!<ps02>\<newline>'' then weird_item e
             else show_lines e q
               \<lparr>i_buf = over magic (over name []), title = [], fullname = [], login = [], uid = -1, i_date = 0,
                i_resp = 0, printing = True, scribbled = False, thisversion = False, gotversion = False,
                didE = True\<rparr> ls)))"

end
