(* ===== verification/BbsRead.thy ===== *)
theory BbsRead
  imports BbsItem
begin

text \<open>
  The conference reader itself (\<open>soft/cmd/bbsread/rfp.c\<close>, \<open>bbsread.c\<close>): choosing what to show of an
  item, the commands of the prompt, the main loop and \<open>main\<close>.
\<close>

section \<open>Showing an item\<close>

definition display_it :: "pico_env \<Rightarrow> int \<Rightarrow> int \<Rightarrow> int \<Rightarrow> unit picop" where
  "display_it e f l head =
     sq (upd (\<lambda>s. s\<lparr>again := (f, l, head)\<rparr>))
     (bnd (gets id) (\<lambda>s. if \<not> dont_page s \<and> \<not> pager_starts e then undef else
      sq (puts ''\<newline>'')
      (bnd (dispitem e (confdir s) \<lparr>q_item = curitem s, q_first = f, q_last = l, q_max = max_resp s,
            q_header = head, q_html = False\<rparr>) (\<lambda>seen.
       sq (bnd (gets id) (\<lambda>t. whenP (max_read t < seen \<and> (\<not> extracting t \<or> f \<le> max_read t))
         (sq (update_item e (curitem t) seen) (upd (\<lambda>s. s\<lparr>max_read := seen\<rparr>)))))
       (upd (\<lambda>s. s\<lparr>curresp := seen + 1\<rparr>))))))"

text \<open>Where to start reading an item, or not to show it.\<close>

definition read_from :: "pico \<Rightarrow> bool \<Rightarrow> int option" where
  "read_from s forgot =
     (if forgot then
        (if read_forgotten s = 0 then None
         else Some (if read_forgotten s = 2 then 0 else max_read s + 1))
      else if max_resp s \<le> max_read s then
        (if max_resp s < max_read s then Some 0 else if read_old s then Some 0 else None)
      else if max_read s = -1 then (if read_brandnew s then Some 0 else None)
      else if read_newresp s = 0 then None
      else Some (if read_newresp s = 2 then 0 else max_read s + 1))"

definition whoops :: "pico_env \<Rightarrow> unit picop" where
  "whoops e = bnd (gets id) (\<lambda>s.
     sq (puts (''Whoops...item '' @ dec (curitem s) @ '' is missing '' @ dec (max_read s - max_resp s)
       @ '' responses.\<newline>''))
     (sq (update_item e (curitem s) (max_resp s)) (upd (\<lambda>s. s\<lparr>max_read := max_resp s\<rparr>))))"

definition maybe_display :: "pico_env \<Rightarrow> bool picop" where
  "maybe_display e = bnd (gets curitem) (\<lambda>i. bnd (last_read i) (\<lambda>(seen, forgot).
     sq (upd (\<lambda>s. s\<lparr>max_read := seen\<rparr>))
     (bnd (gets id) (\<lambda>s. case read_from s forgot of
        None \<Rightarrow> ret False
      | Some f \<Rightarrow>
          sq (whenP (\<not> forgot \<and> max_resp s < max_read s) (whoops e))
          (sq (display_it e f (-1) (if noresponse s then 2 else 1)) (ret True))))))"

definition do_extract :: "pico_env \<Rightarrow> bool picop" where
  "do_extract e = bnd (next_item lost_items) (\<lambda>r. case r of
     None \<Rightarrow> ret False
   | Some (i, n) \<Rightarrow> sq (upd (\<lambda>s. s\<lparr>curitem := i, max_resp := n\<rparr>))
       (bnd (gets id) (\<lambda>s. if i \<noteq> r_first (item s) then ret False
        else sq (upd (\<lambda>s. s\<lparr>curresp := n, max_resp := n - 1\<rparr>))
          (bnd (last_read i) (\<lambda>(seen, forgot). sq (upd (\<lambda>s. s\<lparr>max_read := seen\<rparr>))
          (sq (display_it e (r_first (resp s)) (r_last (resp s)) (if r_first (resp s) = 0 then 1 else 0))
           (ret True)))))))"

text \<open>One round of \<open>do_pass\<close>: the result of the command, or the next item.\<close>

definition pass_round :: "pico_env \<Rightarrow> bool option picop" where
  "pass_round e = bnd (gets id) (\<lambda>s0.
     bnd (if reverse s0 then prev_item e lost_items else next_item lost_items) (\<lambda>r. case r of
       None \<Rightarrow> ret (Some False)
     | Some (i, n) \<Rightarrow> sq (upd (\<lambda>s. s\<lparr>curitem := i, max_resp := n\<rparr>))
         (if (if reverse s0 then i < r_first (item s0) else r_last (item s0) < i \<and> r_last (item s0) \<noteq> -1)
          then ret (Some False)
          else sq (upd (\<lambda>s. s\<lparr>curresp := n, max_resp := n - 1\<rparr>))
            (bnd (maybe_display e) (\<lambda>shown. ret (if shown then Some True else None))))))"

definition items_left :: "pico \<Rightarrow> nat" where
  "items_left s = (if reverse s then nat (sum_item s)
     else case sum_file s of None \<Rightarrow> 0 | Some f \<Rightarrow> length f - sum_pos s)"

definition do_pass :: "pico_env \<Rightarrow> bool picop" where
  "do_pass e = bnd (gets items_left) (\<lambda>n. first_of (Suc n) (pass_round e))"

section \<open>Commands of the prompt\<close>

definition do_badcmd :: "string \<Rightarrow> bool picop" where
  "do_badcmd c = sq (puts (''Unknown command: '' @ c @ ''\<newline>'')) (ret True)"

definition show_from :: "pico_env \<Rightarrow> (pico \<Rightarrow> int) \<Rightarrow> bool picop" where
  "show_from e f = bnd (gets f) (\<lambda>r. sq (display_it e r (-1) 0) (ret True))"

definition do_again :: "pico_env \<Rightarrow> bool picop" where
  "do_again e = bnd (gets again) (\<lambda>(f, l, h). sq (display_it e f l h) (ret True))"

definition do_only :: "pico_env \<Rightarrow> string \<Rightarrow> bool picop" where
  "do_only e arg = (if \<not> numeric arg
     then sq (puts ''The 'only' command requires a numeric argument.\<newline>'') (ret True)
     else sq (display_it e (atoi arg) (atoi arg) 0) (ret True))"

definition do_forget :: "pico_env \<Rightarrow> string \<Rightarrow> bool picop" where
  "do_forget e what = bnd (gets curitem) (\<lambda>i. sq (update_item e i (-1))
     (sq (puts (''item '' @ dec i @ what @ ''\<newline>'')) (ret True)))"

definition do_postpone :: "pico_env \<Rightarrow> bool picop" where
  "do_postpone e = bnd (gets curitem) (\<lambda>i. sq (reset_item i) (do_pass e))"

definition do_new :: "bool picop" where
  "do_new = bnd (gets curitem) (\<lambda>i. sq (reset_item i) (ret False))"

definition cant :: "string \<Rightarrow> bool picop" where
  "cant x = sq (puts x) (ret True)"

definition cant_act :: "bool picop" where
  "cant_act = cant (''Cannot change items -- use '' @ CHR 0x22 # ''bbs'' @ CHR 0x22 # '' for that.\<newline>'')"

definition cant_respond :: "bool picop" where
  "cant_respond = cant (''Cannot respond to items -- use '' @ CHR 0x22 # ''bbs'' @ CHR 0x22 # '' for that.\<newline>'')"

definition rfp_cmds :: "pico_env \<Rightarrow> (string \<times> (string \<Rightarrow> bool picop)) list" where
  "rfp_cmds e =
     [(''r_espond'', \<lambda>_. cant_respond), (''ps_eudonym'', \<lambda>_. cant_respond),
      (''forget'', \<lambda>_. do_forget e '' forgotten''), (''p_ass'', \<lambda>_. do_pass e),
      (''k_ill'', \<lambda>_. cant_act), (''rem_ember'', \<lambda>_. do_forget e '' remembered''),
      (''unf_orget'', \<lambda>_. do_forget e '' remembered''),
      (''h_eader'', \<lambda>_. sq (display_it e 0 0 2) (ret True)),
      (''text'', \<lambda>_. show_from e (\<lambda>_. 0)), (''a_gain'', \<lambda>_. do_again e),
      (''first'', \<lambda>_. show_from e (\<lambda>_. 1)), (''cu_rrent'', \<lambda>_. show_from e curresp),
      (''l_ast'', \<lambda>_. show_from e max_resp), (''n_ew'', \<lambda>_. do_new),
      (''po_stpone'', \<lambda>_. do_postpone e), (''freeze'', \<lambda>_. cant_act), (''thaw'', \<lambda>_. cant_act),
      (''sync_hronous'', \<lambda>_. cant_act), (''async_hronous'', \<lambda>_. cant_act), (''retire'', \<lambda>_. cant_act),
      (''unretire'', \<lambda>_. cant_act), (''e_nter'', \<lambda>_. cant_respond),
      (''f_ind'', \<lambda>_. cant ''Text searching not supported.\<newline>''),
      (''lo_cate'', \<lambda>_. cant ''Text searching not supported.\<newline>''),
      (''si_nce'', \<lambda>_. cant ''Date searching not supported.\<newline>''),
      (''cen_sor'', \<lambda>_. cant_act), (''scr_ibble'', \<lambda>_. cant_act), (''onl_y'', do_only e),
      (''stop'', \<lambda>_. ret False), (''q_uit'', \<lambda>_. ret False),
      (''^'', \<lambda>_. show_from e (\<lambda>_. 1)), (''$_$'', \<lambda>_. show_from e max_resp)]"

definition signed_cmd :: "pico_env \<Rightarrow> string \<Rightarrow> bool picop" where
  "signed_cmd e c = (if tl c \<noteq> [] \<and> \<not> numeric (tl c) then do_badcmd c
     else let n = (if tl c = [] then 1 else atoi (tl c));
              r = (if hd c = CHR ''-'' then s32 (- n) else n)
       in show_from e (\<lambda>s. s32 (curresp s + r)))"

definition BLANKS :: string where "BLANKS = [SPC, CHR 0x09]"

text \<open>The result is false when the prompt should not come again.\<close>

definition rfp_command :: "pico_env \<Rightarrow> string \<Rightarrow> bool picop" where
  "rfp_command e line =
     (let line1 = firstout line BLANKS; c = skip_in line1 (NL # BLANKS); rest = firstin line1 (NL # BLANKS);
          args = firstout rest (NL # BLANKS)
      in if c = [] then do_pass e
      else if \<not> isascii (hd c) then do_badcmd c
      else if isdigit (hd c) then show_from e (\<lambda>_. atoi c)
      else if hd c = CHR ''-'' \<or> hd c = CHR ''+'' then signed_cmd e c
      else if hd c = CHR ''!'' then
        (let sh = (if args \<noteq> rest then c @ SPC # skip_in (tl rest) ''\<newline>'' else c)
         in sq (bnd (gets (usystem e (tl sh))) puts) (ret True))
      else case List.find (\<lambda>(p, f). match c p) (rfp_cmds e) of
          Some (_, f) \<Rightarrow> f args
        | None \<Rightarrow> do_badcmd c)"

section \<open>The program\<close>

definition main_round :: "pico_env \<Rightarrow> bool picop" where
  "main_round e = bnd (gets prompt_rfp) (\<lambda>ask. if ask
     then sq (puts ''\<newline>Response not possible.  Pass? '') (bnd (fgets BFSZ) (\<lambda>l. case l of
            None \<Rightarrow> sq (puts ''\<newline>'') (ret False)
          | Some x \<Rightarrow> rfp_command e x))
     else do_pass e)"

definition main_loop :: "pico_env \<Rightarrow> unit picop" where
  "main_loop e = bnd (gets id) (\<lambda>s.
     sq (seek_item (if reverse s then r_last (item s) else r_first (item s)))
     (if extracting s then bnd (do_extract e) (\<lambda>ok. whenP (\<not> ok) (puts ''No such item\<newline>''))
      else bnd (do_pass e) (\<lambda>ok. if \<not> ok then puts ''No items selected for display\<newline>''
        else bnd (gets (\<lambda>s. length (tin s) + items_left s)) (\<lambda>n. iter (Suc n) (main_round e)))))"

fun read_flags :: "pico_env \<Rightarrow> string \<Rightarrow> unit picop" where
  "read_flags e [] = ret ()"
| "read_flags e (c # cs) =
     (if c = CHR ''m'' then sq (upd (\<lambda>s. s\<lparr>dont_page := True\<rparr>)) (read_flags e cs)
      else if c = CHR ''p'' then sq (upd (\<lambda>s. s\<lparr>dont_update := True\<rparr>)) (read_flags e cs)
      else if c = CHR ''j'' then sq (upd (\<lambda>s. s\<lparr>dont_join := True\<rparr>)) (read_flags e cs)
      else bbs_usage e)"

fun read_words :: "pico_env \<Rightarrow> string option \<Rightarrow> string list \<Rightarrow> string option picop" where
  "read_words e conf [] = ret conf"
| "read_words e conf (a # as) =
     (if a \<noteq> [] \<and> hd a = CHR ''-'' then sq (read_flags e (tl a)) (read_words e conf as)
      else if conf = None then read_words e (Some a) as
      else sq (parse_arg e a) (read_words e conf as))"

definition conf_dir :: "pico_env \<Rightarrow> string \<Rightarrow> string picop" where
  "conf_dir e name = (if name \<noteq> [] \<and> hd name = CHR ''/'' then ret name
     else bnd (cfpath e name) (\<lambda>d. case d of
       None \<Rightarrow> complain e (''conference '' @ name @ '' does not exist'') | Some d \<Rightarrow> ret d))"

definition bbsread_main :: "pico_env \<Rightarrow> string list \<Rightarrow> unit picop" where
  "bbsread_main e args =
     sq (upd (\<lambda>s. s\<lparr>dont_page := \<not> isatty e\<rparr>))
     (bnd (read_words e None args) (\<lambda>conf. case conf of
        None \<Rightarrow> bbs_usage e
      | Some name \<Rightarrow> bnd (conf_dir e name) (\<lambda>d.
          sq (upd (\<lambda>s. s\<lparr>confdir := d\<rparr>))
          (bnd (readconfig e d) (\<lambda>(pf, mode).
           bnd (gets (\<lambda>s. disk s (take (BFSZ - 1) (d @ ''/readonly'')))) (\<lambda>ro.
           if 4 \<le> mode \<and> mode \<le> 6 \<and> ro = None then complain e (name @ '' conference is closed'')
           else bnd (gets id) (\<lambda>s.
             sq (whenP (\<not> (read_brandnew s \<and> read_newresp s = 2 \<and> read_old s \<and> read_forgotten s \<noteq> 0))
               (bnd (pfread e pf) (\<lambda>no. whenP (no \<noteq> 0 \<and> \<not> dont_join s) (pfnew e pf))))
             (sq (open_sum e d)
             (sq (main_loop e)
             (sq (whenP (\<not> dont_update s) (pfwrite e)) (exit_prog 0)))))))))))"

text \<open>The globals as a program starts.\<close>

definition pico_start :: "(string \<Rightarrow> string option) \<Rightarrow> string \<Rightarrow> pico" where
  "pico_start d input = \<lparr>tin = input, tout = [], alias_name = [], pflist = [], filename = [], no_pf = True,
     sum_file = None, sum_pos = 0, sum_item = 0, item = \<lparr>r_first = 1, r_last = -1\<rparr>,
     resp = \<lparr>r_first = 0, r_last = -1\<rparr>, which_range = 0, read_brandnew = True, read_newresp = 1,
     read_old = False, read_forgotten = 0, reverse = False, prompt_rfp = True, noresponse = False,
     extracting = False, dont_page = False, dont_update = False, dont_join = False, confdir = [],
     config_buf = [], curitem = 0, curresp = 0, max_resp = 0, max_read = 0, again = (0, 0, 0), disk = d\<rparr>"

end
