(* ===== verification/BbsTools.thy ===== *)
theory BbsTools
  imports BbsRead
begin

text \<open>
  The small programs built from the conference reader's parts: \<open>forget\<close>, \<open>extract\<close>, \<open>findconf\<close> and
  \<open>partname\<close> (\<open>soft/cmd/bbsread\<close>).
\<close>

section \<open>forget\<close>

definition forget_usage :: "pico_env \<Rightarrow> 'a picop" where
  "forget_usage e = sq (puts (''usage: '' @ progname e @ '' [-c] <conference> <item>\<newline>'')) (exit_prog 1)"

text \<open>Whether to join the conference, its name and the item.\<close>

fun forget_words :: "pico_env \<Rightarrow> bool \<times> string option \<times> int \<Rightarrow> string list \<Rightarrow> (bool \<times> string option \<times> int) picop" where
  "forget_words e w [] = ret w"
| "forget_words e (join, conf, n) (a # as) =
     (if a \<noteq> [] \<and> hd a = CHR ''-'' then
        (if tl a \<noteq> [] \<and> hd (tl a) = CHR ''c'' then forget_words e (True, conf, n) as else forget_usage e)
      else if conf = None then forget_words e (join, Some a, n) as
      else if n = -1 then forget_words e (join, conf, atoi a) as
      else forget_usage e)"

definition not_a_member :: "pico_env \<Rightarrow> string \<Rightarrow> int \<Rightarrow> 'a picop" where
  "not_a_member e name n = complain e (''You are not a member of the '' @ name @ '' conference\<newline>Do '' @ [CHR 0x27]
     @ progname e @ '' -c '' @ name @ '' '' @ dec n @ CHR 0x27 # '' to join '' @ name @ '' and forget item '' @ dec n)"

definition toggle_forgotten :: "pico_env \<Rightarrow> string \<Rightarrow> int \<Rightarrow> unit picop" where
  "toggle_forgotten e name n = bnd (last_read n) (\<lambda>(seen, forgot).
     sq (update_item e n (-1))
     (puts ((if forgot then ''Remembering '' else ''Forgetting '') @ name @ '' conference item '' @ dec n @ ''\<newline>'')))"

definition forget_main :: "pico_env \<Rightarrow> string list \<Rightarrow> unit picop" where
  "forget_main e args = bnd (forget_words e (False, None, -1) args) (\<lambda>(join, conf, n). case conf of
     None \<Rightarrow> forget_usage e
   | Some name \<Rightarrow> if n \<le> 0 then forget_usage e
     else bnd (conf_dir e name) (\<lambda>d.
       if \<not> there e (item_name d n)
       then (if \<not> there e (take (BFSZ - 1) (d @ ''/config''))
          then complain e (''directory '' @ d @ '' does not exist'')
          else complain e (''no item '' @ dec n @ '' in the '' @ name @ '' conference''))
       else bnd (readconfig e d) (\<lambda>(pf, mode).
         sq (bnd (pfread e pf) (\<lambda>no. if no = 0 then ret ()
               else if join then pfnew e pf else not_a_member e name n))
         (sq (toggle_forgotten e name n) (sq (pfwrite e) (exit_prog 0))))))"

section \<open>extract\<close>

definition extract_usage :: "pico_env \<Rightarrow> 'a picop" where
  "extract_usage e = sq (puts (''usage: '' @ progname e
     @ '' [-h] <confname> <item> [<resp>[-<resp>]|head]\<newline>'')) (exit_prog 1)"

record extraction =
  x_conf :: "string option"
  x_header :: bool
  x_html :: bool

fun extract_flags :: "pico_env \<Rightarrow> extraction \<Rightarrow> string \<Rightarrow> extraction picop" where
  "extract_flags e x [] = ret x"
| "extract_flags e x (c # cs) = (if c = CHR ''h'' then extract_flags e (x\<lparr>x_html := True\<rparr>) cs
     else extract_usage e)"

definition take_range :: "pico_env \<Rightarrow> string \<Rightarrow> (range \<Rightarrow> pico \<Rightarrow> pico) \<Rightarrow> unit picop" where
  "take_range e a put = (case parse_range a of None \<Rightarrow> extract_usage e | Some (r, _) \<Rightarrow> upd (put r))"

fun extract_words :: "pico_env \<Rightarrow> extraction \<Rightarrow> string list \<Rightarrow> extraction picop" where
  "extract_words e x [] = ret x"
| "extract_words e x (a # as) =
     (if a \<noteq> [] \<and> hd a = CHR ''-'' then bnd (extract_flags e x (tl a)) (\<lambda>x. extract_words e x as)
      else if x_conf x = None then extract_words e (x\<lparr>x_conf := Some a\<rparr>) as
      else bnd (gets id) (\<lambda>s.
        if r_first (item s) = -1 then sq (take_range e a (\<lambda>r s. s\<lparr>item := r\<rparr>)) (extract_words e x as)
        else if r_first (resp s) = -1 then
          (if strncmp a ''head'' 4 = 0 then extract_words e (x\<lparr>x_header := True\<rparr>) as
           else sq (take_range e a (\<lambda>r s. s\<lparr>resp := r\<rparr>)) (extract_words e x as))
        else extract_usage e))"

definition extract_main :: "pico_env \<Rightarrow> string list \<Rightarrow> unit picop" where
  "extract_main e args =
     sq (upd (\<lambda>s. s\<lparr>item := (item s)\<lparr>r_first := -1\<rparr>, resp := (resp s)\<lparr>r_first := -1\<rparr>\<rparr>))
     (bnd (extract_words e \<lparr>x_conf = None, x_header = False, x_html = False\<rparr> args) (\<lambda>x.
      bnd (gets item) (\<lambda>it. case x_conf x of
        None \<Rightarrow> extract_usage e
      | Some name \<Rightarrow> if r_first it < 1 \<or> r_first it \<noteq> r_last it then extract_usage e
        else sq (upd (\<lambda>s. if r_first (resp s) = -1 then s\<lparr>resp := \<lparr>r_first = 0, r_last = -1\<rparr>\<rparr> else s))
          (bnd (conf_dir e name) (\<lambda>d.
           sq (open_sum e d) (sq (seek_item (r_first it))
           (bnd (next_item (\<lambda>a b. ret ())) (\<lambda>r.
            if (case r of None \<Rightarrow> True | Some (i, _) \<Rightarrow> i \<noteq> r_first it)
            then complain e (''No item '' @ dec (r_first it) @ '' in the '' @ name @ '' conference'')
            else bnd (gets resp) (\<lambda>q.
              sq (dispitem e d \<lparr>q_item = r_first it, q_first = r_first q, q_last = r_last q,
                    q_max = snd (the r) - 1,
                    q_header = (if x_header x then 2 else if r_first q = 0 then 1 else 0),
                    q_html = x_html x\<rparr>)
              (exit_prog 0))))))))))"

section \<open>findconf and partname\<close>

definition findconf_main :: "pico_env \<Rightarrow> string list \<Rightarrow> unit picop" where
  "findconf_main e args = (case args of
     [name] \<Rightarrow> bnd (cfpath e name) (\<lambda>p. case p of
       None \<Rightarrow> complain e (''conference '' @ name @ '' does not exist'')
     | Some p \<Rightarrow> sq (puts (p @ ''\<newline>'')) (exit_prog 0))
   | _ \<Rightarrow> sq (puts (''usage: '' @ progname e @ '' <conference name>\<newline>'')) (exit_prog 1))"

definition partname_main :: "pico_env \<Rightarrow> string list \<Rightarrow> unit picop" where
  "partname_main e args = (case args of
     [name] \<Rightarrow> bnd (conf_dir e name) (\<lambda>d. bnd (readconfig e d) (\<lambda>(part, mode).
       sq (puts (part @ ''\<newline>'')) (exit_prog 0)))
   | _ \<Rightarrow> sq (puts (''usage: '' @ progname e @ '' <conference name>|<conference dir>\<newline>'')) (exit_prog 1))"

end
