(* ===== verification/BbsProps.thy ===== *)
theory BbsProps
  imports BbsTools
begin

text \<open>
  What the lower layers of the conference reader promise: abbreviations of command names, the words of
  the command line, the participation file as a map from items to entries, and its round trip.
\<close>

text \<open>An environment for examples.\<close>

definition sample_reader :: pico_env where
  "sample_reader = \<lparr>progname = ''bbsread'', home = ''/h'', gecos = ''Jo'', now = 1000, ctime = (\<lambda>_. ''then''),
     there = (\<lambda>_. False), writable = (\<lambda>_. True), isatty = False, pager_starts = False,
     usystem = (\<lambda>_ _. [])\<rparr>"

section \<open>Abbreviations\<close>

lemma match_plain:
  "CHR ''_'' \<notin> set a \<Longrightarrow> CHR '':'' \<notin> set a \<Longrightarrow> at_end rest \<Longrightarrow>
   match_loop name (a @ rest) True \<longleftrightarrow> (\<exists>p q. a = p @ q \<and> name = p)"
proof (induction name arbitrary: a)
  case (Cons n ns)
  show ?case
  proof (cases a)
    case Nil
    with Cons.prems(3) show ?thesis by (cases rest) (auto simp: at_end_def)
  next
    case (Cons x xs)
    with Cons.prems Cons.IH [of xs] show ?thesis by (auto simp: Cons_eq_append_conv)
  qed
qed simp

text \<open>
  The matching of a word with a name in which an underscore marks the shortest abbreviation: a
  name \<open>a_b\<close> (up to its end or a colon) is matched exactly by \<open>a\<close> followed by a prefix of \<open>b\<close>.
\<close>

theorem match_abbreviation:
  assumes "CHR ''_'' \<notin> set (a @ b)" "CHR '':'' \<notin> set (a @ b)" "rest = [] \<or> hd rest = CHR '':''"
  shows "match name (a @ ''_'' @ b @ rest) \<longleftrightarrow> (\<exists>p q. b = p @ q \<and> name = a @ p)"
  unfolding match_def using assms
proof (induction a arbitrary: name)
  case Nil
  have "match_loop name (''_'' @ b @ rest) False = match_loop name (b @ rest) True"
    by (cases name) (auto simp: at_end_def)
  with Nil match_plain [of b rest name] show ?case by (simp add: at_end_def)
next
  case (Cons x xs)
  then show ?case by (cases name) (auto simp: at_end_def)
qed

theorem match_abbreviation_witness:
  "match ''rem'' ''rem_ember'' \<and> match ''remember'' ''rem_ember'' \<and> \<not> match ''re'' ''rem_ember'' \<and>
   (match ''gre'' ''g_rex:/bbs/grex'' \<longleftrightarrow> (\<exists>p q. ''rex'' = p @ q \<and> ''gre'' = ''g'' @ p))"
  using match_abbreviation [of "''g''" "''rex''" "'':/bbs/grex''" "''gre''"]
  by (simp add: match_def at_end_def)

section \<open>Numbers on the command line\<close>

lemma match_first: "match (n # ns) (p # ps) \<Longrightarrow> p = CHR ''_'' \<or> n = p"
  by (auto simp: match_def split: if_splits)

lemma no_numeric_word: "isdigit c \<Longrightarrow> List.find (\<lambda>(p, f). match (c # cs) p) arg_list = None"
  by (auto simp: find_None_iff arg_list_def isdigit_def dest!: match_first)

lemma no_return_usage: "no_return (bbs_usage e)"
  unfolding bbs_usage_def usage_def by (intro no_return_rules)

lemma usage_run: "\<exists>t. bbs_usage e s = (Exit 1, t)"
  by (auto simp: bbs_usage_def usage_def sq_def bnd_def puts_def upd_def exit_prog_def)

lemma number_arg_outcome: "\<exists>t. number_arg e a s = (Ret (), t) \<or> number_arg e a s = (Exit 1, t)"
  using usage_run [of e]
  by (auto simp: number_arg_def bnd_def sq_def gets_def upd_def split: option.split)

text \<open>
  A word of the command line that starts with a digit never selects items or responses: after its
  range is set the word is looked up in the table of options too, where no number is found, and the
  program prints its usage and exits with status 1.
\<close>

theorem number_word_refused:
  assumes "isdigit c"
  shows "\<exists>t. parse_arg e (c # cs) s = (Exit 1, t)"
proof -
  have "isascii c" using assms by (simp add: isdigit_def isascii_def)
  then have p: "parse_arg e (c # cs) = sq (number_arg e (c # cs)) (bbs_usage e)"
    using assms no_numeric_word [OF assms, of cs] by (simp add: parse_arg_def whenP_run)
  obtain t where "number_arg e (c # cs) s = (Ret (), t) \<or> number_arg e (c # cs) s = (Exit 1, t)"
    using number_arg_outcome by blast
  then show ?thesis using usage_run [of e t] by (auto simp: p sq_run)
qed

theorem number_word_refused_witness: "\<forall>s. \<exists>t. parse_arg sample_reader ''12-15'' s = (Exit 1, t)"
  using number_word_refused [of "CHR ''1''"] by (simp add: isdigit_def)

section \<open>The participation file as a map\<close>

text \<open>
  A store whose entries are found by their key, and an operation that replaces what is found under a
  key by something made of it.
\<close>

locale keyed_store =
  fixes valid :: "'s \<Rightarrow> bool"
    and look :: "'s \<Rightarrow> 'k \<Rightarrow> 'v option"
    and put :: "'k \<Rightarrow> 's \<Rightarrow> 's"
    and made :: "'k \<Rightarrow> 'v option \<Rightarrow> 'v"
  assumes put_valid: "valid s \<Longrightarrow> valid (put k s)"
    and look_put: "valid s \<Longrightarrow> look (put k s) = (look s)(k \<mapsto> made k (look s k))"
begin

lemma put_others: "valid s \<Longrightarrow> k \<noteq> j \<Longrightarrow> look (put k s) j = look s j"
  by (simp add: look_put)

lemma puts_valid: "valid s \<Longrightarrow> valid (fold put ks s)"
  by (induction ks arbitrary: s) (simp_all add: put_valid)

lemma puts_others: "valid s \<Longrightarrow> j \<notin> set ks \<Longrightarrow> look (fold put ks s) j = look s j"
  by (induction ks arbitrary: s) (simp_all add: put_valid look_put)

lemma puts_found: "valid s \<Longrightarrow> distinct ks \<Longrightarrow> j \<in> set ks \<Longrightarrow>
    look (fold put ks s) j = Some (made j (look s j))"
proof (induction ks arbitrary: s)
  case (Cons k ks)
  show ?case
  proof (cases "j = k")
    case True
    with Cons.prems puts_others [OF put_valid, of s j ks] show ?thesis by (simp add: look_put)
  next
    case False
    with Cons.prems Cons.IH [of "put k s"] show ?thesis by (simp add: put_valid look_put)
  qed
qed simp

lemma put_swap: "valid s \<Longrightarrow> k \<noteq> j \<Longrightarrow> look (put k (put j s)) = look (put j (put k s))"
  by (simp add: put_valid look_put fun_upd_twist)

end

interpretation read_marks: keyed_store in_order by_item "\<lambda>i. put_entry t i r" "\<lambda>i. updated t i r" for t r
  by unfold_locales (simp_all add: put_entry_order put_entry_map)

definition seen_of :: "pfe option \<Rightarrow> int \<times> bool" where
  "seen_of p = (case p of None \<Rightarrow> (-1, False) | Some p \<Rightarrow> (resp_no p - 1, forgotten p))"

text \<open>
  C19: the linked list of the participation file implements a map from item numbers to entries: on a
  list in the order of the items, looking an item up reads the map, and marking an item read up to a
  response, or forgetting it, changes the map at that item alone and keeps the order.
\<close>

theorem participation_is_a_map:
  assumes "in_order (pflist s)" "\<not> no_pf s"
  shows "last_read j s = (Ret (seen_of (by_item (pflist s) j)), s) \<and>
    (\<exists>ps. update_item e i r s = (Ret (), s\<lparr>pflist := ps\<rparr>) \<and> in_order ps \<and>
      by_item ps = (by_item (pflist s))(i \<mapsto> updated (now e) i r (by_item (pflist s) i)))"
proof (intro conjI exI)
  show "last_read j s = (Ret (seen_of (by_item (pflist s) j)), s)"
    using assms by (simp add: last_read_def seen_of_def gets_def find_entry_map)
  show "update_item e i r s = (Ret (), s\<lparr>pflist := put_entry (now e) i r (pflist s)\<rparr>)"
    using assms by (simp add: update_item_def upd_def)
qed (rule read_marks.put_valid [OF assms(1)], rule read_marks.look_put [OF assms(1)])

definition sample_entries :: "pfe list" where
  "sample_entries = [new_entry 5 1 3, new_entry 6 4 0, new_entry 7 9 (-1)]"

definition sample_pico :: pico where
  "sample_pico = (pico_start (\<lambda>_. None) [])\<lparr>pflist := sample_entries, no_pf := False\<rparr>"

lemmas sample_pico_simps = sample_pico_def sample_entries_def pico_start_def new_entry_def sample_reader_def

theorem participation_is_a_map_witness:
  "last_read 4 sample_pico = (Ret (0, False), sample_pico) \<and>
   (\<exists>ps. update_item sample_reader 4 7 sample_pico = (Ret (), sample_pico\<lparr>pflist := ps\<rparr>) \<and> in_order ps \<and>
      resp_no (the (by_item ps 4)) = 8)"
proof -
  have s: "in_order (pflist sample_pico)" "\<not> no_pf sample_pico" by (simp_all add: sample_pico_simps)
  have "seen_of (by_item (pflist sample_pico) 4) = (0, False)"
    "resp_no (updated 1000 4 7 (by_item (pflist sample_pico) 4)) = 8"
    by (simp_all add: sample_pico_simps seen_of_def updated_def)
  with participation_is_a_map [OF s, of 4 sample_reader 4 7] show ?thesis
    by (auto simp: sample_reader_def)
qed

section \<open>Items that are gone\<close>

text \<open>
  Telling the participation file that a range of items has gone marks exactly the entries of that
  range for deletion; but when the end of the range is given as -1, which stands for the end of the
  conference, nothing is marked, because the range then looks empty.
\<close>

theorem lost_items_marks_range:
  assumes "in_order (pflist s)" "\<not> no_pf s" "0 \<le> lo"
  shows "lost_items lo (-1) s = (Ret (), s) \<and>
    (lo \<le> hi \<longrightarrow> lost_items lo hi s = (Ret (), s\<lparr>pflist :=
      map (\<lambda>p. if lo \<le> item_no p \<and> item_no p \<le> hi then p\<lparr>delete := True\<rparr> else p) (pflist s)\<rparr>))"
  using assms by (auto simp: lost_items_def upd_def drop_entries_map)

theorem lost_items_marks_range_witness:
  "lost_items 2 (-1) sample_pico = (Ret (), sample_pico) \<and>
   map delete (pflist (snd (lost_items 2 4 sample_pico))) = [False, True, False]"
proof -
  have s: "in_order (pflist sample_pico)" "\<not> no_pf sample_pico" by (simp_all add: sample_pico_simps)
  from lost_items_marks_range [OF s, of 2 4] show ?thesis by (simp add: sample_pico_simps)
qed

section \<open>Writing and reading the file\<close>

definition hex_ok :: "char \<Rightarrow> bool" where
  "hex_ok c \<longleftrightarrow> isdigit c \<or> (65 \<le> byte c \<and> byte c \<le> 70)"

lemma hex_digit_up: "d < 16 \<Longrightarrow> hex_ok (hex_digit_up d) \<and> hex_val (hex_digit_up d) = int d"
  by (simp add: hex_ok_def hex_digit_up_def hex_val_def isdigit_def)

lemma hex_nat_ok: "set (hex_nat n) \<subseteq> Collect hex_ok"
proof (induction n rule: hex_nat.induct)
  case (1 n)
  then show ?case by (subst hex_nat.simps) (auto simp: hex_digit_up)
qed

lemma hex_nat_nonempty [simp]: "hex_nat n \<noteq> []"
  by (subst hex_nat.simps) simp

lemma hex_value_append: "hex_value n (xs @ [c]) = hex_value n xs * 16 + hex_val c"
  by (induction xs arbitrary: n) auto

lemma hex_value_nat: "hex_value 0 (hex_nat n) = int n"
proof (induction n rule: hex_nat.induct)
  case (1 n)
  then show ?case
    by (subst hex_nat.simps) (auto simp: hex_digit_up hex_value_append zdiv_int zmod_int)
qed

lemma hex_ok_plain: "hex_ok c \<Longrightarrow> isxdigit c \<and> \<not> isspace c \<and> c \<noteq> CHR ''-'' \<and> c \<noteq> CHR ''+'' \<and>
    c \<noteq> CHR ''x'' \<and> c \<noteq> CHR ''X'' \<and> c \<noteq> NL \<and> c \<noteq> NUL"
  by (auto simp: hex_ok_def isxdigit_def isdigit_def isspace_def)

lemma scan_hex_text:
  assumes "n < 2 ^ 64"
  shows "scan_hex (SPC # hex_nat n @ ''\<newline>'') = Some (int n)"
proof -
  let ?h = "hex_nat n @ ''\<newline>''"
  have ok: "c \<in> set (hex_nat n) \<Longrightarrow> hex_ok c" for c using hex_nat_ok by blast
  obtain c cs where h: "hex_nat n = c # cs" using hex_nat_nonempty [of n] by (cases "hex_nat n") auto
  have c: "isxdigit c" "\<not> isspace c" "c \<noteq> CHR ''-''" "c \<noteq> CHR ''+''"
    using ok [of c] hex_ok_plain by (auto simp: h)
  have sp: "dropWhile isspace (SPC # ?h) = ?h"
    using c(2) by (simp add: h) (simp add: isspace_def)
  have x: "take 2 ?h \<notin> {''0x'', ''0X''}"
    using ok hex_ok_plain by (cases cs) (auto simp: h)
  have tw: "takeWhile isxdigit ?h = hex_nat n"
    using ok hex_ok_plain by (auto simp: takeWhile_append isxdigit_def isdigit_def)
  have hd: "hd ?h \<noteq> CHR ''-''" "hd ?h \<noteq> CHR ''+''" using c by (simp_all add: h)
  have big: "\<not> ULONG \<le> int n" using assms by (simp add: ULONG_def)
  show ?thesis
    unfolding scan_hex_def sp Let_def
    by (simp only: hd x tw big hex_value_nat hex_nat_nonempty simp_thms if_False if_True)
qed


lemma length_dec_nat: "n < 10 ^ Suc k \<Longrightarrow> length (dec_nat n) \<le> Suc k"
proof (induction k arbitrary: n)
  case (Suc k)
  have "n div 10 < 10 ^ Suc k" using Suc.prems by (simp add: less_mult_imp_div_less)
  from Suc.IH [OF this] show ?case by (subst dec_nat.simps) simp
qed (simp add: dec_nat.simps)

lemma length_hex_nat: "n < 16 ^ Suc k \<Longrightarrow> length (hex_nat n) \<le> Suc k"
proof (induction k arbitrary: n)
  case (Suc k)
  have "n div 16 < 16 ^ Suc k" using Suc.prems by (simp add: less_mult_imp_div_less)
  from Suc.IH [OF this] show ?case by (subst hex_nat.simps) simp
qed (simp add: hex_nat.simps)

text \<open>An entry whose numbers are those of C.\<close>

definition entry_ok :: "pfe \<Rightarrow> bool" where
  "entry_ok p \<longleftrightarrow> 0 \<le> item_no p \<and> item_no p \<le> INT_MAX \<and> 0 \<le> resp_no p \<and> resp_no p \<le> INT_MAX \<and> in_long (date p)"

definition saved :: "pfe \<Rightarrow> pfe" where
  "saved p = p\<lparr>old_resp_no := resp_no p, delete := False\<rparr>"

lemma s64_mod: "in_long d \<Longrightarrow> s64 (d mod ULONG) = d"
  unfolding s64_def wrap_def ULONG_def in_long_def LONG_MAX_def LONG_MIN_def by (simp add: mod_add_left_eq)

lemma dec_nonneg: "0 \<le> x \<Longrightarrow> dec x = dec_nat (nat x)"
  by (simp add: dec_def)

lemma digit_plain: "isdigit c \<Longrightarrow> c \<noteq> SPC \<and> c \<noteq> CHR ''-'' \<and> c \<noteq> NL \<and> c \<noteq> NUL \<and> isascii c"
  by (auto simp: isdigit_def isascii_def)

lemma dec_nat_plain: "c \<in> set (dec_nat n) \<Longrightarrow> isdigit c \<and> c \<noteq> SPC \<and> c \<noteq> CHR ''-'' \<and> c \<noteq> NL \<and> c \<noteq> NUL"
  using dec_nat_digits [of n] digit_plain [of c] by blast

lemma read_entry_text:
  assumes "entry_ok p"
  shows "read_entry (entry_text p) = Some (saved p)"
proof -
  let ?i = "dec_nat (nat (item_no p))" and ?r = "dec_nat (nat (resp_no p))"
  let ?h = "SPC # hex_nat (nat (date p mod ULONG)) @ ''\<newline>''"
  let ?b = "(if forgotten p then ''-'' else []) @ ?r @ ?h"
  have ok: "0 \<le> item_no p" "0 \<le> resp_no p" "item_no p \<le> INT_MAX" "resp_no p \<le> INT_MAX" "in_long (date p)"
    using assms by (simp_all add: entry_ok_def)
  have t: "entry_text p = ?i @ SPC # ?b"
    using ok by (simp add: entry_text_def dec_nonneg hex_text_def)
  have num: "numeric (entry_text p)"
    using hd_dec_nat [of "nat (item_no p)" "SPC # ?b"] digit_plain by (simp add: t numeric_def)
  have long: "in_long (item_no p)" "in_long (resp_no p)"
    using ok by (simp_all add: in_long_def LONG_MIN_def LONG_MAX_def INT_MAX_def)
  have "strtol10 (dec (item_no p) @ SPC # ?b) = Some (item_no p, SPC # ?b)"
    using long by (intro strtol10_dec) (simp_all add: isdigit_def)
  then have item: "atoi (entry_text p) = item_no p"
    using ok by (simp add: t dec_nonneg atoi_def atol_def s32_id INT_MAX_def)
  have out: "firstout (SPC # ?b) '' '' = ?b"
    using hd_dec_nat [of "nat (resp_no p)" ?h] digit_plain
    by (cases ?r) (auto simp: firstout_def)
  have into: "firstin (entry_text p) '' '' = SPC # ?b"
    using dec_nat_plain by (auto simp: t firstin_def dropWhile_append)
  have "scan_long (dec (resp_no p) @ ?h) = ScanOk (resp_no p) ?h"
    using long by (intro scan_long_dec) (simp_all add: isdigit_def)
  then have resp: "scan_int (?r @ ?h) = ScanOk (resp_no p) ?h"
    using ok by (simp add: dec_nonneg scan_int_def s32_id INT_MAX_def)
  have "nat (date p mod ULONG) < 2 ^ 64" by (simp add: ULONG_def nat_less_iff)
  from scan_hex_text [OF this] have hex: "scan_hex ?h = Some (date p mod ULONG)"
    by (simp add: ULONG_def)
  have hd: "hd (?r @ ?h) \<noteq> CHR ''-''"
    using hd_dec_nat [of "nat (resp_no p)" ?h] digit_plain by blast
  show ?thesis
    using hd resp hex num
    by (simp add: read_entry_def into out item saved_def s64_mod ok Let_def)
qed

lemma entry_text_line:
  assumes "entry_ok p"
  obtains l where "entry_text p = l @ [NL]" "NL \<notin> set l" "NUL \<notin> set l" "length l < BFSZ - 1"
proof -
  let ?l = "dec (item_no p) @ (if forgotten p then '' -'' else '' '') @ dec (resp_no p) @ '' '' @ hex_text (date p)"
  have ok: "0 \<le> item_no p" "0 \<le> resp_no p" "item_no p \<le> INT_MAX" "resp_no p \<le> INT_MAX"
    using assms by (simp_all add: entry_ok_def)
  have "nat (date p mod ULONG) < 16 ^ Suc 15" by (simp add: ULONG_def nat_less_iff)
  from length_hex_nat [OF this] have "length (hex_text (date p)) \<le> 16" by (simp add: hex_text_def)
  moreover have dec: "length (dec x) \<le> 10" if "0 \<le> x" "x \<le> INT_MAX" for x
    using length_dec_nat [of "nat x" 9] that by (simp add: dec_nonneg INT_MAX_def)
  have "length (dec (item_no p)) \<le> 10" "length (dec (resp_no p)) \<le> 10" using ok dec by blast+
  ultimately have "length ?l < BFSZ - 1" by (simp add: BFSZ_def)
  moreover have "NL \<notin> set ?l" "NUL \<notin> set ?l"
    using ok dec_nat_plain hex_nat_ok [of "nat (date p mod ULONG)"] hex_ok_plain
    by (auto simp: dec_nonneg hex_text_def)
  ultimately show ?thesis by (intro that [of ?l]) (simp_all add: entry_text_def)
qed


lemma pieces_entries:
  "\<forall>p \<in> set ps. entry_ok p \<Longrightarrow> pieces (BFSZ - 1) (concat (map entry_text ps)) = map entry_text ps"
proof (induction ps)
  case (Cons p ps)
  then obtain l where l: "entry_text p = l @ [NL]" "NL \<notin> set l" "length l < BFSZ - 1"
    using entry_text_line [of p] by (metis list.set_intros(1))
  with Cons pieces_line [OF l(2,3), of "concat (map entry_text ps)"] show ?case by simp
qed simp

lemma cstr_entry: "entry_ok p \<Longrightarrow> cstr (entry_text p) = entry_text p"
  by (erule entry_text_line) (auto intro!: cstr_id)

lemma read_entries_texts:
  "\<forall>p \<in> set ps. entry_ok p \<Longrightarrow> read_entries e acc (map entry_text ps) s =
     (Ret (), if acc = [] \<and> ps = [] then s else s\<lparr>pflist := acc @ map saved ps\<rparr>)"
proof (induction ps arbitrary: acc)
  case (Cons p ps)
  then show ?case by (simp add: read_entry_text)
qed (simp add: ret_def upd_def)

text \<open>A line without line ends and NULs that fits the buffer.\<close>

definition one_line :: "string \<Rightarrow> bool" where
  "one_line x \<longleftrightarrow> NL \<notin> set x \<and> NUL \<notin> set x \<and> length x < BFSZ - 1"

lemma pfload_text:
  assumes al: "one_line al" and ps: "\<forall>p \<in> set ps. \<not> delete p \<longrightarrow> entry_ok p" and s: "pflist s = []"
  shows "pfload e (pf_text al ps) s = (Ret (), s\<lparr>alias_name := al,
     pflist := map saved (filter (\<lambda>p. \<not> delete p) ps), no_pf := False\<rparr>)"
proof -
  let ?ps = "filter (\<lambda>p. \<not> delete p) ps" and ?f = "pf_text al ps"
  have ok: "\<forall>p \<in> set ?ps. entry_ok p" using ps by simp
  have "pieces (BFSZ - 1) (''!<pr03>'' @ NL # al @ NL # concat (map entry_text ?ps)) =
      (''!<pr03>'' @ [NL]) # (al @ [NL]) # map entry_text ?ps"
    using al pieces_line [of "''!<pr03>''" "BFSZ - 1" "al @ NL # concat (map entry_text ?ps)"]
      pieces_line [of al "BFSZ - 1" "concat (map entry_text ?ps)"] pieces_entries [OF ok]
    by (simp add: one_line_def BFSZ_def)
  then have p: "map cstr (pieces (BFSZ - 1) ?f) = ''!<pr03>\<newline>'' # (al @ [NL]) # map entry_text ?ps"
    using al ok cstr_entry by (simp add: pf_text_def one_line_def cstr_id)
  have a: "skip_in (al @ [NL]) ''\<newline>'' = al"
    using al by (auto simp: skip_in_def one_line_def takeWhile_append takeWhile_eq_all_conv)
  have "s\<lparr>alias_name := al, pflist := [], no_pf := False\<rparr> = s\<lparr>alias_name := al, no_pf := False\<rparr>"
    using s by (cases s) simp
  then show ?thesis
    unfolding pfload_def p using read_entries_texts [OF ok, of e "[]" "s\<lparr>alias_name := al\<rparr>"]
    by (auto simp: a sq_def bnd_def upd_def)
qed

text \<open>
  Writing the participation file and reading it again gives back every entry that was not marked
  for deletion, with its item, how far it was read, whether it was forgotten and when, and makes the
  number of responses read the one a reset goes back to.
\<close>

theorem participation_reads_back:
  assumes "\<not> no_pf s" "writable e (filename s)" "one_line (alias_name s)"
    and "\<forall>p \<in> set (pflist s). \<not> delete p \<longrightarrow> entry_ok p"
    and "filename s = pf_path e name"
  shows "sq (pfwrite e) (pfread e name) s = (Ret 0, s\<lparr>
     disk := (disk s)(filename s \<mapsto> pf_text (alias_name s) (pflist s)),
     pflist := map saved (filter (\<lambda>p. \<not> delete p) (pflist s))\<rparr>)"
proof -
  let ?t = "s\<lparr>disk := (disk s)(filename s \<mapsto> pf_text (alias_name s) (pflist s)), pflist := []\<rparr>"
  have w: "pfwrite e s = (Ret (), ?t)"
    using assms(1,2) by (simp add: pfwrite_def bnd_def gets_def upd_def)
  have "?t\<lparr>filename := pf_path e name\<rparr> = ?t" using assms(5) by (cases s) simp
  then have f: "fullpfpath e name ?t = (Ret (), ?t)" by (simp only: fullpfpath_def upd_def)
  have l: "pfload e (pf_text (alias_name s) (pflist s)) ?t = (Ret (), s\<lparr>
     disk := (disk s)(filename s \<mapsto> pf_text (alias_name s) (pflist s)),
     pflist := map saved (filter (\<lambda>p. \<not> delete p) (pflist s))\<rparr>)"
    using pfload_text [OF assms(3,4), of ?t e] assms(1) by (cases s) simp
  show ?thesis
    unfolding pfread_def
    by (rule sq_then, rule w, rule sq_then, rule f, rule bnd_then, rule gets_run)
       (simp add: sq_def bnd_def l ret_def)
qed


theorem participation_reads_back_witness:
  "let s = sample_pico\<lparr>filename := pf_path sample_reader ''cf''\<rparr> in
   map resp_no (pflist (snd (sq (pfwrite sample_reader) (pfread sample_reader ''cf'') s))) = [4, 1, 0]"
proof -
  let ?s = "sample_pico\<lparr>filename := pf_path sample_reader ''cf''\<rparr>"
  have "\<not> no_pf ?s" "writable sample_reader (filename ?s)" "one_line (alias_name ?s)"
    "\<forall>p \<in> set (pflist ?s). \<not> delete p \<longrightarrow> entry_ok p" "filename ?s = pf_path sample_reader ''cf''"
    by (simp_all add: sample_pico_simps one_line_def entry_ok_def in_long_def LONG_MAX_def LONG_MIN_def INT_MAX_def BFSZ_def)
  from participation_reads_back [OF this] show ?thesis by (simp add: sample_pico_simps saved_def)
qed

end
