(* ===== verification/BbsSumProps.thy ===== *)
theory BbsSumProps
  imports BbsProps
begin

text \<open>
  Reading the sum file: the steps forwards and backwards over the bytes are steps over the list of its
  records, and where a reading backwards starts.
\<close>

section \<open>The records of a file\<close>

definition record_at :: "nat \<Rightarrow> nat" where "record_at k = HEADSIZE + sume_size * k"

definition records :: "string \<Rightarrow> nat" where "records f = (length f - HEADSIZE) div sume_size"

definition rec_of :: "string \<Rightarrow> nat \<Rightarrow> sume" where "rec_of f k = sume_of (drop (record_at k) f)"

lemma record_at_simps: "record_at k + sume_size = record_at (Suc k)" "record_at k < record_at (Suc k)"
  by (simp_all add: record_at_def sume_size_def)

lemma record_in_file: "record_at k + sume_size \<le> length f \<longleftrightarrow> k < records f"
  by (auto simp: record_at_def records_def sume_size_def HEADSIZE_def)

lemma read_sume_at:
  "read_sume f (record_at k) = (if k < records f then (Some (rec_of f k), record_at (Suc k))
     else (None, max (record_at k) (length f)))"
  using record_in_file [of k f] by (simp add: read_sume_def rec_of_def record_at_simps)

lemma scan_up_finds:
  assumes "k \<le> j" "j < records f" "present_rec (rec_of f j)" "\<forall>m. k \<le> m \<and> m < j \<longrightarrow> \<not> present_rec (rec_of f m)"
  shows "scan_up f (record_at k) (int k + 1) = (Some (rec_of f j), record_at (Suc j), int j + 1)"
  using assms
proof (induction "j - k" arbitrary: k)
  case 0
  then show ?case by (subst scan_up.simps) (simp add: read_sume_at)
next
  case (Suc d)
  have "scan_up f (record_at (Suc k)) (int (Suc k) + 1) = (Some (rec_of f j), record_at (Suc j), int j + 1)"
    using Suc by (intro Suc.hyps(1)) auto
  moreover have "k < records f" "\<not> present_rec (rec_of f k)" using Suc by auto
  ultimately show ?case by (subst scan_up.simps) (simp add: read_sume_at add.commute)
qed

lemma scan_up_ends:
  assumes "k \<le> records f" "\<forall>m. k \<le> m \<and> m < records f \<longrightarrow> \<not> present_rec (rec_of f m)"
  shows "\<exists>q. scan_up f (record_at k) (int k + 1) = (None, q, int (records f) + 1)"
  using assms
proof (induction "records f - k" arbitrary: k)
  case 0
  then show ?case by (subst scan_up.simps) (simp add: read_sume_at)
next
  case (Suc d)
  have "\<exists>q. scan_up f (record_at (Suc k)) (int (Suc k) + 1) = (None, q, int (records f) + 1)"
    using Suc by (intro Suc.hyps(1)) auto
  moreover have "k < records f" "\<not> present_rec (rec_of f k)" using Suc by auto
  ultimately show ?case by (subst scan_up.simps) (simp add: read_sume_at add.commute)
qed

definition kept_entries :: "bool \<Rightarrow> int \<Rightarrow> int \<Rightarrow> pico \<Rightarrow> pfe list" where
  "kept_entries b lo hi s = (if \<not> b \<or> no_pf s \<or> hi < lo then pflist s
     else drop_entries False lo (if hi = -1 then INT_MAX else hi) (pflist s))"

lemma when_lost_run: "whenP b (lost_items lo hi) s = (Ret (), s\<lparr>pflist := kept_entries b lo hi s\<rparr>)"
  by (cases s) (simp add: whenP_def lost_items_def kept_entries_def upd_def ret_def)

text \<open>The file is open at the record of its current item.\<close>

definition sum_at :: "string \<Rightarrow> nat \<Rightarrow> pico \<Rightarrow> bool" where
  "sum_at f k s \<longleftrightarrow> sum_file s = Some f \<and> sum_pos s = record_at k \<and> sum_item s = int k + 1"

lemma sum_at_file: "sum_at f k s \<Longrightarrow> sum_file s = Some f"
  by (simp add: sum_at_def)

text \<open>
  C20: reading the sum file forwards gives the first item from the current one on that was not removed,
  with its number of responses, and leaves the file at the item after it; the entries of the removed
  items in between are marked for deletion in the participation file.
\<close>

theorem next_item_first_live:
  assumes "sum_at f k s" "k \<le> j" "j < records f" "present_rec (rec_of f j)"
    and "\<forall>m. k \<le> m \<and> m < j \<longrightarrow> \<not> present_rec (rec_of f m)" and "in_order (pflist s)"
  shows "\<exists>t. next_item lost_items s = (Ret (Some (int j + 1, s32 (s_resp_no (rec_of f j)))), t) \<and>
    sum_at f (Suc j) t \<and>
    (\<not> no_pf s \<longrightarrow> pflist t = map (\<lambda>p. if int k + 1 \<le> item_no p \<and> item_no p \<le> int j
       then p\<lparr>delete := True\<rparr> else p) (pflist s))"
proof -
  let ?ps = "kept_entries (int j + 1 \<noteq> sum_item s) (sum_item s) (int j + 1 - 1) s"
  let ?t = "s\<lparr>pflist := ?ps, sum_item := int j + 1 + 1, sum_pos := record_at (Suc j)\<rparr>"
  have scan: "scan_up f (sum_pos s) (sum_item s) = (Some (rec_of f j), record_at (Suc j), int j + 1)"
    using scan_up_finds [OF assms(2-5)] assms(1) by (simp add: sum_at_def)
  note lost = when_lost_run [of "int j + 1 \<noteq> sum_item s" "sum_item s" "int j + 1 - 1" s]
  have "next_item lost_items s = (Ret (Some (int j + 1, s32 (s_resp_no (rec_of f j)))), ?t)"
    unfolding next_item_def
    by (rule bnd_then, rule gets_run, simp only: id_apply sum_at_file [OF assms(1)] option.case scan prod.case,
        rule sq_then, rule lost, rule sq_then, rule upd_run) (simp add: ret_def)
  moreover have "sum_at f (Suc j) ?t" using assms(1) by (simp add: sum_at_def)
  moreover have "map (\<lambda>p. if int k + 1 \<le> item_no p \<and> item_no p \<le> int k then p\<lparr>delete := True\<rparr> else p) (pflist s)
      = pflist s"
    by (rule map_idI) auto
  then have "\<not> no_pf s \<longrightarrow> pflist ?t = map (\<lambda>p. if int k + 1 \<le> item_no p \<and> item_no p \<le> int j
       then p\<lparr>delete := True\<rparr> else p) (pflist s)"
    using drop_entries_map [OF assms(6)] assms(1,2) by (auto simp: kept_entries_def sum_at_def)
  ultimately show ?thesis by blast
qed

section \<open>Backwards\<close>

lemma offset_in_range: "1 \<le> n \<Longrightarrow> int (record_at (nat (n - 1))) \<le> LONG_MAX \<Longrightarrow>
    s64 (offset_of n) = int (record_at (nat (n - 1)))"
  using s64_mod [of "int sume_size * (n - 1) + int HEADSIZE"]
  by (simp add: offset_of_def record_at_def in_long_def LONG_MIN_def sume_size_def HEADSIZE_def add.commute)

lemma seek_pos_at: "1 \<le> n \<Longrightarrow> int (record_at (nat (n - 1))) \<le> LONG_MAX \<Longrightarrow> seek_pos p n = record_at (nat (n - 1))"
  by (simp add: seek_pos_def offset_in_range)

lemma record_at_mono: "j \<le> k \<Longrightarrow> record_at j \<le> record_at k"
  by (simp add: record_at_def)

lemma record_at_long: "k < records f \<Longrightarrow> int (length f) \<le> LONG_MAX \<Longrightarrow> j \<le> k \<Longrightarrow> int (record_at j) \<le> LONG_MAX"
  using record_in_file [of k f] record_at_mono [of j k] by simp

lemma scan_down_finds:
  assumes "int (length f) \<le> LONG_MAX" "j \<le> k" "k < records f" "present_rec (rec_of f j)"
    "\<forall>m. j < m \<and> m \<le> k \<longrightarrow> \<not> present_rec (rec_of f m)"
  shows "scan_down f (record_at k) (int k + 1) = (Back (rec_of f j), record_at (Suc j), int j + 1)"
  using assms(2-5)
proof (induction k)
  case 0
  then show ?case by (subst scan_down.simps) (simp add: read_sume_at)
next
  case (Suc k)
  show ?case
  proof (cases "j = Suc k")
    case True
    with Suc.prems show ?thesis by (subst scan_down.simps) (simp add: read_sume_at)
  next
    case False
    with Suc have IH: "scan_down f (record_at k) (int k + 1) = (Back (rec_of f j), record_at (Suc j), int j + 1)"
      by simp
    have "int (record_at k) \<le> LONG_MAX" using record_at_long [OF _ assms(1)] Suc.prems(2) by simp
    then have "seek_pos (record_at (Suc (Suc k))) (1 + int k) = record_at k"
      by (simp add: seek_pos_at)
    moreover have "\<not> present_rec (rec_of f (Suc k))" using Suc.prems False by simp
    ultimately show ?thesis
      using IH Suc.prems(2) by (subst scan_down.simps) (simp add: read_sume_at add.commute)
  qed
qed

text \<open>
  Reading the sum file backwards gives the last item up to the current one that was not removed, and
  leaves the file at the item before it.
\<close>

theorem prev_item_last_live:
  assumes "sum_at f k s" "int (length f) \<le> LONG_MAX" "j \<le> k" "k < records f" "present_rec (rec_of f j)"
    and "\<forall>m. j < m \<and> m \<le> k \<longrightarrow> \<not> present_rec (rec_of f m)"
  shows "\<exists>t. prev_item e lost_items s = (Ret (Some (int j + 1, s32 (s_resp_no (rec_of f j)))), t) \<and>
    sum_item t = int j \<and> (0 < j \<longrightarrow> sum_at f (j - 1) t)"
proof -
  let ?ps = "kept_entries (int j + 1 \<noteq> sum_item s) (int j + 1 + 1) (sum_item s) s"
  note lost = when_lost_run [of "int j + 1 \<noteq> sum_item s" "int j + 1 + 1" "sum_item s" s]
  have scan: "scan_down f (sum_pos s) (sum_item s) = (Back (rec_of f j), record_at (Suc j), int j + 1)"
    using scan_down_finds [OF assms(2-6)] assms(1) by (simp add: sum_at_def)
  let ?u = "s\<lparr>pflist := ?ps, sum_item := int j + 1 - 1, sum_pos := record_at (Suc j)\<rparr>"
  let ?t = "if 0 < j then ?u\<lparr>sum_pos := record_at (j - 1)\<rparr> else ?u"
  have "int (record_at (j - 1)) \<le> LONG_MAX" using record_at_long [OF assms(4,2)] assms(3) by simp
  then have seek: "whenP (0 < int j + 1 - 1) (seek_sum (int j + 1 - 1)) ?u = (Ret (), ?t)"
    by (auto simp: whenP_def seek_sum_def upd_def ret_def seek_pos_at nat_diff_distrib)
  have "prev_item e lost_items s = (Ret (Some (int j + 1, s32 (s_resp_no (rec_of f j)))), ?t)"
    unfolding prev_item_def
    by (rule bnd_then, rule gets_run, simp only: id_apply sum_at_file [OF assms(1)] option.case scan prod.case
          look_back.case, rule sq_then, rule lost, rule sq_then, rule upd_run, rule sq_then)
       (use seek in \<open>simp_all add: ret_def\<close>)
  then show ?thesis using assms(1) by (auto simp: sum_at_def)
qed

section \<open>Where a reading backwards starts\<close>

text \<open>
  \<open>seek_item(-1)\<close>, from which a reading in reverse starts, counts one item too few on a machine
  with 64-bit longs: with a sum file of at least one whole record the item it goes to is the last but
  one.
\<close>

theorem reverse_starts_early:
  assumes "sum_file s = Some f" "length f = HEADSIZE + sume_size * n" "1 \<le> n" "n < 2147483648"
  shows "\<exists>t. seek_item (-1) s = (Ret (), t) \<and> sum_item t = int n - 1"
proof -
  have size: "(int (length f) - 2 * int sume_size + int HEADSIZE) = 24 * (int n - 1) + 16"
    using assms(2) by (simp add: sume_size_def HEADSIZE_def)
  have small: "(24 * (int n - 1) + 16) mod ULONG = 24 * (int n - 1) + 16"
    using assms(3,4) by (intro mod_pos_pos_trivial) (simp_all add: ULONG_def)
  have "items_in (int (length f)) = int n - 1"
    unfolding items_in_def size small by (simp add: sume_size_def)
  then have "last_no f = int n - 1" using assms(3,4) by (simp add: last_no_def s32_id)
  then show ?thesis
    using assms(1) by (simp add: seek_item_def bnd_def gets_def sq_def upd_def seek_sum_def Let_def)
qed

text \<open>A sum file of three items, the second removed, and the reader at one of them.\<close>

definition sample_rec :: "nat \<Rightarrow> string" where
  "sample_rec n = [NUL, NUL, NUL, NUL, char_of n, NUL, NUL, NUL] @ replicate 16 NUL"

definition sample_sum :: string where
  "sample_sum = ''!<sm02>\<newline>'' @ replicate 12 NUL @ sample_rec 3 @ sample_rec 0 @ sample_rec 2"

definition sum_sample :: "nat \<Rightarrow> pico" where
  "sum_sample k = sample_pico\<lparr>sum_file := Some sample_sum, sum_pos := record_at k, sum_item := int k + 1\<rparr>"

lemma sample_sum_records:
  "records sample_sum = 3" "present_rec (rec_of sample_sum 0)" "\<not> present_rec (rec_of sample_sum 1)" "present_rec (rec_of sample_sum 2)"
  "s32 (s_resp_no (rec_of sample_sum 0)) = 3" "s32 (s_resp_no (rec_of sample_sum 2)) = 2"
  "length sample_sum = HEADSIZE + sume_size * 3" "int (length sample_sum) \<le> LONG_MAX"
  by code_simp+

lemma sum_sample_at: "sum_at sample_sum k (sum_sample k)"
  by (simp add: sum_at_def sum_sample_def)

theorem next_item_first_live_witness:
  "\<exists>t. next_item lost_items (sum_sample 1) = (Ret (Some (3, 2)), t) \<and> sum_at sample_sum 3 t"
proof -
  have "\<forall>m. 1 \<le> m \<and> m < 2 \<longrightarrow> \<not> present_rec (rec_of sample_sum m)"
    using sample_sum_records(3) by (auto simp: less_2_cases_iff)
  moreover have "in_order (pflist (sum_sample 1))" by (simp add: sum_sample_def sample_pico_simps)
  ultimately show ?thesis
    using next_item_first_live [OF sum_sample_at, of 1 2] sample_sum_records by (auto simp: numeral_3_eq_3)
qed

theorem prev_item_last_live_witness:
  "\<exists>t. prev_item sample_reader lost_items (sum_sample 1) = (Ret (Some (1, 3)), t) \<and> sum_item t = 0"
proof -
  have "\<forall>m. 0 < m \<and> m \<le> (1::nat) \<longrightarrow> \<not> present_rec (rec_of sample_sum m)"
    using sample_sum_records(3) by (metis One_nat_def le_Suc_eq le_zero_eq less_numeral_extra(3))
  then show ?thesis
    using prev_item_last_live [OF sum_sample_at sample_sum_records(8), of 0 1 sample_reader] sample_sum_records
    by auto
qed

theorem reverse_starts_early_witness:
  "\<exists>t. seek_item (-1) (sum_sample 0) = (Ret (), t) \<and> sum_item t = 2"
  using reverse_starts_early [OF _ sample_sum_records(7), of "sum_sample 0"] by (simp add: sum_sample_def)

end
