(* ===== verification/BbsShow.thy ===== *)
theory BbsShow
  imports BbsSumProps
begin

text \<open>
  What the display of an item shows: for an item file made of an item and its responses, the header, the
  responses of the range asked for and nothing else.
\<close>

section \<open>Item files\<close>

record posting =
  p_uid :: int
  p_login :: string
  p_name :: string
  p_date :: int
  p_lines :: "string list"

definition posting_lines :: "posting \<Rightarrow> string list" where
  "posting_lines p = [''R0000'', CHR ''U'' # dec (p_uid p) @ CHR '','' # p_login p, CHR ''A'' # p_name p,
     CHR ''D'' # hex_text (p_date p), ''T'']"

text \<open>The lines without their ends.\<close>

definition posting_text :: "posting \<Rightarrow> string list" where
  "posting_text p = map ((#) (CHR '','')) (posting_lines p) @ p_lines p @ ['',E'']"

definition item_lines :: "string \<Rightarrow> posting list \<Rightarrow> string list" where
  "item_lines t ps = ''!<ps02>'' # ('',H'' @ t) # concat (map posting_text ps)"

definition file_of :: "string list \<Rightarrow> string" where
  "file_of ls = concat (map (\<lambda>l. l @ [NL]) ls)"

definition text_line :: "string \<Rightarrow> bool" where
  "text_line l \<longleftrightarrow> NL \<notin> set l \<and> NUL \<notin> set l \<and> length l < 1020"

definition posting_ok :: "posting \<Rightarrow> bool" where
  "posting_ok p \<longleftrightarrow> 0 \<le> p_uid p \<and> p_uid p \<le> INT_MAX \<and> text_line (p_login p) \<and> length (p_login p) < 9
     \<and> text_line (p_name p) \<and> in_long (p_date p)
     \<and> (\<forall>l \<in> set (p_lines p). text_line l \<and> (l = [] \<or> hd l \<noteq> CHR '',''))"

lemma pieces_file: "\<forall>l \<in> set ls. NL \<notin> set l \<and> length l < k \<Longrightarrow> pieces k (file_of ls) = map (\<lambda>l. l @ [NL]) ls"
  by (induction ls) (simp_all add: file_of_def pieces_line)

section \<open>What is shown\<close>

definition body_text :: "posting \<Rightarrow> string" where
  "body_text p = concat (map (\<lambda>l. '' '' @ l @ ''\<newline>'') (p_lines p))"

definition item_title :: "pico_env \<Rightarrow> int \<Rightarrow> string \<Rightarrow> posting \<Rightarrow> string" where
  "item_title e n t p = ''Item #'' @ dec n @ '' entered by '' @ p_name p @ ''('' @ p_login p @ '') on ''
     @ ctime e (p_date p) @ '' '' @ t @ ''\<newline>\<newline>''"

definition reply_title :: "pico_env \<Rightarrow> int \<Rightarrow> posting \<Rightarrow> string" where
  "reply_title e i p = ''#'' @ dec i @ '' '' @ p_name p @ ''('' @ p_login p @ '') on ''
     @ pad_left 24 (take 24 (ctime e (p_date p))) @ '':\<newline>''"

text \<open>The responses from number \<open>i\<close> on that \<open>w\<close> selects.\<close>

fun replies :: "pico_env \<Rightarrow> (int \<Rightarrow> bool) \<Rightarrow> int \<Rightarrow> posting list \<Rightarrow> string" where
  "replies e w i [] = []"
| "replies e w i (p # ps) = (if w i then reply_title e i p @ body_text p else []) @ replies e w (i + 1) ps"

section \<open>Runs of lines\<close>

fun run_lines :: "pico_env \<Rightarrow> request \<Rightarrow> showing \<Rightarrow> string list \<Rightarrow> (showing \<times> string) option" where
  "run_lines e q d [] = Some (d, [])"
| "run_lines e q d (l # ls) = (case item_line e q d (l @ [NL]) of
     Go d1 o1 \<Rightarrow> map_option (\<lambda>(d2, o2). (d2, o1 @ o2)) (run_lines e q d1 ls)
   | _ \<Rightarrow> None)"

lemma run_lines_append:
  "run_lines e q d ls = Some (d1, o1) \<Longrightarrow> run_lines e q d1 ms = Some (d2, o2) \<Longrightarrow>
   run_lines e q d (ls @ ms) = Some (d2, o1 @ o2)"
  by (induction ls arbitrary: d o1) (auto split: step.splits)

lemma show_run_lines:
  "run_lines e q d ls = Some (d1, o1) \<Longrightarrow>
   show_lines e q d (map (\<lambda>l. l @ [NL]) ls) s = (Ret (i_resp d1 - 1), s\<lparr>tout := tout s @ o1\<rparr>)"
proof (induction ls arbitrary: d o1 s)
  case (Cons l ls)
  from Cons.prems obtain d2 o2 o3 where st: "item_line e q d (l @ [NL]) = Go d2 o2"
    "run_lines e q d2 ls = Some (d1, o3)" "o1 = o2 @ o3"
    by (auto split: step.splits)
  from Cons.IH [OF st(2), of "s\<lparr>tout := tout s @ o2\<rparr>"] show ?case
    by (simp add: st(1,3) sq_def bnd_def puts_run)
qed (simp add: ret_def)

section \<open>Single lines\<close>

lemma cstr_over: "NUL \<notin> set l \<Longrightarrow> cstr (l @ NUL # r) = l"
  by (simp add: cstr_def takeWhile_append takeWhile_eq_all_conv)

lemma copyto_over: "NL \<notin> set l \<Longrightarrow> NUL \<notin> set l \<Longrightarrow> length l < n \<Longrightarrow> copyto (l @ NL # r) NL n = Some l"
  by (simp add: copyto_def split_at_append cstr_id)

lemma comma_item_line:
  "item_line e q d ((CHR '','' # k # l) @ [NL]) =
     comma_line e q (d\<lparr>i_buf := over (CHR '','' # k # l @ [NL]) (i_buf d)\<rparr>) k
       (l @ NL # NUL # drop (Suc (Suc (Suc (Suc (length l))))) (i_buf d))"
  by (simp add: item_line_def over_def)

lemma text_item_line:
  assumes "text_line l" "l = [] \<or> hd l \<noteq> CHR '',''"
  shows "item_line e q d (l @ [NL]) = show_text (d\<lparr>i_buf := over (l @ [NL]) (i_buf d)\<rparr>) (l @ [NL])"
proof -
  have "cstr (over (l @ [NL]) r) = l @ [NL]" for r
    using assms(1) cstr_over [of "l @ [NL]"] by (simp add: over_def text_line_def)
  moreover have "hd (over (l @ [NL]) r) \<noteq> CHR '',''" for r
    using assms(2) by (cases l) (simp_all add: over_def)
  ultimately show ?thesis by (simp add: item_line_def)
qed

lemma hex_text_plain: "c \<in> set (hex_text v) \<Longrightarrow> isxdigit c \<and> c \<noteq> NL \<and> c \<noteq> NUL"
  using hex_nat_ok [of "nat (v mod ULONG)"] hex_ok_plain [of c] by (auto simp: hex_text_def)

lemma atolh_hex_text: "in_long v \<Longrightarrow> s64 (atolh (hex_text v @ [NL])) = v"
proof -
  assume v: "in_long v"
  have "takeWhile isxdigit (hex_text v @ [NL]) = hex_text v"
    using hex_text_plain by (auto simp: takeWhile_append isxdigit_def isdigit_def)
  moreover have "hex_value 0 (hex_text v) = v mod ULONG"
    by (simp add: hex_text_def hex_value_nat ULONG_def)
  ultimately show ?thesis using v by (simp add: atolh_def s64_mod)
qed

lemma user_line_text:
  assumes "posting_ok p"
  shows "user_line d (dec (p_uid p) @ CHR '','' # p_login p @ NL # NUL # r) =
    Go (d\<lparr>uid := p_uid p, login := p_login p\<rparr>) []"
proof -
  let ?u = "dec (p_uid p)" and ?l = "p_login p"
  have ok: "0 \<le> p_uid p" "p_uid p \<le> INT_MAX" "NL \<notin> set ?l" "NUL \<notin> set ?l" "length ?l < 9"
    using assms by (simp_all add: posting_ok_def text_line_def)
  have u: "NUL \<notin> set ?u" "CHR '','' \<notin> set ?u"
    using ok(1) dec_nat_digits [of "nat (p_uid p)"] by (auto simp: dec_nonneg isdigit_def)
  have c: "cstr (?u @ CHR '','' # ?l @ NL # NUL # r) = ?u @ CHR '','' # ?l @ [NL]"
    using cstr_over [of "?u @ CHR '','' # ?l @ [NL]" r] u(1) ok(4) by simp
  have long: "in_long (p_uid p)" using ok(1,2) by (simp add: in_long_def LONG_MIN_def LONG_MAX_def INT_MAX_def)
  have a: "atoi (?u @ CHR '','' # ?l @ [NL]) = p_uid p"
    using strtol10_dec [OF long, of "CHR '','' # ?l @ [NL]"] ok(1,2)
    by (simp add: isdigit_def atoi_def atol_def s32_id INT_MAX_def)
  show ?thesis
    unfolding user_line_def c a
    using split_at_append [OF u(2), of "?l @ [NL]"] copyto_over [OF ok(3-5), of "NUL # r"] by simp
qed


section \<open>The lines of a posting\<close>

lemma short_comma_line:
  "item_line e q d [CHR '','', k, NL] =
     comma_line e q (d\<lparr>i_buf := over [CHR '','', k, NL] (i_buf d)\<rparr>) k (NL # NUL # drop 4 (i_buf d))"
  using comma_item_line [of e q d k "[]"] by (simp add: numeral_eq_Suc)

lemma line_R:
  "didE d \<Longrightarrow> \<exists>b. item_line e q d ('',R0000'' @ [NL]) = Go (d\<lparr>i_buf := b, scribbled := False\<rparr>) []"
  using comma_item_line [of e q d "CHR ''R''" "''0000''"] by (auto simp: comma_line_def)

lemma line_U:
  assumes "posting_ok p"
  shows "\<exists>b. item_line e q d ((CHR '','' # CHR ''U'' # dec (p_uid p) @ CHR '','' # p_login p) @ [NL]) =
    Go (if printing d then d\<lparr>i_buf := b, uid := p_uid p, login := p_login p\<rparr> else d\<lparr>i_buf := b\<rparr>) []"
  using user_line_text [OF assms]
  unfolding comma_item_line by (auto simp: comma_line_def)

lemma line_A:
  assumes "text_line n"
  shows "\<exists>b. item_line e q d ((CHR '','' # CHR ''A'' # n) @ [NL]) =
    Go (if printing d then d\<lparr>i_buf := b, fullname := n\<rparr> else d\<lparr>i_buf := b\<rparr>) []"
proof -
  have "copyto (n @ NL # r) NL BFSZ = Some n" for r
    using assms by (intro copyto_over) (auto simp: text_line_def BFSZ_def)
  then show ?thesis unfolding comma_item_line by (auto simp: comma_line_def)
qed

lemma line_H:
  assumes "text_line n" "printing d"
  shows "\<exists>b. item_line e q d ((CHR '','' # CHR ''H'' # n) @ [NL]) = Go (d\<lparr>i_buf := b, title := n\<rparr>) []"
proof -
  have "copyto (n @ NL # r) NL BFSZ = Some n" for r
    using assms(1) by (intro copyto_over) (auto simp: text_line_def BFSZ_def)
  then show ?thesis unfolding comma_item_line using assms(2) by (auto simp: comma_line_def)
qed

lemma line_T: "\<exists>b. item_line e q d ('',T'' @ [NL]) =
    Go (d\<lparr>i_buf := b, thisversion := \<not> gotversion d, didE := False\<rparr>) []"
  using short_comma_line [of e q d "CHR ''T''"] by (auto simp: comma_line_def)

lemma line_E: "\<exists>b. item_line e q d ('',E'' @ [NL]) = end_entry q (d\<lparr>i_buf := b\<rparr>)"
  using short_comma_line [of e q d "CHR ''E''"] by (auto simp: comma_line_def)

lemma line_D:
  assumes "in_long v"
  shows "\<exists>b. item_line e q d ((CHR '','' # CHR ''D'' # hex_text v) @ [NL]) =
    (if printing d then date_line e q (d\<lparr>i_buf := b\<rparr>) (hex_text v @ [NL]) else Go (d\<lparr>i_buf := b\<rparr>) [])"
proof -
  have "cstr (hex_text v @ NL # NUL # r) = hex_text v @ [NL]" for r
    using cstr_over [of "hex_text v @ [NL]" r] hex_text_plain by auto
  then show ?thesis unfolding comma_item_line by (auto simp: comma_line_def)
qed

lemma body_shown:
  assumes "printing d" "\<not> scribbled d" "thisversion d" "\<forall>l \<in> set ls. text_line l \<and> (l = [] \<or> hd l \<noteq> CHR '','')"
  shows "\<exists>b g. run_lines e q d ls = Some (d\<lparr>i_buf := b, gotversion := g\<rparr>, concat (map (\<lambda>l. '' '' @ l @ ''\<newline>'') ls))"
  using assms
proof (induction ls arbitrary: d)
  case Nil
  then show ?case by (intro exI [of _ "i_buf d"] exI [of _ "gotversion d"]) simp
next
  case (Cons l ls)
  let ?d = "d\<lparr>i_buf := over (l @ [NL]) (i_buf d), gotversion := True\<rparr>"
  have l: "item_line e q d (l @ [NL]) = Go ?d ('' '' @ l @ [NL])"
    using Cons.prems text_item_line [of l e q d] by (simp add: show_text_def)
  from Cons.IH [of ?d] Cons.prems obtain b g where
    "run_lines e q ?d ls = Some (?d\<lparr>i_buf := b, gotversion := g\<rparr>, concat (map (\<lambda>l. '' '' @ l @ ''\<newline>'') ls))"
    by auto
  with l show ?case by (intro exI [of _ b] exI [of _ g]) simp
qed

lemma body_hidden:
  assumes "\<not> printing d" "\<forall>l \<in> set ls. text_line l \<and> (l = [] \<or> hd l \<noteq> CHR '','')"
  shows "\<exists>b. run_lines e q d ls = Some (d\<lparr>i_buf := b\<rparr>, [])"
  using assms
proof (induction ls arbitrary: d)
  case Nil
  then show ?case by (intro exI [of _ "i_buf d"]) simp
next
  case (Cons l ls)
  let ?d = "d\<lparr>i_buf := over (l @ [NL]) (i_buf d)\<rparr>"
  have l: "item_line e q d (l @ [NL]) = Go ?d []"
    using Cons.prems text_item_line [of l e q d] by (simp add: show_text_def)
  from Cons.IH [of ?d] Cons.prems obtain b where "run_lines e q ?d ls = Some (?d\<lparr>i_buf := b\<rparr>, [])" by auto
  with l show ?case by (intro exI [of _ b]) simp
qed

text \<open>Between two postings.\<close>

definition between :: "request \<Rightarrow> int \<Rightarrow> showing \<Rightarrow> bool" where
  "between q n d \<longleftrightarrow> fullname d = [] \<and> login d = [] \<and> uid d = -1 \<and> i_resp d = n \<and> didE d \<and>
     printing d = (q_first q \<le> n \<and> n \<le> q_last q)"

lemma posting_end:
  assumes "i_resp d = n" "n \<noteq> 0" "uid d = -1 \<longrightarrow> fullname d = [] \<and> login d = []"
  shows "\<exists>d1. run_lines e q d ['',E''] = Some (d1, []) \<and> between q (n + 1) d1"
  using line_E [of e q d] assms by (auto simp: end_entry_def between_def Let_def)


lemma run_line: "item_line e q d (l @ [NL]) = Go d1 o1 \<Longrightarrow> run_lines e q d1 ls = Some (d2, o2) \<Longrightarrow>
    run_lines e q d (l # ls) = Some (d2, o1 @ o2)"
  by simp

lemma head_hidden:
  assumes "\<not> printing d" "didE d" "posting_ok p"
  shows "\<exists>b g. run_lines e q d (map ((#) (CHR '','')) (posting_lines p)) =
    Some (d\<lparr>i_buf := b, scribbled := False, thisversion := g, didE := False\<rparr>, [])"
proof -
  obtain b1 where 1: "item_line e q d ('',R0000'' @ [NL]) = Go (d\<lparr>i_buf := b1, scribbled := False\<rparr>) []"
    (is "_ = Go ?d1 _") using line_R [OF assms(2)] by blast
  obtain b2 where 2: "item_line e q ?d1 ((CHR '','' # CHR ''U'' # dec (p_uid p) @ CHR '','' # p_login p) @ [NL])
      = Go (?d1\<lparr>i_buf := b2\<rparr>) []" (is "_ = Go ?d2 _")
    using line_U [OF assms(3), of e q ?d1] assms(1) by auto
  have "text_line (p_name p)" using assms(3) by (simp add: posting_ok_def)
  from line_A [OF this, of e q ?d2] obtain b3 where
    3: "item_line e q ?d2 ((CHR '','' # CHR ''A'' # p_name p) @ [NL]) = Go (?d2\<lparr>i_buf := b3\<rparr>) []" (is "_ = Go ?d3 _")
    using assms(1) by auto
  have "in_long (p_date p)" using assms(3) by (simp add: posting_ok_def)
  from line_D [OF this, of e q ?d3] obtain b4 where
    4: "item_line e q ?d3 ((CHR '','' # CHR ''D'' # hex_text (p_date p)) @ [NL]) = Go (?d3\<lparr>i_buf := b4\<rparr>) []"
    (is "_ = Go ?d4 _") using assms(1) by auto
  obtain b5 where 5: "item_line e q ?d4 ('',T'' @ [NL]) =
      Go (?d4\<lparr>i_buf := b5, thisversion := \<not> gotversion ?d4, didE := False\<rparr>) []" (is "_ = Go ?d5 _")
    using line_T [of e q ?d4] by blast
  have "run_lines e q d (map ((#) (CHR '','')) (posting_lines p)) = Some (?d5, [] @ [] @ [] @ [] @ [] @ [])"
    unfolding posting_lines_def list.map
    by (rule run_line, rule 1, rule run_line, rule 2, rule run_line, rule 3, rule run_line, rule 4,
        rule run_line, rule 5, rule run_lines.simps)
  then show ?thesis by (intro exI [of _ b5] exI [of _ "\<not> gotversion ?d4"]) simp
qed

lemma head_shown:
  assumes "printing d" "didE d" "posting_ok p"
    and "\<And>b. date_line e q (d\<lparr>i_buf := b, scribbled := False, uid := p_uid p, login := p_login p,
        fullname := p_name p\<rparr>) (hex_text (p_date p) @ [NL]) =
      Go (d\<lparr>i_buf := b, scribbled := False, uid := p_uid p, login := p_login p, fullname := p_name p,
        i_date := p_date p, thisversion := h, gotversion := False, printing := pr\<rparr>) out"
  shows "\<exists>b. run_lines e q d (map ((#) (CHR '','')) (posting_lines p)) =
    Some (d\<lparr>i_buf := b, scribbled := False, uid := p_uid p, login := p_login p, fullname := p_name p,
      i_date := p_date p, gotversion := False, printing := pr, thisversion := True, didE := False\<rparr>, out)"
proof -
  obtain b1 where 1: "item_line e q d ('',R0000'' @ [NL]) = Go (d\<lparr>i_buf := b1, scribbled := False\<rparr>) []"
    (is "_ = Go ?d1 _") using line_R [OF assms(2)] by blast
  obtain b2 where 2: "item_line e q ?d1 ((CHR '','' # CHR ''U'' # dec (p_uid p) @ CHR '','' # p_login p) @ [NL])
      = Go (?d1\<lparr>i_buf := b2, uid := p_uid p, login := p_login p\<rparr>) []" (is "_ = Go ?d2 _")
    using line_U [OF assms(3), of e q ?d1] assms(1) by auto
  have "text_line (p_name p)" using assms(3) by (simp add: posting_ok_def)
  from line_A [OF this, of e q ?d2] obtain b3 where
    3: "item_line e q ?d2 ((CHR '','' # CHR ''A'' # p_name p) @ [NL]) = Go (?d2\<lparr>i_buf := b3, fullname := p_name p\<rparr>) []"
    (is "_ = Go ?d3 _") using assms(1) by auto
  have "in_long (p_date p)" using assms(3) by (simp add: posting_ok_def)
  from line_D [OF this, of e q ?d3] obtain b4 where
    "item_line e q ?d3 ((CHR '','' # CHR ''D'' # hex_text (p_date p)) @ [NL]) =
      date_line e q (?d3\<lparr>i_buf := b4\<rparr>) (hex_text (p_date p) @ [NL])" using assms(1) by auto
  moreover have "?d3\<lparr>i_buf := b4\<rparr> = d\<lparr>i_buf := b4, scribbled := False, uid := p_uid p, login := p_login p,
      fullname := p_name p\<rparr>" by (cases d) simp
  ultimately have 4: "item_line e q ?d3 ((CHR '','' # CHR ''D'' # hex_text (p_date p)) @ [NL]) =
      Go (d\<lparr>i_buf := b4, scribbled := False, uid := p_uid p, login := p_login p, fullname := p_name p,
        i_date := p_date p, thisversion := h, gotversion := False, printing := pr\<rparr>) out"
    (is "_ = Go ?d4 _") using assms(4) [of b4] by (simp only:)
  obtain b5 where 5: "item_line e q ?d4 ('',T'' @ [NL]) =
      Go (?d4\<lparr>i_buf := b5, thisversion := \<not> gotversion ?d4, didE := False\<rparr>) []" (is "_ = Go ?d5 _")
    using line_T [of e q ?d4] by blast
  have "run_lines e q d (map ((#) (CHR '','')) (posting_lines p)) = Some (?d5, [] @ [] @ [] @ out @ [] @ [])"
    unfolding posting_lines_def list.map
    by (rule run_line, rule 1, rule run_line, rule 2, rule run_line, rule 3, rule run_line, rule 4,
        rule run_line, rule 5, rule run_lines.simps)
  then show ?thesis by (intro exI [of _ b5]) simp
qed

lemma reply_run:
  assumes "between q n d" "posting_ok p" "0 < n"
  shows "\<exists>d1. run_lines e q d (posting_text p) =
      Some (d1, if q_first q \<le> n \<and> n \<le> q_last q then reply_title e n p @ body_text p else []) \<and> between q (n + 1) d1"
proof (cases "printing d")
  case True
  have d: "didE d" "i_resp d = n" using assms(1) by (simp_all add: between_def)
  have "date_line e q (d\<lparr>i_buf := b, scribbled := False, uid := p_uid p, login := p_login p,
        fullname := p_name p\<rparr>) (hex_text (p_date p) @ [NL]) =
      Go (d\<lparr>i_buf := b, scribbled := False, uid := p_uid p, login := p_login p, fullname := p_name p,
        i_date := p_date p, thisversion := q_html q, gotversion := False, printing := True\<rparr>) (reply_title e n p)" for b
    using assms True d atolh_hex_text [of "p_date p"]
    by (simp add: date_line_def posting_ok_def resp_head_def reply_title_def)
  from head_shown [OF True d(1) assms(2) this] obtain b where
    h: "run_lines e q d (map ((#) (CHR '','')) (posting_lines p)) =
    Some (d\<lparr>i_buf := b, scribbled := False, uid := p_uid p, login := p_login p, fullname := p_name p,
      i_date := p_date p, gotversion := False, printing := True, thisversion := True, didE := False\<rparr>, reply_title e n p)"
    (is "_ = Some (?d1, _)") by blast
  obtain b2 g where b: "run_lines e q ?d1 (p_lines p) = Some (?d1\<lparr>i_buf := b2, gotversion := g\<rparr>, body_text p)"
    (is "_ = Some (?d2, _)")
    using body_shown [of ?d1 "p_lines p" e q] assms(2) by (auto simp: posting_ok_def body_text_def)
  obtain d3 where e: "run_lines e q ?d2 ['',E''] = Some (d3, [])" "between q (n + 1) d3"
    using posting_end [of ?d2 n e q] d assms(2,3) by (auto simp: posting_ok_def)
  from run_lines_append [OF h run_lines_append [OF b e(1)]] e(2) True assms(1) show ?thesis
    by (auto simp: posting_text_def between_def)
next
  case False
  have d: "didE d" "i_resp d = n" "fullname d = []" "login d = []" using assms(1) by (simp_all add: between_def)
  obtain b g where h: "run_lines e q d (map ((#) (CHR '','')) (posting_lines p)) =
    Some (d\<lparr>i_buf := b, scribbled := False, thisversion := g, didE := False\<rparr>, [])" (is "_ = Some (?d1, _)")
    using head_hidden [OF False d(1) assms(2)] by blast
  obtain b2 where b: "run_lines e q ?d1 (p_lines p) = Some (?d1\<lparr>i_buf := b2\<rparr>, [])" (is "_ = Some (?d2, _)")
    using body_hidden [of ?d1 "p_lines p" e q] assms(2) False by (auto simp: posting_ok_def)
  obtain d3 where e: "run_lines e q ?d2 ['',E''] = Some (d3, [])" "between q (n + 1) d3"
    using posting_end [of ?d2 n e q] d assms(3) by auto
  from run_lines_append [OF h run_lines_append [OF b e(1)]] e(2) False assms(1) show ?thesis
    by (auto simp: posting_text_def between_def)
qed

lemma replies_run:
  assumes "between q n d" "\<forall>p \<in> set ps. posting_ok p" "0 < n"
  shows "\<exists>d1. run_lines e q d (concat (map posting_text ps)) =
      Some (d1, replies e (\<lambda>i. q_first q \<le> i \<and> i \<le> q_last q) n ps) \<and> between q (n + int (length ps)) d1"
  using assms
proof (induction ps arbitrary: n d)
  case (Cons p ps)
  from reply_run [OF Cons.prems(1) _ Cons.prems(3), of p e] Cons.prems(2) obtain d1 where
    1: "run_lines e q d (posting_text p) =
      Some (d1, if q_first q \<le> n \<and> n \<le> q_last q then reply_title e n p @ body_text p else [])"
      "between q (n + 1) d1" by auto
  from Cons.IH [OF 1(2)] Cons.prems obtain d2 where
    2: "run_lines e q d1 (concat (map posting_text ps)) =
      Some (d2, replies e (\<lambda>i. q_first q \<le> i \<and> i \<le> q_last q) (n + 1) ps)"
      "between q (n + 1 + int (length ps)) d2" by auto
  from run_lines_append [OF 1(1) 2(1)] 2(2) show ?case by (auto simp: ac_simps)
qed simp


section \<open>The whole item\<close>

lemma item_run:
  assumes d: "d = \<lparr>i_buf = b0, title = [], fullname = [], login = [], uid = -1, i_date = 0, i_resp = 0,
      printing = True, scribbled = False, thisversion = False, gotversion = False, didE = True\<rparr>"
    and ok: "text_line t" "posting_ok p" "q_header q \<noteq> 2"
  shows "\<exists>d1. run_lines e q d (('',H'' @ t) # posting_text p) =
      Some (d1, (if q_header q \<noteq> 0 then item_title e (q_item q) t p else [])
        @ (if q_first q \<le> 0 then body_text p else [])
        @ (if q_last q = INT_MAX then new_responses (q_first q) (q_max q) (q_first q \<le> 0 \<or> q_header q \<noteq> 0) else []))
      \<and> between q 1 d1"
proof -
  let ?h = "if q_header q \<noteq> 0 then item_title e (q_item q) t p else []"
  let ?n = "if q_last q = INT_MAX then new_responses (q_first q) (q_max q) (q_first q \<le> 0 \<or> q_header q \<noteq> 0) else []"
  obtain b1 where t: "item_line e q d ((CHR '','' # CHR ''H'' # t) @ [NL]) = Go (d\<lparr>i_buf := b1, title := t\<rparr>) []"
    (is "_ = Go ?d1 _") using line_H [OF ok(1), of d e q] by (auto simp: d)
  have "date_line e q (?d1\<lparr>i_buf := b, scribbled := False, uid := p_uid p, login := p_login p,
        fullname := p_name p\<rparr>) (hex_text (p_date p) @ [NL]) =
      Go (?d1\<lparr>i_buf := b, scribbled := False, uid := p_uid p, login := p_login p, fullname := p_name p,
        i_date := p_date p, thisversion := q_html q, gotversion := False, printing := q_first q \<le> 0\<rparr>) ?h" for b
    using ok atolh_hex_text [of "p_date p"]
    by (simp add: d date_line_def posting_ok_def item_head_def item_title_def Let_def)
  from head_shown [OF _ _ ok(2) this] obtain b where
    h: "run_lines e q ?d1 (map ((#) (CHR '','')) (posting_lines p)) =
    Some (?d1\<lparr>i_buf := b, scribbled := False, uid := p_uid p, login := p_login p, fullname := p_name p,
      i_date := p_date p, gotversion := False, printing := q_first q \<le> 0, thisversion := True, didE := False\<rparr>, ?h)"
    (is "_ = Some (?d2, _)") by (auto simp: d)
  have "\<exists>b2 g. run_lines e q ?d2 (p_lines p) = Some (?d2\<lparr>i_buf := b2, gotversion := g\<rparr>,
      if q_first q \<le> 0 then body_text p else [])"
  proof (cases "q_first q \<le> 0")
    case True
    then show ?thesis
      using body_shown [of ?d2 "p_lines p" e q] ok(2) by (simp add: posting_ok_def body_text_def)
  next
    case False
    then obtain b2 where "run_lines e q ?d2 (p_lines p) = Some (?d2\<lparr>i_buf := b2\<rparr>, [])"
      using body_hidden [of ?d2 "p_lines p" e q] ok(2) by (auto simp: posting_ok_def)
    with False show ?thesis by (intro exI [of _ b2] exI [of _ False]) simp
  qed
  then obtain b2 g where b: "run_lines e q ?d2 (p_lines p) = Some (?d2\<lparr>i_buf := b2, gotversion := g\<rparr>,
      if q_first q \<le> 0 then body_text p else [])" (is "_ = Some (?d3, _)") by blast
  obtain d4 where e: "run_lines e q ?d3 ['',E''] = Some (d4, ?n)" "between q 1 d4"
    using line_E [of e q ?d3] ok(2) by (auto simp: d end_entry_def between_def Let_def posting_ok_def)
  have "run_lines e q d (('',H'' @ t) # posting_text p) = Some (d4, [] @ ?h @ (if q_first q \<le> 0 then body_text p else []) @ ?n)"
    using run_line [OF t run_lines_append [OF h run_lines_append [OF b e(1)]]] by (simp add: posting_text_def)
  with e(2) show ?thesis by auto
qed

lemma hex_text_short: "length (hex_text v) \<le> 16"
proof -
  have "nat (v mod ULONG) < 16 ^ Suc 15" by (simp add: ULONG_def nat_less_iff)
  from length_hex_nat [OF this] show ?thesis by (simp add: hex_text_def)
qed

lemma posting_text_lines:
  assumes "posting_ok p" "l \<in> set (posting_text p)"
  shows "NL \<notin> set l \<and> NUL \<notin> set l \<and> length l < BFSZ - 1"
proof -
  have u: "NL \<notin> set (dec (p_uid p))" "NUL \<notin> set (dec (p_uid p))" "length (dec (p_uid p)) \<le> 10"
    using assms(1) dec_nat_plain length_dec_nat [of "nat (p_uid p)" 9]
    by (auto simp: posting_ok_def dec_nonneg INT_MAX_def)
  have h: "NL \<notin> set (hex_text (p_date p))" "NUL \<notin> set (hex_text (p_date p))"
    using hex_text_plain by auto
  from assms u h hex_text_short [of "p_date p"] show ?thesis
    by (auto simp: posting_text_def posting_lines_def posting_ok_def text_line_def BFSZ_def)
qed

lemma item_file_pieces:
  assumes "text_line t" "\<forall>p \<in> set ps. posting_ok p"
  shows "pieces (BFSZ - 1) (file_of (item_lines t ps)) = map (\<lambda>l. l @ [NL]) (item_lines t ps)"
proof (rule pieces_file, intro ballI)
  fix l
  assume "l \<in> set (item_lines t ps)"
  then consider "l = ''!<ps02>''" | "l = '',H'' @ t" | p where "p \<in> set ps" "l \<in> set (posting_text p)"
    by (auto simp: item_lines_def)
  then show "NL \<notin> set l \<and> length l < BFSZ - 1"
    using assms posting_text_lines by cases (auto simp: text_line_def BFSZ_def)
qed

text \<open>All that is shown of an item.\<close>

definition range_text :: "pico_env \<Rightarrow> request \<Rightarrow> string \<Rightarrow> posting \<Rightarrow> posting list \<Rightarrow> string" where
  "range_text e q t p ps =
     (let f = q_first q; l = q_last q; h = q_header q in
      (if h \<noteq> 0 then item_title e (q_item q) t p else [])
      @ (if f \<le> 0 then body_text p else [])
      @ (if l = -1 then new_responses f (q_max q) (f \<le> 0 \<or> h \<noteq> 0) else [])
      @ replies e (\<lambda>i. f \<le> i \<and> (l = -1 \<or> i \<le> l)) 1 ps)"

lemma dispitem_run:
  assumes "disk s (item_name dir (q_item r)) = Some (file_of (item_lines t (p # ps)))"
    and "text_line t" "\<forall>x \<in> set (p # ps). posting_ok x" "q_header r \<noteq> 2"
    and "int (length ps) < INT_MAX" "-1 \<le> q_last r" "q_last r < INT_MAX"
  shows "dispitem e dir r s = (Ret (int (length ps)), s\<lparr>tout := tout s @ range_text e r t p ps\<rparr>)"
proof -
  let ?q = "r\<lparr>q_last := (if q_last r = -1 then INT_MAX else q_last r)\<rparr>"
  define d where "d = \<lparr>i_buf = over (''!<ps02>'' @ [NL]) (over (item_name dir (q_item r)) []), title = [], fullname = [], login = [],
      uid = -1, i_date = 0, i_resp = 0, printing = True, scribbled = False, thisversion = False,
      gotversion = False, didE = True\<rparr>"
  obtain d1 where 1: "run_lines e ?q d (('',H'' @ t) # posting_text p) =
      Some (d1, (if q_header r \<noteq> 0 then item_title e (q_item r) t p else []) @ (if q_first r \<le> 0 then body_text p else [])
        @ (if q_last r = -1 then new_responses (q_first r) (q_max r) (q_first r \<le> 0 \<or> q_header r \<noteq> 0) else []))" "between ?q 1 d1"
    using item_run [OF d_def, of t p ?q e] assms(2-4,7) by auto
  obtain d2 where 2: "run_lines e ?q d1 (concat (map posting_text ps)) =
      Some (d2, replies e (\<lambda>i. q_first ?q \<le> i \<and> i \<le> q_last ?q) 1 ps)" "between ?q (1 + int (length ps)) d2"
    using replies_run [OF 1(2), of ps e] assms(3) by auto
  have "replies e (\<lambda>i. q_first r \<le> i \<and> i \<le> q_last ?q) k xs = replies e (\<lambda>i. q_first r \<le> i \<and> (q_last r = -1 \<or> i \<le> q_last r)) k xs"
    if "k + int (length xs) \<le> INT_MAX + 1" for k xs
    using that by (induction xs arbitrary: k) auto
  then have sel: "replies e (\<lambda>i. q_first ?q \<le> i \<and> i \<le> q_last ?q) 1 ps =
      replies e (\<lambda>i. q_first r \<le> i \<and> (q_last r = -1 \<or> i \<le> q_last r)) 1 ps" using assms(5) by simp
  have "i_resp d2 - 1 = int (length ps)" using 2(2) by (simp add: between_def)
  with show_run_lines [OF run_lines_append [OF 1(1) 2(1)], of s] sel
  have run: "show_lines e ?q d (map (\<lambda>l. l @ [NL]) (('',H'' @ t) # concat (map posting_text (p # ps)))) s =
    (Ret (int (length ps)), s\<lparr>tout := tout s @ range_text e r t p ps\<rparr>)" by (simp add: range_text_def Let_def)
  have p: "pieces (BFSZ - 1) (file_of (item_lines t (p # ps))) = (''!<ps02>'' @ [NL]) #
      map (\<lambda>l. l @ [NL]) (('',H'' @ t) # concat (map posting_text (p # ps)))"
    using item_file_pieces [OF assms(2,3)] by (simp only: item_lines_def list.map)
  have m: "cstr (''!<ps02>'' @ [NL]) = ''!<ps02>\<newline>''" by (simp add: cstr_id)
  have qi: "q_item ?q = q_item r" by simp
  show ?thesis
    unfolding dispitem_def Let_def
    by (rule bnd_then, rule gets_run)
       (use run in \<open>simp only: qi assms(1) option.case p list.case m not_True_eq_False if_False d_def simp_thms\<close>)
qed

text \<open>
  C3: displaying an item shows its header when asked, its text when the range starts at 0, the count of
  responses when the range goes to the end, and exactly the responses whose number is in the range, in
  order, each under its own header; and whatever the range was, the result is the number of the last
  response in the item, not of the last one shown.
\<close>

theorem dispitem_shows_range:
  assumes "disk s (item_name dir n) = Some (file_of (item_lines t (p # ps)))"
    and "text_line t" "\<forall>x \<in> set (p # ps). posting_ok x" "h \<noteq> 2"
    and "int (length ps) < INT_MAX" "-1 \<le> lst" "lst < INT_MAX"
  shows "dispitem e dir \<lparr>q_item = n, q_first = frst, q_last = lst, q_max = mx, q_header = h, q_html = html\<rparr> s =
    (Ret (int (length ps)), s\<lparr>tout := tout s
       @ (if h \<noteq> 0 then item_title e n t p else [])
       @ (if frst \<le> 0 then body_text p else [])
       @ (if lst = -1 then new_responses frst mx (frst \<le> 0 \<or> h \<noteq> 0) else [])
       @ replies e (\<lambda>i. frst \<le> i \<and> (lst = -1 \<or> i \<le> lst)) 1 ps\<rparr>)"
  using dispitem_run [of s dir "\<lparr>q_item = n, q_first = frst, q_last = lst, q_max = mx, q_header = h, q_html = html\<rparr>" t p ps e] assms
  by (simp add: range_text_def Let_def)

definition sample_posts :: "posting list" where
  "sample_posts = [\<lparr>p_uid = 5, p_login = ''jo'', p_name = ''Jo'', p_date = 77, p_lines = [''Hi'', []]\<rparr>,
     \<lparr>p_uid = 6, p_login = ''al'', p_name = ''Al'', p_date = 78, p_lines = [''Yes'']\<rparr>,
     \<lparr>p_uid = 5, p_login = ''jo'', p_name = ''Jo'', p_date = 79, p_lines = [''No'']\<rparr>]"

definition sample_conf :: pico where
  "sample_conf = sample_pico\<lparr>disk := [''/c/_4'' \<mapsto> file_of (item_lines ''Tea'' sample_posts)],
     confdir := ''/c'', curitem := 4, max_resp := 2, max_read := 0, dont_page := True\<rparr>"

lemma dec_examples: "dec 4 = ''4''" "dec 2 = ''2''"
  by code_simp+

lemma sample_item:
  "text_line ''Tea''" "\<forall>p \<in> set sample_posts. posting_ok p" "item_name ''/c'' 4 = ''/c/_4''"
  by (simp_all add: text_line_def sample_posts_def posting_ok_def INT_MAX_def in_long_def LONG_MIN_def LONG_MAX_def
      item_name_def dec_examples BFSZ_def)

theorem dispitem_shows_range_witness:
  "dispitem sample_reader ''/c'' \<lparr>q_item = 4, q_first = 2, q_last = 2, q_max = 2, q_header = 0, q_html = False\<rparr>
     sample_conf = (Ret 2, sample_conf\<lparr>tout := ''#2 Jo(jo) on '' @ pad_left 24 ''then'' @ '':\<newline> No\<newline>''\<rparr>)"
proof -
  obtain p ps where ps: "sample_posts = p # ps" "ps = tl sample_posts" by (simp add: sample_posts_def)
  have "disk sample_conf (item_name ''/c'' 4) = Some (file_of (item_lines ''Tea'' (p # ps)))"
    by (simp add: sample_conf_def sample_item(3) ps(1))
  moreover have "\<forall>x \<in> set (p # ps). posting_ok x" using sample_item(2) ps(1) by simp
  moreover have "int (length ps) < INT_MAX" by (simp add: ps(2) sample_posts_def INT_MAX_def)
  ultimately have "dispitem sample_reader ''/c'' \<lparr>q_item = 4, q_first = 2, q_last = 2, q_max = 2, q_header = 0,
      q_html = False\<rparr> sample_conf = (Ret (int (length ps)), sample_conf\<lparr>tout := tout sample_conf
       @ (if (0::int) \<noteq> 0 then item_title sample_reader 4 ''Tea'' p else [])
       @ (if (2::int) \<le> 0 then body_text p else [])
       @ (if (2::int) = -1 then new_responses 2 2 ((2::int) \<le> 0 \<or> (0::int) \<noteq> 0) else [])
       @ replies sample_reader (\<lambda>i. 2 \<le> i \<and> ((2::int) = -1 \<or> i \<le> 2)) 1 ps\<rparr>)"
    using sample_item(1) by (intro dispitem_shows_range) (simp_all add: INT_MAX_def)
  moreover have "tout sample_conf = []" by (simp add: sample_conf_def sample_pico_def pico_start_def)
  ultimately show ?thesis
    by (simp add: ps(2) sample_posts_def reply_title_def body_text_def sample_reader_def
        dec_examples)
qed

end
