(* ===== verification/BbsRuns.thy ===== *)
theory BbsRuns
  imports BbsShow
begin

text \<open>
  Whole operations of the conference reader: what showing an item leaves in the participation file,
  and that a session ends.
\<close>

section \<open>Showing and marking\<close>

text \<open>A reader at an item whose file is an item and its responses.\<close>

definition at_item :: "pico \<Rightarrow> string \<Rightarrow> posting list \<Rightarrow> bool" where
  "at_item s t ps \<longleftrightarrow> ps \<noteq> [] \<and> disk s (item_name (confdir s) (curitem s)) = Some (file_of (item_lines t ps))
     \<and> text_line t \<and> (\<forall>p \<in> set ps. posting_ok p) \<and> int (length ps) \<le> INT_MAX \<and> dont_page s"

text \<open>The number of the last response.\<close>

definition last_resp :: "posting list \<Rightarrow> int" where "last_resp ps = int (length ps) - 1"

lemma display_it_run:
  assumes "at_item s t ps" "\<not> no_pf s" "\<not> extracting s" "max_read s < last_resp ps"
    and "h \<noteq> 2" "-1 \<le> l" "l < INT_MAX"
  shows "\<exists>out. display_it e f l h s = (Ret (), s\<lparr>again := (f, l, h), tout := tout s @ out,
      pflist := put_entry (now e) (curitem s) (last_resp ps) (pflist s),
      max_read := last_resp ps, curresp := last_resp ps + 1\<rparr>)"
proof -
  obtain p qs where ps: "ps = p # qs" using assms(1) by (cases ps) (auto simp: at_item_def)
  let ?s = "s\<lparr>again := (f, l, h), tout := tout s @ ''\<newline>''\<rparr>"
  let ?r = "\<lparr>q_item = curitem s, q_first = f, q_last = l, q_max = max_resp s, q_header = h, q_html = False\<rparr>"
  have d: "disk ?s (item_name (confdir s) (q_item ?r)) = Some (file_of (item_lines t (p # qs)))"
    and ok: "text_line t" "\<forall>x \<in> set (p # qs). posting_ok x" "int (length qs) < INT_MAX" "dont_page s"
    using assms(1) by (simp_all add: at_item_def ps)
  have n: "int (length qs) = last_resp ps" by (simp add: last_resp_def ps)
  have disp: "dispitem e (confdir s) ?r ?s = (Ret (last_resp ps), ?s\<lparr>tout := tout ?s @ range_text e ?r t p qs\<rparr>)"
    using dispitem_run [OF d ok(1,2) _ ok(3), of e] assms(5-7) n by simp
  show ?thesis
    using ok(4) assms(2-4)
    by (intro exI [of _ "''\<newline>'' @ range_text e ?r t p qs"])
       (simp add: display_it_def sq_def bnd_def upd_def gets_def puts_def whenP_def update_item_def disp)
qed

lemma marked_entry:
  assumes "in_order ps" "0 \<le> r"
  shows "\<exists>p. by_item (put_entry t i r ps) i = Some p \<and> resp_no p = r + 1 \<and>
     (forgotten p \<longleftrightarrow> (\<exists>o1. by_item ps i = Some o1 \<and> forgotten o1))"
  using assms(2) by (simp add: read_marks.look_put [OF assms(1)] updated_def new_entry_def split: option.split)

text \<open>
  The command \<open>only\<close> with any number marks the whole item as read: whichever single response it
  showed, even one that is not there, the participation file then holds the number of the item's last
  response.
\<close>

theorem only_marks_everything:
  assumes "at_item s t ps" "\<not> no_pf s" "\<not> extracting s" "max_read s < last_resp ps" "in_order (pflist s)"
    and "numeric arg" "0 \<le> atoi arg" "atoi arg < INT_MAX"
  shows "\<exists>u p. do_only e arg s = (Ret True, u) \<and> by_item (pflist u) (curitem s) = Some p \<and>
     resp_no p = last_resp ps + 1"
proof -
  obtain x where d: "display_it e (atoi arg) (atoi arg) 0 s = (Ret (), s\<lparr>again := (atoi arg, atoi arg, 0), tout := tout s @ x,
      pflist := put_entry (now e) (curitem s) (last_resp ps) (pflist s),
      max_read := last_resp ps, curresp := last_resp ps + 1\<rparr>)" (is "_ = (_, ?u)")
    using display_it_run [OF assms(1-4), of 0 "atoi arg" e "atoi arg"] assms(7,8) by auto
  have "0 \<le> last_resp ps" using assms(1) by (cases ps) (auto simp: at_item_def last_resp_def)
  from marked_entry [OF assms(5) this, of "now e" "curitem s"] obtain p where
    "by_item (pflist ?u) (curitem s) = Some p" "resp_no p = last_resp ps + 1" by auto
  moreover have "do_only e arg s = (Ret True, ?u)"
    using assms(6) d by (simp add: do_only_def sq_run(1) ret_def)
  ultimately show ?thesis by blast
qed

text \<open>
  C31: an item that was just shown through its end is not shown again in a reading of new items: looking
  at it again finds all of it read, prints nothing and goes on to the next one.
\<close>

theorem shown_item_is_passed:
  assumes "at_item s t ps" "\<not> no_pf s" "\<not> extracting s" "max_read s < last_resp ps" "in_order (pflist s)"
    and "max_resp s = last_resp ps" "\<not> read_old s" "h \<noteq> 2"
    and "\<forall>p. by_item (pflist s) (curitem s) = Some p \<longrightarrow> \<not> forgotten p"
  shows "\<exists>u. display_it e f (-1) h s = (Ret (), u) \<and> maybe_display e u = (Ret False, u)"
proof -
  obtain x where d: "display_it e f (-1) h s = (Ret (), s\<lparr>again := (f, -1, h), tout := tout s @ x,
      pflist := put_entry (now e) (curitem s) (last_resp ps) (pflist s),
      max_read := last_resp ps, curresp := last_resp ps + 1\<rparr>)" (is "_ = (_, ?u)")
    using display_it_run [OF assms(1-4,8), of "-1" e f] by (auto simp: INT_MAX_def)
  have "0 \<le> last_resp ps" using assms(1) by (cases ps) (auto simp: at_item_def last_resp_def)
  from marked_entry [OF assms(5) this, of "now e" "curitem s"] obtain p where
    p: "by_item (pflist ?u) (curitem s) = Some p" "resp_no p = last_resp ps + 1" "\<not> forgotten p"
    using assms(9) by auto
  have "find_entry (curitem s) (pflist ?u) = Some p"
    using p(1) find_entry_map [OF put_entry_order [OF assms(5)]] by simp
  then have l: "last_read (curitem ?u) ?u = (Ret (last_resp ps, False), ?u)"
    using p(2,3) assms(2) by (simp add: last_read_def gets_def)
  have "maybe_display e ?u = (Ret False, ?u)"
    unfolding maybe_display_def
    by (rule bnd_then, rule gets_run, rule bnd_then, rule l)
       (simp add: sq_def bnd_def upd_def gets_def read_from_def assms(6,7) ret_def)
  with d show ?thesis by blast
qed

lemma sample_at_item:
  "at_item sample_conf ''Tea'' sample_posts" "\<not> no_pf sample_conf" "\<not> extracting sample_conf"
  "last_resp sample_posts = 2" "max_read sample_conf < last_resp sample_posts" "in_order (pflist sample_conf)"
  using sample_item
  by (simp_all add: at_item_def sample_conf_def sample_pico_simps last_resp_def sample_posts_def INT_MAX_def)

theorem only_marks_everything_witness:
  "\<exists>u p. do_only sample_reader ''1'' sample_conf = (Ret True, u) \<and> by_item (pflist u) 4 = Some p \<and> resp_no p = 3"
proof -
  have "atoi ''1'' = 1" by code_simp
  then show ?thesis
    using only_marks_everything [OF sample_at_item(1-3,5,6), of "''1''" sample_reader] sample_at_item(4)
    by (simp add: numeric_def isascii_def isdigit_def INT_MAX_def) (simp add: sample_conf_def)
qed

theorem shown_item_is_passed_witness:
  "\<exists>u. display_it sample_reader 0 (-1) 1 sample_conf = (Ret (), u) \<and> maybe_display sample_reader u = (Ret False, u)"
proof -
  have "max_resp sample_conf = last_resp sample_posts" "\<not> read_old sample_conf"
    "\<forall>p. by_item (pflist sample_conf) (curitem sample_conf) = Some p \<longrightarrow> \<not> forgotten p"
    using sample_at_item(4) by (auto simp: sample_conf_def sample_pico_simps)
  from shown_item_is_passed [OF sample_at_item(1-3,5,6) this(1,2) _ this(3)] show ?thesis by simp
qed

section \<open>Going on\<close>

text \<open>
  Every statement leaves no more items and no more input than there were, and keeps the participation
  list in order.
\<close>

definition onward :: "pico \<Rightarrow> pico \<Rightarrow> bool" where
  "onward s t \<longleftrightarrow> reverse t = reverse s \<and> items_left t \<le> items_left s \<and> length (tin t) \<le> length (tin s)
     \<and> (in_order (pflist s) \<longrightarrow> in_order (pflist t))"

interpretation ahead: frame_rel onward
  by unfold_locales (auto simp: onward_def)

lemma onward_upd:
  "(\<And>s. tin (f s) = tin s \<and> sum_file (f s) = sum_file s \<and> sum_pos (f s) = sum_pos s \<and>
     sum_item (f s) = sum_item s \<and> reverse (f s) = reverse s \<and>
     (in_order (pflist s) \<longrightarrow> in_order (pflist (f s)))) \<Longrightarrow> keeps onward (upd f)"
  by (intro ahead.keeps_upd) (auto simp: onward_def items_left_def split: option.split)

lemma drop_entries_items: "map item_no (drop_entries b lo hi ps) = map item_no ps"
  by (induction b lo hi ps rule: drop_entries.induct) (auto simp: Let_def)

lemma kept_entries_items: "map item_no (kept_entries b lo hi s) = map item_no (pflist s)"
  by (simp add: kept_entries_def drop_entries_items)

lemma scan_up_bounds: "scan_up f p i = (r, q, j) \<Longrightarrow> p \<le> q \<and> (r \<noteq> None \<longrightarrow> p < q \<and> q \<le> length f)"
proof (induction f p i rule: scan_up.induct)
  case (1 f p i)
  obtain a b where rd: "read_sume f p = (a, b)" by fastforce
  then have b: "p \<le> b" "a \<noteq> None \<longrightarrow> p < b \<and> b \<le> length f"
    by (auto simp: read_sume_def sume_size_def split: if_splits)
  show ?case
  proof (cases "\<exists>x. a = Some x \<and> \<not> present_rec x")
    case True
    then obtain x where x: "a = Some x" "\<not> present_rec x" by blast
    with 1(2) rd have "scan_up f b (i + 1) = (r, q, j)" by (simp add: scan_up.simps [of f p])
    from 1(1) [OF rd [symmetric] x this] b x show ?thesis by auto
  next
    case False
    with 1(2) rd b show ?thesis by (auto simp: scan_up.simps [of f p] split: option.splits)
  qed
qed

lemma scan_down_bounds: "scan_down f p i = (r, q, j) \<Longrightarrow> j \<le> i \<and> (\<forall>x. r = Back x \<longrightarrow> 0 < j)"
proof (induction f p i rule: scan_down.induct)
  case (1 f p i)
  show ?case
  proof (cases "i \<le> 0")
    case True
    with 1(2) show ?thesis by (subst (asm) scan_down.simps) simp
  next
    case False
    with 1 show ?thesis
      by (subst (asm) (2) scan_down.simps) (fastforce simp: read_sume_def split: if_splits)
  qed
qed

lemma onward_basics:
  "keeps onward (puts x)" "keeps onward (lost_items lo hi)" "keeps onward (update_item e i r)"
  "keeps onward (reset_item i)" "keeps onward (last_read i)" "keeps onward (fgets n)"
proof -
  show "keeps onward (puts x)" unfolding puts_def by (rule onward_upd) simp
  show "keeps onward (lost_items lo hi)" unfolding lost_items_def by (rule onward_upd) (simp add: drop_entries_items)
  show "keeps onward (update_item e i r)" unfolding update_item_def by (rule onward_upd) (simp add: put_entry_order)
  show "keeps onward (reset_item i)" unfolding reset_item_def by (rule onward_upd) (simp add: undo_entry_order)
  show "keeps onward (last_read i)" unfolding last_read_def by (rule ahead.keeps_gets)
  show "keeps onward (fgets n)"
    by (auto simp: keeps_def fgets_def onward_def items_left_def dest: take_line_append split: if_splits prod.splits option.splits)
qed

lemma onward_complain: "keeps onward (complain e x)"
  unfolding complain_def by (intro ahead.keeps_rules onward_basics)

lemma onward_show_lines: "keeps onward (show_lines e q d ls)"
proof (induction ls arbitrary: d)
  case (Cons l ls)
  show ?case
    by (cases "item_line e q d l")
       (auto simp: weird_item_def intro!: ahead.keeps_rules onward_basics onward_complain Cons)
qed (simp add: ahead.keeps_ret)

lemma onward_dispitem: "keeps onward (dispitem e dir q)"
proof -
  have "keeps onward (case ls of [] \<Rightarrow> weird_item e | magic # ls \<Rightarrow> if cstr magic \<noteq> x then weird_item e
      else show_lines e q1 (d magic) ls)" for ls x d q1
    by (cases ls) (auto simp: weird_item_def intro!: ahead.keeps_rules onward_complain onward_show_lines)
  then show ?thesis
    unfolding dispitem_def Let_def by (intro ahead.keeps_rules onward_complain)
qed

lemma onward_display: "keeps onward (display_it e f l h)" "keeps onward (whoops e)" "keeps onward (maybe_display e)"
proof -
  show d: "keeps onward (display_it e f l h)" for f l h
    unfolding display_it_def
    by (intro ahead.keeps_rules onward_basics onward_dispitem onward_upd) simp_all
  show w: "keeps onward (whoops e)"
    unfolding whoops_def by (intro ahead.keeps_rules onward_basics onward_upd) simp_all
  show "keeps onward (maybe_display e)"
    unfolding maybe_display_def by (intro ahead.keeps_rules onward_basics d w onward_upd) simp_all
qed

text \<open>A step through the sum file, in the direction of the reading, uses up an item.\<close>

lemma next_item_onward:
  assumes "next_item lost_items s = (r, t)" "\<not> reverse s"
  shows "onward s t \<and> (\<forall>x. r = Ret (Some x) \<longrightarrow> items_left t < items_left s)"
proof (cases "sum_file s")
  case None
  with assms show ?thesis by (auto simp: next_item_def bnd_def gets_def undef_def onward_def)
next
  case (Some f)
  obtain x q i where sc: "scan_up f (sum_pos s) (sum_item s) = (x, q, i)" by (metis prod_cases3)
  obtain k where "t = s\<lparr>pflist := kept_entries (i \<noteq> sum_item s) (sum_item s) k s, sum_item := (if x = None then i else i + 1),
      sum_pos := q\<rparr>" "\<forall>y. r = Ret (Some y) \<longrightarrow> x \<noteq> None"
    using assms(1) by (auto simp: next_item_def bnd_def gets_def Some sc sq_def when_lost_run upd_def ret_def
        split: option.splits)
  with scan_up_bounds [OF sc] assms(2) Some show ?thesis
    by (auto simp: onward_def items_left_def kept_entries_items)
qed

lemma when_seek_run:
  "whenP b (seek_sum n) s = (Ret (), s\<lparr>sum_pos := (if b then seek_pos (sum_pos s) n else sum_pos s)\<rparr>)"
  by (cases s) (simp add: whenP_def seek_sum_def upd_def ret_def)

lemma prev_item_onward:
  assumes "prev_item e lost_items s = (r, t)" "reverse s"
  shows "onward s t \<and> (\<forall>x. r = Ret (Some x) \<longrightarrow> items_left t < items_left s)"
proof (cases "sum_file s")
  case None
  with assms show ?thesis by (auto simp: prev_item_def bnd_def gets_def undef_def onward_def)
next
  case (Some f)
  obtain x q i where sc: "scan_down f (sum_pos s) (sum_item s) = (x, q, i)" by (metis prod_cases3)
  note b = scan_down_bounds [OF sc]
  show ?thesis
  proof (cases x)
    case Strange
    with assms Some sc show ?thesis
      by (auto simp: prev_item_def bnd_def gets_def complain_def sq_def puts_def upd_def exit_prog_def onward_def
          items_left_def)
  next
    case Front
    with assms Some sc b show ?thesis
      by (auto simp: prev_item_def bnd_def gets_def sq_def when_lost_run upd_def ret_def onward_def items_left_def
          kept_entries_items)
  next
    case (Back y)
    with assms(1) Some sc have "reverse t = reverse s" "sum_item t = i - 1" "tin t = tin s"
      "map item_no (pflist t) = map item_no (pflist s)"
      by (auto simp: prev_item_def bnd_def gets_def sq_def when_lost_run when_seek_run upd_def ret_def
          kept_entries_items)
    moreover have "0 < i" "i \<le> sum_item s" using b Back by auto
    ultimately show ?thesis using assms(2) by (auto simp: onward_def items_left_def)
  qed
qed

lemma list_cases_rules:
  "keeps onward m \<Longrightarrow> (\<And>x y. keeps onward (k x y)) \<Longrightarrow> keeps onward (case l of [] \<Rightarrow> m | x # y \<Rightarrow> k x y)"
  "settles n \<Longrightarrow> (\<And>x y. settles (j x y)) \<Longrightarrow> settles (case l of [] \<Rightarrow> n | x # y \<Rightarrow> j x y)"
  by (cases l; simp)+

section \<open>No loop runs on\<close>

lemma settles_back:
  "settles a \<Longrightarrow> settles m \<Longrightarrow> (\<And>r. settles (k r)) \<Longrightarrow>
   settles (case x of Strange \<Rightarrow> a | Front \<Rightarrow> m | Back r \<Rightarrow> k r)"
  by (cases x) simp_all

lemma settles_basics:
  "settles (puts x)" "settles (lost_items lo hi)" "settles (update_item e i r)" "settles (reset_item i)"
  "settles (last_read i)" "settles (fgets n)" "settles (complain e x)" "settles (next_item lost_items)"
  "settles (prev_item e lost_items)"
proof -
  show io: "settles (puts x)" "settles (fgets n)" for x n
    by (auto simp: settles_run puts_def upd_def fgets_def split: prod.split)
  show l: "settles (lost_items lo hi)" for lo hi unfolding lost_items_def by (intro settling)
  show "settles (update_item e i r)" unfolding update_item_def by (intro settling)
  show "settles (reset_item i)" unfolding reset_item_def by (intro settling)
  show "settles (last_read i)" unfolding last_read_def by (intro settling)
  show c: "settles (complain e x)" for x unfolding complain_def by (intro settling io)
  show "settles (next_item lost_items)" unfolding next_item_def by (intro settling l)
  show "settles (prev_item e lost_items)"
    unfolding prev_item_def seek_sum_def by (intro settling settles_back l c)
qed

lemma settles_show: "settles (dispitem e dir q)" "settles (display_it e f l h)" "settles (maybe_display e)"
proof -
  have lines: "settles (show_lines e q d ls)" for q d ls
  proof (induction ls arbitrary: d)
    case (Cons l ls)
    show ?case
      by (cases "item_line e q d l")
         (auto simp: weird_item_def intro!: settling settles_basics Cons)
  qed (simp add: settles_basic)
  show d: "settles (dispitem e dir q)" for dir q
    unfolding dispitem_def Let_def weird_item_def by (intro settling settles_basics list_cases_rules lines)
  show i: "settles (display_it e f l h)" for f l h
    unfolding display_it_def by (intro settling settles_basics d)
  show "settles (maybe_display e)"
    unfolding maybe_display_def whoops_def by (intro settling settles_basics i)
qed

lemma settles_pass_round: "settles (pass_round e)"
  unfolding pass_round_def by (intro settling settles_basics settles_show)

lemma pass_round_onward:
  assumes "pass_round e s = (r, t)"
  shows "onward s t" "r = Ret None \<or> r = Ret (Some True) \<Longrightarrow> items_left t < items_left s"
proof -
  let ?step = "if reverse s then prev_item e lost_items else next_item lost_items"
  let ?k = "\<lambda>r. case r of None \<Rightarrow> ret (Some False)
     | Some (i, n) \<Rightarrow> sq (upd (\<lambda>s. s\<lparr>curitem := i, max_resp := n\<rparr>))
         (if (if reverse s then i < r_first (item s) else r_last (item s) < i \<and> r_last (item s) \<noteq> -1)
          then ret (Some False)
          else sq (upd (\<lambda>s. s\<lparr>curresp := n, max_resp := n - 1\<rparr>))
            (bnd (maybe_display e) (\<lambda>shown. ret (if shown then Some True else None))))"
  have rest: "keeps onward (?k x)" for x
    by (intro ahead.keeps_rules onward_display onward_upd) simp_all
  have moves: "onward s u \<and> (\<forall>x. a = Ret (Some x) \<longrightarrow> items_left u < items_left s)" if "?step s = (a, u)" for a u
    using that next_item_onward [of s a u] prev_item_onward [of e s a u] by (cases "reverse s") simp_all
  have "bnd ?step ?k s = (r, t)" using assms by (simp add: pass_round_def bnd_def gets_def)
  then have "onward s t \<and> (r = Ret None \<or> r = Ret (Some True) \<longrightarrow> items_left t < items_left s)"
  proof (cases rule: bnd_cases)
    case (step x u)
    have u: "onward u t" using keepsD [OF rest step(2)] .
    show ?thesis
    proof (cases x)
      case None
      with step(2) have "r = Ret (Some False)" by (simp add: ret_def)
      with u moves [OF step(1)] show ?thesis by (auto intro: ahead.frame_trans)
    next
      case (Some y)
      with u moves [OF step(1)] show ?thesis by (auto simp: onward_def)
    qed
  next
    case (stop a)
    with moves [OF stop(1)] show ?thesis by auto
  qed
  then show "onward s t" "r = Ret None \<or> r = Ret (Some True) \<Longrightarrow> items_left t < items_left s" by auto
qed

interpretation pass_loop: searching_body "pass_round e" items_left for e
  using settles_pass_round by unfold_locales (auto simp: settles_run dest: pass_round_onward(2))

lemma settles_do_pass: "settles (do_pass e)"
proof -
  have "no_hang (do_pass e)"
    using settles_pass_round unfolding do_pass_def
    by (intro no_hang_rules no_hang_first_of) (simp add: settles_def)
  then show ?thesis
    using pass_loop.first_of_enough
    by (simp add: settles_def do_pass_def fuelled_def bnd_def gets_def del: first_of.simps)
qed

lemma do_pass_onward: "keeps onward (do_pass e)"
  unfolding do_pass_def
  by (intro ahead.keeps_rules ahead.keeps_first_of) (auto simp: keeps_def dest: pass_round_onward(1))

lemma first_pass_shrinks: "first_of n (pass_round e) s = (Ret True, t) \<Longrightarrow> items_left t < items_left s"
proof (induction n arbitrary: s)
  case (Suc n)
  from Suc.prems have "bnd (pass_round e) (\<lambda>r. case r of None \<Rightarrow> first_of n (pass_round e) | Some a \<Rightarrow> ret a) s = (Ret True, t)"
    by simp
  then show ?case
  proof (cases rule: bnd_cases)
    case (step x u)
    show ?thesis
    proof (cases x)
      case None
      with step(2) have "items_left t < items_left u" by (simp add: Suc.IH)
      moreover have "items_left u < items_left s" using pass_round_onward(2) [OF step(1)] None by simp
      ultimately show ?thesis by simp
    next
      case (Some b)
      with step(2) have "b" "u = t" by (simp_all add: ret_def)
      with pass_round_onward(2) [OF step(1)] Some show ?thesis by simp
    qed
  qed (simp add: all_bool_eq)
qed simp

section \<open>The commands and the session\<close>

lemma command_rules:
  assumes "(p, f) \<in> set (rfp_cmds e)"
  shows "keeps onward (f a) \<and> settles (f a)"
  using assms
  by (auto simp: rfp_cmds_def cant_respond_def cant_act_def cant_def do_forget_def show_from_def do_again_def
      do_new_def do_postpone_def do_only_def
      intro!: ahead.keeps_rules onward_basics onward_display do_pass_onward
        settling settles_basics settles_show settles_do_pass)

lemma rfp_command_rules: "keeps onward (rfp_command e x)" "settles (rfp_command e x)"
proof -
  let ?c = "skip_in (firstout x BLANKS) (NL # BLANKS)"
  have "(p, f) \<in> set (rfp_cmds e)" if "List.find (\<lambda>(p, f). match ?c p) (rfp_cmds e) = Some (p, f)" for p f
    using that by (metis find_Some_iff nth_mem)
  then have cmd: "\<forall>a. keeps onward (f a) \<and> settles (f a)"
    if "List.find (\<lambda>(p, f). match ?c p) (rfp_cmds e) = Some (p, f)" for p f
    using that command_rules [of p f e] by blast
  show "keeps onward (rfp_command e x)"
    unfolding rfp_command_def Let_def signed_cmd_def do_badcmd_def show_from_def
    by (intro ahead.keeps_rules onward_basics onward_display do_pass_onward) (auto dest!: cmd)
  show "settles (rfp_command e x)"
    unfolding rfp_command_def Let_def signed_cmd_def do_badcmd_def show_from_def
    by (intro settling settles_basics settles_show settles_do_pass) (auto dest!: cmd)
qed

text \<open>
  Every command of the prompt, whatever its outcome, keeps the participation list in the order of
  the item numbers, in which its lookups rely, and leaves no more items and no more input ahead.
\<close>

theorem commands_keep_order:
  assumes "rfp_command e x s = (r, t)"
  shows "(in_order (pflist s) \<longrightarrow> in_order (pflist t)) \<and> items_left t \<le> items_left s \<and> length (tin t) \<le> length (tin s)"
  using keepsD [OF rfp_command_rules(1) assms] by (simp add: onward_def)

theorem commands_keep_order_witness:
  "in_order (pflist (snd (rfp_command sample_reader ''forget\<newline>'' sample_conf)))"
  using commands_keep_order [of sample_reader "''forget\<newline>''" sample_conf] sample_at_item(6)
  by (metis prod.collapse)

lemma main_round_shrinks:
  assumes "main_round e s = (Ret True, t)"
  shows "length (tin t) + items_left t < length (tin s) + items_left s"
proof (cases "prompt_rfp s")
  case False
  with assms have p: "do_pass e s = (Ret True, t)" by (simp add: main_round_def bnd_def gets_def)
  then have "items_left t < items_left s"
    using first_pass_shrinks by (simp add: do_pass_def bnd_def gets_def del: first_of.simps)
  moreover have "length (tin t) \<le> length (tin s)"
    using keepsD [OF do_pass_onward p] by (simp add: onward_def)
  ultimately show ?thesis by simp
next
  case True
  let ?s = "s\<lparr>tout := tout s @ ''\<newline>Response not possible.  Pass? ''\<rparr>"
  let ?k = "\<lambda>l. case l of None \<Rightarrow> sq (puts ''\<newline>'') (ret False) | Some x \<Rightarrow> rfp_command e x"
  have "main_round e s = bnd (fgets BFSZ) ?k ?s"
    by (unfold main_round_def, rule bnd_then, rule gets_run, simp only: True if_True, rule sq_then, rule puts_run)
       (rule refl)
  with assms have "bnd (fgets BFSZ) ?k ?s = (Ret True, t)" by simp
  then show ?thesis
  proof (cases rule: bnd_cases)
    case (step l u)
    then obtain x where l: "l = Some x"
      by (cases l) (auto simp: sq_def bnd_def puts_def upd_def ret_def)
    have "onward u t" using keepsD [OF rfp_command_rules(1)] step(2) l by auto
    moreover have "length (tin u) < length (tin ?s)"
      using fgets_shrinks [OF step(1) [unfolded l]] by (simp add: BFSZ_def)
    moreover have "items_left u \<le> items_left ?s"
      using keepsD [OF onward_basics(6) step(1)] by (simp add: onward_def)
    moreover have "items_left ?s = items_left s" by (simp add: items_left_def split: option.split)
    ultimately show ?thesis by (simp add: onward_def)
  qed (simp add: all_bool_eq)
qed

lemma settles_main_round: "settles (main_round e)"
  unfolding main_round_def by (intro settling settles_basics settles_do_pass rfp_command_rules)

interpretation reading: shrinking_body "main_round e" "\<lambda>s. length (tin s) + items_left s" for e
  using settles_main_round main_round_shrinks by unfold_locales (auto simp: settles_run)

lemma settles_main_loop: "settles (main_loop e)"
proof -
  have x: "settles (do_extract e)"
    unfolding do_extract_def by (intro settling settles_basics settles_show)
  have sk: "settles (seek_item n)" for n
    unfolding seek_item_def seek_sum_def Let_def by (intro settling)
  have "no_hang (main_round e)" using settles_main_round by (simp add: settles_def)
  then have "no_hang (bnd (gets (\<lambda>s. length (tin s) + items_left s)) (\<lambda>n. iter (Suc n) (main_round e)))"
    by (intro no_hang_bnd no_hang_basic no_hang_iter)
  then have loop: "settles (bnd (gets (\<lambda>s. length (tin s) + items_left s)) (\<lambda>n. iter (Suc n) (main_round e)))"
    using reading.fuelled_iter [OF le_refl] by (simp add: settles_def)
  show ?thesis
    unfolding main_loop_def by (intro loop settling settles_basics settles_do_pass x sk)
qed

lemma settles_usage: "settles (bbs_usage e)"
  unfolding bbs_usage_def usage_def by (intro settling settles_basics)

lemma settles_words: "settles (parse_arg e a)" "settles (read_flags e cs)" "settles (read_words e conf as)"
proof -
  have "settles (number_arg e a)" for a
    unfolding number_arg_def by (intro settling settles_basics settles_usage)
  then show p: "settles (parse_arg e a)" for a
    unfolding parse_arg_def by (intro settling settles_basics settles_usage)
  show f: "settles (read_flags e cs)" for cs
  proof (induction cs)
    case (Cons c cs)
    then show ?case unfolding read_flags.simps by (intro settling settles_basics settles_usage)
  qed (simp add: settles_basic)
  show "settles (read_words e conf as)"
  proof (induction as arbitrary: conf)
    case (Cons c cs)
    then show ?case unfolding read_words.simps by (intro settling p f)
  qed (simp add: settles_basic)
qed

lemma settles_find_conf: "settles (find_conf e name bs)"
proof (induction bs)
  case (Cons b bs)
  then show ?case
    unfolding find_conf.simps weird_path_def by (intro settling settles_basics)
qed (simp add: settles_basic)

lemma settles_read_entries: "settles (read_entries e acc ls)"
proof (induction ls arbitrary: acc)
  case (Cons l ls)
  then show ?case
    unfolding read_entries.simps weird_pf_def by (intro settling settles_basics)
qed (auto simp: settles_basic)

lemma settles_conf: "settles (conf_dir e name)" "settles (readconfig e d)" "settles (pfread e pf)"
proof -
  show "settles (conf_dir e name)"
    unfolding conf_dir_def cfpath_def weird_path_def
    by (intro settling settles_basics list_cases_rules(2) settles_find_conf)
  show "settles (readconfig e d)"
    unfolding readconfig_def config_weird_def by (intro settling settles_basics list_cases_rules(2))
  have "settles (pfload e f)" for f
    unfolding pfload_def weird_pf_def
    by (intro settling settles_basics list_cases_rules(2) settles_read_entries)
  then show "settles (pfread e pf)"
    unfolding pfread_def fullpfpath_def by (intro settling settles_basics)
qed

lemma settles_bbsread: "settles (bbsread_main e args)"
proof -
  have "settles (open_sum e d)" for d
    unfolding open_sum_def Let_def by (intro settling settles_basics)
  moreover have "settles (pfnew e n)" "settles (pfwrite e)" for n
    unfolding pfnew_def fullpfpath_def pfwrite_def by (intro settling settles_basics)+
  ultimately show ?thesis
    unfolding bbsread_main_def
    by (intro settling settles_basics settles_usage settles_words settles_conf settles_main_loop)
qed

text \<open>
  C28: a session of the conference reader always ends: whatever the files, the command line and the
  commands typed, it exits, or it meets undefined behaviour. It never runs for ever, the fuel of its
  loops, taken from what is left of the input and of the sum file, is never used up, and \<open>main\<close> does
  not return.
\<close>

theorem bbsread_session_ends:
  "(\<exists>c t. bbsread_main e args s = (Exit c, t)) \<or> (\<exists>t. bbsread_main e args s = (Undef, t))"
proof -
  have pair: "no_return (case p of (x, y) \<Rightarrow> k x y)" if "\<And>x y. no_return (k x y)"
    for p :: "string \<times> int" and k :: "string \<Rightarrow> int \<Rightarrow> unit picop"
    using that by (cases p) simp
  have "no_return (bbsread_main e args)"
    unfolding bbsread_main_def bbs_usage_def usage_def complain_def
    by (intro no_return_rules pair)
  moreover obtain r t where "bbsread_main e args s = (r, t)" by fastforce
  ultimately show ?thesis
    using settles_bbsread [of e args]
    by (cases r) (auto simp: settles_run no_return_def dest!: spec [of _ s])
qed

end
