(* ===== verification/LetterGame.thy ===== *)
theory LetterGame
  imports CLib
begin

text \<open>
  The word guessing game \<open>soft/games/letter\<close>: the data file with its words and scores, reading a guess
  from a terminal in character mode, scoring, the record of each word, and \<open>main\<close>.
\<close>

section \<open>The state\<close>

text \<open>
  \<open>fdata\<close> is the open data file and \<open>fpos\<close> the position in it; \<open>nlet\<close> is the program's \<open>n\<close>; \<open>hashtab\<close>
  the offsets of the letters; \<open>hist\<close> the words guessed with their scores; \<open>in_cbreak\<close> the terminal's
  mode; \<open>guess_buf\<close> the bytes of \<open>main\<close>'s buffer that were ever written; \<open>target\<close> the chosen word once
  there is one; \<open>draws\<close> how many random numbers were taken.
\<close>

record letter = tty +
  fdata :: string
  fpos :: nat
  nlet :: int
  targets :: int
  desc :: string
  line1 :: nat
  hashtab :: "int list"
  hist :: "(string \<times> int) list"
  in_cbreak :: bool
  guess_buf :: string
  target :: "string option"
  wordno :: int
  guesses :: int
  draws :: nat

type_synonym 'a letterp = "('a, letter) prog"

text \<open>
  The environment: the command name, the files that can be opened for reading and those for writing
  too, whether standard input is a terminal, its special characters, the random numbers, the login
  name, and how \<open>printf\<close> shows the quotient of two numbers with one decimal.
\<close>

record letter_env =
  lname :: string
  datafile :: "string \<Rightarrow> string option"
  updatable :: "string \<Rightarrow> bool"
  stdin_tty :: bool
  eof_char :: char
  erase_char :: char
  kill_char :: char
  werase_char :: char
  random :: "nat \<Rightarrow> int"
  login_name :: "string option"
  show_average :: "int \<Rightarrow> int \<Rightarrow> string"

definition LINE :: nat where "LINE = 1024"


text \<open>A character of a line read, its NUL included; beyond that the buffer's older contents.\<close>

definition char_at :: "string \<Rightarrow> int \<Rightarrow> char option" where
  "char_at l i = (if i < 0 \<or> int (length l) < i then None else Some ((l @ [NUL]) ! nat i))"

text \<open>\<open>strncmp\<close> with an \<open>int\<close> length: a negative one is larger than any string.\<close>

definition ncmp :: "int \<Rightarrow> string \<Rightarrow> string \<Rightarrow> int" where
  "ncmp n a b = (if n < 0 then strcmp a b else strncmp a b (nat n))"

definition set_mode :: "bool \<Rightarrow> unit letterp" where
  "set_mode b = upd (\<lambda>s. s\<lparr>in_cbreak := b\<rparr>)"

definition letter_done :: "int \<Rightarrow> 'a letterp" where
  "letter_done rc = bnd (gets in_cbreak) (\<lambda>b. sq (whenP b (set_mode False)) (exit_prog rc))"

definition letter_fail :: "letter_env \<Rightarrow> string \<Rightarrow> 'a letterp" where
  "letter_fail e x = sq (puts (lname e @ '': '' @ x)) (letter_done 1)"

definition initmodes :: "letter_env \<Rightarrow> unit letterp" where
  "initmodes e = (if stdin_tty e then ret ()
     else sq (puts (lname e @ '': Input not a tty\<newline>'')) (exit_prog 1))"

section \<open>The data file\<close>

definition lines_from :: "nat \<Rightarrow> letter \<Rightarrow> string list" where
  "lines_from p s = pieces (LINE - 1) (drop p (fdata s))"

definition free_hist :: "unit letterp" where
  "free_hist = upd (\<lambda>s. s\<lparr>hist := []\<rparr>)"

definition show_hist :: "unit letterp" where
  "show_hist = bnd (gets id) (\<lambda>s. puts (replicate (nat (nlet s + 4)) (CHR ''-'') @ ''\<newline>''
     @ concat (map (\<lambda>(w, sc). if sc < 0 then '' '' @ w @ '' not in dictionary\<newline>''
         else '' '' @ w @ '' '' @ dec sc @ ''\<newline>'') (hist s))))"

text \<open>The loop that fills gaps with zeros.\<close>

fun zero_gaps :: "nat \<Rightarrow> nat \<Rightarrow> int list \<Rightarrow> int list" where
  "zero_gaps i 0 h = h"
| "zero_gaps i (Suc k) h = zero_gaps (Suc i) k (h[i := 0])"

text \<open>
  The loop of \<open>hash_file\<close>, with the position in front of the line: a message, or the table. \<open>lst\<close> is
  \<open>lastchar\<close>.
\<close>

fun hash_lines :: "int \<Rightarrow> int list \<Rightarrow> nat \<Rightarrow> int \<Rightarrow> string list \<Rightarrow> string + int list" where
  "hash_lines n h lst pos [] = Inr h"
| "hash_lines n h lst pos (l # ls) =
     (let bf = cstr l; c = hd (bf @ [NUL]); p = pos + int (length l); k = byte c - 97 in
      if int (length bf) \<noteq> n + 12 then Inl (''bad line in data file: '' @ bf @ ''\<newline>'')
      else if byte c = lst then hash_lines n h lst p ls
      else if \<not> islower c then Inl (''bad character '' @ [CHR 0x27, c, CHR 0x27] @ '' in data file\<newline>'')
      else hash_lines n ((zero_gaps (lst - 96) (k - (lst - 96)) h)[k := p - (n + 12)]) (byte c) p ls)"

definition hash_file :: "letter_env \<Rightarrow> unit letterp" where
  "hash_file e = bnd (gets id) (\<lambda>s.
     case hash_lines (nlet s) (hashtab s) 96 (int (line1 s)) (lines_from (line1 s) s) of
       Inl x \<Rightarrow> letter_fail e x
     | Inr h \<Rightarrow> upd (\<lambda>s. s\<lparr>hashtab := h, fpos := max (line1 s) (length (fdata s))\<rparr>))"

text \<open>
  The search from a letter's offset; \<open>None\<close> where the function ends without a return. The offset
  is cut to the \<open>int\<close> that \<open>find_word\<close> returns.
\<close>

fun find_lines :: "string \<Rightarrow> int \<Rightarrow> int \<Rightarrow> string list \<Rightarrow> int option" where
  "find_lines w n pos [] = None"
| "find_lines w n pos (l # ls) =
     (let p = pos + int (length l); c = ncmp n w (cstr l) in
      if c = 0 then Some (p - (n + 12)) else if c < 0 then Some 0 else find_lines w n p ls)"

definition find_word :: "string \<Rightarrow> int letterp" where
  "find_word w = bnd (gets id) (\<lambda>s.
     let k = int (byte (hd (w @ [NUL]))) - 97 in
     if k < 0 \<or> 26 \<le> k then undef
     else let o1 = hashtab s ! nat k in
       if o1 = 0 then ret 0
       else case find_lines w (nlet s) o1 (lines_from (nat o1) s) of None \<Rightarrow> undef | Some r \<Rightarrow> ret (s32 r))"

section \<open>Scoring a guess\<close>

fun same_places :: "string \<Rightarrow> string \<Rightarrow> int" where
  "same_places (a # as) (b # bs) = (if a = b then 1 else 0) + same_places as bs"
| "same_places _ _ = 0"

definition check_word :: "string \<Rightarrow> string \<Rightarrow> bool letterp" where
  "check_word guess tgt = bnd (gets nlet) (\<lambda>n.
     if ncmp n guess tgt = 0 then sq (puts ('' '' @ dec n @ '' YES!\<newline>'')) (ret True)
     else bnd (find_word guess) (\<lambda>r.
       let w = take (nat n) guess in
       if r = 0 then sq (upd (\<lambda>s. s\<lparr>hist := hist s @ [(w, -1)]\<rparr>))
           (sq (puts '' not in dictionary.\<newline>'') (ret False))
       else let sc = same_places w (take (nat n) tgt) in
         sq (upd (\<lambda>s. s\<lparr>hist := hist s @ [(w, sc)]\<rparr>))
           (sq (puts ('' '' @ dec sc @ ''\<newline>'')) (ret False))))"

text \<open>The choice of a word: the \<open>i\<close>-th line with a digit behind the word, and its number.\<close>

datatype choice = Chosen string int | Nothing int | Beyond

fun choose_lines :: "int \<Rightarrow> int \<Rightarrow> int \<Rightarrow> string list \<Rightarrow> choice" where
  "choose_lines n i k [] = Nothing k"
| "choose_lines n i k (l # ls) =
     (case char_at (cstr l) n of
        None \<Rightarrow> Beyond
      | Some c \<Rightarrow> if \<not> isdigit c then choose_lines n i (k + 1) ls
          else if i = 0 then Chosen (take (nat n) (cstr l)) k
          else choose_lines n (i - 1) (k + 1) ls)"

definition choose_word :: "letter_env \<Rightarrow> unit letterp" where
  "choose_word e = bnd (gets id) (\<lambda>s.
     if targets s = 0 then undef
     else let i = random e (draws s) smod targets s in
       sq (upd (\<lambda>s. s\<lparr>draws := draws s + 1\<rparr>))
       (case choose_lines (nlet s) i 0 (lines_from (line1 s) s) of
          Chosen w k \<Rightarrow> upd (\<lambda>s. s\<lparr>target := Some w, wordno := k\<rparr>)
        | Nothing k \<Rightarrow> upd (\<lambda>s. s\<lparr>wordno := k\<rparr>)
        | Beyond \<Rightarrow> undef))"

section \<open>The record of a word\<close>

definition pad_zero :: "nat \<Rightarrow> string \<Rightarrow> string" where
  "pad_zero k x = replicate (k - length x) (CHR ''0'') @ x"

definition score_line :: "int \<Rightarrow> string \<Rightarrow> int \<Rightarrow> string \<Rightarrow> string" where
  "score_line n w g user =
     (let x = take (nat (n + 11)) (take (LINE - 1) (w @ pad_zero 3 (dec g) @ user))
      in x @ replicate (nat (n + 11) - length x) (CHR ''*'') @ ''\<newline>'')"

text \<open>The holder of a record: up to eight characters in front of a star, or the rest of the line.\<close>

definition record_holder :: "string \<Rightarrow> string" where
  "record_holder x = (if CHR ''*'' \<in> set (take 8 x) then takeWhile (\<lambda>c. c \<noteq> CHR ''*'') x else x)"

definition beat_text :: "bool \<Rightarrow> string \<Rightarrow> int \<Rightarrow> string" where
  "beat_text better user old = ''You '' @ (if better then [] else ''did not '')
     @ ''beat the previous record for this word: '' @ user @ '' '' @ dec old @ '' guesses\<newline>''"

definition put_bytes :: "nat \<Rightarrow> string \<Rightarrow> string \<Rightarrow> string" where
  "put_bytes p x f = take p f @ replicate (p - length f) NUL @ x @ drop (p + length x) f"

definition write_score :: "letter_env \<Rightarrow> string \<Rightarrow> int \<Rightarrow> nat \<Rightarrow> unit letterp" where
  "write_score e w g p = (case login_name e of
     None \<Rightarrow> puts ''Who are you?  Score not saved.\<newline>''
   | Some user \<Rightarrow> upd (\<lambda>s. let x = score_line (nlet s) w g user in
       s\<lparr>fdata := put_bytes p x (fdata s), fpos := p + length x\<rparr>))"

definition save_score :: "letter_env \<Rightarrow> string \<Rightarrow> int \<Rightarrow> int \<Rightarrow> unit letterp" where
  "save_score e w k g = bnd (gets id) (\<lambda>s.
     let p = nat (k * (nlet s + 12) + int (line1 s)) in
     case lines_from p s of
       [] \<Rightarrow> puts ''Could not read data file line back.  Score not saved.\<newline>''
     | l # ls \<Rightarrow> let bf = cstr l in
         if ncmp (nlet s) w bf \<noteq> 0 then puts ''Data file change?  Score not saved.\<newline>''
         else case char_at bf (nlet s) of
             None \<Rightarrow> undef
           | Some c \<Rightarrow>
               if \<not> isdigit c then puts ''Data line lacks score slot.  Score not saved.\<newline>''
               else let old = atoi (drop (nat (nlet s)) bf) in
                 if 0 < old
                 then if int (length bf) < nlet s + 3 then undef
                   else sq (puts (beat_text (g < old) (record_holder (drop (nat (nlet s) + 3) bf)) old))
                     (if old \<le> g then ret () else write_score e w g p)
                 else write_score e w g p)"

section \<open>Reading a guess\<close>

abbreviation BEL :: char where "BEL \<equiv> CHR 0x07"
abbreviation BS :: char where "BS \<equiv> CHR 0x08"

definition rub_out :: "nat \<Rightarrow> string" where
  "rub_out i = concat (replicate i [BS, SPC, BS])"

definition hist_text :: "letter \<Rightarrow> string" where
  "hist_text s = tout (snd (show_hist (s\<lparr>tout := []\<rparr>)))"

text \<open>
  The loop of \<open>readword\<close> over the keys typed: it stops with 0 on a whole word or 1 on the end of the
  input, quits, or leaves the buffer. \<open>h\<close> is the text of the history, \<open>o1\<close> what was printed so far.
\<close>

datatype keys = Stop bool nat string string string | Quit string string string | Wild

fun read_keys :: "letter_env \<Rightarrow> int \<Rightarrow> string \<Rightarrow> string \<Rightarrow> nat \<Rightarrow> string \<Rightarrow> string \<Rightarrow> keys" where
  "read_keys e n h o1 i bf [] = Stop True i bf o1 []"
| "read_keys e n h o1 i bf (c # cs) =
     (let ch = tolower c in
      if islower ch then
        (if int i < n then
           (if LINE < i then Wild else read_keys e n h (o1 @ [ch]) (Suc i) (put_at NUL i ch bf) cs)
         else read_keys e n h (o1 @ [BEL]) i bf cs)
      else if ch = NL then
        (if int i = n then (if LINE < i then Wild else Stop False i (put_at NUL i NUL bf) o1 cs)
         else if 1 < n then
           (if hd (bf @ [NUL]) = CHR ''q'' then Quit bf (o1 @ ''\<newline>'') cs
            else if hd (bf @ [NUL]) = CHR ''r'' then read_keys e n h (o1 @ ''\<newline>'' @ h @ ''?'') 0 bf cs
            else read_keys e n h (o1 @ [BEL]) i bf cs)
         else read_keys e n h (o1 @ [BEL]) i bf cs)
      else if ch = eof_char e then Stop True i bf o1 cs
      else if ch = erase_char e then
        (if 0 < i then read_keys e n h (o1 @ rub_out 1) (i - 1) bf cs
         else read_keys e n h (o1 @ [BEL]) i bf cs)
      else if ch = kill_char e \<or> ch = werase_char e then read_keys e n h (o1 @ rub_out i) 0 bf cs
      else if ch = CHR 0x0C \<or> ch = CHR 0x12 then
        read_keys e n h (o1 @ replicate (i + 1) BS @ replicate (i + 1) SPC @ replicate (i + 1) BS
          @ h @ ''?'' @ take i bf) i bf cs
      else read_keys e n h o1 i bf cs)"

text \<open>The result is true when the game should end.\<close>

definition readword :: "letter_env \<Rightarrow> bool letterp" where
  "readword e = bnd (gets id) (\<lambda>s.
     case read_keys e (nlet s) (hist_text s) ''?'' 0 (guess_buf s) (tin s) of
       Wild \<Rightarrow> undef
     | Quit bf o1 cs \<Rightarrow> sq (upd (\<lambda>s. s\<lparr>tin := cs, guess_buf := bf, tout := tout s @ o1\<rparr>)) (ret True)
     | Stop rc i bf o1 cs \<Rightarrow>
         sq (upd (\<lambda>s. s\<lparr>tin := cs, guess_buf := bf,
               tout := tout s @ o1 @ replicate (i + 1) BS @ '' '' @ take i bf\<rparr>)) (ret rc))"

text \<open>The loop of \<open>yes\<close>: the answer, the text printed, the rest of the input.\<close>

fun yes_keys :: "letter_env \<Rightarrow> bool \<Rightarrow> bool \<Rightarrow> string \<Rightarrow> string \<Rightarrow> bool \<times> string \<times> string" where
  "yes_keys e got rc o1 [] = (False, o1 @ ''\<newline>'', [])"
| "yes_keys e got rc o1 (c # cs) =
     (let trc = (c = CHR ''Y'' \<or> c = CHR ''y'') in
      if trc \<or> c = CHR ''n'' \<or> c = CHR ''N'' then yes_keys e True trc (o1 @ [c]) cs
      else if c = NL then (got \<and> rc, o1 @ ''\<newline>'', cs)
      else if c = erase_char e \<or> c = kill_char e then
        (if got then yes_keys e False rc (o1 @ rub_out 1) cs else yes_keys e got rc o1 cs)
      else if c = eof_char e then (False, o1 @ ''\<newline>'', cs)
      else yes_keys e got rc (o1 @ [BEL]) cs)"

definition yes :: "letter_env \<Rightarrow> bool letterp" where
  "yes e = bnd (gets id) (\<lambda>s. let (rc, o1, cs) = yes_keys e False False [] (tin s) in
     sq (upd (\<lambda>s. s\<lparr>tin := cs, tout := tout s @ o1\<rparr>)) (ret rc))"

section \<open>The summary of scores\<close>

record sc =
  sc_login :: string
  sc_games :: int
  sc_total :: int

fun add_score :: "string \<Rightarrow> int \<Rightarrow> sc list \<Rightarrow> sc list" where
  "add_score u v [] = [\<lparr>sc_login = u, sc_games = 1, sc_total = v\<rparr>]"
| "add_score u v (x # xs) =
     (if strncmp u (sc_login x) 8 = 0 then x\<lparr>sc_games := sc_games x + 1, sc_total := sc_total x + v\<rparr> # xs
      else x # add_score u v xs)"

text \<open>\<open>None\<close> where a line is too short for the place the program looks at.\<close>

fun gather :: "int \<Rightarrow> sc list \<Rightarrow> string list \<Rightarrow> sc list option" where
  "gather n acc [] = Some acc"
| "gather n acc (l # ls) =
     (let bf = cstr l in
      case char_at bf n of
        None \<Rightarrow> None
      | Some c \<Rightarrow>
          let v = atoi (drop (nat n) bf) in
          if isdigit c \<and> 0 < v
          then if int (length bf) < n + 3 then None
            else gather n (add_score (take 8 (drop (nat n + 3) bf)) v acc) ls
          else gather n acc ls)"

definition score_row :: "letter_env \<Rightarrow> sc \<Rightarrow> string" where
  "score_row e x = map (\<lambda>c. if c = CHR ''*'' then SPC else c) (sc_login x @ replicate (8 - length (sc_login x)) NUL)
     @ pad_left 5 (dec (sc_games x)) @ '' '' @ pad_left 7 (show_average e (sc_total x) (sc_games x)) @ ''\<newline>''"

text \<open>The logins are all different, so any sorting gives this order.\<close>

definition show_score :: "letter_env \<Rightarrow> unit letterp" where
  "show_score e = bnd (gets id) (\<lambda>s. case gather (nlet s) [] (lines_from (fpos s) s) of
     None \<Rightarrow> undef
   | Some scs \<Rightarrow> puts (''user     games average\<newline>----------------------\<newline>''
       @ concat (map (score_row e) (sort_key sc_login scs))))"

section \<open>The game\<close>

definition guess_round :: "letter_env \<Rightarrow> bool letterp" where
  "guess_round e = bnd (readword e) (\<lambda>quit. bnd (gets id) (\<lambda>s. case target s of
     None \<Rightarrow> undef
   | Some w \<Rightarrow>
       if quit then sq (puts (''The word was: '' @ w @ ''\<newline>'')) (letter_done 0)
       else sq (upd (\<lambda>s. s\<lparr>guesses := guesses s + 1\<rparr>))
         (bnd (check_word (cstr (guess_buf s)) w) (\<lambda>won. ret (\<not> won)))))"

definition play_round :: "letter_env \<Rightarrow> bool \<Rightarrow> bool letterp" where
  "play_round e nosave =
     sq (choose_word e) (sq free_hist (sq (puts ''Word chosen...\<newline>'')
     (sq (upd (\<lambda>s. s\<lparr>guesses := 0\<rparr>))
     (sq (bnd (gets (\<lambda>s. length (tin s))) (\<lambda>k. iter (Suc k) (guess_round e)))
     (bnd (gets id) (\<lambda>s.
       sq (puts (''Got it in '' @ dec (guesses s) @ '' guess'' @ (if guesses s \<noteq> 1 then ''es'' else []) @ ''.\<newline>''))
       (sq (whenP (\<not> nosave) (case target s of None \<Rightarrow> undef | Some w \<Rightarrow> save_score e w (wordno s) (guesses s)))
       (sq (puts ''Again? '') (yes e)))))))))"

definition DICT_DIR :: string where "DICT_DIR = ''/cyberspace/var/letter''"

definition optfiles :: "(string \<times> string) list" where
  "optfiles = map (\<lambda>k. (dec k, DICT_DIR @ ''/word-'' @ pad_zero 2 (dec k)))
     [1, 2, 3, 4, 5, 6, 7, 8, 9, 10, 11, 12, 13, 14, 15, 16, 17, 18, 19, 20]"

text \<open>The file and whether the scores are asked for.\<close>

fun letter_args :: "letter_env \<Rightarrow> string \<times> bool \<Rightarrow> string list \<Rightarrow> (string \<times> bool) letterp" where
  "letter_args e w [] = ret w"
| "letter_args e (f, sc) (a # as) =
     (if a \<noteq> [] \<and> hd a = CHR ''-'' then
        (if a = ''-s'' then letter_args e (f, True) as
         else case map_of optfiles (tl a) of
             Some p \<Rightarrow> letter_args e (p, sc) as
           | None \<Rightarrow> letter_fail e (''Unknown option -'' @ tl a @ ''\<newline>''))
      else letter_args e (a, sc) as)"

text \<open>The header: three numbers, and what follows them after blanks.\<close>

definition scan_header :: "string \<Rightarrow> (int \<times> int \<times> int \<times> string) option" where
  "scan_header x = (case scan_int x of ScanOk a r1 \<Rightarrow> (case scan_int r1 of ScanOk b r2 \<Rightarrow>
     (case scan_int r2 of ScanOk c r3 \<Rightarrow> Some (a, b, c, dropWhile isspace r3) | _ \<Rightarrow> None) | _ \<Rightarrow> None) | _ \<Rightarrow> None)"

definition letter_main :: "letter_env \<Rightarrow> string list \<Rightarrow> unit letterp" where
  "letter_main e args = bnd (letter_args e (DICT_DIR @ ''/word-05'', False) args) (\<lambda>(f, score).
     case datafile e f of
       None \<Rightarrow> letter_fail e (''Cannot open data file '' @ f @ '' to read\<newline>'')
     | Some d \<Rightarrow>
       let nosave = (\<not> updatable e f); (hdr, rest) = take_line (LINE - 1) d in
       sq (whenP (nosave \<and> \<not> score)
         (puts (''Cannot open data file '' @ f @ '' to write.\<newline>Scores will not be saved.\<newline>'')))
       (if d = [] then letter_fail e (''Cannot read header from data file '' @ f @ ''\<newline>'')
        else case scan_header (cstr hdr) of
            None \<Rightarrow> letter_fail e (''Bad header format in data file '' @ f @ ''\<newline>'')
          | Some (a, b, c, x) \<Rightarrow>
              sq (upd (\<lambda>s. s\<lparr>fdata := d, line1 := length hdr, fpos := length hdr, guess_buf := hdr @ [NUL],
                    nlet := a, targets := c, desc := x\<rparr>))
              (if score then sq (show_score e) (exit_prog 0)
               else sq (hash_file e) (sq (initmodes e) (sq (set_mode True)
                 (sq (puts (x @ ''\<newline>''))
                 (sq (bnd (gets (\<lambda>s. length (tin s))) (\<lambda>k. iter (Suc k) (play_round e nosave)))
                  (letter_done 0))))))))"

definition letter_start :: "string \<Rightarrow> letter" where
  "letter_start input = \<lparr>tin = input, tout = [], fdata = [], fpos = 0, nlet = 0, targets = 0, desc = [],
     line1 = 0, hashtab = replicate 26 0, hist = [], in_cbreak = False, guess_buf = [], target = None,
     wordno = 0, guesses = 0, draws = 0\<rparr>"

end
