(* ===== verification/LetterFacts.thy ===== *)
theory LetterFacts
  imports LetterGame
begin

text \<open>
  The data file of the word game: what a well-formed dictionary looks like, what looking a word up in it
  gives, and what saving a score does to it.
\<close>

section \<open>Dictionaries\<close>

text \<open>What stands behind a word: it is no target, it was not solved yet, or the best score and its holder.\<close>

datatype slot = Plain | Unsolved | Best nat string

fun slot_text :: "slot \<Rightarrow> string" where
  "slot_text Plain = replicate 11 (CHR ''*'')"
| "slot_text Unsolved = ''000'' @ replicate 8 (CHR ''*'')"
| "slot_text (Best g u) = pad_zero 3 (dec (int g)) @ take 8 u @ replicate (8 - length u) (CHR ''*'')"

definition login_ok :: "string \<Rightarrow> bool" where
  "login_ok u \<longleftrightarrow> NL \<notin> set u \<and> NUL \<notin> set u \<and> CHR ''*'' \<notin> set u \<and> (u \<noteq> [] \<longrightarrow> \<not> isdigit (hd u))"

fun slot_ok :: "slot \<Rightarrow> bool" where
  "slot_ok (Best g u) \<longleftrightarrow> 0 < g \<and> g < 1000 \<and> login_ok u"
| "slot_ok _ \<longleftrightarrow> True"

type_synonym entry = "string \<times> slot"

definition entry_line :: "entry \<Rightarrow> string" where
  "entry_line x = fst x @ slot_text (snd x) @ [NL]"

definition word_ok :: "nat \<Rightarrow> string \<Rightarrow> bool" where
  "word_ok n w \<longleftrightarrow> length w = n \<and> list_all islower w"

definition dict_ok :: "nat \<Rightarrow> entry list \<Rightarrow> bool" where
  "dict_ok n es \<longleftrightarrow> 0 < n \<and> n + 12 < LINE \<and> (\<forall>x\<in>set es. word_ok n (fst x) \<and> slot_ok (snd x)) \<and> sorted (map fst es)"

definition dict_file :: "nat \<Rightarrow> string \<Rightarrow> entry list \<Rightarrow> letter \<Rightarrow> bool" where
  "dict_file n hdr es s \<longleftrightarrow> dict_ok n es \<and> nlet s = int n \<and> hdr \<noteq> [] \<and> line1 s = length hdr \<and>
     fdata s = hdr @ concat (map entry_line es) \<and> length (fdata s) < 2 ^ 31"

lemma dec_nat_length: "n < 1000 \<Longrightarrow> length (dec_nat n) \<le> 3"
  by (subst dec_nat.simps, subst dec_nat.simps, subst dec_nat.simps) auto

lemma dec_length: "g < 1000 \<Longrightarrow> length (dec (int g)) \<le> 3"
  by (simp add: dec_def dec_nat_length)

lemma slot_text_length: "slot_ok x \<Longrightarrow> length (slot_text x) = 11"
  using dec_length by (cases x) (auto simp: pad_zero_def)

lemma dec_plain: "c \<in> set (dec (int g)) \<Longrightarrow> isdigit c"
  using dec_nat_digits by (auto simp: dec_def)

lemma pad_plain: "c \<in> set (pad_zero k (dec (int g))) \<Longrightarrow> isdigit c"
  by (auto simp: pad_zero_def isdigit_def dest: dec_plain)

lemma digit_no_end: "\<not> isdigit NL" "\<not> isdigit NUL" "\<not> isdigit (CHR ''*'')"
  by (auto simp: isdigit_def)

lemma slot_text_plain: "slot_ok x \<Longrightarrow> NL \<notin> set (slot_text x) \<and> NUL \<notin> set (slot_text x)"
  by (cases x) (auto simp: login_ok_def digit_no_end dest: pad_plain in_set_takeD)

lemma lower_no_end: "list_all islower w \<Longrightarrow> NL \<notin> set w \<and> NUL \<notin> set w"
  by (auto simp: list_all_iff islower_def)

lemma entry_lines:
  assumes "word_ok n (fst x)" and "slot_ok (snd x)"
  shows "length (entry_line x) = n + 12" and "cstr (entry_line x) = entry_line x"
    and "take n (entry_line x) = fst x" and "drop n (entry_line x) = slot_text (snd x) @ [NL]"
  using assms slot_text_length slot_text_plain lower_no_end
  by (auto simp: entry_line_def word_ok_def intro!: cstr_id)

lemma entry_pieces:
  assumes "word_ok n (fst x)" and "slot_ok (snd x)" and "n + 12 < LINE"
  shows "pieces (LINE - 1) (entry_line x @ rest) = entry_line x # pieces (LINE - 1) rest"
proof -
  have "NL \<notin> set (fst x @ slot_text (snd x))" "length (fst x @ slot_text (snd x)) < LINE - 1"
    using assms slot_text_length slot_text_plain lower_no_end by (auto simp: word_ok_def)
  from pieces_line [OF this] show ?thesis by (simp add: entry_line_def)
qed

lemma entries_pieces:
  "dict_ok n es \<Longrightarrow> pieces (LINE - 1) (concat (map entry_line es)) = map entry_line es"
  unfolding dict_ok_def by (induction es) (auto simp: entry_pieces simp del: diff_Suc_1 One_nat_def)

lemma entries_length:
  "\<forall>x\<in>set es. word_ok n (fst x) \<and> slot_ok (snd x) \<Longrightarrow> length (concat (map entry_line es)) = (n + 12) * length es"
  by (induction es) (auto simp: entry_lines)

lemma dict_ok_drop: "dict_ok n es \<Longrightarrow> dict_ok n (drop k es)"
  by (auto simp: dict_ok_def drop_map [symmetric] dest: in_set_dropD)

text \<open>Reading from the start of an entry gives this entry and all that follow.\<close>

lemma lines_from_entry:
  assumes "dict_file n hdr es s" and "k \<le> length es"
  shows "lines_from (length hdr + (n + 12) * k) s = map entry_line (drop k es)"
proof -
  have ok: "dict_ok n es" and f: "fdata s = hdr @ concat (map entry_line es)"
    using assms(1) by (simp_all add: dict_file_def)
  have "\<forall>x\<in>set (take k es). word_ok n (fst x) \<and> slot_ok (snd x)"
    using ok by (auto simp: dict_ok_def dest: in_set_takeD)
  from entries_length [OF this] assms(2)
  have "drop ((n + 12) * k) (concat (map entry_line (take k es)) @ concat (map entry_line (drop k es)))
      = concat (map entry_line (drop k es))"
    by simp
  then have "drop (length hdr + (n + 12) * k) (fdata s) = concat (map entry_line (drop k es))"
    by (simp add: f flip: concat_append map_append drop_drop)
  with entries_pieces [OF dict_ok_drop [OF ok]] show ?thesis by (simp add: lines_from_def)
qed

section \<open>Looking a word up\<close>

text \<open>The number of entries in front of the first one with a property.\<close>

definition ahead :: "('a \<Rightarrow> bool) \<Rightarrow> 'a list \<Rightarrow> nat" where
  "ahead P xs = length (takeWhile (\<lambda>x. \<not> P x) xs)"

lemma ahead_simps [simp]:
  "ahead P [] = 0" "ahead P (x # xs) = (if P x then 0 else Suc (ahead P xs))"
  by (simp_all add: ahead_def)

lemma ahead_le: "ahead P xs \<le> length xs"
  by (simp add: ahead_def length_takeWhile_le)

lemma strncmp_entry:
  assumes "word_ok n (fst x)" and "slot_ok (snd x)" and "length w = n"
  shows "ncmp (int n) w (cstr (entry_line x)) = strcmp w (fst x)"
  using assms by (simp add: ncmp_def strncmp_def entry_lines)

lemma find_lines_entries:
  assumes "\<forall>x\<in>set es. word_ok n (fst x) \<and> slot_ok (snd x)" and "sorted (map fst es)" and "length w = n"
  shows "find_lines w (int n) p (map entry_line es) =
    (if w \<in> fst ` set es then Some (p + int ((n + 12) * ahead (\<lambda>x. fst x = w) es))
     else if \<exists>x\<in>set es. w < fst x then Some 0 else None)"
  using assms
proof (induction es arbitrary: p)
  case (Cons x es)
  note e = strncmp_entry [of n x w] entry_lines [of n x]
  have tail: "find_lines w (int n) (p + int (n + 12)) (map entry_line es) =
    (if w \<in> fst ` set es then Some (p + int (n + 12) + int ((n + 12) * ahead (\<lambda>x. fst x = w) es))
     else if \<exists>x\<in>set es. w < fst x then Some 0 else None)"
    using Cons by simp
  have up: "w < fst x \<Longrightarrow> w \<notin> fst ` set es" using Cons.prems(2) by auto
  consider "w = fst x" | "w < fst x" | "fst x < w" by fastforce
  then show ?case
  proof cases
    case 3
    then have "\<not> strcmp w (fst x) < 0" "strcmp w (fst x) \<noteq> 0" by (auto simp: strcmp_less_iff)
    then show ?thesis using e Cons.prems 3 tail by (auto simp: Let_def algebra_simps)
  qed (use e Cons.prems up in \<open>auto simp: Let_def strcmp_less_iff\<close>)
qed simp

text \<open>The table of offsets holds for each letter where its first word starts.\<close>

lemma nth_zero_gaps: "k < length h \<Longrightarrow> zero_gaps i m h ! k = (if i \<le> k \<and> k < i + m then 0 else h ! k)"
  by (induction i m h rule: zero_gaps.induct) (auto simp: nth_list_update)

lemma length_zero_gaps [simp]: "length (zero_gaps i m h) = length h"
  by (induction i m h rule: zero_gaps.induct) auto

abbreviation letter_of :: "entry \<Rightarrow> nat" where "letter_of x \<equiv> byte (hd (fst x))"

lemma hash_lines_entries:
  assumes "\<forall>x\<in>set es. word_ok n (fst x) \<and> slot_ok (snd x) \<and> lst \<le> letter_of x" and "sorted (map letter_of es)"
    and "0 < n" and "length h = 26" and "96 \<le> lst" and "\<forall>k<26. lst \<le> k + 96 \<longrightarrow> h ! k = 0"
  shows "\<exists>h'. hash_lines (int n) h lst p (map entry_line es) = Inr h' \<and> length h' = 26 \<and>
    (\<forall>k<26. h' ! k = (if k + 97 \<le> lst then h ! k
      else if \<exists>x\<in>set es. letter_of x = k + 97 then p + int ((n + 12) * ahead (\<lambda>x. letter_of x = k + 97) es) else 0))"
  using assms
proof (induction es arbitrary: lst h p)
  case Nil
  then show ?case by simp
next
  case (Cons x es)
  let ?c = "letter_of x"
  have x: "word_ok n (fst x)" "slot_ok (snd x)" "lst \<le> ?c" using Cons.prems(1) by auto
  note e = entry_lines [OF x(1,2)]
  have ne: "fst x \<noteq> []" using x(1) Cons.prems(3) by (auto simp: word_ok_def)
  then have hd: "hd (entry_line x @ [NUL]) = hd (fst x)" by (simp add: entry_line_def)
  have low: "islower (hd (fst x))" using x(1) ne by (cases "fst x") (auto simp: word_ok_def)
  then have c: "97 \<le> ?c" "?c \<le> 122" by (auto simp: islower_def)
  have later: "\<forall>y\<in>set es. word_ok n (fst y) \<and> slot_ok (snd y) \<and> ?c \<le> letter_of y" "sorted (map letter_of es)"
    using Cons.prems(1,2) by auto
  have no_less: "k + 97 < ?c \<Longrightarrow> \<not> (\<exists>y\<in>set es. letter_of y = k + 97)" for k using later(1) by fastforce
  show ?case
  proof (cases "?c = lst")
    case True
    have step: "hash_lines (int n) h lst p (map entry_line (x # es))
        = hash_lines (int n) h lst (p + int (n + 12)) (map entry_line es)"
      by (simp add: Let_def e hd True algebra_simps)
    obtain h' where "hash_lines (int n) h lst (p + int (n + 12)) (map entry_line es) = Inr h'" "length h' = 26"
      "\<forall>k<26. h' ! k = (if k + 97 \<le> lst then h ! k else if \<exists>x\<in>set es. letter_of x = k + 97
        then p + int (n + 12) + int ((n + 12) * ahead (\<lambda>x. letter_of x = k + 97) es) else 0)"
      using Cons.IH [of lst h "p + int (n + 12)"] later Cons.prems(3-6) True by auto
    then show ?thesis unfolding step using True by (auto simp: algebra_simps)
  next
    case False
    define g where "g = (zero_gaps (lst - 96) (?c - 97 - (lst - 96)) h)[?c - 97 := p]"
    have step: "hash_lines (int n) h lst p (map entry_line (x # es))
        = hash_lines (int n) g ?c (p + int (n + 12)) (map entry_line es)"
      using False low by (simp add: Let_def e hd algebra_simps g_def)
    have g: "length g = 26" "k < 26 \<Longrightarrow> g ! k = (if k + 97 = ?c then p
        else if lst < k + 97 \<and> k + 97 < ?c then 0 else h ! k)" for k
      using Cons.prems(4,5) x(3) c by (auto simp: g_def nth_list_update nth_zero_gaps)
    have "\<forall>k<26. ?c \<le> k + 96 \<longrightarrow> g ! k = 0" "96 \<le> ?c" using Cons.prems(6) x(3) c(1) g(2) by auto
    then obtain h' where "hash_lines (int n) g ?c (p + int (n + 12)) (map entry_line es) = Inr h'" "length h' = 26"
      "\<forall>k<26. h' ! k = (if k + 97 \<le> ?c then g ! k else if \<exists>x\<in>set es. letter_of x = k + 97
        then p + int (n + 12) + int ((n + 12) * ahead (\<lambda>x. letter_of x = k + 97) es) else 0)"
      using Cons.IH [OF later Cons.prems(3) g(1), of "p + int (n + 12)"] by blast
    then show ?thesis unfolding step using False x(3) no_less g(2) by (auto simp: algebra_simps)
  qed
qed

lemma letter_mono: "w \<le> v \<Longrightarrow> w \<noteq> [] \<Longrightarrow> byte (hd w) \<le> byte (hd v)"
  by (cases w; cases v) (auto simp: less_char_def)

lemma letter_less: "byte (hd w) < byte (hd v) \<Longrightarrow> w \<noteq> [] \<Longrightarrow> v \<noteq> [] \<Longrightarrow> w < v"
  by (cases w; cases v) (auto simp: less_char_def)

lemma dict_ok_letters: "dict_ok n es \<Longrightarrow> sorted (map letter_of es)"
  unfolding dict_ok_def by (induction es) (auto simp: word_ok_def intro!: letter_mono)

lemma dict_ok_nonempty: "dict_ok n es \<Longrightarrow> x \<in> set es \<Longrightarrow> fst x \<noteq> []"
  by (auto simp: dict_ok_def word_ok_def)

lemma letter_range:
  assumes "word_ok n w" and "0 < n"
  shows "97 \<le> byte (hd w)" and "byte (hd w) \<le> 122"
  using assms by (cases w; auto simp: word_ok_def islower_def)+

lemma hash_file_runs:
  assumes "dict_file n hdr es s" and "hashtab s = replicate 26 0"
  shows "\<exists>h q. hash_file e s = (Ret (), s\<lparr>hashtab := h, fpos := q\<rparr>) \<and> (\<forall>k<26. h ! k =
    (if \<exists>x\<in>set es. letter_of x = k + 97
     then int (length hdr) + int ((n + 12) * ahead (\<lambda>x. letter_of x = k + 97) es) else 0))"
proof -
  have ok: "dict_ok n es" and n: "nlet s = int n" "line1 s = length hdr"
    using assms(1) by (simp_all add: dict_file_def)
  have "\<forall>x\<in>set es. word_ok n (fst x) \<and> slot_ok (snd x) \<and> 96 \<le> letter_of x" "0 < n"
    using ok by (fastforce simp: dict_ok_def dest: letter_range(1))+
  from hash_lines_entries [OF this(1) dict_ok_letters [OF ok] this(2), of "replicate 26 0" "int (length hdr)"]
  obtain h where h: "hash_lines (int n) (replicate 26 0) 96 (int (length hdr)) (map entry_line es) = Inr h"
    "\<forall>k<26. h ! k = (if \<exists>x\<in>set es. letter_of x = k + 97
     then int (length hdr) + int ((n + 12) * ahead (\<lambda>x. letter_of x = k + 97) es) else 0)"
    by auto
  have "lines_from (length hdr) s = map entry_line es" using lines_from_entry [OF assms(1), of 0] by simp
  with h n assms(2) have "hash_file e s = (Ret (), s\<lparr>hashtab := h, fpos := max (line1 s) (length (fdata s))\<rparr>)"
    by (simp add: hash_file_def run_simps)
  with h(2) show ?thesis by blast
qed

text \<open>Splitting a list in front of the first element with a weaker property.\<close>

lemma ahead_drop:
  "\<forall>x\<in>set xs. P x \<longrightarrow> Q x \<Longrightarrow> (\<exists>x\<in>set xs. P x) \<Longrightarrow> ahead P xs = ahead Q xs + ahead P (drop (ahead Q xs) xs)"
  by (induction xs) auto

lemma in_drop_ahead:
  "\<forall>x\<in>set xs. P x \<longrightarrow> Q x \<Longrightarrow> (\<exists>x\<in>set (drop (ahead Q xs) xs). P x) \<longleftrightarrow> (\<exists>x\<in>set xs. P x)"
  by (induction xs) auto

lemma in_drop_ahead_sorted:
  assumes "sorted (map letter_of es)" and "\<exists>y\<in>set es. letter_of y = c" and "\<forall>x\<in>set es. P x \<longrightarrow> c \<le> letter_of x"
  shows "(\<exists>x\<in>set (drop (ahead (\<lambda>x. letter_of x = c) es) es). P x) \<longleftrightarrow> (\<exists>x\<in>set es. P x)"
  using assms by (induction es) (auto simp: not_le)

definition looked_up :: "nat \<Rightarrow> string \<Rightarrow> entry list \<Rightarrow> string \<Rightarrow> int outcome" where
  "looked_up n hdr es w =
     (if w \<in> fst ` set es then Ret (int (length hdr + (n + 12) * ahead (\<lambda>x. fst x = w) es))
      else if (\<exists>x\<in>set es. hd (fst x) = hd w) \<and> (\<forall>x\<in>set es. fst x < w) then Undef
      else Ret 0)"

lemma offset_small:
  assumes "dict_file n hdr es s" and "k \<le> length es"
  shows "length hdr + (n + 12) * k < 2 ^ 31"
proof -
  have "length (fdata s) = length hdr + (n + 12) * length es"
    using assms(1) entries_length [of es n] by (simp add: dict_file_def dict_ok_def)
  moreover have "(n + 12) * k \<le> (n + 12) * length es" using assms(2) by (rule mult_le_mono2)
  ultimately show ?thesis using assms(1) by (simp only: dict_file_def) linarith
qed

lemma find_word_entries:
  assumes d: "dict_file n hdr es s" and w: "word_ok n w"
    and h: "\<forall>k<26. hashtab s ! k = (if \<exists>x\<in>set es. letter_of x = k + 97
     then int (length hdr) + int ((n + 12) * ahead (\<lambda>x. letter_of x = k + 97) es) else 0)"
  shows "find_word w s = (looked_up n hdr es w, s)"
proof -
  have ok: "dict_ok n es" and n: "nlet s = int n" "0 < n" "hdr \<noteq> []"
    using d by (simp_all add: dict_file_def dict_ok_def)
  note c = letter_range [OF w n(2)]
  have ne: "w \<noteq> []" using w n(2) by (auto simp: word_ok_def)
  let ?Q = "\<lambda>x. letter_of x = byte (hd w)"
  let ?j = "ahead ?Q es"
  have k: "nat (int (byte (hd w)) - 97) = byte (hd w) - 97" using c by linarith
  have o1: "hashtab s ! (byte (hd w) - 97) = (if \<exists>x\<in>set es. ?Q x then int (length hdr + (n + 12) * ?j) else 0)"
    using h c by simp
  show ?thesis
  proof (cases "\<exists>x\<in>set es. ?Q x")
    case False
    then have "w \<notin> fst ` set es" "\<not> (\<exists>x\<in>set es. hd (fst x) = hd w)" by auto
    with False o1 c k ne show ?thesis by (simp add: find_word_def run_simps Let_def looked_up_def)
  next
    case True
    have lines: "lines_from (length hdr + (n + 12) * ?j) s = map entry_line (drop ?j es)"
      by (rule lines_from_entry [OF d ahead_le])
    have "dict_ok n (drop ?j es)" using ok by (rule dict_ok_drop)
    then have fl: "find_lines w (int n) q (map entry_line (drop ?j es)) =
      (if w \<in> fst ` set (drop ?j es) then Some (q + int ((n + 12) * ahead (\<lambda>x. fst x = w) (drop ?j es)))
       else if \<exists>x\<in>set (drop ?j es). w < fst x then Some 0 else None)" for q
      using w by (intro find_lines_entries) (auto simp: dict_ok_def word_ok_def)
    have mem: "w \<in> fst ` set (drop ?j es) \<longleftrightarrow> w \<in> fst ` set es"
      using in_drop_ahead [of es "\<lambda>x. fst x = w" ?Q] by (metis (mono_tags, lifting) image_iff)
    have up: "(\<exists>x\<in>set (drop ?j es). w < fst x) \<longleftrightarrow> (\<exists>x\<in>set es. w < fst x)"
      using dict_ok_letters [OF ok] True letter_mono [OF less_imp_le ne] by (intro in_drop_ahead_sorted) auto
    have sum: "w \<in> fst ` set es \<Longrightarrow> ahead (\<lambda>x. fst x = w) es = ?j + ahead (\<lambda>x. fst x = w) (drop ?j es)"
      by (rule ahead_drop) auto
    have s32: "s32 (int (length hdr + (n + 12) * ahead (\<lambda>x. fst x = w) es)) = int (length hdr + (n + 12) * ahead (\<lambda>x. fst x = w) es)"
      using offset_small [OF d ahead_le, of "\<lambda>x. fst x = w"]
      by (intro s32_id) (simp_all del: of_nat_add of_nat_mult)
    have top: "\<not> (\<exists>x\<in>set es. w < fst x) \<longleftrightarrow> (\<forall>x\<in>set es. fst x < w)" if "w \<notin> fst ` set es"
      using that by (metis image_eqI not_less_iff_gr_or_eq)
    define q where "q = length hdr + (n + 12) * ?j"
    have "find_word w s = (case find_lines w (int n) (int q) (map entry_line (drop ?j es)) of
        None \<Rightarrow> undef | Some r \<Rightarrow> ret (s32 r)) s"
      using o1 [folded q_def] lines [folded q_def] True c k ne n(1,3)
      by (simp add: find_word_def run_simps Let_def) (simp add: q_def)
    also have "\<dots> = (looked_up n hdr es w, s)"
    proof (cases "w \<in> fst ` set es")
      case True
      with sum have "int q + int ((n + 12) * ahead (\<lambda>x. fst x = w) (drop ?j es))
          = int (length hdr + (n + 12) * ahead (\<lambda>x. fst x = w) es)"
        by (simp add: q_def algebra_simps)
      with True show ?thesis by (simp only: fl mem s32 looked_up_def ret_def option.case if_True)
    next
      case False
      have "\<exists>x\<in>set es. hd (fst x) = hd w" using \<open>\<exists>x\<in>set es. ?Q x\<close> by auto
      then show ?thesis using False top [OF False]
        by (cases "\<exists>x\<in>set es. w < fst x")
          (simp_all only: fl mem up looked_up_def run_simps if_False if_True option.case simp_thms, simp_all add: wrap_simps)
    qed
    finally show ?thesis .
  qed
qed

text \<open>
  C13: Looking a word up in a well-formed dictionary gives the word's offset when the dictionary has it and 0
  when it does not, with one exception: for a word behind the last one of the whole file that shares its
  first letter the function runs off its end without a return value.
\<close>

theorem find_word_looks_up:
  assumes "dict_file n hdr es s" and "hashtab s = replicate 26 0" and "word_ok n w"
  shows "fst (sq (hash_file e) (find_word w) s) = looked_up n hdr es w"
proof -
  from hash_file_runs [OF assms(1,2)] obtain h q where run: "hash_file e s = (Ret (), s\<lparr>hashtab := h, fpos := q\<rparr>)"
    and h: "\<forall>k<26. h ! k = (if \<exists>x\<in>set es. letter_of x = k + 97
     then int (length hdr) + int ((n + 12) * ahead (\<lambda>x. letter_of x = k + 97) es) else 0)"
    by blast
  have "find_word w (s\<lparr>hashtab := h, fpos := q\<rparr>) = (looked_up n hdr es w, s\<lparr>hashtab := h, fpos := q\<rparr>)"
    using assms(1,3) h by (intro find_word_entries) (simp_all only: dict_file_def letter.simps letter.select_convs letter.update_convs simp_thms, auto)
  then show ?thesis by (simp add: sq_def bnd_def run)
qed

definition small_dict :: "entry list" where
  "small_dict = [(''aa'', Plain), (''be'', Unsolved), (''zo'', Best 12 ''ann'')]"

definition small_state :: letter where
  "small_state = (letter_start [])\<lparr>fdata := ''2 3 2 x\<newline>'' @ concat (map entry_line small_dict), line1 := 8, nlet := 2, targets := 2\<rparr>"

lemma small_dict_ok: "dict_file 2 ''2 3 2 x\<newline>'' small_dict small_state"
  by (simp add: dict_file_def dict_ok_def small_dict_def small_state_def letter_start_def word_ok_def login_ok_def
      entry_line_def pad_zero_def dec_def dec_nat.simps digit_char_def islower_def isdigit_def LINE_def)

definition ann_env :: letter_env where
  "ann_env = \<lparr>lname = ''letter'', datafile = (\<lambda>f. Some (fdata small_state)), updatable = (\<lambda>f. True), stdin_tty = True,
     eof_char = CHR 0x04, erase_char = CHR 0x08, kill_char = CHR 0x15, werase_char = CHR 0x17, random = (\<lambda>i. int i),
     login_name = Some ''ann'', show_average = (\<lambda>a b. dec (a div b))\<rparr>"

lemma find_word_looks_up_witness:
  "fst (sq (hash_file ann_env) (find_word ''be'') small_state) = Ret 22 \<and>
   fst (sq (hash_file ann_env) (find_word ''bo'') small_state) = Ret 0 \<and>
   fst (sq (hash_file ann_env) (find_word ''zz'') small_state) = Undef"
  using find_word_looks_up [OF small_dict_ok, of "''be''" ann_env] find_word_looks_up [OF small_dict_ok, of "''bo''" ann_env]
    find_word_looks_up [OF small_dict_ok, of "''zz''" ann_env]
  by (simp add: looked_up_def small_dict_def small_state_def letter_start_def word_ok_def islower_def)

end
