(* ===== verification/LetterScores.thy ===== *)
theory LetterScores
  imports LetterFacts
begin

text \<open>
  Saving a score in the data file of the word game, as an operation on the entries of the dictionary.
\<close>

section \<open>The number in a slot\<close>

lemma digits_val_zeros: "digits_val 0 (replicate m (CHR ''0'') @ xs) = digits_val 0 xs"
  by (induction m) (auto simp: digit_val_def)

lemma pad_zero_digits: "set (pad_zero k (dec (int g))) \<subseteq> Collect isdigit"
  by (auto dest: pad_plain)

lemma pad_zero_nonempty: "pad_zero 3 (dec (int g)) \<noteq> []"
  by (simp add: pad_zero_def dec_def)

lemma atoi_padded:
  assumes "g < 1000" and "rest \<noteq> [] \<longrightarrow> \<not> isdigit (hd rest)"
  shows "atoi (pad_zero 3 (dec (int g)) @ rest) = int g"
proof -
  let ?p = "pad_zero 3 (dec (int g))"
  have hd: "isdigit (hd (?p @ rest))"
    using pad_zero_digits [of 3 g] pad_zero_nonempty [of g] by (cases ?p) auto
  have split: "takeWhile isdigit (?p @ rest) = ?p"
    using pad_zero_digits [of 3 g] assms(2) by (cases rest) (auto simp: takeWhile_append takeWhile_eq_all_conv)
  have "dropWhile isspace (?p @ rest) = ?p @ rest"
    using hd by (intro dropWhile_hd) (auto dest: isdigit_not_space simp: pad_zero_nonempty)
  moreover have "digits_val 0 ?p = int g"
    by (simp add: pad_zero_def digits_val_zeros dec_def digits_val_dec_nat)
  ultimately have "strtol10 (?p @ rest) = Some (clamp_long (int g), dropWhile isdigit (?p @ rest))"
    using isdigit_not_sign [OF hd] split pad_zero_nonempty [of g] by (simp add: strtol10_def Let_def)
  then show ?thesis
    using assms(1) by (simp add: atoi_def atol_def clamp_long_def LONG_MAX_def LONG_MIN_def s32_id)
qed

fun slot_score :: "slot \<Rightarrow> nat" where
  "slot_score (Best g u) = g"
| "slot_score _ = 0"

lemma atoi_slot:
  assumes "slot_ok x" and "x \<noteq> Plain"
  shows "atoi (slot_text x @ [NL]) = int (slot_score x)"
proof (cases x)
  case Unsolved
  have "pad_zero 3 (dec (int 0)) = ''000''" by code_simp
  with Unsolved show ?thesis
    using atoi_padded [of 0 "replicate 8 (CHR ''*'') @ [NL]"] by (simp add: isdigit_def numeral_eq_Suc)
next
  case (Best g u)
  let ?r = "take 8 u @ replicate (8 - length u) (CHR ''*'') @ [NL]"
  have "\<not> isdigit (hd ?r)"
    using assms(1) Best by (cases u; cases "8 - length u") (auto simp: login_ok_def isdigit_def)
  with assms(1) Best show ?thesis using atoi_padded [of g ?r] by simp
qed (use assms in simp)

lemma slot_digit: "slot_ok x \<Longrightarrow> isdigit (hd (slot_text x)) \<longleftrightarrow> x \<noteq> Plain"
proof (cases x)
  case (Best g u)
  show ?thesis
    using pad_zero_digits [of 3 g] pad_zero_nonempty [of g]
    by (cases "pad_zero 3 (dec (int g))") (auto simp: Best)
qed (simp_all add: isdigit_def numeral_eq_Suc)

section \<open>Writing an entry\<close>

lemma score_line_entry:
  assumes "word_ok n w" and "n + 12 < LINE" and "g < 1000"
  shows "score_line (int n) w (int g) u = entry_line (w, Best g (take 8 u))"
proof -
  have p: "length (pad_zero 3 (dec (int g))) = 3" using dec_length [OF assms(3)] by (simp add: pad_zero_def)
  have "take (n + 11) (take (LINE - 1) (w @ pad_zero 3 (dec (int g)) @ u)) = w @ pad_zero 3 (dec (int g)) @ take 8 u"
  proof -
    have "8 \<le> LINE - (4 + n)" using assms(2) by linarith
    then show ?thesis using assms(1,2) p by (simp add: word_ok_def min_def)
  qed
  moreover have "nat (int n + 11) = n + 11" by simp
  moreover have "n + 11 - length (w @ pad_zero 3 (dec (int g)) @ take 8 u) = 8 - length u"
    using assms(1) p by (simp add: word_ok_def)
  moreover have "take 8 (take 8 u) = take 8 u" "8 - length (take 8 u) = 8 - length u" by auto
  ultimately show ?thesis by (simp only: score_line_def Let_def entry_line_def fst_conv snd_conv slot_text.simps append_assoc)
qed

lemma put_entry_line:
  assumes "dict_file n hdr es s" and "k < length es" and "length x = n + 12"
  shows "put_bytes (length hdr + (n + 12) * k) x (fdata s) =
    hdr @ concat (map entry_line (take k es)) @ x @ concat (map entry_line (drop (Suc k) es))"
proof -
  have ok: "\<forall>y\<in>set es. word_ok n (fst y) \<and> slot_ok (snd y)" using assms(1) by (simp add: dict_file_def dict_ok_def)
  have "\<forall>y\<in>set (take k es). word_ok n (fst y) \<and> slot_ok (snd y)" using ok by (auto dest: in_set_takeD)
  from entries_length [OF this] have a: "length (concat (map entry_line (take k es))) = (n + 12) * k"
    using assms(2) by simp
  have b: "length (entry_line (es ! k)) = n + 12" using ok assms(2) by (simp add: entry_lines)
  have "concat (map entry_line es) = concat (map entry_line (take k es)) @ entry_line (es ! k) @ concat (map entry_line (drop (Suc k) es))"
    using id_take_nth_drop [OF assms(2)] by (metis concat.simps(2) concat_append list.simps(9) map_append)
  with a b assms show ?thesis by (simp add: put_bytes_def dict_file_def)
qed

section \<open>The best score is kept\<close>

fun new_slot :: "nat \<Rightarrow> string \<Rightarrow> slot \<Rightarrow> slot" where
  "new_slot g u Plain = Plain"
| "new_slot g u Unsolved = Best g (take 8 u)"
| "new_slot g u (Best h v) = (if g < h then Best g (take 8 u) else Best h v)"

lemma login_ok_take: "login_ok u \<Longrightarrow> login_ok (take 8 u)"
  by (cases u) (auto simp: login_ok_def dest: in_set_takeD)

lemma new_slot_ok: "slot_ok x \<Longrightarrow> 0 < g \<Longrightarrow> g < 1000 \<Longrightarrow> login_ok u \<Longrightarrow> slot_ok (new_slot g u x)"
  by (cases x) (auto intro: login_ok_take)

lemma dict_ok_update:
  assumes "dict_ok n es" and "k < length es" and "slot_ok x"
  shows "dict_ok n (es[k := (fst (es ! k), x)])"
proof -
  have "map fst (es[k := (fst (es ! k), x)]) = map fst es"
    using assms(2) by (simp add: map_update) (metis list_update_id nth_map)
  with assms show ?thesis by (auto simp: dict_ok_def dest!: set_update_subset_insert [THEN subsetD])
qed

lemma dict_file_update:
  assumes d: "dict_file n hdr es s" and k: "k < length es" and x: "slot_ok x"
  shows "dict_file n hdr (es[k := (fst (es ! k), x)])
    (s\<lparr>fdata := put_bytes (length hdr + (n + 12) * k) (entry_line (fst (es ! k), x)) (fdata s), fpos := q, tout := r\<rparr>)"
proof -
  have ok: "dict_ok n es" using d by (simp add: dict_file_def)
  with k have w: "word_ok n (fst (es ! k))" by (simp add: dict_ok_def)
  let ?es = "es[k := (fst (es ! k), x)]"
  have len: "length (entry_line (fst (es ! k), x)) = n + 12" using w x by (simp add: entry_lines)
  from put_entry_line [OF d k this]
  have f: "put_bytes (length hdr + (n + 12) * k) (entry_line (fst (es ! k), x)) (fdata s) = hdr @ concat (map entry_line ?es)"
    using k by (simp add: upd_conv_take_nth_drop)
  have ok': "dict_ok n ?es" using dict_ok_update [OF ok k x] .
  then have "length (concat (map entry_line ?es)) = length (concat (map entry_line es))"
    using ok entries_length [of es n] entries_length [of ?es n] by (simp add: dict_ok_def)
  with d f ok' show ?thesis by (auto simp: dict_file_def)
qed

text \<open>What the program does for the three kinds of slot, in one equation.\<close>

lemma save_score_run:
  assumes d: "dict_file n hdr es s" and k: "k < length es" and g: "0 < g" "g < 1000"
    and u: "login_name e = Some u" "login_ok u"
  defines "p \<equiv> length hdr + (n + 12) * k"
  obtains a b where "save_score e (fst (es ! k)) (int k) (int g) s = (if snd (es ! k) = Plain then (Ret (), s\<lparr>tout := tout s @ a\<rparr>)
      else if slot_score (snd (es ! k)) = 0 then
        (Ret (), s\<lparr>fdata := put_bytes p (entry_line (fst (es ! k), Best g (take 8 u))) (fdata s), fpos := p + (n + 12)\<rparr>)
      else if slot_score (snd (es ! k)) \<le> g then (Ret (), s\<lparr>tout := tout s @ b\<rparr>)
      else (Ret (), s\<lparr>tout := tout s @ b, fdata := put_bytes p (entry_line (fst (es ! k), Best g (take 8 u))) (fdata s), fpos := p + (n + 12)\<rparr>))"
proof -
  let ?x = "es ! k" and ?p = p
  have x: "word_ok n (fst ?x)" "slot_ok (snd ?x)" and n: "n + 12 < LINE" "nlet s = int n" "line1 s = length hdr"
    using d k by (simp_all add: dict_file_def dict_ok_def)
  have p: "nat (int k * (int n + 12) + int (length hdr)) = ?p"
    by (simp add: p_def nat_eq_iff algebra_simps)
  have lines: "lines_from ?p s = entry_line ?x # map entry_line (drop (Suc k) es)"
    using lines_from_entry [OF d less_imp_le [OF k]] k by (simp add: p_def Cons_nth_drop_Suc [symmetric])
  note el = entry_lines [OF x]
  have cmp: "ncmp (int n) (fst ?x) (entry_line ?x) = 0"
    using strncmp_entry [OF x, of "fst ?x"] x(1) el(2) by (simp add: word_ok_def)
  have "slot_text (snd ?x) \<noteq> []" using slot_text_length [OF x(2)] by auto
  then have slot: "char_at (entry_line ?x) (int n) = Some (hd (slot_text (snd ?x)))" "length (entry_line ?x) = n + 12"
    using x slot_text_length [OF x(2)] by (auto simp: char_at_def entry_line_def word_ok_def nth_append hd_conv_nth)
  have wr: "write_score e (fst ?x) (int g) ?p s' = (Ret (), s'\<lparr>fdata := put_bytes ?p (entry_line (fst ?x, Best g (take 8 u))) (fdata s'),
      fpos := ?p + (n + 12)\<rparr>)" if "nlet s' = int n" for s'
    using u(1) that score_line_entry [OF x(1) n(1) g(2), of u] entry_lines(1) [of n "(fst ?x, Best g (take 8 u))"]
      x(1) g u(2) login_ok_take by (simp add: write_score_def run_simps Let_def)
  obtain a b where run: "save_score e (fst ?x) (int k) (int g) s = (if snd ?x = Plain then puts a s
      else if 0 < slot_score (snd ?x) then sq (puts b) (if slot_score (snd ?x) \<le> g then ret () else write_score e (fst ?x) (int g) ?p) s
      else write_score e (fst ?x) (int g) ?p s)"
    using slot_digit [OF x(2)] atoi_slot [OF x(2)]
    by (cases "snd ?x = Plain"; cases "0 < slot_score (snd ?x)") (simp_all cong: if_cong add: save_score_def Let_def gets_run bnd_def p lines cmp slot el(2,4) n(2,3))
  show thesis by (rule that [of a b]) (simp add: run wr n(2) run_simps puts_run)
qed

text \<open>
  C5: With well-formed names, saving a score replaces the word's slot by the new score and the first eight
  characters of the login when there was no score yet or a worse one, leaves it otherwise, and never
  touches another entry: the file stays well-formed.
\<close>

theorem save_score_keeps_best:
  assumes d: "dict_file n hdr es s" and k: "k < length es" and g: "0 < g" "g < 1000"
    and u: "login_name e = Some u" "login_ok u"
  shows "\<exists>t. save_score e (fst (es ! k)) (int k) (int g) s = (Ret (), t) \<and>
    dict_file n hdr (es[k := (fst (es ! k), new_slot g u (snd (es ! k)))]) t"
proof -
  let ?x = "es ! k" and ?p = "length hdr + (n + 12) * k"
  let ?f = "put_bytes ?p (entry_line (fst ?x, Best g (take 8 u))) (fdata s)"
  have same: "dict_file n hdr (es[k := (fst ?x, snd ?x)]) (s\<lparr>tout := r\<rparr>)" for r
    using d by (auto simp: dict_file_def)
  have swap: "s\<lparr>tout := r, fdata := x, fpos := y\<rparr> = s\<lparr>fdata := x, fpos := y, tout := r\<rparr>" for r x y by (cases s) simp
  have new: "dict_file n hdr (es[k := (fst ?x, Best g (take 8 u))]) (s\<lparr>tout := r, fdata := ?f, fpos := q\<rparr>)" for q r
    unfolding swap using dict_file_update [OF d k, of "Best g (take 8 u)"] g login_ok_take [OF u(2)] by simp
  have quiet: "s\<lparr>tout := tout s, fdata := ?f, fpos := q\<rparr> = s\<lparr>fdata := ?f, fpos := q\<rparr>" for q by simp
  have "slot_ok (snd ?x)" using d k by (simp add: dict_file_def dict_ok_def)
  then have h: "0 < h" if "snd ?x = Best h v" for h v using that by simp
  obtain a b where run: "save_score e (fst ?x) (int k) (int g) s = (if snd ?x = Plain then (Ret (), s\<lparr>tout := tout s @ a\<rparr>)
      else if slot_score (snd ?x) = 0 then (Ret (), s\<lparr>fdata := ?f, fpos := ?p + (n + 12)\<rparr>)
      else if slot_score (snd ?x) \<le> g then (Ret (), s\<lparr>tout := tout s @ b\<rparr>)
      else (Ret (), s\<lparr>tout := tout s @ b, fdata := ?f, fpos := ?p + (n + 12)\<rparr>))"
    using save_score_run [OF d k g u] .
  show ?thesis
  proof (cases "snd ?x")
    case Plain
    then show ?thesis using run same by auto
  next
    case Unsolved
    then show ?thesis using run new [where r = "tout s"] unfolding quiet by auto
  next
    case (Best h v)
    then show ?thesis using run h same new [where r = "tout s @ b"] by auto
  qed
qed

lemma save_score_keeps_best_witness:
  "(\<exists>t. save_score ann_env ''be'' 1 7 small_state = (Ret (), t) \<and>
     dict_file 2 ''2 3 2 x\<newline>'' [(''aa'', Plain), (''be'', Best 7 ''ann''), (''zo'', Best 12 ''ann'')] t) \<and>
   (\<exists>t. save_score ann_env ''zo'' 2 12 small_state = (Ret (), t) \<and> dict_file 2 ''2 3 2 x\<newline>'' small_dict t)"
  using save_score_keeps_best [OF small_dict_ok, of 1 7 ann_env "''ann''"]
    save_score_keeps_best [OF small_dict_ok, of 2 12 ann_env "''ann''"]
  by (simp add: small_dict_def ann_env_def login_ok_def isdigit_def)

end
