(* ===== verification/LetterRuns.thy ===== *)
theory LetterRuns
  imports LetterScores
begin

text \<open>
  Guesses as they are typed, a round of the word game, and the end of the whole program.
\<close>

section \<open>What a guess can be\<close>

lemma put_at_split: "i \<le> length f \<Longrightarrow> put_at z i x f = take i f @ x # drop (Suc i) f"
  by (cases "i < length f") (auto simp: put_at_in_range upd_conv_take_nth_drop put_at_length)

lemma cstr_ended:
  assumes "\<forall>j<i. islower (f ! j)" and "i \<le> length f"
  shows "cstr (put_at NUL i NUL f) = take i f" and "word_ok i (take i f)"
proof -
  have low: "list_all islower (take i f)" using assms by (auto simp: list_all_length)
  then have "NUL \<notin> set (take i f)" by (simp add: lower_no_end)
  with assms(2) show "cstr (put_at NUL i NUL f) = take i f"
    by (simp add: put_at_split cstr_def takeWhile_append takeWhile_eq_all_conv)
  show "word_ok i (take i f)" using assms(2) low by (simp add: word_ok_def)
qed

lemma read_keys_other:
  assumes "\<not> islower (tolower c)" and "\<not> (tolower c = NL \<and> int i = n)"
  shows "(\<exists>o2 j. read_keys e n h o1 i bf (c # cs) = read_keys e n h o2 j bf cs \<and> j \<le> i) \<or>
    (\<exists>o2. read_keys e n h o1 i bf (c # cs) = Stop True i bf o2 cs) \<or>
    (\<exists>o2. read_keys e n h o1 i bf (c # cs) = Quit bf o2 cs)"
proof -
  define Q where "Q x \<longleftrightarrow> (\<exists>o2 j. x = read_keys e n h o2 j bf cs \<and> j \<le> i) \<or> (\<exists>o2. x = Stop True i bf o2 cs) \<or>
    (\<exists>o2. x = Quit bf o2 cs)" for x
  have leaf: "j \<le> i \<Longrightarrow> Q (read_keys e n h o2 j bf cs)" "Q (Stop True i bf o2 cs)" "Q (Quit bf o2 cs)" for o2 j
    unfolding Q_def by blast+
  have branch: "(b \<Longrightarrow> Q x) \<Longrightarrow> (\<not> b \<Longrightarrow> Q y) \<Longrightarrow> Q (if b then x else y)" for b x y by simp
  have "Q (read_keys e n h o1 i bf (c # cs))"
    unfolding read_keys.simps Let_def by (intro branch leaf; use assms in simp)
  then show ?thesis unfolding Q_def .
qed

lemma read_keys_word:
  assumes "read_keys e n h o1 i bf cs = Stop False i' bf' o2 rest" and "i \<le> length bf" and "\<forall>j<i. islower (bf ! j)"
  shows "int i' = n \<and> cstr bf' = take i' bf' \<and> word_ok i' (take i' bf') \<and> length rest < length cs"
  using assms
proof (induction cs arbitrary: o1 i bf)
  case (Cons c cs)
  note bf = Cons.prems(2,3)
  consider (letter) "islower (tolower c)" | (ends) "tolower c = NL" "int i = n" | (other) "\<not> islower (tolower c)" "\<not> (tolower c = NL \<and> int i = n)"
    by blast
  then show ?case
  proof cases
    case letter
    then have "Suc i \<le> length (put_at NUL i (tolower c) bf)" "\<forall>j<Suc i. islower (put_at NUL i (tolower c) bf ! j)"
      using bf by (auto simp: nth_put_at_other less_Suc_eq)
    from Cons.IH [OF _ this] Cons.IH [OF _ bf] Cons.prems(1) letter show ?thesis
      by (auto simp: Let_def less_SucI split: if_splits)
  next
    case ends
    with Cons.prems(1) cstr_ended [OF bf(2,1)] bf(1) show ?thesis
      by (auto simp: islower_def put_at_split split: if_splits)
  next
    case other
    then obtain o3 j where "read_keys e n h o3 j bf cs = Stop False i' bf' o2 rest" "j \<le> i"
      using read_keys_other [OF other, of e h o1 bf cs] Cons.prems(1) by auto
    with Cons.IH [of o3 j bf] bf show ?thesis by (simp add: less_SucI)
  qed
qed simp

lemma readword_word:
  assumes "readword e s = (Ret False, t)"
  shows "0 \<le> nlet s \<and> word_ok (nat (nlet s)) (cstr (guess_buf t)) \<and> length (tin t) < length (tin s)"
proof -
  from assms obtain i bf o1 rest where "read_keys e (nlet s) (hist_text s) ''?'' 0 (guess_buf s) (tin s) = Stop False i bf o1 rest"
    and t: "guess_buf t = bf" "tin t = rest"
    by (auto simp: readword_def run_simps split: keys.splits)
  from read_keys_word [OF this(1)] have "int i = nlet s" "cstr bf = take i bf" "word_ok i (take i bf)" "length rest < length (tin s)"
    by simp_all
  then show ?thesis by (simp add: t flip: \<open>int i = nlet s\<close>)
qed

text \<open>
  C15: Whatever was typed, a guess that the reading of a word hands over is a word of exactly \<open>n\<close> lower-case
  letters.
\<close>

theorem readword_gives_word:
  assumes "readword e s = (Ret False, t)"
  shows "0 \<le> nlet s \<and> word_ok (nat (nlet s)) (cstr (guess_buf t)) \<and> length (tin t) < length (tin s)"
  using assms by (rule readword_word)

lemma readword_gives_word_witness:
  "\<exists>t. readword ann_env (small_state\<lparr>tin := ''Bx\<newline>''\<rparr>) = (Ret False, t) \<and> word_ok 2 (cstr (guess_buf t))"
proof -
  have run: "fst (readword ann_env (small_state\<lparr>tin := ''Bx\<newline>''\<rparr>)) = Ret False"
    by (simp add: readword_def run_simps ann_env_def small_state_def letter_start_def tolower_def isupper_def islower_def Let_def LINE_def
        split: keys.splits)
  then obtain t where t: "readword ann_env (small_state\<lparr>tin := ''Bx\<newline>''\<rparr>) = (Ret False, t)"
    by (metis prod.collapse)
  from readword_gives_word [OF this] t show ?thesis by (simp add: small_state_def letter_start_def)
qed

text \<open>A word typed and ended by the return key is that guess, from whatever the buffer held.\<close>

lemma read_keys_letters:
  assumes "list_all islower w" and "int (i + length w) \<le> n" and "n < int LINE" and "i \<le> length bf"
  shows "read_keys e n h o1 i bf (w @ cs) = read_keys e n h (o1 @ w) (i + length w) (take i bf @ w @ drop (i + length w) bf) cs"
  using assms
proof (induction w arbitrary: i o1 bf)
  case (Cons c w)
  have low: "tolower c = c" "islower c" using Cons.prems(1) by (auto simp: tolower_def isupper_def islower_def)
  have "int i < n" "\<not> LINE < i" using Cons.prems(2,3) by auto
  with Cons.prems(4) Cons.IH [of "Suc i" "put_at NUL i c bf" "o1 @ [c]"] Cons.prems low show ?case
    by (simp add: Let_def put_at_split add.commute)
qed simp

lemma readword_types:
  assumes "word_ok n w" and "nlet s = int n" and "n < LINE" and "tin s = w @ NL # rest"
  shows "\<exists>x b. readword e s = (Ret False, s\<lparr>tin := rest, guess_buf := b, tout := x\<rparr>) \<and> cstr b = w"
proof -
  let ?g = "w @ drop n (guess_buf s)"
  have w: "length w = n" "list_all islower w" using assms(1) by (auto simp: word_ok_def)
  have nl: "tolower NL = NL" "\<not> islower NL" by (simp_all add: tolower_def isupper_def islower_def)
  have "read_keys e (nlet s) (hist_text s) ''?'' 0 (guess_buf s) (tin s)
      = Stop False n (put_at NUL n NUL ?g) (''?'' @ w) rest"
    using read_keys_letters [OF w(2), of 0 "int n" "guess_buf s" e "hist_text s" "''?''" "NL # rest"] w(1) assms(2-4) nl
    by (simp add: Let_def)
  moreover have "cstr (put_at NUL n NUL ?g) = w"
    using cstr_ended(1) [of n ?g] w by (simp add: list_all_length nth_append)
  ultimately show ?thesis by (auto simp: readword_def run_simps)
qed

section \<open>A round\<close>

text \<open>The state in which words are guessed: the file, its table and a target.\<close>

definition in_round :: "nat \<Rightarrow> string \<Rightarrow> entry list \<Rightarrow> string \<Rightarrow> letter \<Rightarrow> bool" where
  "in_round n hdr es w s \<longleftrightarrow> dict_file n hdr es s \<and> target s = Some w \<and> word_ok n w \<and>
     (\<forall>k<26. hashtab s ! k = (if \<exists>x\<in>set es. letter_of x = k + 97
       then int (length hdr) + int ((n + 12) * ahead (\<lambda>x. letter_of x = k + 97) es) else 0))"

text \<open>How many places of a guess are right, or that the dictionary does not have it.\<close>

definition mark :: "entry list \<Rightarrow> string \<Rightarrow> string \<Rightarrow> int" where
  "mark es w g = (if g \<in> fst ` set es then int (length (filter (\<lambda>(a, b). a = b) (zip g w))) else -1)"

lemma same_places_zip: "same_places a b = int (length (filter (\<lambda>(x, y). x = y) (zip a b)))"
  by (induction a b rule: same_places.induct) auto

lemma in_round_update:
  "in_round n hdr es w (s\<lparr>tin := a, guess_buf := b, tout := c\<rparr>) = in_round n hdr es w s"
  "in_round n hdr es w (s\<lparr>tin := a, guess_buf := b\<rparr>) = in_round n hdr es w s"
  "in_round n hdr es w (s\<lparr>guesses := k\<rparr>) = in_round n hdr es w s"
  "in_round n hdr es w (s\<lparr>hist := h\<rparr>) = in_round n hdr es w s"
  "in_round n hdr es w (s\<lparr>tout := c\<rparr>) = in_round n hdr es w s"
  by (auto simp: in_round_def dict_file_def)

lemma check_word_right:
  assumes "nlet s = int n" and "word_ok n w"
  shows "check_word w w s = (Ret True, s\<lparr>tout := tout s @ '' '' @ dec (int n) @ '' YES!\<newline>''\<rparr>)"
  using assms by (simp add: check_word_def ncmp_def strncmp_def run_simps)

lemma check_word_wrong:
  assumes r: "in_round n hdr es w s" and g: "word_ok n g" "g \<noteq> w" "looked_up n hdr es g \<noteq> Undef"
  shows "\<exists>x. check_word g w s = (Ret False, s\<lparr>hist := hist s @ [(g, mark es w g)], tout := x\<rparr>)"
proof -
  have n: "nlet s = int n" "word_ok n w" "hdr \<noteq> []" using r by (auto simp: in_round_def dict_file_def)
  have ne: "ncmp (int n) g w \<noteq> 0" using g n(2) by (simp add: ncmp_def strncmp_def word_ok_def)
  have f: "find_word g s = (looked_up n hdr es g, s)"
    using r g(1) by (intro find_word_entries) (auto simp: in_round_def)
  have len: "take n g = g" "take n w = w" using g(1) n(2) by (simp_all add: word_ok_def)
  show ?thesis
  proof (cases "g \<in> fst ` set es")
    case True
    then have "looked_up n hdr es g = Ret (int (length hdr + (n + 12) * ahead (\<lambda>x. fst x = g) es))"
      "int (length hdr + (n + 12) * ahead (\<lambda>x. fst x = g) es) \<noteq> 0"
      using n(3) by (simp_all add: looked_up_def del: of_nat_add of_nat_mult)
    then obtain i where "looked_up n hdr es g = Ret i" "i \<noteq> 0" by blast
    with True n(1) ne f len show ?thesis
      by (auto simp: check_word_def run_simps Let_def mark_def same_places_zip)
  next
    case False
    with g(3) have "looked_up n hdr es g = Ret 0" by (simp add: looked_up_def split: if_splits)
    with False n(1) ne f len show ?thesis by (auto simp: check_word_def run_simps Let_def mark_def)
  qed
qed

lemma guess_round_step:
  assumes r: "in_round n hdr es w s" and g: "word_ok n g" "g = w \<or> looked_up n hdr es g \<noteq> Undef"
    and inp: "tin s = g @ NL # rest"
  shows "\<exists>t. guess_round e s = (Ret (g \<noteq> w), t) \<and> in_round n hdr es w t \<and> tin t = rest \<and> guesses t = guesses s + 1 \<and>
    hist t = hist s @ (if g = w then [] else [(g, mark es w g)])"
proof -
  have n: "nlet s = int n" "n < LINE" "target s = Some w" "word_ok n w"
    using r by (auto simp: in_round_def dict_file_def dict_ok_def)
  obtain x b where read: "readword e s = (Ret False, s\<lparr>tin := rest, guess_buf := b, tout := x\<rparr>)" "cstr b = g"
    using readword_types [OF g(1) n(1,2) inp] by blast
  let ?s = "s\<lparr>tin := rest, guess_buf := b, tout := x, guesses := guesses s + 1\<rparr>"
  have s: "in_round n hdr es w ?s" using r by (simp add: in_round_update)
  show ?thesis
  proof (cases "g = w")
    case True
    from True read n have "guess_round e s = (Ret False, ?s\<lparr>tout := x @ '' '' @ dec (int n) @ '' YES!\<newline>''\<rparr>)"
      by (simp add: guess_round_def run_simps bnd_def check_word_right)
    with True s show ?thesis by (simp add: in_round_update)
  next
    case False
    with check_word_wrong [OF s g(1)] g(2) obtain y where
      "check_word g w ?s = (Ret False, ?s\<lparr>hist := hist ?s @ [(g, mark es w g)], tout := y\<rparr>)" by blast
    with read n(3) have "guess_round e s = (Ret True, ?s\<lparr>hist := hist ?s @ [(g, mark es w g)], tout := y\<rparr>)"
      by (simp add: guess_round_def run_simps bnd_def)
    with False s show ?thesis by (simp add: in_round_update)
  qed
qed

definition typed :: "string list \<Rightarrow> string" where
  "typed ws = concat (map (\<lambda>w. w @ [NL]) ws)"

lemma guesses_run:
  assumes "in_round n hdr es w s" and "\<forall>g\<in>set gs. word_ok n g \<and> g \<noteq> w \<and> looked_up n hdr es g \<noteq> Undef"
    and "tin s = typed (gs @ [w]) @ rest" and "length gs < k"
  shows "\<exists>t. iter k (guess_round e) s = (Ret (), t) \<and> in_round n hdr es w t \<and> tin t = rest \<and>
    guesses t = guesses s + int (length gs) + 1 \<and> hist t = hist s @ map (\<lambda>g. (g, mark es w g)) gs"
  using assms
proof (induction gs arbitrary: s k)
  case Nil
  then obtain m where k: "k = Suc m" by (cases k) auto
  have "word_ok n w" using Nil.prems(1) by (simp add: in_round_def)
  with guess_round_step [OF Nil.prems(1) this, of rest e] Nil.prems(3)
  obtain t where "guess_round e s = (Ret False, t)" "in_round n hdr es w t" "tin t = rest" "guesses t = guesses s + 1" "hist t = hist s"
    by (auto simp: typed_def)
  moreover from this(1) have "iter k (guess_round e) s = (Ret (), t)" by (simp add: k run_simps bnd_def)
  ultimately show ?case by auto
next
  case (Cons g gs)
  then obtain m where k: "k = Suc m" by (cases k) auto
  obtain t where t: "guess_round e s = (Ret True, t)" "in_round n hdr es w t" "tin t = typed (gs @ [w]) @ rest"
    "guesses t = guesses s + 1" "hist t = hist s @ [(g, mark es w g)]"
    using guess_round_step [OF Cons.prems(1), of g "typed (gs @ [w]) @ rest" e] Cons.prems(2,3) by (auto simp: typed_def)
  with Cons.IH [OF t(2) _ t(3), of m] Cons.prems(2,4) show ?case
    by (auto simp: k run_simps bnd_def)
qed

text \<open>
  C6: A round that types any words the dictionary can look up and then the target ends with the target
  found: every word typed is scored by the number of its right places or reported as missing, and the
  number of guesses is the number of words typed.
\<close>

theorem typed_target_wins:
  assumes "in_round n hdr es w s" and "\<forall>g\<in>set gs. word_ok n g \<and> g \<noteq> w \<and> looked_up n hdr es g \<noteq> Undef"
    and "tin s = typed (gs @ [w]) @ rest"
  shows "\<exists>t. iter (Suc (length (tin s))) (guess_round e) s = (Ret (), t) \<and> tin t = rest \<and>
    guesses t = guesses s + int (length (gs @ [w])) \<and> hist t = hist s @ map (\<lambda>g. (g, mark es w g)) gs"
proof -
  have "length gs \<le> length (typed gs)" by (induction gs) (auto simp: typed_def)
  then have "length gs < Suc (length (tin s))" by (simp add: assms(3) typed_def)
  from guesses_run [OF assms this, of e] show ?thesis by auto
qed

definition round_state :: letter where
  "round_state = (snd (hash_file ann_env small_state))\<lparr>target := Some ''be'', tin := ''zo\<newline>bo\<newline>be\<newline>n''\<rparr>"

lemma round_state_ok: "in_round 2 ''2 3 2 x\<newline>'' small_dict ''be'' round_state" "guesses round_state = 0" "hist round_state = []"
  "tin round_state = typed [''zo'', ''bo'', ''be''] @ ''n''"
proof -
  have "hashtab small_state = replicate 26 0" by (simp add: small_state_def letter_start_def)
  from hash_file_runs [OF small_dict_ok this, of ann_env] obtain h q where
    "hash_file ann_env small_state = (Ret (), small_state\<lparr>hashtab := h, fpos := q\<rparr>)"
    "\<forall>k<26. h ! k = (if \<exists>x\<in>set small_dict. letter_of x = k + 97
       then int (length ''2 3 2 x\<newline>'') + int ((2 + 12) * ahead (\<lambda>x. letter_of x = k + 97) small_dict) else 0)"
    by blast
  with small_dict_ok show "in_round 2 ''2 3 2 x\<newline>'' small_dict ''be'' round_state" "guesses round_state = 0" "hist round_state = []"
    "tin round_state = typed [''zo'', ''bo'', ''be''] @ ''n''"
    by (auto simp: in_round_def dict_file_def round_state_def word_ok_def islower_def small_state_def letter_start_def typed_def)
qed

lemma typed_target_wins_witness:
  "\<exists>t. iter (Suc (length (tin round_state))) (guess_round ann_env) round_state = (Ret (), t) \<and> tin t = ''n'' \<and>
    guesses t = 3 \<and> hist t = [(''zo'', 0), (''bo'', -1)]"
  using typed_target_wins [OF round_state_ok(1), of "[''zo'', ''bo'']" "''n''" ann_env] round_state_ok(2-4)
  by (simp add: word_ok_def islower_def looked_up_def small_dict_def mark_def)

section \<open>The end of the game\<close>

text \<open>
  \<open>tidy c d m\<close>: from a state with the terminal in mode \<open>c\<close> the program ends; where it returns it keeps the
  mode and has read at least \<open>d\<close> characters, and where it exits the terminal is in its normal mode.
\<close>

fun tidy_end :: "bool \<Rightarrow> nat \<Rightarrow> nat \<Rightarrow> 'a outcome \<times> letter \<Rightarrow> bool" where
  "tidy_end c d l (Ret a, t) \<longleftrightarrow> in_cbreak t = c \<and> length (tin t) + d \<le> l"
| "tidy_end c d l (Exit k, t) \<longleftrightarrow> \<not> in_cbreak t"
| "tidy_end c d l (Undef, t) \<longleftrightarrow> True"
| "tidy_end c d l (Hang, t) \<longleftrightarrow> False"
| "tidy_end c d l (NoFuel, t) \<longleftrightarrow> False"

definition tidy :: "bool \<Rightarrow> nat \<Rightarrow> 'a letterp \<Rightarrow> bool" where
  "tidy c d m \<longleftrightarrow> (\<forall>s. in_cbreak s = c \<longrightarrow> tidy_end c d (length (tin s)) (m s))"

lemma tidyD: "tidy c d m \<Longrightarrow> in_cbreak s = c \<Longrightarrow> m s = (r, t) \<Longrightarrow> tidy_end c d (length (tin s)) (r, t)"
  unfolding tidy_def by metis

lemma tidy_end_mono: "tidy_end c d' l x \<Longrightarrow> l + d \<le> l' \<Longrightarrow> tidy_end c (d + d') l' x"
  by (cases x; cases "fst x") auto

lemma tidy_basic:
  "tidy c 0 (ret a)" "tidy c d undef" "tidy c 0 (gets f)" "tidy False d (exit_prog k)" "tidy c 0 (puts x)"
  by (simp_all add: tidy_def run_simps)

lemma tidy_upd: "(\<And>s. in_cbreak (f s) = in_cbreak s \<and> length (tin (f s)) \<le> length (tin s)) \<Longrightarrow> tidy c 0 (upd f)"
  by (simp add: tidy_def run_simps)

lemma tidy_bnd:
  assumes "tidy c d m" and "\<And>a. tidy c d' (k a)"
  shows "tidy c (d + d') (bnd m k)"
  unfolding tidy_def
proof (intro allI impI)
  fix s :: letter
  assume c: "in_cbreak s = c"
  obtain r t where m: "m s = (r, t)" by fastforce
  note t = tidyD [OF assms(1) c m]
  show "tidy_end c (d + d') (length (tin s)) (bnd m k s)"
  proof (cases r)
    case (Ret a)
    with t have "in_cbreak t = c" "length (tin t) + d \<le> length (tin s)" by simp_all
    with assms(2) [of a] have "tidy_end c (d + d') (length (tin s)) (k a t)"
      by (intro tidy_end_mono) (simp_all add: tidy_def)
    then show ?thesis by (simp add: bnd_def m Ret)
  qed (use t in \<open>simp_all add: bnd_def m\<close>)
qed

lemma tidy_sq: "tidy c d m \<Longrightarrow> tidy c d' n \<Longrightarrow> tidy c (d + d') (sq m n)"
  by (simp add: sq_def tidy_bnd)

lemma tidy_bnd0: "tidy c 0 m \<Longrightarrow> (\<And>a. tidy c d (k a)) \<Longrightarrow> tidy c d (bnd m k)"
  using tidy_bnd [of c 0 m d k] by simp

lemma tidy_sq0: "tidy c 0 m \<Longrightarrow> tidy c d n \<Longrightarrow> tidy c d (sq m n)"
  by (simp add: sq_def tidy_bnd0)

lemma tidy_when: "(b \<Longrightarrow> tidy c 0 m) \<Longrightarrow> tidy c 0 (whenP b m)"
  by (simp add: whenP_def tidy_basic)

lemma tidy_cases:
  "(b \<Longrightarrow> tidy c d m) \<Longrightarrow> (\<not> b \<Longrightarrow> tidy c d n) \<Longrightarrow> tidy c d (if b then m else n)"
  "(r = None \<Longrightarrow> tidy c d m) \<Longrightarrow> (\<And>x. r = Some x \<Longrightarrow> tidy c d (j x)) \<Longrightarrow> tidy c d (case r of None \<Rightarrow> m | Some x \<Rightarrow> j x)"
  "(\<And>a b. p = (a, b) \<Longrightarrow> tidy c d (k a b)) \<Longrightarrow> tidy c d (case p of (a, b) \<Rightarrow> k a b)"
  by (simp, cases r, auto, cases p, auto)

lemma tidy_iter:
  assumes m: "tidy c 1 m"
  shows "tidy c 1 (bnd (gets (\<lambda>s. length (tin s))) (\<lambda>k. iter (Suc k) m))"
proof -
  have loop: "tidy_end c 1 (length (tin s)) (iter n m s)" if "length (tin s) < n" "in_cbreak s = c" for n s
    using that
  proof (induction n arbitrary: s)
    case (Suc n)
    obtain r t where step: "m s = (r, t)" by fastforce
    note body = tidyD [OF m Suc.prems(2) step]
    show ?case
    proof (cases r)
      case (Ret again)
      with body have t: "in_cbreak t = c" "length (tin t) + 1 \<le> length (tin s)" by simp_all
      then have "length (tin t) < n" using Suc.prems(1) by simp
      from tidy_end_mono [OF Suc.IH [OF this t(1)], of 0 "length (tin s)"] t show ?thesis
        by (cases again) (simp_all add: step Ret bnd_def ret_def)
    qed (use body in \<open>simp_all add: step bnd_def\<close>)
  qed simp
  show ?thesis unfolding tidy_def bnd_def gets_def using loop by (simp del: iter.simps)
qed

lemmas tidy_rules = tidy_basic tidy_when tidy_cases tidy_sq0 tidy_bnd0 tidy_upd

lemma tidy_done: "tidy c d (letter_done k)"
  by (simp add: tidy_def letter_done_def set_mode_def bnd_def sq_def whenP_def run_simps)

lemma tidy_fail: "tidy c d (letter_fail e x)"
  unfolding letter_fail_def by (intro tidy_sq0 tidy_basic tidy_done)

lemma tidy_find_word: "tidy c 0 (find_word w)"
  unfolding find_word_def Let_def by (intro tidy_rules)

lemma tidy_check_word: "tidy c 0 (check_word g w)"
  unfolding check_word_def Let_def by (intro tidy_rules tidy_find_word) simp_all

lemma read_keys_input: "case read_keys e n h o1 i bf cs of
    Stop r j b y rest \<Rightarrow> length rest \<le> length cs | Quit b y rest \<Rightarrow> length rest \<le> length cs | Wild \<Rightarrow> True"
proof (induction cs arbitrary: o1 i bf)
  case (Cons c cs)
  define Q where "Q y \<longleftrightarrow> (case y of
    Stop r j b y rest \<Rightarrow> length rest \<le> length (c # cs) | Quit b y rest \<Rightarrow> length rest \<le> length (c # cs) | Wild \<Rightarrow> True)" for y
  have leaf: "Q (read_keys e n h o2 j b cs)" "Q (Stop r j b y cs)" "Q (Quit b y cs)" "Q Wild" for o2 j b r y
    using Cons.IH [of o2 j b] by (auto simp: Q_def split: keys.splits)
  have branch: "(t \<Longrightarrow> Q x) \<Longrightarrow> (\<not> t \<Longrightarrow> Q y) \<Longrightarrow> Q (if t then x else y)" for t x y by simp
  have "Q (read_keys e n h o1 i bf (c # cs))"
    unfolding read_keys.simps Let_def by (intro branch leaf)
  then show ?case by (simp add: Q_def)
qed auto

lemma tidy_readword: "tidy c 0 (readword e)"
  unfolding tidy_def
proof (intro allI impI)
  fix s :: letter
  assume "in_cbreak s = c"
  then show "tidy_end c 0 (length (tin s)) (readword e s)"
    using read_keys_input [where e = e and n = "nlet s" and h = "hist_text s" and ?o1.0 = "''?''" and i = 0 and bf = "guess_buf s" and cs = "tin s"]
    by (auto simp: readword_def run_simps split: keys.splits)
qed

lemma tidy_guess_round: "tidy c 1 (guess_round e)"
proof -
  have "tidy_end c 1 (length (tin s)) (guess_round e s)" if "in_cbreak s = c" for s
  proof -
    obtain r t where read: "readword e s = (r, t)" by fastforce
    note end1 = tidyD [OF tidy_readword that read]
    show ?thesis
    proof (cases r)
      case (Ret quit)
      show ?thesis
      proof (cases quit)
        case True
        with end1 Ret show ?thesis
          by (cases "target t") (simp_all add: guess_round_def bnd_def read gets_run undef_run sq_def puts_run letter_done_def
              set_mode_def upd_run whenP_def ret_run exit_run)
      next
        case False
        with Ret read have less: "length (tin t) < length (tin s)" using readword_word [of e s t] by simp
        have "tidy c 0 (bnd (gets id) (\<lambda>s. case target s of None \<Rightarrow> undef | Some w \<Rightarrow>
            sq (upd (\<lambda>s. s\<lparr>guesses := guesses s + 1\<rparr>)) (bnd (check_word (cstr (guess_buf s)) w) (\<lambda>won. ret (\<not> won)))))" (is "tidy c 0 ?m")
          by (intro tidy_rules tidy_check_word) simp_all
        with end1 Ret have "tidy_end c 0 (length (tin t)) (?m t)" by (simp add: tidy_def)
        from tidy_end_mono [OF this, of 1 "length (tin s)"] less False Ret show ?thesis
          by (cases "target t") (simp_all add: guess_round_def bnd_def read gets_run)
      qed
    qed (use end1 in \<open>simp_all add: guess_round_def bnd_def read\<close>)
  qed
  then show ?thesis by (simp add: tidy_def)
qed

lemma tidy_choose_word: "tidy c 0 (choose_word e)"
  unfolding choose_word_def Let_def
  by (intro tidy_rules) (simp_all split: choice.split add: tidy_basic tidy_upd)

lemma tidy_save_score: "tidy c 0 (save_score e w k g)"
  unfolding save_score_def write_score_def Let_def
  by (intro tidy_rules) (simp_all split: list.split option.split add: tidy_rules)

lemma tidy_yes: "tidy c 0 (yes e)"
proof -
  have "length (snd (snd (yes_keys e got rc x cs))) \<le> length cs" for got rc x cs
    by (induction e got rc x cs rule: yes_keys.induct) (auto simp: Let_def le_SucI)
  from this [of False False "[]"] show ?thesis
    unfolding yes_def tidy_def by (auto simp: run_simps split: prod.splits) (metis snd_conv)+
qed

lemma tidy_play_round: "tidy c 1 (play_round e nosave)"
proof -
  have "tidy c 0 (bnd (gets id) (\<lambda>s.
       sq (puts (''Got it in '' @ dec (guesses s) @ '' guess'' @ (if guesses s \<noteq> 1 then ''es'' else []) @ ''.\<newline>''))
       (sq (whenP (\<not> nosave) (case target s of None \<Rightarrow> undef | Some w \<Rightarrow> save_score e w (wordno s) (guesses s)))
       (sq (puts ''Again? '') (yes e)))))"
    by (intro tidy_rules tidy_save_score tidy_yes)
  note body = tidy_sq [OF tidy_iter [OF tidy_guess_round] this, of e, unfolded add_0_right]
  show ?thesis
    unfolding play_round_def free_hist_def
    by (rule tidy_sq0 [OF tidy_choose_word tidy_sq0 [OF tidy_upd tidy_sq0 [OF tidy_basic(5) tidy_sq0 [OF tidy_upd body]]]]) simp_all
qed

lemma tidy_args: "tidy c 0 (letter_args e w as)"
  by (induction e w as rule: letter_args.induct) (auto intro!: tidy_rules tidy_fail)

lemma tidy_hash_file: "tidy c 0 (hash_file e)"
  unfolding hash_file_def by (intro tidy_rules) (simp split: sum.split add: tidy_fail tidy_upd)

lemma tidy_show_score: "tidy c 0 (show_score e)"
  unfolding show_score_def by (intro tidy_rules)

lemma tidy_in_cbreak:
  assumes "tidy True d m"
  shows "tidy False d' (sq (set_mode True) (sq m (letter_done k)))"
  unfolding tidy_def
proof (intro allI impI)
  fix s :: letter
  let ?s = "s\<lparr>in_cbreak := True\<rparr>"
  obtain r t where step: "m ?s = (r, t)" by fastforce
  have "tidy_end True d (length (tin ?s)) (r, t)" using tidyD [OF assms _ step] by simp
  then show "tidy_end False d' (length (tin s)) (sq (set_mode True) (sq m (letter_done k)) s)"
    by (cases r) (simp_all add: set_mode_def sq_def bnd_def upd_run step letter_done_def gets_run whenP_def exit_run)
qed

lemma tidy_main: "tidy False 0 (letter_main e args)"
proof -
  have game: "tidy False 0 (sq (set_mode True) (sq (puts x) (sq (bnd (gets (\<lambda>s. length (tin s))) (\<lambda>k. iter (Suc k) (play_round e nosave)))
      (letter_done 0))))" for x nosave
  proof -
    have "tidy True 1 (sq (puts x) (bnd (gets (\<lambda>s. length (tin s))) (\<lambda>k. iter (Suc k) (play_round e nosave))))"
      by (intro tidy_sq0 tidy_basic tidy_iter tidy_play_round)
    from tidy_in_cbreak [OF this, of 0 0] show ?thesis by (simp add: sq_assoc)
  qed
  show ?thesis
    unfolding letter_main_def Let_def initmodes_def
    by (intro tidy_rules tidy_args tidy_fail tidy_hash_file tidy_show_score game) simp_all
qed

lemma no_return_done: "no_return (letter_done k)" "no_return (letter_fail e x)"
  unfolding letter_fail_def letter_done_def by (intro no_return_rules)+

lemma no_return_main: "no_return (letter_main e args)"
  unfolding letter_main_def Let_def by (intro no_return_rules no_return_done)

text \<open>
  C14: Every run of the game ends, whatever file, arguments and input it gets: by an exit that leaves the
  terminal in its normal mode, or in undefined behaviour.
\<close>

theorem letter_main_ends:
  "(\<exists>k t. letter_main e args (letter_start input) = (Exit k, t) \<and> \<not> in_cbreak t) \<or>
   (\<exists>t. letter_main e args (letter_start input) = (Undef, t))"
proof -
  obtain r t where run: "letter_main e args (letter_start input) = (r, t)" by fastforce
  from tidyD [OF tidy_main _ this] have "tidy_end False 0 (length (tin (letter_start input))) (r, t)"
    by (simp add: letter_start_def)
  moreover from no_return_main have "r \<noteq> Ret a" for a
    using run by (metis fst_conv no_return_def)
  ultimately show ?thesis using run by (cases r) auto
qed

text \<open>
  The keys \<open>q\<close> and \<open>r\<close> are looked for in the first byte of the buffer, not of the word typed: an empty line
  ends the game when the guess before began with a \<open>q\<close>.
\<close>

lemma stale_letter_quits:
  assumes "guess_buf s = CHR ''q'' # w" and "1 < nlet s" and "tin s = NL # rest"
  shows "fst (readword e s) = Ret True"
  using assms by (simp add: readword_def run_simps Let_def tolower_def isupper_def islower_def)

end
