(* ===== verification/Resh.thy ===== *)
theory Resh
  imports CLib
begin

text \<open>
  The restricted shell for new users, \<open>soft/apps/resh\<close>: splitting a line into words in place
  (\<open>token.c\<close>), the table of commands as shared objects (\<open>dyncmd.c\<close>), and the shell itself (\<open>resh.c\<close>).
  The commands, which are loaded into the shell's own process, the shared library loader and readline are parameters.
\<close>

section \<open>Words of a line\<close>

text \<open>
  The line is the memory readline allocated: its bytes with the NUL behind them. Reading outside it is
  undefined, which is \<open>None\<close> here. A pointer is an index.
\<close>

abbreviation QUOTE :: char where "QUOTE \<equiv> CHR 0x27"
abbreviation BACKSLASH :: char where "BACKSLASH \<equiv> CHR 0x5C"

text \<open>The loop of \<open>unquote\<close>, with the source \<open>s\<close> and the destination \<open>d\<close>.\<close>

function unquote_from :: "string \<Rightarrow> nat \<Rightarrow> nat \<Rightarrow> string option" where
  "unquote_from m s d = (case mem_at m s of
     None \<Rightarrow> None
   | Some c \<Rightarrow>
       if c = NUL then Some (m[d := NUL])
       else if c = QUOTE \<or> c = BACKSLASH then
         (case mem_at m (Suc s) of
            None \<Rightarrow> None
          | Some c1 \<Rightarrow>
              if c1 = NUL then unquote_from (m[s := NUL, d := NUL]) (Suc s) (Suc d)
              else unquote_from (m[d := c1]) (Suc (Suc s)) (Suc d))
       else unquote_from (m[d := c]) (Suc s) (Suc d))"
  by pat_completeness auto
termination
  by (relation "measure (\<lambda>(m, s, d). length m - s)") (auto simp: mem_at_def split: if_splits)

declare unquote_from.simps [simp del]

definition unquote :: "string \<Rightarrow> nat \<Rightarrow> string option" where
  "unquote m p = unquote_from m p p"

text \<open>
  The end of a quoted word: the closing quote becomes a NUL. A backslash takes its own step and the one of
  the loop, three bytes in all.
\<close>

function quotedtoken :: "string \<Rightarrow> nat \<Rightarrow> (string \<times> nat) option" where
  "quotedtoken m p = (case mem_at m p of
     None \<Rightarrow> None
   | Some c \<Rightarrow>
       if c = NUL then Some (m, p)
       else if c = QUOTE then
         (case mem_at m (Suc p) of
            None \<Rightarrow> None
          | Some c1 \<Rightarrow> if c1 = QUOTE then quotedtoken m (Suc (Suc p)) else Some (m[p := NUL], Suc p))
       else if c = BACKSLASH then
         (case mem_at m (Suc p) of
            None \<Rightarrow> None
          | Some c1 \<Rightarrow> quotedtoken m (if c1 \<noteq> NUL then Suc (Suc (Suc p)) else Suc p))
       else quotedtoken m (Suc p))"
  by pat_completeness auto
termination
  by (relation "measure (\<lambda>(m, p). length m - p)") (auto simp: mem_at_def split: if_splits)

declare quotedtoken.simps [simp del]

function simpletoken :: "string \<Rightarrow> nat \<Rightarrow> nat option" where
  "simpletoken m p = (case mem_at m p of
     None \<Rightarrow> None
   | Some c \<Rightarrow> if c \<noteq> NUL \<and> c \<noteq> QUOTE \<and> \<not> isspace c then simpletoken m (Suc p) else Some p)"
  by pat_completeness auto
termination
  by (relation "measure (\<lambda>(m, p). length m - p)") (auto simp: mem_at_def split: if_splits)

declare simpletoken.simps [simp del]

text \<open>White space in front of a word is overwritten.\<close>

function skip_blanks :: "string \<Rightarrow> nat \<Rightarrow> (string \<times> nat) option" where
  "skip_blanks m p = (case mem_at m p of
     None \<Rightarrow> None
   | Some c \<Rightarrow> if isspace c then skip_blanks (m[p := NUL]) (Suc p) else Some (m, p))"
  by pat_completeness auto
termination
  by (relation "measure (\<lambda>(m, p). length m - p)") (auto simp: mem_at_def split: if_splits)

declare skip_blanks.simps [simp del]

text \<open>One word from a byte that is no white space: the memory, the word, and the place behind it.\<close>

definition next_word :: "string \<Rightarrow> nat \<Rightarrow> (string \<times> nat \<times> nat) option" where
  "next_word m p = (if mem_at m p = Some QUOTE then
       (case quotedtoken (m[p := NUL]) (Suc (Suc p)) of
          None \<Rightarrow> None
        | Some (m1, q) \<Rightarrow> (case unquote m1 (Suc p) of None \<Rightarrow> None | Some m2 \<Rightarrow> Some (m2, Suc p, q)))
     else (case simpletoken m p of None \<Rightarrow> None | Some q \<Rightarrow> Some (m, p, q)))"

text \<open>The loop over the words; \<open>k\<close> more of them fit into the table.\<close>

fun word_loop :: "string \<Rightarrow> nat \<Rightarrow> nat \<Rightarrow> (string \<times> nat list) option" where
  "word_loop m p 0 = Some (m, [])"
| "word_loop m p (Suc k) = (case mem_at m p of
     None \<Rightarrow> None
   | Some c \<Rightarrow>
       if c = NUL then Some (m, [])
       else (case skip_blanks m p of
           None \<Rightarrow> None
         | Some (m1, q) \<Rightarrow>
             if mem_at m1 q = Some NUL then Some (m1, [])
             else (case next_word m1 q of
                 None \<Rightarrow> None
               | Some (m2, a, r) \<Rightarrow> map_option (\<lambda>(m3, as). (m3, a # as)) (word_loop m2 r k))))"

text \<open>The memory with the places of the words, or -1 (here \<open>Some None\<close>) where the arguments are refused.\<close>

definition tokenizeq :: "string option \<Rightarrow> int \<Rightarrow> (string \<times> nat list) option option" where
  "tokenizeq str maxtoks = (case str of
     None \<Rightarrow> Some None
   | Some m \<Rightarrow> if maxtoks \<le> 0 then Some None else map_option Some (word_loop m 0 (nat maxtoks)))"

definition word_at :: "string \<Rightarrow> nat \<Rightarrow> string" where
  "word_at m p = cstr (drop p m)"

section \<open>The shell\<close>

text \<open>
  The state: what readline will hand over until the end of the input, the environment variables, whether
  the file that asks for a new password exists, and the paths given to the loader, latest first.
\<close>

record shell_process = tty +
  typed_lines :: "string list"
  environ :: "(string \<times> string) list"
  needpwchange :: bool

record resh = shell_process +
  loaded :: "string list"

type_synonym 'a reshp = "('a, resh) prog"

text \<open>
  A shared object may define \<open>main\<close> and \<open>tryegg\<close>. They run inside the process of the shell, so they are programs on
  its state: they may take input, print, change the environment, end the process, and not come back.
\<close>

record shared =
  sym_main :: "(string list \<Rightarrow> (unit, shell_process) prog) option"
  sym_tryegg :: "(string \<Rightarrow> (bool, shell_process) prog) option"

definition in_process :: "('a, shell_process) prog \<Rightarrow> 'a reshp" where
  "in_process m s = (case m (shell_process.truncate s) of (r, w) \<Rightarrow>
     (r, s\<lparr>tin := tin w, tout := tout w, typed_lines := typed_lines w, environ := environ w, needpwchange := needpwchange w\<rparr>))"

record resh_env =
  dlopen :: "string \<Rightarrow> shared option"
  dlerror :: "string \<Rightarrow> string"
  perror_text :: string
  home_dir :: "string option"
  home_ok :: bool
  start_env :: "(string \<times> string) list"

definition RESH_PATH :: string where
  "RESH_PATH = ''/cyberspace/grex/resh/lib/cmd''"

definition load :: "resh_env \<Rightarrow> string \<Rightarrow> shared option reshp" where
  "load e path = sq (upd (\<lambda>s. s\<lparr>loaded := path # loaded s\<rparr>)) (ret (dlopen e path))"

definition dynegg :: "resh_env \<Rightarrow> string \<Rightarrow> bool reshp" where
  "dynegg e cmd = bnd (load e (RESH_PATH @ ''/eggbasket.so'')) (\<lambda>h. case h of
     None \<Rightarrow> ret False
   | Some so \<Rightarrow> (case sym_tryegg so of
       None \<Rightarrow> ret False
     | Some f \<Rightarrow> in_process (f cmd)))"

text \<open>\<open>strrchr\<close>: what follows the last slash.\<close>

definition base_name :: "string \<Rightarrow> string" where
  "base_name c = rev (takeWhile (\<lambda>x. x \<noteq> CHR ''/'') (rev c))"

text \<open>The path buffer has 128 bytes; \<open>snprintf\<close> cuts the text and returns its full length.\<close>

definition run_command :: "resh_env \<Rightarrow> string \<Rightarrow> string list \<Rightarrow> unit reshp" where
  "run_command e c argv = (let cmd = base_name c; full = RESH_PATH @ ''/'' @ cmd @ ''.so''; path = take 127 full in
     if 128 < length full then puts (cmd @ '': command too long.\<newline>'')
     else bnd (load e path) (\<lambda>h. case h of
         None \<Rightarrow> puts (cmd @ '': command not found: '' @ dlerror e path @ ''\<newline>'')
       | Some so \<Rightarrow> (case sym_main so of
           None \<Rightarrow> puts (dlerror e path @ '': '' @ perror_text e @ ''\<newline>'')
         | Some f \<Rightarrow> in_process (f argv))))"

definition MAXARGS :: int where "MAXARGS = 16"

text \<open>The words of a line as the shell keeps them; the line is followed by its NUL.\<close>

definition resh_parse :: "string \<Rightarrow> string list reshp" where
  "resh_parse str = (case tokenizeq (Some (str @ [NUL])) MAXARGS of
     None \<Rightarrow> undef
   | Some None \<Rightarrow> undef
   | Some (Some (m, ps)) \<Rightarrow> ret (map (word_at m) ps))"

definition leave_words :: "string list" where
  "leave_words = [''exit'', ''quit'', ''logoff'', ''logout'', ''bye'']"

definition resh_eval :: "resh_env \<Rightarrow> string list \<Rightarrow> unit reshp" where
  "resh_eval e argv = (case argv of
     [] \<Rightarrow> ret ()
   | c # _ \<Rightarrow>
       if c \<in> set leave_words then sq (puts ''Goodbye.\<newline>'') (exit_prog 0)
       else if c = ''reboot'' then
         sq (puts ''Rebooting....\<newline>resh: Terminated by signal 15.\<newline>'') (exit_prog 0)
       else bnd (dynegg e c) (\<lambda>r. if r then ret () else run_command e c argv))"

text \<open>\<open>readline\<close> prints the prompt and gives the next line, or NULL at the end of the input.\<close>

definition resh_read :: "string \<Rightarrow> string option reshp" where
  "resh_read prompt = sq (puts prompt) (bnd (gets typed_lines) (\<lambda>ls. case ls of
     [] \<Rightarrow> ret None
   | l # rest \<Rightarrow> sq (upd (\<lambda>s. s\<lparr>typed_lines := rest\<rparr>)) (ret (Some l))))"

section \<open>Starting up\<close>

definition initdir :: "resh_env \<Rightarrow> unit reshp" where
  "initdir e = (case home_dir e of
     None \<Rightarrow> sq (puts ''Who are you?\<newline>'') (exit_prog 1)
   | Some d \<Rightarrow> if home_ok e then ret () else sq (puts (d @ '': '' @ perror_text e @ ''\<newline>'')) (exit_prog 1))"

definition fixed_env :: "(string \<times> string) list" where
  "fixed_env = [(''SHELL'', ''resh''), (''EDITOR'', ''reshe''), (''PAGER'', ''pg''),
     (''PATH'', ''/cyberspace/grex/resh/bin:/cyberspace/bin'')]"

text \<open>\<open>putenv\<close> and \<open>setenv\<close>: a variable is replaced where it stands or added at the end.\<close>

fun set_var :: "string \<times> string \<Rightarrow> (string \<times> string) list \<Rightarrow> (string \<times> string) list" where
  "set_var kv [] = [kv]"
| "set_var kv (x # xs) = (if fst x = fst kv then kv # xs else x # set_var kv xs)"

definition keep_var :: "string \<Rightarrow> (string \<times> string) list \<Rightarrow> (string \<times> string) list \<Rightarrow> (string \<times> string) list" where
  "keep_var k old new = (case map_of old k of None \<Rightarrow> new | Some v \<Rightarrow> set_var (k, v) new)"

definition initenv :: "unit reshp" where
  "initenv = upd (\<lambda>s. s\<lparr>environ := keep_var ''TERM'' (environ s) (keep_var ''TZ'' (environ s) (fold set_var fixed_env []))\<rparr>)"

definition initpasswd :: "resh_env \<Rightarrow> unit reshp" where
  "initpasswd e = bnd (gets needpwchange) (\<lambda>b. whenP b
     (sq (run_command e ''passwd'' [''passwd'']) (upd (\<lambda>s. s\<lparr>needpwchange := False\<rparr>))))"

definition resh_init :: "resh_env \<Rightarrow> unit reshp" where
  "resh_init e = sq (initdir e) (sq initenv (sq (initpasswd e)
     (puts ''Welcome to Grex.  This is resh.  Type 'help' if you are lost.\<newline>'')))"

definition resh_round :: "resh_env \<Rightarrow> bool reshp" where
  "resh_round e = bnd (resh_read ''grex; '') (\<lambda>r. case r of
     None \<Rightarrow> ret False
   | Some str \<Rightarrow> bnd (resh_parse str) (\<lambda>argv. sq (resh_eval e argv) (ret True)))"

definition resh_main :: "resh_env \<Rightarrow> unit reshp" where
  "resh_main e = sq (resh_init e) (sq
     (bnd (gets (\<lambda>s. length (typed_lines s))) (\<lambda>k. iter (Suc k) (resh_round e)))
     (exit_prog 0))"

definition resh_start :: "resh_env \<Rightarrow> string list \<Rightarrow> bool \<Rightarrow> resh" where
  "resh_start e ls b = \<lparr>tin = [], tout = [], typed_lines = ls, environ = start_env e, needpwchange = b, loaded = []\<rparr>"

end
