(* ===== verification/ReshProps.thy ===== *)
theory ReshProps
  imports Resh
begin

text \<open>
  The words of a line and what spells them, and what the restricted shell loads and when it ends.
\<close>

section \<open>Reading words back\<close>

text \<open>A word is spelled as it is, or in quotes with its quotes doubled.\<close>

definition plain_word :: "string \<Rightarrow> bool" where
  "plain_word w \<longleftrightarrow> w \<noteq> [] \<and> (\<forall>c\<in>set w. c \<noteq> NUL \<and> c \<noteq> QUOTE \<and> \<not> isspace c)"

definition quotable :: "string \<Rightarrow> bool" where
  "quotable w \<longleftrightarrow> w \<noteq> [] \<and> hd w \<noteq> QUOTE \<and> NUL \<notin> set w \<and> BACKSLASH \<notin> set w"

fun double :: "string \<Rightarrow> string" where
  "double [] = []"
| "double (c # w) = (if c = QUOTE then [QUOTE, QUOTE] else [c]) @ double w"

definition spell :: "string \<Rightarrow> string" where
  "spell w = (if plain_word w then w else QUOTE # double w @ [QUOTE])"

lemma skip_blanks_text:
  assumes "\<forall>c\<in>set b. isspace c" and "\<not> isspace x"
  shows "skip_blanks (pre @ b @ x # rest) (length pre) = Some (pre @ replicate (length b) NUL @ x # rest, length pre + length b)"
  using assms(1)
proof (induction b arbitrary: pre)
  case Nil
  then show ?case using assms(2) by (simp add: skip_blanks.simps)
next
  case (Cons c b)
  then show ?case using Cons.IH [of "pre @ [NUL]"] by (simp add: skip_blanks.simps [of "pre @ c # _"])
qed

lemma simpletoken_text:
  assumes "\<forall>c\<in>set w. c \<noteq> NUL \<and> c \<noteq> QUOTE \<and> \<not> isspace c" and "x = NUL \<or> x = QUOTE \<or> isspace x"
  shows "simpletoken (pre @ w @ x # rest) (length pre) = Some (length pre + length w)"
  using assms(1)
proof (induction w arbitrary: pre)
  case Nil
  then show ?case using assms(2) by (auto simp: simpletoken.simps)
next
  case (Cons c w)
  then show ?case using Cons.IH [of "pre @ [c]"] by (simp add: simpletoken.simps [of "pre @ c # _"])
qed

lemma quotedtoken_text:
  assumes "NUL \<notin> set w" and "BACKSLASH \<notin> set w" and "x \<noteq> QUOTE"
  shows "quotedtoken (pre @ double w @ QUOTE # x # rest) (length pre)
    = Some (pre @ double w @ NUL # x # rest, length pre + length (double w) + 1)"
  using assms(1,2)
proof (induction w arbitrary: pre)
  case Nil
  then show ?case using assms(3) by (simp add: quotedtoken.simps)
next
  case (Cons c w)
  show ?case
  proof (cases "c = QUOTE")
    case True
    then show ?thesis using Cons.prems Cons.IH [of "pre @ [QUOTE, QUOTE]"]
      by (simp add: quotedtoken.simps [of "pre @ QUOTE # _"])
  next
    case False
    then show ?thesis using Cons.prems Cons.IH [of "pre @ [c]"] by (auto simp: quotedtoken.simps [of "pre @ c # _"])
  qed
qed

lemma unquote_text:
  assumes "NUL \<notin> set w" and "BACKSLASH \<notin> set w"
  shows "\<exists>j. unquote_from (pre @ gap @ double w @ NUL # rest) (length (pre @ gap)) (length pre) = Some (pre @ w @ NUL # j @ rest)
    \<and> length j + length w = length gap + length (double w)"
  using assms
proof (induction w arbitrary: pre gap)
  case Nil
  have "mem_at (pre @ gap @ NUL # rest) (length (pre @ gap)) = Some NUL"
    using mem_at_append [of "pre @ gap" NUL rest] by simp
  then show ?case
    using update_over_gap [of gap "[NUL]" pre rest NUL]
    by (intro exI [of _ "tl (gap @ [NUL])"], subst unquote_from.simps) simp
next
  case (Cons c w)
  define x where "x = (if c = QUOTE then [QUOTE, QUOTE] else [c])"
  let ?m = "pre @ gap @ x @ double w @ NUL # rest" and ?s = "length (pre @ gap)"
  have at: "mem_at ?m ?s = Some c"
    using mem_at_append [of "pre @ gap" c "tl x @ double w @ NUL # rest"] by (cases "c = QUOTE") (simp_all add: x_def)
  have at1: "c = QUOTE \<Longrightarrow> mem_at ?m (Suc ?s) = Some QUOTE"
    using mem_at_append_Suc [of "pre @ gap" QUOTE QUOTE "double w @ NUL # rest"] by (simp add: x_def)
  have step: "unquote_from ?m ?s (length pre) = unquote_from (?m[length pre := c]) (?s + length x) (Suc (length pre))"
    using at at1 Cons.prems by (subst unquote_from.simps) (auto simp: x_def)
  have m: "?m[length pre := c] = (pre @ [c]) @ tl (gap @ x) @ double w @ NUL # rest"
    using update_over_gap [of gap x pre "double w @ NUL # rest" c] by (simp add: x_def)
  have "x \<noteq> []" by (simp add: x_def)
  then have s: "?s + length x = length ((pre @ [c]) @ tl (gap @ x))" by (cases gap) auto
  obtain j where j: "unquote_from ((pre @ [c]) @ tl (gap @ x) @ double w @ NUL # rest) (length ((pre @ [c]) @ tl (gap @ x))) (length (pre @ [c]))
      = Some ((pre @ [c]) @ w @ NUL # j @ rest)" "length j + length w = length (tl (gap @ x)) + length (double w)"
    using Cons.IH [of "pre @ [c]" "tl (gap @ x)"] Cons.prems by auto
  have "unquote_from ?m ?s (length pre) = Some (pre @ (c # w) @ NUL # j @ rest)"
    unfolding step m s using j(1) by simp
  moreover have "length j + length (c # w) = length gap + length (double (c # w))"
    using j(2) s by (simp add: x_def)
  ultimately show ?case by (intro exI [of _ j]) (simp add: x_def)
qed

text \<open>One word and what stands behind it.\<close>

lemma next_word_plain:
  assumes "plain_word w" and "x = NUL \<or> x = QUOTE \<or> isspace x"
  shows "next_word (pre @ w @ x # rest) (length pre) = Some (pre @ w @ x # rest, length pre, length pre + length w)"
proof -
  obtain c w' where "w = c # w'" "c \<noteq> QUOTE" using assms(1) by (cases w) (auto simp: plain_word_def)
  then have "mem_at (pre @ w @ x # rest) (length pre) \<noteq> Some QUOTE" by simp
  then show ?thesis
    using simpletoken_text [of w x pre rest] assms by (simp add: next_word_def plain_word_def)
qed

lemma next_word_quoted:
  assumes "quotable w" and "x \<noteq> QUOTE"
  shows "\<exists>j. next_word (pre @ QUOTE # double w @ QUOTE # x # rest) (length pre)
      = Some (pre @ NUL # w @ NUL # j @ x # rest, Suc (length pre), length pre + length (double w) + 2) \<and>
    length j + length w = length (double w)"
proof -
  obtain c w' where w: "w = c # w'" "c \<noteq> QUOTE" using assms(1) by (cases w) (auto simp: quotable_def)
  have "quotedtoken ((pre @ [NUL, c]) @ double w' @ QUOTE # x # rest) (length (pre @ [NUL, c]))
      = Some ((pre @ [NUL, c]) @ double w' @ NUL # x # rest, length (pre @ [NUL, c]) + length (double w') + 1)"
    using assms w by (intro quotedtoken_text) (auto simp: quotable_def)
  then have q: "quotedtoken ((pre @ QUOTE # double w @ QUOTE # x # rest)[length pre := NUL]) (Suc (Suc (length pre)))
      = Some (pre @ NUL # double w @ NUL # x # rest, length pre + length (double w) + 2)"
    using w by simp
  obtain j where "unquote_from ((pre @ [NUL]) @ [] @ double w @ NUL # x # rest) (length ((pre @ [NUL]) @ [])) (length (pre @ [NUL]))
      = Some ((pre @ [NUL]) @ w @ NUL # j @ x # rest)" "length j + length w = length ([] :: string) + length (double w)"
    using unquote_text [of w "pre @ [NUL]" "[]" "x # rest"] assms(1) by (auto simp: quotable_def)
  then show ?thesis using q by (auto simp: next_word_def unquote_def)
qed

definition blanks :: "string \<Rightarrow> bool" where "blanks b \<longleftrightarrow> (\<forall>c\<in>set b. isspace c)"

definition text_of :: "(string \<times> string) list \<Rightarrow> string \<Rightarrow> string" where
  "text_of bws tail = concat (map (\<lambda>(b, w). b @ spell w) bws) @ tail"

definition line_ok :: "(string \<times> string) list \<Rightarrow> string \<Rightarrow> bool" where
  "line_ok bws tail \<longleftrightarrow> (\<forall>(b, w)\<in>set bws. blanks b \<and> (plain_word w \<or> quotable w)) \<and> (\<forall>(b, w)\<in>set (tl bws). b \<noteq> []) \<and> blanks tail"

lemma word_at_prefix:
  assumes "take (length p + length w + 1) m = p @ w @ [NUL]" and "NUL \<notin> set w"
  shows "word_at m (length p) = w"
proof -
  have "m = (p @ w @ [NUL]) @ drop (length p + length w + 1) m" using append_take_drop_id assms(1) by metis
  then have "drop (length p) m = w @ NUL # drop (length p + length w + 1) m" by (metis append_assoc append_Cons append_Nil append_eq_conv_conj)
  then show ?thesis using assms(2) by (simp add: word_at_def cstr_def takeWhile_append takeWhile_eq_all_conv)
qed

lemma rest_starts:
  assumes "line_ok (bw # bws) tail"
  obtains x rest where "text_of bws tail @ [NUL] = x # rest" and "x = NUL \<or> isspace x"
proof (cases "text_of bws tail")
  case (Cons x xs)
  have "isspace x"
  proof (cases bws)
    case Nil
    with Cons assms show ?thesis by (auto simp: text_of_def line_ok_def blanks_def)
  next
    case (Cons bw' bws')
    with \<open>text_of bws tail = x # xs\<close> assms show ?thesis
      by (cases bw'; cases "fst bw'") (auto simp: text_of_def line_ok_def blanks_def)
  qed
  with Cons that show ?thesis by simp
qed (use that in simp)

lemma not_blank: "\<not> isspace NUL" "\<not> isspace QUOTE" by (simp_all add: isspace_def)

lemma spell_start: "plain_word w \<or> quotable w \<Longrightarrow> \<exists>y ys. spell w = y # ys \<and> \<not> isspace y \<and> y \<noteq> NUL"
  by (cases w) (auto simp: spell_def plain_word_def quotable_def not_blank)

text \<open>The word at the start of a text is found, and the rest of the text is still to be read.\<close>

lemma next_word_text:
  assumes w: "plain_word w \<or> quotable w" and x: "x = NUL \<or> isspace x"
  shows "\<exists>m1 a. next_word (pre @ spell w @ x # rest) (length pre) = Some (m1 @ x # rest, a, length m1) \<and>
    length m1 = length pre + length (spell w) \<and> take (length pre) m1 = pre \<and>
    (\<forall>m. take (length m1) m = m1 \<longrightarrow> length m1 < length m \<longrightarrow> m ! length m1 = NUL \<longrightarrow> word_at m a = w)"
proof (cases "plain_word w")
  case True
  have x': "x = NUL \<or> x = QUOTE \<or> isspace x" using x by blast
  have "NUL \<notin> set w" using True by (auto simp: plain_word_def)
  moreover have "take (length pre + length w + 1) m = pre @ w @ [NUL]" if "take (length (pre @ w)) m = pre @ w" "length (pre @ w) < length m"
    "m ! length (pre @ w) = NUL" for m
    using that take_Suc_conv_app_nth [of "length (pre @ w)" m] by simp
  ultimately show ?thesis
    using next_word_plain [OF True x', of pre rest] True
    by (intro exI [of _ "pre @ w"] exI [of _ "length pre"]) (auto simp: spell_def intro: word_at_prefix)
next
  case False
  with w have q: "quotable w" by blast
  have "x \<noteq> QUOTE" using x by (auto simp: isspace_def)
  from next_word_quoted [OF q this] obtain j where
    j: "next_word (pre @ QUOTE # double w @ QUOTE # x # rest) (length pre)
      = Some (pre @ NUL # w @ NUL # j @ x # rest, Suc (length pre), length pre + length (double w) + 2)"
    "length j + length w = length (double w)" by blast
  let ?m = "pre @ NUL # w @ NUL # j"
  have "word_at m (Suc (length pre)) = w" if "take (length ?m) m = ?m" for m
  proof -
    have "take (length (pre @ [NUL]) + length w + 1) m = take (length (pre @ [NUL]) + length w + 1) (take (length ?m) m)"
      by simp
    with that have "take (length (pre @ [NUL]) + length w + 1) m = (pre @ [NUL]) @ w @ [NUL]" by simp
    from word_at_prefix [OF this] q show ?thesis by (simp add: quotable_def)
  qed
  then show ?thesis using j False by (intro exI [of _ ?m] exI [of _ "Suc (length pre)"]) (simp add: spell_def)
qed

lemma line_ok_tl: "line_ok (bw # bws) tail \<Longrightarrow> line_ok bws tail \<and> (bws = [] \<or> fst (hd bws) \<noteq> [])"
  by (cases bws) (auto simp: line_ok_def dest: list.set_sel)

lemma word_loop_text:
  assumes "line_ok bws tail" and "length bws < k"
  shows "\<exists>m ps. word_loop (pre @ text_of bws tail @ [NUL]) (length pre) k = Some (m, ps) \<and>
    take (length pre) m = pre \<and> length pre < length m \<and> map (word_at m) ps = map snd bws \<and>
    (bws = [] \<or> fst (hd bws) \<noteq> [] \<longrightarrow> m ! length pre = NUL)"
  using assms
proof (induction bws arbitrary: pre k)
  case Nil
  then obtain k' where k: "k = Suc k'" by (cases k) auto
  have b: "\<forall>c\<in>set tail. isspace c" using Nil.prems(1) by (simp add: line_ok_def blanks_def)
  show ?case
  proof (cases tail)
    case Nil
    then show ?thesis by (simp add: k text_of_def)
  next
    case (Cons t ts)
    with b have "t \<noteq> NUL" using not_blank by auto
    moreover have "mem_at (pre @ replicate (length tail) NUL @ [NUL]) (length pre + length tail) = Some NUL"
      using mem_at_append [of "pre @ replicate (length tail) NUL" NUL "[]"] by simp
    moreover have "skip_blanks (pre @ tail @ NUL # []) (length pre) = Some (pre @ replicate (length tail) NUL @ NUL # [], length pre + length tail)"
      using b not_blank(1) by (rule skip_blanks_text)
    ultimately show ?thesis by (simp add: k text_of_def Cons)
  qed
next
  case (Cons bw bws)
  obtain b w where bw: "bw = (b, w)" by fastforce
  obtain k' where k: "k = Suc k'" using Cons.prems(2) by (cases k) auto
  have ok: "\<forall>c\<in>set b. isspace c" "plain_word w \<or> quotable w"
    using Cons.prems(1) by (auto simp: line_ok_def blanks_def bw)
  note tl = line_ok_tl [OF Cons.prems(1)]
  obtain x rest where R: "text_of bws tail @ [NUL] = x # rest" and x: "x = NUL \<or> isspace x"
    using rest_starts [OF Cons.prems(1)] by blast
  obtain y ys where y: "spell w = y # ys" "\<not> isspace y" "y \<noteq> NUL" using spell_start [OF ok(2)] by blast
  define q where "q = pre @ replicate (length b) NUL"
  have "text_of (bw # bws) tail @ [NUL] = b @ spell w @ text_of bws tail @ [NUL]" by (simp add: text_of_def bw)
  then have m: "pre @ text_of (bw # bws) tail @ [NUL] = pre @ b @ spell w @ x # rest" by (simp add: R)
  have start: "\<exists>c. mem_at (pre @ b @ spell w @ x # rest) (length pre) = Some c \<and> c \<noteq> NUL"
    using y ok(1) not_blank(1) by (cases b) auto
  have skip: "skip_blanks (pre @ b @ spell w @ x # rest) (length pre) = Some (q @ spell w @ x # rest, length q)"
    using skip_blanks_text [OF ok(1) y(2), of pre "ys @ x # rest"] by (simp add: y(1) q_def)
  have nonnul: "mem_at (q @ spell w @ x # rest) (length q) \<noteq> Some NUL" using y by simp
  obtain m1 a where word: "next_word (q @ spell w @ x # rest) (length q) = Some (m1 @ x # rest, a, length m1)"
    "length m1 = length q + length (spell w)" "take (length q) m1 = q"
    "\<And>m. take (length m1) m = m1 \<Longrightarrow> length m1 < length m \<Longrightarrow> m ! length m1 = NUL \<Longrightarrow> word_at m a = w"
    using next_word_text [OF ok(2) x, of q rest] by blast
  obtain m' ps where rest: "word_loop (m1 @ x # rest) (length m1) k' = Some (m', ps)" "take (length m1) m' = m1"
    "length m1 < length m'" "map (word_at m') ps = map snd bws" "m' ! length m1 = NUL"
    using Cons.IH [of k' m1] tl Cons.prems(2) k R by auto
  have "word_loop (pre @ text_of (bw # bws) tail @ [NUL]) (length pre) k = Some (m', a # ps)"
    unfolding m using start skip nonnul word(1) rest(1) by (auto simp: k)
  moreover have q': "take (length q) m' = q"
    using rest(2) word(2,3) by (metis le_add1 min.absorb1 take_take)
  then have "take (length pre) m' = pre" by (metis (no_types) append_eq_conv_conj le_add1 length_append min.absorb1 q_def take_take)
  moreover have "b \<noteq> [] \<longrightarrow> m' ! length pre = NUL"
  proof
    assume "b \<noteq> []"
    then have "length pre < length q" "q ! length pre = NUL" by (simp_all add: q_def nth_append)
    with q' show "m' ! length pre = NUL" by (metis nth_take)
  qed
  moreover have "length pre < length m'" using rest(3) word(2) by (simp add: q_def)
  ultimately show ?case using rest word(4) by (auto simp: bw)
qed

text \<open>
  C16: A line that spells at most fifteen words, each as it is or in quotes, with any white space around them,
  is split into exactly these words.
\<close>

theorem resh_parse_spelled:
  assumes "line_ok bws tail" and "length bws < 16"
  shows "resh_parse (text_of bws tail) s = (Ret (map snd bws), s)"
proof -
  obtain m ps where "word_loop (text_of bws tail @ [NUL]) 0 16 = Some (m, ps)" "map (word_at m) ps = map snd bws"
    using word_loop_text [OF assms, of "[]"] by auto
  then show ?thesis by (simp add: resh_parse_def tokenizeq_def MAXARGS_def ret_run)
qed

definition first_session :: resh where
  "first_session = \<lparr>tin = [], tout = [], typed_lines = [], environ = [], needpwchange = False, loaded = []\<rparr>"

lemma resh_parse_spelled_witness:
  "resh_parse ('' cat  '' @ QUOTE # ''it'' @ QUOTE # QUOTE # ''s here'' @ QUOTE # ''  -'') first_session
    = (Ret [''cat'', ''it'' @ QUOTE # ''s here'', ''-''], first_session)"
  using resh_parse_spelled [of "[('' '', ''cat''), (''  '', ''it'' @ QUOTE # ''s here''), (''  '', ''-'')]" "[]" first_session]
  by (simp add: line_ok_def blanks_def plain_word_def quotable_def isspace_def text_of_def spell_def)

text \<open>
  A quote that ends the line, or a backslash in front of the last character of a quoted word that is not
  closed, sends the shell outside the line.
\<close>

lemma open_quote_undefined:
  "fst (resh_parse (''cat '' @ [QUOTE]) s) = Undef" "fst (resh_parse (''cat '' @ QUOTE # ''a'' @ BACKSLASH # ''b'') s) = Undef"
proof -
  have "tokenizeq (Some ((''cat '' @ [QUOTE]) @ [NUL])) MAXARGS = None"
    "tokenizeq (Some ((''cat '' @ QUOTE # ''a'' @ BACKSLASH # ''b'') @ [NUL])) MAXARGS = None"
    by code_simp+
  then show "fst (resh_parse (''cat '' @ [QUOTE]) s) = Undef" "fst (resh_parse (''cat '' @ QUOTE # ''a'' @ BACKSLASH # ''b'') s) = Undef"
    by (simp_all only: resh_parse_def option.case undef_def fst_conv)
qed

text \<open>The sixteenth word keeps everything that follows it.\<close>

lemma last_word_unsplit:
  "fst (resh_parse ''a b c d e f g h i j k l m n o p q'' s) =
    Ret [''a'', ''b'', ''c'', ''d'', ''e'', ''f'', ''g'', ''h'', ''i'', ''j'', ''k'', ''l'', ''m'', ''n'', ''o'', ''p q'']"
proof -
  have "map_option (map_option (\<lambda>(m, ps). map (word_at m) ps)) (tokenizeq (Some (''a b c d e f g h i j k l m n o p q'' @ [NUL])) MAXARGS) =
    Some (Some [''a'', ''b'', ''c'', ''d'', ''e'', ''f'', ''g'', ''h'', ''i'', ''j'', ''k'', ''l'', ''m'', ''n'', ''o'', ''p q''])"
    by code_simp
  then show ?thesis by (auto simp: resh_parse_def ret_def)
qed

section \<open>What the shell loads\<close>

definition command_path :: "string \<Rightarrow> bool" where
  "command_path p \<longleftrightarrow> (\<exists>f. p = RESH_PATH @ ''/'' @ f \<and> CHR ''/'' \<notin> set f) \<and> length p \<le> 127"

definition loads_commands :: "resh \<Rightarrow> resh \<Rightarrow> bool" where
  "loads_commands s t \<longleftrightarrow> (\<forall>p\<in>set (loaded t). p \<in> set (loaded s) \<or> command_path p)"

definition fewer_lines :: "resh \<Rightarrow> resh \<Rightarrow> bool" where
  "fewer_lines s t \<longleftrightarrow> length (typed_lines t) \<le> length (typed_lines s)"

text \<open>
  What is asked of a loaded object: its code does not put lines back into the input, and, being a parameter, is no
  recursion that spends fuel. It may hang.
\<close>

definition takes_input :: "('a, shell_process) prog \<Rightarrow> bool" where
  "takes_input m \<longleftrightarrow> fuelled m \<and> keeps (\<lambda>s t. length (typed_lines t) \<le> length (typed_lines s)) m"

definition object_ok :: "shared \<Rightarrow> bool" where
  "object_ok so \<longleftrightarrow> (\<forall>f a. sym_main so = Some f \<longrightarrow> takes_input (f a)) \<and> (\<forall>f c. sym_tryegg so = Some f \<longrightarrow> takes_input (f c))"

definition objects_ok :: "resh_env \<Rightarrow> bool" where
  "objects_ok e \<longleftrightarrow> (\<forall>p so. dlopen e p = Some so \<longrightarrow> object_ok so)"

definition may_hang :: "shared \<Rightarrow> bool" where
  "may_hang so \<longleftrightarrow> (\<exists>f a. sym_main so = Some f \<and> \<not> no_hang (f a)) \<or> (\<exists>f c. sym_tryegg so = Some f \<and> \<not> no_hang (f c))"

interpretation loading: frame_rel loads_commands
  by unfold_locales (auto simp: loads_commands_def)

interpretation reading: frame_rel fewer_lines
  by unfold_locales (auto simp: fewer_lines_def)

lemma base_name_no_slash: "CHR ''/'' \<notin> set (base_name c)"
  by (auto simp: base_name_def dest: set_takeWhileD)

lemma RESH_PATH_length: "length RESH_PATH = 29"
  by (simp add: RESH_PATH_def)

lemma command_path_cut: "CHR ''/'' \<notin> set f \<Longrightarrow> command_path (take 127 (RESH_PATH @ ''/'' @ f))"
  unfolding command_path_def by (auto simp: RESH_PATH_length intro!: exI [of _ "take 97 f"] dest: in_set_takeD)

lemma puts_frames: "keeps loads_commands (puts x)" "keeps fewer_lines (puts x)"
  by (auto simp: puts_def loads_commands_def fewer_lines_def intro!: loading.keeps_upd reading.keeps_upd)

lemma load_frames: "command_path p \<Longrightarrow> keeps loads_commands (load e p)" "keeps fewer_lines (load e p)"
  unfolding load_def
  by (auto simp: loads_commands_def fewer_lines_def intro!: loading.keeps_rules reading.keeps_rules loading.keeps_upd reading.keeps_upd)

lemma in_process_run: "in_process m s = (r, t) \<Longrightarrow> \<exists>w. m (shell_process.truncate s) = (r, w) \<and> typed_lines t = typed_lines w \<and> loaded t = loaded s"
  by (auto simp: in_process_def split: prod.splits)

lemma in_process_loads: "keeps loads_commands (in_process m)"
  by (rule keepsI) (auto simp: loads_commands_def dest: in_process_run)

lemma in_process_reads: "takes_input m \<Longrightarrow> keeps fewer_lines (in_process m)"
  by (rule keepsI) (fastforce simp: fewer_lines_def takes_input_def shell_process.truncate_def dest!: in_process_run dest: keepsD)

lemma fuelled_in_process: "fuelled m \<Longrightarrow> fuelled (in_process m)"
  by (auto simp: fuelled_def in_process_def split: prod.split) (metis fst_conv)

lemma no_hang_in_process: "no_hang m \<Longrightarrow> no_hang (in_process m)"
  by (auto simp: no_hang_def in_process_def split: prod.split) (metis fst_conv)

lemma cmd_path: "command_path (take 127 (RESH_PATH @ ''/'' @ base_name c @ ''.so''))"
  using base_name_no_slash by (intro command_path_cut) auto

lemma egg_path: "command_path (RESH_PATH @ ''/eggbasket.so'')"
  using command_path_cut [of "''eggbasket.so''"] by (simp add: RESH_PATH_length)

lemma run_command_loads: "keeps loads_commands (run_command e c a)"
  unfolding run_command_def Let_def by (intro loading.keeps_rules puts_frames load_frames in_process_loads cmd_path)

lemma dynegg_loads: "keeps loads_commands (dynegg e c)"
  unfolding dynegg_def by (intro loading.keeps_rules load_frames in_process_loads egg_path)

text \<open>What the loader gives for a path.\<close>

lemma with_object:
  assumes "load e p s = (Ret h, t)"
  shows "h = dlopen e p"
  using assms by (auto simp: load_def run_simps)

lemma load_bnd: "bnd (load e p) k = bnd (load e p) (\<lambda>_. k (dlopen e p))"
  by (rule ext) (simp add: load_def bnd_def sq_def upd_def ret_def)

lemma run_command_reads:
  assumes "objects_ok e"
  shows "keeps fewer_lines (run_command e c a)"
proof -
  have "keeps fewer_lines (in_process (f a))" if "dlopen e p = Some so" "sym_main so = Some f" for p so f
    using that assms by (auto simp: objects_ok_def object_ok_def intro!: in_process_reads)
  then show ?thesis unfolding run_command_def Let_def
    by (subst load_bnd) (auto intro!: reading.keeps_rules puts_frames load_frames split: option.split)
qed

lemma dynegg_reads:
  assumes "objects_ok e"
  shows "keeps fewer_lines (dynegg e c)"
proof -
  have "keeps fewer_lines (in_process (f c))" if "dlopen e p = Some so" "sym_tryegg so = Some f" for p so f
    using that assms by (auto simp: objects_ok_def object_ok_def intro!: in_process_reads)
  then show ?thesis unfolding dynegg_def
    by (subst load_bnd) (auto intro!: reading.keeps_rules load_frames split: option.split)
qed

lemma eval_loads: "keeps loads_commands (resh_eval e a)"
  unfolding resh_eval_def
  by (cases a) (simp_all only: list.case, (intro loading.keeps_rules puts_frames dynegg_loads run_command_loads)+)

lemma eval_reads: "objects_ok e \<Longrightarrow> keeps fewer_lines (resh_eval e a)"
  unfolding resh_eval_def
  by (cases a) (simp_all only: list.case, (intro reading.keeps_rules puts_frames dynegg_reads run_command_reads | assumption)+)

lemma parse_loads: "keeps loads_commands (resh_parse x)"
  unfolding resh_parse_def by (intro loading.keeps_rules)

lemma parse_reads: "keeps fewer_lines (resh_parse x)"
  unfolding resh_parse_def by (intro reading.keeps_rules)

lemma read_loads: "keeps loads_commands (resh_read x)"
  by (auto simp: keeps_def resh_read_def puts_def run_simps loads_commands_def split: list.splits)

lemma init_loads: "keeps loads_commands (resh_init e)"
  unfolding resh_init_def initdir_def initenv_def initpasswd_def
  by (intro loading.keeps_rules puts_frames run_command_loads loading.keeps_upd) (simp_all add: loads_commands_def)

lemma round_loads: "keeps loads_commands (resh_round e)"
  unfolding resh_round_def by (intro loading.keeps_rules read_loads parse_loads eval_loads)

lemma main_loads: "keeps loads_commands (resh_main e)"
  unfolding resh_main_def by (intro loading.keeps_rules init_loads loading.keeps_iter round_loads)

text \<open>Every round takes a line.\<close>

lemma round_shrinks:
  assumes "objects_ok e" and "resh_round e s = (Ret True, t)"
  shows "length (typed_lines t) < length (typed_lines s)"
proof (cases "typed_lines s")
  case Nil
  with assms(2) show ?thesis by (simp add: resh_round_def resh_read_def bnd_def sq_def puts_run gets_run ret_run)
next
  case (Cons l ls)
  let ?u = "s\<lparr>tout := tout s @ ''grex; '', typed_lines := ls\<rparr>"
  have "bnd (resh_parse l) (\<lambda>argv. sq (resh_eval e argv) (ret True)) ?u = (Ret True, t)"
    using assms(2) Cons by (simp add: resh_round_def resh_read_def bnd_def sq_def puts_run gets_run ret_run upd_run)
  moreover have "keeps fewer_lines (bnd (resh_parse l) (\<lambda>argv. sq (resh_eval e argv) (ret True)))"
    by (intro reading.keeps_rules parse_reads eval_reads assms(1))
  ultimately have "fewer_lines ?u t" by (rule keepsD [rotated])
  then show ?thesis by (simp add: fewer_lines_def Cons)
qed

lemma fuelled_puts: "fuelled (puts x)"
  by (simp add: fuelled_def puts_run)

lemma fuelled_read: "fuelled (resh_read p)"
  by (auto simp: fuelled_def resh_read_def puts_def run_simps split: list.split)

lemma fuelled_run:
  assumes "objects_ok e"
  shows "fuelled (run_command e c a)"
proof -
  have "fuelled (in_process (f a))" if "dlopen e p = Some so" "sym_main so = Some f" for p so f
    using that assms by (auto simp: objects_ok_def object_ok_def takes_input_def intro!: fuelled_in_process)
  then show ?thesis unfolding run_command_def Let_def
    by (subst load_bnd) (auto simp: load_def intro!: fuelled_rules fuelled_puts split: option.split)
qed

lemma fuelled_egg:
  assumes "objects_ok e"
  shows "fuelled (dynegg e c)"
proof -
  have "fuelled (in_process (f c))" if "dlopen e p = Some so" "sym_tryegg so = Some f" for p so f
    using that assms by (auto simp: objects_ok_def object_ok_def takes_input_def intro!: fuelled_in_process)
  then show ?thesis unfolding dynegg_def
    by (subst load_bnd) (auto simp: load_def intro!: fuelled_rules split: option.split)
qed

lemma fuelled_eval: "objects_ok e \<Longrightarrow> fuelled (resh_eval e a)"
  unfolding resh_eval_def
  by (cases a) (simp_all only: list.case, (intro fuelled_rules fuelled_puts fuelled_egg fuelled_run | assumption)+)

lemma fuelled_parse: "fuelled (resh_parse l)"
  unfolding resh_parse_def by (intro fuelled_rules)

lemma fuelled_init: "objects_ok e \<Longrightarrow> fuelled (resh_init e)"
  unfolding resh_init_def initdir_def initenv_def initpasswd_def by (intro fuelled_rules fuelled_puts fuelled_run)

lemma fuelled_round: "objects_ok e \<Longrightarrow> fuelled (resh_round e)"
  unfolding resh_round_def by (intro fuelled_rules fuelled_read fuelled_parse fuelled_eval)

lemma fuelled_main:
  assumes "objects_ok e"
  shows "fuelled (resh_main e)"
proof -
  have rounds: "fuelled (bnd (gets (\<lambda>s. length (typed_lines s))) (\<lambda>k. iter (Suc k) (resh_round e)))"
    by (rule shrinking_body.fuelled_iter [of _ "\<lambda>s. length (typed_lines s)"])
      (use fuelled_round [OF assms] round_shrinks [OF assms] in \<open>unfold_locales, auto simp: fuelled_def\<close>)
  show ?thesis unfolding resh_main_def by (intro fuelled_sq fuelled_init rounds fuelled_basic assms)
qed

text \<open>Nothing but a loaded object waits for ever.\<close>

lemma no_hang_puts: "no_hang (puts x)"
  by (simp add: no_hang_def puts_run)

lemma no_hang_main:
  assumes calm: "\<And>p so. command_path p \<Longrightarrow> dlopen e p = Some so \<Longrightarrow> \<not> may_hang so"
  shows "no_hang (resh_main e)"
proof -
  have "no_hang (in_process (f a))" if "dlopen e (take 127 (RESH_PATH @ ''/'' @ base_name c @ ''.so'')) = Some so" "sym_main so = Some f" for c so f a
    using calm [OF cmd_path that(1)] that(2) by (auto simp: may_hang_def intro!: no_hang_in_process)
  then have "no_hang (run_command e c a)" for c a
    unfolding run_command_def Let_def
    by (subst load_bnd) (auto simp: load_def intro!: no_hang_rules no_hang_puts split: option.split)
  moreover have "no_hang (in_process (f c))" if "dlopen e (RESH_PATH @ ''/eggbasket.so'') = Some so" "sym_tryegg so = Some f" for so f c
    using calm [OF egg_path that(1)] that(2) by (auto simp: may_hang_def intro!: no_hang_in_process)
  then have "no_hang (dynegg e c)" for c
    unfolding dynegg_def
    by (subst load_bnd) (auto simp: load_def intro!: no_hang_rules split: option.split)
  ultimately show ?thesis
    unfolding resh_main_def resh_init_def initdir_def initenv_def initpasswd_def resh_round_def resh_read_def resh_parse_def
      resh_eval_def whenP_def
    by (intro no_hang_rules no_hang_puts)
qed

lemma no_return_resh: "no_return (resh_main e)"
  unfolding resh_main_def by (intro no_return_rules)

text \<open>
  C17: Every session of the shell ends by exit or in undefined behaviour, or stays for ever in the code of an object
  from its command directory that can do so. The objects run in the process of the shell and may take its input, print, exit
  and misbehave; only putting lines back into the input is not expected of them. Whatever is typed and however the session
  ends, the only files the shell loads are objects in its command directory, none of whose names has a slash.
\<close>

theorem resh_loads_only_commands:
  assumes "objects_ok e"
  shows "\<exists>r t. resh_main e (resh_start e ls b) = (r, t) \<and> list_all command_path (loaded t) \<and>
    ((\<exists>c. r = Exit c) \<or> r = Undef \<or> r = Hang \<and> (\<exists>p so. command_path p \<and> dlopen e p = Some so \<and> may_hang so))"
proof -
  obtain r t where run: "resh_main e (resh_start e ls b) = (r, t)" by fastforce
  have "r \<noteq> NoFuel" "r \<noteq> Ret a" for a
    using fuelled_main [OF assms] no_return_resh [of e] run
    by (metis fst_conv fuelled_def, metis fst_conv no_return_def)
  moreover have "\<exists>p so. command_path p \<and> dlopen e p = Some so \<and> may_hang so" if "r = Hang"
    using no_hang_main [of e] run that by (metis fst_conv no_hang_def)
  ultimately have "(\<exists>c. r = Exit c) \<or> r = Undef \<or> r = Hang \<and> (\<exists>p so. command_path p \<and> dlopen e p = Some so \<and> may_hang so)"
    by (cases r) auto
  moreover have "list_all command_path (loaded t)"
    using keepsD [OF main_loads run] by (auto simp: loads_commands_def resh_start_def list_all_iff)
  ultimately show ?thesis using run by blast
qed

text \<open>A directory with one command, which takes a line of the input and prints its arguments.\<close>

definition one_command :: resh_env where
  "one_command = \<lparr>dlopen = (\<lambda>p. if p = RESH_PATH @ ''/say.so'' then Some \<lparr>sym_main = Some (\<lambda>a s. (Ret (),
       s\<lparr>typed_lines := tl (typed_lines s), tout := tout s @ concat a\<rparr>)), sym_tryegg = None\<rparr> else None),
     dlerror = (\<lambda>_. ''no''), perror_text = [], home_dir = Some ''/a'', home_ok = True, start_env = []\<rparr>"

lemma one_command_ok: "objects_ok one_command"
  by (auto simp: objects_ok_def one_command_def object_ok_def takes_input_def fuelled_def keeps_def)

lemma one_command_session:
  "fst (resh_main one_command (resh_start one_command [''/x/say hi'', ''zap'', ''bye''] False)) = Exit 0"
  "loaded (snd (resh_main one_command (resh_start one_command [''/x/say hi'', ''zap'', ''bye''] False))) =
    [RESH_PATH @ ''/say.so'', RESH_PATH @ ''/eggbasket.so'']"
  by code_simp+

lemma resh_loads_only_commands_witness:
  "\<exists>t. resh_main one_command (resh_start one_command [''/x/say hi'', ''zap'', ''bye''] False) = (Exit 0, t) \<and>
    loaded t = [RESH_PATH @ ''/say.so'', RESH_PATH @ ''/eggbasket.so''] \<and> list_all command_path (loaded t)"
proof -
  obtain r t where "resh_main one_command (resh_start one_command [''/x/say hi'', ''zap'', ''bye''] False) = (r, t)" "list_all command_path (loaded t)"
    using resh_loads_only_commands [OF one_command_ok] by blast
  then show ?thesis using one_command_session by simp
qed

section \<open>The environment of the commands\<close>

lemma map_of_set_var: "map_of (set_var kv xs) = (map_of xs)(fst kv \<mapsto> snd kv)"
  by (induction kv xs rule: set_var.induct) (auto simp: fun_eq_iff)

lemma fixed_env_fold: "fold set_var fixed_env [] = fixed_env"
  by (simp add: fixed_env_def)

lemma map_of_keep: "map_of (keep_var k old new) = (case map_of old k of None \<Rightarrow> map_of new | Some v \<Rightarrow> (map_of new)(k \<mapsto> v))"
  by (simp add: keep_var_def map_of_set_var split: option.split)

text \<open>
  The commands run with the four fixed variables; only the time zone and the type of the terminal are taken
  over from the login, so that neither the search path nor the loader's variables can be set from outside.
\<close>

lemma resh_environment:
  assumes "initenv s = (Ret (), t)"
  shows "map_of (environ t) x = (if x \<in> {''TZ'', ''TERM''} then map_of (environ s) x else map_of fixed_env x)"
proof -
  have "environ t = keep_var ''TERM'' (environ s) (keep_var ''TZ'' (environ s) fixed_env)"
    using assms by (auto simp: initenv_def upd_run fixed_env_fold)
  then show ?thesis
    by (simp add: map_of_keep fixed_env_def split: option.split)
qed

end
