(* ===== verification/ReshTools.thy ===== *)
theory ReshTools
  imports CLib
begin

text \<open>
  Commands of the restricted shell under \<open>soft/apps/resh\<close>: opening files (\<open>util.c\<close>), \<open>cat.c\<close>, the pager
  \<open>pg.c\<close>, and fortunes with the index that \<open>fortuneindex.c\<close> makes for \<open>fortune.c\<close>.
\<close>

section \<open>Files\<close>

text \<open>A file as \<open>fstat\<close> describes it; opening one that is no regular file may succeed, reading it is refused.\<close>

record rfile =
  regular :: bool
  bytes :: string

type_synonym files = "string \<Rightarrow> rfile option"

definition openr :: "files \<Rightarrow> string \<Rightarrow> string option" where
  "openr fs name = (case fs name of
     None \<Rightarrow> None
   | Some f \<Rightarrow> if \<not> regular f then None else if 65536 < length (bytes f) then None else Some (bytes f))"

text \<open>The text printed for a file that \<open>openr\<close> refuses.\<close>

record resh_io = tty +
  errors :: "string list"

type_synonym 'a reshio = "('a, resh_io) prog"

function cat_fd :: "string \<Rightarrow> string" where
  "cat_fd s = (let buf = take 2048 s in if buf = [] then [] else buf @ cat_fd (drop 2048 s))"
  by pat_completeness auto
termination by (relation "measure length") auto

declare cat_fd.simps [simp del]

definition cat_stdin :: "unit reshio" where
  "cat_stdin = upd (\<lambda>s. s\<lparr>tout := tout s @ cat_fd (tin s), tin := []\<rparr>)"

fun cat_args :: "files \<Rightarrow> string list \<Rightarrow> unit reshio" where
  "cat_args fs [] = ret ()"
| "cat_args fs (a # as) = sq
     (if a = ''-'' then cat_stdin
      else (case openr fs a of
          None \<Rightarrow> upd (\<lambda>s. s\<lparr>errors := errors s @ [a]\<rparr>)
        | Some x \<Rightarrow> puts (cat_fd x)))
     (cat_args fs as)"

text \<open>The arguments without the command name.\<close>

definition cat_main :: "files \<Rightarrow> string list \<Rightarrow> unit reshio" where
  "cat_main fs args = sq (if args = [] then cat_stdin else cat_args fs args) (exit_prog 0)"

section \<open>The pager\<close>

text \<open>
  The size of the terminal, what \<open>getch\<close> will return key by key (-1 from then on), the rest of the file, and
  what was written to the terminal beside standard output.
\<close>

record pager = tty +
  rows :: int
  columns :: int
  keys :: "int list"
  unread :: string
  prompts :: nat

type_synonym 'a pagerp = "('a, pager) prog"

definition getch :: "int pagerp" where
  "getch = bnd (gets keys) (\<lambda>ks. case ks of [] \<Rightarrow> ret (-1) | k # rest \<Rightarrow> sq (upd (\<lambda>s. s\<lparr>keys := rest\<rparr>)) (ret k))"

text \<open>One screen from line \<open>i\<close>: true when the file ended. A line takes as many rows as it fills.\<close>

function screen :: "int \<Rightarrow> int \<Rightarrow> int \<Rightarrow> string \<Rightarrow> bool \<times> string \<times> string" where
  "screen r c i f = (if r - 1 \<le> i then (False, [], f)
     else if f = [] then (True, [], [])
     else let (l, rest) = take_line 2047 f; buf = cstr l;
            (e, x, f1) = screen r c (i + (int (length buf) + c - 1) div c) rest in (e, buf @ x, f1))"
  by pat_completeness auto
termination
proof (relation "measure (\<lambda>(r, c, i, f). length f)", goal_cases)
  case (2 r c i f p l rest buf)
  then have "take_line (Suc 2046) f = (l, rest)" by simp
  with 2 take_line_nonempty [of 2046 f l rest] take_line_append [of "Suc 2046" f l rest] show ?case by simp
qed simp

declare screen.simps [simp del]

definition page_round :: "bool pagerp" where
  "page_round = bnd (gets id) (\<lambda>s.
     if 1 < rows s \<and> unread s \<noteq> [] \<and> columns s = 0 then undef
     else let (e, x, f) = screen (rows s) (columns s) 0 (unread s) in
       sq (upd (\<lambda>s. s\<lparr>tout := tout s @ x, unread := f\<rparr>))
       (if e then ret False
        else if rows s \<le> 1 \<and> keys s = [] then hang
        else sq (upd (\<lambda>s. s\<lparr>prompts := prompts s + 1\<rparr>))
          (bnd getch (\<lambda>ch. sq (puts (CR # pad_right 38 '' '' @ [CR]))
            (ret (ch \<noteq> 81 \<and> ch \<noteq> 113))))))"

definition page :: "unit pagerp" where
  "page = bnd (gets (\<lambda>s. length (unread s) + length (keys s))) (\<lambda>n. iter (Suc n) page_round)"

section \<open>Fortunes\<close>

text \<open>The index: where a fortune starts, as each end is found, and the start of the last one at the end.\<close>

fun index_from :: "nat \<Rightarrow> nat \<Rightarrow> char \<Rightarrow> char \<Rightarrow> string \<Rightarrow> nat list" where
  "index_from off pos ch1 ch0 [] = [pos]"
| "index_from off pos ch1 ch0 (ch # cs) =
     (if (ch1 = NL \<or> ch1 = NUL) \<and> ch0 = CHR ''%'' \<and> ch = NL then pos # index_from (off + 1) (off + 1) ch0 ch cs
      else index_from (off + 1) pos ch0 ch cs)"

definition indexfile :: "string \<Rightarrow> nat list" where
  "indexfile f = index_from 0 0 NUL NUL f"

text \<open>What is printed from a place on.\<close>

fun fortune_from :: "char \<Rightarrow> string \<Rightarrow> string" where
  "fortune_from ch1 (ch0 # ch # cs) =
     (if (ch1 = NUL \<or> ch1 = NL) \<and> ch0 = CHR ''%'' \<and> ch = NL then [] else ch0 # fortune_from ch0 (ch # cs))"
| "fortune_from ch1 _ = []"

text \<open>A random entry of the index; an empty index is a division by zero.\<close>

definition fortune :: "nat list \<Rightarrow> string \<Rightarrow> nat \<Rightarrow> string option" where
  "fortune idx f random = (if idx = [] then None else Some (fortune_from NUL (drop (idx ! (random mod length idx)) f)))"

section \<open>Properties\<close>

lemma cat_fd_all: "cat_fd s = s"
  by (induction s rule: cat_fd.induct) (subst cat_fd.simps, simp add: Let_def)

text \<open>\<open>cat\<close> shows nothing but standard input and small regular files.\<close>

lemma cat_args_shows:
  "''-'' \<notin> set as \<Longrightarrow> cat_args fs as s = (Ret (), s\<lparr>tout := tout s @ concat (map (\<lambda>a. case openr fs a of None \<Rightarrow> [] | Some x \<Rightarrow> x) as),
     errors := errors s @ filter (\<lambda>a. openr fs a = None) as\<rparr>)"
proof (induction as arbitrary: s)
  case (Cons a as)
  then have "a \<noteq> ''-''" "''-'' \<notin> set as" by auto
  note Cons = Cons.IH [OF this(2)] this(1)
  show ?case
  proof (cases "openr fs a")
    case None
    with Cons show ?thesis by (simp add: run_simps)
  next
    case (Some x)
    with Cons show ?thesis by (simp add: run_simps cat_fd_all)
  qed
qed (simp add: run_simps)

text \<open>A pager on a terminal with rows and columns ends, whatever keys come, and prints the file from its start.\<close>

lemma screen_shrinks: "screen r c i f = (e, x, f') \<Longrightarrow> length f' \<le> length f \<and> (i < r - 1 \<and> \<not> e \<longrightarrow> length f' < length f)"
proof (induction r c i f arbitrary: e x f' rule: screen.induct)
  case (1 r c i f)
  show ?case
  proof (cases "r - 1 \<le> i \<or> f = []")
    case True
    with "1.prems" show ?thesis by (auto simp: screen.simps [of r c i f] split: if_splits)
  next
    case False
    obtain l rest where l: "take_line 2047 f = (l, rest)" by fastforce
    obtain e1 x1 f1 where sc: "screen r c (i + (int (length (cstr l)) + c - 1) div c) rest = (e1, x1, f1)" by (metis prod_cases3)
    have "f' = f1" using "1.prems" False by (simp add: screen.simps [of r c i f] l sc Let_def)
    moreover have "length f1 \<le> length rest" using "1.IH" [OF _ _ l [symmetric] refl refl sc] False by simp
    moreover have "length rest < length f"
      using take_line_append [OF l] take_line_nonempty [of 2046 f l rest] l False by fastforce
    ultimately show ?thesis by simp
  qed
qed

lemma page_round_shrinks:
  "page_round s = (Ret True, t) \<Longrightarrow> length (unread t) + length (keys t) < length (unread s) + length (keys s)"
proof -
  assume run: "page_round s = (Ret True, t)"
  obtain e x f where sc: "screen (rows s) (columns s) 0 (unread s) = (e, x, f)" by (metis prod_cases3)
  note less = screen_shrinks [OF sc]
  from run sc have "\<not> e" by (auto simp: page_round_def run_simps split: if_splits)
  with run sc less show ?thesis
    by (auto simp: page_round_def run_simps getch_def puts_def bnd_def sq_def split: if_splits list.splits)
qed

lemma page_round_fuelled: "fst (page_round s) \<noteq> NoFuel"
  by (auto simp: page_round_def run_simps getch_def puts_def bnd_def sq_def split: if_splits list.splits prod.splits)

interpretation paging: shrinking_body page_round "\<lambda>s. length (unread s) + length (keys s)"
  using page_round_shrinks page_round_fuelled by unfold_locales

section \<open>The index and the fortunes\<close>

text \<open>A fortune is made of lines; none of them is a percent sign alone. Fortunes end with such a line.\<close>

definition fortune_text :: "string list \<Rightarrow> string" where
  "fortune_text ls = concat (map (\<lambda>l. l @ [NL]) ls)"

definition fortune_ok :: "string list \<Rightarrow> bool" where
  "fortune_ok ls \<longleftrightarrow> (\<forall>l\<in>set ls. NL \<notin> set l \<and> NUL \<notin> set l \<and> l \<noteq> ''%'')"

definition fortune_file :: "string list list \<Rightarrow> string" where
  "fortune_file fs = concat (map (\<lambda>ls. fortune_text ls @ ''%\<newline>'') fs)"

text \<open>Inside a line nothing is the end of a fortune.\<close>

lemma fortune_from_line:
  assumes "NL \<notin> set l" and "NUL \<notin> set l" and "p = CHR ''%'' \<longrightarrow> ch1 \<noteq> NL \<and> ch1 \<noteq> NUL \<or> l \<noteq> []" and "p \<noteq> NL" "p \<noteq> NUL"
  shows "fortune_from ch1 (p # l @ NL # x # rest) = p # l @ fortune_from (last (p # l)) (NL # x # rest)"
  using assms
proof (induction l arbitrary: p ch1)
  case (Cons c l)
  have "fortune_from p (c # l @ NL # x # rest) = c # l @ fortune_from (last (c # l)) (NL # x # rest)"
    using Cons.prems by (intro Cons.IH) auto
  with Cons.prems show ?case by auto
qed auto

lemma fortune_from_lines:
  assumes "fortune_ok ls" and "ch1 = NUL \<or> ch1 = NL"
  shows "fortune_from ch1 (fortune_text ls @ ''%\<newline>'' @ rest) = fortune_text ls"
  using assms
proof (induction ls arbitrary: ch1)
  case (Cons l ls)
  obtain x xs where next_char: "fortune_text ls @ ''%\<newline>'' @ rest = x # xs" by (cases "fortune_text ls") auto
  have end_line: "fortune_from c (NL # x # xs) = NL # fortune_text ls" for c
    using Cons.IH [of NL] Cons.prems(1) next_char by (simp add: fortune_ok_def)
  show ?case
  proof (cases l)
    case Nil
    then show ?thesis using end_line [of ch1] next_char by (simp add: fortune_text_def)
  next
    case (Cons p l')
    with Cons.prems have "fortune_from ch1 (p # l' @ NL # x # xs) = p # l' @ fortune_from (last (p # l')) (NL # x # xs)"
      by (intro fortune_from_line) (auto simp: fortune_ok_def)
    then show ?thesis using end_line next_char by (simp add: fortune_text_def Cons)
  qed
qed (auto simp: fortune_text_def)

lemma index_from_line:
  assumes "NL \<notin> set l" "NUL \<notin> set l" and "l = [] \<longrightarrow> ch0 \<noteq> CHR ''%'' \<or> ch1 \<noteq> NL \<and> ch1 \<noteq> NUL" and "ch0 \<noteq> NL" "ch0 \<noteq> NUL"
  shows "\<exists>c. index_from off pos ch1 ch0 (l @ NL # rest) = index_from (off + length l + 1) pos c NL rest"
  using assms
proof (induction l arbitrary: off ch1 ch0)
  case (Cons c l)
  have "\<exists>d. index_from (off + 1) pos ch0 c (l @ NL # rest) = index_from (off + 1 + length l + 1) pos d NL rest"
    using Cons.prems by (intro Cons.IH) auto
  with Cons.prems(1) show ?case by auto
qed auto

lemma index_from_lines:
  assumes "fortune_ok ls" and "ch0 = NUL \<or> ch0 = NL"
  shows "index_from off pos ch1 ch0 (fortune_text ls @ ''%\<newline>'' @ rest) =
    pos # index_from (off + length (fortune_text ls) + 2) (off + length (fortune_text ls) + 2) (CHR ''%'') NL rest"
  using assms
proof (induction ls arbitrary: off ch1 ch0)
  case Nil
  then show ?case by (auto simp: fortune_text_def)
next
  case (Cons l ls)
  let ?more = "fortune_text ls @ ''%\<newline>'' @ rest"
  have "\<exists>c. index_from off pos ch1 ch0 (l @ NL # ?more) = index_from (off + length l + 1) pos c NL ?more"
  proof (cases l)
    case Nil
    with Cons.prems(2) show ?thesis by auto
  next
    case (Cons p l')
    with Cons.prems have "\<exists>c. index_from (off + 1) pos ch0 p (l' @ NL # ?more) = index_from (off + 1 + length l' + 1) pos c NL ?more"
      by (intro index_from_line) (auto simp: fortune_ok_def)
    with Cons Cons.prems show ?thesis by (auto simp: fortune_ok_def)
  qed
  then obtain c where "index_from off pos ch1 ch0 (l @ NL # ?more) = index_from (off + length l + 1) pos c NL ?more" by blast
  moreover have "fortune_ok ls" using Cons.prems(1) by (simp add: fortune_ok_def)
  ultimately show ?case using Cons.IH [of NL "off + length l + 1" c] by (simp add: fortune_text_def add.assoc)
qed

lemma index_from_file:
  assumes "\<forall>ls\<in>set fs. fortune_ok ls" and "ch0 = NUL \<or> ch0 = NL"
  shows "index_from off off ch1 ch0 (fortune_file fs) = map (\<lambda>i. off + length (fortune_file (take i fs))) [0..<Suc (length fs)]"
  using assms
proof (induction fs arbitrary: off ch1 ch0)
  case Nil
  then show ?case by (simp add: fortune_file_def)
next
  case (Cons ls fs)
  let ?n = "length (fortune_text ls) + 2"
  have "index_from off off ch1 ch0 (fortune_file (ls # fs)) = off # index_from (off + ?n) (off + ?n) (CHR ''%'') NL (fortune_file fs)"
    using index_from_lines [of ls ch0 off off ch1 "fortune_file fs"] Cons.prems by (simp add: fortune_file_def)
  also have "\<dots> = off # map (\<lambda>i. off + ?n + length (fortune_file (take i fs))) [0..<Suc (length fs)]"
    using Cons by simp
  also have "\<dots> = map (\<lambda>i. off + length (fortune_file (take i (ls # fs)))) (0 # map Suc [0..<Suc (length fs)])"
    by (simp add: fortune_file_def del: upt_Suc)
  also have "0 # map Suc [0..<Suc (length fs)] = [0..<Suc (length (ls # fs))]"
    by (simp only: map_Suc_upt list.size(4) One_nat_def) (simp add: upt_conv_Cons del: upt_Suc)
  finally show ?case .
qed

text \<open>
  With a file of fortunes that each end with a percent line, the random number picks an entry of the
  index, and what is printed is exactly that fortune; the index has one entry too many, the end of the file,
  for which nothing is printed.
\<close>

theorem fortune_prints_entry:
  assumes "\<forall>ls\<in>set fs. fortune_ok ls"
  shows "fortune (indexfile (fortune_file fs)) (fortune_file fs) r =
    Some (if r mod Suc (length fs) < length fs then fortune_text (fs ! (r mod Suc (length fs))) else [])"
proof -
  let ?i = "r mod Suc (length fs)" and ?f = "fortune_file fs"
  have idx: "indexfile ?f = map (\<lambda>i. length (fortune_file (take i fs))) [0..<Suc (length fs)]"
    using index_from_file [OF assms, of NUL 0 NUL] by (simp add: indexfile_def)
  have i: "?i < Suc (length fs)" by simp
  then have "indexfile ?f ! ?i = length (fortune_file (take ?i fs))"
    by (simp only: idx nth_map length_upt nth_upt diff_zero add_0)
  moreover have "?f = fortune_file (take ?i fs) @ fortune_file (drop ?i fs)"
    by (metis append_take_drop_id concat_append fortune_file_def map_append)
  ultimately have at: "drop (indexfile ?f ! ?i) ?f = fortune_file (drop ?i fs)" by (metis append_eq_conv_conj)
  have "fortune (indexfile ?f) ?f r = Some (fortune_from NUL (fortune_file (drop ?i fs)))"
    using at by (simp add: fortune_def idx)
  also have "fortune_from NUL (fortune_file (drop ?i fs)) = (if ?i < length fs then fortune_text (fs ! ?i) else [])"
  proof (cases "?i < length fs")
    case True
    then have "drop ?i fs = fs ! ?i # drop (Suc ?i) fs" by (rule Cons_nth_drop_Suc [symmetric])
    then show ?thesis
      using fortune_from_lines [of "fs ! ?i" NUL "fortune_file (drop (Suc ?i) fs)"] assms True by (simp add: fortune_file_def)
  next
    case False
    then show ?thesis by (simp add: fortune_file_def)
  qed
  finally show ?thesis .
qed

lemma fortune_prints_entry_witness:
  "fortune (indexfile (fortune_file [[''one''], [''two'', ''2%'']])) (fortune_file [[''one''], [''two'', ''2%'']]) 4 = Some ''two\<newline>2%\<newline>'' \<and>
   fortune (indexfile (fortune_file [[''one'']])) (fortune_file [[''one'']]) 1 = Some []"
  using fortune_prints_entry [of "[[''one''], [''two'', ''2%'']]" 4] fortune_prints_entry [of "[[''one'']]" 1]
  by (simp add: fortune_ok_def fortune_text_def)

text \<open>Without the last percent line the last fortune loses its last byte.\<close>

lemma last_fortune_cut: "fortune (indexfile ''a\<newline>%\<newline>b\<newline>'') ''a\<newline>%\<newline>b\<newline>'' 1 = Some ''b''"
  by code_simp

end
