(* ===== verification/Lc.thy ===== *)
theory Lc
  imports CLib
begin

text \<open>
  The directory lister \<open>soft/cmd/ylc.c\<close>: growing lists of names, one for each kind of file, their printing in
  columns, reading a directory, and \<open>main\<close>. The file system and the width of the terminal are parameters.
\<close>

section \<open>Lists of names\<close>

definition DEFNCOLS :: int where "DEFNCOLS = 5"
definition COLUMNWIDTH :: int where "COLUMNWIDTH = 15"
definition INDENT :: int where "INDENT = 4"
definition MAXPATHLEN :: nat where "MAXPATHLEN = 1024"

text \<open>An array with \<open>length slots\<close> elements of which the first \<open>used\<close> hold names.\<close>

record filelist =
  slots :: "string option list"
  used :: nat

definition no_files :: filelist where
  "no_files = \<lparr>slots = [], used = 0\<rparr>"

definition grow :: "filelist \<Rightarrow> filelist" where
  "grow l = (let size = length (slots l); resize = (if size = 0 then 8 else 2 * size) in
     l\<lparr>slots := slots l @ replicate (resize - size) None\<rparr>)"

definition put_name :: "string \<Rightarrow> filelist \<Rightarrow> filelist" where
  "put_name name l0 = (let l = (if length (slots l0) \<le> used l0 then grow l0 else l0) in
     l\<lparr>slots := (slots l)[used l := Some name], used := used l + 1\<rparr>)"

definition clear_list :: "filelist \<Rightarrow> filelist" where
  "clear_list l = l\<lparr>used := 0\<rparr>"

text \<open>The names held, in the order of the array; \<open>qsort\<close> puts them in the order of \<open>strcmp\<close>.\<close>

definition names :: "filelist \<Rightarrow> string list" where
  "names l = map (\<lambda>x. case x of None \<Rightarrow> [] | Some n \<Rightarrow> n) (take (used l) (slots l))"

definition sort_names :: "filelist \<Rightarrow> filelist" where
  "sort_names l = l\<lparr>slots := map Some (sort (names l)) @ drop (used l) (slots l)\<rparr>"

section \<open>The program's state\<close>

datatype ftype = S_REG | S_DIR | S_BLK | S_CHR | S_LNK | S_SOCK | S_FIFO | S_NONE

datatype group = Files | Directories | Blockdevs | Chardevs | Symlinks | Sockets | Pipes | Others

text \<open>
  \<open>flag\<close> holds the flags f, d, b, c, l, s and p; \<open>prefix\<close> what stands in the path buffer in front of a name;
  \<open>dirprefix\<close> the empty line in front of the next title, \<open>listed_one\<close> whether a directory's title was
  printed before.
\<close>

record lc = tty +
  groups :: "group \<Rightarrow> filelist"
  flag :: "group \<Rightarrow> bool"
  aflag :: bool
  noflag :: bool
  ncolumns :: int
  dirprefix :: string
  listed_one :: bool
  manyflag :: bool
  anyfound :: nat
  prefix :: string

type_synonym 'a lcp = "('a, lc) prog"

text \<open>What a path is after following links, the entries of a directory, what an entry is, the text of an error.\<close>

record lc_env =
  lc_name :: string
  stat_path :: "string \<Rightarrow> ftype option"
  lstat_path :: "string \<Rightarrow> ftype option"
  entries :: "string \<Rightarrow> string list option"
  err_text :: "string \<Rightarrow> string"
  win_cols :: "int option"

definition lc_warn :: "lc_env \<Rightarrow> string \<Rightarrow> string \<Rightarrow> unit lcp" where
  "lc_warn e x p = puts (x @ '': '' @ err_text e p @ ''\<newline>'')"

definition addto :: "group \<Rightarrow> string \<Rightarrow> unit lcp" where
  "addto g name = sq (upd (\<lambda>s. s\<lparr>anyfound := anyfound s + 1\<rparr>))
     (bnd (gets noflag) (\<lambda>b. if b then ret ()
       else upd (\<lambda>s. s\<lparr>groups := (groups s)(g := put_name name (groups s g))\<rparr>)))"

definition group_of :: "(group \<Rightarrow> bool) \<Rightarrow> ftype \<Rightarrow> group" where
  "group_of fl m =
     (if fl Files \<and> m = S_REG then Files
      else if fl Directories \<and> m = S_DIR then Directories
      else if fl Blockdevs \<and> m = S_BLK then Blockdevs
      else if fl Chardevs \<and> m = S_CHR then Chardevs
      else if fl Symlinks \<and> m = S_LNK then Symlinks
      else if fl Sockets \<and> m = S_SOCK then Sockets
      else if fl Pipes \<and> m = S_FIFO then Pipes
      else Others)"

definition addtodir :: "ftype \<Rightarrow> string \<Rightarrow> unit lcp" where
  "addtodir m name = bnd (gets flag) (\<lambda>fl. addto (group_of fl m) name)"

section \<open>Printing in columns\<close>

definition pindent :: string where
  "pindent = replicate (nat INDENT) SPC"

definition getcolumns :: "lc_env \<Rightarrow> int \<Rightarrow> int" where
  "getcolumns e offset = (case win_cols e of
     None \<Rightarrow> DEFNCOLS
   | Some w \<Rightarrow> let width = w - offset; cols = (if 0 < width then width div COLUMNWIDTH else 0) in
       if cols \<le> 0 then 1 else cols)"

text \<open>The loop over the names: the text and the position after it. \<open>ind\<close> is the indentation of a line.\<close>

fun name_loop :: "int \<Rightarrow> string \<Rightarrow> int \<Rightarrow> int \<Rightarrow> int \<Rightarrow> string list \<Rightarrow> string \<times> int" where
  "name_loop ncol ind start maxpos pos [] = ([], pos)"
| "name_loop ncol ind start maxpos pos (name # ns) =
     (let len = int (length name);
          w = (if start < pos then len + (COLUMNWIDTH - (pos - start) mod COLUMNWIDTH) else len);
          wrap = maxpos < pos + w;
          pos1 = (if wrap \<and> 1 < ncol then start else pos);
          w1 = (if wrap then len else w);
          (x, p) = name_loop ncol ind start maxpos (pos1 + w1) ns
      in ((if wrap then ''\<newline>'' @ (if 1 < ncol then ind else []) else []) @ pad_left (nat w1) name @ x, p))"

definition title_text :: "bool \<Rightarrow> int \<Rightarrow> string \<Rightarrow> string \<times> string \<times> int" where
  "title_text many ncol title =
     (if 1 < ncol then
        let ind = (if many then pindent @ pindent else pindent) in
        ((if many then pindent else []) @ title @ '':\<newline>'' @ ind, ind, int (length ind))
      else ([], [], 0))"

definition list_text :: "bool \<Rightarrow> int \<Rightarrow> string \<Rightarrow> string list \<Rightarrow> string" where
  "list_text many ncol title ns =
     (let (hd_text, ind, start) = title_text many ncol title;
          (x, pos) = name_loop ncol ind start (ncol * COLUMNWIDTH + start) start ns
      in hd_text @ x @ (if pos \<noteq> 0 then ''\<newline>'' else []))"

definition print_group :: "string \<Rightarrow> group \<Rightarrow> unit lcp" where
  "print_group title g = bnd (gets id) (\<lambda>s.
     if slots (groups s g) = [] \<or> used (groups s g) = 0 then ret ()
     else let l = sort_names (groups s g) in
       sq (upd (\<lambda>s. s\<lparr>groups := (groups s)(g := l), dirprefix := ''\<newline>''\<rparr>))
         (puts (dirprefix s @ list_text (manyflag s) (ncolumns s) title (names l))))"

definition preambledir :: "string \<Rightarrow> unit lcp" where
  "preambledir path = bnd (gets id) (\<lambda>s. sq (upd (\<lambda>s. s\<lparr>dirprefix := []\<rparr>))
     (whenP (manyflag s) (sq (puts ((if listed_one s then ''\<newline>'' else []) @ path @ '':\<newline>''))
       (upd (\<lambda>s. s\<lparr>listed_one := True\<rparr>)))))"

definition print_if :: "string \<Rightarrow> group \<Rightarrow> unit lcp" where
  "print_if title g = bnd (gets flag) (\<lambda>fl. whenP (fl g) (print_group title g))"

definition printdir :: "unit lcp" where
  "printdir = sq (print_if ''Directories'' Directories) (sq (print_if ''Files'' Files) (sq (print_if ''Pipes'' Pipes)
     (sq (print_if ''Block Special Files'' Blockdevs) (sq (print_if ''Char Special Files'' Chardevs)
     (sq (print_if ''Symbolic Links'' Symlinks) (sq (print_if ''Sockets'' Sockets) (print_group ''Others'' Others)))))))"

definition cleardir :: "unit lcp" where
  "cleardir = upd (\<lambda>s. s\<lparr>groups := (\<lambda>g. clear_list (groups s g))\<rparr>)"

section \<open>Directories and the command line\<close>

definition checkdir :: "lc_env \<Rightarrow> string \<Rightarrow> bool lcp" where
  "checkdir e path = (case stat_path e path of
     None \<Rightarrow> sq (lc_warn e (''Failed to stat dir '' @ path) path) (ret False)
   | Some m \<Rightarrow> if m \<noteq> S_DIR then
         bnd (gets manyflag) (\<lambda>many. if \<not> many
           then sq (lc_warn e (''Bad starting path '' @ path) path) (exit_prog 1) else ret False)
       else ret True)"

definition take_entry :: "lc_env \<Rightarrow> string \<Rightarrow> unit lcp" where
  "take_entry e name = bnd (gets id) (\<lambda>s.
     if \<not> aflag s \<and> (name = ''.'' \<or> name = ''..'') then ret ()
     else let room = MAXPATHLEN - length (prefix s); full = prefix s @ strlcpy room name in
       if room \<le> length name then lc_warn e (''Truncated path '' @ [CHR 0x27] @ name @ [CHR 0x27] @ '' ('' @ [CHR 0x27] @ full @ [CHR 0x27] @ '')'') full
       else case lstat_path e full of
           None \<Rightarrow> lc_warn e (''Failed to lstat '' @ full) full
         | Some m \<Rightarrow> addtodir m name)"

fun take_entries :: "lc_env \<Rightarrow> string list \<Rightarrow> unit lcp" where
  "take_entries e [] = ret ()"
| "take_entries e (n # ns) = sq (take_entry e n) (take_entries e ns)"

definition filldir :: "lc_env \<Rightarrow> string \<Rightarrow> unit lcp" where
  "filldir e path = (case entries e path of
     None \<Rightarrow> lc_warn e (''Failed to open directory '' @ path) path
   | Some ns \<Rightarrow> take_entries e ns)"

definition listdir :: "lc_env \<Rightarrow> string \<Rightarrow> unit lcp" where
  "listdir e path = bnd (checkdir e path) (\<lambda>ok. whenP ok
     (sq (preambledir path) (sq (filldir e path) (sq printdir cleardir))))"

text \<open>One option letter; the flag that remembers whether a kind was asked for comes along.\<close>

definition set_flag :: "group list \<Rightarrow> lc \<Rightarrow> lc" where
  "set_flag gs s = s\<lparr>flag := (\<lambda>g. g \<in> set gs \<or> flag s g)\<rparr>"

definition flag_of :: "char \<Rightarrow> group list option" where
  "flag_of c = (if c = CHR ''f'' then Some [Files] else if c = CHR ''d'' then Some [Directories]
     else if c = CHR ''b'' then Some [Blockdevs] else if c = CHR ''c'' then Some [Chardevs]
     else if c = CHR ''s'' then Some [Blockdevs, Chardevs] else if c = CHR ''l'' then Some [Symlinks]
     else if c = CHR ''S'' then Some [Sockets] else if c = CHR ''p'' then Some [Pipes] else None)"

definition option_letter :: "lc_env \<Rightarrow> bool \<Rightarrow> char \<Rightarrow> bool lcp" where
  "option_letter e al c =
     (if c = CHR ''a'' then sq (upd (\<lambda>s. s\<lparr>aflag := True\<rparr>)) (ret al)
      else if c = CHR ''n'' then sq (upd (\<lambda>s. s\<lparr>noflag := True\<rparr>)) (ret al)
      else if c = CHR ''1'' then sq (upd (\<lambda>s. s\<lparr>ncolumns := 1\<rparr>)) (ret al)
      else case flag_of c of
          Some gs \<Rightarrow> sq (upd (set_flag gs)) (ret False)
        | None \<Rightarrow> sq (puts (lc_name e @ '': unknown option -- '' @ [c] @ ''\<newline>Unknown flag: ?\<newline>'')) (ret al))"

fun option_letters :: "lc_env \<Rightarrow> bool \<Rightarrow> string \<Rightarrow> bool lcp" where
  "option_letters e al [] = ret al"
| "option_letters e al (c # cs) = bnd (option_letter e al c) (\<lambda>b. option_letters e b cs)"

text \<open>\<open>getopt\<close>: the words in front of the first that is no option; the rest are the paths.\<close>

fun lc_options :: "lc_env \<Rightarrow> bool \<Rightarrow> string list \<Rightarrow> (bool \<times> string list) lcp" where
  "lc_options e al [] = ret (al, [])"
| "lc_options e al (w # ws) =
     (if w = ''--'' then ret (al, ws)
      else if 1 < length w \<and> hd w = CHR ''-'' then bnd (option_letters e al (tl w)) (\<lambda>b. lc_options e b ws)
      else ret (al, w # ws))"

fun list_paths :: "lc_env \<Rightarrow> string list \<Rightarrow> unit lcp" where
  "list_paths e [] = ret ()"
| "list_paths e (p # ps) = sq
     (if MAXPATHLEN < length p + 2 then lc_warn e (''Pathname overflow for '' @ p) p
      else sq (upd (\<lambda>s. s\<lparr>prefix := p @ ''/''\<rparr>)) (listdir e p))
     (list_paths e ps)"

definition lc_main :: "lc_env \<Rightarrow> string list \<Rightarrow> unit lcp" where
  "lc_main e args = bnd (lc_options e True args) (\<lambda>(al, paths).
     sq (whenP al (upd (\<lambda>s. s\<lparr>flag := (\<lambda>g. g \<noteq> Others)\<rparr>)))
     (sq (upd (\<lambda>s. s\<lparr>manyflag := 1 < length paths\<rparr>))
     (bnd (gets id) (\<lambda>s. sq (whenP (ncolumns s = 0)
         (upd (\<lambda>s. s\<lparr>ncolumns := getcolumns e (if manyflag s then 2 * INDENT else INDENT)\<rparr>)))
     (sq (if paths = [] then listdir e ''.'' else list_paths e paths)
     (bnd (gets anyfound) (\<lambda>k. exit_prog (if k = 0 then 1 else 0))))))))"

definition lc_start :: lc where
  "lc_start = \<lparr>tin = [], tout = [], groups = (\<lambda>g. no_files), flag = (\<lambda>g. False), aflag = False, noflag = False,
     ncolumns = 0, dirprefix = [], listed_one = False, manyflag = False, anyfound = 0, prefix = []\<rparr>"

end
