(* ===== verification/LcProps.thy ===== *)
theory LcProps
  imports Lc
begin

text \<open>
  The lists of names as lists, the layout of a listing, and what listing a directory prints.
\<close>

section \<open>The growing arrays are lists\<close>

definition list_ok :: "filelist \<Rightarrow> bool" where
  "list_ok l \<longleftrightarrow> used l \<le> length (slots l) \<and> (\<forall>i<used l. slots l ! i \<noteq> None)"

lemma no_files_ok: "list_ok no_files" "names no_files = []"
  by (simp_all add: list_ok_def no_files_def names_def)

lemma clear_list_ok: "list_ok (clear_list l)" "names (clear_list l) = []"
  by (simp_all add: list_ok_def clear_list_def names_def)

lemma put_name_ok:
  assumes "list_ok l"
  shows "list_ok (put_name n l)" and "names (put_name n l) = names l @ [n]"
proof -
  let ?m = "if length (slots l) \<le> used l then grow l else l"
  have m: "used ?m = used l" "used l < length (slots ?m)" "take (used l) (slots ?m) = take (used l) (slots l)"
    using assms by (auto simp: list_ok_def grow_def Let_def)
  have p: "slots (put_name n l) = (slots ?m)[used l := Some n]" "used (put_name n l) = Suc (used l)"
    using m(1) by (simp_all add: put_name_def Let_def)
  have "\<forall>i<used l. slots ?m ! i = slots l ! i" using m(3) by (metis nth_take)
  with assms m(2) show "list_ok (put_name n l)" by (auto simp: list_ok_def p less_Suc_eq)
  show "names (put_name n l) = names l @ [n]"
    using m by (simp add: names_def p take_Suc_conv_app_nth)
qed

lemma sort_names_ok:
  assumes "list_ok l"
  shows "list_ok (sort_names l)" and "names (sort_names l) = sort (names l)"
proof -
  have len: "length (names l) = used l" using assms by (simp add: names_def list_ok_def)
  then show "list_ok (sort_names l)" using assms by (auto simp: list_ok_def sort_names_def nth_append)
  show "names (sort_names l) = sort (names l)" using len by (simp add: sort_names_def names_def [where l = "l\<lparr>slots := _\<rparr>"] comp_def)
qed

lemma empty_list: "list_ok l \<Longrightarrow> slots l = [] \<or> used l = 0 \<longleftrightarrow> names l = []"
  by (auto simp: list_ok_def names_def)

section \<open>The layout\<close>

text \<open>The words of a text, and the length of its longest line.\<close>

fun words_of :: "string \<Rightarrow> string \<Rightarrow> string list" where
  "words_of w [] = (if w = [] then [] else [w])"
| "words_of w (c # cs) = (if isspace c then (if w = [] then [] else [w]) @ words_of [] cs else words_of (w @ [c]) cs)"

fun longest :: "nat \<Rightarrow> string \<Rightarrow> nat" where
  "longest k [] = k"
| "longest k (c # cs) = (if c = NL then max k (longest 0 cs) else longest (Suc k) cs)"

lemma words_of_blank: "\<forall>c\<in>set b. isspace c \<Longrightarrow> words_of [] (b @ x) = words_of [] x"
  by (induction b) auto

lemma words_of_word: "\<forall>c\<in>set w. \<not> isspace c \<Longrightarrow> words_of v (w @ x) = words_of (v @ w) x"
  by (induction w arbitrary: v) auto

lemma longest_add: "NL \<notin> set b \<Longrightarrow> longest k (b @ x) = longest (k + length b) x"
  by (induction b arbitrary: k) auto

lemma longest_mono: "k \<le> longest k x"
  by (induction k x rule: longest.induct) auto

definition plain_name :: "string \<Rightarrow> bool" where
  "plain_name n \<longleftrightarrow> n \<noteq> [] \<and> (\<forall>c\<in>set n. \<not> isspace c)"

text \<open>What one turn of the loop puts in front of a name: a gap, or a new line with its indentation.\<close>

lemma name_step:
  fixes start pos :: int and n :: string
  assumes "start \<le> pos"
  defines "w \<equiv> (if start < pos then int (length n) + (COLUMNWIDTH - (pos - start) mod COLUMNWIDTH) else int (length n))"
  shows "fst (name_loop ncol ind start maxpos pos (n # ns)) =
    (if maxpos < pos + w then (''\<newline>'' @ (if 1 < ncol then ind else [])) @ n @ fst (name_loop ncol ind start maxpos ((if 1 < ncol then start else pos) + int (length n)) ns)
     else replicate (nat (w - int (length n))) SPC @ n @ fst (name_loop ncol ind start maxpos (pos + w) ns))"
    and "int (length n) \<le> w" and "start < pos \<Longrightarrow> int (length n) < w" and "start = pos \<Longrightarrow> w = int (length n)"
proof -
  show ge: "int (length n) \<le> w" and "start < pos \<Longrightarrow> int (length n) < w" and "start = pos \<Longrightarrow> w = int (length n)"
    using pos_mod_bound [of COLUMNWIDTH "pos - start"] by (auto simp: w_def COLUMNWIDTH_def)
  then have "nat w - length n = nat (w - int (length n))" by linarith
  then show "fst (name_loop ncol ind start maxpos pos (n # ns)) =
    (if maxpos < pos + w then (''\<newline>'' @ (if 1 < ncol then ind else [])) @ n @ fst (name_loop ncol ind start maxpos ((if 1 < ncol then start else pos) + int (length n)) ns)
     else replicate (nat (w - int (length n))) SPC @ n @ fst (name_loop ncol ind start maxpos (pos + w) ns))"
    by (simp add: Let_def w_def [symmetric] pad_left_def split: prod.split)
qed

lemma words_of_sep:
  assumes "\<forall>c\<in>set b. isspace c" and "v = [] \<or> b \<noteq> []"
  shows "words_of v (b @ x) = (if v = [] then [] else [v]) @ words_of [] x"
  using assms words_of_blank [of _ x] by (cases b) auto

lemma name_loop_words:
  assumes "\<forall>n\<in>set ns. plain_name n" and "1 < ncol" and "\<forall>c\<in>set ind. isspace c" and "v = [] \<and> pos = start \<or> v \<noteq> [] \<and> start < pos"
  shows "words_of v (fst (name_loop ncol ind start maxpos pos ns) @ ''\<newline>'') = (if v = [] then [] else [v]) @ ns"
  using assms
proof (induction ns arbitrary: pos v)
  case Nil
  then show ?case by (simp add: isspace_def)
next
  case (Cons n ns)
  have n: "n \<noteq> []" "\<forall>c\<in>set n. \<not> isspace c" using Cons.prems(1) by (simp_all add: plain_name_def)
  have word: "words_of v (b @ n @ fst (name_loop ncol ind start maxpos q ns) @ ''\<newline>'') = (if v = [] then [] else [v]) @ n # ns"
    if "\<forall>c\<in>set b. isspace c" "v = [] \<or> b \<noteq> []" "start < q" for b q
    using words_of_sep [OF that(1,2)] words_of_word [OF n(2), of "[]"] Cons.IH [of n q] Cons.prems(1-3) n(1) that(3) by simp
  have "start \<le> pos" using Cons.prems(4) by auto
  note step = name_step(1) [OF this, where n = n and ncol = ncol and ind = ind and maxpos = maxpos and ns = ns] name_step(2-4) [OF this, where n = n]
  define w where "w = (if start < pos then int (length n) + (COLUMNWIDTH - (pos - start) mod COLUMNWIDTH) else int (length n))"
  note step' = step [folded w_def]
  show ?case
  proof (cases "maxpos < pos + w")
    case True
    have "\<forall>c\<in>set (''\<newline>'' @ ind). isspace c" using Cons.prems(3) by (simp add: isspace_def)
    from word [OF this, of "start + int (length n)"] n(1) show ?thesis unfolding step'(1) using True Cons.prems(2) by simp
  next
    case False
    have "v = [] \<or> replicate (nat (w - int (length n))) SPC \<noteq> []" using Cons.prems(4) step'(3) by auto
    moreover have "0 < length n" using n(1) by simp
    then have "start < pos + w" using \<open>start \<le> pos\<close> step'(2) by linarith
    ultimately show ?thesis unfolding step'(1) using False word [of "replicate (nat (w - int (length n))) SPC" "pos + w"] by (simp add: isspace_def)
  qed
qed

lemma plain_name_NL:
  assumes "plain_name n"
  shows "NL \<notin> set n"
proof -
  have "isspace NL" by (simp add: isspace_def)
  with assms show ?thesis unfolding plain_name_def by blast
qed

lemma name_loop_longest:
  assumes "\<forall>n\<in>set ns. plain_name n \<and> start + int (length n) \<le> maxpos" and "1 < ncol" and "NL \<notin> set ind"
    and "start = int (length ind)" "start \<le> pos" "pos \<le> maxpos"
  shows "int (longest (nat pos) (fst (name_loop ncol ind start maxpos pos ns) @ ''\<newline>'')) \<le> maxpos"
  using assms
proof (induction ns arbitrary: pos)
  case Nil
  then show ?case by simp
next
  case (Cons n ns)
  have "plain_name n" using Cons.prems(1) by simp
  then have nl: "NL \<notin> set n" by (rule plain_name_NL)
  note step = name_step(1) [OF Cons.prems(5), where n = n and ncol = ncol and ind = ind and maxpos = maxpos and ns = ns] name_step(2-4) [OF Cons.prems(5), where n = n]
  define w where "w = (if start < pos then int (length n) + (COLUMNWIDTH - (pos - start) mod COLUMNWIDTH) else int (length n))"
  note step' = step [folded w_def]
  show ?case
  proof (cases "maxpos < pos + w")
    case True
    have "int (longest (nat (start + int (length n))) (fst (name_loop ncol ind start maxpos (start + int (length n)) ns) @ ''\<newline>'')) \<le> maxpos"
      using Cons by (intro Cons.IH) auto
    moreover have "longest (nat pos) (NL # ind @ n @ y) = max (nat pos) (longest (nat (start + int (length n))) y)" for y
      using nl Cons.prems(3,4) by (simp add: longest_add nat_add_distrib)
    ultimately show ?thesis unfolding step'(1) using True Cons.prems(2,6) by simp
  next
    case False
    have "int (longest (nat (pos + w)) (fst (name_loop ncol ind start maxpos (pos + w) ns) @ ''\<newline>'')) \<le> maxpos"
      using Cons False step'(2) by (intro Cons.IH) auto
    moreover have "longest (nat pos) (replicate (nat (w - int (length n))) SPC @ n @ y) = longest (nat (pos + w)) y" for y
    proof -
      have "nat pos + nat (w - int (length n)) + length n = nat (pos + w)" using Cons.prems(4,5) step'(2) by linarith
      then show ?thesis using nl by (simp add: longest_add)
    qed
    ultimately show ?thesis unfolding step'(1) using False by simp
  qed
qed

lemma name_loop_moves: "start \<le> pos \<Longrightarrow> start \<le> snd (name_loop ncol ind start maxpos pos ns)"
proof (induction ns arbitrary: pos)
  case (Cons n ns)
  define w where "w = (if start < pos then int (length n) + (COLUMNWIDTH - (pos - start) mod COLUMNWIDTH) else int (length n))"
  define q where "q = (if maxpos < pos + w then (if 1 < ncol then start else pos) + int (length n) else pos + w)"
  have "snd (name_loop ncol ind start maxpos pos (n # ns)) = snd (name_loop ncol ind start maxpos q ns)"
    by (simp add: Let_def w_def q_def split: prod.split)
  moreover have "start \<le> q" using Cons.prems name_step(2) [OF Cons.prems, of n] by (simp add: q_def w_def)
  ultimately show ?case using Cons.IH by simp
qed simp

text \<open>
  C36: In more than one column a listing is its title and then exactly the names, separated by blanks and line
  ends, and no line is longer than the columns and the indentation together, whatever the names' lengths up to
  that.
\<close>

theorem listing_in_columns:
  assumes "\<forall>n\<in>set ns. plain_name n \<and> int (length n) \<le> ncol * COLUMNWIDTH" and "1 < ncol"
  shows "\<exists>body. list_text many ncol title ns = (if many then pindent else []) @ title @ '':\<newline>'' @ body \<and> words_of [] body = ns \<and>
    int (longest 0 body) \<le> ncol * COLUMNWIDTH + (if many then 2 * INDENT else INDENT)"
proof -
  define ind where "ind = (if many then pindent @ pindent else pindent)"
  let ?start = "int (length ind)" and ?max = "ncol * COLUMNWIDTH + int (length ind)"
  let ?x = "fst (name_loop ncol ind ?start ?max ?start ns)" and ?pos = "snd (name_loop ncol ind ?start ?max ?start ns)"
  have blank: "\<forall>c\<in>set ind. isspace c" "NL \<notin> set ind" by (auto simp: ind_def pindent_def isspace_def)
  have len: "?start = (if many then 2 * INDENT else INDENT)" by (simp add: ind_def pindent_def INDENT_def)
  have "?start \<le> ?pos" by (rule name_loop_moves) simp
  moreover have "0 < ?start" unfolding len by (simp add: INDENT_def)
  ultimately have "?pos \<noteq> 0" by linarith
  then have whole: "list_text many ncol title ns = (if many then pindent else []) @ title @ '':\<newline>'' @ ind @ ?x @ ''\<newline>''"
    using assms(2) by (simp add: list_text_def title_text_def ind_def [symmetric] Let_def split_beta)
  have "words_of [] (ind @ ?x @ ''\<newline>'') = ns"
    using name_loop_words [of ns ncol ind "[]" ?start ?start ?max] assms blank by (simp add: words_of_blank)
  moreover have "int (longest 0 (ind @ ?x @ ''\<newline>'')) \<le> ?max"
    using name_loop_longest [of ns ?start ?max ncol ind ?start] assms blank by (simp add: longest_add COLUMNWIDTH_def)
  ultimately show ?thesis using whole len by auto
qed

lemma listing_in_columns_witness:
  "\<exists>body. list_text False 2 ''Files'' [''a'', ''a-long-file-name.thy'', ''b''] = ''Files:\<newline>'' @ body \<and>
    words_of [] body = [''a'', ''a-long-file-name.thy'', ''b''] \<and> longest 0 body \<le> 34"
  using listing_in_columns [of "[''a'', ''a-long-file-name.thy'', ''b'']" 2 False "''Files''"]
  by (simp add: plain_name_def isspace_def COLUMNWIDTH_def INDENT_def)

section \<open>Listing a directory\<close>

definition visible :: "string list \<Rightarrow> string list" where
  "visible ns = filter (\<lambda>n. n \<noteq> ''.'' \<and> n \<noteq> ''..'') ns"

text \<open>The sections of a listing, each kind of file with its sorted names, and their text.\<close>

definition sections :: "(string \<Rightarrow> ftype) \<Rightarrow> string list \<Rightarrow> (string \<times> string list) list" where
  "sections kind ns = map (\<lambda>(title, m). (title, sort (filter (\<lambda>n. kind n = m) ns)))
     [(''Directories'', S_DIR), (''Files'', S_REG), (''Pipes'', S_FIFO), (''Block Special Files'', S_BLK),
      (''Char Special Files'', S_CHR), (''Symbolic Links'', S_LNK), (''Sockets'', S_SOCK), (''Others'', S_NONE)]"

fun sections_text :: "int \<Rightarrow> string \<Rightarrow> (string \<times> string list) list \<Rightarrow> string" where
  "sections_text ncol gap [] = []"
| "sections_text ncol gap ((title, ns) # rest) =
     (if ns = [] then sections_text ncol gap rest
      else gap @ list_text False ncol title ns @ sections_text ncol ''\<newline>'' rest)"

definition all_kinds :: "group \<Rightarrow> bool" where
  "all_kinds g \<longleftrightarrow> g \<noteq> Others"

text \<open>The state while names are taken in: every kind is asked for, and the lists hold what was seen.\<close>

definition taking :: "lc_env \<Rightarrow> (string \<Rightarrow> ftype) \<Rightarrow> string list \<Rightarrow> lc \<Rightarrow> lc \<Rightarrow> bool" where
  "taking e kind ns s t \<longleftrightarrow> flag t = all_kinds \<and> \<not> aflag t \<and> \<not> noflag t \<and> prefix t = [] \<and> \<not> manyflag t \<and>
     ncolumns t = ncolumns s \<and> dirprefix t = dirprefix s \<and> tout t = tout s \<and> anyfound t = length ns \<and>
     (\<forall>g. list_ok (groups t g) \<and> names (groups t g) = filter (\<lambda>n. group_of all_kinds (kind n) = g) ns)"

lemma take_entries_run:
  assumes "\<forall>n\<in>set (visible ns). length n < MAXPATHLEN \<and> lstat_path e n = Some (kind n)" and "taking e kind ms s t"
  shows "\<exists>u. take_entries e ns t = (Ret (), u) \<and> taking e kind (ms @ visible ns) s u"
  using assms
proof (induction ns arbitrary: t ms)
  case Nil
  then show ?case by (simp add: visible_def ret_run)
next
  case (Cons n ns)
  show ?case
  proof (cases "n = ''.'' \<or> n = ''..''")
    case True
    with Cons.prems(2) have "take_entry e n t = (Ret (), t)" by (auto simp: take_entry_def run_simps taking_def)
    moreover have "visible (n # ns) = visible ns" using True by (auto simp: visible_def)
    ultimately show ?thesis using Cons by (simp add: sq_def bnd_def)
  next
    case False
    with Cons.prems(1) have n: "length n < MAXPATHLEN" "lstat_path e n = Some (kind n)" by (auto simp: visible_def)
    let ?g = "group_of all_kinds (kind n)"
    let ?u = "t\<lparr>anyfound := anyfound t + 1, groups := (groups t)(?g := put_name n (groups t ?g))\<rparr>"
    have "take_entry e n t = (Ret (), ?u)"
      using False n Cons.prems(2) by (simp add: take_entry_def run_simps taking_def Let_def strlcpy_fits addtodir_def addto_def bnd_def)
    moreover have "taking e kind (ms @ [n]) s ?u"
      using Cons.prems(2) put_name_ok by (auto simp: taking_def)
    moreover have "visible (n # ns) = n # visible ns" using False by (simp add: visible_def)
    ultimately show ?thesis using Cons.IH [of "ms @ [n]" ?u] Cons.prems(1) False by (simp add: visible_def sq_def bnd_def)
  qed
qed

text \<open>Printing one list: what it prints and the gap it leaves for the next.\<close>

lemma print_group_run:
  assumes "list_ok (groups s g)" and "\<not> manyflag s"
  shows "\<exists>l. print_group title g s = (Ret (), s\<lparr>groups := (groups s)(g := l),
     dirprefix := (if names (groups s g) = [] then dirprefix s else ''\<newline>''),
     tout := tout s @ (if names (groups s g) = [] then [] else dirprefix s @ list_text False (ncolumns s) title (sort (names (groups s g))))\<rparr>)"
proof (cases "names (groups s g) = []")
  case True
  with empty_list [OF assms(1)] show ?thesis by (intro exI [of _ "groups s g"]) (auto simp: print_group_def run_simps)
next
  case False
  with empty_list [OF assms(1)] assms show ?thesis
    by (intro exI [of _ "sort_names (groups s g)"]) (auto simp: print_group_def run_simps Let_def sort_names_ok)
qed

text \<open>All lists one after the other.\<close>

fun print_all :: "(string \<times> group) list \<Rightarrow> unit lcp" where
  "print_all [] = ret ()"
| "print_all ((title, g) # rest) = sq (if g = Others then print_group title g else print_if title g) (print_all rest)"

definition titles :: "(string \<times> group) list" where
  "titles = [(''Directories'', Directories), (''Files'', Files), (''Pipes'', Pipes), (''Block Special Files'', Blockdevs),
     (''Char Special Files'', Chardevs), (''Symbolic Links'', Symlinks), (''Sockets'', Sockets), (''Others'', Others)]"

lemma sq_ret: "sq m (ret ()) = m"
  by (rule ext) (simp add: sq_def bnd_def ret_def split: prod.split outcome.split)

lemma printdir_all: "printdir = print_all titles"
  by (simp add: printdir_def titles_def sq_ret)

lemma print_all_run:
  assumes "distinct (map snd tgs)" and "\<forall>g\<in>snd ` set tgs. list_ok (groups s g)" and "\<not> manyflag s" and "flag s = all_kinds"
  shows "\<exists>u. print_all tgs s = (Ret (), u) \<and> anyfound u = anyfound s \<and>
    tout u = tout s @ sections_text (ncolumns s) (dirprefix s) (map (\<lambda>(t, g). (t, sort (names (groups s g)))) tgs)"
  using assms
proof (induction tgs arbitrary: s)
  case Nil
  then show ?case by (simp add: ret_run)
next
  case (Cons tg tgs)
  obtain title g where tg: "tg = (title, g)" by fastforce
  let ?ns = "names (groups s g)"
  obtain l where l: "print_group title g s = (Ret (), s\<lparr>groups := (groups s)(g := l),
     dirprefix := (if ?ns = [] then dirprefix s else ''\<newline>''),
     tout := tout s @ (if ?ns = [] then [] else dirprefix s @ list_text False (ncolumns s) title (sort ?ns))\<rparr>)"
    using print_group_run [of s g title] Cons.prems by (auto simp: tg)
  let ?u = "s\<lparr>groups := (groups s)(g := l), dirprefix := (if ?ns = [] then dirprefix s else ''\<newline>''),
     tout := tout s @ (if ?ns = [] then [] else dirprefix s @ list_text False (ncolumns s) title (sort ?ns))\<rparr>"
  have "(if g = Others then print_group title g else print_if title g) s = print_group title g s"
    using Cons.prems(4) by (simp add: print_if_def bnd_def gets_run all_kinds_def whenP_def)
  then have step: "(if g = Others then print_group title g else print_if title g) s = (Ret (), ?u)" by (simp only: l)
  have others: "\<forall>h\<in>snd ` set tgs. groups ?u h = groups s h" using Cons.prems(1) by (auto simp: tg)
  obtain v where v: "print_all tgs ?u = (Ret (), v)" "anyfound v = anyfound ?u"
    "tout v = tout ?u @ sections_text (ncolumns ?u) (dirprefix ?u) (map (\<lambda>(t, g). (t, sort (names (groups ?u g)))) tgs)"
    using Cons.IH [of ?u] Cons.prems others by auto
  have same: "map (\<lambda>(t, g). (t, sort (names (groups ?u g)))) tgs = map (\<lambda>(t, g). (t, sort (names (groups s g)))) tgs"
  proof (intro map_cong refl)
    fix x
    assume "x \<in> set tgs"
    then have "groups ?u (snd x) = groups s (snd x)" using others by blast
    then show "(\<lambda>(t, g). (t, sort (names (groups ?u g)))) x = (\<lambda>(t, g). (t, sort (names (groups s g)))) x"
      by (simp only: case_prod_beta)
  qed
  have empty: "sort ?ns = [] \<longleftrightarrow> ?ns = []" by (metis length_0_conv length_sort)
  have "print_all (tg # tgs) s = (Ret (), v)" using step v(1) by (simp only: tg print_all.simps sq_def bnd_def prod.case outcome.case)
  with v(2) v(3) [unfolded same] empty show ?case by (simp add: tg)
qed

lemma kinds_of_groups:
  "map (\<lambda>(t, g). (t, sort (filter (\<lambda>n. group_of all_kinds (kind n) = g) ns))) titles = sections kind ns"
proof -
  have "group_of all_kinds m = g \<longleftrightarrow> m = k"
    if "(g, k) \<in> {(Directories, S_DIR), (Files, S_REG), (Pipes, S_FIFO), (Blockdevs, S_BLK), (Chardevs, S_CHR), (Symlinks, S_LNK), (Sockets, S_SOCK), (Others, S_NONE)}" for g k m
    using that by (cases m) (auto simp: group_of_def all_kinds_def)
  then show ?thesis by (simp add: titles_def sections_def)
qed

text \<open>
  C18: Without arguments, in a directory whose entries can all be examined, the program prints for each kind of
  file the sorted names of the visible entries of that kind, under its title in a fixed order with an empty
  line between two kinds; it fails exactly when there is nothing to list.
\<close>

theorem lc_lists_directory:
  assumes "stat_path e ''.'' = Some S_DIR" and "entries e ''.'' = Some ns"
    and "\<forall>n\<in>set (visible ns). length n < MAXPATHLEN \<and> lstat_path e n = Some (kind n)"
  shows "\<exists>t. lc_main e [] lc_start = (Exit (if visible ns = [] then 1 else 0), t) \<and>
    tout t = sections_text (getcolumns e INDENT) [] (sections kind (visible ns))"
proof -
  let ?s = "lc_start\<lparr>flag := all_kinds, manyflag := False, ncolumns := getcolumns e INDENT\<rparr>"
  have start: "taking e kind [] ?s ?s" by (simp add: taking_def lc_start_def no_files_ok)
  then obtain u where u: "take_entries e ns ?s = (Ret (), u)" "taking e kind (visible ns) ?s u"
    using take_entries_run [OF assms(3) start] by auto
  have "distinct (map snd titles)" by (simp add: titles_def)
  then obtain v where v: "print_all titles u = (Ret (), v)" "anyfound v = anyfound u"
    "tout v = tout u @ sections_text (ncolumns u) (dirprefix u) (map (\<lambda>(t, g). (t, sort (names (groups u g)))) titles)"
    using print_all_run [of titles u] u(2) by (auto simp: taking_def)
  have t: "tout v = sections_text (getcolumns e INDENT) [] (sections kind (visible ns))" "anyfound v = length (visible ns)"
    using v(2,3) u(2) kinds_of_groups [of kind "visible ns"] by (simp_all add: taking_def lc_start_def)
  have "listdir e ''.'' ?s = (Ret (), v\<lparr>groups := (\<lambda>g. clear_list (groups v g))\<rparr>)"
    using assms(1,2) u(1) v(1)
    by (simp add: listdir_def checkdir_def filldir_def preambledir_def cleardir_def printdir_all sq_def bnd_def ret_run gets_run upd_run
        whenP_def lc_start_def)
  then have "lc_main e [] lc_start = (Exit (if visible ns = [] then 1 else 0), v\<lparr>groups := (\<lambda>g. clear_list (groups v g))\<rparr>)"
    using t(2) by (simp add: lc_main_def sq_def bnd_def ret_run gets_run upd_run whenP_def exit_run lc_start_def all_kinds_def [abs_def])
  with t(1) show ?thesis by simp
qed

definition some_dir :: lc_env where
  "some_dir = \<lparr>lc_name = ''lc'', stat_path = (\<lambda>p. Some S_DIR), lstat_path = (\<lambda>p. Some (if p = ''src'' then S_DIR else S_REG)),
     entries = (\<lambda>p. Some [''.'', ''..'', ''b'', ''src'', ''a'']), err_text = (\<lambda>p. []), win_cols = None\<rparr>"

lemma lc_lists_directory_witness:
  "\<exists>t. lc_main some_dir [] lc_start = (Exit 0, t) \<and>
     tout t = ''Directories:\<newline>    src\<newline>\<newline>Files:\<newline>    a              b\<newline>''"
proof -
  let ?kind = "\<lambda>p. if p = ''src'' then S_DIR else S_REG"
  have "\<exists>t. lc_main some_dir [] lc_start = (Exit 0, t) \<and> tout t = sections_text 5 [] (sections ?kind [''b'', ''src'', ''a''])"
    using lc_lists_directory [of some_dir "[''.'', ''..'', ''b'', ''src'', ''a'']" ?kind]
    by (simp add: some_dir_def visible_def MAXPATHLEN_def getcolumns_def DEFNCOLS_def)
  moreover have "sections_text 5 [] (sections ?kind [''b'', ''src'', ''a'']) = ''Directories:\<newline>    src\<newline>\<newline>Files:\<newline>    a              b\<newline>''"
    by code_simp
  ultimately show ?thesis by simp
qed

text \<open>In one column a first name of more than fifteen bytes is preceded by an empty line.\<close>

lemma long_name_empty_line: "list_text False 1 ''Files'' [''sixteen-letters.'', ''b''] = ''\<newline>sixteen-letters.\<newline>b\<newline>''"
  by code_simp

text \<open>A kind that was not asked for is listed as well, among the others.\<close>

lemma unwanted_listed: "group_of (\<lambda>g. g = Files) S_DIR = Others"
  by (simp add: group_of_def)

end
