(* ===== verification/WnuForm.thy ===== *)
theory WnuForm
  imports CLib
begin

text \<open>
  Form data as the program for new web users reads it, \<open>soft/apps/ownu/cgi-decode.c\<close>: the query is copied
  and decoded in place, and its names and values are pointers into the copy. Decoding may run past the end
  of a field, so the copy is a memory of bytes and every pointer an index.
\<close>

section \<open>Decoding in place\<close>

text \<open>\<open>index\<close>: the position of a character, \<open>Some None\<close> where the string ends first, \<open>None\<close> beyond the memory.\<close>

function strchr_at :: "string \<Rightarrow> nat \<Rightarrow> char \<Rightarrow> nat option option" where
  "strchr_at m p c = (case mem_at m p of
     None \<Rightarrow> None
   | Some x \<Rightarrow> if x = c then Some (Some p) else if x = NUL then Some None else strchr_at m (Suc p) c)"
  by pat_completeness auto
termination
  by (relation "measure (\<lambda>(m, p, c). length m - p)") (auto simp: mem_at_def split: if_splits)

declare strchr_at.simps [simp del]

text \<open>A hexadecimal digit, and whatever the arithmetic makes of another character.\<close>

definition x2c_digit :: "char \<Rightarrow> int" where
  "x2c_digit c = (let b = int (byte c) in
     if 65 \<le> b \<and> b < 128 then (if 96 \<le> b then b - 32 else b) - 65 + 10 else b - 48)"

definition x2c :: "char \<Rightarrow> char \<Rightarrow> char" where
  "x2c a b = char_of (nat ((16 * x2c_digit a + x2c_digit b) mod 256))"

function plustospace :: "string \<Rightarrow> nat \<Rightarrow> string option" where
  "plustospace m x = (case mem_at m x of
     None \<Rightarrow> None
   | Some c \<Rightarrow> if c = NUL then Some m
       else plustospace (if c = CHR ''+'' then m[x := SPC] else m) (Suc x))"
  by pat_completeness auto
termination
  by (relation "measure (\<lambda>(m, x). length m - x)") (auto simp: mem_at_def split: if_splits)

declare plustospace.simps [simp del]

text \<open>The loop reads at \<open>y\<close> and writes at \<open>x\<close>; a percent sign takes the two bytes behind it, NULs included.\<close>

function unescape_url :: "string \<Rightarrow> nat \<Rightarrow> nat \<Rightarrow> string option" where
  "unescape_url m x y = (case mem_at m y of
     None \<Rightarrow> None
   | Some c \<Rightarrow>
       if c = NUL then Some (m[x := NUL])
       else if c = CHR ''%'' then
         (case mem_at m (y + 1) of
            None \<Rightarrow> None
          | Some a \<Rightarrow> (case mem_at m (y + 2) of
              None \<Rightarrow> None
            | Some b \<Rightarrow> unescape_url (m[x := x2c a b]) (Suc x) (y + 3)))
       else unescape_url (m[x := c]) (Suc x) (Suc y))"
  by pat_completeness auto
termination
  by (relation "measure (\<lambda>(m, x, y). length m - y)") (auto simp: mem_at_def split: if_splits)

declare unescape_url.simps [simp del]

lemma strchr_at_bounds: "strchr_at m p c = Some (Some q) \<Longrightarrow> p \<le> q \<and> q < length m"
proof (induction m p c rule: strchr_at.induct)
  case (1 m p c)
  from "1.prems" show ?case
    by (subst (asm) strchr_at.simps) (auto split: option.splits if_splits dest: mem_at_SomeD "1.IH")
qed

lemma length_plustospace: "plustospace m x = Some m' \<Longrightarrow> length m' = length m"
proof (induction m x rule: plustospace.induct)
  case (1 m x)
  from "1.prems" show ?case
    by (subst (asm) plustospace.simps) (auto split: option.splits if_splits dest: "1.IH")
qed

lemma length_unescape_url: "unescape_url m x y = Some m' \<Longrightarrow> length m' = length m"
proof (induction m x y rule: unescape_url.induct)
  case (1 m x y)
  from "1.prems" show ?case
    by (subst (asm) unescape_url.simps) (auto split: option.splits if_splits dest: "1.IH")
qed

section \<open>The list of fields\<close>

text \<open>A value without \<open>=\<close> is the constant empty string, which is not in the copy.\<close>

record query_field =
  e_name :: nat
  e_value :: "nat option"

text \<open>One field from \<open>p\<close> on: the memory after it, the field, and where the next one starts.\<close>

definition load_field :: "string \<Rightarrow> nat \<Rightarrow> (string \<times> query_field \<times> nat option) option" where
  "load_field m p = (case strchr_at m p (CHR ''&'') of
     None \<Rightarrow> None
   | Some e \<Rightarrow> (case plustospace (case e of None \<Rightarrow> m | Some i \<Rightarrow> m[i := NUL]) p of
       None \<Rightarrow> None
     | Some m1 \<Rightarrow> (case unescape_url m1 p p of
         None \<Rightarrow> None
       | Some m2 \<Rightarrow> (case strchr_at m2 p (CHR ''='') of
           None \<Rightarrow> None
         | Some None \<Rightarrow> Some (m2, \<lparr>e_name = p, e_value = None\<rparr>, map_option Suc e)
         | Some (Some q) \<Rightarrow> Some (m2[q := NUL], \<lparr>e_name = p, e_value = Some (Suc q)\<rparr>, map_option Suc e)))))"

lemma load_field_next:
  assumes "load_field m p = Some (m', f, Some p')"
  shows "length m' = length m \<and> p < p' \<and> p' \<le> length m"
  using assms
  by (auto simp: load_field_def split: option.splits dest!: length_plustospace length_unescape_url strchr_at_bounds)

function load_fields :: "string \<Rightarrow> nat \<Rightarrow> query_field list \<Rightarrow> (string \<times> query_field list) option" where
  "load_fields m p fs = (case load_field m p of
     None \<Rightarrow> None
   | Some (m', f, None) \<Rightarrow> Some (m', f # fs)
   | Some (m', f, Some p') \<Rightarrow> load_fields m' p' (f # fs))"
  by pat_completeness auto
termination
proof (relation "measure (\<lambda>(m, p, fs). Suc (length m) - p)", goal_cases)
  case (2 m p fs z m' z' f n p')
  then show ?case using load_field_next [of m p m' f p'] by auto
qed simp

declare load_fields.simps [simp del]

text \<open>
  The globals of the module. Memory is a list of blocks, and a pointer is a block with an offset in it:
  block 0 is \<open>nothing\<close>, block 1 the constant empty string, block 2 the copy of the query, and the others
  are allocated while values are checked. \<open>entries\<close> is the list from \<open>head\<close> on and \<open>curr\<close> its rest from
  the entry \<open>firstvar\<close> and \<open>nextvar\<close> are at.
\<close>

type_synonym ptr = "nat \<times> nat"

record formq = tty +
  blocks :: "string list"
  entries :: "query_field list"
  curr :: "query_field list"

type_synonym ('a, 'm) formp = "('a, 'm formq_scheme) prog"

definition block_at :: "'m formq_scheme \<Rightarrow> nat \<Rightarrow> string" where
  "block_at s b = (if b < length (blocks s) then blocks s ! b else [])"

text \<open>The string a pointer leads to, where it is one.\<close>

definition str_at :: "'m formq_scheme \<Rightarrow> ptr \<Rightarrow> string option" where
  "str_at s p = (let m = drop (snd p) (block_at s (fst p)) in if NUL \<in> set m then Some (cstr m) else None)"

definition deref :: "ptr \<Rightarrow> (string, 'm) formp" where
  "deref p s = (case str_at s p of None \<Rightarrow> (Undef, s) | Some x \<Rightarrow> (Ret x, s))"

definition value_ptr :: "query_field \<Rightarrow> ptr" where
  "value_ptr f = (case e_value f of None \<Rightarrow> (1, 0) | Some v \<Rightarrow> (2, v))"

text \<open>The environment gives the request method and the length of the data, or the query itself.\<close>

record form_env =
  request_method :: "string option"
  content_length :: "string option"
  query_string :: "string option"

definition get_query :: "form_env \<Rightarrow> (string option, 'm) formp" where
  "get_query e = (if request_method e = Some ''POST'' then
       let len = (case content_length e of None \<Rightarrow> 0 | Some cl \<Rightarrow> s32 (atol cl)) in
       if len < 0 then undef
       else bnd (gets tin) (\<lambda>i. sq (upd (\<lambda>s. s\<lparr>tin := drop (nat len) i\<rparr>)) (ret (Some (cstr (take (nat len) i)))))
     else ret (query_string e))"

definition load_query :: "string option \<Rightarrow> (unit, 'm) formp" where
  "load_query q = (case q of
     None \<Rightarrow> upd (\<lambda>s. s\<lparr>blocks := take 2 (blocks s) @ [[]], entries := []\<rparr>)
   | Some x \<Rightarrow> if x = [] then upd (\<lambda>s. s\<lparr>blocks := take 2 (blocks s) @ [[]], entries := []\<rparr>)
       else case load_fields (x @ [NUL]) 0 [] of
         None \<Rightarrow> undef
       | Some (m, fs) \<Rightarrow> upd (\<lambda>s. s\<lparr>blocks := take 2 (blocks s) @ [m], entries := fs\<rparr>))"

definition field_name :: "'m formq_scheme \<Rightarrow> query_field \<Rightarrow> string" where
  "field_name s f = cstr (drop (e_name f) (block_at s 2))"

definition getvar :: "string \<Rightarrow> (ptr option, 'm) formp" where
  "getvar name = gets (\<lambda>s. map_option value_ptr (find (\<lambda>f. field_name s f = name) (entries s)))"

definition firstvar :: "((ptr \<times> ptr) option, 'm) formp" where
  "firstvar = sq (upd (\<lambda>s. s\<lparr>curr := entries s\<rparr>))
     (gets (\<lambda>s. case curr s of [] \<Rightarrow> None | f # _ \<Rightarrow> Some ((2, e_name f), value_ptr f)))"

definition nextvar :: "((ptr \<times> ptr) option, 'm) formp" where
  "nextvar = sq (upd (\<lambda>s. s\<lparr>curr := tl (curr s)\<rparr>))
     (gets (\<lambda>s. case curr s of [] \<Rightarrow> None | f # _ \<Rightarrow> Some ((2, e_name f), value_ptr f)))"

section \<open>Words of a string\<close>

text \<open>\<open>firstin_len\<close> and \<open>firstout_len\<close> as the number of characters to go forward.\<close>

definition firstin_len :: "string \<Rightarrow> string \<Rightarrow> nat" where
  "firstin_len s l = length (takeWhile (\<lambda>c. c \<notin> set l) s)"

definition firstout_len :: "string \<Rightarrow> string \<Rightarrow> nat" where
  "firstout_len s l = length (takeWhile (\<lambda>c. c \<in> set l) s)"

end
