(* ===== verification/WnuFormFacts.thy ===== *)
theory WnuFormFacts
  imports WnuForm FormVars
begin

text \<open>
  What decoding does to a query a browser made: the encoding is that of \<open>FormVars\<close>, so the two decoders
  of the repository are judged by the same text.
\<close>

section \<open>The loops on a string in memory\<close>

lemma strchr_at_text:
  assumes "c \<notin> set t" and "NUL \<notin> set t" and "x = c \<or> x = NUL"
  shows "strchr_at (pre @ t @ x # rest) (length pre) c = Some (if x = c then Some (length pre + length t) else None)"
  using assms(1,2)
proof (induction t arbitrary: pre)
  case Nil
  then show ?case using assms(3) by (auto simp: strchr_at.simps)
next
  case (Cons d t)
  then show ?case using Cons.IH [of "pre @ [d]"] by (auto simp: strchr_at.simps [of "pre @ d # _"])
qed

definition plus_char :: "char \<Rightarrow> char" where
  "plus_char c = (if c = CHR ''+'' then SPC else c)"

lemma plustospace_text:
  "NUL \<notin> set t \<Longrightarrow> plustospace (pre @ t @ NUL # rest) (length pre) = Some (pre @ map plus_char t @ NUL # rest)"
proof (induction t arbitrary: pre)
  case Nil
  then show ?case by (simp add: plustospace.simps)
next
  case (Cons d t)
  then show ?case using Cons.IH [of "pre @ [plus_char d]"]
    by (auto simp: plustospace.simps [of "pre @ d # _"] plus_char_def list_update_append)
qed

text \<open>What the loop of \<open>unescape_url\<close> turns into one character.\<close>

definition unit_of :: "char \<Rightarrow> string \<Rightarrow> bool" where
  "unit_of c u \<longleftrightarrow> u = [c] \<and> c \<noteq> CHR ''%'' \<and> c \<noteq> NUL \<or> (\<exists>a b. u = [CHR ''%'', a, b] \<and> x2c a b = c)"

lemma unescape_unit:
  assumes "unit_of c u"
  shows "unescape_url (pre @ gap @ u @ rest) (length pre) (length (pre @ gap))
    = unescape_url ((pre @ [c]) @ tl (gap @ u) @ rest) (length (pre @ [c])) (length ((pre @ [c]) @ tl (gap @ u)))"
proof -
  from assms have u: "u \<noteq> []" by (auto simp: unit_of_def)
  have m: "(pre @ gap @ u @ rest)[length pre := c] = (pre @ [c]) @ tl (gap @ u) @ rest"
    using u by (intro update_over_gap) simp
  have l: "length ((pre @ [c]) @ tl (gap @ u)) = length (pre @ gap) + length u" using u by (cases gap) auto
  have at: "mem_at (pre @ gap @ u @ rest) (length (pre @ gap) + i) = Some (u ! i)" if "i < length u" for i
    using that by (simp add: mem_at_def nth_append)
  from assms consider "u = [c]" "c \<noteq> CHR ''%''" "c \<noteq> NUL" | a b where "u = [CHR ''%'', a, b]" "x2c a b = c"
    by (auto simp: unit_of_def)
  then show ?thesis
  proof cases
    case 1
    then show ?thesis using at [of 0] m l by (subst unescape_url.simps) simp
  next
    case 2
    then show ?thesis using at [of 0] at [of 1] at [of 2] m l
      by (subst unescape_url.simps) (simp add: numeral_2_eq_2 numeral_3_eq_3)
  qed
qed

lemma unescape_text:
  assumes "list_all2 unit_of w us"
  shows "\<exists>j. unescape_url (pre @ gap @ concat us @ NUL # rest) (length pre) (length (pre @ gap)) = Some (pre @ w @ NUL # j @ rest)
    \<and> length j + length w = length gap + length (concat us)"
  using assms
proof (induction arbitrary: pre gap rule: list_all2_induct)
  case Nil
  have "mem_at (pre @ gap @ NUL # rest) (length (pre @ gap)) = Some NUL"
    using mem_at_append [of "pre @ gap" NUL rest] by simp
  then show ?case
    using update_over_gap [of gap "[NUL]" pre rest NUL]
    by (intro exI [of _ "tl (gap @ [NUL])"], subst unescape_url.simps) simp
next
  case (Cons c w u us)
  have u: "u \<noteq> []" using Cons.hyps(1) by (auto simp: unit_of_def)
  obtain j where j: "unescape_url ((pre @ [c]) @ tl (gap @ u) @ concat us @ NUL # rest) (length (pre @ [c])) (length ((pre @ [c]) @ tl (gap @ u)))
      = Some ((pre @ [c]) @ w @ NUL # j @ rest)" "length j + length w = length (tl (gap @ u)) + length (concat us)"
    using Cons.IH [of "pre @ [c]" "tl (gap @ u)"] by auto
  show ?case
    using unescape_unit [OF Cons.hyps(1), of pre gap "concat us @ NUL # rest"] j u by (intro exI [of _ j]) auto
qed

section \<open>One field\<close>

lemma x2c_hex: "x2c (hex_digit (byte c div 16)) (hex_digit (byte c mod 16)) = c"
proof -
  have d: "byte c div 16 < 16" "byte c mod 16 < 16" by (simp_all add: less_mult_imp_div_less)
  have "16 * int (byte c div 16) + int (byte c mod 16) = int (byte c)"
    by (metis mult_div_mod_eq of_nat_add of_nat_mult of_nat_numeral)
  moreover have "x2c_digit (hex_digit i) = int i" if "i < 16" for i
    using that by (auto simp: x2c_digit_def hex_digit_def)
  ultimately show ?thesis using d by (simp add: x2c_def)
qed

lemma hex_digit_alnum: "d < 16 \<Longrightarrow> plain_char (hex_digit d)"
  by (auto simp: plain_char_def hex_digit_def isdigit_def)

lemma plain_char_not: "plain_char c \<Longrightarrow> c \<noteq> CHR ''+'' \<and> c \<noteq> CHR ''%'' \<and> c \<noteq> CHR ''&'' \<and> c \<noteq> CHR ''='' \<and> c \<noteq> NUL"
  by (auto simp: plain_char_def isdigit_def)

lemma hex_digits_plain: "plain_char (hex_digit (byte c div 16))" "plain_char (hex_digit (byte c mod 16))"
  by (simp_all add: hex_digit_alnum less_mult_imp_div_less)

lemma enc_char_cases:
  obtains "plain_char c" "enc_char c = [c]" | "c = SPC" "enc_char c = ''+''"
    | a b where "enc_char c = [CHR ''%'', a, b]" "plain_char a" "plain_char b" "x2c a b = c"
proof -
  have "enc_char c = [CHR ''%'', hex_digit (byte c div 16), hex_digit (byte c mod 16)]" if "\<not> plain_char c" "c \<noteq> SPC"
    using that by (simp add: enc_char_def)
  then show thesis
    using that hex_digits_plain [of c] x2c_hex [of c] by (cases "plain_char c"; cases "c = SPC") (auto simp: enc_char_def)
qed

lemma enc_unit: "unit_of c (map plus_char (enc_char c))"
  by (cases c rule: enc_char_cases) (auto simp: unit_of_def plus_char_def dest: plain_char_not)

lemma enc_units: "list_all2 unit_of w (map (map plus_char \<circ> enc_char) w)"
  by (induction w) (simp_all add: enc_unit)

lemma enc_char_plain: "d \<in> set (enc_char c) \<Longrightarrow> d \<noteq> NUL \<and> d \<noteq> CHR ''&'' \<and> d \<noteq> CHR ''=''"
  by (cases c rule: enc_char_cases) (auto dest: plain_char_not)

lemma enc_plain: "c \<in> set (enc w) \<Longrightarrow> c \<noteq> NUL \<and> c \<noteq> CHR ''&'' \<and> c \<noteq> CHR ''=''"
  by (auto simp: enc_def dest: enc_char_plain)

definition form_pair :: "string \<times> string \<Rightarrow> bool" where
  "form_pair p \<longleftrightarrow> NUL \<notin> set (fst p) \<and> CHR ''='' \<notin> set (fst p) \<and> NUL \<notin> set (snd p)"

lemma load_field_text:
  assumes "form_pair (n, v)" and "x = CHR ''&'' \<or> x = NUL"
  shows "\<exists>j. load_field (pre @ (enc n @ ''='' @ enc v) @ x # rest) (length pre)
      = Some (pre @ (n @ NUL # v @ NUL # j) @ rest, \<lparr>e_name = length pre, e_value = Some (Suc (length pre + length n))\<rparr>,
          if x = NUL then None else Some (length (pre @ (n @ NUL # v @ NUL # j))))"
proof -
  let ?t = "enc n @ ''='' @ enc v" and ?w = "n @ ''='' @ v"
  have t: "NUL \<notin> set ?t" "CHR ''&'' \<notin> set ?t" by (auto dest: enc_plain)
  define us where "us = map (map plus_char \<circ> enc_char) n @ [''=''] @ map (map plus_char \<circ> enc_char) v"
  have us: "list_all2 unit_of ?w us"
    unfolding us_def by (intro list_all2_appendI enc_units) (simp add: unit_of_def)
  have plus: "map plus_char ?t = concat us"
    by (simp add: us_def enc_def map_concat plus_char_def comp_def)
  have find: "strchr_at (pre @ ?t @ x # rest) (length pre) (CHR ''&'') = Some (if x = NUL then None else Some (length pre + length ?t))"
    using strchr_at_text [of "CHR ''&''" ?t x pre rest] t assms(2) by auto
  have ended: "(case if x = NUL then None else Some (length pre + length ?t) of None \<Rightarrow> pre @ ?t @ x # rest | Some i \<Rightarrow> (pre @ ?t @ x # rest)[i := NUL])
      = pre @ ?t @ NUL # rest"
    using assms(2) by (auto simp: list_update_append)
  have plussed: "plustospace (pre @ ?t @ NUL # rest) (length pre) = Some (pre @ concat us @ NUL # rest)"
    using plustospace_text [of ?t pre rest] t(1) plus by simp
  obtain j where j: "unescape_url (pre @ concat us @ NUL # rest) (length pre) (length pre) = Some (pre @ ?w @ NUL # j @ rest)"
      "length j + length ?w = length (concat us)"
    using unescape_text [OF us, of pre "[]" rest] by auto
  have "strchr_at (pre @ n @ CHR ''='' # v @ NUL # j @ rest) (length pre) (CHR ''='') = Some (Some (length pre + length n))"
    using strchr_at_text [of "CHR ''=''" n "CHR ''=''" pre "v @ NUL # j @ rest"] assms(1) by (simp add: form_pair_def)
  then have "load_field (pre @ ?t @ x # rest) (length pre) = Some (pre @ (n @ NUL # v @ NUL # j) @ rest,
      \<lparr>e_name = length pre, e_value = Some (Suc (length pre + length n))\<rparr>,
      map_option Suc (if x = NUL then None else Some (length pre + length ?t)))"
    unfolding load_field_def find option.case ended plussed j(1)
    using j(1) by (simp add: list_update_append)
  moreover have "length ?t = length (concat us)" using plus by (metis length_map)
  ultimately show ?thesis using j(2) by (intro exI [of _ j]) simp
qed

section \<open>The list of fields\<close>

definition field_in :: "string \<Rightarrow> query_field \<Rightarrow> string \<times> string" where
  "field_in m f = (cstr (drop (e_name f) m), case e_value f of None \<Rightarrow> [] | Some v \<Rightarrow> cstr (drop v m))"

definition valued :: "string \<Rightarrow> query_field \<Rightarrow> bool" where
  "valued m f \<longleftrightarrow> (\<exists>v. e_value f = Some v \<and> NUL \<in> set (drop v m))"

lemma field_in_text:
  assumes "form_pair (n, v)"
  shows "field_in (pre @ n @ NUL # v @ NUL # rest) \<lparr>e_name = length pre, e_value = Some (Suc (length pre + length n))\<rparr> = (n, v)"
  using assms by (simp add: field_in_def form_pair_def cstr_stops)

lemma load_fields_text:
  assumes "\<forall>p\<in>set ps. form_pair p" and "ps \<noteq> []"
  shows "\<exists>t es. load_fields (pre @ enc_form ps @ [NUL]) (length pre) acc = Some (pre @ t, es @ acc) \<and>
    map (field_in (pre @ t)) es = rev ps \<and> list_all (valued (pre @ t)) es"
  using assms
proof (induction ps arbitrary: pre acc rule: enc_form.induct)
  case (2 n v)
  obtain j where "load_field (pre @ (enc n @ ''='' @ enc v) @ [NUL]) (length pre)
      = Some (pre @ (n @ NUL # v @ NUL # j), \<lparr>e_name = length pre, e_value = Some (Suc (length pre + length n))\<rparr>, None)"
    using load_field_text [of n v NUL pre "[]"] "2.prems" by auto
  then show ?case
    using field_in_text [of n v pre j] "2.prems"
    by (intro exI [of _ "n @ NUL # v @ NUL # j"] exI [of _ "[\<lparr>e_name = length pre, e_value = Some (Suc (length pre + length n))\<rparr>]"])
      (simp add: load_fields.simps valued_def)
next
  case (3 n v p ps)
  let ?f = "\<lparr>e_name = length pre, e_value = Some (Suc (length pre + length n))\<rparr>"
  obtain j where j: "load_field (pre @ (enc n @ ''='' @ enc v) @ CHR ''&'' # enc_form (p # ps) @ [NUL]) (length pre)
      = Some (pre @ (n @ NUL # v @ NUL # j) @ enc_form (p # ps) @ [NUL], ?f, Some (length (pre @ (n @ NUL # v @ NUL # j))))"
    using load_field_text [of n v "CHR ''&''" pre "enc_form (p # ps) @ [NUL]"] "3.prems" by auto
  define q where "q = pre @ (n @ NUL # v @ NUL # j)"
  obtain t es where t: "load_fields (q @ enc_form (p # ps) @ [NUL]) (length q) (?f # acc) = Some (q @ t, es @ ?f # acc)"
      "map (field_in (q @ t)) es = rev (p # ps)" "list_all (valued (q @ t)) es"
    using "3.IH" [of q "?f # acc"] "3.prems" by auto
  have "load_fields (pre @ enc_form ((n, v) # p # ps) @ [NUL]) (length pre) acc = Some (q @ t, es @ ?f # acc)"
    using j t(1) by (subst load_fields.simps) (simp add: q_def)
  moreover have "field_in (q @ t) ?f = (n, v)"
    using field_in_text [of n v pre "j @ t"] "3.prems" by (simp add: q_def)
  moreover have "valued (q @ t) ?f" by (simp add: q_def valued_def)
  ultimately show ?case
    using t(2,3) by (intro exI [of _ "n @ NUL # v @ NUL # j @ t"] exI [of _ "es @ [?f]"]) (simp add: q_def)
qed simp

text \<open>The value of a name as the callers of \<open>getvar\<close> read it.\<close>

definition form_value :: "string \<Rightarrow> (string option, 'm) formp" where
  "form_value n = bnd (getvar n) (\<lambda>r. case r of None \<Rightarrow> ret None | Some p \<Rightarrow> bnd (deref p) (\<lambda>v. ret (Some v)))"

lemma find_map: "map g es = ps \<Longrightarrow> find (\<lambda>f. fst (g f) = n) es = Some f \<Longrightarrow> map_of ps n = Some (snd (g f))"
  by (induction es arbitrary: ps) (auto split: if_splits)

lemma find_map_None: "map g es = ps \<Longrightarrow> find (\<lambda>f. fst (g f) = n) es = None \<Longrightarrow> map_of ps n = None"
  by (induction es arbitrary: ps) (auto split: if_splits)

lemma form_value_loaded:
  assumes "map (field_in (block_at t 2)) (entries t) = ps" and "list_all (valued (block_at t 2)) (entries t)"
  shows "form_value n t = (Ret (map_of ps n), t)"
proof -
  have eq: "(\<lambda>f. field_name t f = n) = (\<lambda>f. fst (field_in (block_at t 2) f) = n)" by (auto simp: field_name_def field_in_def)
  show ?thesis
  proof (cases "find (\<lambda>f. fst (field_in (block_at t 2) f) = n) (entries t)")
    case None
    then show ?thesis using find_map_None [OF assms(1) None] by (simp add: form_value_def getvar_def eq bnd_def gets_def ret_def)
  next
    case (Some f)
    then have "f \<in> set (entries t)" by (auto simp: find_Some_iff)
    with assms(2) have "valued (block_at t 2) f" by (simp add: list_all_iff)
    then obtain v where "e_value f = Some v" "NUL \<in> set (drop v (block_at t 2))" by (auto simp: valued_def)
    then show ?thesis using find_map [OF assms(1) Some] Some
      by (simp add: form_value_def getvar_def eq bnd_def gets_def ret_def deref_def str_at_def value_ptr_def field_in_def)
  qed
qed

lemma load_query_text:
  assumes "\<forall>p\<in>set ps. form_pair p" and "2 \<le> length (blocks s)"
  shows "\<exists>t. load_query (Some (enc_form ps)) s = (Ret (), t) \<and> map (field_in (block_at t 2)) (entries t) = rev ps \<and>
    list_all (valued (block_at t 2)) (entries t)"
proof (cases "ps = []")
  case True
  then show ?thesis by (simp add: load_query_def upd_def)
next
  case False
  then have ne: "enc_form ps \<noteq> []" by (cases ps rule: enc_form.cases) auto
  obtain m es where m: "load_fields (enc_form ps @ [NUL]) 0 [] = Some (m, es)" "map (field_in m) es = rev ps" "list_all (valued m) es"
    using load_fields_text [OF assms(1) False, of "[]" "[]"] by auto
  have len: "min (length (blocks s)) 2 = 2" using assms(2) by simp
  have "block_at (s\<lparr>blocks := take 2 (blocks s) @ [m], entries := es\<rparr>) 2 = m"
    by (simp add: block_at_def nth_append len)
  then show ?thesis using ne m by (simp add: load_query_def upd_def)
qed

text \<open>
  C22: A query in which a browser encoded pairs of names and values is decoded in place without leaving its
  memory, and the lookup of any name gives the value it was last given, or nothing when the form has no such
  field.
\<close>

theorem form_reads_back:
  assumes "\<forall>p\<in>set ps. form_pair p" and "2 \<le> length (blocks s)"
  shows "fst (sq (load_query (Some (enc_form ps))) (form_value n) s) = Ret (map_of (rev ps) n)"
proof -
  obtain t where "load_query (Some (enc_form ps)) s = (Ret (), t)" "form_value n t = (Ret (map_of (rev ps) n), t)"
    using load_query_text [OF assms] form_value_loaded by blast
  then show ?thesis by (simp add: sq_run)
qed

definition no_query :: formq where
  "no_query = \<lparr>tin = [], tout = [], blocks = [[NUL], [NUL]], entries = [], curr = []\<rparr>"

lemma form_reads_back_witness:
  "fst (sq (load_query (Some (enc_form [(''login'', ''abe''), (''how'', ''50% & =''), (''login'', ''bob'')]))) (form_value ''login'') no_query)
    = Ret (Some ''bob'')"
  using form_reads_back [of "[(''login'', ''abe''), (''how'', ''50% & =''), (''login'', ''bob'')]" no_query "''login''"]
  by (simp add: form_pair_def no_query_def)

text \<open>
  A percent sign at the end of a field takes the terminator with it: the field goes on with the next one.
\<close>

lemma escape_swallows_next:
  "fst (sq (load_query (Some ''a=1%&b=2'')) (form_value ''a'') no_query) = Ret (Some (''1'' @ CHR 0x0B # ''=2''))"
  by code_simp

end
