(* ===== verification/WnuPage.thy ===== *)
theory WnuPage
  imports WnuForm
begin

unbundle bit_operations_syntax

text \<open>
  The pages and the log of the program for new web users: \<open>cgi-output.c\<close> and \<open>wnu-error.c\<close> of
  \<open>soft/apps/ownu\<close>, with the globals of the whole program.
\<close>

section \<open>Text for a page\<close>

definition expand_char :: "bool \<Rightarrow> char \<Rightarrow> string" where
  "expand_char cntl ch = (if ch = CHR ''<'' then ''&lt;'' else if ch = CHR ''>'' then ''&gt;'' else if ch = CHR ''&'' then ''&amp;''
     else if cntl then
       (let (m, c) = (if 128 \<le> byte ch then (''M-'', char_of (byte ch - 128)) else ([], ch)) in
        m @ (if isprint c then [c] else [CHR ''^'', if byte c = 127 then CHR ''?'' else char_of (byte c + 64)]))
     else [ch])"

definition print_expand :: "string \<Rightarrow> bool \<Rightarrow> bool \<Rightarrow> int \<Rightarrow> int \<Rightarrow> string" where
  "print_expand s left cntl minlen maxlen =
     (let len = (if maxlen \<noteq> -1 \<and> maxlen < int (length s) then maxlen else int (length s));
          pad = replicate (nat (minlen - len)) SPC;
          x = concat (map (expand_char cntl) (take (nat len) s))
      in if left then x @ pad else pad @ x)"

subsection \<open>Formats\<close>

text \<open>
  The arguments of a format are numbers and strings. Output is a list of pieces, each with whether it goes
  to the stream of the call or, as an unknown directive does, always to the page. \<open>None\<close> is what C leaves
  undefined: a missing argument, one of the wrong type, reading behind the format.
\<close>

datatype carg = AInt int | AStr string

type_synonym pieces_out = "(bool \<times> string) list"

abbreviation LFSZ :: nat where "LFSZ \<equiv> 40"

text \<open>\<open>index\<close> finds the NUL of its string too, so the loop over the flags runs past the end of the format.\<close>

fun scan_flags :: "nat \<Rightarrow> string \<Rightarrow> (string \<times> string) option" where
  "scan_flags 0 s = Some ([], s)"
| "scan_flags (Suc k) [] = None"
| "scan_flags (Suc k) (c # cs) =
     (if c \<in> set ''#0-+ '' then map_option (\<lambda>(a, b). (c # a, b)) (scan_flags k cs) else Some ([], c # cs))"

fun scan_digits :: "nat \<Rightarrow> string \<Rightarrow> string \<times> string" where
  "scan_digits k [] = ([], [])"
| "scan_digits 0 s = ([], s)"
| "scan_digits (Suc k) (c # cs) = (if isdigit c then (let (a, b) = scan_digits k cs in (c # a, b)) else ([], c # cs))"

text \<open>A width or precision at index \<open>i\<close> of \<open>lfmt\<close>: its value, its text, and what is left.\<close>

definition scan_size :: "nat \<Rightarrow> string \<Rightarrow> carg list \<Rightarrow> (int \<times> string \<times> string \<times> carg list) option" where
  "scan_size i s args = (case s of
     [] \<Rightarrow> Some (-1, [], [], args)
   | c # cs \<Rightarrow>
       if isdigit c then (let (a, b) = scan_digits (LFSZ - Suc i) cs in Some (atoi s, c # a, b, args))
       else if c = CHR ''*'' then
         (case args of
            AInt n # as \<Rightarrow> (let w = min n 10000 in Some (w, dec w, cs, as))
          | _ \<Rightarrow> None)
       else Some (-1, [], s, args))"

text \<open>
  The directives every caller uses are \<open>%S\<close>, \<open>%C\<close>, \<open>%s\<close> and \<open>%d\<close>; \<open>other\<close> stands for the C library's output
  of the remaining ones.
\<close>

definition fprintf1 :: "(string \<Rightarrow> carg \<Rightarrow> string) \<Rightarrow> string \<Rightarrow> carg \<Rightarrow> string option" where
  "fprintf1 other lfmt a = (case a of
     AStr x \<Rightarrow> if last lfmt \<notin> set ''ps'' then None else Some (if lfmt = ''%s'' then x else other lfmt a)
   | AInt n \<Rightarrow> if last lfmt \<in> set ''ps'' then None else Some (if lfmt = ''%d'' then dec n else other lfmt a))"

definition convert :: "(string \<Rightarrow> carg \<Rightarrow> string) \<Rightarrow> string \<Rightarrow> int \<Rightarrow> int \<Rightarrow> char \<Rightarrow> string \<Rightarrow> carg list \<Rightarrow> (pieces_out \<times> carg list) option" where
  "convert other flags width precision c lfmt args =
     (let left = CHR ''-'' \<in> set flags; cntl = CHR ''#'' \<in> set flags in
      if c = CHR ''S'' then
        (case args of AStr x # as \<Rightarrow> Some ([(True, print_expand x left cntl width precision)], as) | _ \<Rightarrow> None)
      else if c = CHR ''C'' then
        (case args of
           AInt n # as \<Rightarrow> Some ([(True, print_expand (cstr [char_of (nat (n mod 256))]) left cntl width precision)], as)
         | _ \<Rightarrow> None)
      else if c \<in> set ''psfegcdiouXx'' then
        (case args of a # as \<Rightarrow> map_option (\<lambda>x. ([(True, x)], as)) (fprintf1 other lfmt a) | _ \<Rightarrow> None)
      else Some ([(False, lfmt)], args))"

text \<open>What follows a percent sign that is not doubled: the pieces, the rest of the format, the arguments left.\<close>

definition directive :: "(string \<Rightarrow> carg \<Rightarrow> string) \<Rightarrow> string \<Rightarrow> carg list \<Rightarrow> (pieces_out \<times> string \<times> carg list) option" where
  "directive other s args = (case scan_flags 7 s of
     None \<Rightarrow> None
   | Some (flags, s1) \<Rightarrow> (case scan_size (1 + length flags) s1 args of
       None \<Rightarrow> None
     | Some (width, wt, s2, args2) \<Rightarrow>
         (let (dot, s3) = (if s2 \<noteq> [] \<and> hd s2 = CHR ''.'' then (''.'', tl s2) else ([], s2)) in
          case scan_size (1 + length flags + length wt + length dot) s3 args2 of
            None \<Rightarrow> None
          | Some (precision, pt, s4, args3) \<Rightarrow>
              (let (dw, s5) = (if s4 \<noteq> [] \<and> (hd s4 = CHR ''h'' \<or> hd s4 = CHR ''l'') then ([hd s4], tl s4) else ([], s4)) in
               case s5 of
                 [] \<Rightarrow> None
               | c # s6 \<Rightarrow> map_option (\<lambda>(x, as). (x, s6, as))
                   (convert other flags width precision c (CHR ''%'' # flags @ wt @ dot @ pt @ dw @ [c]) args3)))))"

lemma scan_flags_rest: "scan_flags k s = Some (a, b) \<Longrightarrow> length b \<le> length s"
  by (induction k s arbitrary: a b rule: scan_flags.induct) (auto split: if_splits)

lemma scan_digits_rest: "scan_digits k s = (a, b) \<Longrightarrow> length b \<le> length s"
  by (induction k s arbitrary: a b rule: scan_digits.induct) (auto split: if_splits prod.splits)

lemma scan_size_rest: "scan_size i s as = Some (n, t, b, as') \<Longrightarrow> length b \<le> length s"
  by (auto simp: scan_size_def Let_def split: list.splits if_splits carg.splits prod.splits dest: scan_digits_rest)

lemma directive_rest:
  assumes "directive other s args = Some (x, b, as)"
  shows "length b < length s"
proof -
  obtain fl s1 w wt s2 a2 dot s3 p pt s4 a3 dw s5 c where st: "scan_flags 7 s = Some (fl, s1)"
    "scan_size (1 + length fl) s1 args = Some (w, wt, s2, a2)"
    "(dot, s3) = (if s2 \<noteq> [] \<and> hd s2 = CHR ''.'' then (''.'', tl s2) else ([], s2))"
    "scan_size (1 + length fl + length wt + length dot) s3 a2 = Some (p, pt, s4, a3)"
    "(dw, s5) = (if s4 \<noteq> [] \<and> (hd s4 = CHR ''h'' \<or> hd s4 = CHR ''l'') then ([hd s4], tl s4) else ([], s4))" "s5 = c # b"
    using assms by (auto simp: directive_def split: option.splits prod.splits list.splits)
  have "length s1 \<le> length s" "length s2 \<le> length s1" "length s4 \<le> length s3"
    using st(1,2,4) by (blast intro: scan_flags_rest scan_size_rest)+
  moreover have "length s3 \<le> length s2" "length s5 \<le> length s4" using st(3,5) by (auto split: if_splits)
  ultimately show ?thesis using st(6) by simp
qed

function vcgifprintf :: "(string \<Rightarrow> carg \<Rightarrow> string) \<Rightarrow> string \<Rightarrow> carg list \<Rightarrow> (pieces_out \<times> carg list) option" where
  "vcgifprintf other [] args = Some ([], args)"
| "vcgifprintf other (c # s) args =
     (if c \<noteq> CHR ''%'' then map_option (\<lambda>(x, as). ((True, [c]) # x, as)) (vcgifprintf other s args)
      else if s \<noteq> [] \<and> hd s = CHR ''%'' then map_option (\<lambda>(x, as). ((True, ''%'') # x, as)) (vcgifprintf other (tl s) args)
      else case directive other s args of
        None \<Rightarrow> None
      | Some (x, b, as) \<Rightarrow> map_option (\<lambda>(y, as'). (x @ y, as')) (vcgifprintf other b as))"
  by pat_completeness auto
termination
  by (relation "measure (\<lambda>(other, s, args). length s)") (auto dest: directive_rest)

section \<open>Globals\<close>

text \<open>
  What the program calls in the account library of the system, in the order of the calls. The library is
  not in the repository; only that and with what it is called is kept.
\<close>

datatype lib_call = ReadConfig | SetLock | UnLock | NotThisOne int int | SetUserDir | AddUser | FwrtUsr

record wnu = formq +
  reject :: int
  loginid :: "ptr option"
  userpass :: "ptr option"
  full_name :: "ptr option"
  shell_name :: "ptr option"
  editor_name :: "ptr option"
  terminal :: "ptr option"
  birthdate :: "ptr option"
  email :: "ptr option"
  occupation :: "ptr option"
  interests :: "ptr option"
  computers :: "ptr option"
  how :: "ptr option"
  address :: "ptr option"
  telephone :: "ptr option"
  sex :: string
  paranoid :: bool
  shellpath :: string
  edpath :: string
  bang :: string
  keyval :: string
  norm_keys :: string
  good_login :: bool
  cpt_pass :: string
  wnulog :: string
  log_fwrt :: bool
  calls :: "lib_call list"

type_synonym 'a wnup = "('a, wnu) prog"

text \<open>
  The system: names of the program, what opening a file for reading gives, whether the log can be opened,
  the clock's text, the environment of the server, and what an uninitialised pointer in \<open>log_error\<close> holds
  (whether it is NULL).
\<close>

record err_env = form_env +
  system_name :: string
  wnu_log :: string
  log_opens :: bool
  now_text :: string
  real_env :: "string \<Rightarrow> string option"
  rmdir_on_error :: "(string \<times> bool) option"
  var_is_null :: bool
  other_format :: "string \<Rightarrow> carg \<Rightarrow> string"

definition call :: "lib_call \<Rightarrow> unit wnup" where
  "call c = upd (\<lambda>s. s\<lparr>calls := calls s @ [c]\<rparr>)"

section \<open>Errors\<close>

definition USER :: int where "USER = 1"
definition SYSTEM :: int where "SYSTEM = 2"
definition HOSTILE :: int where "HOSTILE = 4"

definition print_cgi_header :: "string \<Rightarrow> unit wnup" where
  "print_cgi_header t = sq (puts ''Content-type: text/html\<newline>\<newline>'')
     (sq (puts (''<HTML><HEAD>\<newline><TITLE>'' @ t @ ''</TITLE>\<newline></HEAD><BODY>\<newline>'')) (puts (''<H1>'' @ t @ ''</H1>\<newline>'')))"

definition print_cgi_trailer :: "unit wnup" where
  "print_cgi_trailer = puts ''</BODY></HTML>\<newline>''"

definition vcgiprintf :: "'x err_env_scheme \<Rightarrow> string \<Rightarrow> carg list \<Rightarrow> carg list wnup" where
  "vcgiprintf e fmt args = (case vcgifprintf (other_format e) fmt args of
     None \<Rightarrow> undef
   | Some (x, as) \<Rightarrow> sq (puts (concat (map snd x))) (ret as))"

definition cgiprintf :: "'x err_env_scheme \<Rightarrow> string \<Rightarrow> carg list \<Rightarrow> unit wnup" where
  "cgiprintf e fmt args = sq (vcgiprintf e fmt args) (ret ())"

definition log_text :: "string \<Rightarrow> unit wnup" where
  "log_text x = upd (\<lambda>s. s\<lparr>wnulog := wnulog s @ x\<rparr>)"

text \<open>
  The part of \<open>err\<close> that writes the page, up to the new value of \<open>reject\<close>. A \<open>va_list\<close> is the list of
  arguments not yet read; what is left of it goes on to the log.
\<close>

definition err_page :: "'x err_env_scheme \<Rightarrow> int \<Rightarrow> string \<Rightarrow> carg list \<Rightarrow> carg list wnup" where
  "err_page e ty fmt args = bnd (gets reject) (\<lambda>r.
     sq (whenP (r = 0)
       (sq (print_cgi_header (if ty AND SYSTEM \<noteq> 0 then ''Error in Account Creation'' else ''Error in Newuser Application''))
       (sq (puts (''Your application for an account on '' @ system_name e @ '' has not been processed due to\<newline>''))
       (sq (puts (if ty AND SYSTEM \<noteq> 0 then ''a system problem.\<newline>'' else ''an error in your application.\<newline>''))
         (puts ''<UL>\<newline>'')))))
     (sq (puts ''<P><LI>\<newline>'')
     (bnd (vcgiprintf e fmt args) (\<lambda>as.
       sq (upd (\<lambda>s. s\<lparr>reject := reject s OR ty\<rparr>)) (ret as)))))"

definition env_line :: "'x err_env_scheme \<Rightarrow> string \<Rightarrow> string" where
  "env_line e n = n @ ''='' @ (case real_env e n of None \<Rightarrow> [] | Some v \<Rightarrow> v) @ ''\<newline>''"

fun tabbed :: "string \<Rightarrow> string" where
  "tabbed [] = []"
| "tabbed (c # cs) = (if c = NL \<and> cs \<noteq> [] then [NL, TAB] else [c]) @ tabbed cs"

text \<open>
  A value in the log. The test of the character before its end reads in front of an empty value, which is
  outside its block for the constant.
\<close>

definition log_value :: "ptr \<Rightarrow> string \<Rightarrow> unit wnup" where
  "log_value p v = sq (log_text (tabbed v))
     (if v = [] then
        if snd p = 0 then undef
        else bnd (gets (\<lambda>s. mem_at (block_at s (fst p)) (snd p - 1))) (\<lambda>c. case c of
          None \<Rightarrow> undef | Some c \<Rightarrow> whenP (c \<noteq> NL) (log_text ''\<newline>''))
      else whenP (last v \<noteq> NL) (log_text ''\<newline>''))"

text \<open>The \<open>do\<close> loop from one entry on; \<open>nextvar\<close> ends it. With no entry at all it prints an unset pointer.\<close>

fun log_fields :: "nat \<Rightarrow> (ptr \<times> ptr) option \<Rightarrow> unit wnup" where
  "log_fields n None = undef"
| "log_fields 0 (Some (var, v)) = (\<lambda>s. (NoFuel, s))"
| "log_fields (Suc n) (Some (var, v)) = bnd (deref var) (\<lambda>name.
     sq (log_text (name @ ''=''))
     (sq (if strncmp name ''passwd'' 6 = 0 then log_text ''(suppressed)\<newline>'' else bnd (deref v) (log_value v))
     (bnd nextvar (\<lambda>r. case r of None \<Rightarrow> ret () | Some _ \<Rightarrow> log_fields n r))))"

definition log_error :: "'x err_env_scheme \<Rightarrow> int \<Rightarrow> string \<Rightarrow> carg list \<Rightarrow> unit wnup" where
  "log_error e who fmt args = (if \<not> log_opens e then sq (err_page e 0 ''Cannot open %s\<newline>'' [AStr (wnu_log e)]) undef
     else sq (log_text (''===== '' @ (if who = USER then ''Hostile User'' else ''System'') @ '' Error at '' @ take 24 (pad_left 24 (now_text e)) @ '' =====\<newline>''))
     (case vcgifprintf (other_format e) fmt args of
        None \<Rightarrow> undef
      | Some (x, _) \<Rightarrow>
          sq (log_text (concat (map snd (filter fst x))))
          (sq (puts (concat (map snd (filter (\<lambda>p. \<not> fst p) x))))
          (sq (log_text (concat (map (env_line e) [''REMOTE_HOST'', ''REMOTE_ADDR'', ''REMOTE_USER'', ''REQUEST_METHOD'', ''HTTP_USER_AGENT''])))
          (bnd (gets log_fwrt) (\<lambda>b.
             if b then call FwrtUsr
             else if var_is_null e then ret ()
             else bnd (gets (length \<circ> entries)) (\<lambda>n. bnd firstvar (log_fields n))))))))"

definition end_err :: "unit wnup" where
  "end_err = bnd (gets reject) (\<lambda>r. sq (puts ''</UL>\<newline>'')
     (sq (if r AND SYSTEM \<noteq> 0
          then puts ''Sorry.  This system error has been logged and will be addressed by our staff.\<newline>Please, try again later.\<newline>''
          else sq (puts ''Please go back to the application form, correct it, and submit it again.\<newline>'')
            (whenP (r AND HOSTILE \<noteq> 0) (puts ''A record of this error has been logged for our staff.\<newline>'')))
       print_cgi_trailer))"

definition err :: "'x err_env_scheme \<Rightarrow> int \<Rightarrow> string \<Rightarrow> carg list \<Rightarrow> unit wnup" where
  "err e ty fmt args s = bnd (err_page e ty fmt args) (\<lambda>as.
     if ty AND SYSTEM \<noteq> 0 then
       sq (call UnLock)
       (sq (case rmdir_on_error e of
            Some (d, False) \<Rightarrow> sq (err_page e 0 ''Cannot remove directory %S after failure.\<newline>'' [AStr d]) (ret ())
          | _ \<Rightarrow> ret ())
       (sq (log_error e SYSTEM fmt as)
       (sq end_err (exit_prog 1))))
     else whenP (ty AND HOSTILE \<noteq> 0) (log_error e USER fmt as)) s"

lemmas err_unfold = err_def [abs_def]

end
