(* ===== verification/WnuCheck.thy ===== *)
theory WnuCheck
  imports WnuPage
begin

unbundle bit_operations_syntax

text \<open>
  The checks of single fields of an application, \<open>wnu-keys.c\<close> and \<open>wnu-getu.c\<close> of \<open>soft/apps/ownu\<close>, and
  the cleaning of paragraphs.
\<close>

text \<open>
  The account library and the terminal database: the lists of shells and editors with the search in their
  keywords, and what \<open>tgetent\<close> returns.
\<close>

record flist =
  fl_keys :: "string list"
  fl_many :: int
  fl_name :: "int \<Rightarrow> string"
  fl_towhat :: "int \<Rightarrow> string"
  fl_bang :: "int \<Rightarrow> string"

record check_env = err_env +
  kwscan :: "string \<Rightarrow> string list \<Rightarrow> int"
  sh :: flist
  ed :: flist
  tgetent :: "string \<Rightarrow> int"


definition isalpha :: "char \<Rightarrow> bool" where "isalpha c \<longleftrightarrow> islower c \<or> isupper c"

text \<open>A character as an argument of a format: the machines have signed characters.\<close>

definition AChr :: "char \<Rightarrow> carg" where
  "AChr c = AInt (if byte c < 128 then int (byte c) else int (byte c) - 256)"

text \<open>Writing bytes from a pointer on.\<close>

definition poke :: "ptr \<Rightarrow> string \<Rightarrow> unit wnup" where
  "poke p x = upd (\<lambda>s. s\<lparr>blocks := (blocks s)[fst p := take (snd p) (block_at s (fst p)) @ x @ drop (snd p + length x) (block_at s (fst p))]\<rparr>)"

section \<open>Control keys\<close>

abbreviation MERASE :: nat where "MERASE \<equiv> 0"
abbreviation MINTR :: nat where "MINTR \<equiv> 1"
abbreviation MKILL :: nat where "MKILL \<equiv> 2"
abbreviation MEOF :: nat where "MEOF \<equiv> 3"

definition cntl :: "char \<Rightarrow> char" where "cntl c = char_of (byte c - 64)"

definition default_keys :: string where
  "default_keys = [cntl CHR ''H'', cntl CHR ''C'', cntl CHR ''X'', cntl CHR ''D'']"

text \<open>The globals when the program starts; pointers not initialised by the code are NULL.\<close>

definition wnu_start :: "string \<Rightarrow> wnu" where
  "wnu_start i = \<lparr>tin = i, tout = [], blocks = [[NUL], [NUL]], entries = [], curr = [], reject = 0, loginid = None, userpass = None,
     full_name = None, shell_name = None, editor_name = None, terminal = None, birthdate = None, email = None, occupation = None,
     interests = None, computers = None, how = None, address = None, telephone = None, sex = [], paranoid = False, shellpath = [],
     edpath = [], bang = [], keyval = default_keys, norm_keys = [], good_login = False, cpt_pass = [], wnulog = [], log_fwrt = False,
     calls = []\<rparr>"

definition kname :: "nat \<Rightarrow> string" where
  "kname k = [''erase'', ''interupt'', ''kill'', ''end-of-file''] ! k"

definition reserved_key :: "char \<Rightarrow> nat \<Rightarrow> string option" where
  "reserved_key c key = (if c = CR then Some ''the return character''
     else if c = NL then Some ''the newline character''
     else if c = TAB then Some ''the tab character''
     else if c = cntl CHR ''Z'' then Some ''job control (suspend)''
     else if c = cntl CHR ''Y'' then Some ''job control (delayed suspend)''
     else if c = cntl CHR ''W'' then Some ''word erase''
     else if c = cntl CHR ''R'' then Some ''text redisplay''
     else if c = cntl CHR ''O'' then Some ''flushing output''
     else if c = cntl CHR ''V'' then Some ''the literal next character''
     else if c = cntl CHR ''Q'' then Some ''flow control (start)''
     else if c = cntl CHR ''S'' then Some ''flow control (stop)''
     else if c = cntl CHR ''['' then Some ''the VI mode delimiter / function key input''
     else if c = cntl CHR 0x5C then Some ''the quit character''
     else if c = cntl CHR ''D'' then (if key = MEOF then None else Some ''the eof character'')
     else None)"

definition set_key :: "nat \<Rightarrow> char \<Rightarrow> unit wnup" where
  "set_key key c = upd (\<lambda>s. s\<lparr>keyval := (keyval s)[key := c]\<rparr>)"

definition test_reserved :: "'x err_env_scheme \<Rightarrow> nat \<Rightarrow> unit wnup" where
  "test_reserved e key = bnd (gets (\<lambda>s. keyval s ! key)) (\<lambda>c. case reserved_key c key of
     None \<Rightarrow> ret ()
   | Some res \<Rightarrow> err e (USER OR HOSTILE) ''You have selected an illegal %s-key value.\<newline>The %#C character is reserved for %s.\<newline>''
       [AStr (kname key), AChr c, AStr res])"

text \<open>The test for \<open>^\<close> notation reads the third byte, which lies behind the string \<open>^\<close>.\<close>

definition check_key :: "'x err_env_scheme \<Rightarrow> ptr \<Rightarrow> nat \<Rightarrow> unit wnup" where
  "check_key e p key = bnd (deref p) (\<lambda>v. bnd (gets (\<lambda>s. mem_at (block_at s (fst p)) (snd p + 2))) (\<lambda>third.
     case v of
       [] \<Rightarrow> ret ()
     | c # w \<Rightarrow>
         if c = CHR ''^'' \<and> w = [] \<and> third = None then undef
         else if c = CHR ''^'' \<and> length w = 1 \<and> (isalpha (hd w) \<or> hd w = CHR ''?'') then
           sq (set_key key (if hd w = CHR ''?'' then CHR 0x7F
               else char_of (byte (hd w) - (if isupper (hd w) then 64 else 96)))) (test_reserved e key)
         else if w \<noteq> [] \<or> \<not> isascii c then
           err e (USER OR HOSTILE) ''Unrecognizable %s-key value (<KBD>%#S</KBD>).\<newline>Use <KBD>^C</KBD> notation for control-characters.\<newline>''
             [AStr (kname key), AStr v]
         else if isprint c then err e (USER OR HOSTILE) ''Your %s-key should be a control-character.\<newline>'' [AStr (kname key)]
         else sq (set_key key c) (test_reserved e key)))"

definition check_backspace :: "'x err_env_scheme \<Rightarrow> ptr \<Rightarrow> ptr option wnup" where
  "check_backspace e p = sq (check_key e p MERASE) (ret (Some p))"

definition check_interupt :: "'x err_env_scheme \<Rightarrow> ptr \<Rightarrow> ptr option wnup" where
  "check_interupt e p = sq (check_key e p MINTR) (ret (Some p))"

definition check_kill :: "'x err_env_scheme \<Rightarrow> ptr \<Rightarrow> ptr option wnup" where
  "check_kill e p = sq (check_key e p MKILL) (ret (Some p))"

definition check_eof :: "'x err_env_scheme \<Rightarrow> ptr \<Rightarrow> ptr option wnup" where
  "check_eof e p = sq (check_key e p MEOF) (ret (Some p))"

text \<open>The pairs of the double loop in its order; the first one that clashes is reported.\<close>

definition key_pairs :: "(nat \<times> nat) list" where
  "key_pairs = concat (map (\<lambda>i. map (Pair i) [i + 1..<4]) [0..<3])"

definition final_key_check :: "'x err_env_scheme \<Rightarrow> unit wnup" where
  "final_key_check e = bnd (gets keyval) (\<lambda>k. case find (\<lambda>(i, j). k ! i = k ! j) key_pairs of
     Some (i, j) \<Rightarrow> err e USER ''You have set both your %s key and your %s key to <KBD>%#C</KBD>.  Set one to something else.\<newline>''
       [AStr (kname i), AStr (kname j), AChr (k ! i)]
   | None \<Rightarrow> upd (\<lambda>s. s\<lparr>norm_keys := keyval s\<rparr>))"

section \<open>Names, shells and terminals\<close>

definition MINREALNAME :: int where "MINREALNAME = 3"

definition badchars :: string where
  "badchars = '':'' @ CHR 0x5C # CHR ''!'' # CHR 0x27 # [CHR 0x22]"

text \<open>The loop over the characters of the name, which reports the first bad one and maps tabs.\<close>

fun name_chars :: "'x err_env_scheme \<Rightarrow> ptr \<Rightarrow> bool \<Rightarrow> string \<Rightarrow> unit wnup" where
  "name_chars e p ebc [] = ret ()"
| "name_chars e p ebc (c # cs) = (let d = (if c = TAB then SPC else c); bad = (\<not> ebc \<and> (\<not> isascii d \<or> \<not> isprint d \<or> d \<in> set badchars)) in
     sq (whenP (c = TAB) (poke p [SPC]))
     (sq (whenP bad (err e (if d = CHR '':'' then HOSTILE OR USER else USER)
            ''No <KBD>%#C</KBD> characters are permitted in your <STRONG>Full Name</STRONG> field.\<newline>'' [AChr d]))
       (name_chars e (fst p, Suc (snd p)) (ebc \<or> bad) cs)))"

text \<open>The loop back over trailing spaces, from offset \<open>o1\<close>; \<open>None\<close> in front of the block.\<close>

fun trail_from :: "string \<Rightarrow> nat \<Rightarrow> nat option" where
  "trail_from m 0 = None"
| "trail_from m (Suc i) = (if mem_at m i = Some SPC then trail_from m i else Some (Suc i))"

definition name_length :: "'x err_env_scheme \<Rightarrow> int \<Rightarrow> string \<Rightarrow> unit wnup" where
  "name_length e len w = (if len = 0 then err e USER ''You did not fill in the <STRONG>Full Name</STRONG> field.\<newline>'' []
     else if len < MINREALNAME then err e USER ''The <STRONG>Full Name</STRONG> you gave (<KBD>%#S</KBD>) is too short.\<newline>'' [AStr w]
     else if 40 < len then err e USER ''The <STRONG>Full Name</STRONG> you gave (<KBD>%.30S...</KBD>) is too long.\<newline>'' [AStr w]
     else ret ())"

text \<open>What follows the loop over the \<open>n\<close> characters from \<open>p\<close> on.\<close>

definition name_end :: "'x err_env_scheme \<Rightarrow> ptr \<Rightarrow> nat \<Rightarrow> unit wnup" where
  "name_end e p n = bnd (gets (\<lambda>s. trail_from (block_at s (fst p)) (snd p + n))) (\<lambda>r. case r of
     None \<Rightarrow> undef
   | Some q \<Rightarrow> sq (poke (fst p, q) [NUL]) (bnd (deref p) (name_length e (int q - int (snd p)))))"

definition check_fullname :: "'x err_env_scheme \<Rightarrow> ptr \<Rightarrow> ptr option wnup" where
  "check_fullname e p0 = bnd (deref p0) (\<lambda>v0.
     let n = firstout_len v0 [SPC, TAB]; p = (fst p0, snd p0 + n); v = drop n v0 in
     sq (name_chars e p False v) (sq (name_end e p (length v)) (ret (Some p))))"

definition possible_values :: "flist \<Rightarrow> string" where
  "possible_values fl = concat (map (\<lambda>i. '' '' @ fl_name fl i @ (if i \<noteq> fl_many fl then '','' else [])
     @ (if i = fl_many fl - 1 then ''</KBD> or<KBD>'' else [])) [1..fl_many fl])"

definition check_flist :: "'x check_env_scheme \<Rightarrow> ptr \<Rightarrow> string \<Rightarrow> flist \<Rightarrow> int wnup" where
  "check_flist e p what fl = bnd (deref p) (\<lambda>v. let i = kwscan e v (fl_keys fl) in
     if i = 0 then
       sq (err e (USER OR HOSTILE) ''Illegal value selected for %s.\<newline>'' [AStr what])
       (sq (puts (''Possible values are<KBD>'' @ possible_values fl @ ''.</KBD>\<newline>'')) (ret (-1)))
     else ret (i - 1))"

definition check_shell :: "'x check_env_scheme \<Rightarrow> ptr \<Rightarrow> ptr option wnup" where
  "check_shell e p = bnd (check_flist e p ''shell'' (sh e)) (\<lambda>i.
     sq (whenP (0 \<le> i) (upd (\<lambda>s. s\<lparr>shellpath := fl_towhat (sh e) i, bang := fl_bang (sh e) i\<rparr>))) (ret (Some p)))"

definition check_editor :: "'x check_env_scheme \<Rightarrow> ptr \<Rightarrow> ptr option wnup" where
  "check_editor e p = bnd (check_flist e p ''editor'' (ed e)) (\<lambda>i.
     sq (whenP (0 \<le> i) (upd (\<lambda>s. s\<lparr>edpath := fl_towhat (ed e) i\<rparr>))) (ret (Some p)))"

definition no_terminal :: "bool \<Rightarrow> string" where
  "no_terminal is_other = (if is_other
     then ''You selected the 'other' option for <STRONG>Default Terminal Type</STRONG>,\<newline>but didn't give a name for your terminal.\<newline>''
     else ''No <STRONG>Default Terminal Type</STRONG> was specified.\<newline>'')"

definition check_terminal :: "'x check_env_scheme \<Rightarrow> ptr \<Rightarrow> ptr option wnup" where
  "check_terminal e p0 = bnd (deref p0) (\<lambda>v0. let is_other = (v0 = ''other'') in
     bnd (if is_other then getvar ''otherterm'' else ret (Some p0)) (\<lambda>r. case r of
       None \<Rightarrow> sq (err e USER (no_terminal is_other) []) (ret None)
     | Some p \<Rightarrow> bnd (deref p) (\<lambda>v.
         if v = [] then sq (err e USER (no_terminal is_other) []) (ret (Some p))
         else if v \<noteq> ''ansi'' \<and> v \<noteq> ''vt100'' \<and> tgetent e v \<le> 0
         then sq (err e (if is_other then USER else HOSTILE OR USER)
             ''The <STRONG>Terminal Type</STRONG> you gave (%#S) is unknown to %s.\<newline>'' [AStr v, AStr (system_name e)]) (ret (Some p))
         else sq (upd (\<lambda>s. s\<lparr>terminal := Some p\<rparr>)) (ret (Some p)))))"

definition set_paranoia :: "ptr \<Rightarrow> ptr option wnup" where
  "set_paranoia p = bnd (deref p) (\<lambda>v. sq (upd (\<lambda>s. s\<lparr>paranoid := (v \<noteq> [] \<and> hd v \<in> set ''yY'')\<rparr>)) (ret (Some p)))"

definition set_sex :: "ptr \<Rightarrow> ptr option wnup" where
  "set_sex p = bnd (deref p) (\<lambda>v0. let n = firstout_len v0 '' ''; v = drop n v0 in
     sq (upd (\<lambda>s. s\<lparr>sex := (if v \<noteq> [] \<and> hd v \<in> set ''mM'' then ''Male'' else if v \<noteq> [] \<and> hd v \<in> set ''fF'' then ''Female'' else [])\<rparr>))
       (ret (Some (fst p, snd p + n))))"

section \<open>Paragraphs\<close>

abbreviation MAXCOL :: int where "MAXCOL \<equiv> 71"
abbreviation MINCOL :: int where "MINCOL \<equiv> 48"

text \<open>
  The variables of \<open>wrap_text\<close>: the text, \<open>col\<close>, \<open>last_space\<close> as an index, and \<open>have_wrapped\<close>. At index \<open>i\<close>
  a line that is too long is broken at its last space; then the character there is looked at.
\<close>

type_synonym wrapper = "string \<times> int \<times> nat option \<times> bool"

definition wrap_break :: "nat \<Rightarrow> wrapper \<Rightarrow> wrapper" where
  "wrap_break i x = (case x of (s, col, sp, hw) \<Rightarrow> (case sp of
     Some j \<Rightarrow> if MAXCOL < col \<and> s ! i \<noteq> NL then (s[j := NL], int i - int j, None, True) else x
   | None \<Rightarrow> x))"

definition wrap_char :: "nat \<Rightarrow> wrapper \<Rightarrow> wrapper" where
  "wrap_char i x = (case x of (s, col, sp, hw) \<Rightarrow>
     let c = s ! i; nx = (if Suc i < length s then s ! Suc i else NUL) in
     if c = NL then
       (if hw \<and> col < MINCOL \<and> nx \<noteq> NL \<and> nx \<noteq> SPC \<and> nx \<noteq> NUL then (s[i := SPC], col + 1, Some i, hw)
        else (s, 0, None, False))
     else if c = TAB \<or> c = SPC then
       (if MAXCOL < col then (s[i := NL], 0, None, hw) else (s[i := SPC], col + 1, Some i, hw))
     else (s, col + 1, sp, hw))"

text \<open>The loop with \<open>n\<close> characters to go.\<close>

fun wrap_from :: "nat \<Rightarrow> nat \<Rightarrow> wrapper \<Rightarrow> string" where
  "wrap_from 0 i x = fst x"
| "wrap_from (Suc n) i x = wrap_from n (Suc i) (wrap_char i (wrap_break i x))"

definition wrap_text :: "string \<Rightarrow> string" where
  "wrap_text s = wrap_from (length s) 0 (s, 0, None, False)"

text \<open>
  The second pass of \<open>clean_text\<close>: where the text starts, and where the pointer stands when the string ended
  first.
\<close>

fun lead_blank :: "nat \<Rightarrow> nat \<Rightarrow> string \<Rightarrow> nat \<times> nat option" where
  "lead_blank i start [] = (start, Some (Suc i))"
| "lead_blank i start (c # cs) =
     (if isspace c then lead_blank (Suc i) (if c = NL then Suc i else start) cs else (start, None))"

definition clean_text :: "ptr \<Rightarrow> ptr option wnup" where
  "clean_text p = bnd (deref p) (\<lambda>v.
     let f = filter (\<lambda>c. c \<noteq> CR) v; (start, over) = lead_blank 0 0 f in
     sq (poke p (f @ [NUL]))
     (case over of
        Some i \<Rightarrow> ret (Some (fst p, snd p + i))
      | None \<Rightarrow>
          let body = rev (dropWhile isspace (rev f)); w = take start body @ wrap_text (drop start (body @ [NL])) @ [NUL] in
          if length body < length v then sq (poke p w) (ret (Some (fst p, snd p + start)))
          else bnd (gets (\<lambda>s. length (blocks s))) (\<lambda>b.
            sq (upd (\<lambda>s. s\<lparr>blocks := blocks s @ [w]\<rparr>)) (ret (Some (b, start))))))"

end
