(* ===== verification/WnuLogin.thy ===== *)
theory WnuLogin
  imports WnuCheck
begin

unbundle bit_operations_syntax

text \<open>
  Logins and passwords (\<open>wnu-login.c\<close>), the table of fields (\<open>wnu-getu.c\<close>) and the program (\<open>wnu-main.c\<close>) of
  \<open>soft/apps/ownu\<close>.
\<close>

text \<open>
  The system: files that can be read, the directory of users with what \<open>stat\<close> gives for its entries, and the
  functions of the account library. \<open>noval\<close> is what a caller finds where \<open>check_passwd\<close> leaves without
  a value; the library's own ends are the messages it gives to \<open>die\<close>.
\<close>

record dirent =
  d_ino :: int
  d_name :: string
  d_stat :: "(int \<times> int) option"

record wnu_env = check_env +
  noval :: "ptr option"
  crypt :: "string \<Rightarrow> string \<Rightarrow> string"
  mkpasswd :: "string \<Rightarrow> string"
  isalias :: "string \<Rightarrow> int"
  rpwd :: string
  passwd :: string
  file_text :: "string \<Rightarrow> string option"
  maxstring :: nat
  getpwnam :: "string \<Rightarrow> string option"
  checkdirs :: bool
  usr :: string
  usr_dir :: "dirent list option"
  can_access :: "string \<Rightarrow> bool"
  getuid :: int
  http_uid :: int
  nu_dir :: string
  chdir_works :: bool
  dev_null_opens :: bool
  config_dies :: "string option"
  add_user_dies :: "string option"
  welcome_html :: string

definition ETCPASSWD :: string where "ETCPASSWD = ''/etc/passwd''"

section \<open>Passwords\<close>

text \<open>The string a global leads to; a NULL global is not read.\<close>

definition global_str :: "(wnu \<Rightarrow> ptr option) \<Rightarrow> string wnup" where
  "global_str g = bnd (gets g) (\<lambda>r. case r of None \<Rightarrow> undef | Some p \<Rightarrow> deref p)"

definition same_as :: "(wnu \<Rightarrow> ptr option) \<Rightarrow> string \<Rightarrow> bool wnup" where
  "same_as g v = bnd (gets g) (\<lambda>r. case r of None \<Rightarrow> ret False | Some p \<Rightarrow> bnd (deref p) (\<lambda>x. ret (x = v)))"

fun passwd_chars :: "'x err_env_scheme \<Rightarrow> string \<Rightarrow> unit wnup" where
  "passwd_chars e [] = ret ()"
| "passwd_chars e (c # cs) = sq (whenP (\<not> isascii c \<or> \<not> isprint c \<or> c = NL \<or> c = CR)
     (err e USER ''Only standard ASCII characters are allowed in passwords\<newline>'' [])) (passwd_chars e cs)"

definition check_passwd :: "'x wnu_env_scheme \<Rightarrow> ptr \<Rightarrow> ptr option wnup" where
  "check_passwd e p = bnd (deref p) (\<lambda>v. bnd (gets userpass) (\<lambda>up.
     if up \<noteq> None then bnd (same_as userpass v) (\<lambda>same.
       sq (whenP (\<not> same) (err e USER ''The two copies of your password are not identical.\<newline>'' [])) (ret (noval e)))
     else if v = [] then sq (err e USER ''You did not fill in the <STRONG>Password</STRONG> field.\<newline>'' []) (ret (noval e))
     else if length v < 4 then sq (err e USER ''The password you selected is too short.\<newline>'' []) (ret (noval e))
     else
       sq (whenP (40 < length v) (err e (HOSTILE OR USER) ''The password you selected is too long.\<newline>'' []))
       (bnd (gets loginid) (\<lambda>lg. bnd (same_as loginid v) (\<lambda>same.
         sq (whenP (lg \<noteq> None \<and> (same \<or> v = ''password'')) (err e USER ''The password you selected is too obvious.\<newline>'' []))
         (sq (passwd_chars e v)
         (sq (upd (\<lambda>s. s\<lparr>cpt_pass := mkpasswd e v\<rparr>)) (ret (Some p)))))))))"

section \<open>The password files\<close>

record pwent =
  pw_name :: string
  pw_passwd :: string
  pw_uid :: int
  pw_gid :: int
  pw_gecos :: string
  pw_dir :: string
  pw_shell :: string

definition pwskip2 :: "string \<Rightarrow> char \<Rightarrow> string \<times> string" where
  "pwskip2 p c = (case split_at c p of None \<Rightarrow> (p, []) | Some r \<Rightarrow> r)"

text \<open>
  One line as \<open>gpwent\<close> takes it apart. The line end stays in the last field there is: the skip to it
  starts behind that field.
\<close>

definition gpwent :: "string \<Rightarrow> pwent" where
  "gpwent line = (let (name, p1) = pwskip2 line CHR '':''; (pw, p2) = pwskip2 p1 CHR '':'';
     (u, p3) = pwskip2 p2 CHR '':''; (g, p4) = pwskip2 p3 CHR '':'';
     (gecos, p5) = pwskip2 p4 CHR '':''; (dr, p6) = pwskip2 p5 CHR '':''; (sl, p7) = pwskip2 p6 CHR '':'' in
     \<lparr>pw_name = name, pw_passwd = pw, pw_uid = atoi u, pw_gid = atoi g, pw_gecos = gecos, pw_dir = dr, pw_shell = sl\<rparr>)"

definition pwents :: "'x wnu_env_scheme \<Rightarrow> string \<Rightarrow> pwent list" where
  "pwents e text = map (gpwent \<circ> cstr) (pieces (maxstring e - 1) text)"

text \<open>
  The message for a file that does not open lacks its argument. \<open>crypt\<close> reads \<open>userpass\<close>, which is not set yet
  when the login is checked.
\<close>

definition check_reserved :: "'x wnu_env_scheme \<Rightarrow> string \<Rightarrow> unit wnup" where
  "check_reserved e lid = (case file_text e (rpwd e) of
     None \<Rightarrow> err e SYSTEM ''Cannot open the reserved login file (%S).\<newline>'' []
   | Some text \<Rightarrow> (case find (\<lambda>w. pw_name w = lid) (pwents e text) of
       None \<Rightarrow> ret ()
     | Some w \<Rightarrow> bnd (global_str userpass) (\<lambda>u.
         if crypt e u (pw_passwd w) \<noteq> pw_passwd w
         then bnd (global_str loginid) (\<lambda>l. err e USER
           (''The <STRONG>Login ID</STRONG> <KBD>%S</KBD> has been reserved for %S,\<newline>but the <STRONG>Password</STRONG> that ''
             @ ''you selected is not the correct one.\<newline>Either give the correct password, or choose another login ID.\<newline>'')
           [AStr l, AStr (pw_gecos w)])
         else ret ())))"

section \<open>Logins\<close>

fun login_chars :: "'x err_env_scheme \<Rightarrow> string \<Rightarrow> string \<Rightarrow> unit wnup" where
  "login_chars e v [] = ret ()"
| "login_chars e v (c # cs) = (if \<not> isascii c \<or> \<not> isdigit c \<and> \<not> islower c
     then err e (if c = CHR '':'' then HOSTILE OR USER else USER)
       (''Your <STRONG>Login ID</STRONG> (<KBD>%#S</KBD>) contains the character '<KBD>%#C</KBD>'.\<newline>''
         @ ''Only digits and lower-case letters are allowed.\<newline>'') [AStr v, AChr c]
     else login_chars e v cs)"

text \<open>The checks of the login's form, and those of a login that is well formed.\<close>

definition login_format :: "'x wnu_env_scheme \<Rightarrow> string \<Rightarrow> unit wnup" where
  "login_format e v =
     sq (whenP (v \<noteq> [] \<and> isascii (hd v) \<and> isdigit (hd v)) (err e USER
       ''The first letter of your <STRONG>Login ID</STRONG> (<KBD>%#S</KBD>) must be a lower-case letter.\<newline>'' [AStr v]))
     (sq (login_chars e v v)
     (if v = [] then err e USER ''You did not fill in the <STRONG>Login ID</STRONG> field.\<newline>'' []
      else whenP (8 < length v) (err e USER
        ''The <STRONG>Login ID</STRONG> you gave (<KBD>%.20S</KBD>) contains more than 8 characters.\<newline>'' [AStr v])))"

definition bad_login :: "unit wnup" where
  "bad_login = upd (\<lambda>s. s\<lparr>good_login := False\<rparr>)"

definition login_use :: "'x wnu_env_scheme \<Rightarrow> string \<Rightarrow> unit wnup" where
  "login_use e v = bnd (gets userpass) (\<lambda>up. bnd (same_as userpass v) (\<lambda>same.
     sq (whenP (up \<noteq> None \<and> \<not> same) (err e USER ''The password you selected is too obvious.\<newline>'' []))
     (if v = ''root'' then
        sq (err e (USER OR HOSTILE) ''The <STRONG>Login ID</STRONG> <KBD>root</KBD> is not for the use of small children.\<newline>'' []) bad_login
      else if isalias e v = 0 then
        sq (err e USER ''The <STRONG>Login ID</STRONG> <KBD>%S</KBD> is in use as a mail alias.  Try something else.\<newline>'' [AStr v]) bad_login
      else whenP (rpwd e \<noteq> []) (check_reserved e v))))"

definition check_login :: "'x wnu_env_scheme \<Rightarrow> ptr \<Rightarrow> ptr option wnup" where
  "check_login e p = bnd (deref p) (\<lambda>v.
     sq (login_format e v)
     (sq (upd (\<lambda>s. s\<lparr>good_login := (reject s = 0)\<rparr>))
     (bnd (gets reject) (\<lambda>r. sq (whenP (r = 0) (login_use e v)) (ret (Some p))))))"

text \<open>The scan of a password file for a login, with every number in it noted.\<close>

fun pwd_scan :: "bool \<Rightarrow> string \<Rightarrow> pwent list \<Rightarrow> string option wnup" where
  "pwd_scan quick l [] = ret None"
| "pwd_scan quick l (w # ws) = sq (call (NotThisOne (pw_uid w) (pw_gid w)))
     (if \<not> quick \<and> pw_name w = l then ret (Some (pw_gecos w)) else pwd_scan quick l ws)"

text \<open>The result is the owner's name when the login is taken.\<close>

definition check_pwd :: "'x wnu_env_scheme \<Rightarrow> string \<Rightarrow> string option wnup" where
  "check_pwd e passfile = bnd (gets reject) (\<lambda>r. bnd (global_str loginid) (\<lambda>l.
     let quick = (r \<noteq> 0 \<or> passfile = ETCPASSWD) in
     if quick \<and> getpwnam e l \<noteq> None then ret (getpwnam e l)
     else if r = 0 then (case file_text e passfile of
         None \<Rightarrow> ret None
       | Some text \<Rightarrow> pwd_scan quick l (pwents e text))
     else ret None))"

text \<open>The path buffers have 80 bytes.\<close>

fun usr_scan :: "string \<Rightarrow> string \<Rightarrow> dirent list \<Rightarrow> bool wnup" where
  "usr_scan u l [] = ret True"
| "usr_scan u l (d # ds) = (if d_ino d = 0 then usr_scan u l ds
     else if 80 \<le> length (u @ ''/'' @ d_name d) then undef
     else sq (case d_stat d of Some (i, g) \<Rightarrow> call (NotThisOne i g) | None \<Rightarrow> ret ())
       (if d_name d = l then ret False else usr_scan u l ds))"

definition check_usr :: "'x wnu_env_scheme \<Rightarrow> bool wnup" where
  "check_usr e = (case usr_dir e of
     None \<Rightarrow> sq (err e SYSTEM ''Cannot open %s to check directories.\<newline>'' [AStr (usr e)]) undef
   | Some ds \<Rightarrow> bnd (global_str loginid) (\<lambda>l. usr_scan (usr e) l ds))"

definition dir_in_use :: "'x wnu_env_scheme \<Rightarrow> string \<Rightarrow> unit wnup" where
  "dir_in_use e l = err e USER
     ''The directory for the <STRONG>Login ID</STRONG> <KBD>%S</KBD> is already in use.\<newline>Try another ID.\<newline>'' [AStr l]"

definition quick_check_dir :: "'x wnu_env_scheme \<Rightarrow> bool wnup" where
  "quick_check_dir e = bnd (global_str loginid) (\<lambda>l. let nbuf = usr e @ ''/'' @ l in
     if 80 \<le> length nbuf then undef
     else if can_access e nbuf then sq (dir_in_use e l) (ret False)
     else ret True)"

text \<open>Who has the login already, by the password file and by \<open>/etc/passwd\<close> when that is another one.\<close>

definition taken_by :: "'x wnu_env_scheme \<Rightarrow> string option wnup" where
  "taken_by e = bnd (check_pwd e (passwd e)) (\<lambda>r.
     if r = None \<and> passwd e \<noteq> ETCPASSWD then check_pwd e ETCPASSWD else ret r)"

definition place_free :: "'x wnu_env_scheme \<Rightarrow> string option \<Rightarrow> bool wnup" where
  "place_free e by_whom = (case by_whom of
     Some who \<Rightarrow> bnd (global_str loginid) (\<lambda>l.
       sq (err e USER ''The <STRONG>Login ID</STRONG> <KBD>%S</KBD> is already in use by %#S.\<newline>'' [AStr l, AStr who]) (ret False))
   | None \<Rightarrow> sq (call SetUserDir) (bnd (if checkdirs e then check_usr e else quick_check_dir e) (\<lambda>ok.
       if ok then ret True else bnd (global_str loginid) (\<lambda>l. sq (dir_in_use e l) (ret False)))))"

definition final_login_check :: "'x wnu_env_scheme \<Rightarrow> unit wnup" where
  "final_login_check e = bnd (gets good_login) (\<lambda>good. whenP good
     (bnd (gets (\<lambda>s. reject s = 0)) (\<lambda>lockset.
     sq (whenP lockset (call SetLock))
     (bnd (taken_by e) (\<lambda>by_whom. bnd (place_free e by_whom) (\<lambda>ok.
       sq (upd (\<lambda>s. s\<lparr>good_login := ok\<rparr>)) (whenP (lockset \<and> \<not> ok) (call UnLock))))))))"

end
