(* ===== verification/WnuMain.thy ===== *)
theory WnuMain
  imports WnuLogin
begin

unbundle bit_operations_syntax

text \<open>
  The table of fields (\<open>wnu-getu.c\<close>) and the program (\<open>wnu-main.c\<close>) of \<open>soft/apps/ownu\<close>.
\<close>

section \<open>The fields of the form\<close>

record 'x uinfo =
  u_name :: string
  process :: "'x wnu_env_scheme \<Rightarrow> (ptr \<Rightarrow> ptr option wnup) option"
  storage :: "(ptr \<Rightarrow> wnu \<Rightarrow> wnu) option"

definition field :: "string \<Rightarrow> ('x wnu_env_scheme \<Rightarrow> ptr \<Rightarrow> ptr option wnup) \<Rightarrow> (ptr \<Rightarrow> wnu \<Rightarrow> wnu) option \<Rightarrow> 'x uinfo" where
  "field n f st = \<lparr>u_name = n, process = Some \<circ> f, storage = st\<rparr>"

definition plain_field :: "string \<Rightarrow> (ptr \<Rightarrow> wnu \<Rightarrow> wnu) \<Rightarrow> 'x uinfo" where
  "plain_field n st = \<lparr>u_name = n, process = (\<lambda>_. None), storage = Some st\<rparr>"

definition vartab :: "'x uinfo list" where
  "vartab = [
     field ''login'' check_login (Some (\<lambda>p s. s\<lparr>loginid := Some p\<rparr>)),
     field ''passwd1'' check_passwd (Some (\<lambda>p s. s\<lparr>userpass := Some p\<rparr>)),
     field ''passwd2'' check_passwd (Some (\<lambda>p s. s\<lparr>userpass := Some p\<rparr>)),
     field ''fname'' check_fullname (Some (\<lambda>p s. s\<lparr>full_name := Some p\<rparr>)),
     field ''shell'' check_shell (Some (\<lambda>p s. s\<lparr>shell_name := Some p\<rparr>)),
     field ''editor'' check_editor (Some (\<lambda>p s. s\<lparr>editor_name := Some p\<rparr>)),
     field ''term'' check_terminal None,
     field ''backspace'' check_backspace None,
     field ''interupt'' check_interupt None,
     field ''kill'' check_kill None,
     plain_field ''birth'' (\<lambda>p s. s\<lparr>birthdate := Some p\<rparr>),
     field ''sex'' (\<lambda>_. set_sex) None,
     field ''email'' (\<lambda>_. clean_text) (Some (\<lambda>p s. s\<lparr>email := Some p\<rparr>)),
     field ''occupation'' (\<lambda>_. clean_text) (Some (\<lambda>p s. s\<lparr>occupation := Some p\<rparr>)),
     field ''interests'' (\<lambda>_. clean_text) (Some (\<lambda>p s. s\<lparr>interests := Some p\<rparr>)),
     field ''computers'' (\<lambda>_. clean_text) (Some (\<lambda>p s. s\<lparr>computers := Some p\<rparr>)),
     field ''how'' (\<lambda>_. clean_text) (Some (\<lambda>p s. s\<lparr>how := Some p\<rparr>)),
     field ''address'' (\<lambda>_. clean_text) (Some (\<lambda>p s. s\<lparr>address := Some p\<rparr>)),
     plain_field ''telephone'' (\<lambda>p s. s\<lparr>telephone := Some p\<rparr>),
     field ''paranoid'' (\<lambda>_. set_paranoia) None]"

text \<open>One round of the loop, with the value found; a field the form lacks has the empty value \<open>nothing\<close>.\<close>

definition take_value :: "'x wnu_env_scheme \<Rightarrow> 'x uinfo \<Rightarrow> ptr \<Rightarrow> unit wnup" where
  "take_value e u p = bnd (deref p) (\<lambda>v.
     sq (whenP (4096 < length v) (err e USER ''Your %s value (<KBD>%#.25S...</KBD>) is much too long.\<newline>'' [AStr (u_name u), AStr v]))
     (bnd (case process u e of None \<Rightarrow> ret (Some p) | Some f \<Rightarrow> f p) (\<lambda>r.
       case r of None \<Rightarrow> ret ()
       | Some q \<Rightarrow> (case storage u of None \<Rightarrow> ret () | Some st \<Rightarrow> upd (st q)))))"

definition get_field :: "'x wnu_env_scheme \<Rightarrow> 'x uinfo \<Rightarrow> unit wnup" where
  "get_field e u = bnd (getvar (u_name u)) (\<lambda>r. take_value e u (case r of None \<Rightarrow> (0, 0) | Some p \<Rightarrow> p))"

fun get_fields :: "'x wnu_env_scheme \<Rightarrow> 'x uinfo list \<Rightarrow> unit wnup" where
  "get_fields e [] = ret ()"
| "get_fields e (u # us) = sq (get_field e u) (get_fields e us)"

definition wnu_get_user_info :: "'x wnu_env_scheme \<Rightarrow> string option \<Rightarrow> int wnup" where
  "wnu_get_user_info e query =
     sq (upd (\<lambda>s. s\<lparr>reject := 0\<rparr>))
     (sq (load_query query)
     (sq (upd (\<lambda>s. s\<lparr>loginid := None, userpass := None\<rparr>))
     (sq (get_fields e vartab)
     (sq (final_key_check e)
     (sq (final_login_check e) (gets reject))))))"

section \<open>The program\<close>

definition show_page :: "'x wnu_env_scheme \<Rightarrow> string \<Rightarrow> bool wnup" where
  "show_page e f = (case file_text e f of
     None \<Rightarrow> ret True
   | Some text \<Rightarrow> sq (puts (''Content-type: text/html\<newline>\<newline>'' @ text)) (ret False))"

text \<open>
  Between \<open>output_off\<close> and \<open>output_on\<close> nothing is printed; the library calls it surrounds do not print in the
  model. \<open>die\<close> turns the output on again.
\<close>

definition output_off :: "'x wnu_env_scheme \<Rightarrow> unit wnup" where
  "output_off e = whenP (\<not> dev_null_opens e) (err e SYSTEM ''Cannot open /dev/null'' [])"

definition die :: "'x wnu_env_scheme \<Rightarrow> string \<Rightarrow> unit wnup" where
  "die e m = err e SYSTEM ''%s\<newline>'' [AStr m]"

definition library :: "'x wnu_env_scheme \<Rightarrow> lib_call \<Rightarrow> string option \<Rightarrow> unit wnup" where
  "library e c d = sq (output_off e) (sq (call c) (case d of None \<Rightarrow> ret () | Some m \<Rightarrow> die e m))"

text \<open>Up to the form, which the program reads before its configuration.\<close>

definition wnu_begin :: "'x wnu_env_scheme \<Rightarrow> string option wnup" where
  "wnu_begin e =
     sq (whenP (getuid e \<noteq> http_uid e) (err e SYSTEM ''Run by uid %d instead of %d\<newline>'' [AInt (getuid e), AInt (http_uid e)]))
     (sq (whenP (\<not> chdir_works e) (err e SYSTEM (''Could not access directory '' @ nu_dir e @ ''\<newline>'') []))
     (bnd (get_query (form_env.truncate e)) (\<lambda>query. sq (library e ReadConfig (config_dies e)) (ret query))))"

definition wnu_main :: "'x wnu_env_scheme \<Rightarrow> unit wnup" where
  "wnu_main e = bnd (wnu_begin e) (\<lambda>query.
     bnd (wnu_get_user_info e query) (\<lambda>r.
       if r \<noteq> 0 then sq end_err (exit_prog 1)
       else sq (upd (\<lambda>s. s\<lparr>log_fwrt := True\<rparr>))
         (sq (library e AddUser (add_user_dies e))
         (bnd (show_page e (welcome_html e)) (\<lambda>_. exit_prog 0)))))"

end
