(* ===== verification/WnuText.thy ===== *)
theory WnuText
  imports WnuCheck
begin

text \<open>
  What wrapping and cleaning a paragraph does to its text: only blanks change, no line is longer than the
  limit unless it cannot be broken, and the cleaned text ends with one line end.
\<close>

section \<open>Lines\<close>

text \<open>The lines of a text, with the line begun so far.\<close>

fun text_lines :: "string \<Rightarrow> string \<Rightarrow> string list" where
  "text_lines l [] = [l]"
| "text_lines l (c # cs) = (if c = NL then l # text_lines [] cs else text_lines (l @ [c]) cs)"

definition fits_line :: "string \<Rightarrow> bool" where
  "fits_line l \<longleftrightarrow> length l \<le> 72 \<or> SPC \<notin> set l"

definition fits :: "string \<Rightarrow> bool" where
  "fits s \<longleftrightarrow> list_all fits_line (text_lines [] s)"

definition ended :: "string list \<Rightarrow> string" where
  "ended ls = concat (map (\<lambda>l. l @ [NL]) ls)"

lemma ended_snoc [simp]: "ended (ls @ [l]) = ended ls @ l @ [NL]" "ended [] = []"
  by (simp_all add: ended_def)

lemma text_lines_begun: "NL \<notin> set cur \<Longrightarrow> text_lines l (cur @ s) = text_lines (l @ cur) s"
  by (induction cur arbitrary: l) auto

lemma text_lines_ended:
  assumes "list_all (\<lambda>l. NL \<notin> set l) ls" and "NL \<notin> set cur"
  shows "text_lines [] (ended ls @ cur) = ls @ [cur]"
  using assms(1)
proof (induction ls)
  case Nil
  then show ?case using text_lines_begun [OF assms(2), of "[]" "[]"] by simp
next
  case (Cons l ls)
  then show ?case using text_lines_begun [of l "[]" "NL # ended ls @ cur"] by (simp add: ended_def)
qed

section \<open>Wrapping\<close>

text \<open>
  The invariant of the loop: before the index stand lines that fit and the current line \<open>cur\<close>, no longer
  than the column count; the last space, if remembered, is in it, with no space behind.
\<close>

definition last_at :: "nat \<Rightarrow> string list \<Rightarrow> string \<Rightarrow> int \<Rightarrow> nat option \<Rightarrow> bool" where
  "last_at i ls cur col sp = (case sp of
     None \<Rightarrow> SPC \<notin> set cur
   | Some j \<Rightarrow> col \<le> 72 \<and> (\<exists>u w. cur = u @ SPC # w \<and> SPC \<notin> set w \<and> j = length (ended ls) + length u))"

lemma last_at_Some: "col \<le> 72 \<Longrightarrow> SPC \<notin> set w \<Longrightarrow> last_at i ls (u @ SPC # w) col (Some (length (ended ls) + length u))"
  by (simp add: last_at_def, intro exI [of _ u] exI [of _ w], simp)

definition wrapping :: "string \<Rightarrow> nat \<Rightarrow> int \<Rightarrow> nat option \<Rightarrow> bool" where
  "wrapping s i col sp \<longleftrightarrow> i \<le> length s \<and> (\<exists>ls cur. take i s = ended ls @ cur \<and> list_all fits_line ls \<and>
     list_all (\<lambda>l. NL \<notin> set l) ls \<and> NL \<notin> set cur \<and> int (length cur) \<le> col \<and> last_at i ls cur col sp)"

lemma wrappingI:
  assumes "take i s = ended ls @ cur" "i \<le> length s" "list_all fits_line ls" "list_all (\<lambda>l. NL \<notin> set l) ls" "NL \<notin> set cur"
    "int (length cur) \<le> col" "last_at i ls cur col sp"
  shows "wrapping s i col sp"
  using assms unfolding wrapping_def by blast

lemma wrapping_start: "wrapping s 0 0 None"
  by (rule wrappingI [of _ _ "[]" "[]"]) (simp_all add: last_at_def)

lemma current_fits: "last_at i ls cur col sp \<Longrightarrow> int (length cur) \<le> col \<Longrightarrow> fits_line cur"
  by (auto simp: last_at_def fits_line_def split: option.splits)

lemma wrapping_end:
  assumes "wrapping s i col sp" and "length s \<le> i"
  shows "fits s"
proof -
  obtain ls cur where "s = ended ls @ cur" "list_all fits_line ls" "list_all (\<lambda>l. NL \<notin> set l) ls" "NL \<notin> set cur"
      "int (length cur) \<le> col" "last_at i ls cur col sp"
    using assms by (auto simp: wrapping_def)
  then show ?thesis using text_lines_ended [of ls cur] current_fits [of i ls cur col sp] by (simp add: fits_def)
qed

text \<open>The break at the last space.\<close>

lemma wrapping_cut:
  assumes "wrapping s i col (Some j)"
  shows "wrapping (s[j := NL]) i (int i - int j) None \<and> j < i \<and> s ! j = SPC"
proof -
  obtain ls cur where ls: "take i s = ended ls @ cur" "i \<le> length s" "list_all fits_line ls" "list_all (\<lambda>l. NL \<notin> set l) ls"
      "NL \<notin> set cur" "int (length cur) \<le> col" "last_at i ls cur col (Some j)"
    using assms by (auto simp: wrapping_def)
  obtain u w where u: "cur = u @ SPC # w" "SPC \<notin> set w" "j = length (ended ls) + length u" "col \<le> 72"
    using ls(7) by (auto simp: last_at_def)
  have i: "i = length (ended ls) + length u + Suc (length w)"
    using arg_cong [OF ls(1), of length] ls(2) u(1) by simp
  have "take i (s[j := NL]) = (take i s)[j := NL]" by (simp add: take_update_swap)
  also have "\<dots> = ended (ls @ [u]) @ w" using ls(1) u by (simp add: list_update_append)
  finally have "wrapping (s[j := NL]) i (int i - int j) None"
    using ls u i by (intro wrappingI [of _ _ "ls @ [u]" w]) (auto simp: last_at_def fits_line_def)
  moreover have "s ! j = (take i s) ! j" using i u(3) by simp
  then have "s ! j = SPC" using ls(1) u by (simp add: nth_append)
  ultimately show ?thesis using i u(3) by simp
qed

text \<open>The steps of the loop over one character.\<close>

lemma wrapping_take:
  assumes "wrapping s i col sp" and "i < length s"
  obtains ls cur where "list_all fits_line ls" "list_all (\<lambda>l. NL \<notin> set l) ls" "NL \<notin> set cur" "int (length cur) \<le> col"
    "last_at i ls cur col sp" "\<And>c. take (Suc i) (s[i := c]) = ended ls @ cur @ [c]"
proof -
  obtain ls cur where ls: "take i s = ended ls @ cur" "list_all fits_line ls" "list_all (\<lambda>l. NL \<notin> set l) ls" "NL \<notin> set cur"
      "int (length cur) \<le> col" "last_at i ls cur col sp"
    using assms by (auto simp: wrapping_def)
  have "take (Suc i) (s[i := c]) = ended ls @ cur @ [c]" for c
    using ls(1) assms(2) by (simp add: take_Suc_conv_app_nth)
  with ls that show thesis by blast
qed

lemma wrapping_line_end:
  assumes "wrapping s i col sp" and "i < length s"
  shows "wrapping (s[i := NL]) (Suc i) 0 None"
proof -
  obtain ls cur where ls: "list_all fits_line ls" "list_all (\<lambda>l. NL \<notin> set l) ls" "NL \<notin> set cur" "int (length cur) \<le> col"
      "last_at i ls cur col sp" "take (Suc i) (s[i := NL]) = ended ls @ cur @ [NL]"
    using wrapping_take [OF assms] by metis
  then show ?thesis using assms(2) current_fits [OF ls(5,4)]
    by (intro wrappingI [of _ _ "ls @ [cur]" "[]"]) (simp_all add: last_at_def)
qed

lemma wrapping_space:
  assumes "wrapping s i col sp" and "i < length s" and "col \<le> 71"
  shows "wrapping (s[i := SPC]) (Suc i) (col + 1) (Some i)"
proof -
  obtain ls cur where ls: "list_all fits_line ls" "list_all (\<lambda>l. NL \<notin> set l) ls" "NL \<notin> set cur" "int (length cur) \<le> col"
      "last_at i ls cur col sp" "take (Suc i) (s[i := SPC]) = ended ls @ cur @ [SPC]"
    using wrapping_take [OF assms(1,2)] by metis
  have "i = length (ended ls) + length cur" using arg_cong [OF ls(6), of length] assms(2) by simp
  then show ?thesis using ls assms by (intro wrappingI [of _ _ ls "cur @ [SPC]"]) (auto intro!: last_at_Some [of _ "[]"])
qed

lemma wrapping_letter:
  assumes "wrapping s i col sp" and "i < length s" and "s ! i \<noteq> NL" "s ! i \<noteq> SPC" and "sp \<noteq> None \<Longrightarrow> col \<le> 71"
  shows "wrapping s (Suc i) (col + 1) sp"
proof -
  obtain ls cur where ls: "list_all fits_line ls" "list_all (\<lambda>l. NL \<notin> set l) ls" "NL \<notin> set cur" "int (length cur) \<le> col"
      "last_at i ls cur col sp" "take (Suc i) (s[i := s ! i]) = ended ls @ cur @ [s ! i]"
    using wrapping_take [OF assms(1,2)] by metis
  have "last_at (Suc i) ls (cur @ [s ! i]) (col + 1) sp"
  proof (cases sp)
    case None
    then show ?thesis using ls(5) assms(4) by (simp add: last_at_def)
  next
    case (Some j)
    then obtain u w where u: "cur = u @ SPC # w" "SPC \<notin> set w" "j = length (ended ls) + length u"
      using ls(5) by (auto simp: last_at_def)
    then have "last_at (Suc i) ls (u @ SPC # (w @ [s ! i])) (col + 1) (Some (length (ended ls) + length u))"
      using assms(4,5) Some by (intro last_at_Some) auto
    then show ?thesis using Some u by simp
  qed
  then show ?thesis using ls assms(2,3) by (intro wrappingI [of _ _ ls "cur @ [s ! i]"]) auto
qed

definition wrapping_at :: "nat \<Rightarrow> wrapper \<Rightarrow> bool" where
  "wrapping_at i x = (case x of (s, col, sp, hw) \<Rightarrow> wrapping s i col sp)"

text \<open>Texts that differ in blanks only.\<close>

definition blank :: "char \<Rightarrow> bool" where
  "blank c \<longleftrightarrow> c = SPC \<or> c = TAB \<or> c = NL"

definition reblanked :: "string \<Rightarrow> string \<Rightarrow> bool" where
  "reblanked = list_all2 (\<lambda>a b. a = b \<or> blank a \<and> blank b)"

lemma reblanked_refl [simp]: "reblanked s s"
  by (simp add: reblanked_def list.rel_refl)

lemma reblanked_trans: "reblanked s t \<Longrightarrow> reblanked t u \<Longrightarrow> reblanked s u"
  unfolding reblanked_def by (rule list_all2_trans [of _ _ _ s t u]) auto

lemma reblanked_update: "i < length s \<Longrightarrow> blank (s ! i) \<Longrightarrow> blank c \<Longrightarrow> reblanked s (s[i := c])"
  by (auto simp: reblanked_def list_all2_conv_all_nth nth_list_update)

lemma wrap_break_step:
  assumes "wrapping_at i x" and "i < length (fst x)"
  shows "wrapping_at i (wrap_break i x) \<and> reblanked (fst x) (fst (wrap_break i x)) \<and> fst (wrap_break i x) ! i = fst x ! i \<and>
    (\<forall>j. fst (snd (snd (wrap_break i x))) = Some j \<and> fst x ! i \<noteq> NL \<longrightarrow> fst (snd (wrap_break i x)) \<le> 71)"
proof -
  obtain s col sp hw where x: "x = (s, col, sp, hw)" by (cases x)
  show ?thesis
  proof (cases sp)
    case (Some j)
    then have "wrapping (s[j := NL]) i (int i - int j) None" "j < i" "s ! j = SPC"
      using assms(1) wrapping_cut [of s i col j] by (simp_all add: x wrapping_at_def)
    then show ?thesis using assms Some reblanked_update [of j s NL]
      by (auto simp: x wrap_break_def wrapping_at_def blank_def)
  qed (use assms in \<open>auto simp: x wrap_break_def\<close>)
qed

lemma wrap_char_step:
  assumes "wrapping s i col sp" and "i < length s" and "sp \<noteq> None \<Longrightarrow> s ! i \<noteq> NL \<Longrightarrow> col \<le> 71"
  shows "wrapping_at (Suc i) (wrap_char i (s, col, sp, hw)) \<and> reblanked s (fst (wrap_char i (s, col, sp, hw)))"
proof -
  consider "s ! i = NL" | "s ! i = TAB \<or> s ! i = SPC" | "\<not> blank (s ! i)" by (auto simp: blank_def)
  then show ?thesis
  proof cases
    case 1
    have s: "s[i := NL] = s" using 1 by (metis list_update_id)
    have "wrap_char i (s, col, sp, hw) = (s, 0, None, False) \<or> wrap_char i (s, col, sp, hw) = (s[i := SPC], col + 1, Some i, hw) \<and> col < MINCOL"
      using 1 by (simp add: wrap_char_def Let_def)
    then show ?thesis
      using wrapping_line_end [OF assms(1,2)] wrapping_space [OF assms(1,2)] reblanked_update [OF assms(2), of SPC] 1 s
      by (elim disjE) (simp_all add: wrapping_at_def blank_def)
  next
    case 2
    have "wrap_char i (s, col, sp, hw) = (if MAXCOL < col then (s[i := NL], 0, None, hw) else (s[i := SPC], col + 1, Some i, hw))"
      using 2 by (elim disjE) (simp_all add: wrap_char_def)
    then show ?thesis
      using wrapping_line_end [OF assms(1,2)] wrapping_space [OF assms(1,2)] 2
        reblanked_update [OF assms(2), of SPC] reblanked_update [OF assms(2), of NL]
      by (cases "MAXCOL < col") (auto simp: wrapping_at_def blank_def)
  next
    case 3
    then have "wrap_char i (s, col, sp, hw) = (s, col + 1, sp, hw)" by (simp add: wrap_char_def blank_def)
    then show ?thesis using wrapping_letter [OF assms(1,2)] assms(3) 3 by (simp add: wrapping_at_def blank_def)
  qed
qed

lemma reblanked_length: "reblanked s t \<Longrightarrow> length t = length s"
  by (simp add: reblanked_def list_all2_lengthD)

lemma wrap_from_fits:
  assumes "wrapping_at i x" and "i + n = length (fst x)"
  shows "fits (wrap_from n i x) \<and> reblanked (fst x) (wrap_from n i x)"
  using assms
proof (induction n arbitrary: i x)
  case 0
  then show ?case by (cases x) (auto simp: wrapping_at_def intro: wrapping_end)
next
  case (Suc n)
  then have "i < length (fst x)" by simp
  note b = wrap_break_step [OF Suc.prems(1) this]
  obtain s col sp hw where y: "wrap_break i x = (s, col, sp, hw)" by (cases "wrap_break i x")
  have s: "length s = length (fst x)" using b y reblanked_length by fastforce
  have "wrapping s i col sp" "sp \<noteq> None \<Longrightarrow> s ! i \<noteq> NL \<Longrightarrow> col \<le> 71" using b y by (auto simp: wrapping_at_def)
  then have c: "wrapping_at (Suc i) (wrap_char i (s, col, sp, hw))" "reblanked s (fst (wrap_char i (s, col, sp, hw)))"
    using wrap_char_step [of s i col sp hw] s \<open>i < length (fst x)\<close> by auto
  have "Suc i + n = length (fst (wrap_char i (s, col, sp, hw)))" using reblanked_length [OF c(2)] s Suc.prems(2) by simp
  from Suc.IH [OF c(1) this] show ?case using b c(2) y by (auto intro: reblanked_trans)
qed

lemma wrap_step_last:
  assumes "wrapping_at i x" and "i < length (fst x)" and "last (fst x) = NL"
  shows "last (fst (wrap_char i (wrap_break i x))) = NL"
proof -
  have upd: "last (s[j := c]) = last s" if "Suc j < length s" for s :: string and j c
    using that by (cases s rule: rev_cases) (auto simp: list_update_append)
  have ch: "last (fst (wrap_char i (s, col, sp, hw))) = NL" if "last s = NL" "i < length s" for s col sp hw
  proof (cases "Suc i < length s")
    case True
    then show ?thesis using that upd by (simp add: wrap_char_def Let_def)
  next
    case False
    then have "s ! i = NL" using that by (cases s rule: rev_cases) (auto simp: nth_append less_Suc_eq)
    then show ?thesis using that False by (simp add: wrap_char_def)
  qed
  obtain s col sp hw where x: "x = (s, col, sp, hw)" by (cases x)
  show ?thesis
  proof (cases "\<exists>j. sp = Some j \<and> MAXCOL < col \<and> s ! i \<noteq> NL")
    case True
    then obtain j where j: "sp = Some j" "MAXCOL < col" "s ! i \<noteq> NL" by blast
    then have "j < i" using assms(1) wrapping_cut [of s i col j] by (simp add: x wrapping_at_def)
    then have "last (s[j := NL]) = NL" using assms upd [of j s NL] by (simp add: x)
    then show ?thesis using ch [of "s[j := NL]"] assms(2) j by (simp add: x wrap_break_def)
  next
    case False
    then have "wrap_break i x = x" by (auto simp: x wrap_break_def split: option.split)
    then show ?thesis using ch assms by (simp add: x)
  qed
qed

lemma wrap_from_last:
  assumes "wrapping_at i x" and "i + n = length (fst x)" and "last (fst x) = NL"
  shows "last (wrap_from n i x) = NL"
  using assms
proof (induction n arbitrary: i x)
  case (Suc n)
  then have i: "i < length (fst x)" by simp
  note b = wrap_break_step [OF Suc.prems(1) i]
  obtain s col sp hw where y: "wrap_break i x = (s, col, sp, hw)" by (cases "wrap_break i x")
  have s: "length s = length (fst x)" using b y reblanked_length by fastforce
  have "wrapping s i col sp" "sp \<noteq> None \<Longrightarrow> s ! i \<noteq> NL \<Longrightarrow> col \<le> 71" using b y by (auto simp: wrapping_at_def)
  then have c: "wrapping_at (Suc i) (wrap_char i (s, col, sp, hw))" "reblanked s (fst (wrap_char i (s, col, sp, hw)))"
    using wrap_char_step [of s i col sp hw] s i by auto
  then show ?case
    using Suc.IH [of "Suc i" "wrap_char i (wrap_break i x)"] wrap_step_last [OF Suc.prems(1) i Suc.prems(3)]
      reblanked_length [OF c(2)] s Suc.prems(2) y by simp
qed simp

lemma wrap_text_facts:
  "fits (wrap_text s)" "reblanked s (wrap_text s)" "last s = NL \<Longrightarrow> last (wrap_text s) = NL"
  unfolding wrap_text_def
  using wrap_from_fits [of 0 "(s, 0, None, False)" "length s"] wrap_from_last [of 0 "(s, 0, None, False)" "length s"] wrapping_start [of s]
  by (simp_all add: wrapping_at_def)

text \<open>
  C37: Wrapping a text changes nothing but its blanks and keeps its length, and afterwards every line either
  has at most 72 characters or has no space where it could be broken.
\<close>

theorem wrap_text_fits: "fits (wrap_text s) \<and> reblanked s (wrap_text s)"
  by (simp add: wrap_text_facts)

section \<open>Cleaning\<close>

lemma reblanked_solid: "reblanked s t \<Longrightarrow> filter (\<lambda>c. \<not> isspace c) t = filter (\<lambda>c. \<not> isspace c) s"
  unfolding reblanked_def by (induction rule: list_all2_induct) (auto simp: blank_def isspace_def)

lemma reblanked_none: "reblanked s t \<Longrightarrow> c \<notin> set s \<Longrightarrow> \<not> blank c \<Longrightarrow> c \<notin> set t"
  unfolding reblanked_def by (induction rule: list_all2_induct) auto

lemma reblanked_snoc: "reblanked (s @ [c]) t \<Longrightarrow> \<exists>u d. t = u @ [d] \<and> reblanked s u"
  by (auto simp: reblanked_def list_all2_append1 list_all2_Cons1)

lemma lead_blank_text:
  "\<exists>c\<in>set cs. \<not> isspace c \<Longrightarrow> st \<le> i \<Longrightarrow>
   snd (lead_blank i st cs) = None \<and> fst (lead_blank i st cs) \<le> i + length (takeWhile isspace cs)"
proof (induction cs arbitrary: i st)
  case (Cons c cs)
  show ?case
  proof (cases "isspace c")
    case True
    then show ?thesis using Cons.IH [of "if c = NL then Suc i else st" "Suc i"] Cons.prems by simp
  next
    case False
    then show ?thesis using Cons.prems(2) by simp
  qed
qed simp

lemma lead_blank_none: "list_all isspace cs \<Longrightarrow> snd (lead_blank i st cs) = Some (Suc (i + length cs))"
  by (induction cs arbitrary: i st) auto

text \<open>The body of a cleaned text, and the text it becomes.\<close>

definition clean_body :: "string \<Rightarrow> string" where
  "clean_body v = rev (dropWhile isspace (rev (filter (\<lambda>c. c \<noteq> CR) v)))"

definition cleaned :: "string \<Rightarrow> string" where
  "cleaned v = wrap_text (drop (fst (lead_blank 0 0 (filter (\<lambda>c. c \<noteq> CR) v))) (clean_body v @ [NL]))"

lemma solid_rev_drop: "filter (\<lambda>c. \<not> isspace c) (rev (dropWhile isspace (rev f))) = filter (\<lambda>c. \<not> isspace c) f"
proof -
  have "filter (\<lambda>c. \<not> isspace c) (dropWhile isspace g) = filter (\<lambda>c. \<not> isspace c) g" for g by (induction g) auto
  from this [of "rev f"] show ?thesis by (simp add: rev_filter [symmetric])
qed

lemma solid_drop: "n \<le> length (takeWhile isspace f) \<Longrightarrow> filter (\<lambda>c. \<not> isspace c) (drop n f) = filter (\<lambda>c. \<not> isspace c) f"
  by (induction f arbitrary: n) (auto simp: drop_Cons' split: if_splits)

lemma solid_CR: "filter (\<lambda>c. \<not> isspace c) (filter (\<lambda>c. c \<noteq> CR) v) = filter (\<lambda>c. \<not> isspace c) v"
  by (induction v) (auto simp: isspace_def)

lemma body_prefix: "\<exists>sp. filter (\<lambda>c. c \<noteq> CR) v = clean_body v @ sp \<and> list_all isspace sp"
proof -
  let ?f = "filter (\<lambda>c. c \<noteq> CR) v"
  have "?f = clean_body v @ rev (takeWhile isspace (rev ?f))"
    using arg_cong [OF takeWhile_dropWhile_id [of isspace "rev ?f"], of rev] by (simp add: clean_body_def del: takeWhile_dropWhile_id)
  moreover have "list_all isspace (rev (takeWhile isspace (rev ?f)))" by (auto simp: list_all_iff dest: set_takeWhileD)
  ultimately show ?thesis by blast
qed

lemma clean_body_facts:
  assumes "\<not> list_all isspace v"
  shows "clean_body v \<noteq> []" "\<not> isspace (last (clean_body v))"
    "fst (lead_blank 0 0 (filter (\<lambda>c. c \<noteq> CR) v)) < length (clean_body v)"
    "fst (lead_blank 0 0 (filter (\<lambda>c. c \<noteq> CR) v)) \<le> length (takeWhile isspace (clean_body v))"
    "snd (lead_blank 0 0 (filter (\<lambda>c. c \<noteq> CR) v)) = None"
proof -
  let ?f = "filter (\<lambda>c. c \<noteq> CR) v"
  have cr: "isspace CR" by (simp add: isspace_def)
  obtain c where "c \<in> set v" "\<not> isspace c" using assms by (auto simp: list_all_iff)
  with cr have "c \<in> set ?f \<and> \<not> isspace c" by auto
  then have ex: "\<exists>c\<in>set ?f. \<not> isspace c" by blast
  then have d: "dropWhile isspace (rev ?f) \<noteq> []" by (auto simp: dropWhile_eq_Nil_conv)
  then show body: "clean_body v \<noteq> []" by (simp add: clean_body_def)
  show solid: "\<not> isspace (last (clean_body v))" using hd_dropWhile [OF d] d by (simp add: clean_body_def last_rev)
  obtain sp where "?f = clean_body v @ sp" using body_prefix by blast
  moreover have "\<exists>c\<in>set (clean_body v). \<not> isspace c" using body solid last_in_set by blast
  ultimately have same: "takeWhile isspace ?f = takeWhile isspace (clean_body v)" by (auto simp: takeWhile_append)
  note lb = lead_blank_text [OF ex, of 0 0]
  show "snd (lead_blank 0 0 ?f) = None" using lb by simp
  show le: "fst (lead_blank 0 0 ?f) \<le> length (takeWhile isspace (clean_body v))" using lb same by simp
  have "takeWhile isspace (clean_body v) \<noteq> clean_body v"
    using \<open>\<exists>c\<in>set (clean_body v). \<not> isspace c\<close> by (auto simp: takeWhile_eq_all_conv)
  then have "length (takeWhile isspace (clean_body v)) < length (clean_body v)"
    using length_takeWhile_le [of isspace "clean_body v"] takeWhile_eq_take [of isspace "clean_body v"] by (cases "length (takeWhile isspace (clean_body v)) = length (clean_body v)") simp_all
  with le show "fst (lead_blank 0 0 ?f) < length (clean_body v)" by simp
qed

lemma cleaned_facts:
  assumes "\<not> list_all isspace v"
  shows "filter (\<lambda>c. \<not> isspace c) (cleaned v) = filter (\<lambda>c. \<not> isspace c) v" "CR \<notin> set (cleaned v)" "fits (cleaned v)"
    "\<exists>b. cleaned v = b @ [NL] \<and> b \<noteq> [] \<and> \<not> isspace (last b)" "NUL \<notin> set v \<Longrightarrow> NUL \<notin> set (cleaned v)"
proof -
  note body = clean_body_facts [OF assms]
  define n where "n = fst (lead_blank 0 0 (filter (\<lambda>c. c \<noteq> CR) v))"
  have n: "n < length (clean_body v)" "n \<le> length (takeWhile isspace (clean_body v))" using body by (simp_all add: n_def)
  have c: "cleaned v = wrap_text (drop n (clean_body v) @ [NL])" using n(1) by (simp add: cleaned_def n_def)
  note w = wrap_text_facts [of "drop n (clean_body v) @ [NL]"]
  have "filter (\<lambda>c. \<not> isspace c) (cleaned v) = filter (\<lambda>c. \<not> isspace c) (clean_body v)"
    using reblanked_solid [OF w(2)] solid_drop [OF n(2)] by (simp add: c isspace_def [of NL])
  then show "filter (\<lambda>c. \<not> isspace c) (cleaned v) = filter (\<lambda>c. \<not> isspace c) v"
    by (simp only: clean_body_def solid_rev_drop solid_CR)
  have sub: "set (clean_body v) \<subseteq> set (filter (\<lambda>c. c \<noteq> CR) v)" using body_prefix [of v] by (metis Un_upper1 set_append)
  have none: "x \<notin> set (cleaned v)" if "x \<notin> set (clean_body v)" "\<not> blank x" for x
    using reblanked_none [OF w(2), of x] that in_set_dropD [of x n "clean_body v"] by (auto simp: c blank_def)
  show "CR \<notin> set (cleaned v)" using none [of CR] sub by (auto simp: blank_def)
  show "NUL \<notin> set (cleaned v)" if "NUL \<notin> set v" using none [of NUL] sub that by (auto simp: blank_def)
  show "fits (cleaned v)" using w(1) by (simp add: c)
  obtain u d where u: "cleaned v = u @ [d]" "reblanked (drop n (clean_body v)) u" using reblanked_snoc [OF w(2)] by (auto simp: c)
  have "d = NL" using w(3) u(1) by (simp add: c)
  obtain b0 x where b: "drop n (clean_body v) = b0 @ [x]" using n(1) by (cases "drop n (clean_body v)" rule: rev_cases) auto
  have "last (drop n (clean_body v)) = last (clean_body v)" using n(1) by simp
  then have x: "x = last (clean_body v)" by (simp add: b)
  obtain u0 y where y: "u = u0 @ [y]" "x = y \<or> blank x \<and> blank y"
    using u(2) by (auto simp: b reblanked_def list_all2_append1 list_all2_Cons1)
  have "\<not> blank x" using x body(2) by (auto simp: blank_def isspace_def)
  then have "\<not> isspace (last u)" using y x body(2) by simp
  then show "\<exists>b. cleaned v = b @ [NL] \<and> b \<noteq> [] \<and> \<not> isspace (last b)" using u(1) y(1) \<open>d = NL\<close> by blast
qed

section \<open>Cleaning in memory\<close>

lemma poke_run:
  assumes "fst p < length (blocks s)"
  obtains t where "poke p x s = (Ret (), t)" and "block_at t (fst p) = take (snd p) (block_at s (fst p)) @ x @ drop (snd p + length x) (block_at s (fst p))"
    and "length (blocks t) = length (blocks s)"
  using assms by (simp add: poke_def upd_def block_at_def)

lemma str_at_block:
  assumes "str_at s p = Some v"
  shows "fst p < length (blocks s) \<and> snd p < length (block_at s (fst p)) \<and> NUL \<notin> set v"
proof -
  have "NUL \<in> set (drop (snd p) (block_at s (fst p)))" "v = cstr (drop (snd p) (block_at s (fst p)))"
    using assms by (auto simp: str_at_def Let_def split: if_splits)
  moreover from this(1) have "drop (snd p) (block_at s (fst p)) \<noteq> []" by auto
  ultimately show ?thesis by (auto simp: block_at_def split: if_splits)
qed

lemma str_at_poked:
  assumes "block_at t b = take o1 m @ (u @ w @ [NUL]) @ r" and "o1 < length m" and "NUL \<notin> set w"
  shows "str_at t (b, o1 + length u) = Some w"
proof -
  have "drop (o1 + length u) (take o1 m @ (u @ w @ [NUL]) @ r) = w @ NUL # r"
    using assms(2) by (simp add: min_absorb2)
  then show ?thesis using assms(1,3) by (simp add: str_at_def cstr_stops)
qed

lemma clean_text_run:
  assumes v: "str_at s p = Some v" and ne: "\<not> list_all isspace v"
  shows "\<exists>q t. clean_text p s = (Ret (Some q), t) \<and> str_at t q = Some (cleaned v)"
proof -
  let ?f = "filter (\<lambda>c. c \<noteq> CR) v"
  define n where "n = fst (lead_blank 0 0 ?f)"
  define w where "w = take n (clean_body v) @ cleaned v @ [NUL]"
  note body = clean_body_facts [OF ne] and sa = str_at_block [OF v]
  have lb: "lead_blank 0 0 ?f = (n, None)" using body(5) by (simp add: n_def prod_eq_iff)
  have nul: "NUL \<notin> set (cleaned v)" using cleaned_facts(5) [OF ne] sa by blast
  have len: "length (take n (clean_body v)) = n" using body(3) by (simp add: n_def)
  obtain s1 where s1: "poke p (?f @ [NUL]) s = (Ret (), s1)" "length (blocks s1) = length (blocks s)"
      "block_at s1 (fst p) = take (snd p) (block_at s (fst p)) @ (?f @ [NUL]) @ drop (snd p + length (?f @ [NUL])) (block_at s (fst p))"
    using poke_run sa by metis
  have w_eq: "w = take n (clean_body v) @ wrap_text (drop n (clean_body v @ [NL])) @ [NUL]"
    by (simp add: w_def cleaned_def n_def)
  have d: "deref p s = (Ret v, s)" using v by (simp add: deref_def)
  show ?thesis
  proof (cases "length (clean_body v) < length v")
    case True
    obtain s2 where s2: "poke p w s1 = (Ret (), s2)" "block_at s2 (fst p) = take (snd p) (block_at s1 (fst p)) @ w @ drop (snd p + length w) (block_at s1 (fst p))"
      using poke_run sa s1(2) by metis
    have "clean_text p s = (Ret (Some (fst p, snd p + n)), s2)"
      using d lb s1(1) s2(1) True w_eq by (simp add: clean_text_def Let_def clean_body_def bnd_def sq_def ret_def)
    moreover have "str_at s2 (fst p, snd p + length (take n (clean_body v))) = Some (cleaned v)"
      using s2(2) s1(3) sa nul by (intro str_at_poked [of _ _ _ "block_at s1 (fst p)"]) (auto simp: w_def)
    ultimately show ?thesis using len by auto
  next
    case False
    define s2 where "s2 = s1\<lparr>blocks := blocks s1 @ [w]\<rparr>"
    have "clean_text p s = (Ret (Some (length (blocks s1), n)), s2)"
      using d lb s1(1) False w_eq by (simp add: clean_text_def Let_def clean_body_def bnd_def sq_def ret_def gets_def upd_def s2_def)
    moreover have "block_at s2 (length (blocks s1)) = take 0 [NUL] @ w @ []" by (simp add: s2_def block_at_def)
    then have "str_at s2 (length (blocks s1), 0 + length (take n (clean_body v))) = Some (cleaned v)"
      using nul by (intro str_at_poked [of _ _ _ "[NUL]"]) (auto simp: w_def)
    ultimately show ?thesis using len by auto
  qed
qed

text \<open>
  C23: Cleaning a paragraph with some visible text gives a text with exactly its visible characters in order and
  no carriage return, whose lines fit, and which ends with one line end behind a visible character.
\<close>

theorem clean_text_cleans:
  assumes "str_at s p = Some v" and "\<not> list_all isspace v"
  shows "\<exists>q t r. clean_text p s = (Ret (Some q), t) \<and> str_at t q = Some r \<and>
    filter (\<lambda>c. \<not> isspace c) r = filter (\<lambda>c. \<not> isspace c) v \<and> CR \<notin> set r \<and> fits r \<and>
    (\<exists>b. r = b @ [NL] \<and> b \<noteq> [] \<and> \<not> isspace (last b))"
  using clean_text_run [OF assms] cleaned_facts [OF assms(2)] by blast

lemma clean_text_cleans_witness:
  "\<exists>q t r. clean_text (2, 0) (wnu_start []\<lparr>blocks := [[NUL], [NUL], [NL, CHR ''a'', SPC, CHR ''b'', CR, NL, NUL]]\<rparr>) = (Ret (Some q), t) \<and>
    str_at t q = Some r \<and> filter (\<lambda>c. \<not> isspace c) r = ''ab'' \<and> fits r"
proof -
  have "str_at (wnu_start []\<lparr>blocks := [[NUL], [NUL], [NL, CHR ''a'', SPC, CHR ''b'', CR, NL, NUL]]\<rparr>) (2, 0)
      = Some [NL, CHR ''a'', SPC, CHR ''b'', CR, NL]" by code_simp
  from clean_text_cleans [OF this] show ?thesis by (auto simp: isspace_def)
qed

text \<open>
  With no visible text the result points behind the terminator instead of at it: an empty answer becomes the
  name of the field that follows in the query.
\<close>

lemma clean_text_blank:
  assumes "str_at s p = Some v" and "list_all isspace v"
  shows "fst (clean_text p s) = Ret (Some (fst p, snd p + length (filter (\<lambda>c. c \<noteq> CR) v) + 1))"
proof -
  obtain s1 where s1: "poke p (filter (\<lambda>c. c \<noteq> CR) v @ [NUL]) s = (Ret (), s1)" using poke_run str_at_block [OF assms(1)] by metis
  have "list_all isspace (filter (\<lambda>c. c \<noteq> CR) v)" using assms(2) by (auto simp: list_all_iff)
  from lead_blank_none [OF this, of 0 0] obtain st where "lead_blank 0 0 (filter (\<lambda>c. c \<noteq> CR) v) = (st, Some (Suc (length (filter (\<lambda>c. c \<noteq> CR) v))))"
    by (metis add_0 prod.collapse)
  then show ?thesis using assms(1) s1 by (simp add: clean_text_def deref_def bnd_def sq_def ret_def Let_def)
qed

lemma empty_answer_reads_next:
  "fst (sq (load_query (Some ''email=&how=x'')) (bnd (getvar ''email'') (\<lambda>r. bnd (clean_text (the r)) (\<lambda>q. deref (the q)))) (wnu_start []))
    = Ret ''how''"
  by code_simp

end
