(* ===== verification/WnuProps.thy ===== *)
theory WnuProps
  imports WnuMain WnuText
begin

unbundle bit_operations_syntax

text \<open>
  When the program for new web users accepts an application: no error was reported on the way, so every check
  passed.
\<close>

section \<open>Errors are remembered\<close>

text \<open>An error once reported stays so, and no check creates an account.\<close>

definition calling :: "wnu \<Rightarrow> wnu \<Rightarrow> bool" where
  "calling s t \<longleftrightarrow> (\<exists>c. calls t = calls s @ c \<and> AddUser \<notin> set c)"

interpretation cal: frame_rel calling
proof unfold_locales
  show "calling s s" for s by (simp add: calling_def)
  show "calling s t \<Longrightarrow> calling t u \<Longrightarrow> calling s u" for s t u unfolding calling_def by (auto simp: Un_iff)
qed

lemma calling_same: "calls t = calls s \<Longrightarrow> calling s t"
  by (simp add: calling_def)

lemma calling_call: "c \<noteq> AddUser \<Longrightarrow> calling s (s\<lparr>calls := calls s @ [c]\<rparr>)"
  by (simp add: calling_def)

definition rejecting :: "wnu \<Rightarrow> wnu \<Rightarrow> bool" where
  "rejecting s t \<longleftrightarrow> (reject s \<noteq> 0 \<longrightarrow> reject t \<noteq> 0) \<and> calling s t"

interpretation rej: frame_rel rejecting
  by unfold_locales (auto simp: rejecting_def cal.frame_refl intro: cal.frame_trans)

text \<open>What reporting an error leaves alone.\<close>

definition reporting :: "wnu \<Rightarrow> wnu \<Rightarrow> bool" where
  "reporting s t \<longleftrightarrow> rejecting s t \<and> blocks t = blocks s \<and> entries t = entries s \<and> loginid t = loginid s \<and> userpass t = userpass s \<and>
     good_login t = good_login s \<and> cpt_pass t = cpt_pass s \<and> keyval t = keyval s \<and> norm_keys t = norm_keys s"

interpretation rep: frame_rel reporting
  by unfold_locales (auto simp: reporting_def rej.frame_refl intro: rej.frame_trans)

lemma puts_reports: "keeps reporting (puts x)"
  by (auto simp: puts_def reporting_def rejecting_def calling_same intro!: rep.keeps_upd)

lemma deref_reports: "keeps reporting (deref p)"
  by (auto simp: keeps_def deref_def rep.frame_refl split: option.splits)

lemma log_text_reports: "keeps reporting (log_text x)"
  by (auto simp: log_text_def reporting_def rejecting_def calling_same intro!: rep.keeps_upd)

lemma call_reports:
  "keeps reporting (call UnLock)" "keeps reporting (call SetLock)" "keeps reporting (call FwrtUsr)" "keeps reporting (call SetUserDir)"
  "keeps reporting (call (NotThisOne i g))" "keeps reporting (call ReadConfig)"
  by (auto simp: call_def reporting_def rejecting_def calling_call intro!: rep.keeps_upd)

lemma vars_report: "keeps reporting firstvar" "keeps reporting nextvar"
  unfolding firstvar_def nextvar_def
  by (auto simp: reporting_def rejecting_def calling_same intro!: rep.keeps_rules rep.keeps_upd split: list.split)

lemmas report_basics = puts_reports deref_reports log_text_reports call_reports vars_report rep.keeps_rules

lemma log_value_reports: "keeps reporting (log_value p v)"
  unfolding log_value_def by (intro report_basics)

lemma log_fields_report: "keeps reporting (log_fields n r)"
proof (induction n arbitrary: r)
  case 0
  then show ?case by (cases r) (auto simp: undef_def keeps_def rep.frame_refl split: prod.splits)
next
  case (Suc n)
  show ?case
  proof (cases r)
    case (Some x)
    then show ?thesis using Suc.IH by (cases x) (auto intro!: report_basics log_value_reports)
  qed (simp add: rep.keeps_undef)
qed

lemma or_nonzero: "(a::int) \<noteq> 0 \<or> b \<noteq> 0 \<Longrightarrow> a OR b \<noteq> 0"
  by (metis or_eq_0_iff)

lemma vcgiprintf_reports: "keeps reporting (vcgiprintf e fmt args)"
  unfolding vcgiprintf_def by (auto intro!: report_basics split: option.split)

lemma err_page_reports: "keeps reporting (err_page e ty fmt args)"
proof -
  have "keeps reporting (upd (\<lambda>s. s\<lparr>reject := reject s OR ty\<rparr>))"
    by (rule rep.keeps_upd) (auto simp: reporting_def rejecting_def or_nonzero calling_same)
  then show ?thesis unfolding err_page_def print_cgi_header_def by (intro report_basics vcgiprintf_reports)
qed

lemma log_error_reports: "keeps reporting (log_error e who fmt args)"
  unfolding log_error_def by (auto intro!: report_basics err_page_reports log_fields_report split: option.split)

lemma end_err_reports: "keeps reporting end_err"
  unfolding end_err_def print_cgi_trailer_def by (intro report_basics)

lemma err_reports: "keeps reporting (err e ty fmt args)"
  unfolding err_unfold
  by (auto intro!: report_basics err_page_reports log_error_reports end_err_reports split: option.split bool.split)

text \<open>An error that returns is remembered.\<close>

lemma err_page_rejects:
  assumes "err_page e ty fmt args s = (Ret as, t)" and "ty \<noteq> 0"
  shows "reject t \<noteq> 0"
  using assms unfolding err_page_def by (auto elim!: bnd_RetE sq_RetE simp: ret_def upd_def gets_def or_nonzero)

lemma err_rejects:
  assumes "err e ty fmt args s = (Ret u, t)" and "ty \<noteq> 0"
  shows "reject t \<noteq> 0"
proof -
  obtain as s1 where s1: "err_page e ty fmt args s = (Ret as, s1)" and
    n: "(if ty AND SYSTEM \<noteq> 0 then
       sq (call UnLock) (sq (case rmdir_on_error e of
            Some (d, False) \<Rightarrow> sq (err_page e 0 ''Cannot remove directory %S after failure.\<newline>'' [AStr d]) (ret ())
          | _ \<Rightarrow> ret ()) (sq (log_error e SYSTEM fmt as) (sq end_err (exit_prog 1))))
     else whenP (ty AND HOSTILE \<noteq> 0) (log_error e USER fmt as)) s1 = (Ret u, t)"
    using assms(1) unfolding err_unfold by (rule bnd_RetE)
  have r1: "reject s1 \<noteq> 0" using err_page_rejects [OF s1 assms(2)] .
  have "ty AND SYSTEM = 0" using n by (auto elim!: sq_RetE simp: exit_prog_def split: if_splits)
  with n have "keeps reporting (whenP (ty AND HOSTILE \<noteq> 0) (log_error e USER fmt as)) \<and> whenP (ty AND HOSTILE \<noteq> 0) (log_error e USER fmt as) s1 = (Ret u, t)"
    by (auto intro!: rep.keeps_when log_error_reports)
  then have "reporting s1 t" by (blast dest: keepsD)
  with r1 show ?thesis by (simp add: reporting_def rejecting_def)
qed

section \<open>Runs without an error\<close>

lemma sq_quiet:
  assumes "sq m n s = (Ret a, t)" and "reject t = 0" and "keeps rejecting n"
  obtains b u where "m s = (Ret b, u)" and "reject u = 0" and "n u = (Ret a, t)"
proof -
  obtain b u where "m s = (Ret b, u)" "n u = (Ret a, t)" using assms(1) by (rule sq_RetE)
  moreover from keepsD [OF assms(3) this(2)] have "reject u = 0" using assms(2) by (auto simp: rejecting_def)
  ultimately show thesis by (intro that)
qed

lemma bnd_quiet:
  assumes "bnd m k s = (Ret a, t)" and "reject t = 0" and "\<And>b. keeps rejecting (k b)"
  obtains b u where "m s = (Ret b, u)" and "reject u = 0" and "k b u = (Ret a, t)"
proof -
  obtain b u where "m s = (Ret b, u)" "k b u = (Ret a, t)" using assms(1) by (rule bnd_RetE)
  moreover from keepsD [OF assms(3) this(2)] have "reject u = 0" using assms(2) by (auto simp: rejecting_def)
  ultimately show thesis by (intro that)
qed

lemma err_quiet: "err e ty fmt args s = (Ret u, t) \<Longrightarrow> reject t = 0 \<Longrightarrow> ty = 0"
  using err_rejects by blast

lemma when_err_quiet: "whenP b (err e ty fmt args) s = (Ret u, t) \<Longrightarrow> reject t = 0 \<Longrightarrow> ty \<noteq> 0 \<Longrightarrow> \<not> b \<and> t = s"
  by (auto simp: whenP_def ret_def dest: err_quiet split: if_splits)

lemma reports_reject: "keeps reporting m \<Longrightarrow> keeps rejecting m"
  by (erule keeps_mono) (simp add: reporting_def)

lemmas err_rejecting = err_reports [THEN reports_reject]

lemma upd_rejecting: "(\<And>s. reject (f s) = reject s \<and> calls (f s) = calls s) \<Longrightarrow> keeps rejecting (upd f)"
  by (rule rej.keeps_upd) (simp add: rejecting_def calling_same)

lemma upd_reporting: "(\<And>s. reporting s (f s)) \<Longrightarrow> keeps reporting (upd f)"
  by (rule rep.keeps_upd)

lemmas rejecting_basics = report_basics [THEN reports_reject] err_rejecting rej.keeps_rules upd_rejecting

lemma global_str_reports: "keeps reporting (global_str g)"
  unfolding global_str_def by (auto intro!: report_basics split: option.split)

lemma same_as_reports: "keeps reporting (same_as g v)"
  unfolding same_as_def by (auto intro!: report_basics split: option.split)

lemma getvar_reports: "keeps reporting (getvar n)"
  unfolding getvar_def by (rule rep.keeps_gets)

lemmas report_rules = report_basics err_reports global_str_reports same_as_reports getvar_reports

lemma check_reserved_reports: "keeps reporting (check_reserved e l)"
  unfolding check_reserved_def by (auto intro!: report_rules split: option.split)

lemma login_chars_report: "keeps reporting (login_chars e v cs)"
  by (induction cs) (auto intro!: report_rules)

lemma passwd_chars_report: "keeps reporting (passwd_chars e cs)"
  by (induction cs) (auto intro!: report_rules)

lemmas reports_rejecting = puts_reports [THEN reports_reject] deref_reports [THEN reports_reject] call_reports [THEN reports_reject]
  global_str_reports [THEN reports_reject] same_as_reports [THEN reports_reject] getvar_reports [THEN reports_reject]
  check_reserved_reports [THEN reports_reject] login_chars_report [THEN reports_reject] passwd_chars_report [THEN reports_reject]
  err_rejecting rej.keeps_rules upd_rejecting

section \<open>What each check demands\<close>

subsection \<open>Logins\<close>

definition login_char :: "char \<Rightarrow> bool" where
  "login_char c \<longleftrightarrow> isdigit c \<or> islower c"

definition fit_login :: "'x wnu_env_scheme \<Rightarrow> string \<Rightarrow> bool" where
  "fit_login e v \<longleftrightarrow> v \<noteq> [] \<and> length v \<le> 8 \<and> islower (hd v) \<and> list_all login_char v \<and> v \<noteq> ''root'' \<and> isalias e v \<noteq> 0"

lemma login_chars_quiet:
  "login_chars e v cs s = (Ret u, t) \<Longrightarrow> reject t = 0 \<Longrightarrow> list_all login_char cs \<and> t = s"
  by (induction cs) (auto simp: ret_def login_char_def HOSTILE_def USER_def dest!: err_quiet split: if_splits)

lemma login_format_reports: "keeps reporting (login_format e v)"
  unfolding login_format_def by (intro report_rules login_chars_report)

lemma login_format_quiet:
  assumes "login_format e v s = (Ret u, t)" and "reject t = 0"
  shows "v \<noteq> [] \<and> length v \<le> 8 \<and> islower (hd v) \<and> list_all login_char v \<and> t = s"
proof -
  have u: "USER \<noteq> 0" by (simp add: USER_def)
  have "v \<noteq> [] \<and> length v \<le> 8 \<and> \<not> (isascii (hd v) \<and> isdigit (hd v)) \<and> list_all login_char v \<and> t = s"
    using assms unfolding login_format_def
    by (auto elim!: sq_quiet dest!: when_err_quiet [OF _ _ u] err_quiet login_chars_quiet
        intro!: reports_rejecting simp: u split: if_splits)
  then show ?thesis by (cases v) (auto simp: login_char_def isascii_def islower_def isdigit_def)
qed

lemma bad_login_rejecting: "keeps rejecting bad_login"
  unfolding bad_login_def by (rule upd_rejecting) simp

lemma login_use_rejecting: "keeps rejecting (login_use e v)"
  unfolding login_use_def by (intro reports_rejecting bad_login_rejecting)

lemma login_use_quiet:
  assumes run: "login_use e v s = (Ret u, t)" and quiet: "reject t = 0"
  shows "v \<noteq> ''root'' \<and> isalias e v \<noteq> 0 \<and> reporting s t"
proof -
  have ty: "USER \<noteq> 0" "USER OR HOSTILE \<noteq> 0" by (simp_all add: USER_def HOSTILE_def)
  have no: "err e ty fmt as u1 = (Ret x, u2) \<Longrightarrow> bad_login u2 = (Ret y, t) \<Longrightarrow> ty = 0" for ty fmt as u1 x u2 y
    using err_quiet keepsD [OF bad_login_rejecting] quiet by (metis rejecting_def)
  have "v \<noteq> ''root'' \<and> isalias e v \<noteq> 0"
    using run quiet unfolding login_use_def by (auto elim!: bnd_RetE sq_RetE dest!: no simp: ty split: if_splits)
  moreover have "keeps reporting (login_use e v)" if "v \<noteq> ''root''" "isalias e v \<noteq> 0"
    using that unfolding login_use_def by (auto intro!: report_rules check_reserved_reports)
  ultimately show ?thesis using run by (blast dest: keepsD)
qed

lemma check_login_rejecting: "keeps rejecting (check_login e p)"
proof -
  have "keeps rejecting (upd (\<lambda>s. s\<lparr>good_login := (reject s = 0)\<rparr>))" by (rule upd_rejecting) simp
  then show ?thesis
    unfolding check_login_def by (intro reports_rejecting login_use_rejecting login_format_reports [THEN reports_reject]) simp_all
qed

lemma deref_RetD: "deref p s = (Ret v, t) \<Longrightarrow> str_at s p = Some v \<and> t = s"
  by (simp add: deref_def split: option.splits)

lemma check_login_accepts:
  assumes run: "check_login e p s = (Ret r, t)" and quiet: "reject t = 0"
  shows "\<exists>v. str_at s p = Some v \<and> fit_login e v \<and> r = Some p \<and> reporting (s\<lparr>good_login := True\<rparr>) t"
proof -
  obtain v where v: "str_at s p = Some v" and run1: "sq (login_format e v)
     (sq (upd (\<lambda>s. s\<lparr>good_login := (reject s = 0)\<rparr>))
     (bnd (gets reject) (\<lambda>r. sq (whenP (r = 0) (login_use e v)) (ret (Some p))))) s = (Ret r, t)"
    using run unfolding check_login_def by (auto elim!: bnd_RetE dest!: deref_RetD)
  obtain u1 s1 where s1: "login_format e v s = (Ret u1, s1)" "reject s1 = 0" and run2: "sq (upd (\<lambda>s. s\<lparr>good_login := (reject s = 0)\<rparr>))
     (bnd (gets reject) (\<lambda>r. sq (whenP (r = 0) (login_use e v)) (ret (Some p)))) s1 = (Ret r, t)"
    using run1 quiet by (rule sq_quiet) (intro reports_rejecting login_use_rejecting, simp)
  note fmt = login_format_quiet [OF s1]
  obtain u2 where "login_use e v (s\<lparr>good_login := True\<rparr>) = (Ret u2, t)" "r = Some p"
    using run2 s1(2) fmt by (auto elim!: bnd_RetE sq_RetE simp: upd_def gets_def ret_def whenP_def)
  then show ?thesis using v fmt login_use_quiet quiet by (auto simp: fit_login_def)
qed

subsection \<open>Passwords\<close>

definition passwd_char :: "char \<Rightarrow> bool" where
  "passwd_char c \<longleftrightarrow> isascii c \<and> isprint c \<and> c \<noteq> NL \<and> c \<noteq> CR"

definition fit_passwd :: "string \<Rightarrow> string \<Rightarrow> bool" where
  "fit_passwd l v \<longleftrightarrow> 4 \<le> length v \<and> length v \<le> 40 \<and> list_all passwd_char v \<and> v \<noteq> l \<and> v \<noteq> ''password''"

lemma passwd_chars_quiet:
  "passwd_chars e cs s = (Ret u, t) \<Longrightarrow> reject t = 0 \<Longrightarrow> list_all passwd_char cs \<and> t = s"
proof (induction cs arbitrary: s)
  case (Cons c cs)
  obtain b s1 where "whenP (\<not> isascii c \<or> \<not> isprint c \<or> c = NL \<or> c = CR)
     (err e USER ''Only standard ASCII characters are allowed in passwords\<newline>'' []) s = (Ret b, s1)" "reject s1 = 0"
    and r: "passwd_chars e cs s1 = (Ret u, t)"
    using Cons.prems(1) [unfolded passwd_chars.simps] Cons.prems(2) passwd_chars_report [THEN reports_reject] by (rule sq_quiet)
  then have "passwd_char c \<and> s1 = s" by (auto dest!: when_err_quiet simp: passwd_char_def USER_def)
  then show ?case using Cons.IH [OF _ Cons.prems(2)] r by simp
qed (simp add: ret_def)

lemma check_passwd_rejecting: "keeps rejecting (check_passwd e p)"
  unfolding check_passwd_def by (intro reports_rejecting) simp_all

lemma same_as_value: "g s = Some q \<Longrightarrow> str_at s q = Some x \<Longrightarrow> same_as g v s = (Ret (x = v), s)"
  by (simp add: same_as_def bnd_def gets_def deref_def ret_def)

lemma deref_value: "str_at s p = Some v \<Longrightarrow> deref p s = (Ret v, s)"
  by (simp add: deref_def)

lemma check_passwd_accepts:
  assumes run: "check_passwd e p s = (Ret r, t)" and quiet: "reject t = 0" and up: "userpass s = None"
    and lg: "loginid s = Some lp" "str_at s lp = Some l"
  shows "\<exists>v. str_at s p = Some v \<and> fit_passwd l v \<and> r = Some p \<and> t = s\<lparr>cpt_pass := mkpasswd e v\<rparr>"
proof -
  have ty: "USER \<noteq> 0" "HOSTILE OR USER \<noteq> 0" by (simp_all add: USER_def HOSTILE_def)
  obtain v where v: "str_at s p = Some v" and run1: "(if v = [] then sq (err e USER ''You did not fill in the <STRONG>Password</STRONG> field.\<newline>'' []) (ret (noval e))
     else if length v < 4 then sq (err e USER ''The password you selected is too short.\<newline>'' []) (ret (noval e))
     else sq (whenP (40 < length v) (err e (HOSTILE OR USER) ''The password you selected is too long.\<newline>'' []))
       (bnd (gets loginid) (\<lambda>lg. bnd (same_as loginid v) (\<lambda>same.
         sq (whenP (lg \<noteq> None \<and> (same \<or> v = ''password'')) (err e USER ''The password you selected is too obvious.\<newline>'' []))
         (sq (passwd_chars e v)
         (sq (upd (\<lambda>s. s\<lparr>cpt_pass := mkpasswd e v\<rparr>)) (ret (Some p)))))))) s = (Ret r, t)"
    using run up unfolding check_passwd_def by (auto elim!: bnd_RetE dest!: deref_RetD simp: gets_def)
  have len: "4 \<le> length v"
    using run1 quiet ty by (auto elim!: sq_RetE dest!: err_quiet simp: ret_def split: if_splits)
  with run1 have "sq (whenP (40 < length v) (err e (HOSTILE OR USER) ''The password you selected is too long.\<newline>'' []))
       (bnd (gets loginid) (\<lambda>lg. bnd (same_as loginid v) (\<lambda>same.
         sq (whenP (lg \<noteq> None \<and> (same \<or> v = ''password'')) (err e USER ''The password you selected is too obvious.\<newline>'' []))
         (sq (passwd_chars e v)
         (sq (upd (\<lambda>s. s\<lparr>cpt_pass := mkpasswd e v\<rparr>)) (ret (Some p))))))) s = (Ret r, t)" by (auto split: if_splits)
  then obtain u1 s1 where s1: "whenP (40 < length v) (err e (HOSTILE OR USER) ''The password you selected is too long.\<newline>'' []) s = (Ret u1, s1)"
      "reject s1 = 0" and run2: "bnd (gets loginid) (\<lambda>lg. bnd (same_as loginid v) (\<lambda>same.
         sq (whenP (lg \<noteq> None \<and> (same \<or> v = ''password'')) (err e USER ''The password you selected is too obvious.\<newline>'' []))
         (sq (passwd_chars e v)
         (sq (upd (\<lambda>s. s\<lparr>cpt_pass := mkpasswd e v\<rparr>)) (ret (Some p)))))) s1 = (Ret r, t)"
    by (rule sq_quiet [OF _ quiet]) (intro reports_rejecting, simp_all)
  have s1_eq: "length v \<le> 40" "s1 = s" using when_err_quiet [OF s1] ty by auto
  have run3: "sq (whenP (l = v \<or> v = ''password'') (err e USER ''The password you selected is too obvious.\<newline>'' []))
         (sq (passwd_chars e v) (sq (upd (\<lambda>s. s\<lparr>cpt_pass := mkpasswd e v\<rparr>)) (ret (Some p)))) s = (Ret r, t)"
    using run2 lg s1_eq by (simp add: bnd_def gets_def same_as_value [where g = loginid, OF lg])
  obtain u3 s3 where s3: "whenP (l = v \<or> v = ''password'') (err e USER ''The password you selected is too obvious.\<newline>'' []) s = (Ret u3, s3)"
      "reject s3 = 0" and run4: "sq (passwd_chars e v) (sq (upd (\<lambda>s. s\<lparr>cpt_pass := mkpasswd e v\<rparr>)) (ret (Some p))) s3 = (Ret r, t)"
    using run3 by (rule sq_quiet [OF _ quiet]) (intro reports_rejecting, simp_all)
  have s3_eq: "v \<noteq> l" "v \<noteq> ''password''" "s3 = s" using when_err_quiet [OF s3] ty by auto
  obtain u4 s4 where s4: "passwd_chars e v s3 = (Ret u4, s4)" "reject s4 = 0" and
      run5: "sq (upd (\<lambda>s. s\<lparr>cpt_pass := mkpasswd e v\<rparr>)) (ret (Some p)) s4 = (Ret r, t)"
    using run4 by (rule sq_quiet [OF _ quiet]) (intro reports_rejecting, simp_all)
  show ?thesis
    using passwd_chars_quiet [OF s4] run5 s3_eq s1_eq len v
    by (auto simp: fit_passwd_def sq_def bnd_def upd_def ret_def)
qed

lemma check_passwd_again:
  assumes run: "check_passwd e p s = (Ret r, t)" and quiet: "reject t = 0" and up: "userpass s = Some q" "str_at s q = Some w"
  shows "str_at s p = Some w \<and> r = noval e \<and> t = s"
proof -
  obtain v where v: "str_at s p = Some v" using run unfolding check_passwd_def by (auto elim!: bnd_RetE dest!: deref_RetD)
  then have "sq (whenP (w \<noteq> v) (err e USER ''The two copies of your password are not identical.\<newline>'' [])) (ret (noval e)) s = (Ret r, t)"
    using run up(1) unfolding check_passwd_def by (simp add: bnd_def gets_def deref_value same_as_value [where g = userpass, OF up])
  then show ?thesis using quiet v by (auto elim!: sq_RetE dest!: when_err_quiet simp: ret_def USER_def)
qed

subsection \<open>Full names\<close>

definition tab_space :: "char \<Rightarrow> char" where
  "tab_space c = (if c = TAB then SPC else c)"

definition trimmed :: "string \<Rightarrow> string" where
  "trimmed f = rev (dropWhile (\<lambda>c. c = SPC) (rev (map tab_space (dropWhile (\<lambda>c. c = SPC \<or> c = TAB) f))))"

definition name_char :: "char \<Rightarrow> bool" where
  "name_char c \<longleftrightarrow> isascii c \<and> isprint c \<and> c \<notin> set badchars"

definition fit_name :: "string \<Rightarrow> bool" where
  "fit_name f \<longleftrightarrow> 3 \<le> length (trimmed f) \<and> length (trimmed f) \<le> 40 \<and> list_all name_char (trimmed f)"

lemma poke_rejecting: "keeps rejecting (poke p x)"
  unfolding poke_def by (rule upd_rejecting) simp

lemma name_chars_rejecting: "keeps rejecting (name_chars e p ebc cs)"
  by (induction cs arbitrary: p ebc) (auto simp: Let_def intro!: reports_rejecting poke_rejecting)

lemma err_block: "err e ty fmt as s = (Ret u, t) \<Longrightarrow> block_at t b = block_at s b \<and> length (blocks t) = length (blocks s)"
  using keepsD [OF err_reports] by (fastforce simp: reporting_def block_at_def)

lemma name_chars_quiet:
  assumes "name_chars e (b, o1) False cs s = (Ret u, t)" and "reject t = 0" and "b < length (blocks s)"
    and "block_at s b = pre @ cs @ rest" and "length pre = o1"
  shows "list_all name_char (map tab_space cs) \<and> block_at t b = pre @ map tab_space cs @ rest \<and> length (blocks t) = length (blocks s)"
  using assms
proof (induction cs arbitrary: o1 pre s)
  case (Cons c cs)
  let ?bad = "\<not> isascii (tab_space c) \<or> \<not> isprint (tab_space c) \<or> tab_space c \<in> set badchars"
  have step: "sq (whenP (c = TAB) (poke (b, o1) [SPC]))
     (sq (whenP ?bad (err e (if tab_space c = CHR '':'' then HOSTILE OR USER else USER)
            ''No <KBD>%#C</KBD> characters are permitted in your <STRONG>Full Name</STRONG> field.\<newline>'' [AChr (tab_space c)]))
       (name_chars e (b, Suc o1) ?bad cs)) s = (Ret u, t)"
    using Cons.prems(1) by (simp add: Let_def tab_space_def)
  obtain u1 s1 where s1: "whenP (c = TAB) (poke (b, o1) [SPC]) s = (Ret u1, s1)" and step2:
     "sq (whenP ?bad (err e (if tab_space c = CHR '':'' then HOSTILE OR USER else USER)
            ''No <KBD>%#C</KBD> characters are permitted in your <STRONG>Full Name</STRONG> field.\<newline>'' [AChr (tab_space c)]))
       (name_chars e (b, Suc o1) ?bad cs) s1 = (Ret u, t)"
    using step by (rule sq_RetE)
  have b1: "block_at s1 b = pre @ tab_space c # cs @ rest" "length (blocks s1) = length (blocks s)"
    using s1 Cons.prems(3-5) by (auto simp: whenP_def ret_def poke_def upd_def tab_space_def block_at_def split: if_splits)
  obtain u2 s2 where s2: "whenP ?bad (err e (if tab_space c = CHR '':'' then HOSTILE OR USER else USER)
            ''No <KBD>%#C</KBD> characters are permitted in your <STRONG>Full Name</STRONG> field.\<newline>'' [AChr (tab_space c)]) s1 = (Ret u2, s2)"
     "reject s2 = 0" and step3: "name_chars e (b, Suc o1) ?bad cs s2 = (Ret u, t)"
    using step2 Cons.prems(2) name_chars_rejecting by (rule sq_quiet)
  have ty: "(if tab_space c = CHR '':'' then HOSTILE OR USER else USER) \<noteq> 0" by (simp add: HOSTILE_def USER_def)
  note ok = when_err_quiet [OF s2 ty]
  have "name_char (tab_space c)" "s2 = s1" and step4: "name_chars e (b, Suc o1) False cs s1 = (Ret u, t)"
    using ok step3 by (auto simp: name_char_def)
  then show ?case
    using Cons.IH [OF step4 Cons.prems(2), of "pre @ [tab_space c]"] b1 Cons.prems(3,5) by simp
qed (simp add: ret_def)

lemma trail_from_le: "trail_from m i = Some q \<Longrightarrow> q \<le> i"
  by (induction i) (auto split: if_splits)

lemma trail_from_text:
  assumes "u \<noteq> []" and "last u \<noteq> SPC"
  shows "trail_from (pre @ u @ replicate k SPC @ rest) (length pre + length u + k) = Some (length pre + length u)"
proof (induction k arbitrary: rest)
  case 0
  obtain w c where u: "u = w @ [c]" using assms(1) by (cases u rule: rev_cases) auto
  then have "mem_at (pre @ u @ rest) (length pre + length w) = Some c" by (simp add: mem_at_def nth_append)
  then show ?case using u assms(2) by simp
next
  case (Suc k)
  have r: "pre @ u @ replicate (Suc k) SPC @ rest = (pre @ u @ replicate k SPC) @ SPC # rest"
    by (simp add: replicate_app_Cons_same)
  have "mem_at ((pre @ u @ replicate k SPC) @ SPC # rest) (length (pre @ u @ replicate k SPC)) = Some SPC" by (rule mem_at_append)
  then show ?case using Suc [of "SPC # rest"] unfolding r by (simp add: add.assoc)
qed

lemma trimmed_text:
  obtains k where "map tab_space (dropWhile (\<lambda>c. c = SPC \<or> c = TAB) f) = trimmed f @ replicate k SPC"
    and "trimmed f \<noteq> [] \<Longrightarrow> last (trimmed f) \<noteq> SPC"
    and "trimmed f = [] \<Longrightarrow> dropWhile (\<lambda>c. c = SPC \<or> c = TAB) f = []"
proof -
  let ?w = "map tab_space (dropWhile (\<lambda>c. c = SPC \<or> c = TAB) f)"
  define sp where "sp = takeWhile (\<lambda>c. c = SPC) (rev ?w)"
  have "?w = rev (dropWhile (\<lambda>c. c = SPC) (rev ?w)) @ rev sp"
    using arg_cong [OF takeWhile_dropWhile_id [of "\<lambda>c. c = SPC" "rev ?w"], of rev] by (simp add: sp_def del: takeWhile_dropWhile_id)
  moreover have "set sp \<subseteq> {SPC}" by (auto simp: sp_def dest: set_takeWhileD)
  then have "rev sp = replicate (length sp) SPC" by (intro replicate_eqI) auto
  ultimately have "?w = trimmed f @ replicate (length sp) SPC" by (simp add: trimmed_def)
  moreover have "last (trimmed f) \<noteq> SPC" if "trimmed f \<noteq> []"
    using that hd_dropWhile [of "\<lambda>c. c = SPC" "rev ?w"] by (auto simp: trimmed_def last_rev)
  moreover have "dropWhile (\<lambda>c. c = SPC \<or> c = TAB) f = []" if "trimmed f = []"
  proof (rule ccontr)
    assume ne: "dropWhile (\<lambda>c. c = SPC \<or> c = TAB) f \<noteq> []"
    have all: "\<forall>c\<in>set ?w. c = SPC" using that by (auto simp: trimmed_def dropWhile_eq_Nil_conv)
    define c where "c = hd (dropWhile (\<lambda>c. c = SPC \<or> c = TAB) f)"
    have "tab_space c \<in> set ?w" using hd_in_set [OF ne] by (simp add: c_def)
    then have "tab_space c = SPC" using all by blast
    moreover have "\<not> (c = SPC \<or> c = TAB)" using hd_dropWhile [OF ne] by (simp add: c_def)
    ultimately show False by (simp add: tab_space_def)
  qed
  ultimately show thesis by (intro that)
qed

lemma str_at_split:
  assumes "str_at s p = Some f"
  obtains pre rest where "block_at s (fst p) = pre @ f @ rest" and "length pre = snd p"
proof -
  have f: "f = cstr (drop (snd p) (block_at s (fst p)))" using assms by (auto simp: str_at_def Let_def split: if_splits)
  have "block_at s (fst p) = take (snd p) (block_at s (fst p)) @ f @ dropWhile (\<lambda>c. c \<noteq> NUL) (drop (snd p) (block_at s (fst p)))"
    by (simp add: f cstr_def)
  moreover have "length (take (snd p) (block_at s (fst p))) = snd p" using str_at_block [OF assms] by simp
  ultimately show thesis by (rule that)
qed

lemma firstout_drop: "drop (firstout_len f [SPC, TAB]) f = dropWhile (\<lambda>c. c = SPC \<or> c = TAB) f"
proof -
  have "(\<lambda>c. c \<in> set [SPC, TAB]) = (\<lambda>c. c = SPC \<or> c = TAB)" by auto
  then show ?thesis by (simp only: firstout_len_def dropWhile_eq_drop)
qed

lemma name_length_quiet: "name_length e len w s = (Ret u, t) \<Longrightarrow> reject t = 0 \<Longrightarrow> 3 \<le> len \<and> len \<le> 40"
  by (auto simp: name_length_def MINREALNAME_def USER_def dest: err_quiet split: if_splits)

lemma name_length_reports: "keeps reporting (name_length e len w)"
  unfolding name_length_def by (intro report_rules)

lemma name_end_rejecting: "keeps rejecting (name_end e p n)"
  unfolding name_end_def by (intro reports_rejecting poke_rejecting name_length_reports [THEN reports_reject])

lemma check_fullname_rejecting: "keeps rejecting (check_fullname e p)"
  unfolding check_fullname_def Let_def by (intro reports_rejecting name_chars_rejecting name_end_rejecting)

lemma name_end_quiet:
  assumes "name_end e p n s = (Ret u, t)" and "reject t = 0"
  obtains q where "trail_from (block_at s (fst p)) (snd p + n) = Some q" "3 \<le> int q - int (snd p)" "int q - int (snd p) \<le> 40"
proof -
  obtain q u1 where "trail_from (block_at s (fst p)) (snd p + n) = Some q" and
    r: "sq (poke (fst p, q) [NUL]) (bnd (deref p) (name_length e (int q - int (snd p)))) s = (Ret u1, t)"
    using assms(1) by (auto simp: name_end_def bnd_def gets_def undef_def split: option.splits)
  moreover obtain w s2 where "name_length e (int q - int (snd p)) w s2 = (Ret u1, t)" using r by (auto elim!: bnd_RetE sq_RetE)
  ultimately show thesis using that name_length_quiet [OF _ assms(2)] by blast
qed

lemma trimmed_chars:
  assumes "list_all name_char (map tab_space (dropWhile (\<lambda>c. c = SPC \<or> c = TAB) f))"
  shows "list_all name_char (trimmed f)"
  by (rule trimmed_text [of f]) (use assms in simp)

lemma trimmed_trail:
  assumes "trail_from (pre @ map tab_space (dropWhile (\<lambda>c. c = SPC \<or> c = TAB) f) @ rest)
      (length pre + length (dropWhile (\<lambda>c. c = SPC \<or> c = TAB) f)) = Some q" and "length pre < q"
  shows "q = length pre + length (trimmed f)"
proof -
  obtain k where k: "map tab_space (dropWhile (\<lambda>c. c = SPC \<or> c = TAB) f) = trimmed f @ replicate k SPC"
    "trimmed f \<noteq> [] \<Longrightarrow> last (trimmed f) \<noteq> SPC" "trimmed f = [] \<Longrightarrow> dropWhile (\<lambda>c. c = SPC \<or> c = TAB) f = []"
    using trimmed_text [of f] by metis
  have "length (dropWhile (\<lambda>c. c = SPC \<or> c = TAB) f) = length (trimmed f) + k" using arg_cong [OF k(1), of length] by simp
  moreover have "trimmed f \<noteq> []" using k(3) assms trail_from_le by fastforce
  ultimately show ?thesis using assms(1) trail_from_text [of "trimmed f" pre k rest] k(1,2) by (simp add: add.assoc)
qed

lemma check_fullname_accepts:
  assumes run: "check_fullname e p s = (Ret r, t)" and quiet: "reject t = 0"
  shows "\<exists>f. str_at s p = Some f \<and> fit_name f"
proof -
  obtain f where f: "str_at s p = Some f" using run unfolding check_fullname_def by (auto elim!: bnd_RetE dest!: deref_RetD)
  define n where "n = firstout_len f [SPC, TAB]"
  define v where "v = dropWhile (\<lambda>c. c = SPC \<or> c = TAB) f"
  let ?p = "(fst p, snd p + n)"
  have v: "drop n f = v" by (simp add: n_def v_def firstout_drop)
  have "sq (name_chars e ?p False (drop n f)) (sq (name_end e ?p (length (drop n f))) (ret (Some ?p))) s = (Ret r, t)"
    using run deref_value [OF f] by (simp add: check_fullname_def Let_def bnd_def [of "deref p"] n_def)
  then obtain u1 s1 where s1: "name_chars e ?p False v s = (Ret u1, s1)" "reject s1 = 0" and
     run1: "sq (name_end e ?p (length v)) (ret (Some ?p)) s1 = (Ret r, t)"
    unfolding v by (rule sq_quiet [OF _ quiet]) (intro reports_rejecting name_end_rejecting)
  then obtain q where q: "trail_from (block_at s1 (fst p)) (snd p + n + length v) = Some q"
      "3 \<le> int q - int (snd p + n)" "int q - int (snd p + n) \<le> 40"
    using quiet by (auto elim!: sq_RetE name_end_quiet simp: ret_def)
  obtain pre rest where b: "block_at s (fst p) = pre @ f @ rest" "length pre = snd p" using str_at_split [OF f] .
  have fv: "f = take n f @ v" "n = length (take n f)" using v by (auto simp: n_def firstout_len_def length_takeWhile_le)
  have b1: "block_at s (fst p) = (pre @ take n f) @ v @ rest" "length (pre @ take n f) = snd p + n"
    using b fv by (metis append.assoc, simp)
  have nc: "list_all name_char (map tab_space v)" "block_at s1 (fst p) = (pre @ take n f) @ map tab_space v @ rest"
    using name_chars_quiet [OF s1 _ b1] str_at_block [OF f] by auto
  have "trail_from ((pre @ take n f) @ map tab_space v @ rest) (length (pre @ take n f) + length v) = Some q"
    using q(1) nc(2) b1(2) by simp
  moreover have "length (pre @ take n f) < q" using q(2) b1(2) by simp
  ultimately have "q = length (pre @ take n f) + length (trimmed f)" unfolding v_def by (rule trimmed_trail)
  then have "int (length (trimmed f)) = int q - int (snd p + n)" using b1(2) by simp
  then have "fit_name f" using q nc(1) trimmed_chars by (auto simp: fit_name_def v_def)
  then show ?thesis using f by blast
qed

subsection \<open>The other fields\<close>

text \<open>What the checks of the later fields leave alone.\<close>

definition later :: "wnu \<Rightarrow> wnu \<Rightarrow> bool" where
  "later s t \<longleftrightarrow> rejecting s t \<and> good_login t = good_login s \<and> cpt_pass t = cpt_pass s"

interpretation lat: frame_rel later
  by unfold_locales (auto simp: later_def rej.frame_refl intro: rej.frame_trans)

lemma reports_later: "keeps reporting m \<Longrightarrow> keeps later m"
  by (erule keeps_mono) (simp add: reporting_def later_def)

lemma upd_later: "(\<And>s. reject (f s) = reject s \<and> calls (f s) = calls s \<and> good_login (f s) = good_login s \<and> cpt_pass (f s) = cpt_pass s) \<Longrightarrow> keeps later (upd f)"
  by (rule lat.keeps_upd) (simp add: later_def rejecting_def calling_same)

lemma poke_later: "keeps later (poke p x)"
  unfolding poke_def by (rule upd_later) simp

lemmas later_rules = report_rules [THEN reports_later] lat.keeps_rules poke_later

lemma name_chars_later: "keeps later (name_chars e p ebc cs)"
  by (induction cs arbitrary: p ebc) (auto simp: Let_def intro!: later_rules)

lemma check_fullname_later: "keeps later (check_fullname e p)"
  unfolding check_fullname_def Let_def name_end_def
  by (intro later_rules name_chars_later name_length_reports [THEN reports_later])

lemma check_flist_reports: "keeps reporting (check_flist e p what fl)"
  unfolding check_flist_def Let_def by (intro report_rules)

lemma check_shell_later: "keeps later (check_shell e p)"
  unfolding check_shell_def by (intro later_rules upd_later check_flist_reports [THEN reports_later]) simp

lemma check_editor_later: "keeps later (check_editor e p)"
  unfolding check_editor_def by (intro later_rules upd_later check_flist_reports [THEN reports_later]) simp

lemma check_terminal_later: "keeps later (check_terminal e p)"
proof -
  have "keeps later (upd (\<lambda>s. s\<lparr>terminal := Some q\<rparr>))" for q by (rule upd_later) simp
  then show ?thesis unfolding check_terminal_def Let_def by (intro later_rules)
qed

lemma check_key_later: "keeps later (check_key e p key)"
proof -
  have "keeps later (set_key key c)" for c unfolding set_key_def by (rule upd_later) simp
  moreover have "keeps later (test_reserved e key)" unfolding test_reserved_def by (intro later_rules)
  ultimately show ?thesis unfolding check_key_def by (auto intro!: later_rules split: list.split)
qed

lemma check_keys_later: "keeps later (check_backspace e p)" "keeps later (check_interupt e p)" "keeps later (check_kill e p)"
  unfolding check_backspace_def check_interupt_def check_kill_def by (intro later_rules check_key_later)+

lemma set_flags_later: "keeps later (set_sex p)" "keeps later (set_paranoia p)"
  unfolding set_sex_def set_paranoia_def Let_def by (intro later_rules upd_later; simp)+

lemma clean_text_later: "keeps later (clean_text p)"
proof -
  have "keeps later (upd (\<lambda>s. s\<lparr>blocks := blocks s @ [w]\<rparr>))" for w by (rule upd_later) simp
  then show ?thesis unfolding clean_text_def Let_def by (auto intro!: later_rules split: prod.split option.split)
qed

lemmas checks_later = check_fullname_later check_shell_later check_editor_later check_terminal_later check_keys_later
  set_flags_later clean_text_later

section \<open>The answers of a form\<close>

definition answer_ptr :: "string \<Rightarrow> wnu \<Rightarrow> ptr" where
  "answer_ptr n s = (case map_option value_ptr (find (\<lambda>f. field_name s f = n) (entries s)) of None \<Rightarrow> (0, 0) | Some p \<Rightarrow> p)"

definition form_answer :: "string \<Rightarrow> wnu \<Rightarrow> string option" where
  "form_answer n s = str_at s (answer_ptr n s)"

definition stored :: "(ptr \<Rightarrow> wnu \<Rightarrow> wnu) option \<Rightarrow> ptr option \<Rightarrow> wnu \<Rightarrow> wnu" where
  "stored st r s = (case r of None \<Rightarrow> s | Some q \<Rightarrow> (case st of None \<Rightarrow> s | Some f \<Rightarrow> f q s))"

lemma answer_reports: "reporting s t \<Longrightarrow> form_answer n t = form_answer n s \<and> answer_ptr n t = answer_ptr n s"
  by (simp add: form_answer_def answer_ptr_def reporting_def field_name_def block_at_def str_at_def)

lemma get_field_run:
  assumes "get_field e u s = (Ret x, t)"
  obtains s1 r s2 where "reporting s s1" and "(case process u e of None \<Rightarrow> ret (Some (answer_ptr (u_name u) s)) | Some f \<Rightarrow> f (answer_ptr (u_name u) s)) s1 = (Ret r, s2)"
    and "t = stored (storage u) r s2"
proof -
  define p where "p = answer_ptr (u_name u) s"
  have "take_value e u p s = (Ret x, t)"
    using assms by (simp add: get_field_def getvar_def bnd_def gets_def p_def answer_ptr_def)
  then obtain v s1 r s2 where s1: "whenP (4096 < length v) (err e USER ''Your %s value (<KBD>%#.25S...</KBD>) is much too long.\<newline>'' [AStr (u_name u), AStr v]) s = (Ret (), s1)"
    and run: "(case process u e of None \<Rightarrow> ret (Some p) | Some f \<Rightarrow> f p) s1 = (Ret r, s2)"
    and st: "(case r of None \<Rightarrow> ret () | Some q \<Rightarrow> (case storage u of None \<Rightarrow> ret () | Some st \<Rightarrow> upd (st q))) s2 = (Ret x, t)"
    unfolding take_value_def by (auto elim!: bnd_RetE sq_RetE dest!: deref_RetD)
  have "keeps reporting (whenP (4096 < length v) (err e USER ''Your %s value (<KBD>%#.25S...</KBD>) is much too long.\<newline>'' [AStr (u_name u), AStr v]))"
    by (intro report_rules)
  with s1 have "reporting s s1" by (blast dest: keepsD)
  moreover have "t = stored (storage u) r s2" using st by (auto simp: stored_def ret_def upd_def split: option.splits)
  ultimately show thesis by (rule that [OF _ run [unfolded p_def]])
qed

text \<open>The fields from \<open>fname\<close> on.\<close>

definition later_field :: "'x wnu_env_scheme \<Rightarrow> 'x uinfo \<Rightarrow> bool" where
  "later_field e u \<longleftrightarrow> (\<forall>f p. process u e = Some f \<longrightarrow> keeps later (f p)) \<and> (\<forall>r s. later s (stored (storage u) r s))"

lemma get_field_later:
  assumes "later_field e u" and "get_field e u s = (Ret x, t)"
  shows "later s t"
proof -
  obtain s1 r s2 where "reporting s s1"
    and run: "(case process u e of None \<Rightarrow> ret (Some (answer_ptr (u_name u) s)) | Some f \<Rightarrow> f (answer_ptr (u_name u) s)) s1 = (Ret r, s2)"
    and t: "t = stored (storage u) r s2"
    using get_field_run [OF assms(2)] .
  moreover have "later s1 s2"
  proof (cases "process u e")
    case None
    then show ?thesis using run by (simp add: ret_def lat.frame_refl)
  next
    case (Some f)
    then have "keeps later (f (answer_ptr (u_name u) s))" using assms(1) by (simp add: later_field_def del: split_paired_All)
    then show ?thesis using run Some by (auto dest: keepsD)
  qed
  moreover have "later s2 t" using assms(1) t by (simp add: later_field_def)
  ultimately show ?thesis by (meson lat.frame_trans later_def reporting_def)
qed

lemma get_fields_later: "list_all (later_field e) us \<Longrightarrow> get_fields e us s = (Ret x, t) \<Longrightarrow> later s t"
  by (induction us arbitrary: s) (auto simp: ret_def lat.frame_refl elim!: sq_RetE dest: get_field_later intro: lat.frame_trans)

lemma later_fields: "list_all (later_field e) (drop 3 vartab)"
  by (simp add: vartab_def later_field_def field_def plain_field_def checks_later stored_def later_def rejecting_def calling_same split: option.split)

section \<open>The checks at the end\<close>

lemma final_key_check_reports: "keeps rejecting (final_key_check e)"
  unfolding final_key_check_def by (auto intro!: reports_rejecting split: option.split prod.split)

lemma final_key_check_quiet:
  assumes "final_key_check e s = (Ret x, t)" and "reject t = 0"
  shows "list_all (\<lambda>(i, j). keyval s ! i \<noteq> keyval s ! j) key_pairs \<and> t = s\<lparr>norm_keys := keyval s\<rparr>"
proof (cases "find (\<lambda>(i, j). keyval s ! i = keyval s ! j) key_pairs")
  case None
  then have "list_all (\<lambda>(i, j). keyval s ! i \<noteq> keyval s ! j) key_pairs" by (auto simp: find_None_iff list_all_iff)
  then show ?thesis using assms(1) None by (simp add: final_key_check_def bnd_def gets_def upd_def)
next
  case (Some p)
  then obtain a as where "err e USER a as s = (Ret x, t)" using assms(1) by (cases p) (auto simp: final_key_check_def bnd_def gets_def)
  from err_quiet [OF this assms(2)] show ?thesis by (simp add: USER_def)
qed

text \<open>Until the end the lock, once taken, is not given back on a run without errors.\<close>

definition noting :: "wnu \<Rightarrow> wnu \<Rightarrow> bool" where
  "noting s t \<longleftrightarrow> (\<exists>c. calls t = calls s @ c \<and> UnLock \<notin> set c \<and> AddUser \<notin> set c) \<and> reject t = reject s \<and> blocks t = blocks s \<and> loginid t = loginid s \<and>
     norm_keys t = norm_keys s \<and> cpt_pass t = cpt_pass s \<and> keyval t = keyval s"

interpretation nts: frame_rel noting
proof unfold_locales
  show "noting s s" for s by (simp add: noting_def)
  show "noting s t \<Longrightarrow> noting t u \<Longrightarrow> noting s u" for s t u unfolding noting_def by (auto simp: Un_iff)
qed

lemma call_notes: "c \<noteq> UnLock \<Longrightarrow> c \<noteq> AddUser \<Longrightarrow> keeps noting (call c)"
  unfolding call_def by (rule nts.keeps_upd) (simp add: noting_def)

lemma global_str_notes: "keeps noting (global_str g)"
  by (auto simp: keeps_def global_str_def bnd_def gets_def deref_def undef_def nts.frame_refl split: option.splits)

lemma pwd_scan_notes: "keeps noting (pwd_scan quick l ws)"
  by (induction ws) (auto intro!: nts.keeps_rules call_notes)

lemma check_pwd_notes: "keeps noting (check_pwd e f)"
  unfolding check_pwd_def Let_def
  by (auto intro!: nts.keeps_rules global_str_notes pwd_scan_notes split: option.split)

lemma pwd_scan_free: "pwd_scan False l ws s = (Ret None, t) \<Longrightarrow> list_all (\<lambda>w. pw_name w \<noteq> l) ws"
  by (induction ws arbitrary: s) (auto simp: ret_def elim!: sq_RetE split: if_splits)

lemma global_str_RetD: "global_str g s = (Ret v, t) \<Longrightarrow> t = s \<and> (\<exists>p. g s = Some p \<and> str_at s p = Some v)"
  by (auto simp: global_str_def bnd_def gets_def undef_def dest!: deref_RetD split: option.splits)

text \<open>What it means that a login is not in a file: the account database, or the file itself when it is another.\<close>

definition login_free :: "'x wnu_env_scheme \<Rightarrow> string \<Rightarrow> string \<Rightarrow> bool" where
  "login_free e f l = (if f = ETCPASSWD then getpwnam e l = None
     else case file_text e f of None \<Rightarrow> True | Some text \<Rightarrow> list_all (\<lambda>w. pw_name w \<noteq> l) (pwents e text))"

lemma check_pwd_free:
  assumes "check_pwd e f s = (Ret None, t)" and "reject s = 0"
  shows "\<exists>p l. loginid s = Some p \<and> str_at s p = Some l \<and> login_free e f l"
proof -
  obtain l u where "global_str loginid s = (Ret l, u)"
    using assms(1) unfolding check_pwd_def by (auto elim!: bnd_RetE simp: gets_def)
  then have l: "global_str loginid s = (Ret l, s)" using global_str_RetD by blast
  have run: "(if f = ETCPASSWD \<and> getpwnam e l \<noteq> None then ret (getpwnam e l)
     else (case file_text e f of None \<Rightarrow> ret None | Some text \<Rightarrow> pwd_scan (f = ETCPASSWD) l (pwents e text))) s = (Ret None, t)"
    using assms l by (simp add: check_pwd_def Let_def bnd_def gets_def cong: if_cong option.case_cong)
  have "login_free e f l"
    using run by (auto simp: login_free_def ret_def split: if_splits option.splits dest: pwd_scan_free)
  then show ?thesis using global_str_RetD [OF l] by blast
qed

lemma usr_scan_notes: "keeps noting (usr_scan u l ds)"
  by (induction ds) (auto intro!: nts.keeps_rules call_notes split: option.split prod.split)

lemma check_usr_quiet:
  assumes "check_usr e s = (Ret b, t)" and "reject t = 0"
  shows "noting s t"
proof (cases "usr_dir e")
  case None
  then show ?thesis using assms by (auto simp: check_usr_def undef_def elim!: sq_RetE)
next
  case (Some ds)
  have "keeps noting (check_usr e)"
    unfolding check_usr_def Some option.case by (intro nts.keeps_rules global_str_notes usr_scan_notes)
  then show ?thesis using assms(1) by (rule keepsD)
qed

lemma dir_in_use_quiet: "dir_in_use e l s = (Ret u, t) \<Longrightarrow> reject t \<noteq> 0"
  using err_rejects by (fastforce simp: dir_in_use_def USER_def)

lemma quick_check_quiet:
  assumes "quick_check_dir e s = (Ret b, t)" and "reject t = 0"
  shows "noting s t"
  using assms unfolding quick_check_dir_def Let_def
  by (auto simp: ret_def undef_def nts.frame_refl elim!: bnd_RetE sq_RetE dest!: global_str_RetD dir_in_use_quiet split: if_splits)

lemma taken_by_free:
  assumes "taken_by e s = (Ret None, t)" and "reject s = 0"
  shows "noting s t \<and> (\<exists>p l. loginid s = Some p \<and> str_at s p = Some l \<and> login_free e (passwd e) l \<and> login_free e ETCPASSWD l)"
proof -
  obtain r u where u: "check_pwd e (passwd e) s = (Ret r, u)" and
    run: "(if r = None \<and> passwd e \<noteq> ETCPASSWD then check_pwd e ETCPASSWD else ret r) u = (Ret None, t)"
    using assms(1) unfolding taken_by_def by (rule bnd_RetE)
  have r: "r = None" using run by (auto simp: ret_def split: if_splits)
  have su: "noting s u" using keepsD [OF check_pwd_notes u] .
  obtain p l where pl: "loginid s = Some p" "str_at s p = Some l" "login_free e (passwd e) l"
    using check_pwd_free u assms(2) r by blast
  show ?thesis
  proof (cases "passwd e = ETCPASSWD")
    case True
    then show ?thesis using run r su pl by (auto simp: ret_def)
  next
    case False
    then have u2: "check_pwd e ETCPASSWD u = (Ret None, t)" using run r by simp
    have "loginid u = loginid s" "str_at u p = str_at s p" "reject u = 0"
      using su assms(2) by (auto simp: noting_def str_at_def block_at_def)
    then have "login_free e ETCPASSWD l" using check_pwd_free [OF u2] pl by auto
    then show ?thesis using pl nts.frame_trans [OF su keepsD [OF check_pwd_notes u2]] by blast
  qed
qed

lemma place_free_quiet:
  assumes "place_free e who s = (Ret ok, t)" and "reject t = 0"
  shows "who = None \<and> ok \<and> noting s t"
proof -
  have u: "err e USER f as s1 = (Ret x, t) \<Longrightarrow> False" for f as s1 x using err_quiet assms(2) by (fastforce simp: USER_def)
  have n: "who = None" using assms(1) u by (auto simp: place_free_def ret_def elim!: bnd_RetE sq_RetE split: option.splits)
  obtain s1 b where s1: "call SetUserDir s = (Ret (), s1)" "(if checkdirs e then check_usr e else quick_check_dir e) s1 = (Ret b, t)" "b = ok" "ok"
    using assms n by (auto simp: place_free_def ret_def elim!: bnd_RetE sq_RetE dest!: dir_in_use_quiet split: if_splits)
  then have "noting s1 t" using check_usr_quiet quick_check_quiet assms(2) by (auto split: if_splits)
  moreover have "noting s s1" using keepsD [OF call_notes s1(1)] by simp
  ultimately show ?thesis using n s1(4) nts.frame_trans by blast
qed

lemma notes_rejecting: "keeps noting m \<Longrightarrow> keeps rejecting m"
  by (erule keeps_mono) (auto simp: noting_def rejecting_def calling_def)

lemma final_login_check_rejecting: "keeps rejecting (final_login_check e)"
proof -
  note rules = reports_rejecting check_pwd_notes [THEN notes_rejecting] usr_scan_notes [THEN notes_rejecting]
  have "keeps rejecting (dir_in_use e l)" for l unfolding dir_in_use_def by (rule err_rejecting)
  then have "keeps rejecting (place_free e who)" for who
    unfolding place_free_def check_usr_def quick_check_dir_def Let_def by (intro rules)
  moreover have "keeps rejecting (taken_by e)" unfolding taken_by_def by (intro rules)
  moreover have "keeps rejecting (upd (\<lambda>s. s\<lparr>good_login := b\<rparr>))" for b by (rule upd_rejecting) simp
  ultimately show ?thesis unfolding final_login_check_def by (intro rules) simp_all
qed

text \<open>A login that passes is free, and the lock is still held.\<close>

lemma final_login_check_quiet:
  assumes run: "final_login_check e s = (Ret x, t)" and quiet: "reject t = 0" and good: "good_login s" "reject s = 0"
  shows "(\<exists>c. calls t = calls s @ SetLock # c \<and> UnLock \<notin> set c) \<and> norm_keys t = norm_keys s \<and> cpt_pass t = cpt_pass s \<and> keyval t = keyval s \<and>
    (\<exists>p l. loginid t = Some p \<and> str_at t p = Some l \<and> login_free e (passwd e) l \<and> login_free e ETCPASSWD l)"
proof -
  define s0 where "s0 = s\<lparr>calls := calls s @ [SetLock]\<rparr>"
  obtain who s1 ok s2 where s1: "taken_by e s0 = (Ret who, s1)" and s2: "place_free e who s1 = (Ret ok, s2)" and
     run1: "(if \<not> ok then upd (\<lambda>s. s\<lparr>calls := calls s @ [UnLock]\<rparr>) else ret ()) (s2\<lparr>good_login := ok\<rparr>) = (Ret x, t)"
    using run good unfolding final_login_check_def
    by (auto simp: gets_def whenP_def call_def upd_def s0_def elim!: bnd_RetE sq_RetE)
  have "reject s2 = 0" using run1 quiet by (auto simp: upd_def ret_def split: if_splits)
  note pf = place_free_quiet [OF s2 this]
  have t: "t = s2\<lparr>good_login := True\<rparr>" using run1 pf by (simp add: ret_def)
  have tb: "noting s0 s1 \<and> (\<exists>p l. loginid s0 = Some p \<and> str_at s0 p = Some l \<and> login_free e (passwd e) l \<and> login_free e ETCPASSWD l)"
    using s1 pf good(2) by (intro taken_by_free) (simp_all add: s0_def)
  then obtain p l where pl: "loginid s0 = Some p" "str_at s0 p = Some l" "login_free e (passwd e) l" "login_free e ETCPASSWD l" by blast
  have n: "noting s0 s2" using tb pf nts.frame_trans by blast
  then obtain c where c: "calls s2 = calls s0 @ c" "UnLock \<notin> set c" by (auto simp: noting_def)
  have "str_at t p = str_at s0 p" using n by (simp add: t noting_def str_at_def block_at_def)
  moreover have "calls t = calls s @ SetLock # c" using c(1) by (simp add: t s0_def)
  moreover have "norm_keys t = norm_keys s" "cpt_pass t = cpt_pass s" "keyval t = keyval s" "loginid t = loginid s0"
    using n by (simp_all add: t noting_def s0_def)
  ultimately show ?thesis using pl c(2) by auto
qed

section \<open>Accepted applications\<close>

text \<open>
  What an accepted application has shown: the three answers of the loaded form, with \<open>w\<close> given twice, the keys
  in force, and the login under the lock.
\<close>

definition form_accepted :: "'x wnu_env_scheme \<Rightarrow> wnu \<Rightarrow> wnu \<Rightarrow> bool" where
  "form_accepted e s t \<longleftrightarrow> (\<exists>l w f. form_answer ''login'' s = Some l \<and> fit_login e l \<and>
     form_answer ''passwd1'' s = Some w \<and> form_answer ''passwd2'' s = Some w \<and> fit_passwd l w \<and> cpt_pass t = mkpasswd e w \<and>
     form_answer ''fname'' s = Some f \<and> fit_name f)"

definition same_form :: "wnu \<Rightarrow> wnu \<Rightarrow> bool" where
  "same_form s t \<longleftrightarrow> blocks t = blocks s \<and> entries t = entries s"

lemma answer_same: "same_form s t \<Longrightarrow> answer_ptr n t = answer_ptr n s \<and> form_answer n t = form_answer n s \<and> str_at t p = str_at s p"
  by (simp add: same_form_def form_answer_def answer_ptr_def field_name_def block_at_def str_at_def)

lemma reporting_form: "reporting s t \<Longrightarrow> same_form s t"
  by (simp add: same_form_def reporting_def)

lemma get_field_check:
  assumes "get_field e (field n f st) s = (Ret x, t)"
  obtains s1 r s2 where "reporting s s1" and "f e (answer_ptr n s) s1 = (Ret r, s2)" and "t = stored st r s2"
proof (rule get_field_run [OF assms])
  fix s1 r s2
  assume "reporting s s1" "t = stored (storage (field n f st)) r s2"
    "(case process (field n f st) e of None \<Rightarrow> ret (Some (answer_ptr (u_name (field n f st)) s)) | Some g \<Rightarrow> g (answer_ptr (u_name (field n f st)) s)) s1 = (Ret r, s2)"
  then show thesis using that by (simp add: field_def)
qed

lemma get_field_rejecting:
  assumes "get_field e (field n f (Some (\<lambda>p s. s\<lparr>userpass := Some p\<rparr>))) s = (Ret x, t)" and "reject t = 0" and "\<And>p. keeps rejecting (f e p)"
  shows "reject s = 0"
proof -
  obtain s1 r s2 where s1: "reporting s s1" and run: "f e (answer_ptr n s) s1 = (Ret r, s2)" and
      t: "t = stored (Some (\<lambda>p s. s\<lparr>userpass := Some p\<rparr>)) r s2"
    using get_field_check [OF assms(1)] .
  have "reject s2 = 0" using assms(2) by (simp add: t stored_def field_def split: option.splits)
  then show ?thesis using keepsD [OF assms(3) run] s1 by (auto simp: rejecting_def reporting_def)
qed

lemma login_field:
  assumes "get_field e (field ''login'' check_login (Some (\<lambda>p s. s\<lparr>loginid := Some p\<rparr>))) s = (Ret x, t)" and "reject t = 0"
  shows "\<exists>l. form_answer ''login'' s = Some l \<and> fit_login e l \<and> loginid t = Some (answer_ptr ''login'' s) \<and> same_form s t \<and>
    userpass t = userpass s \<and> good_login t \<and> reject s = 0"
proof -
  obtain s1 r s2 where s1: "reporting s s1" and run: "check_login e (answer_ptr ''login'' s) s1 = (Ret r, s2)" and
      t: "t = stored (Some (\<lambda>p s. s\<lparr>loginid := Some p\<rparr>)) r s2"
    using get_field_check [OF assms(1)] .
  have "reject s2 = 0" using assms(2) by (simp add: t stored_def field_def split: option.splits)
  then obtain l where l: "str_at s1 (answer_ptr ''login'' s) = Some l" "fit_login e l" "r = Some (answer_ptr ''login'' s)"
      "reporting (s1\<lparr>good_login := True\<rparr>) s2"
    using check_login_accepts [OF run] by blast
  have "reject s1 = 0" using keepsD [OF check_login_rejecting run] \<open>reject s2 = 0\<close> by (auto simp: rejecting_def)
  then have "reject s = 0" using s1 by (auto simp: reporting_def rejecting_def)
  moreover have "form_answer ''login'' s = Some l" using l(1) answer_same [OF reporting_form [OF s1]] by (simp add: form_answer_def)
  moreover have "same_form s t" "loginid t = Some (answer_ptr ''login'' s)" "userpass t = userpass s" "good_login t"
    using s1 l(3,4) by (auto simp: t stored_def field_def same_form_def reporting_def)
  ultimately show ?thesis using l(2) by blast
qed

lemma passwd1_field:
  assumes "get_field e (field ''passwd1'' check_passwd (Some (\<lambda>p s. s\<lparr>userpass := Some p\<rparr>))) s = (Ret x, t)" and "reject t = 0"
    and "userpass s = None" "loginid s = Some lp" "str_at s lp = Some l"
  shows "\<exists>w. form_answer ''passwd1'' s = Some w \<and> fit_passwd l w \<and> userpass t = Some (answer_ptr ''passwd1'' s) \<and> cpt_pass t = mkpasswd e w \<and>
    same_form s t \<and> good_login t = good_login s \<and> reject s = 0"
proof -
  obtain s1 r s2 where s1: "reporting s s1" and run: "check_passwd e (answer_ptr ''passwd1'' s) s1 = (Ret r, s2)" and
      t: "t = stored (Some (\<lambda>p s. s\<lparr>userpass := Some p\<rparr>)) r s2"
    using get_field_check [OF assms(1)] .
  note same = answer_same [OF reporting_form [OF s1]]
  have q: "reject s2 = 0" using assms(2) by (simp add: t stored_def field_def split: option.splits)
  have pre: "userpass s1 = None" "loginid s1 = Some lp" "str_at s1 lp = Some l"
    using s1 assms(3-5) same by (auto simp: reporting_def)
  obtain w where w: "str_at s1 (answer_ptr ''passwd1'' s) = Some w" "fit_passwd l w" "r = Some (answer_ptr ''passwd1'' s)" "s2 = s1\<lparr>cpt_pass := mkpasswd e w\<rparr>"
    using check_passwd_accepts [OF run q pre] by blast
  have "form_answer ''passwd1'' s = Some w" using w(1) same by (simp add: form_answer_def)
  moreover have "same_form s t" "userpass t = Some (answer_ptr ''passwd1'' s)" "cpt_pass t = mkpasswd e w" "good_login t = good_login s"
    using s1 w(3,4) by (auto simp: t stored_def field_def same_form_def reporting_def)
  moreover have "reject s = 0" using s1 w(4) q by (auto simp: reporting_def rejecting_def)
  ultimately show ?thesis using w(2) by blast
qed

lemma passwd2_field:
  assumes "get_field e (field ''passwd2'' check_passwd (Some (\<lambda>p s. s\<lparr>userpass := Some p\<rparr>))) s = (Ret x, t)" and "reject t = 0"
    and "userpass s = Some q" "str_at s q = Some w"
  shows "form_answer ''passwd2'' s = Some w \<and> same_form s t \<and> good_login t = good_login s \<and> cpt_pass t = cpt_pass s \<and> reject s = 0"
proof -
  obtain s1 r s2 where s1: "reporting s s1" and run: "check_passwd e (answer_ptr ''passwd2'' s) s1 = (Ret r, s2)" and
      t: "t = stored (Some (\<lambda>p s. s\<lparr>userpass := Some p\<rparr>)) r s2"
    using get_field_check [OF assms(1)] .
  note same = answer_same [OF reporting_form [OF s1]]
  have rq: "reject s2 = 0" using assms(2) by (simp add: t stored_def field_def split: option.splits)
  have pre: "userpass s1 = Some q" "str_at s1 q = Some w" using s1 assms(3,4) same by (auto simp: reporting_def)
  have a: "str_at s1 (answer_ptr ''passwd2'' s) = Some w \<and> r = noval e \<and> s2 = s1" using check_passwd_again [OF run rq pre] .
  then have "form_answer ''passwd2'' s = Some w" using same by (simp add: form_answer_def)
  moreover have "same_form s t" "good_login t = good_login s" "cpt_pass t = cpt_pass s"
    using s1 a by (auto simp: t stored_def field_def same_form_def reporting_def split: option.split)
  moreover have "reject s = 0" using s1 a rq by (auto simp: reporting_def rejecting_def)
  ultimately show ?thesis by blast
qed

lemma get_fields_accepted:
  assumes run: "get_fields e vartab s = (Ret x, t)" and quiet: "reject t = 0" and start: "userpass s = None"
  shows "form_accepted e s t \<and> good_login t \<and> reject s = 0"
proof -
  let ?name = "field ''fname'' check_fullname (Some (\<lambda>p s. s\<lparr>full_name := Some p\<rparr>))"
  have four: "vartab = field ''login'' check_login (Some (\<lambda>p s. s\<lparr>loginid := Some p\<rparr>)) # field ''passwd1'' check_passwd (Some (\<lambda>p s. s\<lparr>userpass := Some p\<rparr>)) #
      field ''passwd2'' check_passwd (Some (\<lambda>p s. s\<lparr>userpass := Some p\<rparr>)) # ?name # drop 4 vartab"
    by (simp add: vartab_def)
  obtain s1 s2 s3 s4 where s1: "get_field e (field ''login'' check_login (Some (\<lambda>p s. s\<lparr>loginid := Some p\<rparr>))) s = (Ret (), s1)"
    and s2: "get_field e (field ''passwd1'' check_passwd (Some (\<lambda>p s. s\<lparr>userpass := Some p\<rparr>))) s1 = (Ret (), s2)"
    and s3: "get_field e (field ''passwd2'' check_passwd (Some (\<lambda>p s. s\<lparr>userpass := Some p\<rparr>))) s2 = (Ret (), s3)"
    and s4: "get_field e ?name s3 = (Ret (), s4)" and rest: "get_fields e (drop 4 vartab) s4 = (Ret x, t)"
    using run by (subst (asm) four) (auto elim!: sq_RetE)
  have lf: "list_all (later_field e) (?name # drop 4 vartab)" using later_fields [of e] by (simp add: vartab_def)
  have l4: "later s4 t" using get_fields_later [OF _ rest] lf by simp
  then have q4: "reject s4 = 0" using quiet by (auto simp: later_def rejecting_def)
  have l3: "later s3 s4" using get_field_later [OF _ s4] lf by simp
  then have q3: "reject s3 = 0" using q4 by (auto simp: later_def rejecting_def)
  obtain q p2 where q2: "reject s2 = 0" and q1: "reject s1 = 0" and p2: "p2 = answer_ptr ''passwd1'' s1" and q: "q = answer_ptr ''login'' s"
    using get_field_rejecting [OF s3] get_field_rejecting [OF s2] q3 check_passwd_rejecting by blast
  obtain l where l: "form_answer ''login'' s = Some l" "fit_login e l" "loginid s1 = Some q" "same_form s s1"
      "userpass s1 = None" "good_login s1" "reject s = 0"
    using login_field [OF s1 q1] start q by auto
  note a1 = answer_same [OF l(4)]
  have "str_at s1 q = Some l" using l(1) a1 by (simp add: q form_answer_def)
  then obtain w where w: "form_answer ''passwd1'' s1 = Some w" "fit_passwd l w" "userpass s2 = Some p2" "cpt_pass s2 = mkpasswd e w"
      "same_form s1 s2" "good_login s2 = good_login s1"
    using passwd1_field [OF s2 q2 l(5) l(3)] p2 by blast
  note a2 = answer_same [OF w(5)]
  have "str_at s2 p2 = Some w" using w(1) a2 by (simp add: p2 form_answer_def)
  note a3 = passwd2_field [OF s3 q3 w(3) this]
  obtain sa r sb where sa: "reporting s3 sa" and run4: "check_fullname e (answer_ptr ''fname'' s3) sa = (Ret r, sb)" and
      s4_eq: "s4 = stored (Some (\<lambda>p s. s\<lparr>full_name := Some p\<rparr>)) r sb"
    using get_field_check [OF s4] .
  have "reject sb = 0" using q4 by (simp add: s4_eq stored_def field_def split: option.splits)
  then obtain f where f: "str_at sa (answer_ptr ''fname'' s3) = Some f" "fit_name f"
    using check_fullname_accepts [OF run4] by blast
  then have "form_answer ''fname'' s3 = Some f" using answer_same [OF reporting_form [OF sa]] by (simp add: form_answer_def)
  then have "form_answer ''fname'' s = Some f" using a1 a2 answer_same [of s2 s3] a3 by simp
  moreover have "form_answer ''passwd2'' s = Some w" "form_answer ''passwd1'' s = Some w" using a1 a2 a3 w(1) by simp_all
  moreover have "cpt_pass t = mkpasswd e w" "good_login t" using l3 l4 a3 w(4,6) l(6) by (auto simp: later_def)
  ultimately show ?thesis using l(1,2,7) w(2) f(2) by (auto simp: form_accepted_def)
qed

section \<open>Accounts\<close>

text \<open>Whatever becomes of an application, it is only written down: no check and no error creates the account.\<close>

lemma take_value_rejecting:
  assumes "\<And>p. keeps rejecting (case process u e of None \<Rightarrow> ret (Some p) | Some f \<Rightarrow> f p)"
    and "\<And>r s. rejecting s (stored (storage u) r s)"
  shows "keeps rejecting (take_value e u p)"
proof -
  have "keeps rejecting (case r of None \<Rightarrow> ret () | Some q \<Rightarrow> (case storage u of None \<Rightarrow> ret () | Some st \<Rightarrow> upd (st q)))" for r
    using assms(2) [of _ r] by (cases r; cases "storage u") (auto simp: stored_def intro: rej.keeps_rules rej.keeps_upd)
  then show ?thesis unfolding take_value_def
    by (intro rej.keeps_bnd rej.keeps_sq rej.keeps_when deref_reports [THEN reports_reject] err_rejecting assms(1))
qed

lemma later_field_rejecting: "later_field e u \<Longrightarrow> keeps rejecting (take_value e u p)"
proof (rule take_value_rejecting)
  assume u: "later_field e u"
  show "keeps rejecting (case process u e of None \<Rightarrow> ret (Some q) | Some f \<Rightarrow> f q)" for q
  proof (cases "process u e")
    case (Some f)
    then have "keeps later (f q)" using u by (simp add: later_field_def del: split_paired_All)
    then show ?thesis using Some by (auto intro: keeps_mono simp: later_def)
  qed (simp add: rej.keeps_ret)
  show "rejecting s (stored (storage u) r s)" for r s using u by (auto simp: later_field_def later_def)
qed

lemma vartab_rejecting: "list_all (\<lambda>u. \<forall>p. keeps rejecting (take_value e u p)) vartab"
proof -
  have "keeps rejecting (take_value e (field n f (Some st)) p)"
    if "\<And>p. keeps rejecting (f e p)" and "\<And>q s. rejecting s (st q s)" for n f st p
    using that by (intro take_value_rejecting) (auto simp: field_def stored_def rej.frame_refl split: option.split)
  then have three: "list_all (\<lambda>u. \<forall>p. keeps rejecting (take_value e u p)) (take 3 vartab)"
    by (simp add: vartab_def check_login_rejecting check_passwd_rejecting rejecting_def calling_same del: split_paired_All)
  have "list_all (\<lambda>u. \<forall>p. keeps rejecting (take_value e u p)) (drop 3 vartab)"
    using later_fields [of e] by (rule list.pred_mono_strong) (simp add: later_field_rejecting del: split_paired_All)
  with three show ?thesis by (metis append_take_drop_id list_all_append)
qed

lemma get_fields_rejecting: "list_all (\<lambda>u. \<forall>p. keeps rejecting (take_value e u p)) us \<Longrightarrow> keeps rejecting (get_fields e us)"
  by (induction us) (auto simp: get_field_def intro!: rej.keeps_rules getvar_reports [THEN reports_reject] simp del: split_paired_All)

lemma rejecting_calling: "keeps rejecting m \<Longrightarrow> keeps calling m"
  by (erule keeps_mono) (simp add: rejecting_def)

lemma upd_calling: "(\<And>s. calls (f s) = calls s) \<Longrightarrow> keeps calling (upd f)"
  by (rule cal.keeps_upd) (simp add: calling_same)

lemma load_query_calling: "keeps calling (load_query q)"
  unfolding load_query_def by (intro cal.keeps_rules upd_calling; simp)

lemma err_calling: "keeps calling (err e ty fmt as)"
  by (intro rejecting_calling err_rejecting)

lemma get_query_calling: "keeps calling (get_query e)"
  unfolding get_query_def by (auto intro!: cal.keeps_rules upd_calling simp: Let_def split: option.split)

lemma get_user_info_calling: "keeps calling (wnu_get_user_info e q)"
  unfolding wnu_get_user_info_def
  by (intro cal.keeps_sq cal.keeps_gets load_query_calling get_fields_rejecting [THEN rejecting_calling] vartab_rejecting
      final_key_check_reports [THEN rejecting_calling] final_login_check_rejecting [THEN rejecting_calling] upd_calling) simp_all

lemma output_off_calling: "keeps calling (output_off e)"
  unfolding output_off_def by (intro cal.keeps_when err_calling)

lemma died_calling: "keeps calling (case d of None \<Rightarrow> ret () | Some m \<Rightarrow> die e m)"
  unfolding die_def by (intro cal.keeps_option cal.keeps_ret err_calling)

lemma show_page_calling: "keeps calling (show_page e f)"
  unfolding show_page_def
  by (intro cal.keeps_option cal.keeps_sq cal.keeps_ret puts_reports [THEN reports_reject, THEN rejecting_calling])

lemma read_config_calling: "keeps calling (library e ReadConfig d)"
  unfolding library_def
  by (intro cal.keeps_sq output_off_calling died_calling call_reports [THEN reports_reject, THEN rejecting_calling])

text \<open>A part of the run that calls no \<open>AddUser\<close>, and what comes before and after the one that does.\<close>

definition adds :: "wnu \<Rightarrow> bool" where
  "adds s \<longleftrightarrow> AddUser \<in> set (calls s)"

lemma adds_later: "keeps calling m \<Longrightarrow> m s = (r, t) \<Longrightarrow> adds t \<Longrightarrow> adds s"
  by (drule (1) keepsD) (auto simp: calling_def adds_def)

lemma adds_bnd:
  assumes "bnd m k s = (r, t)" and "keeps calling m" and "adds t" and "\<not> adds s"
  obtains a u where "m s = (Ret a, u)" and "k a u = (r, t)" and "\<not> adds u"
proof -
  obtain o1 u where u: "m s = (o1, u)" by fastforce
  have "\<not> adds u" using adds_later [OF assms(2) u] assms(4) by blast
  then show thesis using that assms(1,3) u by (cases o1) (auto simp: bnd_def)
qed

lemma adds_sq:
  assumes "sq m n s = (r, t)" and "keeps calling m" and "adds t" and "\<not> adds s"
  obtains a u where "m s = (Ret a, u)" and "n u = (r, t)" and "\<not> adds u"
  using assms unfolding sq_def by (rule adds_bnd)

text \<open>What \<open>main\<close> does with a form.\<close>

definition apply_for :: "'x wnu_env_scheme \<Rightarrow> string option \<Rightarrow> unit wnup" where
  "apply_for e q = bnd (wnu_get_user_info e q) (\<lambda>r.
     if r \<noteq> 0 then sq end_err (exit_prog 1)
     else sq (upd (\<lambda>s. s\<lparr>log_fwrt := True\<rparr>))
       (sq (library e AddUser (add_user_dies e)) (bnd (show_page e (welcome_html e)) (\<lambda>_. exit_prog 0))))"

lemma system_err_exits: "err e SYSTEM fmt as s \<noteq> (Ret u, t)"
  unfolding err_def SYSTEM_def by (auto elim!: bnd_RetE sq_RetE simp: exit_prog_def)

text \<open>
  A run that accepts an application has met no error, so what each check demands holds of the form that was loaded.
\<close>

lemma accepted_run:
  assumes "wnu_get_user_info e q s = (Ret 0, t)"
  shows "\<exists>s1 c1 c2 p l. load_query q (s\<lparr>reject := 0\<rparr>) = (Ret (), s1) \<and> form_accepted e s1 t \<and>
    norm_keys t = keyval t \<and> list_all (\<lambda>(i, j). keyval t ! i \<noteq> keyval t ! j) key_pairs \<and>
    calls t = c1 @ SetLock # c2 \<and> UnLock \<notin> set c2 \<and>
    loginid t = Some p \<and> str_at t p = Some l \<and> login_free e (passwd e) l \<and> login_free e ETCPASSWD l"
proof -
  obtain s1 s2 s3 where s1: "load_query q (s\<lparr>reject := 0\<rparr>) = (Ret (), s1)" and
    s2: "get_fields e vartab (s1\<lparr>loginid := None, userpass := None\<rparr>) = (Ret (), s2)" and
    s3: "final_key_check e s2 = (Ret (), s3)" and s4: "final_login_check e s3 = (Ret (), t)" and quiet: "reject t = 0"
    using assms by (auto simp: wnu_get_user_info_def upd_def gets_def elim!: sq_RetE)
  have q3: "reject s3 = 0" using keepsD [OF final_login_check_rejecting s4] quiet by (auto simp: rejecting_def)
  note k = final_key_check_quiet [OF s3 q3]
  have q2: "reject s2 = 0" using k q3 by simp
  have acc: "form_accepted e (s1\<lparr>loginid := None, userpass := None\<rparr>) s2 \<and> good_login s2"
    using get_fields_accepted [OF s2 q2] by simp
  have good: "good_login s3" "reject s3 = 0" using k acc q3 by simp_all
  note fin = final_login_check_quiet [OF s4 quiet good]
  have "same_form s1 (s1\<lparr>loginid := None, userpass := None\<rparr>)" by (simp add: same_form_def)
  then have "form_accepted e s1 t" using acc fin k answer_same by (simp add: form_accepted_def)
  then show ?thesis using s1 k fin by auto
qed

lemma apply_for_adds:
  assumes run: "apply_for e q s = (r, t)" and add: "adds t" and start: "\<not> adds s"
  shows "\<exists>u c. wnu_get_user_info e q s = (Ret 0, u) \<and> calls t = calls u @ AddUser # c \<and> AddUser \<notin> set c"
proof -
  obtain a u where u: "wnu_get_user_info e q s = (Ret a, u)" and clean: "\<not> adds u" and
    k: "(if a \<noteq> 0 then sq end_err (exit_prog 1)
     else sq (upd (\<lambda>s. s\<lparr>log_fwrt := True\<rparr>))
       (sq (library e AddUser (add_user_dies e)) (bnd (show_page e (welcome_html e)) (\<lambda>_. exit_prog 0)))) u = (r, t)"
    using run unfolding apply_for_def by (rule adds_bnd) (use get_user_info_calling add start in auto)
  have "keeps calling (sq end_err (exit_prog 1))"
    by (intro cal.keeps_sq cal.keeps_exit rejecting_calling end_err_reports [THEN reports_reject])
  then have a: "a = 0" using adds_later k add clean by (auto split: if_splits)
  let ?after = "sq (case add_user_dies e of None \<Rightarrow> ret () | Some m \<Rightarrow> die e m) (bnd (show_page e (welcome_html e)) (\<lambda>_. exit_prog 0))"
  have after: "keeps calling ?after"
    by (intro cal.keeps_sq cal.keeps_bnd cal.keeps_exit died_calling show_page_calling)
  have "sq (output_off e) (sq (call AddUser) ?after) (u\<lparr>log_fwrt := True\<rparr>) = (r, t)"
    using k a unfolding library_def sq_assoc by (simp add: sq_def bnd_def upd_def)
  then obtain b v where v: "output_off e (u\<lparr>log_fwrt := True\<rparr>) = (Ret b, v)" and w: "sq (call AddUser) ?after v = (r, t)"
    by (rule adds_sq [OF _ output_off_calling add]) (use clean in \<open>simp_all add: adds_def\<close>)
  have "calls v = calls u" using v by (auto simp: system_err_exits output_off_def whenP_def ret_def split: if_splits)
  moreover have "calling (v\<lparr>calls := calls v @ [AddUser]\<rparr>) t"
    using w keepsD [OF after] by (auto simp: sq_def bnd_def call_def upd_def)
  ultimately show ?thesis using u a by (auto simp: calling_def)
qed

lemma begin_calling: "keeps calling (wnu_begin e)"
  unfolding wnu_begin_def by (intro cal.keeps_sq cal.keeps_bnd cal.keeps_when cal.keeps_ret err_calling get_query_calling read_config_calling)

lemma begin_uid: "wnu_begin e s = (Ret q, u) \<Longrightarrow> getuid e = http_uid e"
  by (auto simp: wnu_begin_def system_err_exits whenP_def elim!: sq_RetE split: if_splits)

text \<open>
  C7: An account is created only for an application that was accepted, and at most once. When the program has called the routine that
  adds a user, it runs as the user of the web server, and the run is this: the start ended with the form's text, which was loaded
  without an error and gives a login of one to eight lower-case letters and digits beginning with a letter, twice the same password of
  four to forty printable characters that is neither the login nor the word password, and a full name of three to forty allowed
  characters once trimmed; no two control keys are the same, the login is in neither password file, the password
  file was locked and not unlocked since, and then the routine was called, this once in the whole run.
\<close>

theorem accounts_only_for_accepted:
  assumes "wnu_main e s = (r, t)" and "AddUser \<in> set (calls t)" and "AddUser \<notin> set (calls s)"
  shows "\<exists>q s0 s1 u p l c1 c2 c3. getuid e = http_uid e \<and> wnu_begin e s = (Ret q, s0) \<and> wnu_get_user_info e q s0 = (Ret 0, u) \<and>
    load_query q (s0\<lparr>reject := 0\<rparr>) = (Ret (), s1) \<and> form_accepted e s1 u \<and>
    norm_keys u = keyval u \<and> list_all (\<lambda>(i, j). keyval u ! i \<noteq> keyval u ! j) key_pairs \<and>
    loginid u = Some p \<and> str_at u p = Some l \<and> login_free e (passwd e) l \<and> login_free e ETCPASSWD l \<and>
    calls u = c1 @ SetLock # c2 \<and> UnLock \<notin> set c2 \<and> AddUser \<notin> set (calls u) \<and>
    calls t = calls u @ AddUser # c3 \<and> AddUser \<notin> set c3"
proof -
  have add: "adds t" and start: "\<not> adds s" using assms(2,3) by (simp_all add: adds_def)
  have "bnd (wnu_begin e) (apply_for e) s = (r, t)"
    using assms(1) unfolding wnu_main_def apply_for_def [abs_def] .
  then obtain q s0 where s0: "wnu_begin e s = (Ret q, s0)" and run: "apply_for e q s0 = (r, t)" and n: "\<not> adds s0"
    by (rule adds_bnd) (intro begin_calling add start)+
  obtain u c where u: "wnu_get_user_info e q s0 = (Ret 0, u)" and c: "calls t = calls u @ AddUser # c" "AddUser \<notin> set c"
    using apply_for_adds [OF run add n] by blast
  obtain s1 c1 c2 p l where s1: "load_query q (s0\<lparr>reject := 0\<rparr>) = (Ret (), s1)" "form_accepted e s1 u"
      "norm_keys u = keyval u" "list_all (\<lambda>(i, j). keyval u ! i \<noteq> keyval u ! j) key_pairs"
      "loginid u = Some p" "str_at u p = Some l" "login_free e (passwd e) l" "login_free e ETCPASSWD l"
    and calls: "calls u = c1 @ SetLock # c2" "UnLock \<notin> set c2"
    using accepted_run [OF u] by blast
  have "AddUser \<notin> set (calls u)"
    using adds_later [OF get_user_info_calling u] n by (auto simp: adds_def)
  then show ?thesis using begin_uid [OF s0] s0 u s1 calls c by blast
qed

definition form_of_abe :: string where
  "form_of_abe = ''login=ab&passwd1=sesa&passwd2=sesa&fname=Abe+&term=ansi''"

definition small_list :: flist where
  "small_list = \<lparr>fl_keys = [''csh''], fl_many = 1, fl_name = (\<lambda>_. ''csh''), fl_towhat = (\<lambda>_. ''/bin/csh''), fl_bang = (\<lambda>_. [])\<rparr>"

definition small_site :: wnu_env where
  "small_site = \<lparr>request_method = Some ''GET'', content_length = None, query_string = Some form_of_abe, system_name = ''Grex'',
     wnu_log = ''log'', log_opens = True, now_text = [], real_env = (\<lambda>_. None), rmdir_on_error = None, var_is_null = True,
     other_format = (\<lambda>_ _. []), kwscan = (\<lambda>_ _. 1), sh = small_list, ed = small_list, tgetent = (\<lambda>_. 1), noval = None,
     crypt = (\<lambda>p _. p), mkpasswd = (\<lambda>p. ''*'' @ p), isalias = (\<lambda>_. 1), rpwd = [], passwd = ''/etc/passwd'',
     file_text = (\<lambda>f. if f = ''/etc/passwd'' then Some ''bob:*:7:7:Bob:/b:/sh\<newline>'' else None), maxstring = 100, getpwnam = (\<lambda>_. None),
     checkdirs = False, usr = ''/u'', usr_dir = None, can_access = (\<lambda>_. False), getuid = 67, http_uid = 67, nu_dir = ''/nu'',
     chdir_works = True, dev_null_opens = True, config_dies = None, add_user_dies = None, welcome_html = ''w''\<rparr>"

lemma abe_is_accepted: "fst (wnu_get_user_info small_site (Some form_of_abe) (wnu_start []\<lparr>calls := [ReadConfig]\<rparr>)) = Ret 0"
  by code_simp

lemma abe_gets_account: "\<exists>t. wnu_main small_site (wnu_start []) = (Exit 0, t) \<and> AddUser \<in> set (calls t)"
proof -
  obtain u where "wnu_get_user_info small_site (Some form_of_abe) (wnu_start []\<lparr>calls := [ReadConfig]\<rparr>) = (Ret 0, u)"
    using abe_is_accepted by (metis prod.collapse)
  moreover have "wnu_start []\<lparr>calls := [ReadConfig]\<rparr> = wnu_start []\<lparr>calls := calls (wnu_start []) @ [ReadConfig]\<rparr>"
    by (simp add: wnu_start_def)
  ultimately show ?thesis
    by (simp add: wnu_main_def wnu_begin_def library_def output_off_def call_def show_page_def get_query_def form_env.truncate_def small_site_def
        sq_def bnd_def upd_def whenP_def ret_def exit_prog_def)
qed

lemma accounts_only_for_accepted_witness:
  "\<exists>t q s0 u c3. wnu_main small_site (wnu_start []) = (Exit 0, t) \<and> wnu_begin small_site (wnu_start []) = (Ret q, s0) \<and>
    wnu_get_user_info small_site q s0 = (Ret 0, u) \<and> AddUser \<notin> set (calls u) \<and> calls t = calls u @ AddUser # c3 \<and> AddUser \<notin> set c3"
proof -
  obtain t where t: "wnu_main small_site (wnu_start []) = (Exit 0, t)" and "AddUser \<in> set (calls t)"
    using abe_gets_account by blast
  moreover have "AddUser \<notin> set (calls (wnu_start []))" by (simp add: wnu_start_def)
  ultimately show ?thesis using accounts_only_for_accepted [OF t] by blast
qed

end
