(* ===== verification/WnuRuns.thy ===== *)
theory WnuRuns
  imports WnuMain
begin

unbundle bit_operations_syntax

text \<open>
  That the program for new web users always ends, and that text it was given cannot become markup of its pages.
\<close>

section \<open>Text on a page\<close>

text \<open>What a browser shows for a text without tags.\<close>

fun shown_text :: "string \<Rightarrow> string" where
  "shown_text [] = []"
| "shown_text (c # cs) =
     (if c = CHR ''&'' then
        (if take 3 cs = ''lt;'' then CHR ''<'' # shown_text (drop 3 cs)
         else if take 3 cs = ''gt;'' then CHR ''>'' # shown_text (drop 3 cs)
         else if take 4 cs = ''amp;'' then CHR ''&'' # shown_text (drop 4 cs)
         else c # shown_text cs)
      else c # shown_text cs)"

lemma shown_expanded: "shown_text (expand_char False c @ x) = c # shown_text x"
  by (simp add: expand_char_def)

lemma shown_concat: "shown_text (concat (map (expand_char False) s) @ x) = s @ shown_text x"
  by (induction s) (simp_all add: shown_expanded)

lemma shown_pad: "shown_text (replicate n SPC @ x) = replicate n SPC @ shown_text x"
  by (induction n) simp_all

lemma caret_tagless:
  assumes "\<not> isprint c" and "byte c < 128" and "byte c \<noteq> 127"
  shows "char_of (byte c + 64) \<noteq> CHR ''<''" "char_of (byte c + 64) \<noteq> CHR ''>''"
proof -
  have "byte c < 32" using assms by (auto simp: isprint_def)
  then have "64 \<le> byte (char_of (byte c + 64) :: char)" by simp
  moreover have "byte CHR ''<'' < 64" "byte CHR ''>'' < 64" by simp_all
  ultimately show "char_of (byte c + 64) \<noteq> CHR ''<''" "char_of (byte c + 64) \<noteq> CHR ''>''"
    by (metis not_less)+
qed

lemma expanded_tagless:
  assumes "k \<Longrightarrow> isascii c"
  shows "CHR ''<'' \<notin> set (expand_char k c) \<and> CHR ''>'' \<notin> set (expand_char k c)"
  using assms caret_tagless [of c] by (auto simp: expand_char_def Let_def isascii_def not_le)

lemma expanded_list_tagless:
  assumes "k \<longrightarrow> list_all isascii s"
  shows "CHR ''<'' \<notin> set (concat (map (expand_char k) s)) \<and> CHR ''>'' \<notin> set (concat (map (expand_char k) s))"
  using assms by (induction s) (use expanded_tagless in \<open>fastforce+\<close>)

lemma print_expand_tagless:
  assumes "k \<longrightarrow> list_all isascii s"
  shows "CHR ''<'' \<notin> set (print_expand s l k m n) \<and> CHR ''>'' \<notin> set (print_expand s l k m n)"
proof -
  have "k \<longrightarrow> list_all isascii (take i s)" for i using assms by (auto simp: list_all_iff dest: in_set_takeD)
  from expanded_list_tagless [OF this] show ?thesis unfolding print_expand_def Let_def by auto
qed

text \<open>The text in its field, as \<open>printf\<close> would print it.\<close>

definition in_field :: "string \<Rightarrow> bool \<Rightarrow> int \<Rightarrow> int \<Rightarrow> string" where
  "in_field s l m n = (let x = (if n = -1 then s else take (nat n) s); pad = replicate (nat (m - int (length x))) SPC in
     if l then x @ pad else pad @ x)"

text \<open>
  C39: A text put on a page holds no angle bracket, so it opens and closes no tag, unless control characters are
  expanded and it has bytes outside ASCII; and without that expansion a browser shows exactly the text, cut to the
  precision and padded to the width.
\<close>

theorem page_text_inert:
  assumes "-1 \<le> n"
  shows "(list_all isascii s \<or> \<not> k \<longrightarrow> CHR ''<'' \<notin> set (print_expand s l k m n) \<and> CHR ''>'' \<notin> set (print_expand s l k m n)) \<and>
    shown_text (print_expand s l False m n) = in_field s l m n"
proof -
  let ?t = "take (nat (if n \<noteq> -1 \<and> n < int (length s) then n else int (length s))) s"
  have t: "?t = (if n = -1 then s else take (nat n) s)" by auto
  have len: "int (length ?t) = (if n \<noteq> -1 \<and> n < int (length s) then n else int (length s))" using assms by auto
  have shown: "shown_text (concat (map (expand_char False) x)) = x" "shown_text (replicate i SPC) = replicate i SPC" for x i
    using shown_concat [of x "[]"] shown_pad [of i "[]"] by simp_all
  have "shown_text (print_expand s l False m n) = in_field s l m n"
    unfolding print_expand_def in_field_def Let_def t [symmetric] len
    by (simp add: shown_concat shown_pad shown)
  then show ?thesis using print_expand_tagless [of k s l m n] by auto
qed

lemma page_text_inert_witness:
  "CHR ''<'' \<notin> set (print_expand ''<b>&'' False True 6 3) \<and> shown_text (print_expand ''<b>&'' False False 6 3) = ''   <b>''"
proof -
  have "in_field ''<b>&'' False 6 3 = ''   <b>''" "list_all isascii ''<b>&''" by code_simp+
  then show ?thesis using page_text_inert [of 3 "''<b>&''" True False 6] by auto
qed

section \<open>Every run ends\<close>

lemma settles_text: "settles (puts x)" "settles (deref p)" "settles (log_text y)" "settles (call c)"
  by (simp_all add: puts_def log_text_def call_def settles_basic)
    (simp add: settles_def fuelled_def no_hang_def deref_def split: option.split)

lemmas settles_rules = settles_text settling

text \<open>The log of a form goes through its entries once, so their number is fuel enough.\<close>

definition fine :: "('a, 's) prog \<Rightarrow> 's \<Rightarrow> bool" where
  "fine m s \<longleftrightarrow> fst (m s) \<noteq> NoFuel \<and> fst (m s) \<noteq> Hang"

lemma settles_fine: "settles m \<longleftrightarrow> (\<forall>s. fine m s)"
  by (auto simp: settles_run fine_def)

definition same_curr :: "wnu \<Rightarrow> wnu \<Rightarrow> bool" where
  "same_curr s t \<longleftrightarrow> curr t = curr s"

interpretation cur: frame_rel same_curr
  by unfold_locales (auto simp: same_curr_def)

lemma fine_bnd:
  assumes "settles m" and "keeps same_curr m" and "\<And>a t. curr t = curr s \<Longrightarrow> fine (k a) t"
  shows "fine (bnd m k) s"
proof (cases "m s")
  case (Pair r t)
  have "curr t = curr s" using keepsD [OF assms(2) Pair] by (simp add: same_curr_def)
  moreover have "r \<noteq> NoFuel" "r \<noteq> Hang" using assms(1) Pair by (auto simp: settles_run dest: spec [of _ s])
  ultimately show ?thesis using assms(3) Pair by (cases r) (auto simp: bnd_def fine_def)
qed

lemma fine_sq: "settles m \<Longrightarrow> keeps same_curr m \<Longrightarrow> (\<And>t. curr t = curr s \<Longrightarrow> fine n t) \<Longrightarrow> fine (sq m n) s"
  unfolding sq_def by (rule fine_bnd)

lemma log_keeps_curr: "keeps same_curr (deref p)" "keeps same_curr (log_text x)"
  by (auto simp: keeps_def deref_def same_curr_def log_text_def upd_def split: option.splits)

lemma log_value_runs: "settles (log_value p v)" "keeps same_curr (log_value p v)"
  unfolding log_value_def by (intro settles_rules cur.keeps_rules log_keeps_curr)+

lemma log_fields_settle: "r = None \<or> length (curr s) \<le> n \<and> curr s \<noteq> [] \<Longrightarrow> fine (log_fields n r) s"
proof (induction n arbitrary: r s)
  case (Suc n)
  show ?case
  proof (cases r)
    case (Some x)
    then obtain var v where r: "r = Some (var, v)" by (cases x) auto
    have next1: "fine (bnd nextvar (\<lambda>r. case r of None \<Rightarrow> ret () | Some _ \<Rightarrow> log_fields n r)) t" if "curr t = curr s" for t
    proof (cases "tl (curr s)")
      case (Cons f fs)
      then have "length (f # fs) \<le> n" using Suc.prems r by (cases "curr s") auto
      then have "fine (log_fields n (Some p)) (t\<lparr>curr := f # fs\<rparr>)" for p by (intro Suc.IH) simp
      then show ?thesis using Cons that by (simp add: nextvar_def fine_def bnd_def sq_def upd_def gets_def)
    qed (use that in \<open>simp add: nextvar_def fine_def bnd_def sq_def upd_def gets_def ret_def\<close>)
    show ?thesis unfolding r log_fields.simps
      by (rule fine_bnd [OF settles_text(2) log_keeps_curr(1)], rule fine_sq [OF settles_text(3) log_keeps_curr(2)], rule fine_sq)
        (intro settles_rules cur.keeps_rules log_value_runs log_keeps_curr, intro settles_rules cur.keeps_rules log_value_runs log_keeps_curr,
         simp add: next1)
  qed (simp add: fine_def undef_def)
qed (auto simp: fine_def undef_def)

lemma vcgiprintf_settles: "settles (vcgiprintf e fmt as)"
  unfolding vcgiprintf_def by (intro settles_rules)

lemma err_page_settles: "settles (err_page e ty fmt as)"
  unfolding err_page_def print_cgi_header_def by (intro settles_rules vcgiprintf_settles)

lemma log_entries_settle: "settles (bnd (gets (length \<circ> entries)) (\<lambda>n. bnd firstvar (log_fields n)))"
  using log_fields_settle unfolding settles_fine firstvar_def
  by (auto simp: fine_def bnd_def sq_def gets_def upd_def split: list.split)

lemma log_error_settles: "settles (log_error e who fmt as)"
  unfolding log_error_def by (intro settles_rules err_page_settles log_entries_settle)

lemma end_err_settles: "settles end_err"
  unfolding end_err_def print_cgi_trailer_def by (intro settles_rules)

lemma err_settles: "settles (err e ty fmt as)"
  unfolding err_unfold by (intro settles_rules err_page_settles log_error_settles end_err_settles)

lemmas check_settles = settles_rules err_settles

lemma same_as_settles: "settles (same_as g v)" "settles (global_str g)"
  unfolding same_as_def global_str_def by (intro settles_rules)+

lemma passwd_chars_settle: "settles (passwd_chars e cs)"
  by (induction cs) (auto intro!: check_settles)

lemma login_chars_settle: "settles (login_chars e v cs)"
  by (induction cs) (auto intro!: check_settles)

lemma name_chars_settle: "settles (name_chars e p ebc cs)"
  by (induction cs arbitrary: p ebc) (auto simp: Let_def poke_def intro!: check_settles)

lemma poke_settles: "settles (poke p x)" "settles (getvar n)" "settles firstvar" "settles nextvar"
  by (simp_all add: poke_def getvar_def settles_basic firstvar_def nextvar_def settles_sq)

lemmas login_settles = check_settles poke_settles same_as_settles passwd_chars_settle login_chars_settle name_chars_settle

lemma check_fullname_settles: "settles (check_fullname e p)"
  unfolding check_fullname_def name_end_def name_length_def Let_def by (intro login_settles)

lemma check_flist_settles: "settles (check_flist e p w fl)"
  unfolding check_flist_def Let_def by (intro login_settles)

lemma check_shell_settles: "settles (check_shell e p)" "settles (check_editor e p)"
  unfolding check_shell_def check_editor_def by (intro login_settles check_flist_settles)+

lemma check_terminal_settles: "settles (check_terminal e p)"
  unfolding check_terminal_def Let_def by (intro login_settles)

lemma check_key_settles: "settles (check_key e p k)"
  unfolding check_key_def set_key_def test_reserved_def Let_def by (intro login_settles)

lemma check_keys_settle: "settles (check_backspace e p)" "settles (check_interupt e p)" "settles (check_kill e p)"
  unfolding check_backspace_def check_interupt_def check_kill_def by (intro login_settles check_key_settles)+

lemma set_flags_settle: "settles (set_sex p)" "settles (set_paranoia p)" "settles (clean_text p)"
  unfolding set_sex_def set_paranoia_def clean_text_def Let_def by (intro login_settles)+

lemma check_passwd_settles: "settles (check_passwd e p)"
  unfolding check_passwd_def by (intro login_settles)

lemma check_login_settles: "settles (check_login e p)"
  unfolding check_login_def login_format_def login_use_def bad_login_def check_reserved_def Let_def by (intro login_settles)

lemmas processes_settle = check_fullname_settles check_shell_settles check_terminal_settles check_keys_settle set_flags_settle
  check_passwd_settles check_login_settles

lemma vartab_settles: "list_all (\<lambda>u. \<forall>f p. process u e = Some f \<longrightarrow> settles (f p)) vartab"
  by (simp add: vartab_def field_def plain_field_def processes_settle)

lemma get_field_settles: "\<forall>f p. process u e = Some f \<longrightarrow> settles (f p) \<Longrightarrow> settles (get_field e u)"
  unfolding get_field_def take_value_def by (intro login_settles) (simp_all del: split_paired_All)

lemma get_fields_settle: "list_all (\<lambda>u. \<forall>f p. process u e = Some f \<longrightarrow> settles (f p)) us \<Longrightarrow> settles (get_fields e us)"
  by (induction us) (auto intro!: settles_rules get_field_settles simp del: split_paired_All)

lemma pwd_scan_settles: "settles (pwd_scan q l ws)"
  by (induction ws) (auto intro!: login_settles split: prod.split)

lemma usr_scan_settles: "settles (usr_scan u l ds)"
  by (induction ds) (auto intro!: login_settles split: option.split)

lemma final_checks_settle: "settles (final_key_check e)" "settles (final_login_check e)"
  unfolding final_key_check_def final_login_check_def taken_by_def place_free_def check_pwd_def check_usr_def quick_check_dir_def dir_in_use_def Let_def
  by (intro login_settles pwd_scan_settles usr_scan_settles)+

lemma load_query_settles: "settles (load_query q)" "settles (get_query d)"
  unfolding load_query_def get_query_def Let_def by (intro settles_rules)+

lemma main_settles: "settles (wnu_main e)"
  unfolding wnu_main_def wnu_begin_def wnu_get_user_info_def library_def output_off_def die_def show_page_def
  by (intro login_settles load_query_settles final_checks_settle get_fields_settle vartab_settles end_err_settles)

lemma main_no_return: "no_return (wnu_main e)"
  unfolding wnu_main_def by (intro no_return_rules)

text \<open>
  C38: The program for new web users always ends: whatever the form, the files and the answers of the account library,
  a run exits or meets undefined behaviour.
\<close>

theorem wnu_main_ends: "(\<exists>c t. wnu_main e s = (Exit c, t)) \<or> (\<exists>t. wnu_main e s = (Undef, t))"
proof -
  obtain r t where run: "wnu_main e s = (r, t)" by fastforce
  have "r \<noteq> NoFuel" "r \<noteq> Hang" "r \<noteq> Ret a" for a
    using main_settles [of e] main_no_return [of e] run unfolding settles_run no_return_def by (metis fst_conv)+
  then show ?thesis using run by (cases r) auto
qed

end
