(* ===== verification/WnuTerms.thy ===== *)
theory WnuTerms
  imports WnuPage
begin

text \<open>
  The page of terminal types (\<open>print-terms.c\<close> of \<open>soft/apps/ownu\<close>): one name of every entry of the terminal
  database, five to a row.
\<close>

section \<open>The program\<close>

abbreviation COLS :: nat where "COLS \<equiv> 5"

record terms = tty +
  col :: nat

type_synonym 'a termp = "('a, terms) prog"

definition cgi_text :: "string \<Rightarrow> carg list \<Rightarrow> unit termp" where
  "cgi_text fmt args = (case vcgifprintf (\<lambda>_ _. []) fmt args of
     None \<Rightarrow> undef
   | Some (x, _) \<Rightarrow> puts (concat (map snd x)))"

definition print_a_term :: "bool \<Rightarrow> string \<Rightarrow> unit termp" where
  "print_a_term tables term =
     sq (cgi_text (if tables then ''<TD>%S</TD>'' else ''%-12.12S '') [AStr term])
     (sq (upd (\<lambda>s. s\<lparr>col := col s + 1\<rparr>))
     (bnd (gets col) (\<lambda>c. whenP (c = COLS)
       (sq (puts (if tables then ''</TR>\<newline><TR>'' else ''\<newline>'')) (upd (\<lambda>s. s\<lparr>col := 0\<rparr>))))))"

definition name_byte :: "char \<Rightarrow> bool" where
  "name_byte c \<longleftrightarrow> isdigit c \<or> islower c \<or> isupper c \<or> c = CHR ''-''"

text \<open>The alternative at the front of a line, and the best one so far.\<close>

definition alternative :: "string \<Rightarrow> string" where
  "alternative st = takeWhile (\<lambda>c. c \<noteq> CHR ''|'' \<and> c \<noteq> CHR '':'') st"

definition better :: "nat \<Rightarrow> string option \<Rightarrow> string \<Rightarrow> string option" where
  "better len bst a = (if list_all name_byte a \<and> length a \<le> len \<and> (case bst of None \<Rightarrow> True | Some b \<Rightarrow> length b \<le> length a)
     then Some a else bst)"

lemma after_shorter: "drop n st \<noteq> [] \<Longrightarrow> length (tl (drop n st)) < length st"
  by (cases st) auto

function longest_from :: "nat \<Rightarrow> string option \<Rightarrow> string \<Rightarrow> string option" where
  "longest_from len bst st = (let a = alternative st; en = drop (length a) st; bst' = better len bst a in
     if en \<noteq> [] \<and> hd en = CHR ''|'' then longest_from len bst' (tl en) else bst')"
  by pat_completeness auto
termination
proof (relation "measure (\<lambda>(_, _, st). length st)", goal_cases)
  case (2 len bst st a en bst')
  then show ?case using after_shorter [of "length a" st] by simp
qed simp

declare longest_from.simps [simp del]

definition getlongest :: "string \<Rightarrow> nat \<Rightarrow> string option" where
  "getlongest cp len = longest_from len None cp"

text \<open>
  Lines come from a file in pieces of at most 299 bytes. A last piece that ends neither with a newline nor by its
  length sets the end-of-file flag when it is read, and is dropped.
\<close>

definition whole_piece :: "string \<Rightarrow> bool" where
  "whole_piece x \<longleftrightarrow> length x = 299 \<or> (x \<noteq> [] \<and> last x = NL)"

fun pterms_loop :: "bool \<Rightarrow> string list \<Rightarrow> unit termp" where
  "pterms_loop tables [] = ret ()"
| "pterms_loop tables (x # xs) = (if \<not> whole_piece x then ret ()
     else let inputline = cstr x in
       if inputline \<noteq> [] \<and> hd inputline \<in> {CHR ''#'', TAB, SPC} then pterms_loop tables xs
       else case getlongest inputline 10 of
         None \<Rightarrow> pterms_loop tables xs
       | Some name \<Rightarrow> sq (print_a_term tables name) (pterms_loop tables xs))"

definition pterms :: "bool \<Rightarrow> string option \<Rightarrow> unit termp" where
  "pterms tables termcap = (case termcap of
     None \<Rightarrow> puts ''Could't open termcap file\<newline>''
   | Some f \<Rightarrow> pterms_loop tables (pieces 299 f))"

definition page_head :: "string \<Rightarrow> string" where
  "page_head title = ''Content-type: text/html\<newline>\<newline><HTML><HEAD>\<newline><TITLE>'' @ title @
     ''</TITLE>\<newline></HEAD><BODY>\<newline><H1>'' @ title @ ''</H1>\<newline>''"

definition terms_main :: "string \<Rightarrow> bool \<Rightarrow> string option \<Rightarrow> unit termp" where
  "terms_main sysname tables termcap =
     sq (puts (page_head (''Valid '' @ sysname @ '' Terminal Types'')))
     (sq (puts (if tables then ''<TABLE>\<newline><TR>'' else ''<PRE>\<newline>''))
     (sq (upd (\<lambda>s. s\<lparr>col := 0\<rparr>))
     (sq (pterms tables termcap)
     (sq (whenP tables (puts ''</TR>\<newline></TABLE>\<newline>''))
       (puts ''</BODY></HTML>\<newline>'')))))"

section \<open>The name of an entry\<close>

text \<open>The alternatives of a line: what stands between bars before the first colon.\<close>

function alternatives :: "string \<Rightarrow> string list" where
  "alternatives st = (let a = alternative st; en = drop (length a) st in
     a # (if en \<noteq> [] \<and> hd en = CHR ''|'' then alternatives (tl en) else []))"
  by pat_completeness auto
termination
proof (relation "measure length", goal_cases)
  case (2 st a en)
  then show ?case using after_shorter [of "length a" st] by simp
qed simp

declare alternatives.simps [simp del]

definition fits_name :: "nat \<Rightarrow> string \<Rightarrow> bool" where
  "fits_name len a \<longleftrightarrow> list_all name_byte a \<and> length a \<le> len"

lemma longest_fold: "longest_from len bst st = fold (\<lambda>a b. better len b a) (alternatives st) bst"
proof (induction len bst st rule: longest_from.induct)
  case (1 len bst st)
  show ?case by (subst longest_from.simps, subst alternatives.simps) (simp add: Let_def 1)
qed

definition best_of :: "nat \<Rightarrow> string list \<Rightarrow> string option \<Rightarrow> bool" where
  "best_of len as r \<longleftrightarrow> (case r of None \<Rightarrow> list_all (\<lambda>a. \<not> fits_name len a) as
   | Some b \<Rightarrow> \<exists>pre post. as = pre @ b # post \<and> fits_name len b \<and>
       list_all (\<lambda>a. fits_name len a \<longrightarrow> length a \<le> length b) pre \<and> list_all (\<lambda>a. fits_name len a \<longrightarrow> length a < length b) post)"

lemma best_newest:
  "list_all (\<lambda>c. fits_name len c \<longrightarrow> length c \<le> length a) as \<Longrightarrow> fits_name len a \<Longrightarrow> best_of len (as @ [a]) (Some a)"
  unfolding best_of_def option.case by (intro exI [of _ as] exI [of _ "[]"]) simp

lemma best_snoc: "best_of len as r \<Longrightarrow> best_of len (as @ [a]) (better len r a)"
proof (cases r)
  case (Some b)
  assume "best_of len as r"
  then obtain pre post where as: "as = pre @ b # post" "fits_name len b" "list_all (\<lambda>a. fits_name len a \<longrightarrow> length a \<le> length b) pre"
      "list_all (\<lambda>a. fits_name len a \<longrightarrow> length a < length b) post"
    using Some by (auto simp: best_of_def)
  show ?thesis
  proof (cases "fits_name len a \<and> length b \<le> length a")
    case True
    then have "list_all (\<lambda>c. fits_name len c \<longrightarrow> length c \<le> length a) as" using as by (fastforce simp: list_all_iff)
    then have "best_of len (as @ [a]) (Some a)" using True by (intro best_newest) simp_all
    then show ?thesis using True Some by (simp add: better_def fits_name_def)
  next
    case False
    then have "best_of len (as @ [a]) (Some b)"
      unfolding best_of_def option.case using as by (intro exI [of _ pre] exI [of _ "post @ [a]"]) auto
    then show ?thesis using False Some by (auto simp: better_def fits_name_def)
  qed
next
  case None
  assume "best_of len as r"
  then have "list_all (\<lambda>c. \<not> fits_name len c) as" using None by (simp add: best_of_def)
  moreover from this have "list_all (\<lambda>c. fits_name len c \<longrightarrow> length c \<le> length a) as" by (simp add: list_all_iff)
  ultimately show ?thesis
    using None best_newest [of len a as] by (cases "fits_name len a") (simp_all add: better_def fits_name_def [symmetric] best_of_def)
qed

lemma fold_best: "best_of len as (fold (\<lambda>a b. better len b a) as None)"
  by (induction as rule: rev_induct) (simp add: best_of_def, simp add: best_snoc)

text \<open>
  The name printed for an entry is the last of the longest of its alternatives that are made of letters,
  digits and hyphens only and no longer than allowed; without such an alternative there is none.
\<close>

lemma longest_alternative: "best_of len (alternatives cp) (getlongest cp len)"
  unfolding getlongest_def longest_fold by (rule fold_best)

lemma getlongest_name: "getlongest cp len = Some b \<Longrightarrow> list_all name_byte b"
  using fold_best [of len "alternatives cp"] by (auto simp: getlongest_def longest_fold best_of_def fits_name_def)

section \<open>The page\<close>

lemma name_byte_plain: "name_byte c \<Longrightarrow> expand_char False c = [c]"
  by (auto simp: name_byte_def expand_char_def isdigit_def islower_def isupper_def)

lemma name_plain: "list_all name_byte t \<Longrightarrow> print_expand t False False (-1) (-1) = t"
  unfolding print_expand_def by (induction t) (auto simp: name_byte_plain)

lemma cell_text: "list_all name_byte t \<Longrightarrow> cgi_text ''<TD>%S</TD>'' [AStr t] = puts (''<TD>'' @ t @ ''</TD>'')"
  by (simp add: cgi_text_def directive_def scan_size_def convert_def name_plain isdigit_def eval_nat_numeral)

text \<open>The cells of the table, five to a row.\<close>

definition cells :: "string list \<Rightarrow> string" where
  "cells ns = concat (map (\<lambda>n. ''<TD>'' @ n @ ''</TD>'') ns)"

function table_rows :: "string list \<Rightarrow> string" where
  "table_rows ns = (if length ns < COLS then cells ns else cells (take COLS ns) @ ''</TR>\<newline><TR>'' @ table_rows (drop COLS ns))"
  by pat_completeness auto
termination by (relation "measure length") auto

declare table_rows.simps [simp del]

definition rows_at :: "nat \<Rightarrow> string list \<Rightarrow> string" where
  "rows_at k ns = (if k + length ns < COLS then cells ns
     else cells (take (COLS - k) ns) @ ''</TR>\<newline><TR>'' @ table_rows (drop (COLS - k) ns))"

lemma rows_at_0: "rows_at 0 ns = table_rows ns"
  by (subst table_rows.simps) (simp add: rows_at_def)

lemma rows_at_Cons:
  assumes "k < COLS"
  shows "rows_at k (n # ns) = ''<TD>'' @ n @ ''</TD>'' @ (if Suc k = COLS then ''</TR>\<newline><TR>'' @ rows_at 0 ns else rows_at (Suc k) ns)"
proof (cases "Suc k = COLS")
  case True
  then show ?thesis unfolding rows_at_0 by (simp add: rows_at_def cells_def)
next
  case False
  then have "COLS - k = Suc (COLS - Suc k)" using assms by arith
  then show ?thesis using False by (simp add: rows_at_def cells_def)
qed

text \<open>The name a line of the database gives, when it is the first of an entry.\<close>

definition entry_name :: "string \<Rightarrow> string option" where
  "entry_name l = (if l \<noteq> [] \<and> hd l \<in> {CHR ''#'', TAB, SPC} then None else getlongest (l @ [NL]) 10)"

lemma print_a_term_run:
  assumes "list_all name_byte n" and "col s < COLS"
  shows "print_a_term True n s = (Ret (), s\<lparr>tout := tout s @ ''<TD>'' @ n @ ''</TD>'' @ (if Suc (col s) = COLS then ''</TR>\<newline><TR>'' else []),
    col := (if Suc (col s) = COLS then 0 else Suc (col s))\<rparr>)"
  using assms by (simp add: print_a_term_def cell_text puts_run sq_def bnd_def upd_def gets_def whenP_def ret_def)

lemma pterms_loop_run:
  assumes "list_all (\<lambda>l. NL \<notin> set l \<and> NUL \<notin> set l) ls" and "col s < COLS"
  shows "\<exists>c. pterms_loop True (map (\<lambda>l. l @ [NL]) ls) s = (Ret (), s\<lparr>tout := tout s @ rows_at (col s) (List.map_filter entry_name ls), col := c\<rparr>)"
  using assms
proof (induction ls arbitrary: s)
  case Nil
  then show ?case by (auto simp: ret_def List.map_filter_def rows_at_def cells_def intro!: exI [of _ "col s"])
next
  case (Cons l ls)
  have line: "whole_piece (l @ [NL])" "cstr (l @ [NL]) = l @ [NL]" using Cons.prems by (auto simp: whole_piece_def cstr_id)
  have head: "hd (l @ [NL]) \<in> {CHR ''#'', TAB, SPC} \<longleftrightarrow> l \<noteq> [] \<and> hd l \<in> {CHR ''#'', TAB, SPC}" by (cases l) auto
  show ?case
  proof (cases "entry_name l")
    case None
    then show ?thesis using Cons line head by (auto simp: entry_name_def List.map_filter_simps Let_def split: if_splits)
  next
    case (Some n)
    then have "list_all name_byte n" by (auto simp: entry_name_def dest: getlongest_name split: if_splits)
    note one = print_a_term_run [OF this, of s]
    let ?t = "s\<lparr>tout := tout s @ ''<TD>'' @ n @ ''</TD>'' @ (if Suc (col s) = COLS then ''</TR>\<newline><TR>'' else []),
      col := (if Suc (col s) = COLS then 0 else Suc (col s))\<rparr>"
    obtain c where "pterms_loop True (map (\<lambda>l. l @ [NL]) ls) ?t =
        (Ret (), ?t\<lparr>tout := tout ?t @ rows_at (col ?t) (List.map_filter entry_name ls), col := c\<rparr>)"
      using Cons.IH [of ?t] Cons.prems by fastforce
    then have "pterms_loop True (map (\<lambda>l. l @ [NL]) (l # ls)) s =
        (Ret (), s\<lparr>tout := tout s @ rows_at (col s) (n # List.map_filter entry_name ls), col := c\<rparr>)"
      using one Cons.prems Some line head rows_at_Cons [of "col s" n]
      by (auto simp: entry_name_def sq_def bnd_def Let_def split: if_splits)
    then show ?thesis using Some by (auto simp: List.map_filter_simps)
  qed
qed

text \<open>
  C40: The page of terminal types lists exactly the names of the entries in the order of the database, five to a row,
  when every line of the database ends with a newline and is shorter than the buffer; and the name of an entry is the
  last of the longest of its alternatives that are made of letters, digits and hyphens and no longer than ten.
\<close>

theorem terms_in_rows:
  assumes "list_all (\<lambda>l. NL \<notin> set l \<and> NUL \<notin> set l \<and> length l < 299) ls"
  shows "\<exists>t. terms_main sysname True (Some (concat (map (\<lambda>l. l @ [NL]) ls))) s = (Ret (), t) \<and>
    tout t = tout s @ page_head (''Valid '' @ sysname @ '' Terminal Types'') @ ''<TABLE>\<newline><TR>'' @
      table_rows (List.map_filter entry_name ls) @ ''</TR>\<newline></TABLE>\<newline></BODY></HTML>\<newline>'' \<and>
    list_all (\<lambda>l. l \<noteq> [] \<and> hd l \<in> {CHR ''#'', TAB, SPC} \<or> best_of 10 (alternatives (l @ [NL])) (entry_name l)) ls"
proof -
  let ?u = "s\<lparr>tout := tout s @ page_head (''Valid '' @ sysname @ '' Terminal Types'') @ ''<TABLE>\<newline><TR>'', col := 0\<rparr>"
  have lines: "pieces 299 (concat (map (\<lambda>l. l @ [NL]) ls)) = map (\<lambda>l. l @ [NL]) ls"
    using assms by (induction ls) (simp_all add: pieces_line)
  have ls: "list_all (\<lambda>l. NL \<notin> set l \<and> NUL \<notin> set l) ls" using assms by (auto simp: list_all_iff)
  obtain c where "pterms_loop True (map (\<lambda>l. l @ [NL]) ls) ?u = (Ret (), ?u\<lparr>tout := tout ?u @ rows_at (col ?u) (List.map_filter entry_name ls), col := c\<rparr>)"
    using pterms_loop_run [OF ls, of ?u] by auto
  moreover have "list_all (\<lambda>l. l \<noteq> [] \<and> hd l \<in> {CHR ''#'', TAB, SPC} \<or> best_of 10 (alternatives (l @ [NL])) (entry_name l)) ls"
    using longest_alternative by (auto simp: entry_name_def list_all_iff)
  ultimately show ?thesis by (simp add: terms_main_def pterms_def lines puts_run sq_def bnd_def upd_def whenP_def rows_at_0)
qed

lemma terms_in_rows_witness:
  "\<exists>t. terms_main ''Grex'' True (Some ''# list\<newline>d0|vt100|vt100-am|dec vt100:\<newline>'') \<lparr>tin = [], tout = [], col = 0\<rparr> = (Ret (), t) \<and>
    tout t = page_head ''Valid Grex Terminal Types'' @ ''<TABLE>\<newline><TR><TD>vt100-am</TD></TR>\<newline></TABLE>\<newline></BODY></HTML>\<newline>''"
proof -
  have "list_all (\<lambda>l. NL \<notin> set l \<and> NUL \<notin> set l \<and> length l < 299) [''# list'', ''d0|vt100|vt100-am|dec vt100:'']" by code_simp
  from terms_in_rows [OF this, of "''Grex''" "\<lparr>tin = [], tout = [], col = 0\<rparr>"]
  obtain t where t: "terms_main ''Grex'' True (Some (concat (map (\<lambda>l. l @ [NL]) [''# list'', ''d0|vt100|vt100-am|dec vt100:''])))
      \<lparr>tin = [], tout = [], col = 0\<rparr> = (Ret (), t)"
    and out: "tout t = tout \<lparr>tin = [], tout = [], col = 0\<rparr> @ page_head (''Valid '' @ ''Grex'' @ '' Terminal Types'') @ ''<TABLE>\<newline><TR>'' @
      table_rows (List.map_filter entry_name [''# list'', ''d0|vt100|vt100-am|dec vt100:'']) @ ''</TR>\<newline></TABLE>\<newline></BODY></HTML>\<newline>''"
    by blast
  have rows: "table_rows (List.map_filter entry_name [''# list'', ''d0|vt100|vt100-am|dec vt100:'']) = ''<TD>vt100-am</TD>''" by code_simp
  show ?thesis using t out unfolding rows by (intro exI [of _ t]) simp
qed

end
