(* ===== verification/WnuLid.thy ===== *)
theory WnuLid
  imports WnuProps
begin

text \<open>
  The check of a login's form by the text version of the program for new users (\<open>check_lid\<close> in \<open>nu-lid.c\<close> of
  \<open>soft/apps/ownu\<close>), and that it agrees with the web version's. The rest of that file needs headers of the text
  version that are not in the repository.
\<close>

section \<open>The text version\<close>

text \<open>Messages go to the terminal; \<open>pw_name_len\<close> is the longest login of the system.\<close>

fun lid_chars :: "string \<Rightarrow> (int, 'm tty_scheme) prog" where
  "lid_chars [] = ret 1"
| "lid_chars (c # cs) = (if islower c then lid_chars cs else if isdigit c then lid_chars cs
     else sq (puts (''Sorry, can't use '' @ [c] @ '' (must be lowercase or digit)\<newline>'')) (ret 0))"

definition check_lid :: "nat \<Rightarrow> string \<Rightarrow> (int, 'm tty_scheme) prog" where
  "check_lid pw_name_len l = (if length l = 0 then sq (puts ''Please try something just a trifle longer!\<newline>'') (ret 0)
     else if pw_name_len < length l
       then sq (puts (''Please try something shorter ('' @ dec (int pw_name_len) @ '' characters max).\<newline>'')) (ret 0)
     else if isdigit (hd l) then sq (puts ''Sorry, first character must be alphabetical!\<newline>'') (ret 0)
     else lid_chars l)"

section \<open>Agreement\<close>

lemma lid_chars_accepts: "fst (lid_chars cs s) = Ret 1 \<longleftrightarrow> list_all login_char cs"
  by (induction cs) (auto simp: ret_def puts_run sq_def bnd_def login_char_def)

lemma check_lid_accepts:
  "fst (check_lid n l s) = Ret 1 \<longleftrightarrow> l \<noteq> [] \<and> length l \<le> n \<and> \<not> isdigit (hd l) \<and> list_all login_char l"
  by (auto simp: check_lid_def lid_chars_accepts ret_def puts_run sq_def bnd_def)

lemma login_chars_pass: "list_all login_char cs \<Longrightarrow> login_chars e v cs s = (Ret (), s)"
  by (induction cs) (auto simp: ret_def login_char_def isascii_def isdigit_def islower_def)

lemma login_format_passes:
  assumes "v \<noteq> []" and "length v \<le> 8" and "\<not> isdigit (hd v)" and "list_all login_char v"
  shows "login_format e v s = (Ret (), s)"
  using assms by (simp add: login_format_def login_chars_pass sq_def bnd_def whenP_def ret_def)

text \<open>
  With logins of at most eight characters the text version and the web version accept exactly the same ones:
  one returns success when and only when the other finds no error.
\<close>

theorem logins_agree:
  assumes "reject t = 0"
  shows "fst (check_lid 8 l s) = Ret 1 \<longleftrightarrow> login_format e l t = (Ret (), t)"
proof
  assume "fst (check_lid 8 l s) = Ret 1"
  then show "login_format e l t = (Ret (), t)" by (simp add: check_lid_accepts login_format_passes)
next
  assume "login_format e l t = (Ret (), t)"
  note w = login_format_quiet [OF this assms]
  then have "\<not> isdigit (hd l)" by (auto simp: isdigit_def islower_def)
  then show "fst (check_lid 8 l s) = Ret 1" using w by (simp add: check_lid_accepts)
qed

lemma logins_agree_witness:
  "fst (check_lid 8 ''abe7'' \<lparr>tin = [], tout = []\<rparr>) = Ret 1 \<and> login_format small_site ''abe7'' (wnu_start []) = (Ret (), wnu_start [])"
proof -
  have "reject (wnu_start []) = 0" by (simp add: wnu_start_def)
  moreover have "fst (check_lid 8 ''abe7'' \<lparr>tin = [], tout = []\<rparr>) = Ret 1" by code_simp
  ultimately show ?thesis using logins_agree [of "wnu_start []" "''abe7''" "\<lparr>tin = [], tout = []\<rparr>" small_site] by simp
qed

end
