(* ===== verification/CopTables.thy ===== *)
theory CopTables
  imports CLib "HOL-Library.Word"
begin

unbundle bit_operations_syntax

text \<open>
  The tables of robocop, the daemon of \<open>soft/apps/robocop\<close> that ends the processes of users who logged off: the
  terminals in use (\<open>active.c\<close>), the users of screen (\<open>screen.c\<close>), the protected processes (\<open>hen.c\<close>) and the device
  numbers of terminals (\<open>ttynumber.c\<close>), all hashed with linear probing; and the program's globals.
\<close>

section \<open>Processes as the kernel reports them\<close>

text \<open>
  What the program reads of a \<open>struct kinfo_proc\<close>; \<open>p_text\<close> is the device and inode of its program file, when all
  the structures on the way could be read.
\<close>

record kproc =
  p_pid :: int
  p_ppid :: int
  p_ruid :: int
  p_uid :: int
  p_rgid :: int
  p_tdev :: int
  p_comm :: string
  p_login :: string
  p_ustart_sec :: int
  p_vm_tsize :: int
  p_vm_dsize :: int
  p_vm_ssize :: int
  p_zombie :: bool
  p_args :: "string list option"
  p_text :: "(int \<times> int) option"

section \<open>Globals\<close>

record userhash =
  h_uid :: int
  h_mem :: int
  h_nproc :: int

record ttynonode =
  t_name :: string
  t_device :: int

text \<open>
  A node of the list of processes. Its \<open>uid\<close> is set only when there is a log file, so it may be unset; the other
  fields that are copied for the log are kept as the entry of the kernel.
\<close>

record myproc =
  pid :: int
  ppid :: int
  has_ctty :: bool
  ctty :: int
  args :: string
  uid :: "int option"
  entry :: kproc
  am_sh :: bool
  am_screen :: bool
  next_proc :: "nat option"

text \<open>What the program does to others: the signals it sends and the seconds it waits, in order.\<close>

datatype deed = Signal int int | Snooze int

text \<open>
  The list of processes lives in a store of nodes with \<open>malloc\<close>'s counter; \<open>fps\<close> has the known fingerprints of
  every system program. \<open>snaps\<close> counts the process tables read from the kernel.
\<close>

record cop =
  active :: "int list"
  n_active :: int
  screener :: "int list"
  n_screener :: int
  hen :: "int list"
  n_hen :: int
  ttynumber :: "ttynonode list"
  n_ttynumber :: int
  user :: "userhash list"
  n_user :: int
  fps :: "(int \<times> int) list list"
  saved_text :: "int \<times> int"
  nodes :: "nat \<Rightarrow> myproc option"
  malloced :: nat
  proclist :: "nat option"
  out_of_memory :: bool
  curr_time :: int
  logging :: bool
  logtext :: string
  deeds :: "deed list"
  snaps :: nat

type_synonym 'a copp = "('a, cop) prog"

section \<open>Hashing\<close>

text \<open>\<open>char\<close> is signed; the bytes of a 32-bit number are in the order of a little-endian machine.\<close>

definition sbyte :: "int \<Rightarrow> int" where
  "sbyte b = (if b < 128 then b else b - 256)"

definition bytes4 :: "int \<Rightarrow> int list" where
  "bytes4 d = map (\<lambda>k. sbyte ((d div 256 ^ k) mod 256)) [0, 1, 2, 3]"

fun hash_bytes :: "32 word \<Rightarrow> int list \<Rightarrow> 32 word" where
  "hash_bytes h [] = h"
| "hash_bytes h (b # bs) = hash_bytes ((push_bit 2 h OR drop_bit 30 h) XOR word_of_int b) bs"

text \<open>The first byte is read whatever the length says.\<close>

definition hashfunc :: "int list \<Rightarrow> nat \<Rightarrow> nat" where
  "hashfunc s tblsize = nat (uint (hash_bytes (word_of_int (hd s)) (tl s)) mod int tblsize)"

text \<open>A loop that goes round the table until it may stop; after one whole round it never will.\<close>

fun probe :: "nat \<Rightarrow> (nat \<Rightarrow> bool) \<Rightarrow> (nat \<Rightarrow> nat) \<Rightarrow> nat \<Rightarrow> nat option" where
  "probe 0 stop nx i = None"
| "probe (Suc k) stop nx i = (if stop i then Some i else probe k stop nx (nx i))"

definition next_slot :: "nat \<Rightarrow> nat \<Rightarrow> nat" where
  "next_slot n i = (if n \<le> Suc i then 0 else Suc i)"

definition NODEV :: int where "NODEV = -1"

definition found_at :: "nat option \<Rightarrow> (nat, 's) prog" where
  "found_at r = (case r of None \<Rightarrow> hang | Some i \<Rightarrow> ret i)"

section \<open>Terminals in use\<close>

abbreviation MAXUSERS :: nat where "MAXUSERS \<equiv> 256"
abbreviation ACTIVEMAX :: nat where "ACTIVEMAX \<equiv> MAXUSERS"
abbreviation ACTIVESIZE :: nat where "ACTIVESIZE \<equiv> 384"

definition init_active :: "unit copp" where
  "init_active = upd (\<lambda>s. s\<lparr>n_active := 0, active := replicate ACTIVESIZE NODEV\<rparr>)"

definition find_active :: "int \<Rightarrow> nat copp" where
  "find_active device = bnd (gets active) (\<lambda>t.
     found_at (probe ACTIVESIZE (\<lambda>i. t ! i = NODEV \<or> t ! i = device) (next_slot ACTIVESIZE) (hashfunc (bytes4 device) ACTIVESIZE)))"

definition get_active :: "int \<Rightarrow> bool copp" where
  "get_active device = bnd (gets n_active) (\<lambda>n.
     if int ACTIVEMAX \<le> n then ret True
     else bnd (find_active device) (\<lambda>i. gets (\<lambda>s. active s ! i \<noteq> NODEV)))"

definition set_active :: "int \<Rightarrow> unit copp" where
  "set_active device = bnd (gets n_active) (\<lambda>n.
     if int ACTIVEMAX \<le> n then ret ()
     else bnd (find_active device) (\<lambda>i. bnd (gets active) (\<lambda>t.
       whenP (t ! i = NODEV) (upd (\<lambda>s. s\<lparr>n_active := n_active s + 1, active := (active s)[i := device]\<rparr>)))))"

section \<open>Users of screen\<close>

abbreviation MAXSCREENERS :: nat where "MAXSCREENERS \<equiv> 32"
abbreviation SCREENERSIZE :: nat where "SCREENERSIZE \<equiv> 48"

definition init_screener :: "unit copp" where
  "init_screener = upd (\<lambda>s. s\<lparr>n_screener := 0, screener := replicate SCREENERSIZE 0\<rparr>)"

definition find_screener :: "int \<Rightarrow> nat copp" where
  "find_screener u = bnd (gets screener) (\<lambda>t.
     found_at (probe SCREENERSIZE (\<lambda>i. t ! i = 0 \<or> t ! i = u) (next_slot SCREENERSIZE) (hashfunc (bytes4 u) SCREENERSIZE)))"

definition is_screener :: "int \<Rightarrow> bool copp" where
  "is_screener u = bnd (gets n_screener) (\<lambda>n.
     if int MAXSCREENERS \<le> n then ret True
     else bnd (find_screener u) (\<lambda>i. gets (\<lambda>s. screener s ! i \<noteq> 0)))"

definition add_screener :: "int \<Rightarrow> unit copp" where
  "add_screener u = bnd (gets n_screener) (\<lambda>n.
     if int MAXSCREENERS \<le> n then ret ()
     else bnd (find_screener u) (\<lambda>i. bnd (gets screener) (\<lambda>t.
       whenP (t ! i = 0) (upd (\<lambda>s. s\<lparr>n_screener := n_screener s + 1, screener := (screener s)[i := u]\<rparr>)))))"

section \<open>Protected processes\<close>

abbreviation HENMAX :: nat where "HENMAX \<equiv> 256"
abbreviation HENSIZE :: nat where "HENSIZE \<equiv> 384"

definition init_hen :: "unit copp" where
  "init_hen = upd (\<lambda>s. s\<lparr>n_hen := 0, hen := replicate HENSIZE 0\<rparr>)"

definition find_hen :: "int \<Rightarrow> nat copp" where
  "find_hen p = bnd (gets hen) (\<lambda>t.
     found_at (probe HENSIZE (\<lambda>i. t ! i = 0 \<or> t ! i = p) (next_slot HENSIZE) (hashfunc (bytes4 p) HENSIZE)))"

definition is_hen :: "int \<Rightarrow> bool copp" where
  "is_hen p = bnd (gets n_hen) (\<lambda>n.
     if int HENMAX \<le> n then ret True
     else bnd (find_hen p) (\<lambda>i. gets (\<lambda>s. hen s ! i \<noteq> 0)))"

definition add_hen :: "int \<Rightarrow> unit copp" where
  "add_hen p = bnd (gets n_hen) (\<lambda>n.
     if int HENMAX \<le> n then ret ()
     else bnd (find_hen p) (\<lambda>i. bnd (gets hen) (\<lambda>t.
       whenP (t ! i = 0) (upd (\<lambda>s. s\<lparr>n_hen := n_hen s + 1, hen := (hen s)[i := p]\<rparr>)))))"

section \<open>Device numbers of terminals\<close>

text \<open>The name of a terminal in \<open>utmp\<close> fills its field when it is as long as that.\<close>

abbreviation UT_LINESIZE :: nat where "UT_LINESIZE \<equiv> 8"
abbreviation MAXTTYS :: nat where "MAXTTYS \<equiv> 256"
abbreviation TTYNUMBERSIZE :: nat where "TTYNUMBERSIZE \<equiv> 384"

definition init_ttynumber :: "unit copp" where
  "init_ttynumber = upd (\<lambda>s. s\<lparr>n_ttynumber := 0, ttynumber := replicate TTYNUMBERSIZE \<lparr>t_name = [], t_device = 0\<rparr>\<rparr>)"

definition name_bytes :: "string \<Rightarrow> int list" where
  "name_bytes n = (if n = [] then [0] else map (\<lambda>c. sbyte (int (byte c))) n)"

definition find_ttynumber :: "string \<Rightarrow> nat copp" where
  "find_ttynumber tty = bnd (gets ttynumber) (\<lambda>t.
     found_at (probe TTYNUMBERSIZE (\<lambda>i. t_name (t ! i) = [] \<or> strncmp (t_name (t ! i)) tty UT_LINESIZE = 0)
       (\<lambda>i. (i + 1) mod TTYNUMBERSIZE) (hashfunc (name_bytes (take UT_LINESIZE tty)) TTYNUMBERSIZE)))"

definition get_ttynumber :: "string \<Rightarrow> int copp" where
  "get_ttynumber tty = bnd (find_ttynumber tty) (\<lambda>i. gets (\<lambda>s.
     if t_name (ttynumber s ! i) = [] then NODEV else t_device (ttynumber s ! i)))"

definition set_ttynumber :: "string \<Rightarrow> int \<Rightarrow> unit copp" where
  "set_ttynumber tty device = bnd (gets n_ttynumber) (\<lambda>n.
     if int MAXTTYS \<le> n then ret ()
     else bnd (find_ttynumber tty) (\<lambda>i. bnd (gets ttynumber) (\<lambda>t.
       sq (whenP (t_name (t ! i) = []) (upd (\<lambda>s. s\<lparr>n_ttynumber := n_ttynumber s + 1,
         ttynumber := (ttynumber s)[i := (ttynumber s ! i)\<lparr>t_name := take UT_LINESIZE tty\<rparr>]\<rparr>)))
       (upd (\<lambda>s. s\<lparr>ttynumber := (ttynumber s)[i := (ttynumber s ! i)\<lparr>t_device := device\<rparr>]\<rparr>)))))"

section \<open>Linear probing\<close>

text \<open>
  What the tables have in common: a number of slots, a hash that falls into them, slots that are free and the key
  of one that is not. A table is in order when probing for the key of a taken slot ends there.
\<close>

definition slot_of :: "nat \<Rightarrow> ('k \<Rightarrow> nat) \<Rightarrow> ('e \<Rightarrow> bool) \<Rightarrow> ('e \<Rightarrow> 'k) \<Rightarrow> 'e list \<Rightarrow> 'k \<Rightarrow> nat option" where
  "slot_of n hash free key t k = probe n (\<lambda>i. free (t ! i) \<or> key (t ! i) = k) (next_slot n) (hash k)"

definition table_ok :: "nat \<Rightarrow> ('k \<Rightarrow> nat) \<Rightarrow> ('e \<Rightarrow> bool) \<Rightarrow> ('e \<Rightarrow> 'k) \<Rightarrow> 'e list \<Rightarrow> bool" where
  "table_ok n hash free key t \<longleftrightarrow> length t = n \<and> (\<forall>j<n. \<not> free (t ! j) \<longrightarrow> slot_of n hash free key t (key (t ! j)) = Some j)"

definition keys_in :: "('e \<Rightarrow> bool) \<Rightarrow> ('e \<Rightarrow> 'k) \<Rightarrow> 'e list \<Rightarrow> 'k set" where
  "keys_in free key t = {key (t ! i) |i. i < length t \<and> \<not> free (t ! i)}"

definition taken :: "('e \<Rightarrow> bool) \<Rightarrow> 'e list \<Rightarrow> nat" where
  "taken free t = length (filter (\<lambda>x. \<not> free x) t)"

lemma probe_SomeD: "probe k stop nx i = Some j \<Longrightarrow> stop j"
  by (induction k arbitrary: i) (auto split: if_splits)

lemma probe_same:
  assumes "probe k stop nx i = Some j" and "\<And>m. m \<noteq> l \<Longrightarrow> stop' m = stop m" and "stop l" and "j = l \<Longrightarrow> stop' l"
  shows "probe k stop' nx i = Some j"
  using assms(1)
proof (induction k arbitrary: i)
  case (Suc k)
  then show ?case using assms(2-4) by (cases "i = l"; cases "stop i") auto
qed simp

lemma next_slot_mod: "i < n \<Longrightarrow> next_slot n i = Suc i mod n"
  by (auto simp: next_slot_def mod_Suc)

lemma probe_finds:
  assumes "i < n" and "m < k" and "stop ((i + m) mod n)"
  shows "\<exists>j<n. probe k stop (next_slot n) i = Some j"
  using assms
proof (induction k arbitrary: i m)
  case (Suc k)
  show ?case
  proof (cases "stop i \<or> m = 0")
    case True
    then show ?thesis using Suc.prems by auto
  next
    case False
    then obtain m' where m: "m = Suc m'" by (cases m) auto
    have "stop ((next_slot n i + m') mod n)" using Suc.prems(1,3) m by (simp add: next_slot_mod mod_add_left_eq)
    moreover have "next_slot n i < n" using Suc.prems(1) by (simp add: next_slot_def)
    ultimately show ?thesis using Suc.IH [of "next_slot n i" m'] Suc.prems(2) m False by simp
  qed
qed simp

lemma probe_below: "probe k stop (next_slot n) i = Some j \<Longrightarrow> i < n \<Longrightarrow> j < n"
  by (induction k arbitrary: i) (auto simp: next_slot_def split: if_splits)

locale linear_probing =
  fixes n :: nat and hash :: "'k \<Rightarrow> nat" and free :: "'e \<Rightarrow> bool" and key :: "'e \<Rightarrow> 'k"
  assumes hash_in: "hash k < n"
begin

lemma slot_in: "slot_of n hash free key t k = Some j \<Longrightarrow> j < n"
  unfolding slot_of_def by (erule probe_below) (rule hash_in)

lemma slot_found:
  assumes "table_ok n hash free key t" and "slot_of n hash free key t k = Some j"
  shows "\<not> free (t ! j) \<longleftrightarrow> k \<in> keys_in free key t" "\<not> free (t ! j) \<Longrightarrow> key (t ! j) = k"
proof -
  have j: "j < n" "free (t ! j) \<or> key (t ! j) = k"
    using slot_in [OF assms(2)] probe_SomeD [OF assms(2) [unfolded slot_of_def]] by auto
  then show "\<not> free (t ! j) \<Longrightarrow> key (t ! j) = k" by simp
  show "\<not> free (t ! j) \<longleftrightarrow> k \<in> keys_in free key t"
  proof
    assume "\<not> free (t ! j)"
    then show "k \<in> keys_in free key t" using j assms(1) by (auto simp: table_ok_def keys_in_def)
  next
    assume "k \<in> keys_in free key t"
    then obtain i where "i < n" "\<not> free (t ! i)" "k = key (t ! i)" using assms(1) by (auto simp: table_ok_def keys_in_def)
    then show "\<not> free (t ! j)" using assms by (auto simp: table_ok_def)
  qed
qed

lemma slot_exists:
  assumes "length t = n" and "taken free t < n"
  shows "\<exists>j. slot_of n hash free key t k = Some j"
proof -
  have "\<exists>x \<in> set t. free x"
  proof (rule ccontr)
    assume "\<not> ?thesis"
    then have "filter (\<lambda>x. \<not> free x) t = t" by (simp add: filter_id_conv)
    then show False using assms by (simp add: taken_def)
  qed
  then obtain i where i: "i < n" "free (t ! i)" using assms(1) by (auto simp: in_set_conv_nth)
  define m where "m = (i + n - hash k) mod n"
  have "(hash k + m) mod n = (hash k + (i + n - hash k)) mod n" by (simp add: m_def mod_add_right_eq)
  also have "\<dots> = i" using i(1) hash_in [of k] by simp
  finally have "(hash k + m) mod n = i" .
  moreover have "m < n" using i(1) by (simp add: m_def)
  ultimately show ?thesis
    using probe_finds [of "hash k" n m n "\<lambda>i. free (t ! i) \<or> key (t ! i) = k"] hash_in [of k] i by (auto simp: slot_of_def)
qed

lemma table_insert:
  assumes ok: "table_ok n hash free key t" and s: "slot_of n hash free key t k = Some j" and j: "free (t ! j)"
    and x: "\<not> free x" "key x = k"
  shows "table_ok n hash free key (t[j := x])" "keys_in free key (t[j := x]) = insert k (keys_in free key t)"
    "taken free (t[j := x]) = Suc (taken free t)"
proof -
  have len: "length t = n" "j < n" using ok slot_in [OF s] by (simp_all add: table_ok_def)
  have same: "slot_of n hash free key (t[j := x]) k' = Some i" if "slot_of n hash free key t k' = Some i" "i = j \<Longrightarrow> k' = k" for k' i
    unfolding slot_of_def by (rule probe_same [OF that(1) [unfolded slot_of_def], of j]) (use j x len that(2) in auto)
  show "table_ok n hash free key (t[j := x])"
    unfolding table_ok_def
  proof (intro conjI allI impI)
    fix i assume i: "i < n" "\<not> free (t[j := x] ! i)"
    show "slot_of n hash free key (t[j := x]) (key (t[j := x] ! i)) = Some i"
    proof (cases "i = j")
      case True
      then show ?thesis using same [OF s] x len by simp
    next
      case False
      then have "slot_of n hash free key t (key (t ! i)) = Some i" using ok i by (simp add: table_ok_def)
      then show ?thesis using same False by simp
    qed
  qed (simp add: len)
  show "keys_in free key (t[j := x]) = insert k (keys_in free key t)"
    using len j x by (auto simp: keys_in_def nth_list_update)
  have t: "t = take j t @ t ! j # drop (Suc j) t" using len by (simp add: id_take_nth_drop)
  have "t[j := x] = take j t @ x # drop (Suc j) t" using len by (simp add: upd_conv_take_nth_drop)
  then show "taken free (t[j := x]) = Suc (taken free t)"
    unfolding taken_def by (subst (2) t) (simp add: j x)
qed

lemma table_replace:
  assumes ok: "table_ok n hash free key t" and j: "j < n" "\<not> free (t ! j)" and x: "\<not> free x" "key x = key (t ! j)"
  shows "table_ok n hash free key (t[j := x])" "keys_in free key (t[j := x]) = keys_in free key t"
    "taken free (t[j := x]) = taken free t"
proof -
  have len: "length t = n" using ok by (simp add: table_ok_def)
  have at: "free (t[j := x] ! i) = free (t ! i)" "key (t[j := x] ! i) = key (t ! i)" for i
    using j x len by (cases "i = j"; simp)+
  show "table_ok n hash free key (t[j := x])" using ok by (simp add: table_ok_def slot_of_def at)
  show "keys_in free key (t[j := x]) = keys_in free key t" by (simp add: keys_in_def at)
  have t: "t = take j t @ t ! j # drop (Suc j) t" using len j by (simp add: id_take_nth_drop)
  have "t[j := x] = take j t @ x # drop (Suc j) t" using len j by (simp add: upd_conv_take_nth_drop)
  then show "taken free (t[j := x]) = taken free t"
    unfolding taken_def by (subst (2) t) (simp add: j x)
qed

lemma table_empty: "free x \<Longrightarrow> table_ok n hash free key (replicate n x) \<and> keys_in free key (replicate n x) = {} \<and> taken free (replicate n x) = 0"
  by (auto simp: table_ok_def keys_in_def taken_def)

end

section \<open>The tables as sets\<close>

text \<open>
  Three of the tables hold numbers, with a number that marks a free slot, and never more than two thirds of the
  slots are used: when that many are, nothing is added any more and everything counts as a member.
\<close>

locale mark_table = linear_probing n hash "\<lambda>x. x = z" "\<lambda>x. x" for n :: nat and hash :: "int \<Rightarrow> nat" and z :: int +
  fixes limit :: nat
    and tab :: "cop \<Rightarrow> int list" and cnt :: "cop \<Rightarrow> int" and grow :: "int \<Rightarrow> nat \<Rightarrow> cop \<Rightarrow> cop"
    and member :: "int \<Rightarrow> bool copp" and mark :: "int \<Rightarrow> unit copp"
  assumes limit_less: "limit < n"
    and member_is: "member d = bnd (gets cnt) (\<lambda>c. if int limit \<le> c then ret True
      else bnd (bnd (gets tab) (\<lambda>t. found_at (slot_of n hash (\<lambda>x. x = z) (\<lambda>x. x) t d))) (\<lambda>i. gets (\<lambda>s. tab s ! i \<noteq> z)))"
    and mark_is: "mark d = bnd (gets cnt) (\<lambda>c. if int limit \<le> c then ret ()
      else bnd (bnd (gets tab) (\<lambda>t. found_at (slot_of n hash (\<lambda>x. x = z) (\<lambda>x. x) t d))) (\<lambda>i. bnd (gets tab) (\<lambda>t.
        whenP (t ! i = z) (upd (grow d i)))))"
    and tab_grow: "tab (grow d i s) = (tab s)[i := d]" and cnt_grow: "cnt (grow d i s) = cnt s + 1"
begin

definition in_order :: "cop \<Rightarrow> bool" where
  "in_order s \<longleftrightarrow> table_ok n hash (\<lambda>x. x = z) (\<lambda>x. x) (tab s) \<and> int (taken (\<lambda>x. x = z) (tab s)) \<le> cnt s \<and> cnt s \<le> int limit"

definition members :: "cop \<Rightarrow> int set" where
  "members s = (if cnt s < int limit then keys_in (\<lambda>x. x = z) (\<lambda>x. x) (tab s) else UNIV)"

lemma slot_run:
  assumes "in_order s"
  obtains i where "slot_of n hash (\<lambda>x. x = z) (\<lambda>x. x) (tab s) d = Some i" "tab s ! i \<noteq> z \<longleftrightarrow> d \<in> keys_in (\<lambda>x. x = z) (\<lambda>x. x) (tab s)"
proof -
  have "length (tab s) = n" "taken (\<lambda>x. x = z) (tab s) < n" using assms limit_less by (auto simp: in_order_def table_ok_def)
  from slot_exists [OF this] obtain i where "slot_of n hash (\<lambda>x. x = z) (\<lambda>x. x) (tab s) d = Some i" by blast
  with slot_found(1) [OF _ this] assms that show thesis by (auto simp: in_order_def)
qed

lemma member_run:
  assumes "in_order s"
  shows "member d s = (Ret (d \<in> members s), s)"
proof -
  obtain i where "slot_of n hash (\<lambda>x. x = z) (\<lambda>x. x) (tab s) d = Some i" "tab s ! i \<noteq> z \<longleftrightarrow> d \<in> keys_in (\<lambda>x. x = z) (\<lambda>x. x) (tab s)"
    using slot_run [OF assms, of d] by blast
  then show ?thesis by (simp add: member_is members_def bnd_def gets_def ret_def found_at_def)
qed

lemma mark_run:
  assumes ok: "in_order s"
  shows "\<exists>t. mark d s = (Ret (), t) \<and> in_order t \<and> (t = s \<or> (\<exists>i. t = grow d i s)) \<and>
    members s \<subseteq> members t \<and> (d \<noteq> z \<longrightarrow> d \<in> members t) \<and> (members t \<noteq> UNIV \<longrightarrow> members t - {z} \<subseteq> insert d (members s)) \<and>
    cnt s \<le> cnt t \<and> cnt t \<le> cnt s + 1 \<and> (d \<in> members s \<longrightarrow> t = s)"
proof (cases "cnt s < int limit")
  case False
  then have "mark d s = (Ret (), s)" by (simp add: mark_is bnd_def gets_def ret_def)
  then show ?thesis using False ok by (intro exI [of _ s]) (simp add: members_def)
next
  case True
  obtain i where i: "slot_of n hash (\<lambda>x. x = z) (\<lambda>x. x) (tab s) d = Some i" "tab s ! i \<noteq> z \<longleftrightarrow> d \<in> keys_in (\<lambda>x. x = z) (\<lambda>x. x) (tab s)"
    using slot_run [OF ok] by blast
  have run: "mark d s = (if tab s ! i = z then (Ret (), grow d i s) else (Ret (), s))"
    using True i(1) by (simp add: mark_is bnd_def gets_def ret_def found_at_def whenP_def upd_def)
  have ok': "table_ok n hash (\<lambda>x. x = z) (\<lambda>x. x) (tab s)" "int (taken (\<lambda>x. x = z) (tab s)) \<le> cnt s" using ok by (simp_all add: in_order_def)
  show ?thesis
  proof (cases "tab s ! i = z")
    case False
    then have "mark d s = (Ret (), s)" "d \<in> members s" using run i(2) by (simp_all add: members_def)
    then show ?thesis using ok by (intro exI [of _ s]) auto
  next
    case free: True
    show ?thesis
    proof (cases "d = z")
      case True
      have same: "(tab s)[i := z] = tab s" using free by (metis list_update_id)
      then have "in_order (grow d i s)" using ok' \<open>cnt s < int limit\<close> True by (simp add: in_order_def tab_grow cnt_grow)
      then show ?thesis using run free True same i(2) \<open>cnt s < int limit\<close> by (auto simp: members_def tab_grow cnt_grow)
    next
      case False
      note ins = table_insert [OF ok'(1) i(1), of d, simplified, OF free False]
      have "in_order (grow d i s)" using ok' \<open>cnt s < int limit\<close> ins by (simp add: in_order_def tab_grow cnt_grow)
      then show ?thesis using run free ins(2) i(2) \<open>cnt s < int limit\<close> by (auto simp: members_def tab_grow cnt_grow)
    qed
  qed
qed

end

lemma hashfunc_less: "0 < n \<Longrightarrow> hashfunc b n < n"
  by (simp add: hashfunc_def nat_less_iff)

interpretation act: mark_table ACTIVESIZE "\<lambda>d. hashfunc (bytes4 d) ACTIVESIZE" NODEV ACTIVEMAX active n_active
  "\<lambda>d i s. s\<lparr>n_active := n_active s + 1, active := (active s)[i := d]\<rparr>" get_active set_active
  by unfold_locales (simp_all add: hashfunc_less get_active_def set_active_def find_active_def slot_of_def cong: if_cong)

interpretation scr: mark_table SCREENERSIZE "\<lambda>d. hashfunc (bytes4 d) SCREENERSIZE" 0 MAXSCREENERS screener n_screener
  "\<lambda>d i s. s\<lparr>n_screener := n_screener s + 1, screener := (screener s)[i := d]\<rparr>" is_screener add_screener
  by unfold_locales (simp_all add: hashfunc_less is_screener_def add_screener_def find_screener_def slot_of_def cong: if_cong)

interpretation hens: mark_table HENSIZE "\<lambda>d. hashfunc (bytes4 d) HENSIZE" 0 HENMAX hen n_hen
  "\<lambda>d i s. s\<lparr>n_hen := n_hen s + 1, hen := (hen s)[i := d]\<rparr>" is_hen add_hen
  by unfold_locales (simp_all add: hashfunc_less is_hen_def add_hen_def find_hen_def slot_of_def cong: if_cong)

end
