(* ===== verification/CopUsers.thy ===== *)
theory CopUsers
  imports CopTables
begin

text \<open>
  Counting what each user runs and ending the processes of users over the limits: \<open>usermem.c\<close>, \<open>killuser.c\<close>,
  \<open>loguser.c\<close> and the constants of \<open>config.c\<close> and \<open>config.h\<close> of \<open>soft/apps/robocop\<close>, with the verbose log the
  Makefile asks for.
\<close>

section \<open>The system\<close>

text \<open>
  The kernel's process table at each reading (\<open>None\<close> when it cannot be read), the answers of \<open>stat\<close> for program
  files and terminals at that time, whether a signal could be sent, whether an allocation succeeds, the users logged
  in with the fields of \<open>struct utmp\<close>, the clock and texts that only go to the log. Priorities set by \<open>nice\<close> are left
  out.
\<close>

record utmp =
  ut_name :: string
  ut_line :: string
  ut_time :: int
  ut_host :: string

record cop_env =
  kernel :: "nat \<Rightarrow> kproc list option"
  kvm_err :: string
  stat_file :: "nat \<Rightarrow> string \<Rightarrow> (int \<times> int) option"
  stat_dev :: "nat \<Rightarrow> string \<Rightarrow> int option"
  kill_works :: "nat \<Rightarrow> int \<Rightarrow> int \<Rightarrow> bool"
  can_alloc :: "nat \<Rightarrow> bool"
  utmp_file :: "nat \<Rightarrow> utmp list option"
  time_at :: "nat \<Rightarrow> int"
  log_opens :: "nat \<Rightarrow> bool"
  ctime_of :: "int \<Rightarrow> string"
  devname :: "int \<Rightarrow> string"
  maxcomlen :: nat
  maxlogname :: nat
  pagesize :: int

definition kperpage :: "cop_env \<Rightarrow> int" where "kperpage e = pagesize e sdiv 1024"

abbreviation MEGABYTES :: int where "MEGABYTES \<equiv> 1048576"
abbreviation LOG_MEMORY :: int where "LOG_MEMORY \<equiv> 16 * MEGABYTES"
abbreviation LOG_NPROC :: int where "LOG_NPROC \<equiv> 16"
abbreviation MAX_MEMORY :: int where "MAX_MEMORY \<equiv> 40 * MEGABYTES"
abbreviation MAX_NPROC :: int where "MAX_NPROC \<equiv> 31"
abbreviation MAX_KILL_PASS :: nat where "MAX_KILL_PASS \<equiv> 45"
abbreviation MIN_KILL_UID :: int where "MIN_KILL_UID \<equiv> 131072"
abbreviation SOFTKILL :: int where "SOFTKILL \<equiv> 15"
abbreviation HARDKILL :: int where "HARDKILL \<equiv> 9"

definition protect_uids :: "int list" where
  "protect_uids = [0, 1, 2, 3, 27, 28, 29, 30, 32, 33, 35, 59, 60, 62, 66, 67, 68, 70, 71, 73, 74, 75, 76, 81, 83, 84,
     502, 504, 506, 507, 24594, 32767]"

definition log_line :: "string \<Rightarrow> unit copp" where
  "log_line x = upd (\<lambda>s. if logging s then s\<lparr>logtext := logtext s @ x\<rparr> else s)"

definition kill_proc :: "cop_env \<Rightarrow> int \<Rightarrow> int \<Rightarrow> bool copp" where
  "kill_proc e p sig = bnd (gets (length \<circ> deeds)) (\<lambda>n.
     sq (upd (\<lambda>s. s\<lparr>deeds := deeds s @ [Signal p sig]\<rparr>)) (ret (kill_works e n p sig)))"

definition snooze :: "int \<Rightarrow> unit copp" where
  "snooze n = upd (\<lambda>s. s\<lparr>deeds := deeds s @ [Snooze n]\<rparr>)"

text \<open>One reading of the process table.\<close>

definition getprocs :: "cop_env \<Rightarrow> kproc list option copp" where
  "getprocs e = bnd (gets snaps) (\<lambda>n. sq (upd (\<lambda>s. s\<lparr>snaps := snaps s + 1\<rparr>)) (ret (kernel e n)))"

section \<open>Logging a user\<close>

definition proc_mem :: "kproc \<Rightarrow> int" where
  "proc_mem p = p_vm_tsize p + p_vm_dsize p + p_vm_ssize p"

fun join_args :: "string list \<Rightarrow> string" where
  "join_args [] = []"
| "join_args (a # as) = a @ concat (map (\<lambda>x. SPC # x) as)"

definition logproc :: "cop_env \<Rightarrow> kproc \<Rightarrow> unit copp" where
  "logproc e p = log_line ('' PID='' @ dec (p_pid p) @ '' UID='' @ dec (p_ruid p) @ ''('' @ p_login p @ '') MEM='' @
     dec (proc_mem p * kperpage e) @ ''K ('' @ take (maxcomlen e) (p_comm p) @ '') '' @
     (case p_args p of
        None \<Rightarrow> ''Logproc failed to get command line for process '' @ dec (p_pid p) @ '' ('' @ kvm_err e @ '')\<newline>''
      | Some a \<Rightarrow> join_args a) @ ''\<newline>'')"

fun logprocs :: "cop_env \<Rightarrow> kproc list \<Rightarrow> unit copp" where
  "logprocs e [] = ret ()"
| "logprocs e (p # ps) = sq (logproc e p) (logprocs e ps)"

text \<open>The message for a table that cannot be read prints the number of the user as a string, which is undefined.\<close>

definition loguser :: "cop_env \<Rightarrow> int \<Rightarrow> unit copp" where
  "loguser e u = bnd (gets logging) (\<lambda>l. if \<not> l then ret ()
     else bnd (getprocs e) (\<lambda>r. case r of
       None \<Rightarrow> undef
     | Some ps \<Rightarrow> logprocs e (filter (\<lambda>p. p_ruid p = u) ps)))"

section \<open>Killing a user\<close>

fun kill_pass :: "cop_env \<Rightarrow> nat \<Rightarrow> kproc list \<Rightarrow> nat copp" where
  "kill_pass e pass [] = ret 0"
| "kill_pass e pass (p # ps) =
     (if p_pid p < 2 \<or> p_zombie p then kill_pass e pass ps
      else sq (whenP (pass = 0) (logproc e p))
        (bnd (kill_proc e (p_pid p) HARDKILL) (\<lambda>_.
         sq (log_line (''kill('' @ dec (p_pid p) @ '',SIGKILL)\<newline>''))
         (bnd (kill_pass e pass ps) (\<lambda>n. ret (n + 1))))))"

text \<open>
  The loop over the passes, with the number of passes still allowed. The result is the pass at the end, \<open>None\<close> when
  the process table could not be read.
\<close>

fun kill_passes :: "cop_env \<Rightarrow> int \<Rightarrow> nat \<Rightarrow> nat \<Rightarrow> nat \<Rightarrow> nat option copp" where
  "kill_passes e u 0 pass clean = ret (Some pass)"
| "kill_passes e u (Suc k) pass clean = bnd (getprocs e) (\<lambda>r. case r of
     None \<Rightarrow> sq (log_line (''Failed to get process list for uid '' @ dec u @ '' while killing ('' @ kvm_err e @ '')\<newline>'')) (ret None)
   | Some ps \<Rightarrow> bnd (kill_pass e pass (filter (\<lambda>p. p_ruid p = u) ps)) (\<lambda>nkill.
       if nkill = 0 \<and> clean + 1 = 3 then ret (Some pass)
       else sq (whenP (pass mod 3 = 2) (snooze 1))
         (kill_passes e u k (pass + 1) (if nkill = 0 then clean + 1 else 0))))"

definition killuser :: "cop_env \<Rightarrow> int \<Rightarrow> unit copp" where
  "killuser e u = (if u < MIN_KILL_UID then log_line (''Attempt to kill processes for system uid '' @ dec u @ ''\<newline>'')
     else bnd (kill_passes e u MAX_KILL_PASS 0 0) (\<lambda>r. case r of
       None \<Rightarrow> ret ()
     | Some pass \<Rightarrow> log_line (''user kill complete after '' @ dec (int pass + 1) @ '' passes.\<newline>'')))"

section \<open>What each user runs\<close>

abbreviation TABLESIZE :: nat where "TABLESIZE \<equiv> 384"

definition init_usermem :: "unit copp" where
  "init_usermem = upd (\<lambda>s. s\<lparr>n_user := 0, user := map (\<lambda>h. h\<lparr>h_nproc := 0\<rparr>) (user s)\<rparr>)"

text \<open>The loop gives up after a round.\<close>

definition add_usermem :: "int \<Rightarrow> int \<Rightarrow> unit copp" where
  "add_usermem u mem = bnd (gets user) (\<lambda>t.
     case probe TABLESIZE (\<lambda>i. \<not> (h_uid (t ! i) \<noteq> u \<and> 0 < h_nproc (t ! i))) (next_slot TABLESIZE) (nat (u mod int TABLESIZE)) of
       None \<Rightarrow> ret ()
     | Some i \<Rightarrow>
         if h_nproc (t ! i) = 0 then
           bnd (gets n_user) (\<lambda>n. if int MAXUSERS \<le> n then ret ()
             else upd (\<lambda>s. s\<lparr>n_user := n_user s + 1, user := (user s)[i := \<lparr>h_uid = u, h_mem = mem mod 2 ^ 64, h_nproc = 1\<rparr>]\<rparr>))
         else upd (\<lambda>s. s\<lparr>user := (user s)[i := (t ! i)\<lparr>h_mem := (h_mem (t ! i) + mem) mod 2 ^ 64, h_nproc := h_nproc (t ! i) + 1\<rparr>]\<rparr>))"

text \<open>The bytes used are kept in an \<open>int\<close>.\<close>

definition used_bytes :: "cop_env \<Rightarrow> userhash \<Rightarrow> int" where
  "used_bytes e h = s32 (h_mem h * pagesize e)"

definition check_user :: "cop_env \<Rightarrow> userhash \<Rightarrow> unit copp" where
  "check_user e h = (if h_nproc h = 0 then ret ()
     else sq (log_line (''CHECK_MEM uid='' @ dec (h_uid h) @ '' mem='' @ dec (h_mem h * kperpage e) @ ''K n='' @ dec (h_nproc h) @ ''\<newline>''))
       (if (LOG_MEMORY \<le> used_bytes e h \<or> LOG_NPROC \<le> h_nproc h) \<and> h_uid h \<notin> set protect_uids then
          let kill = (MAX_MEMORY \<le> used_bytes e h \<or> MAX_NPROC \<le> h_nproc h) in
          sq (log_line (''process limit '' @ (if kill then ''exceeded'' else ''approached'') @ '' for uid '' @ dec (h_uid h) @
               ''.  n='' @ dec (h_nproc h) @ '' mem='' @ dec (used_bytes e h) @ ''\<newline>''))
            (if kill then killuser e (h_uid h) else loguser e (h_uid h))
        else ret ()))"

fun check_users :: "cop_env \<Rightarrow> userhash list \<Rightarrow> unit copp" where
  "check_users e [] = ret ()"
| "check_users e (h # hs) = sq (check_user e h) (check_users e hs)"

definition check_mem :: "cop_env \<Rightarrow> unit copp" where
  "check_mem e = bnd (gets user) (check_users e)"

end
