(* ===== verification/CopProcs.thy ===== *)
theory CopProcs
  imports CopUsers
begin

text \<open>
  Finding and ending the processes of users who logged off: \<open>sysproc.c\<close>, \<open>scanproc.c\<close>, \<open>scanutmp.c\<close> and \<open>main.c\<close> of
  \<open>soft/apps/robocop\<close>, compiled as in its Makefile and \<open>config.h\<close>.
\<close>

section \<open>System programs\<close>

abbreviation SH :: nat where "SH \<equiv> 0"
abbreviation SENDMAIL :: nat where "SENDMAIL \<equiv> 1"
abbreviation POSTFIX :: nat where "POSTFIX \<equiv> 2"
abbreviation FTPD :: nat where "FTPD \<equiv> 3"
abbreviation SCREEN :: nat where "SCREEN \<equiv> 4"
abbreviation SSHD :: nat where "SSHD \<equiv> 5"
abbreviation IRCD :: nat where "IRCD \<equiv> 6"
abbreviation DOVECOT :: nat where "DOVECOT \<equiv> 7"

text \<open>Name, least length of an abbreviated name (0 for none) and path.\<close>

definition sysprocs :: "(string \<times> nat \<times> string) list" where
  "sysprocs = [(''sh'', 0, ''/bin/sh''), (''sendmail'', 0, ''/usr/sbin/sendmail''),
     (''master'', 0, ''/usr/local/libexec/postfix/master''), (''ftpd'', 0, ''/usr/libexec/ftpd''),
     (''screen'', 0, ''/usr/local/bin/screen''), (''sshd'', 0, ''/usr/sbin/sshd''), (''ircd'', 0, ''/usr/local/bin/ircd''),
     (''dovecot'', 0, ''/usr/local/sbin/dovecot'')]"

text \<open>A failed allocation of a fingerprint and a program without a file end the daemon.\<close>

fun init_procs :: "cop_env \<Rightarrow> (string \<times> nat \<times> string) list \<Rightarrow> unit copp" where
  "init_procs e [] = ret ()"
| "init_procs e ((name, len, path) # ps) = bnd (gets snaps) (\<lambda>n. case stat_file e n path of
     None \<Rightarrow> exit_prog 1
   | Some f \<Rightarrow> bnd (gets malloced) (\<lambda>k.
       if \<not> can_alloc e k then exit_prog 1
       else sq (upd (\<lambda>s. s\<lparr>malloced := k + 1, fps := fps s @ [[f]]\<rparr>))
         (sq (log_line (''SYSPROC '' @ name @ '' DEV='' @ devname e (fst f) @ '' INODE='' @ dec (snd f) @ ''\<newline>'')) (init_procs e ps))))"

definition init_sysproc :: "cop_env \<Rightarrow> unit copp" where
  "init_sysproc e = sq (upd (\<lambda>s. s\<lparr>fps := []\<rparr>)) (init_procs e sysprocs)"

text \<open>
  The first message lacks the argument its format asks for.
\<close>

definition check_sysproc :: "cop_env \<Rightarrow> nat \<Rightarrow> int \<times> int \<Rightarrow> bool copp" where
  "check_sysproc e i f = bnd (gets fps) (\<lambda>fs.
     if f \<in> set (fs ! i) then ret True
     else bnd (gets snaps) (\<lambda>n. case stat_file e n (snd (snd (sysprocs ! i))) of
       None \<Rightarrow> bnd (gets logging) (\<lambda>l. if l then undef else ret True)
     | Some g \<Rightarrow>
         if g \<noteq> f then sq (log_line (''Fraudulent '' @ snd (snd (sysprocs ! i)) @ '' imitation found (device='' @ devname e (fst f) @
             '', inode='' @ dec (snd f) @ '')\<newline>'')) (ret False)
         else sq (log_line (''New version of '' @ snd (snd (sysprocs ! i)) @ '' detected (device='' @ devname e (fst g) @
             '', inode='' @ dec (snd g) @ '')\<newline>''))
           (bnd (gets malloced) (\<lambda>k.
             if \<not> can_alloc e k then sq (log_line ''Out of memory - forgetting new fingerprint\<newline>'') (ret True)
             else sq (upd (\<lambda>s. s\<lparr>malloced := k + 1, fps := (fps s)[i := g # fps s ! i]\<rparr>)) (ret True)))))"

text \<open>
  The number the process is compared with is 0 for ever, so the program file is read anew for every process but
  number 0. The message about a file that cannot be read, which prints a structure that was not read, is left out.
\<close>

definition is_sysproc :: "cop_env \<Rightarrow> nat \<Rightarrow> kproc \<Rightarrow> bool copp" where
  "is_sysproc e i pr = (case sysprocs ! i of (name, partlen, path) \<Rightarrow>
     if 0 < partlen \<and> strncmp name (p_comm pr) partlen \<noteq> 0 then ret False
     else if partlen = 0 \<and> name \<noteq> p_comm pr then ret False
     else if p_pid pr \<noteq> 0 then
       (case p_text pr of
          None \<Rightarrow> ret False
        | Some f \<Rightarrow> sq (upd (\<lambda>s. s\<lparr>saved_text := f\<rparr>)) (check_sysproc e i f))
     else bnd (gets saved_text) (check_sysproc e i))"

section \<open>The list of processes\<close>

abbreviation MAXCALEN :: nat where "MAXCALEN \<equiv> 100"
abbreviation STAFF_GID :: int where "STAFF_GID \<equiv> 20"
abbreviation FTP_TOO_OLD :: int where "FTP_TOO_OLD \<equiv> 6 * 3600"
abbreviation FINGERD_TOO_OLD :: int where "FINGERD_TOO_OLD \<equiv> 10 * 60"

text \<open>\<open>None\<close> is a look at the byte in front of the buffer.\<close>

fun save_chars :: "string \<Rightarrow> string \<Rightarrow> string option" where
  "save_chars buf [] = Some buf"
| "save_chars buf (c # cs) = (if MAXCALEN \<le> length buf then Some buf
     else if c \<noteq> SPC then save_chars (buf @ [c]) cs
     else if buf = [] then None
     else save_chars (if last buf \<noteq> SPC then buf @ [c] else buf) cs)"

fun save_words :: "bool \<Rightarrow> string \<Rightarrow> string list \<Rightarrow> string option" where
  "save_words first buf [] = Some buf"
| "save_words first buf (a # as) = (if MAXCALEN \<le> length buf then Some buf
     else if \<not> first \<and> buf = [] then None
     else case save_chars (if \<not> first \<and> last buf \<noteq> SPC then buf @ [SPC] else buf) a of
       None \<Rightarrow> None | Some b \<Rightarrow> save_words False b as)"

definition save_args :: "string list \<Rightarrow> string option" where
  "save_args arg = save_words True [] arg"

definition take_args :: "kproc \<Rightarrow> string copp" where
  "take_args pr = (case p_args pr of None \<Rightarrow> ret ''<unknown>''
   | Some arg \<Rightarrow> (case save_args arg of None \<Rightarrow> undef | Some a \<Rightarrow> ret a))"

text \<open>A node of the list is made and linked in; its uid is stored only for the log.\<close>

definition list_proc :: "cop_env \<Rightarrow> kproc \<Rightarrow> unit copp" where
  "list_proc e pr = bnd (gets malloced) (\<lambda>k.
     if \<not> can_alloc e k then upd (\<lambda>s. s\<lparr>malloced := k + 1, out_of_memory := True\<rparr>)
     else sq (upd (\<lambda>s. s\<lparr>malloced := k + 1\<rparr>))
       (bnd (take_args pr) (\<lambda>a.
       (bnd (is_sysproc e SH pr) (\<lambda>sh.
       (bnd (if sh then ret False else is_sysproc e SCREEN pr) (\<lambda>sc.
         upd (\<lambda>s. s\<lparr>nodes := (nodes s)(k := Some \<lparr>pid = p_pid pr, ppid = p_ppid pr, has_ctty = (p_tdev pr \<noteq> NODEV), ctty = p_tdev pr,
              args = a, uid = (if logging s then Some (p_ruid pr) else None), entry = pr, am_sh = sh, am_screen = sc,
              next_proc = proclist s\<rparr>), proclist := Some k\<rparr>))))))))"

text \<open>The programs whose processes and their children are spared, in the order of the tests.\<close>

fun first_sysproc :: "cop_env \<Rightarrow> kproc \<Rightarrow> nat list \<Rightarrow> bool copp" where
  "first_sysproc e pr [] = ret False"
| "first_sysproc e pr (i # is) = bnd (is_sysproc e i pr) (\<lambda>b. if b then ret True else first_sysproc e pr is)"

definition spared_uid :: "int \<Rightarrow> int \<Rightarrow> kproc \<Rightarrow> bool" where
  "spared_uid now u pr \<longleftrightarrow> (p_comm pr \<noteq> ''fingerd'' \<or> now - p_ustart_sec pr < FINGERD_TOO_OLD) \<and> u \<in> set protect_uids"

definition scan_one :: "cop_env \<Rightarrow> kproc \<Rightarrow> unit copp" where
  "scan_one e pr =
     sq (whenP (p_rgid pr \<noteq> STAFF_GID) (add_usermem (p_ruid pr) (proc_mem pr)))
     (bnd (gets out_of_memory) (\<lambda>oom. if oom then ret ()
     else bnd (first_sysproc e pr [SENDMAIL, POSTFIX, IRCD, DOVECOT]) (\<lambda>b. if b then add_hen (p_pid pr)
     else bnd (is_sysproc e FTPD pr) (\<lambda>ftp. bnd (gets curr_time) (\<lambda>now.
       if ftp \<and> now - p_ustart_sec pr < FTP_TOO_OLD then add_hen (p_pid pr)
       else bnd (is_sysproc e SSHD pr) (\<lambda>ssh. if ssh then add_hen (p_pid pr)
         else if spared_uid now (if ftp then p_uid pr else p_ruid pr) pr then ret ()
         else list_proc e pr))))))"

fun scan_procs :: "cop_env \<Rightarrow> kproc list \<Rightarrow> unit copp" where
  "scan_procs e [] = ret ()"
| "scan_procs e (p # ps) = sq (scan_one e p) (scan_procs e ps)"

definition scan_proc :: "cop_env \<Rightarrow> unit copp" where
  "scan_proc e = bnd (getprocs e) (\<lambda>r. case r of
     None \<Rightarrow> log_line (''Failed to get process list ('' @ kvm_err e @ '')\<newline>'')
   | Some ps \<Rightarrow> scan_procs e ps)"

section \<open>The users logged in\<close>

definition getdevnum :: "cop_env \<Rightarrow> string \<Rightarrow> int copp" where
  "getdevnum e tty = bnd (get_ttynumber tty) (\<lambda>dev. if dev \<noteq> NODEV then ret dev
     else bnd (gets snaps) (\<lambda>n. case stat_dev e n (''/dev/'' @ take UT_LINESIZE tty) of
       None \<Rightarrow> sq (log_line (''ERROR: could not stat '' @ ''/dev/'' @ take UT_LINESIZE tty)) (exit_prog 1)
     | Some d \<Rightarrow> sq (set_ttynumber tty d) (ret d)))"

definition on_terminal :: "utmp \<Rightarrow> bool" where
  "on_terminal u \<longleftrightarrow> ut_name u \<noteq> [] \<and> (take 3 (ut_line u) = ''tty'' \<or> ut_line u = ''console'')"

fun scan_users :: "cop_env \<Rightarrow> utmp list \<Rightarrow> unit copp" where
  "scan_users e [] = ret ()"
| "scan_users e (u # us) =
     sq (whenP (ut_name u \<noteq> []) (log_line (''UTMP '' @ pad_right 32 (take 32 (ut_name u)) @ [SPC] @ pad_right 8 (take 8 (ut_line u)) @ [SPC] @
       pad_left 20 (take 20 (drop 4 (ctime_of e (ut_time u)))) @ [SPC] @ take 16 (ut_host u) @ ''\<newline>'')))
     (sq (whenP (on_terminal u) (bnd (getdevnum e (ut_line u)) set_active)) (scan_users e us))"

definition scan_utmp :: "cop_env \<Rightarrow> unit copp" where
  "scan_utmp e = bnd (gets snaps) (\<lambda>n. case utmp_file e n of
     None \<Rightarrow> sq (log_line ''FAIL: cannot open /var/run/utmp\<newline>'') (exit_prog 1)
   | Some us \<Rightarrow> scan_users e us)"

end
