(* ===== verification/CopOrphans.thy ===== *)
theory CopOrphans
  imports CopProcs
begin

text \<open>
  The second half of \<open>scanproc.c\<close> of \<open>soft/apps/robocop\<close>: taking the processes that are not orphans off the list,
  ending the others, and the round of \<open>main.c\<close>.
\<close>

section \<open>A line about a process\<close>

text \<open>
  The pieces go to a buffer of 200 bytes one behind the other. Each is limited by the size of the whole buffer, less
  what was taken off for the time and the terminal, so the time and the last may go beyond it; \<open>None\<close> then.
\<close>

definition orph_line :: "cop_env \<Rightarrow> myproc \<Rightarrow> string option" where
  "orph_line e m = (let p = entry m;
     a = pad_left 6 (dec (pid m)) @ [SPC] @ pad_left 6 (dec (ppid m)) @ [SPC] @
       take 199 (take (maxlogname e) (p_login p) @ '' ('' @ dec (p_ruid p) @ ''/'' @ dec (p_uid p) @ '')'');
     b = pad_right 32 a @ take 8 (drop 11 (ctime_of e (p_ustart_sec p))) @ [SPC] @
       (if has_ctty m then pad_right 8 (take 8 (devname e (ctty m))) @ [SPC] else ''(no tty) '');
     comm = take (maxcomlen e) (p_comm p);
     c = b @ take 181 (args m @ (if comm \<noteq> [] then '' ('' @ comm @ '')\<newline>'' else ''\<newline>''))
   in if length (pad_right 32 a @ drop 11 (ctime_of e (p_ustart_sec p))) < 200 \<and> length c < 200 then Some c else None)"

definition write_orph :: "cop_env \<Rightarrow> string \<Rightarrow> myproc \<Rightarrow> unit copp" where
  "write_orph e before m = bnd (gets logging) (\<lambda>l. if \<not> l then ret ()
     else case orph_line e m of None \<Rightarrow> undef | Some x \<Rightarrow> log_line (before @ x))"

section \<open>The list\<close>

definition node_at :: "nat \<Rightarrow> myproc copp" where
  "node_at a = bnd (gets (\<lambda>s. nodes s a)) (\<lambda>r. case r of None \<Rightarrow> undef | Some m \<Rightarrow> ret m)"

definition free_proc :: "nat \<Rightarrow> unit copp" where
  "free_proc a = upd (\<lambda>s. s\<lparr>nodes := (nodes s)(a := None)\<rparr>)"

text \<open>The caller goes on with \<open>pmp\<close> as the node it was at.\<close>

definition drop_orph :: "nat \<Rightarrow> nat option \<Rightarrow> nat option \<Rightarrow> unit copp" where
  "drop_orph mp pmp nmp = sq (free_proc mp) (case pmp of
     None \<Rightarrow> upd (\<lambda>s. s\<lparr>proclist := nmp\<rparr>)
   | Some a \<Rightarrow> bnd (node_at a) (\<lambda>m. upd (\<lambda>s. s\<lparr>nodes := (nodes s)(a := Some (m\<lparr>next_proc := nmp\<rparr>))\<rparr>)))"

text \<open>
  A pass over the list from \<open>mp\<close> on, whose body says whether to drop the node; the result is whether any was. The
  nodes ever made bound its length.
\<close>

fun pass_from :: "nat \<Rightarrow> (myproc \<Rightarrow> bool copp) \<Rightarrow> nat option \<Rightarrow> nat option \<Rightarrow> bool \<Rightarrow> bool copp" where
  "pass_from n body None pmp any = ret any"
| "pass_from 0 body (Some mp) pmp any = (\<lambda>s. (NoFuel, s))"
| "pass_from (Suc n) body (Some mp) pmp any = bnd (node_at mp) (\<lambda>m.
     bnd (body m) (\<lambda>b. if b then sq (drop_orph mp pmp (next_proc m)) (pass_from n body (next_proc m) pmp True)
       else pass_from n body (next_proc m) (Some mp) any))"

definition proc_pass :: "(myproc \<Rightarrow> bool copp) \<Rightarrow> bool copp" where
  "proc_pass body = bnd (gets malloced) (\<lambda>n. bnd (gets proclist) (\<lambda>p. pass_from n body p None False))"

section \<open>Orphans\<close>

fun starts_with :: "string \<Rightarrow> string \<Rightarrow> bool" where
  "starts_with [] s = True"
| "starts_with (c # cs) [] = False"
| "starts_with (c # cs) (d # ds) = (c = d \<and> starts_with cs ds)"

fun strstr :: "string \<Rightarrow> string \<Rightarrow> bool" where
  "strstr [] w = (w = [])"
| "strstr (c # cs) w = (starts_with w (c # cs) \<or> strstr cs w)"

text \<open>The uid of a node, which is unset when there was no log.\<close>

definition node_uid :: "myproc \<Rightarrow> int copp" where
  "node_uid m = (case uid m of None \<Rightarrow> undef | Some u \<Rightarrow> ret u)"

definition active_body :: "myproc \<Rightarrow> bool copp" where
  "active_body m = bnd (if has_ctty m then get_active (ctty m) else ret False) (\<lambda>a.
     if a then sq (whenP (am_screen m) (bnd (node_uid m) add_screener)) (ret True)
     else if am_sh m \<and> strstr (args m) ''sendmail'' then ret True
     else if am_sh m \<and> strstr (args m) ''master'' then ret True
     else ret False)"

definition screen_body :: "myproc \<Rightarrow> bool copp" where
  "screen_body m = bnd (is_hen (ppid m)) (\<lambda>h.
     bnd (if h then ret True else if am_screen m \<and> \<not> has_ctty m then bnd (node_uid m) is_screener else ret False) (\<lambda>b.
       if b then sq (add_hen (pid m)) (ret True) else ret False))"

definition child_body :: "myproc \<Rightarrow> bool copp" where
  "child_body m = bnd (is_hen (ppid m)) (\<lambda>h. if h then sq (add_hen (pid m)) (ret True) else ret False)"

text \<open>The passes go on while one drops a process, so one more than there are nodes is enough.\<close>

definition find_orph :: "bool copp" where
  "find_orph = sq init_screener (sq (proc_pass active_body) (sq (proc_pass screen_body)
     (bnd (gets malloced) (\<lambda>n. sq (iter (Suc n) (proc_pass child_body)) (gets (\<lambda>s. proclist s \<noteq> None))))))"

section \<open>Ending them\<close>

text \<open>Both loops go along the list; the second frees it.\<close>

fun soft_from :: "cop_env \<Rightarrow> nat \<Rightarrow> nat option \<Rightarrow> unit copp" where
  "soft_from e n None = ret ()"
| "soft_from e 0 (Some mp) = (\<lambda>s. (NoFuel, s))"
| "soft_from e (Suc n) (Some mp) = bnd (node_at mp) (\<lambda>m.
     sq (log_line (''kill('' @ dec (pid m) @ '',SIGTERM)\<newline>''))
     (sq (if pid m < 2 then ret () else bnd (kill_proc e (pid m) SOFTKILL) (\<lambda>b. whenP b (write_orph e [] m)))
       (soft_from e n (next_proc m))))"

fun hard_from :: "cop_env \<Rightarrow> bool \<Rightarrow> nat \<Rightarrow> nat option \<Rightarrow> unit copp" where
  "hard_from e oom n None = ret ()"
| "hard_from e oom 0 (Some mp) = (\<lambda>s. (NoFuel, s))"
| "hard_from e oom (Suc n) (Some mp) = bnd (node_at mp) (\<lambda>m.
     sq (whenP (\<not> oom) (sq (log_line (''kill('' @ dec (pid m) @ '',SIGKILL)\<newline>''))
         (whenP (2 \<le> pid m) (bnd (kill_proc e (pid m) HARDKILL) (\<lambda>_. ret ())))))
     (sq (free_proc mp) (hard_from e oom n (next_proc m))))"

definition kill_orph :: "cop_env \<Rightarrow> unit copp" where
  "kill_orph e = bnd (gets out_of_memory) (\<lambda>oom. bnd (gets malloced) (\<lambda>n.
     sq (whenP (\<not> oom) (sq (bnd (gets proclist) (soft_from e n)) (snooze 15)))
     (sq (bnd (gets proclist) (hard_from e oom n))
       (upd (\<lambda>s. s\<lparr>proclist := None\<rparr>)))))"

section \<open>A round of the daemon\<close>

text \<open>
  \<open>write_list\<close> of the verbose log, and the round from one sleep to the next. The clock is read at some number of
  deeds done.
\<close>

fun list_from :: "cop_env \<Rightarrow> nat \<Rightarrow> nat option \<Rightarrow> unit copp" where
  "list_from e n None = ret ()"
| "list_from e 0 (Some mp) = (\<lambda>s. (NoFuel, s))"
| "list_from e (Suc n) (Some mp) = bnd (node_at mp) (\<lambda>m. sq (write_orph e ''# '' m) (list_from e n (next_proc m)))"

definition write_list :: "cop_env \<Rightarrow> unit copp" where
  "write_list e = bnd (gets malloced) (\<lambda>n. bnd (gets proclist) (list_from e n))"

definition read_clock :: "cop_env \<Rightarrow> int copp" where
  "read_clock e = gets (\<lambda>s. time_at e (length (deeds s)))"

definition end_orphans :: "cop_env \<Rightarrow> unit copp" where
  "end_orphans e = bnd find_orph (\<lambda>b. whenP b (sq (log_line ''killing orphans...\<newline>'') (sq (snooze 180) (kill_orph e))))"

definition cop_round :: "cop_env \<Rightarrow> unit copp" where
  "cop_round e =
     sq (upd (\<lambda>s. s\<lparr>out_of_memory := False\<rparr>))
     (sq (bnd (read_clock e) (\<lambda>t. upd (\<lambda>s. s\<lparr>curr_time := t\<rparr>)))
     (sq init_usermem (sq init_hen
     (sq (bnd (gets curr_time) (\<lambda>t. log_line (pad_left 20 (take 20 (drop 4 (ctime_of e t))) @ '': scanning\<newline>'')))
     (sq init_active (sq (set_active 0)
     (sq (scan_proc e)
     (sq (check_mem e)
     (sq (scan_utmp e)
     (sq (bnd (gets logging) (\<lambda>l. whenP l (write_list e)))
     (sq (end_orphans e)
     (bnd (gets curr_time) (\<lambda>t. bnd (read_clock e) (\<lambda>now. let sleep_time = t + 480 - now in
       sq (snooze (if sleep_time < 0 then 60 else sleep_time))
         (upd (\<lambda>s. s\<lparr>logging := log_opens e (length (deeds s))\<rparr>))))))))))))))))"

fun cop_rounds :: "cop_env \<Rightarrow> nat \<Rightarrow> unit copp" where
  "cop_rounds e 0 = ret ()"
| "cop_rounds e (Suc n) = sq (cop_round e) (cop_rounds e n)"

text \<open>The daemon before its first round, and the first \<open>n\<close> rounds.\<close>

definition cop_start :: "bool \<Rightarrow> cop" where
  "cop_start l = \<lparr>active = replicate ACTIVESIZE 0, n_active = 0, screener = replicate SCREENERSIZE 0, n_screener = 0,
     hen = replicate HENSIZE 0, n_hen = 0, ttynumber = replicate TTYNUMBERSIZE \<lparr>t_name = [], t_device = 0\<rparr>, n_ttynumber = 0,
     user = replicate TABLESIZE \<lparr>h_uid = 0, h_mem = 0, h_nproc = 0\<rparr>, n_user = 0, fps = [], saved_text = (0, 0),
     nodes = (\<lambda>_. None), malloced = 0, proclist = None, out_of_memory = False, curr_time = 0, logging = l, logtext = [],
     deeds = [], snaps = 0\<rparr>"

definition cop_main :: "cop_env \<Rightarrow> nat \<Rightarrow> unit copp" where
  "cop_main e n = sq (bnd (read_clock e) (\<lambda>t. upd (\<lambda>s. s\<lparr>curr_time := t\<rparr>)))
     (sq init_ttynumber (sq (init_sysproc e) (cop_rounds e n)))"

end
