(* ===== verification/CopList.thy ===== *)
theory CopList
  imports CopOrphans
begin

text \<open>
  The linked list of \<open>soft/apps/robocop/scanproc.c\<close> as a list: a pass over the nodes in the store that drops some of
  them, with \<open>drop_orph\<close> mending the links, is a pass over a list of processes.
\<close>

section \<open>Programs that do not touch the list\<close>

definition with_list :: "(nat \<Rightarrow> myproc option) \<Rightarrow> nat option \<Rightarrow> nat \<Rightarrow> cop \<Rightarrow> cop" where
  "with_list N p k s = s\<lparr>nodes := N, proclist := p, malloced := k\<rparr>"

definition blind :: "'a copp \<Rightarrow> bool" where
  "blind m \<longleftrightarrow> (\<forall>s r t N p k. m s = (r, t) \<longrightarrow> m (with_list N p k s) = (r, with_list N p k t))"

lemma with_list_simps [simp]:
  "nodes (with_list N p k s) = N" "proclist (with_list N p k s) = p" "malloced (with_list N p k s) = k"
  "with_list N p k (with_list M q j s) = with_list N p k s"
  "with_list (nodes s) (proclist s) (malloced s) s = s"
  by (simp_all add: with_list_def)

lemma blindD: "blind m \<Longrightarrow> m s = (r, t) \<Longrightarrow> m (with_list N p k s) = (r, with_list N p k t)"
  by (simp add: blind_def)

lemma blind_keeps:
  assumes "blind m" and "m s = (r, t)"
  shows "nodes t = nodes s" "proclist t = proclist s" "malloced t = malloced s"
proof -
  have "t = with_list (nodes s) (proclist s) (malloced s) t"
    using blindD [OF assms, of "nodes s" "proclist s" "malloced s"] assms(2) by simp
  then show "nodes t = nodes s" "proclist t = proclist s" "malloced t = malloced s" by (metis with_list_simps(1-3))+
qed

lemma blind_basic: "blind (ret a)" "blind undef" "blind hang" "blind (exit_prog c)"
  by (simp_all add: blind_def ret_def undef_def hang_def exit_prog_def)

lemma blind_gets: "(\<And>s N p k. f (with_list N p k s) = f s) \<Longrightarrow> blind (gets f)"
  by (simp add: blind_def gets_def)

lemma blind_upd: "(\<And>s N p k. f (with_list N p k s) = with_list N p k (f s)) \<Longrightarrow> blind (upd f)"
  by (simp add: blind_def upd_def)

lemma blind_bnd:
  assumes m: "blind m" and k: "\<And>a. blind (k a)"
  shows "blind (bnd m k)"
  unfolding blind_def
proof (intro allI impI)
  fix s r t N p j
  assume "bnd m k s = (r, t)"
  then show "bnd m k (with_list N p j s) = (r, with_list N p j t)"
  proof (cases rule: bnd_cases)
    case (step a u)
    then show ?thesis using blindD [OF m step(1)] blindD [OF k step(2)] by (simp add: bnd_def)
  next
    case (stop e)
    then show ?thesis using blindD [OF m stop(1)] \<open>bnd m k s = (r, t)\<close> by (cases e) (simp_all add: bnd_def)
  qed
qed

lemma blind_sq: "blind m \<Longrightarrow> blind n \<Longrightarrow> blind (sq m n)"
  by (simp add: sq_def blind_bnd)

lemma blind_cases:
  "(b \<Longrightarrow> blind m) \<Longrightarrow> (\<not> b \<Longrightarrow> blind n) \<Longrightarrow> blind (if b then m else n)"
  "(b \<Longrightarrow> blind l) \<Longrightarrow> blind (whenP b l)"
  "(r = None \<Longrightarrow> blind m) \<Longrightarrow> (\<And>x. r = Some x \<Longrightarrow> blind (j x)) \<Longrightarrow> blind (case r of None \<Rightarrow> m | Some x \<Rightarrow> j x)"
  by (simp, simp add: whenP_def blind_basic, cases r, auto)

lemmas blind_rules = blind_basic blind_bnd blind_sq blind_cases blind_gets blind_upd

lemma blind_tables: "blind (get_active d)" "blind (is_screener u)" "blind (add_screener u)" "blind (is_hen x)" "blind (add_hen x)"
  unfolding get_active_def find_active_def is_screener_def add_screener_def find_screener_def is_hen_def add_hen_def find_hen_def
    found_at_def
  by (intro blind_rules; simp add: with_list_def)+

lemma blind_bodies: "blind (active_body m)" "blind (screen_body m)" "blind (child_body m)"
  unfolding active_body_def screen_body_def child_body_def node_uid_def
  by (intro blind_rules blind_tables)+

section \<open>The list in the store\<close>

fun linked :: "(nat \<Rightarrow> myproc option) \<Rightarrow> nat option \<Rightarrow> nat list \<Rightarrow> nat option \<Rightarrow> bool" where
  "linked N p [] q \<longleftrightarrow> p = q"
| "linked N p (a # as) q \<longleftrightarrow> p = Some a \<and> (\<exists>m. N a = Some m \<and> linked N (next_proc m) as q)"

definition bare :: "myproc \<Rightarrow> myproc" where
  "bare m = m\<lparr>next_proc := None\<rparr>"

definition content :: "(nat \<Rightarrow> myproc option) \<Rightarrow> nat list \<Rightarrow> myproc list" where
  "content N as = map (\<lambda>a. bare (the (N a))) as"

definition listed_at :: "cop \<Rightarrow> nat list \<Rightarrow> myproc list \<Rightarrow> bool" where
  "listed_at s as L \<longleftrightarrow> distinct as \<and> set as \<subseteq> {..<malloced s} \<and> linked (nodes s) (proclist s) as None \<and> content (nodes s) as = L"

lemma procs_append: "linked N p (xs @ ys) q \<longleftrightarrow> (\<exists>r. linked N p xs r \<and> linked N r ys q)"
  by (induction xs arbitrary: p) auto

lemma linked_other: "a \<notin> set as \<Longrightarrow> linked (N(a := x)) p as q = linked N p as q"
  by (induction as arbitrary: p) auto

lemma content_other: "a \<notin> set as \<Longrightarrow> content (N(a := x)) as = content N as"
  by (auto simp: content_def)

lemma content_simps [simp]: "content N [] = []" "content N (a # as) = bare (the (N a)) # content N as"
  "content N (as @ bs) = content N as @ content N bs" "length (content N as) = length as"
  by (simp_all add: content_def)

lemma bare_next [simp]: "bare (m\<lparr>next_proc := x\<rparr>) = bare m"
  by (simp add: bare_def)

section \<open>A pass\<close>

fun sift :: "(myproc \<Rightarrow> bool copp) \<Rightarrow> myproc list \<Rightarrow> myproc list copp" where
  "sift body [] = ret []"
| "sift body (m # ms) = bnd (body m) (\<lambda>b. bnd (sift body ms) (\<lambda>r. ret (if b then r else m # r)))"

lemma blind_sift: "(\<And>m. blind (body m)) \<Longrightarrow> blind (sift body L)"
  by (induction L) (auto intro!: blind_rules)

lemma sift_length: "sift body L s = (Ret L', t) \<Longrightarrow> length L' \<le> length L"
  by (induction L arbitrary: s L') (fastforce simp: ret_def elim!: bnd_RetE split: if_splits)+

definition last_of :: "'a list \<Rightarrow> 'a option" where
  "last_of xs = (if xs = [] then None else Some (last xs))"

text \<open>Dropping the node behind the ones kept mends the list.\<close>

lemma drop_run:
  assumes "distinct (ds @ a # as)" and "linked (nodes s) (proclist s) (ds @ a # as) None" and "nodes s a = Some m"
  obtains N p where "drop_orph a (last_of ds) (next_proc m) s = (Ret (), with_list N p (malloced s) s)"
    and "linked N p (ds @ as) None" and "content N ds = content (nodes s) ds" and "content N as = content (nodes s) as"
    and "\<And>b. b \<in> set as \<Longrightarrow> N b = nodes s b"
proof (cases ds rule: rev_cases)
  case Nil
  have w: "with_list N p (malloced s) s = s\<lparr>nodes := N, proclist := p\<rparr>" for N p by (cases s) (simp add: with_list_def)
  show thesis
    by (rule that [of "(nodes s)(a := None)" "next_proc m"])
      (use Nil assms in \<open>simp_all add: w drop_orph_def last_of_def free_proc_def sq_def bnd_def upd_def linked_other content_other, auto\<close>)
next
  case (snoc es d)
  have w: "with_list N (proclist s) (malloced s) s = s\<lparr>nodes := N\<rparr>" for N by (cases s) (simp add: with_list_def)
  from assms(2) snoc obtain x where d: "linked (nodes s) (proclist s) es (Some d)" "nodes s d = Some x"
    by (auto simp: procs_append)
  let ?N = "(nodes s)(a := None, d := Some (x\<lparr>next_proc := next_proc m\<rparr>))"
  have ne: "d \<noteq> a" "a \<notin> set es" "d \<notin> set es" "d \<notin> set as" "a \<notin> set as" using assms(1) snoc by auto
  have "linked (nodes s) (next_proc m) as None" using assms(2,3) by (auto simp: procs_append)
  then have l: "linked ?N (proclist s) (ds @ as) None"
    using d ne snoc by (auto simp: procs_append linked_other)
  show thesis
  proof (rule that [of ?N "proclist s"])
    show "drop_orph a (last_of ds) (next_proc m) s = (Ret (), with_list ?N (proclist s) (malloced s) s)"
      using snoc d ne by (simp add: w drop_orph_def last_of_def free_proc_def node_at_def sq_def bnd_def upd_def gets_def ret_def)
    show "linked ?N (proclist s) (ds @ as) None" by (rule l)
    show "content ?N ds = content (nodes s) ds" using snoc d ne by (simp add: content_other)
    show "content ?N as = content (nodes s) as" using ne by (simp add: content_other)
    show "\<And>b. b \<in> set as \<Longrightarrow> ?N b = nodes s b" using ne by auto
  qed
qed

lemma pass_runs:
  assumes blind: "\<And>m. blind (body m)" and bare: "\<And>m. body (bare m) = body m"
  shows "distinct (ds @ as) \<Longrightarrow> linked (nodes s) (proclist s) (ds @ as) None \<Longrightarrow> linked (nodes s) p as None \<Longrightarrow> length as \<le> n \<Longrightarrow>
    sift body (content (nodes s) as) s = (Ret L, t) \<Longrightarrow>
    \<exists>N q bs. pass_from n body p (last_of ds) any s = (Ret (any \<or> length L < length as), with_list N q (malloced s) t) \<and>
      linked N q (ds @ bs) None \<and> set bs \<subseteq> set as \<and> distinct (ds @ bs) \<and> content N ds = content (nodes s) ds \<and> content N bs = L"
proof (induction as arbitrary: n ds p any s L t)
  case Nil
  then have "p = None" "t = s" "L = []" by (simp_all add: ret_def)
  then show ?case using Nil by (intro exI [of _ "nodes s"] exI [of _ "proclist s"] exI [of _ "[]"]) (simp add: ret_def)
next
  case (Cons a as)
  obtain m where m: "nodes s a = Some m" "p = Some a" "linked (nodes s) (next_proc m) as None" using Cons.prems(3) by auto
  obtain k where n: "n = Suc k" "length as \<le> k" using Cons.prems(4) by (cases n) auto
  from Cons.prems(5) m bare [of m] obtain b u L' where b: "body m s = (Ret b, u)"
    and rest: "sift body (content (nodes s) as) u = (Ret L', t)" and L: "L = (if b then L' else bare m # L')"
    by (auto simp: ret_def elim!: bnd_RetE)
  note keeps = blind_keeps [OF blind b]
  have len: "length L' \<le> length as" using sift_length [OF rest] by simp
  have node: "node_at a s = (Ret m, s)" using m(1) by (simp add: node_at_def bnd_def gets_def ret_def)
  show ?case
  proof (cases b)
    case False
    have l: "linked (nodes u) (proclist u) ((ds @ [a]) @ as) None" using Cons.prems(2) keeps by simp
    have "\<exists>N q bs. pass_from k body (next_proc m) (last_of (ds @ [a])) any u = (Ret (any \<or> length L' < length as), with_list N q (malloced u) t) \<and>
      linked N q ((ds @ [a]) @ bs) None \<and> set bs \<subseteq> set as \<and> distinct ((ds @ [a]) @ bs) \<and> content N (ds @ [a]) = content (nodes u) (ds @ [a]) \<and> content N bs = L'"
      by (rule Cons.IH) (use Cons.prems(1) l m(3) n(2) rest keeps in simp_all)
    then obtain N q bs where ih: "pass_from k body (next_proc m) (last_of (ds @ [a])) any u = (Ret (any \<or> length L' < length as), with_list N q (malloced u) t)"
      "linked N q ((ds @ [a]) @ bs) None" "set bs \<subseteq> set as" "distinct ((ds @ [a]) @ bs)" "content N (ds @ [a]) = content (nodes u) (ds @ [a])" "content N bs = L'"
      by blast
    have "pass_from n body p (last_of ds) any s = (Ret (any \<or> length L < length (a # as)), with_list N q (malloced s) t)"
      using n(1) m(2) node b False ih(1) keeps(3) L by (simp add: bnd_def last_of_def)
    moreover have "content N (a # bs) = L" using ih(5,6) keeps(1) m(1) L False by simp
    ultimately show ?thesis using ih keeps(1) by (intro exI [of _ N] exI [of _ q] exI [of _ "a # bs"]) auto
  next
    case True
    have d: "distinct (ds @ a # as)" "linked (nodes u) (proclist u) (ds @ a # as) None" "nodes u a = Some m"
      using Cons.prems(1,2) m(1) keeps by simp_all
    obtain M p1 where dr: "drop_orph a (last_of ds) (next_proc m) u = (Ret (), with_list M p1 (malloced u) u)"
      "linked M p1 (ds @ as) None" "content M ds = content (nodes u) ds" "content M as = content (nodes u) as"
      "\<And>b. b \<in> set as \<Longrightarrow> M b = nodes u b"
      using drop_run [OF d] by blast
    let ?v = "with_list M p1 (malloced u) u"
    have same: "linked M q as r = linked (nodes u) q as r" for q r
      using dr(5) by (induction as arbitrary: q) auto
    have rest': "sift body (content (nodes ?v) as) ?v = (Ret L', with_list M p1 (malloced u) t)"
      using blindD [OF blind_sift [of body, OF blind] rest, of M p1 "malloced u"] dr(4) keeps(1) by simp
    have ih0: "\<exists>N q bs. pass_from k body (next_proc m) (last_of ds) True ?v = (Ret (True \<or> length L' < length as), with_list N q (malloced ?v) (with_list M p1 (malloced u) t)) \<and>
      linked N q (ds @ bs) None \<and> set bs \<subseteq> set as \<and> distinct (ds @ bs) \<and> content N ds = content (nodes ?v) ds \<and> content N bs = L'"
      by (rule Cons.IH [OF _ _ _ n(2) rest']) (use d dr(2) m(3) keeps(1) same in simp_all)
    then obtain N q bs where ih: "pass_from k body (next_proc m) (last_of ds) True ?v = (Ret True, with_list N q (malloced u) t)"
      "linked N q (ds @ bs) None" "set bs \<subseteq> set as" "distinct (ds @ bs)" "content N ds = content M ds" "content N bs = L'"
      by auto
    have "pass_from n body p (last_of ds) any s = (Ret (any \<or> length L < length (a # as)), with_list N q (malloced s) t)"
      using n(1) m(2) node b True ih(1) keeps(3) L len dr(1) by (simp add: bnd_def sq_def)
    then show ?thesis using ih dr(3) keeps(1) L True by (intro exI [of _ N] exI [of _ q] exI [of _ bs]) auto
  qed
qed

text \<open>Over the whole list: the state changes as the list program says, and the store shows its result.\<close>

lemma proc_pass_run:
  assumes "\<And>m. blind (body m)" and "\<And>m. body (bare m) = body m" and "listed_at s as L" and "sift body L s = (Ret L', t)"
  obtains N q bs where "proc_pass body s = (Ret (length L' < length L), with_list N q (malloced s) t)"
    and "listed_at (with_list N q (malloced s) t) bs L'"
proof -
  have a: "distinct as" "set as \<subseteq> {..<malloced s}" "linked (nodes s) (proclist s) as None" "content (nodes s) as = L"
    using assms(3) by (simp_all add: listed_at_def)
  have len: "length as \<le> malloced s"
    using card_mono [OF _ a(2)] a(1) by (simp add: distinct_card)
  have "\<exists>N q bs. pass_from (malloced s) body (proclist s) (last_of []) False s = (Ret (False \<or> length L' < length as), with_list N q (malloced s) t) \<and>
      linked N q ([] @ bs) None \<and> set bs \<subseteq> set as \<and> distinct ([] @ bs) \<and> content N [] = content (nodes s) [] \<and> content N bs = L'"
    by (rule pass_runs [of body, OF assms(1,2)]) (use a len assms(4) in simp_all)
  then obtain N q bs where p: "pass_from (malloced s) body (proclist s) None False s = (Ret (length L' < length as), with_list N q (malloced s) t)"
      "linked N q bs None" "set bs \<subseteq> set as" "distinct bs" "content N bs = L'"
    by (auto simp: last_of_def)
  have "length as = length L" using a(4) by auto
  then have "proc_pass body s = (Ret (length L' < length L), with_list N q (malloced s) t)"
    using p(1) by (simp add: proc_pass_def bnd_def gets_def)
  then show thesis using that [of N q bs] p a(2) by (auto simp: listed_at_def)
qed

end
