(* ===== verification/CopFind.thy ===== *)
theory CopFind
  imports CopList "HOL-Library.Sublist"
begin

text \<open>
  What \<open>find_orph\<close> of \<open>soft/apps/robocop/scanproc.c\<close> leaves on the list: the processes of terminals nobody is logged in on
  that have no protected process among their ancestors.
\<close>

section \<open>Orphans\<close>

definition on_active :: "int set \<Rightarrow> myproc \<Rightarrow> bool" where
  "on_active A m \<longleftrightarrow> has_ctty m \<and> ctty m \<in> A"

definition mail_shell :: "myproc \<Rightarrow> bool" where
  "mail_shell m \<longleftrightarrow> am_sh m \<and> (strstr (args m) ''sendmail'' \<or> strstr (args m) ''master'')"

text \<open>The users with a screen on an active terminal; the superuser is never among them.\<close>

definition screen_uids :: "int set \<Rightarrow> myproc list \<Rightarrow> int set" where
  "screen_uids A L = {u. \<exists>m \<in> set L. on_active A m \<and> am_screen m \<and> uid m = Some u} - {0}"

definition screen_daemon :: "int set \<Rightarrow> myproc \<Rightarrow> bool" where
  "screen_daemon U m \<longleftrightarrow> am_screen m \<and> \<not> has_ctty m \<and> (\<exists>u \<in> U. uid m = Some u)"

inductive sheltered :: "int set \<Rightarrow> int set \<Rightarrow> myproc set \<Rightarrow> myproc \<Rightarrow> bool" for H U R where
  hen_child: "m \<in> R \<Longrightarrow> ppid m \<in> H \<Longrightarrow> sheltered H U R m"
| daemon: "m \<in> R \<Longrightarrow> screen_daemon U m \<Longrightarrow> sheltered H U R m"
| child: "sheltered H U R c \<Longrightarrow> m \<in> R \<Longrightarrow> ppid m = pid c \<Longrightarrow> sheltered H U R m"

definition candidates :: "int set \<Rightarrow> myproc list \<Rightarrow> myproc list" where
  "candidates A L = filter (\<lambda>m. \<not> on_active A m \<and> \<not> mail_shell m) L"

definition orphans :: "int set \<Rightarrow> int set \<Rightarrow> myproc list \<Rightarrow> myproc list" where
  "orphans A H L = filter (\<lambda>m. \<not> sheltered H (screen_uids A L) (set (candidates A L)) m) (candidates A L)"

definition active_screens :: "int set \<Rightarrow> myproc list \<Rightarrow> nat" where
  "active_screens A L = length (filter (\<lambda>m. on_active A m \<and> am_screen m) L)"

lemma sheltered_in: "sheltered H U R m \<Longrightarrow> m \<in> R"
  by (induction rule: sheltered.induct) simp_all

lemma on_active_bare [simp]: "on_active A (bare m) = on_active A m"
  by (simp add: on_active_def bare_def)

section \<open>What the passes change\<close>

definition tables_only :: "cop \<Rightarrow> cop \<Rightarrow> bool" where
  "tables_only s t \<longleftrightarrow> (\<exists>a b c d. t = s\<lparr>n_screener := a, screener := b, n_hen := c, hen := d\<rparr>)"

lemma tables_only_refl [simp]: "tables_only s s"
  unfolding tables_only_def
  by (rule exI [of _ "n_screener s"], rule exI [of _ "screener s"], rule exI [of _ "n_hen s"], rule exI [of _ "hen s"]) simp

lemma tables_only_trans: "tables_only s t \<Longrightarrow> tables_only t u \<Longrightarrow> tables_only s u"
  unfolding tables_only_def by (elim exE, hypsubst) (rule exI, rule exI, rule exI, rule exI, simp)

lemma tables_only_act [simp]: "tables_only s t \<Longrightarrow> active t = active s \<and> n_active t = n_active s"
  by (auto simp: tables_only_def)

lemma sift_subseq: "sift body L s = (Ret L', t) \<Longrightarrow> subseq L' L"
  by (induction L arbitrary: s L') (fastforce simp: ret_def elim!: bnd_RetE split: if_splits)+

section \<open>The first pass\<close>

lemma act_same:
  assumes "tables_only s t"
  shows "act.in_order t = act.in_order s" "act.members t = act.members s"
  using tables_only_act [OF assms] by (simp_all add: act.in_order_def act.members_def)

lemma scr_members_0: "n_screener s < int MAXSCREENERS \<Longrightarrow> 0 \<notin> scr.members s"
  by (simp add: scr.members_def keys_in_def)

lemma active_body_run:
  assumes "act.in_order s" and "scr.in_order s" and "am_screen m \<longrightarrow> uid m \<noteq> None"
  obtains t where "active_body m s = (Ret (on_active (act.members s) m \<or> mail_shell m), t)" "tables_only s t" "hen t = hen s" "n_hen t = n_hen s"
    "scr.in_order t" "n_screener s \<le> n_screener t"
    "n_screener t \<le> n_screener s + int (active_screens (act.members s) [m])"
    "n_screener t < int MAXSCREENERS \<longrightarrow> scr.members t = scr.members s \<union> screen_uids (act.members s) [m]"
proof -
  let ?a = "on_active (act.members s) m"
  have a: "(if has_ctty m then get_active (ctty m) else ret False) s = (Ret ?a, s)"
    using act.member_run [OF assms(1)] by (simp add: on_active_def ret_def)
  show thesis
  proof (cases "?a \<and> am_screen m")
    case False
    then have "active_body m s = (Ret (?a \<or> mail_shell m), s)"
      using a by (auto simp: active_body_def bnd_def whenP_def sq_def ret_def mail_shell_def)
    moreover have "screen_uids (act.members s) [m] = {}" using False by (auto simp: screen_uids_def)
    ultimately show thesis using assms(2) by (intro that [of s]) simp_all
  next
    case True
    then obtain u where u: "uid m = Some u" using assms(3) by auto
    obtain t where t: "add_screener u s = (Ret (), t)" "scr.in_order t"
      "t = s \<or> (\<exists>i. t = s\<lparr>n_screener := n_screener s + 1, screener := (screener s)[i := u]\<rparr>)"
      "scr.members s \<subseteq> scr.members t" "u \<noteq> 0 \<longrightarrow> u \<in> scr.members t"
      "scr.members t \<noteq> UNIV \<longrightarrow> scr.members t - {0} \<subseteq> insert u (scr.members s)"
      "n_screener s \<le> n_screener t" "n_screener t \<le> n_screener s + 1"
      using scr.mark_run [OF assms(2), of u] by blast
    have run: "active_body m s = (Ret (?a \<or> mail_shell m), t)"
      using a True u t(1) by (simp add: active_body_def node_uid_def bnd_def whenP_def sq_def ret_def)
    have scr: "screen_uids (act.members s) [m] = {u} - {0}" using True u by (auto simp: screen_uids_def)
    have new: "scr.members t = scr.members s \<union> screen_uids (act.members s) [m]" if "n_screener t < int MAXSCREENERS"
    proof -
      have "0 \<notin> scr.members t" "scr.members t \<noteq> UNIV" using scr_members_0 [OF that] by auto
      then show ?thesis using t(4-6) scr by auto
    qed
    have "tables_only s t"
      using t(3)
    proof
      assume "\<exists>i. t = s\<lparr>n_screener := n_screener s + 1, screener := (screener s)[i := u]\<rparr>"
      then obtain i where "t = s\<lparr>n_screener := n_screener s + 1, screener := (screener s)[i := u]\<rparr>" by blast
      then show ?thesis unfolding tables_only_def
        by (intro exI [of _ "n_screener s + 1"] exI [of _ "(screener s)[i := u]"] exI [of _ "n_hen s"] exI [of _ "hen s"]) simp
    qed simp
    then show thesis
      using run t(2,3,7,8) new True by (intro that [of t]) (auto simp: active_screens_def)
  qed
qed

lemma screen_uids_Cons: "screen_uids A (m # L) = screen_uids A [m] \<union> screen_uids A L"
  by (auto simp: screen_uids_def)

lemma active_sift:
  "act.in_order s \<Longrightarrow> scr.in_order s \<Longrightarrow> \<forall>m \<in> set L. am_screen m \<longrightarrow> uid m \<noteq> None \<Longrightarrow>
   \<exists>t. sift active_body L s = (Ret (candidates (act.members s) L), t) \<and> tables_only s t \<and> hen t = hen s \<and> n_hen t = n_hen s \<and> scr.in_order t \<and>
     n_screener s \<le> n_screener t \<and> n_screener t \<le> n_screener s + int (active_screens (act.members s) L) \<and>
     (n_screener t < int MAXSCREENERS \<longrightarrow> scr.members t = scr.members s \<union> screen_uids (act.members s) L)"
proof (induction L arbitrary: s)
  case Nil
  then show ?case by (auto simp: candidates_def ret_def screen_uids_def)
next
  case (Cons m L)
  obtain u where u: "active_body m s = (Ret (on_active (act.members s) m \<or> mail_shell m), u)" "tables_only s u" "hen u = hen s" "n_hen u = n_hen s"
    "scr.in_order u" "n_screener s \<le> n_screener u" "n_screener u \<le> n_screener s + int (active_screens (act.members s) [m])"
    "n_screener u < int MAXSCREENERS \<longrightarrow> scr.members u = scr.members s \<union> screen_uids (act.members s) [m]"
    using active_body_run [OF Cons.prems(1,2)] Cons.prems(3) by auto
  note same = act_same [OF u(2)]
  obtain t where t: "sift active_body L u = (Ret (candidates (act.members u) L), t)" "tables_only u t" "hen t = hen u" "n_hen t = n_hen u" "scr.in_order t"
     "n_screener u \<le> n_screener t" "n_screener t \<le> n_screener u + int (active_screens (act.members u) L)"
     "n_screener t < int MAXSCREENERS \<longrightarrow> scr.members t = scr.members u \<union> screen_uids (act.members u) L"
    using Cons.IH [of u] Cons.prems u(5) same(1) by auto
  have "sift active_body (m # L) s = (Ret (candidates (act.members s) (m # L)), t)"
    using u(1) t(1) same(2) by (simp add: bnd_def ret_def candidates_def)
  moreover have "active_screens (act.members s) (m # L) = active_screens (act.members s) [m] + active_screens (act.members s) L"
    by (simp add: active_screens_def)
  moreover have "tables_only s t" using u(2) t(2) by (rule tables_only_trans)
  ultimately show ?case using u t(3-8) same(2) screen_uids_Cons [of "act.members s" m L] by (intro exI [of _ t]) auto
qed

section \<open>The passes that gather hens\<close>

text \<open>
  The hens found so far, against those at the start and the sheltered processes, as long as the table is not full.
\<close>

definition hens_ok :: "int set \<Rightarrow> int set \<Rightarrow> myproc set \<Rightarrow> cop \<Rightarrow> bool" where
  "hens_ok H U R s \<longleftrightarrow> hens.in_order s \<and> H \<subseteq> hens.members s \<and>
     (n_hen s < int HENMAX \<longrightarrow> hens.members s \<subseteq> H \<union> pid ` {m. sheltered H U R m})"

definition same_screeners :: "cop \<Rightarrow> cop \<Rightarrow> bool" where
  "same_screeners s t \<longleftrightarrow> screener t = screener s \<and> n_screener t = n_screener s"

lemma same_screeners_scr: "same_screeners s t \<Longrightarrow> scr.in_order t = scr.in_order s \<and> scr.members t = scr.members s"
  by (simp add: same_screeners_def scr.in_order_def scr.members_def)

text \<open>A process that is dropped becomes a hen.\<close>

lemma hen_dropped:
  assumes ok: "hens_ok H U R s" and m: "m \<in> R" "pid m \<noteq> 0" "ppid m \<in> hens.members s \<or> screen_daemon U m"
  obtains t where "add_hen (pid m) s = (Ret (), t)" "hens_ok H U R t" "tables_only s t" "same_screeners s t"
    "hens.members s \<subseteq> hens.members t" "pid m \<in> hens.members t" "n_hen s \<le> n_hen t" "n_hen t \<le> n_hen s + 1"
    "n_hen t < int HENMAX \<longrightarrow> sheltered H U R m"
proof -
  have s: "hens.in_order s" "H \<subseteq> hens.members s" using ok by (simp_all add: hens_ok_def)
  obtain t where t: "add_hen (pid m) s = (Ret (), t)" "hens.in_order t"
    "t = s \<or> (\<exists>i. t = s\<lparr>n_hen := n_hen s + 1, hen := (hen s)[i := pid m]\<rparr>)"
    "hens.members s \<subseteq> hens.members t" "pid m \<in> hens.members t"
    "hens.members t \<noteq> UNIV \<longrightarrow> hens.members t - {0} \<subseteq> insert (pid m) (hens.members s)"
    "n_hen s \<le> n_hen t" "n_hen t \<le> n_hen s + 1"
    using hens.mark_run [OF s(1), of "pid m"] m(2) by blast
  have sh: "sheltered H U R m" if "n_hen t < int HENMAX"
  proof -
    have "hens.members s \<subseteq> H \<union> pid ` {m. sheltered H U R m}" using ok that t(7) by (simp add: hens_ok_def)
    then show ?thesis using m(1,3) by (auto intro: sheltered.intros)
  qed
  have "hens.members t \<subseteq> H \<union> pid ` {m. sheltered H U R m}" if full: "n_hen t < int HENMAX"
  proof -
    have "0 \<notin> hens.members t" using full by (simp add: hens.members_def keys_in_def)
    then have "hens.members t \<subseteq> insert (pid m) (hens.members s)" using t(6) by blast
    then show ?thesis using sh [OF full] ok full t(7) by (auto simp: hens_ok_def)
  qed
  then have ok': "hens_ok H U R t" using t(2,4) s(2) by (auto simp: hens_ok_def)
  have "tables_only s t \<and> same_screeners s t"
    using t(3)
  proof
    assume "\<exists>i. t = s\<lparr>n_hen := n_hen s + 1, hen := (hen s)[i := pid m]\<rparr>"
    then obtain i where "t = s\<lparr>n_hen := n_hen s + 1, hen := (hen s)[i := pid m]\<rparr>" by blast
    then show ?thesis unfolding tables_only_def same_screeners_def
      by (intro conjI exI [of _ "n_screener s"] exI [of _ "screener s"] exI [of _ "n_hen s + 1"] exI [of _ "(hen s)[i := pid m]"]) simp_all
  qed (simp add: same_screeners_def)
  then show thesis using t(1,4,5,7,8) ok' sh by (intro that [of t]) auto
qed

text \<open>Both of the passes, for a body that drops the children of hens and the processes with \<open>D\<close>.\<close>

definition hen_body :: "(myproc \<Rightarrow> bool) \<Rightarrow> (myproc \<Rightarrow> bool copp) \<Rightarrow> cop \<Rightarrow> bool" where
  "hen_body D body s \<longleftrightarrow> (\<forall>m u. hens.in_order u \<longrightarrow> same_screeners s u \<longrightarrow> uid m \<noteq> None \<or> \<not> am_screen m \<longrightarrow>
     body m u = (if ppid m \<in> hens.members u \<or> D m then sq (add_hen (pid m)) (ret True) u else (Ret False, u)))"

lemma hen_sift:
  assumes body: "hen_body D body s0" and D: "\<And>m. D m \<Longrightarrow> screen_daemon U m"
  shows "hens_ok H U R s \<Longrightarrow> same_screeners s0 s \<Longrightarrow> set L \<subseteq> R \<Longrightarrow> \<forall>m \<in> set L. pid m \<noteq> 0 \<and> (am_screen m \<longrightarrow> uid m \<noteq> None) \<Longrightarrow>
   \<exists>L' t. sift body L s = (Ret L', t) \<and> tables_only s t \<and> same_screeners s t \<and> hens_ok H U R t \<and> hens.members s \<subseteq> hens.members t \<and>
     (\<forall>m \<in> set L. m \<notin> set L' \<longrightarrow> pid m \<in> hens.members t) \<and> n_hen s \<le> n_hen t \<and> n_hen t \<le> n_hen s + int (length L - length L') \<and>
     (n_hen t < int HENMAX \<longrightarrow> filter (\<lambda>m. \<not> sheltered H U R m) L' = filter (\<lambda>m. \<not> sheltered H U R m) L) \<and>
     (\<forall>m \<in> set L'. ppid m \<notin> hens.members s \<and> \<not> D m) \<and> (L' = L \<longrightarrow> t = s)"
proof (induction L arbitrary: s)
  case Nil
  then show ?case by (auto simp: ret_def same_screeners_def)
next
  case (Cons m L)
  have ok: "hens.in_order s" using Cons.prems(1) by (simp add: hens_ok_def)
  have run: "body m s = (if ppid m \<in> hens.members s \<or> D m then sq (add_hen (pid m)) (ret True) s else (Ret False, s))"
    using body Cons.prems(2,4) ok unfolding hen_body_def by auto
  show ?case
  proof (cases "ppid m \<in> hens.members s \<or> D m")
    case False
    have "\<exists>L' t. sift body L s = (Ret L', t) \<and> tables_only s t \<and> same_screeners s t \<and> hens_ok H U R t \<and> hens.members s \<subseteq> hens.members t \<and>
     (\<forall>m \<in> set L. m \<notin> set L' \<longrightarrow> pid m \<in> hens.members t) \<and> n_hen s \<le> n_hen t \<and> n_hen t \<le> n_hen s + int (length L - length L') \<and>
     (n_hen t < int HENMAX \<longrightarrow> filter (\<lambda>m. \<not> sheltered H U R m) L' = filter (\<lambda>m. \<not> sheltered H U R m) L) \<and>
     (\<forall>m \<in> set L'. ppid m \<notin> hens.members s \<and> \<not> D m) \<and> (L' = L \<longrightarrow> t = s)"
      by (rule Cons.IH) (use Cons.prems in auto)
    then obtain L' t where t: "sift body L s = (Ret L', t)" "tables_only s t" "same_screeners s t" "hens_ok H U R t" "hens.members s \<subseteq> hens.members t"
     "\<forall>m \<in> set L. m \<notin> set L' \<longrightarrow> pid m \<in> hens.members t" "n_hen s \<le> n_hen t" "n_hen t \<le> n_hen s + int (length L - length L')"
     "n_hen t < int HENMAX \<longrightarrow> filter (\<lambda>m. \<not> sheltered H U R m) L' = filter (\<lambda>m. \<not> sheltered H U R m) L"
     "\<forall>m \<in> set L'. ppid m \<notin> hens.members s \<and> \<not> D m" "L' = L \<longrightarrow> t = s" by blast
    have "sift body (m # L) s = (Ret (m # L'), t)" using run False t(1) by (simp add: bnd_def ret_def)
    then show ?thesis using t False by (intro exI [of _ "m # L'"] exI [of _ t]) auto
  next
    case True
    have "m \<in> R" "pid m \<noteq> 0" "ppid m \<in> hens.members s \<or> screen_daemon U m" using Cons.prems(3,4) True D by auto
    from hen_dropped [OF Cons.prems(1) this] obtain u where u: "add_hen (pid m) s = (Ret (), u)" "hens_ok H U R u" "tables_only s u" "same_screeners s u"
      "hens.members s \<subseteq> hens.members u" "pid m \<in> hens.members u" "n_hen s \<le> n_hen u" "n_hen u \<le> n_hen s + 1"
      "n_hen u < int HENMAX \<longrightarrow> sheltered H U R m" by blast
    have "\<exists>L' t. sift body L u = (Ret L', t) \<and> tables_only u t \<and> same_screeners u t \<and> hens_ok H U R t \<and> hens.members u \<subseteq> hens.members t \<and>
     (\<forall>m \<in> set L. m \<notin> set L' \<longrightarrow> pid m \<in> hens.members t) \<and> n_hen u \<le> n_hen t \<and> n_hen t \<le> n_hen u + int (length L - length L') \<and>
     (n_hen t < int HENMAX \<longrightarrow> filter (\<lambda>m. \<not> sheltered H U R m) L' = filter (\<lambda>m. \<not> sheltered H U R m) L) \<and>
     (\<forall>m \<in> set L'. ppid m \<notin> hens.members u \<and> \<not> D m) \<and> (L' = L \<longrightarrow> t = u)"
      by (rule Cons.IH) (use Cons.prems u(2,4) in \<open>auto simp: same_screeners_def\<close>)
    then obtain L' t where t: "sift body L u = (Ret L', t)" "tables_only u t" "same_screeners u t" "hens_ok H U R t" "hens.members u \<subseteq> hens.members t"
     "\<forall>m \<in> set L. m \<notin> set L' \<longrightarrow> pid m \<in> hens.members t" "n_hen u \<le> n_hen t" "n_hen t \<le> n_hen u + int (length L - length L')"
     "n_hen t < int HENMAX \<longrightarrow> filter (\<lambda>m. \<not> sheltered H U R m) L' = filter (\<lambda>m. \<not> sheltered H U R m) L"
     "\<forall>m \<in> set L'. ppid m \<notin> hens.members u \<and> \<not> D m" by blast
    have "sift body (m # L) s = (Ret L', t)" using run True u(1) t(1) by (simp add: bnd_def sq_def ret_def)
    moreover have "tables_only s t" using u(3) t(2) by (rule tables_only_trans)
    moreover have "same_screeners s t" using u(4) t(3) by (simp add: same_screeners_def)
    moreover have "n_hen t \<le> n_hen s + int (length (m # L) - length L')"
      using t(8) u(8) sift_length [OF t(1)] by (simp add: Suc_diff_le)
    moreover have "n_hen t < int HENMAX \<longrightarrow> filter (\<lambda>m. \<not> sheltered H U R m) L' = filter (\<lambda>m. \<not> sheltered H U R m) (m # L)"
      using t(7,9) u(9) by auto
    moreover have "\<forall>x \<in> set (m # L). x \<notin> set L' \<longrightarrow> pid x \<in> hens.members t" using t(5,6) u(6) by auto
    moreover have "\<forall>x \<in> set L'. ppid x \<notin> hens.members s \<and> \<not> D x" using t(10) u(5) by auto
    moreover have "n_hen s \<le> n_hen t" "hens.members s \<subseteq> hens.members t" using t(5,7) u(5,7) by auto
    moreover have "L' \<noteq> m # L" using sift_length [OF t(1)] by auto
    ultimately show ?thesis using t(4) by blast
  qed
qed

lemma child_hen_body: "hen_body (\<lambda>_. False) child_body s"
  unfolding hen_body_def child_body_def using hens.member_run by (auto simp: bnd_def sq_def ret_def)

lemma screen_hen_body:
  assumes "scr.in_order s"
  shows "hen_body (screen_daemon (scr.members s)) screen_body s"
  unfolding hen_body_def
proof (intro allI impI)
  fix m :: myproc and u
  assume u: "hens.in_order u" "same_screeners s u" and m: "uid m \<noteq> None \<or> \<not> am_screen m"
  have scr: "scr.in_order u" "scr.members u = scr.members s" using same_screeners_scr [OF u(2)] assms by auto
  show "screen_body m u = (if ppid m \<in> hens.members u \<or> screen_daemon (scr.members s) m then sq (add_hen (pid m)) (ret True) u else (Ret False, u))"
  proof (cases "ppid m \<in> hens.members u \<or> \<not> am_screen m \<or> has_ctty m")
    case True
    then show ?thesis using hens.member_run [OF u(1)] by (auto simp: screen_body_def screen_daemon_def bnd_def sq_def ret_def)
  next
    case False
    then obtain x where "uid m = Some x" using m by auto
    then show ?thesis
      using False hens.member_run [OF u(1)] scr.member_run [OF scr(1)] scr(2)
      by (auto simp: screen_body_def screen_daemon_def node_uid_def bnd_def sq_def ret_def)
  qed
qed

section \<open>The passes in the store\<close>

definition outside :: "cop \<Rightarrow> cop" where
  "outside s = s\<lparr>nodes := (\<lambda>_. None), proclist := None, n_screener := 0, screener := [], n_hen := 0, hen := []\<rparr>"

lemma outside_upd [simp]:
  "outside (s\<lparr>n_screener := a\<rparr>) = outside s" "outside (s\<lparr>screener := b\<rparr>) = outside s"
  "outside (s\<lparr>n_hen := a\<rparr>) = outside s" "outside (s\<lparr>hen := b\<rparr>) = outside s"
  by (simp_all add: outside_def)

lemma outside_tables: "tables_only s t \<Longrightarrow> outside t = outside s"
  unfolding tables_only_def by (elim exE) simp

lemma outside_list [simp]: "outside (with_list N p (malloced s) s) = outside s"
  by (simp add: outside_def with_list_def)

lemma outside_fields:
  assumes "outside t = outside s"
  shows "malloced t = malloced s" "deeds t = deeds s" "active t = active s" "n_active t = n_active s" "out_of_memory t = out_of_memory s"
    "logging t = logging s" "logtext t = logtext s" "user t = user s" "n_user t = n_user s" "snaps t = snaps s" "curr_time t = curr_time s"
  using arg_cong [OF assms, of malloced] arg_cong [OF assms, of deeds] arg_cong [OF assms, of active] arg_cong [OF assms, of n_active]
    arg_cong [OF assms, of out_of_memory] arg_cong [OF assms, of logging] arg_cong [OF assms, of logtext] arg_cong [OF assms, of user]
    arg_cong [OF assms, of n_user] arg_cong [OF assms, of snaps] arg_cong [OF assms, of curr_time]
  by (simp_all add: outside_def)

lemma tables_with_list [simp]:
  "hens.in_order (with_list N p k s) = hens.in_order s" "hens.members (with_list N p k s) = hens.members s"
  "scr.in_order (with_list N p k s) = scr.in_order s" "scr.members (with_list N p k s) = scr.members s"
  "act.in_order (with_list N p k s) = act.in_order s" "act.members (with_list N p k s) = act.members s"
  "n_hen (with_list N p k s) = n_hen s" "n_screener (with_list N p k s) = n_screener s" "hen (with_list N p k s) = hen s"
  "hens_ok H U R (with_list N p k s) = hens_ok H U R s" "same_screeners s0 (with_list N p k s) = same_screeners s0 s"
  by (simp_all add: with_list_def hens.in_order_def hens.members_def scr.in_order_def scr.members_def act.in_order_def act.members_def
      hens_ok_def same_screeners_def)

lemma bare_fields [simp]:
  "pid (bare m) = pid m" "ppid (bare m) = ppid m" "has_ctty (bare m) = has_ctty m" "ctty (bare m) = ctty m" "args (bare m) = args m"
  "am_sh (bare m) = am_sh m" "am_screen (bare m) = am_screen m" "entry (bare m) = entry m" "uid (bare m) = uid m"
  "node_uid (bare m) = node_uid m"
  by (simp_all add: bare_def node_uid_def)

lemma bare_bodies: "active_body (bare m) = active_body m" "screen_body (bare m) = screen_body m" "child_body (bare m) = child_body m"
  by (simp_all only: active_body_def screen_body_def child_body_def bare_fields)

lemma listed_length: "listed_at s as L \<Longrightarrow> length L \<le> malloced s"
  using card_mono [of "{..<malloced s}" "set as"] by (auto simp: listed_at_def distinct_card)

lemma listed_proclist: "listed_at s as L \<Longrightarrow> proclist s \<noteq> None \<longleftrightarrow> L \<noteq> []"
  by (cases as) (auto simp: listed_at_def)

lemma subseq_shrinks: "subseq xs ys \<Longrightarrow> set xs \<subseteq> set ys \<and> length xs \<le> length ys"
  by (induction rule: list_emb.induct) auto

lemma hen_pass:
  assumes "\<And>m. blind (body m)" and "\<And>m. body (bare m) = body m" and "hen_body D body s" and "\<And>m. D m \<Longrightarrow> screen_daemon U m"
    and l: "listed_at s as L" and "hens_ok H U R s" and "set L \<subseteq> R" and "\<forall>m \<in> set L. pid m \<noteq> 0 \<and> (am_screen m \<longrightarrow> uid m \<noteq> None)"
  obtains bs L' t where "proc_pass body s = (Ret (length L' < length L), t)" "listed_at t bs L'" "outside t = outside s" "same_screeners s t"
    "hens_ok H U R t" "hens.members s \<subseteq> hens.members t" "\<forall>m \<in> set L. m \<notin> set L' \<longrightarrow> pid m \<in> hens.members t"
    "n_hen s \<le> n_hen t" "n_hen t \<le> n_hen s + int (length L - length L')"
    "n_hen t < int HENMAX \<longrightarrow> filter (\<lambda>m. \<not> sheltered H U R m) L' = filter (\<lambda>m. \<not> sheltered H U R m) L"
    "\<forall>m \<in> set L'. ppid m \<notin> hens.members s \<and> \<not> D m" "L' = L \<longrightarrow> hens.members t = hens.members s" "subseq L' L"
proof -
  have "same_screeners s s" by (simp add: same_screeners_def)
  from hen_sift [OF assms(3,4,6) this assms(7,8)] obtain L' t where
    t: "sift body L s = (Ret L', t)" "tables_only s t" "same_screeners s t" "hens_ok H U R t" "hens.members s \<subseteq> hens.members t"
     "\<forall>m \<in> set L. m \<notin> set L' \<longrightarrow> pid m \<in> hens.members t" "n_hen s \<le> n_hen t" "n_hen t \<le> n_hen s + int (length L - length L')"
     "n_hen t < int HENMAX \<longrightarrow> filter (\<lambda>m. \<not> sheltered H U R m) L' = filter (\<lambda>m. \<not> sheltered H U R m) L"
     "\<forall>m \<in> set L'. ppid m \<notin> hens.members s \<and> \<not> D m" "L' = L \<longrightarrow> t = s" by blast
  obtain N q bs where p: "proc_pass body s = (Ret (length L' < length L), with_list N q (malloced s) t)"
    "listed_at (with_list N q (malloced s) t) bs L'"
    using proc_pass_run [of body, OF assms(1,2) l t(1)] by blast
  have o: "outside t = outside s" using t(2) by (rule outside_tables)
  have "malloced s = malloced t" using outside_fields(1) [OF o] by simp
  then have "outside (with_list N q (malloced s) t) = outside s" using o by simp
  then show thesis using that [OF p] t(3-11) sift_subseq [OF t(1)] by auto
qed

text \<open>The last pass finds nothing, so no process left has a hen for its parent.\<close>

lemma child_passes:
  "listed_at s as L \<Longrightarrow> hens_ok H U R s \<Longrightarrow> set L \<subseteq> R \<Longrightarrow> \<forall>m \<in> set L. pid m \<noteq> 0 \<and> (am_screen m \<longrightarrow> uid m \<noteq> None) \<Longrightarrow> length L < n \<Longrightarrow>
   \<exists>bs L' t. iter n (proc_pass child_body) s = (Ret (), t) \<and> listed_at t bs L' \<and> outside t = outside s \<and> hens_ok H U R t \<and>
     hens.members s \<subseteq> hens.members t \<and> (\<forall>m \<in> set L. m \<notin> set L' \<longrightarrow> pid m \<in> hens.members t) \<and>
     n_hen s \<le> n_hen t \<and> n_hen t \<le> n_hen s + int (length L - length L') \<and>
     (n_hen t < int HENMAX \<longrightarrow> filter (\<lambda>m. \<not> sheltered H U R m) L' = filter (\<lambda>m. \<not> sheltered H U R m) L) \<and>
     (\<forall>m \<in> set L'. ppid m \<notin> hens.members t) \<and> set L' \<subseteq> set L \<and> length L' \<le> length L"
proof (induction n arbitrary: s as L)
  case (Suc n)
  obtain bs L1 u where u: "proc_pass child_body s = (Ret (length L1 < length L), u)" "listed_at u bs L1" "outside u = outside s"
    "hens_ok H U R u" "hens.members s \<subseteq> hens.members u" "\<forall>m \<in> set L. m \<notin> set L1 \<longrightarrow> pid m \<in> hens.members u"
    "n_hen s \<le> n_hen u" "n_hen u \<le> n_hen s + int (length L - length L1)"
    "n_hen u < int HENMAX \<longrightarrow> filter (\<lambda>m. \<not> sheltered H U R m) L1 = filter (\<lambda>m. \<not> sheltered H U R m) L"
    "\<forall>m \<in> set L1. ppid m \<notin> hens.members s" "L1 = L \<longrightarrow> hens.members u = hens.members s" "subseq L1 L"
    by (rule hen_pass [of child_body, OF blind_bodies(3) bare_bodies(3) child_hen_body _ Suc.prems(1-4)]; simp)
  have sub: "set L1 \<subseteq> set L" "length L1 \<le> length L" using subseq_shrinks [OF u(12)] by simp_all
  show ?case
  proof (cases "length L1 < length L")
    case False
    then have "L1 = L" using u(12) sub(2) by (simp add: subseq_same_length)
    then have "iter (Suc n) (proc_pass child_body) s = (Ret (), u)" using u(1) by (simp add: bnd_def ret_def)
    then show ?thesis using u(2-11) \<open>L1 = L\<close> by (intro exI [of _ bs] exI [of _ L1] exI [of _ u]) simp
  next
    case True
    have "length L1 < n" "set L1 \<subseteq> R" "\<forall>m \<in> set L1. pid m \<noteq> 0 \<and> (am_screen m \<longrightarrow> uid m \<noteq> None)" using True Suc.prems(3-5) sub by auto
    from Suc.IH [OF u(2,4) this(2,3,1)] obtain cs L' t where t: "iter n (proc_pass child_body) u = (Ret (), t)" "listed_at t cs L'" "outside t = outside u"
      "hens_ok H U R t" "hens.members u \<subseteq> hens.members t" "\<forall>m \<in> set L1. m \<notin> set L' \<longrightarrow> pid m \<in> hens.members t"
      "n_hen u \<le> n_hen t" "n_hen t \<le> n_hen u + int (length L1 - length L')"
      "n_hen t < int HENMAX \<longrightarrow> filter (\<lambda>m. \<not> sheltered H U R m) L' = filter (\<lambda>m. \<not> sheltered H U R m) L1"
      "\<forall>m \<in> set L'. ppid m \<notin> hens.members t" "set L' \<subseteq> set L1" "length L' \<le> length L1" by blast
    have "iter (Suc n) (proc_pass child_body) s = (Ret (), t)" using u(1) True t(1) by (simp add: bnd_def)
    moreover have "\<forall>m \<in> set L. m \<notin> set L' \<longrightarrow> pid m \<in> hens.members t" using u(6) t(5,6) by blast
    moreover have "n_hen t \<le> n_hen s + int (length L - length L')" using u(8) t(8,12) True by auto
    moreover have "n_hen t < int HENMAX \<longrightarrow> filter (\<lambda>m. \<not> sheltered H U R m) L' = filter (\<lambda>m. \<not> sheltered H U R m) L" using u(9) t(7,9) by auto
    moreover have "hens.members s \<subseteq> hens.members t" "n_hen s \<le> n_hen t" "outside t = outside s" "set L' \<subseteq> set L" "length L' \<le> length L"
      using u(3,5,7) t(3,5,7,11,12) sub True by auto
    ultimately show ?thesis using t(2,4,10) by (intro exI [of _ cs] exI [of _ L'] exI [of _ t]) simp
  qed
qed simp

end
