(* ===== verification/CopEnd.thy ===== *)
theory CopEnd
  imports CopFind
begin

text \<open>
  The orphans found and ended: \<open>find_orph\<close> and \<open>kill_orph\<close> of \<open>soft/apps/robocop/scanproc.c\<close> on the list in the store,
  against the definition of an orphan.
\<close>

section \<open>Finding them\<close>

text \<open>What the last pass leaves has no sheltered process on it, unless the table of hens is full.\<close>

lemma none_sheltered:
  assumes fin: "\<forall>m \<in> set L'. ppid m \<notin> hens.members t \<and> \<not> screen_daemon U m" and gone: "\<forall>m \<in> R. m \<notin> set L' \<longrightarrow> pid m \<in> hens.members t"
    and H: "H \<subseteq> hens.members t" and m: "sheltered H U R m"
  shows "m \<notin> set L'"
  using m
proof (induction rule: sheltered.induct)
  case (child c m)
  then have "pid c \<in> hens.members t" using gone sheltered_in by blast
  then show ?case using fin child.hyps by auto
qed (use fin H in auto)

lemma screener_reset:
  assumes "init_screener s = (Ret (), t)"
  shows "scr.in_order t \<and> scr.members t = {} \<and> n_screener t = 0 \<and> tables_only s t \<and> hen t = hen s \<and> n_hen t = n_hen s"
proof -
  have t: "t = s\<lparr>n_screener := 0, screener := replicate SCREENERSIZE 0\<rparr>" using assms by (simp add: init_screener_def upd_def)
  have "tables_only s t" unfolding tables_only_def t
    by (intro exI [of _ "0"] exI [of _ "replicate SCREENERSIZE 0"] exI [of _ "n_hen s"] exI [of _ "hen s"]) simp
  then show ?thesis
    using t scr.table_empty [of "0::int"] by (simp add: scr.in_order_def scr.members_def)
qed

definition well_listed :: "cop \<Rightarrow> nat list \<Rightarrow> myproc list \<Rightarrow> bool" where
  "well_listed s as L \<longleftrightarrow> listed_at s as L \<and> act.in_order s \<and> hens.in_order s \<and>
     (\<forall>m \<in> set L. pid m \<noteq> 0 \<and> (am_screen m \<longrightarrow> uid m \<noteq> None))"

lemma candidates_sub: "set (candidates A L) \<subseteq> set L"
  by (auto simp: candidates_def)

lemma first_pass:
  assumes "well_listed s as L" and few: "active_screens (act.members s) L < MAXSCREENERS"
  obtains bs t where "sq init_screener (proc_pass active_body) s = (Ret (length (candidates (act.members s) L) < length L), t)"
    and "listed_at t bs (candidates (act.members s) L)" and "outside t = outside s" and "hen t = hen s" and "n_hen t = n_hen s"
    and "scr.in_order t" and "scr.members t = screen_uids (act.members s) L"
proof -
  have l: "listed_at s as L" and act: "act.in_order s" and L: "\<forall>m \<in> set L. am_screen m \<longrightarrow> uid m \<noteq> None"
    using assms(1) by (simp_all add: well_listed_def)
  obtain u where u: "init_screener s = (Ret (), u)" by (simp add: init_screener_def upd_def)
  note r = screener_reset [OF u]
  have same: "act.in_order u" "act.members u = act.members s" using r act_same [of s u] act by auto
  have o: "outside u = outside s" using r outside_tables by auto
  have lu: "listed_at u as L" using l u by (auto simp: listed_at_def init_screener_def upd_def)
  obtain t where t: "sift active_body L u = (Ret (candidates (act.members u) L), t)" "tables_only u t" "hen t = hen u" "n_hen t = n_hen u"
     "scr.in_order t" "n_screener t \<le> n_screener u + int (active_screens (act.members u) L)"
     "n_screener t < int MAXSCREENERS \<longrightarrow> scr.members t = scr.members u \<union> screen_uids (act.members u) L"
    using active_sift [OF same(1) _ L] r by auto
  obtain N q bs where p: "proc_pass active_body u = (Ret (length (candidates (act.members u) L) < length L), with_list N q (malloced u) t)"
    "listed_at (with_list N q (malloced u) t) bs (candidates (act.members u) L)"
    using proc_pass_run [of active_body, OF blind_bodies(1) bare_bodies(1) lu t(1)] by blast
  have o': "outside t = outside u" using t(2) by (rule outside_tables)
  have "malloced u = malloced t" using outside_fields(1) [OF o'] by simp
  then have "outside (with_list N q (malloced u) t) = outside s" using o o' by simp
  moreover have "scr.members t = screen_uids (act.members s) L" using t(6,7) r few same(2) by simp
  ultimately show thesis
    using p u t(3-5) r same(2) by (intro that [of "with_list N q (malloced u) t" bs]) (simp_all add: sq_def bnd_def)
qed

lemma find_orph_run:
  assumes w: "well_listed s as L" and few: "active_screens (act.members s) L < MAXSCREENERS"
  obtains bs L' t where "find_orph s = (Ret (L' \<noteq> []), t)" and "listed_at t bs L'" and "outside t = outside s"
    and "n_hen t \<le> n_hen s + int (length L)" and "hens.in_order t"
    and "L' = orphans (act.members s) (hens.members s) L \<or> L' = [] \<and> n_hen t = int HENMAX"
proof -
  define A H where "A = act.members s" and "H = hens.members s"
  define C U where "C = candidates A L" and "U = screen_uids A L"
  obtain as1 s1 where s1: "sq init_screener (proc_pass active_body) s = (Ret (length C < length L), s1)"
    "listed_at s1 as1 C" "outside s1 = outside s" "hen s1 = hen s" "n_hen s1 = n_hen s" "scr.in_order s1" "scr.members s1 = U"
    unfolding A_def C_def U_def by (rule first_pass [OF w few])
  have "hens.in_order s1" "hens.members s1 = H" using w s1(4,5) by (simp_all add: well_listed_def hens.in_order_def hens.members_def H_def)
  then have ok: "hens_ok H U (set C) s1" by (auto simp: hens_ok_def)
  have C: "\<forall>m \<in> set C. pid m \<noteq> 0 \<and> (am_screen m \<longrightarrow> uid m \<noteq> None)" using w candidates_sub [of A L] by (auto simp: well_listed_def C_def)
  have sd: "hen_body (screen_daemon U) screen_body s1" using screen_hen_body [OF s1(6)] s1(7) by simp
  obtain as2 L2 s2 where s2: "proc_pass screen_body s1 = (Ret (length L2 < length C), s2)" "listed_at s2 as2 L2" "outside s2 = outside s1"
    "hens_ok H U (set C) s2" "hens.members s1 \<subseteq> hens.members s2" "\<forall>m \<in> set C. m \<notin> set L2 \<longrightarrow> pid m \<in> hens.members s2"
    "n_hen s1 \<le> n_hen s2" "n_hen s2 \<le> n_hen s1 + int (length C - length L2)"
    "n_hen s2 < int HENMAX \<longrightarrow> filter (\<lambda>m. \<not> sheltered H U (set C) m) L2 = filter (\<lambda>m. \<not> sheltered H U (set C) m) C"
    "\<forall>m \<in> set L2. ppid m \<notin> hens.members s1 \<and> \<not> screen_daemon U m" "subseq L2 C"
    by (rule hen_pass [of screen_body, OF blind_bodies(2) bare_bodies(2) sd _ s1(2) ok order.refl C]; simp)
  note sub2 = subseq_shrinks [OF s2(11)]
  have C2: "set L2 \<subseteq> set C" "\<forall>m \<in> set L2. pid m \<noteq> 0 \<and> (am_screen m \<longrightarrow> uid m \<noteq> None)" "length L2 < Suc (malloced s2)"
    using sub2 C listed_length [OF s2(2)] by auto
  from child_passes [OF s2(2,4) C2] obtain as3 L3 s3 where
    s3: "iter (Suc (malloced s2)) (proc_pass child_body) s2 = (Ret (), s3)" "listed_at s3 as3 L3" "outside s3 = outside s2"
      "hens_ok H U (set C) s3" "hens.members s2 \<subseteq> hens.members s3" "\<forall>m \<in> set L2. m \<notin> set L3 \<longrightarrow> pid m \<in> hens.members s3"
      "n_hen s2 \<le> n_hen s3" "n_hen s3 \<le> n_hen s2 + int (length L2 - length L3)"
      "n_hen s3 < int HENMAX \<longrightarrow> filter (\<lambda>m. \<not> sheltered H U (set C) m) L3 = filter (\<lambda>m. \<not> sheltered H U (set C) m) L2"
      "\<forall>m \<in> set L3. ppid m \<notin> hens.members s3" "set L3 \<subseteq> set L2" "length L3 \<le> length L2" by blast
  have run: "find_orph s = (Ret (L3 \<noteq> []), s3)"
    unfolding find_orph_def
    by (subst sq_assoc [symmetric], rule sq_then, rule s1(1), rule sq_then, rule s2(1))
      (use s3(1) listed_proclist [OF s3(2)] in \<open>simp add: sq_def bnd_def gets_def del: iter.simps\<close>)
  have order: "hens.in_order s3" using s3(4) by (simp add: hens_ok_def)
  have "n_hen s3 = int HENMAX \<or> n_hen s3 < int HENMAX" using order by (auto simp: hens.in_order_def)
  then have "L3 = orphans A H L \<or> L3 = [] \<and> n_hen s3 = int HENMAX"
  proof
    assume full: "n_hen s3 = int HENMAX"
    then have "hens.members s3 = UNIV" by (simp add: hens.members_def)
    then show ?thesis using s3(10) full by (cases L3) auto
  next
    assume n: "n_hen s3 < int HENMAX"
    have "m \<notin> set L3" if "sheltered H U (set C) m" for m
      by (rule none_sheltered [OF _ _ _ that, of L3 s3]) (use s2(5,6,10) s3(5,6,10,11) ok in \<open>auto simp: hens_ok_def\<close>)
    then have "filter (\<lambda>m. \<not> sheltered H U (set C) m) L3 = L3" by (auto intro!: filter_True)
    then have "L3 = orphans A H L" using s2(9) s3(7,9) n by (simp add: orphans_def C_def U_def)
    then show ?thesis by simp
  qed
  moreover have "n_hen s3 \<le> n_hen s + int (length L)"
  proof -
    have "length C \<le> length L" by (simp add: C_def candidates_def)
    then show ?thesis using s1(5) s2(8) s3(8) sub2 s3(12) by linarith
  qed
  ultimately show thesis using that [OF run s3(2)] s1(3) s2(3) s3(3) order by (simp add: A_def H_def)
qed

section \<open>Ending them\<close>

text \<open>A process counts when it is not one of the first two.\<close>

definition signals :: "int \<Rightarrow> myproc list \<Rightarrow> deed list" where
  "signals sig L = map (\<lambda>m. Signal (pid m) sig) (filter (\<lambda>m. 2 \<le> pid m) L)"

lemma signals_Cons: "signals sig (m # L) = (if 2 \<le> pid m then [Signal (pid m) sig] else []) @ signals sig L"
  by (simp add: signals_def)













lemma orph_line_bare [simp]: "orph_line e (bare m) = orph_line e m"
  by (simp only: orph_line_def bare_fields)




text \<open>When the table of hens is full every process counts as a hen, so none is an orphan.\<close>

lemma full_hens_spare_all:
  assumes "well_listed s as L" and "active_screens (act.members s) L < MAXSCREENERS" and "n_hen s = int HENMAX"
  shows "\<exists>t. find_orph s = (Ret False, t)"
proof -
  obtain bs L' t where t: "find_orph s = (Ret (L' \<noteq> []), t)"
    "L' = orphans (act.members s) (hens.members s) L \<or> L' = [] \<and> n_hen t = int HENMAX"
    using find_orph_run [OF assms(1,2)] by blast
  have "hens.members s = UNIV" using assms(3) by (simp add: hens.members_def)
  then have "orphans (act.members s) (hens.members s) L = []"
    by (auto simp: orphans_def filter_empty_conv intro: hen_child)
  then show ?thesis using t by auto
qed









end
