(* ===== verification/CopSafe.thy ===== *)
theory CopSafe
  imports CopOrphans
begin

text \<open>
  Whom the daemon of \<open>soft/apps/robocop\<close> can hit: an invariant of all its operations, whatever way they end.
\<close>

section \<open>What holds throughout\<close>

text \<open>\<open>P\<close> holds of the state after the program however it ends, and \<open>Q\<close> of its result when it returns.\<close>

definition ensures :: "('s \<Rightarrow> bool) \<Rightarrow> ('a, 's) prog \<Rightarrow> ('a \<Rightarrow> bool) \<Rightarrow> bool" where
  "ensures P m Q \<longleftrightarrow> (\<forall>s r t. P s \<longrightarrow> m s = (r, t) \<longrightarrow> P t \<and> (\<forall>a. r = Ret a \<longrightarrow> Q a))"

lemma ensuresD: "ensures P m Q \<Longrightarrow> P s \<Longrightarrow> m s = (r, t) \<Longrightarrow> P t"
  by (simp add: ensures_def)

lemma ensures_basic:
  "ensures P (ret a) (\<lambda>_. True)" "ensures P (exit_prog c) Q" "ensures P undef Q" "ensures P hang Q" "ensures P (gets f) (\<lambda>_. True)"
  by (simp_all add: ensures_def ret_def exit_prog_def undef_def hang_def gets_def)

lemma ensures_ret: "Q a \<Longrightarrow> ensures P (ret a) Q"
  by (simp add: ensures_def ret_def)

lemma ensures_gets: "(\<And>s. P s \<Longrightarrow> Q (f s)) \<Longrightarrow> ensures P (gets f) Q"
  by (simp add: ensures_def gets_def)

lemma ensures_upd: "(\<And>s. P s \<Longrightarrow> P (f s)) \<Longrightarrow> ensures P (upd f) (\<lambda>_. True)"
  by (simp add: ensures_def upd_def)

lemma ensures_with:
  assumes m: "ensures P m Q" and k: "\<And>a. Q a \<Longrightarrow> ensures P (k a) R"
  shows "ensures P (bnd m k) R"
  unfolding ensures_def
proof (intro allI impI)
  fix s r t
  assume s: "P s" and run: "bnd m k s = (r, t)"
  from run show "P t \<and> (\<forall>a. r = Ret a \<longrightarrow> R a)"
  proof (cases rule: bnd_cases)
    case (step a u)
    then have "P u" "Q a" using m s unfolding ensures_def by blast+
    then show ?thesis using k step(2) unfolding ensures_def by blast
  next
    case (stop e)
    then show ?thesis using m s unfolding ensures_def by blast
  qed
qed

lemma ensures_bnd: "ensures P m (\<lambda>_. True) \<Longrightarrow> (\<And>a. ensures P (k a) R) \<Longrightarrow> ensures P (bnd m k) R"
  by (rule ensures_with)

lemma ensures_any: "ensures P m Q \<Longrightarrow> ensures P m (\<lambda>_. True)"
  by (simp add: ensures_def)

lemma ensures_sq: "ensures P m (\<lambda>_. True) \<Longrightarrow> ensures P n R \<Longrightarrow> ensures P (sq m n) R"
  by (simp add: sq_def ensures_bnd)

lemma ensures_cases:
  "(b \<Longrightarrow> ensures P m Q) \<Longrightarrow> (\<not> b \<Longrightarrow> ensures P n Q) \<Longrightarrow> ensures P (if b then m else n) Q"
  "(b \<Longrightarrow> ensures P j (\<lambda>_. True)) \<Longrightarrow> ensures P (whenP b j) (\<lambda>_. True)"
  "(r = None \<Longrightarrow> ensures P m Q) \<Longrightarrow> (\<And>x. r = Some x \<Longrightarrow> ensures P (l x) Q) \<Longrightarrow> ensures P (case r of None \<Rightarrow> m | Some x \<Rightarrow> l x) Q"
  by (simp, simp add: whenP_def ensures_basic, cases r, auto)

lemma ensures_iter: "ensures P m (\<lambda>_. True) \<Longrightarrow> ensures P (iter n m) (\<lambda>_. True)"
proof (induction n)
  case (Suc n)
  then have "ensures P (bnd m (\<lambda>again. if again then iter n m else ret ())) (\<lambda>_. True)"
    by (intro ensures_bnd ensures_cases ensures_basic)
  then show ?case by (simp add: ensures_def)
qed (simp add: ensures_def)

lemmas ensures_rules = ensures_basic ensures_bnd ensures_sq ensures_cases ensures_upd

section \<open>The invariant\<close>

text \<open>
  A process the kernel reported, whose real uid is not protected, or that is a finger daemon which has run for
  too long, or an FTP daemon that acts for an unprotected user.
\<close>

definition fair_target :: "cop_env \<Rightarrow> kproc \<Rightarrow> bool" where
  "fair_target e pr \<longleftrightarrow> (\<exists>n ps. kernel e n = Some ps \<and> pr \<in> set ps) \<and>
     (p_ruid pr \<notin> set protect_uids \<or>
      p_comm pr = ''fingerd'' \<and> (\<exists>k. FINGERD_TOO_OLD \<le> time_at e k - p_ustart_sec pr) \<or>
      p_comm pr = ''ftpd'' \<and> p_uid pr \<notin> set protect_uids)"

definition cop_inv :: "cop_env \<Rightarrow> cop \<Rightarrow> bool" where
  "cop_inv e s \<longleftrightarrow> (\<forall>p sig. Signal p sig \<in> set (deeds s) \<longrightarrow> 2 \<le> p \<and> sig \<in> {SOFTKILL, HARDKILL} \<and> (\<exists>pr. fair_target e pr \<and> p = p_pid pr)) \<and>
     (\<forall>a m. nodes s a = Some m \<longrightarrow> (\<exists>pr. fair_target e pr \<and> pid m = p_pid pr)) \<and> (\<exists>k. curr_time s = time_at e k)"

abbreviation keeps_inv :: "cop_env \<Rightarrow> 'a copp \<Rightarrow> bool" where
  "keeps_inv e m \<equiv> ensures (cop_inv e) m (\<lambda>_. True)"

lemma inv_upd: "(\<And>s. deeds (f s) = deeds s \<and> nodes (f s) = nodes s \<and> curr_time (f s) = curr_time s) \<Longrightarrow> keeps_inv e (upd f)"
  by (rule ensures_upd) (simp add: cop_inv_def)

lemma inv_log: "keeps_inv e (log_line x)"
  unfolding log_line_def by (rule inv_upd) simp

lemma inv_kill:
  assumes "2 \<le> p" and "sig \<in> {SOFTKILL, HARDKILL}" and "fair_target e pr" and "p = p_pid pr"
  shows "keeps_inv e (kill_proc e p sig)"
  unfolding kill_proc_def
proof (intro ensures_bnd ensures_sq ensures_basic ensures_upd)
  fix s assume "cop_inv e s"
  then show "cop_inv e (s\<lparr>deeds := deeds s @ [Signal p sig]\<rparr>)" using assms by (auto simp: cop_inv_def)
qed

lemma inv_snooze: "keeps_inv e (snooze n)"
  unfolding snooze_def by (rule ensures_upd) (simp add: cop_inv_def)

lemma inv_getprocs: "ensures (cop_inv e) (getprocs e) (\<lambda>r. \<forall>ps. r = Some ps \<longrightarrow> (\<forall>pr \<in> set ps. \<exists>n qs. kernel e n = Some qs \<and> pr \<in> set qs))"
  unfolding getprocs_def by (intro ensures_bnd ensures_sq ensures_basic ensures_ret inv_upd) auto

section \<open>Users\<close>

lemma inv_logprocs: "keeps_inv e (logprocs e ps)"
  by (induction ps) (auto simp: logproc_def intro!: ensures_rules inv_log)

lemma inv_loguser: "keeps_inv e (loguser e u)"
  unfolding loguser_def by (intro ensures_rules inv_logprocs ensures_any [OF inv_getprocs])

lemma inv_kill_pass:
  "\<forall>pr \<in> set ps. fair_target e pr \<Longrightarrow> keeps_inv e (kill_pass e pass ps)"
proof (induction ps)
  case (Cons p ps)
  have "keeps_inv e (logproc e p)" unfolding logproc_def by (rule inv_log)
  then show ?case using Cons inv_kill [of "p_pid p" HARDKILL e p]
    by (auto intro!: ensures_rules inv_log)
qed (simp add: ensures_basic)

lemma protected_low: "u \<in> set protect_uids \<Longrightarrow> u < MIN_KILL_UID"
  by (auto simp: protect_uids_def)

lemma inv_kill_passes: "MIN_KILL_UID \<le> u \<Longrightarrow> keeps_inv e (kill_passes e u k pass clean)"
proof (induction k arbitrary: pass clean)
  case (Suc k)
  have "keeps_inv e (kill_pass e pass (filter (\<lambda>p. p_ruid p = u) ps))"
    if "\<forall>pr \<in> set ps. \<exists>n qs. kernel e n = Some qs \<and> pr \<in> set qs" for ps
    by (rule inv_kill_pass) (use that Suc.prems protected_low [of u] in \<open>auto simp: fair_target_def\<close>)
  then show ?case unfolding kill_passes.simps
    by (intro ensures_with [OF inv_getprocs]) (auto intro!: ensures_rules inv_log inv_snooze Suc.IH Suc.prems)
qed (simp add: ensures_basic)

lemma inv_check_mem: "keeps_inv e (check_mem e)"
proof -
  have "keeps_inv e (killuser e u)" for u
    unfolding killuser_def by (intro ensures_rules inv_log inv_kill_passes) simp
  then have "keeps_inv e (check_user e h)" for h
    unfolding check_user_def Let_def by (intro ensures_rules inv_log inv_loguser)
  then have "keeps_inv e (check_users e hs)" for hs
    by (induction hs) (auto intro!: ensures_rules)
  then show ?thesis unfolding check_mem_def by (intro ensures_rules)
qed

lemma inv_add_usermem: "keeps_inv e (add_usermem u mem)"
  unfolding add_usermem_def by (intro ensures_rules inv_upd) simp_all

section \<open>The process table\<close>

lemma inv_check_sysproc: "keeps_inv e (check_sysproc e i f)"
  unfolding check_sysproc_def by (intro ensures_rules inv_upd inv_log) simp_all

lemma inv_is_sysproc: "ensures (cop_inv e) (is_sysproc e i pr) (\<lambda>b. b \<and> fst (snd (sysprocs ! i)) = 0 \<longrightarrow> p_comm pr = fst (sysprocs ! i))"
proof -
  have "keeps_inv e (is_sysproc e i pr)"
    unfolding is_sysproc_def by (cases "sysprocs ! i") (auto intro!: ensures_rules inv_upd inv_check_sysproc)
  moreover have "is_sysproc e i pr = ret False" if "fst (snd (sysprocs ! i)) = 0" "p_comm pr \<noteq> fst (sysprocs ! i)"
    using that by (cases "sysprocs ! i") (auto simp: is_sysproc_def)
  ultimately show ?thesis
    by (cases "fst (snd (sysprocs ! i)) = 0 \<and> p_comm pr \<noteq> fst (sysprocs ! i)") (auto simp: ensures_def ret_def)
qed

lemma inv_first_sysproc: "keeps_inv e (first_sysproc e pr is)"
  by (induction "is") (auto intro!: ensures_rules ensures_any [OF inv_is_sysproc])

lemma inv_tables: "keeps_inv e (add_hen p)" "keeps_inv e (is_hen p)" "keeps_inv e (get_active d)" "keeps_inv e (set_active d)"
  "keeps_inv e (is_screener u)" "keeps_inv e (add_screener u)" "keeps_inv e (get_ttynumber x)" "keeps_inv e (set_ttynumber x d)"
  unfolding add_hen_def is_hen_def get_active_def set_active_def is_screener_def add_screener_def get_ttynumber_def set_ttynumber_def
    find_hen_def find_active_def find_screener_def find_ttynumber_def found_at_def
  by (intro ensures_rules inv_upd; simp)+

lemma inv_list_proc:
  assumes "fair_target e pr"
  shows "keeps_inv e (list_proc e pr)"
proof -
  have "keeps_inv e (take_args pr)" unfolding take_args_def by (intro ensures_rules)
  moreover have "cop_inv e (s\<lparr>nodes := (nodes s)(k := Some m), proclist := q\<rparr>)" if "cop_inv e s" "pid m = p_pid pr" for s k m q
    using that assms by (auto simp: cop_inv_def)
  ultimately show ?thesis
    unfolding list_proc_def
    by (intro ensures_rules ensures_any [OF inv_is_sysproc] inv_upd) simp_all
qed

text \<open>Only processes that are not spared get on the list.\<close>

lemma inv_scan_one:
  assumes seen: "\<exists>n ps. kernel e n = Some ps \<and> pr \<in> set ps"
  shows "keeps_inv e (scan_one e pr)"
proof -
  have now: "ensures (cop_inv e) (gets curr_time) (\<lambda>now. \<exists>k. now = time_at e k)"
    by (rule ensures_gets) (simp add: cop_inv_def)
  have ftp: "ensures (cop_inv e) (is_sysproc e FTPD pr) (\<lambda>b. b \<longrightarrow> p_comm pr = ''ftpd'')"
    using inv_is_sysproc [of e FTPD pr] by (simp add: sysprocs_def)
  have fair: "fair_target e pr"
    if "ftp \<longrightarrow> p_comm pr = ''ftpd''" "\<exists>k. now = time_at e k" "\<not> spared_uid now (if ftp then p_uid pr else p_ruid pr) pr" for ftp now
    using that seen by (auto simp: fair_target_def spared_uid_def not_less split: if_splits)
  show ?thesis
    unfolding scan_one_def
    by (intro ensures_rules inv_add_usermem inv_tables inv_first_sysproc ensures_with [OF ftp] ensures_with [OF now]
        ensures_any [OF inv_is_sysproc] inv_list_proc fair)
qed

lemma inv_scan_proc: "keeps_inv e (scan_proc e)"
proof -
  have "keeps_inv e (scan_procs e ps)" if "\<forall>pr \<in> set ps. \<exists>n qs. kernel e n = Some qs \<and> pr \<in> set qs" for ps
    using that by (induction ps) (auto intro!: ensures_rules inv_scan_one)
  then show ?thesis unfolding scan_proc_def
    by (intro ensures_with [OF inv_getprocs]) (auto intro!: ensures_rules inv_log)
qed

lemma inv_scan_utmp: "keeps_inv e (scan_utmp e)"
proof -
  have "keeps_inv e (getdevnum e x)" for x unfolding getdevnum_def by (intro ensures_rules inv_tables inv_log)
  then have "keeps_inv e (scan_users e us)" for us
    by (induction us) (auto intro!: ensures_rules inv_tables inv_log)
  then show ?thesis unfolding scan_utmp_def by (intro ensures_rules inv_log)
qed

section \<open>Orphans\<close>

lemma inv_write_orph: "keeps_inv e (write_orph e b m)"
  unfolding write_orph_def by (intro ensures_rules inv_log)

lemma inv_node_at: "ensures (cop_inv e) (node_at a) (\<lambda>m. \<exists>pr. fair_target e pr \<and> pid m = p_pid pr)"
  unfolding node_at_def by (auto simp: ensures_def bnd_def gets_def undef_def ret_def cop_inv_def split: option.splits)

lemma inv_free: "keeps_inv e (free_proc a)"
  unfolding free_proc_def by (rule ensures_upd) (simp add: cop_inv_def)

lemma inv_drop: "keeps_inv e (drop_orph a p q)"
proof -
  have "keeps_inv e (bnd (node_at b) (\<lambda>m. upd (\<lambda>s. s\<lparr>nodes := (nodes s)(b := Some (m\<lparr>next_proc := q\<rparr>))\<rparr>)))" for b
    by (intro ensures_with [OF inv_node_at] ensures_upd) (auto simp: cop_inv_def)
  then show ?thesis unfolding drop_orph_def by (cases p) (simp_all add: ensures_sq inv_free inv_upd)
qed

lemma inv_pass_from: "(\<And>m. keeps_inv e (body m)) \<Longrightarrow> keeps_inv e (pass_from n body p q any)"
proof (induction n body p q any rule: pass_from.induct)
  case (2 body mp pmp any)
  then show ?case by (simp add: ensures_def)
next
  case (3 n body mp pmp any)
  show ?case unfolding pass_from.simps
    by (intro ensures_rules inv_drop ensures_any [OF inv_node_at] 3)
qed (simp add: ensures_basic)

lemma inv_pass: "(\<And>m. keeps_inv e (body m)) \<Longrightarrow> keeps_inv e (proc_pass body)"
  unfolding proc_pass_def by (intro ensures_rules inv_pass_from)

lemma inv_find_orph: "keeps_inv e find_orph"
proof -
  have "keeps_inv e (node_uid m)" for m unfolding node_uid_def by (intro ensures_rules)
  then have "keeps_inv e (active_body m)" "keeps_inv e (screen_body m)" "keeps_inv e (child_body m)" for m
    unfolding active_body_def screen_body_def child_body_def by (intro ensures_rules inv_tables; assumption?)+
  moreover have "keeps_inv e init_screener" unfolding init_screener_def by (rule inv_upd) simp
  ultimately show ?thesis unfolding find_orph_def by (intro ensures_rules inv_pass ensures_iter)
qed

lemma inv_soft: "keeps_inv e (soft_from e n p)"
proof (induction e n p rule: soft_from.induct)
  case (2 e mp)
  then show ?case by (simp add: ensures_def)
next
  case (3 e n mp)
  have "keeps_inv e (kill_proc e (pid m) SOFTKILL)" if "\<exists>pr. fair_target e pr \<and> pid m = p_pid pr" "\<not> pid m < 2" for m
    using that by (auto intro: inv_kill)
  then show ?case using 3 unfolding soft_from.simps
    by (intro ensures_with [OF inv_node_at]) (auto intro!: ensures_rules inv_log inv_write_orph)
qed (simp add: ensures_basic)

lemma inv_hard: "keeps_inv e (hard_from e oom n p)"
proof (induction e oom n p rule: hard_from.induct)
  case (2 e oom mp)
  then show ?case by (simp add: ensures_def)
next
  case (3 e oom n mp)
  have "keeps_inv e (kill_proc e (pid m) HARDKILL)" if "\<exists>pr. fair_target e pr \<and> pid m = p_pid pr" "2 \<le> pid m" for m
    using that by (auto intro: inv_kill)
  then show ?case using 3 unfolding hard_from.simps
    by (intro ensures_with [OF inv_node_at]) (auto intro!: ensures_rules inv_log inv_free)
qed (simp add: ensures_basic)

lemma inv_end_orphans: "keeps_inv e (end_orphans e)"
proof -
  have "keeps_inv e (kill_orph e)"
    unfolding kill_orph_def by (intro ensures_rules inv_soft inv_snooze inv_hard inv_upd) simp
  then show ?thesis unfolding end_orphans_def by (intro ensures_rules inv_find_orph inv_log inv_snooze)
qed

lemma inv_write_list: "keeps_inv e (write_list e)"
proof -
  have "keeps_inv e (list_from e n p)" for n p
  proof (induction e n p rule: list_from.induct)
    case (2 e mp)
    then show ?case by (simp add: ensures_def)
  next
    case (3 e n mp)
    then show ?case unfolding list_from.simps by (intro ensures_rules ensures_any [OF inv_node_at] inv_write_orph)
  qed (simp add: ensures_basic)
  then show ?thesis unfolding write_list_def by (intro ensures_rules)
qed

section \<open>The daemon\<close>

lemma inv_clock: "keeps_inv e (bnd (read_clock e) (\<lambda>t. upd (\<lambda>s. s\<lparr>curr_time := t\<rparr>)))"
proof -
  have "ensures (cop_inv e) (read_clock e) (\<lambda>t. \<exists>k. t = time_at e k)" unfolding read_clock_def by (rule ensures_gets) auto
  then show ?thesis by (rule ensures_with) (auto intro!: ensures_upd simp: cop_inv_def)
qed

lemma inv_round: "keeps_inv e (cop_round e)"
proof -
  have "keeps_inv e init_usermem" "keeps_inv e init_hen" "keeps_inv e init_active" "keeps_inv e (read_clock e)"
    unfolding init_usermem_def init_hen_def init_active_def read_clock_def by (intro inv_upd ensures_basic; simp)+
  then show ?thesis unfolding cop_round_def Let_def
    by (intro ensures_rules inv_clock inv_log inv_tables inv_scan_proc inv_check_mem inv_scan_utmp inv_write_list inv_end_orphans
        inv_snooze inv_upd) simp_all
qed

lemma inv_init_sysproc: "keeps_inv e (init_sysproc e)"
proof -
  have "keeps_inv e (init_procs e ps)" for ps
    by (induction e ps rule: init_procs.induct) (auto intro!: ensures_rules inv_upd inv_log)
  then show ?thesis unfolding init_sysproc_def by (intro ensures_rules inv_upd) simp_all
qed

fun fair_deed :: "cop_env \<Rightarrow> deed \<Rightarrow> bool" where
  "fair_deed e (Snooze n) = True"
| "fair_deed e (Signal p sig) = (2 \<le> p \<and> sig \<in> {SOFTKILL, HARDKILL} \<and> (\<exists>pr. fair_target e pr \<and> p = p_pid pr))"

lemma inv_deeds: "cop_inv e s \<Longrightarrow> list_all (fair_deed e) (deeds s)"
  unfolding list_all_iff
proof
  fix d assume "cop_inv e s" "d \<in> set (deeds s)"
  then show "fair_deed e d" by (cases d) (auto simp: cop_inv_def)
qed

text \<open>
  C32: through any number of rounds, and however the daemon ends, every signal it sent is SIGTERM or SIGKILL, goes to a process
  numbered at least 2 that the kernel had reported, and never to a process whose user is among the protected ones, except
  a finger daemon that ran for more than ten minutes and an FTP daemon that acts for somebody else.
\<close>

theorem only_fair_targets: "list_all (fair_deed e) (deeds (snd (cop_main e n (cop_start l))))"
proof -
  let ?s = "(cop_start l)\<lparr>curr_time := time_at e 0\<rparr>" and ?m = "sq init_ttynumber (sq (init_sysproc e) (cop_rounds e n))"
  have "keeps_inv e init_ttynumber" unfolding init_ttynumber_def by (rule inv_upd) simp
  moreover have "keeps_inv e (cop_rounds e n)" by (induction n) (auto intro!: ensures_rules inv_round)
  ultimately have "keeps_inv e ?m" by (intro ensures_rules inv_init_sysproc)
  moreover have "cop_inv e ?s" by (auto simp: cop_inv_def cop_start_def)
  ultimately have "cop_inv e (snd (?m ?s))" by (cases "?m ?s") (simp add: ensuresD)
  moreover have "cop_main e n (cop_start l) = ?m ?s"
    by (simp add: cop_main_def read_clock_def sq_def bnd_def gets_def upd_def cop_start_def)
  ultimately show ?thesis by (simp add: inv_deeds)
qed

end
