(* ===== verification/CopUsage.thy ===== *)
theory CopUsage
  imports CopOrphans
begin

text \<open>
  What \<open>usermem.c\<close> and \<open>killuser.c\<close> of \<open>soft/apps/robocop\<close> do: the table of users as a map from users to what they run,
  and the passes of a kill.
\<close>

section \<open>The table of users as a map\<close>

interpretation use: linear_probing TABLESIZE "\<lambda>u. nat (u mod int TABLESIZE)" "\<lambda>h. \<not> 0 < h_nproc h" h_uid
  by unfold_locales (simp add: nat_less_iff)

abbreviation user_slot :: "userhash list \<Rightarrow> int \<Rightarrow> nat option" where
  "user_slot t u \<equiv> slot_of TABLESIZE (\<lambda>u. nat (u mod int TABLESIZE)) (\<lambda>h. \<not> 0 < h_nproc h) h_uid t u"

definition users_ok :: "cop \<Rightarrow> bool" where
  "users_ok s \<longleftrightarrow> table_ok TABLESIZE (\<lambda>u. nat (u mod int TABLESIZE)) (\<lambda>h. \<not> 0 < h_nproc h) h_uid (user s) \<and>
     n_user s = int (taken (\<lambda>h. \<not> 0 < h_nproc h) (user s)) \<and> n_user s \<le> int MAXUSERS \<and> (\<forall>h \<in> set (user s). 0 \<le> h_nproc h)"

definition usage :: "userhash list \<Rightarrow> int \<Rightarrow> (int \<times> int) option" where
  "usage t u = (case user_slot t u of None \<Rightarrow> None
   | Some j \<Rightarrow> if 0 < h_nproc (t ! j) then Some (h_mem (t ! j), h_nproc (t ! j)) else None)"

definition count :: "(int \<Rightarrow> (int \<times> int) option) \<Rightarrow> int \<times> int \<Rightarrow> int \<Rightarrow> (int \<times> int) option" where
  "count M c = M(fst c \<mapsto> (case M (fst c) of None \<Rightarrow> (snd c mod 2 ^ 64, 1) | Some (a, k) \<Rightarrow> ((a + snd c) mod 2 ^ 64, k + 1)))"

text \<open>The map by the entries, whatever slots they are in.\<close>

lemma usage_iff:
  assumes "table_ok TABLESIZE (\<lambda>u. nat (u mod int TABLESIZE)) (\<lambda>h. \<not> 0 < h_nproc h) h_uid t"
  shows "usage t u = Some x \<longleftrightarrow> (\<exists>j < TABLESIZE. 0 < h_nproc (t ! j) \<and> h_uid (t ! j) = u \<and> x = (h_mem (t ! j), h_nproc (t ! j)))"
proof
  assume "usage t u = Some x"
  then obtain j where j: "user_slot t u = Some j" "0 < h_nproc (t ! j)" "x = (h_mem (t ! j), h_nproc (t ! j))"
    by (auto simp: usage_def split: option.splits if_splits)
  then show "\<exists>j < TABLESIZE. 0 < h_nproc (t ! j) \<and> h_uid (t ! j) = u \<and> x = (h_mem (t ! j), h_nproc (t ! j))"
    using use.slot_in [OF j(1)] use.slot_found(2) [OF assms j(1)] by auto
next
  assume "\<exists>j < TABLESIZE. 0 < h_nproc (t ! j) \<and> h_uid (t ! j) = u \<and> x = (h_mem (t ! j), h_nproc (t ! j))"
  then show "usage t u = Some x" using assms by (auto simp: usage_def table_ok_def)
qed

lemma option_same:
  assumes "\<And>y. a = Some y \<longleftrightarrow> b = Some y"
  shows "a = b"
  using assms [of "the a"] assms [of "the b"] by (cases a; cases b) auto

lemma usage_update:
  assumes ok: "table_ok TABLESIZE (\<lambda>u. nat (u mod int TABLESIZE)) (\<lambda>h. \<not> 0 < h_nproc h) h_uid t"
    and ok': "table_ok TABLESIZE (\<lambda>u. nat (u mod int TABLESIZE)) (\<lambda>h. \<not> 0 < h_nproc h) h_uid (t[j := x])"
    and s: "user_slot t u = Some j" and x: "h_uid x = u" "0 < h_nproc x"
  shows "usage (t[j := x]) = (usage t)(u \<mapsto> (h_mem x, h_nproc x))"
proof
  fix v
  have len: "length t = TABLESIZE" "j < TABLESIZE" using ok use.slot_in [OF s] by (simp_all add: table_ok_def)
  have "usage (t[j := x]) v = Some y \<longleftrightarrow> ((usage t)(u \<mapsto> (h_mem x, h_nproc x))) v = Some y" for y
  proof (cases "v = u")
    case True
    have "usage (t[j := x]) u = Some (h_mem x, h_nproc x)"
      unfolding usage_iff [OF ok'] using len x by (intro exI [of _ j]) simp
    then show ?thesis using True by simp
  next
    case False
    have "0 < h_nproc (t ! j) \<Longrightarrow> h_uid (t ! j) = u" using use.slot_found(2) [OF ok s] by simp
    then have "(0 < h_nproc (t[j := x] ! i) \<and> h_uid (t[j := x] ! i) = v \<and> y = (h_mem (t[j := x] ! i), h_nproc (t[j := x] ! i))) \<longleftrightarrow>
      (0 < h_nproc (t ! i) \<and> h_uid (t ! i) = v \<and> y = (h_mem (t ! i), h_nproc (t ! i)))" for i
      using False len x by (cases "i = j") auto
    then have "usage (t[j := x]) v = Some y \<longleftrightarrow> usage t v = Some y"
      unfolding usage_iff [OF ok'] usage_iff [OF ok] by (simp only:)
    then show ?thesis using False by simp
  qed
  then show "usage (t[j := x]) v = ((usage t)(u \<mapsto> (h_mem x, h_nproc x))) v" by (rule option_same)
qed

text \<open>One more process of a user: the map counts it, unless there are as many users as the table takes already.\<close>

lemma add_usermem_run:
  assumes ok: "users_ok s" and room: "n_user s < int MAXUSERS \<or> usage (user s) u \<noteq> None"
  obtains T k where "add_usermem u mem s = (Ret (), s\<lparr>n_user := k, user := T\<rparr>)" and "users_ok (s\<lparr>n_user := k, user := T\<rparr>)"
    and "usage T = count (usage (user s)) (u, mem)" and "k = n_user s + (if usage (user s) u = None then 1 else 0)"
proof -
  have t: "table_ok TABLESIZE (\<lambda>u. nat (u mod int TABLESIZE)) (\<lambda>h. \<not> 0 < h_nproc h) h_uid (user s)"
    and n: "n_user s = int (taken (\<lambda>h. \<not> 0 < h_nproc h) (user s))" "n_user s \<le> int MAXUSERS" and pos: "\<forall>h \<in> set (user s). 0 \<le> h_nproc h"
    using ok by (simp_all add: users_ok_def)
  have len: "length (user s) = TABLESIZE" "taken (\<lambda>h. \<not> 0 < h_nproc h) (user s) < TABLESIZE" using t n by (simp_all add: table_ok_def)
  obtain j where j: "user_slot (user s) u = Some j" using use.slot_exists [OF len] by blast
  have jn: "j < TABLESIZE" "0 \<le> h_nproc (user s ! j)" using use.slot_in [OF j] pos len(1) by simp_all
  have stop: "(\<lambda>i. \<not> (h_uid (user s ! i) \<noteq> u \<and> 0 < h_nproc (user s ! i))) = (\<lambda>i. \<not> 0 < h_nproc (user s ! i) \<or> h_uid (user s ! i) = u)"
    by auto
  have probe: "probe TABLESIZE (\<lambda>i. \<not> (h_uid (user s ! i) \<noteq> u \<and> 0 < h_nproc (user s ! i))) (next_slot TABLESIZE) (nat (u mod int TABLESIZE)) = Some j"
    unfolding stop using j by (simp add: slot_of_def)
  show thesis
  proof (cases "0 < h_nproc (user s ! j)")
    case True
    let ?x = "(user s ! j)\<lparr>h_mem := (h_mem (user s ! j) + mem) mod 2 ^ 64, h_nproc := h_nproc (user s ! j) + 1\<rparr>"
    let ?T = "(user s)[j := ?x]"
    have key: "h_uid (user s ! j) = u" using use.slot_found(2) [OF t j] True by simp
    have u: "usage (user s) u = Some (h_mem (user s ! j), h_nproc (user s ! j))" using j True by (simp add: usage_def)
    have "\<not> \<not> 0 < h_nproc (user s ! j)" "\<not> \<not> 0 < h_nproc ?x" "h_uid ?x = h_uid (user s ! j)" using True by simp_all
    note rep = use.table_replace [OF t jn(1) this]
    have "usage ?T = (usage (user s))(u \<mapsto> (h_mem ?x, h_nproc ?x))" by (rule usage_update [OF t rep(1) j]) (use True key in simp_all)
    then have c: "usage ?T = count (usage (user s)) (u, mem)" using u by (simp add: count_def)
    have "add_usermem u mem s = (Ret (), s\<lparr>n_user := n_user s, user := ?T\<rparr>)"
      using probe True by (simp add: add_usermem_def bnd_def gets_def upd_def)
    moreover have "users_ok (s\<lparr>n_user := n_user s, user := ?T\<rparr>)"
      using rep(1,3) n pos True set_update_subset_insert [of "user s" j ?x] by (auto simp: users_ok_def)
    ultimately show thesis using c u by (intro that [of ?T "n_user s"]) simp_all
  next
    case False
    let ?x = "\<lparr>h_uid = u, h_mem = mem mod 2 ^ 64, h_nproc = 1\<rparr>"
    let ?T = "(user s)[j := ?x]"
    have u: "usage (user s) u = None" using j False by (simp add: usage_def)
    then have lt: "n_user s < int MAXUSERS" using room by simp
    have "\<not> \<not> 0 < h_nproc ?x" "h_uid ?x = u" by simp_all
    note ins = use.table_insert [OF t j False this]
    have "usage ?T = (usage (user s))(u \<mapsto> (h_mem ?x, h_nproc ?x))" by (rule usage_update [OF t ins(1) j]) simp_all
    then have c: "usage ?T = count (usage (user s)) (u, mem)" using u by (simp add: count_def)
    have "add_usermem u mem s = (Ret (), s\<lparr>n_user := n_user s + 1, user := ?T\<rparr>)"
      using probe False jn(2) lt by (simp add: add_usermem_def bnd_def gets_def upd_def)
    moreover have "users_ok (s\<lparr>n_user := n_user s + 1, user := ?T\<rparr>)"
      using ins(1,3) n lt pos set_update_subset_insert [of "user s" j ?x] by (auto simp: users_ok_def)
    ultimately show thesis using c u by (intro that [of ?T "n_user s + 1"]) simp_all
  qed
qed

section \<open>A scan\<close>

text \<open>What the map holds after a number of calls.\<close>

definition tally :: "(int \<times> int) list \<Rightarrow> int \<Rightarrow> (int \<times> int) option" where
  "tally cs u = (let mine = filter (\<lambda>c. fst c = u) cs in
     if mine = [] then None else Some (sum_list (map snd mine) mod 2 ^ 64, int (length mine)))"

lemma tally_count: "count (tally cs) c = tally (cs @ [c])"
  by (rule ext) (auto simp: count_def tally_def Let_def mod_add_left_eq)

lemma tally_None: "tally cs u = None \<longleftrightarrow> u \<notin> fst ` set cs"
  by (auto simp: tally_def Let_def filter_empty_conv)

definition calls :: "kproc list \<Rightarrow> (int \<times> int) list" where
  "calls ps = map (\<lambda>p. (p_ruid p, proc_mem p)) (filter (\<lambda>p. p_rgid p \<noteq> STAFF_GID) ps)"

interpretation usr: frame_rel "\<lambda>s t :: cop. user t = user s \<and> n_user t = n_user s"
  by unfold_locales auto

abbreviation users_alone :: "'a copp \<Rightarrow> bool" where
  "users_alone \<equiv> keeps (\<lambda>s t. user t = user s \<and> n_user t = n_user s)"

lemma alone_hen: "users_alone (add_hen p)"
  unfolding add_hen_def find_hen_def found_at_def by (intro usr.keeps_rules usr.keeps_upd) simp_all

lemma alone_log: "users_alone (log_line x)"
  unfolding log_line_def by (rule usr.keeps_upd) simp

lemma alone_sysproc: "users_alone (is_sysproc e i pr)"
proof -
  have "users_alone (check_sysproc e i f)" for f
    unfolding check_sysproc_def by (intro usr.keeps_rules usr.keeps_upd alone_log) simp_all
  then show ?thesis
    unfolding is_sysproc_def by (cases "sysprocs ! i") (auto intro!: usr.keeps_rules usr.keeps_upd)
qed

lemma alone_first: "users_alone (first_sysproc e pr is)"
  by (induction "is") (auto intro!: usr.keeps_rules alone_sysproc)

lemma alone_list: "users_alone (list_proc e pr)"
  unfolding list_proc_def take_args_def by (intro usr.keeps_rules usr.keeps_upd alone_sysproc) simp_all

text \<open>The rest of what is done for a process leaves the table as it is.\<close>

lemma scan_one_counts:
  assumes run: "scan_one e p s = (Ret (), t)" and ok: "users_ok s" and use: "usage (user s) = tally cs" and n: "n_user s = int (card (fst ` set cs))"
    and room: "card (fst ` set (cs @ calls [p])) \<le> MAXUSERS"
  shows "users_ok t \<and> usage (user t) = tally (cs @ calls [p]) \<and> n_user t = int (card (fst ` set (cs @ calls [p])))"
proof -
  obtain u where u: "whenP (p_rgid p \<noteq> STAFF_GID) (add_usermem (p_ruid p) (proc_mem p)) s = (Ret (), u)"
    and rest: "user t = user u \<and> n_user t = n_user u"
  proof -
    let ?rest = "bnd (gets out_of_memory) (\<lambda>oom. if oom then ret ()
     else bnd (first_sysproc e p [SENDMAIL, POSTFIX, IRCD, DOVECOT]) (\<lambda>b. if b then add_hen (p_pid p)
     else bnd (is_sysproc e FTPD p) (\<lambda>ftp. bnd (gets curr_time) (\<lambda>now.
       if ftp \<and> now - p_ustart_sec p < FTP_TOO_OLD then add_hen (p_pid p)
       else bnd (is_sysproc e SSHD p) (\<lambda>ssh. if ssh then add_hen (p_pid p)
         else if spared_uid now (if ftp then p_uid p else p_ruid p) p then ret ()
         else list_proc e p)))))"
    have "users_alone ?rest" by (intro usr.keeps_rules alone_hen alone_sysproc alone_first alone_list)
    moreover from run obtain x u where "whenP (p_rgid p \<noteq> STAFF_GID) (add_usermem (p_ruid p) (proc_mem p)) s = (Ret x, u)" "?rest u = (Ret (), t)"
      unfolding scan_one_def by (rule sq_RetE)
    ultimately show thesis using that [of u] by (auto dest: keepsD)
  qed
  show ?thesis
  proof (cases "p_rgid p = STAFF_GID")
    case True
    then show ?thesis using u rest ok use n by (simp add: whenP_def ret_def calls_def users_ok_def)
  next
    case False
    have c: "calls [p] = [(p_ruid p, proc_mem p)]" using False by (simp add: calls_def)
    have new: "usage (user s) (p_ruid p) = None \<longleftrightarrow> p_ruid p \<notin> fst ` set cs" using use tally_None by simp
    have card: "card (fst ` set (cs @ calls [p])) = card (fst ` set cs) + (if p_ruid p \<in> fst ` set cs then 0 else 1)"
      using c by (auto simp: card_insert_if)
    have "n_user s < int MAXUSERS \<or> usage (user s) (p_ruid p) \<noteq> None" using room card n new by (auto split: if_splits)
    then obtain T k where T: "add_usermem (p_ruid p) (proc_mem p) s = (Ret (), s\<lparr>n_user := k, user := T\<rparr>)" "users_ok (s\<lparr>n_user := k, user := T\<rparr>)"
      "usage T = count (usage (user s)) (p_ruid p, proc_mem p)" "k = n_user s + (if usage (user s) (p_ruid p) = None then 1 else 0)"
      using add_usermem_run [OF ok] by blast
    have t: "user t = T" "n_user t = k" using u T(1) rest False by (auto simp: whenP_def)
    have "users_ok t" using T(2) t by (simp add: users_ok_def)
    moreover have "usage (user t) = tally (cs @ calls [p])" using T(3) t use c by (simp add: tally_count)
    moreover have "n_user t = int (card (fst ` set (cs @ calls [p])))" using T(4) t n new card by auto
    ultimately show ?thesis by simp
  qed
qed

lemma scan_procs_counts:
  "scan_procs e ps s = (Ret (), t) \<Longrightarrow> users_ok s \<Longrightarrow> usage (user s) = tally cs \<Longrightarrow> n_user s = int (card (fst ` set cs)) \<Longrightarrow>
   card (fst ` set (cs @ calls ps)) \<le> MAXUSERS \<Longrightarrow> users_ok t \<and> usage (user t) = tally (cs @ calls ps)"
proof (induction ps arbitrary: s cs)
  case Nil
  then show ?case by (simp add: ret_def calls_def)
next
  case (Cons p ps)
  have c: "calls (p # ps) = calls [p] @ calls ps" by (simp add: calls_def)
  obtain x u where u: "scan_one e p s = (Ret x, u)" "scan_procs e ps u = (Ret (), t)" using Cons.prems(1) by (auto elim!: sq_RetE)
  have "card (fst ` set (cs @ calls [p])) \<le> card (fst ` set (cs @ calls (p # ps)))" unfolding c by (rule card_mono) auto
  then have "users_ok u \<and> usage (user u) = tally (cs @ calls [p]) \<and> n_user u = int (card (fst ` set (cs @ calls [p])))"
    using scan_one_counts [of e p s u cs] u(1) Cons.prems by simp
  then show ?case using Cons.IH [OF u(2), of "cs @ calls [p]"] Cons.prems(5) by (simp add: c)
qed

lemma init_usermem_run:
  assumes "length (user s) = TABLESIZE"
  obtains u where "init_usermem s = (Ret (), u)" "users_ok u" "usage (user u) = tally []" "n_user u = 0"
proof -
  let ?u = "s\<lparr>n_user := 0, user := map (\<lambda>h. h\<lparr>h_nproc := 0\<rparr>) (user s)\<rparr>"
  have t: "table_ok TABLESIZE (\<lambda>u. nat (u mod int TABLESIZE)) (\<lambda>h. \<not> 0 < h_nproc h) h_uid (user ?u)" using assms by (simp add: table_ok_def)
  have "\<forall>h \<in> set (user ?u). \<not> 0 < h_nproc h" by auto
  then have "filter (\<lambda>h. \<not> \<not> 0 < h_nproc h) (user ?u) = []" by (simp add: filter_empty_conv)
  then have n: "taken (\<lambda>h. \<not> 0 < h_nproc h) (user ?u) = 0" unfolding taken_def by simp
  have ok: "users_ok ?u" using t n unfolding users_ok_def by auto
  have "usage (user ?u) v = None" for v
    using usage_iff [OF t, of v] assms by (cases "usage (user ?u) v") auto
  then have "usage (user ?u) = tally []" by (auto simp: tally_def)
  then show thesis using ok by (intro that [of ?u]) (simp_all add: init_usermem_def upd_def)
qed

text \<open>
  After a scan of the process table, the hash table of users is the exact account of it: for every user the sum of
  the pages of his processes, modulo the width of an \<open>unsigned long\<close>, and their number, with the processes of the staff
  group left out. The hashing, the probing around the end of the table and the entries of earlier rounds do not show, as
  long as there are no more users than the table takes.
\<close>

theorem users_counted:
  assumes "length (user s) = TABLESIZE" and "sq init_usermem (scan_procs e ps) s = (Ret (), t)" and "card (fst ` set (calls ps)) \<le> MAXUSERS"
  shows "usage (user t) u = tally (calls ps) u"
proof -
  obtain v where v: "init_usermem s = (Ret (), v)" "users_ok v" "usage (user v) = tally []" "n_user v = 0"
    using init_usermem_run [OF assms(1)] by blast
  have "scan_procs e ps v = (Ret (), t)" using assms(2) v(1) by (simp add: sq_run)
  then show ?thesis using scan_procs_counts [of e ps v t "[]"] v assms(3) by simp
qed

text \<open>Three processes of two users whose numbers fall into the same slot, and one of the staff.\<close>

definition sample_user_proc :: "int \<Rightarrow> int \<Rightarrow> int \<Rightarrow> kproc" where
  "sample_user_proc u g k = \<lparr>p_pid = 100, p_ppid = 1, p_ruid = u, p_uid = u, p_rgid = g, p_tdev = NODEV, p_comm = ''httpd'', p_login = ''www'',
     p_ustart_sec = 0, p_vm_tsize = k, p_vm_dsize = 1, p_vm_ssize = 1, p_zombie = False, p_args = None, p_text = None\<rparr>"

definition sample_users :: "kproc list" where
  "sample_users = [sample_user_proc 67 67 5, sample_user_proc 451 1 7, sample_user_proc 67 STAFF_GID 9, sample_user_proc 451 1 10]"

definition sample_users_env :: cop_env where
  "sample_users_env = \<lparr>kernel = (\<lambda>_. Some sample_users), kvm_err = [], stat_file = (\<lambda>_ _. None), stat_dev = (\<lambda>_ _. None), kill_works = (\<lambda>_ _ _. True),
     can_alloc = (\<lambda>_. True), utmp_file = (\<lambda>_. None), time_at = (\<lambda>_. 0), log_opens = (\<lambda>_. False),
     ctime_of = (\<lambda>_. []), devname = (\<lambda>_. []), maxcomlen = 16, maxlogname = 31, pagesize = 4096\<rparr>"

lemma users_counted_witness:
  "usage (user (snd (sq init_usermem (scan_procs sample_users_env sample_users) (cop_start False)))) 451 = Some (21, 2)"
proof -
  have r: "fst (sq init_usermem (scan_procs sample_users_env sample_users) (cop_start False)) = Ret ()" by code_simp
  then obtain t where t: "sq init_usermem (scan_procs sample_users_env sample_users) (cop_start False) = (Ret (), t)"
    by (metis prod.collapse)
  have "usage (user t) 451 = tally (calls sample_users) 451"
    by (rule users_counted [OF _ t]) (simp add: cop_start_def, code_simp)
  moreover have "tally (calls sample_users) 451 = Some (21, 2)" by code_simp
  ultimately show ?thesis using t by simp
qed

section \<open>Memory that does not fit an int\<close>

lemma log_line_run: "\<exists>x. log_line y s = (Ret (), s\<lparr>logtext := x\<rparr>)"
  by (cases "logging s") (auto simp: log_line_def upd_def intro: exI [of _ "logtext s"])

text \<open>
  A user of 2 to 4 gigabytes counts as one of a negative number of bytes: nothing is done to him and nothing
  but the line for everybody is written.
\<close>

lemma big_user_spared:
  assumes "2 ^ 31 \<le> h_mem h * pagesize e" and "h_mem h * pagesize e < 2 ^ 32" and "h_nproc h < LOG_NPROC"
  shows "used_bytes e h < 0" "\<exists>x. check_user e h s = (Ret (), s\<lparr>logtext := x\<rparr>)"
proof -
  define z where "z = h_mem h * pagesize e - 2 ^ 31"
  then have "0 \<le> z" "z < 2 ^ 31" and x: "h_mem h * pagesize e + 2 ^ 31 = z + 2 ^ 32" using assms(1,2) by simp_all
  then have "(h_mem h * pagesize e + 2 ^ 31) mod 2 ^ 32 = z" unfolding x by simp
  then show neg: "used_bytes e h < 0" using \<open>z < 2 ^ 31\<close> by (simp add: used_bytes_def s32_def wrap_def)
  show "\<exists>x. check_user e h s = (Ret (), s\<lparr>logtext := x\<rparr>)"
  proof (cases "h_nproc h = 0")
    case True
    then show ?thesis by (intro exI [of _ "logtext s"]) (simp add: check_user_def ret_def)
  next
    case False
    have "\<not> LOG_MEMORY \<le> used_bytes e h" "\<not> LOG_NPROC \<le> h_nproc h" using neg assms(3) by simp_all
    then have c: "check_user e h = sq (log_line (''CHECK_MEM uid='' @ dec (h_uid h) @ '' mem='' @ dec (h_mem h * kperpage e) @ ''K n='' @ dec (h_nproc h) @ ''\<newline>'')) (ret ())"
      using False by (simp only: check_user_def if_False simp_thms)
    obtain x where "log_line (''CHECK_MEM uid='' @ dec (h_uid h) @ '' mem='' @ dec (h_mem h * kperpage e) @ ''K n='' @ dec (h_nproc h) @ ''\<newline>'') s = (Ret (), s\<lparr>logtext := x\<rparr>)"
      using log_line_run by blast
    then have "check_user e h s = (Ret (), s\<lparr>logtext := x\<rparr>)" unfolding c by (simp add: sq_def bnd_def ret_def)
    then show ?thesis by blast
  qed
qed

section \<open>Killing a user\<close>

text \<open>Reading number \<open>n\<close> of the process table has nothing of the user to kill.\<close>

definition target :: "int \<Rightarrow> kproc \<Rightarrow> bool" where
  "target u p \<longleftrightarrow> p_ruid p = u \<and> 2 \<le> p_pid p \<and> \<not> p_zombie p"

definition gone :: "cop_env \<Rightarrow> int \<Rightarrow> nat \<Rightarrow> bool" where
  "gone e u n \<longleftrightarrow> (\<exists>ps. kernel e n = Some ps \<and> filter (target u) ps = [])"

definition hits :: "kproc list \<Rightarrow> deed list" where
  "hits ps = map (\<lambda>p. Signal (p_pid p) HARDKILL) ps"

text \<open>A pass sends one signal to each target, in the order of the table, and does nothing else but log.\<close>

lemma kill_pass_run:
  "\<exists>x. kill_pass e pass ps s = (Ret (length (filter (\<lambda>p. 2 \<le> p_pid p \<and> \<not> p_zombie p) ps)),
     s\<lparr>deeds := deeds s @ hits (filter (\<lambda>p. 2 \<le> p_pid p \<and> \<not> p_zombie p) ps), logtext := x\<rparr>)"
proof (induction ps arbitrary: s)
  case Nil
  show ?case by (rule exI [of _ "logtext s"]) (simp add: ret_def hits_def)
next
  case (Cons p ps)
  show ?case
  proof (cases "p_pid p < 2 \<or> p_zombie p")
    case True
    then have "filter (\<lambda>p. 2 \<le> p_pid p \<and> \<not> p_zombie p) (p # ps) = filter (\<lambda>p. 2 \<le> p_pid p \<and> \<not> p_zombie p) ps" by auto
    then show ?thesis using Cons.IH [of s] True by (simp only: kill_pass.simps if_True)
  next
    case False
    obtain x where x: "whenP (pass = 0) (logproc e p) s = (Ret (), s\<lparr>logtext := x\<rparr>)"
    proof (cases "pass = 0")
      case True
      have "\<exists>x. logproc e p s = (Ret (), s\<lparr>logtext := x\<rparr>)" unfolding logproc_def by (rule log_line_run)
      then show thesis using that True by (auto simp: whenP_def)
    next
      case False
      then show thesis using that [of "logtext s"] by (simp add: whenP_def ret_def)
    qed
    let ?u = "s\<lparr>logtext := x, deeds := deeds s @ [Signal (p_pid p) HARDKILL]\<rparr>"
    obtain y where y: "log_line (''kill('' @ dec (p_pid p) @ '',SIGKILL)\<newline>'') ?u = (Ret (), ?u\<lparr>logtext := y\<rparr>)" using log_line_run by blast
    obtain z where z: "kill_pass e pass ps (?u\<lparr>logtext := y\<rparr>) = (Ret (length (filter (\<lambda>p. 2 \<le> p_pid p \<and> \<not> p_zombie p) ps)),
       ?u\<lparr>logtext := y, deeds := deeds ?u @ hits (filter (\<lambda>p. 2 \<le> p_pid p \<and> \<not> p_zombie p) ps), logtext := z\<rparr>)"
      using Cons.IH [of "?u\<lparr>logtext := y\<rparr>"] by auto
    show ?thesis using False x y z
      by (intro exI [of _ z]) (simp add: kill_proc_def sq_def bnd_def gets_def upd_def ret_def hits_def)
  qed
qed

lemma filter_target: "filter (\<lambda>p. 2 \<le> p_pid p \<and> \<not> p_zombie p) (filter (\<lambda>p. p_ruid p = u) ps) = filter (target u) ps"
  by (auto simp: target_def intro: filter_cong)

text \<open>Of the deeds of a run, what was sent.\<close>

definition only_hits :: "cop_env \<Rightarrow> int \<Rightarrow> deed list \<Rightarrow> bool" where
  "only_hits e u ds \<longleftrightarrow> (\<forall>p sig. Signal p sig \<in> set ds \<longrightarrow> sig = HARDKILL \<and> (\<exists>n ps pr. kernel e n = Some ps \<and> pr \<in> set ps \<and> target u pr \<and> p = p_pid pr))"

lemma kill_passes_run:
  "kill_passes e u k pass clean s = (r, t) \<Longrightarrow> clean < 3 \<Longrightarrow> clean \<le> snaps s \<Longrightarrow> \<forall>i < clean. gone e u (snaps s - 1 - i) \<Longrightarrow>
   snaps t \<le> snaps s + k \<and> (\<exists>ds. deeds t = deeds s @ ds \<and> only_hits e u ds) \<and>
   (r = Ret (Some (pass + k)) \<and> snaps t = snaps s + k \<or> (\<exists>p. r = Ret (Some p)) \<and> 3 \<le> snaps t \<and> (\<forall>i < 3. gone e u (snaps t - 1 - i)) \<or>
    r = Ret None \<and> 0 < snaps t \<and> kernel e (snaps t - 1) = None)"
proof (induction k arbitrary: pass clean s)
  case 0
  then show ?case by (simp add: ret_def only_hits_def)
next
  case (Suc k)
  let ?s1 = "s\<lparr>snaps := snaps s + 1\<rparr>"
  have get: "getprocs e s = (Ret (kernel e (snaps s)), ?s1)" by (simp add: getprocs_def bnd_def gets_def sq_def upd_def ret_def)
  show ?case
  proof (cases "kernel e (snaps s)")
    case None
    obtain x where "log_line (''Failed to get process list for uid '' @ dec u @ '' while killing ('' @ kvm_err e @ '')\<newline>'') ?s1 = (Ret (), ?s1\<lparr>logtext := x\<rparr>)"
      using log_line_run by blast
    then have "r = Ret None \<and> t = ?s1\<lparr>logtext := x\<rparr>" using Suc.prems(1) get None by (simp add: bnd_def sq_def ret_def)
    then show ?thesis using None by (simp add: only_hits_def)
  next
    case (Some ps)
    define n where "n = length (filter (target u) ps)"
    obtain x where kp: "kill_pass e pass (filter (\<lambda>p. p_ruid p = u) ps) ?s1 = (Ret n, ?s1\<lparr>deeds := deeds s @ hits (filter (target u) ps), logtext := x\<rparr>)"
      using kill_pass_run [of e pass "filter (\<lambda>p. p_ruid p = u) ps" ?s1] unfolding filter_target n_def by auto
    let ?s2 = "?s1\<lparr>deeds := deeds s @ hits (filter (target u) ps), logtext := x\<rparr>"
    have hits: "only_hits e u (hits (filter (target u) ps))" using Some by (auto simp: only_hits_def hits_def)
    show ?thesis
    proof (cases "n = 0 \<and> clean + 1 = 3")
      case True
      then have "r = Ret (Some pass) \<and> t = ?s2" using Suc.prems(1) get Some kp by (simp add: bnd_def ret_def)
      moreover have "gone e u (snaps s - i)" if "i < 3" for i
        using that True Some Suc.prems(3,4) by (cases i) (auto simp: gone_def n_def)
      ultimately show ?thesis using True Suc.prems(3) hits by auto
    next
      case False
      obtain s3 ds where s3: "whenP (pass mod 3 = 2) (snooze 1) ?s2 = (Ret (), s3)" "snaps s3 = snaps s + 1"
        "deeds s3 = deeds s @ hits (filter (target u) ps) @ ds" "only_hits e u ds"
        by (cases "pass mod 3 = 2") (auto simp: whenP_def snooze_def upd_def ret_def only_hits_def)
      have rest: "kill_passes e u k (pass + 1) (if n = 0 then clean + 1 else 0) s3 = (r, t)"
        using Suc.prems(1) get Some kp False s3(1) by (simp add: bnd_def sq_def split: if_splits)
      have "\<forall>i < (if n = 0 then clean + 1 else 0). gone e u (snaps s3 - 1 - i)"
      proof (cases "n = 0")
        case True
        have "gone e u (snaps s - i)" if "i < Suc clean" for i
          using that True Some Suc.prems(3,4) by (cases i) (auto simp: gone_def n_def)
        then show ?thesis using True s3(2) by simp
      qed simp
      moreover have "(if n = 0 then clean + 1 else 0) < 3" "(if n = 0 then clean + 1 else 0) \<le> snaps s3"
        using False Suc.prems(2,3) s3(2) by auto
      ultimately have "snaps t \<le> snaps s3 + k \<and> (\<exists>es. deeds t = deeds s3 @ es \<and> only_hits e u es) \<and>
        (r = Ret (Some (pass + 1 + k)) \<and> snaps t = snaps s3 + k \<or> (\<exists>p. r = Ret (Some p)) \<and> 3 \<le> snaps t \<and> (\<forall>i < 3. gone e u (snaps t - 1 - i)) \<or>
          r = Ret None \<and> 0 < snaps t \<and> kernel e (snaps t - 1) = None)"
        using Suc.IH [OF rest] by blast
      then have ih: "snaps t \<le> snaps s3 + k" "\<exists>es. deeds t = deeds s3 @ es \<and> only_hits e u es"
        "r = Ret (Some (pass + 1 + k)) \<and> snaps t = snaps s3 + k \<or> (\<exists>p. r = Ret (Some p)) \<and> 3 \<le> snaps t \<and> (\<forall>i < 3. gone e u (snaps t - 1 - i)) \<or>
          r = Ret None \<and> 0 < snaps t \<and> kernel e (snaps t - 1) = None"
        by blast+
      then obtain es where es: "deeds t = deeds s @ (hits (filter (target u) ps) @ ds @ es)" "only_hits e u es" using s3(3) by auto
      have "only_hits e u (hits (filter (target u) ps) @ ds @ es)" using hits s3(4) es(2) by (auto simp: only_hits_def)
      then show ?thesis using ih(1,3) s3(2) es(1) by auto
    qed
  qed
qed

text \<open>
  Killing a user always returns, reads the process table at most 45 times and sends nothing but SIGKILL and nothing to anybody
  else: only to processes, reported by the kernel, of that very user, not yet dead, numbered at least 2, and never when
  the user is one of the system. When it ends before the last pass, either the process table could not be read or
  the last three readings showed none of his processes any more.
\<close>

lemma killuser_until_gone:
  assumes "killuser e u s = (r, t)"
  shows "r = Ret () \<and> snaps t \<le> snaps s + MAX_KILL_PASS \<and> (\<exists>ds. deeds t = deeds s @ ds \<and> only_hits e u ds \<and> (u < MIN_KILL_UID \<longrightarrow> ds = [])) \<and>
    (snaps t = snaps s + MAX_KILL_PASS \<or> 3 \<le> snaps t \<and> (\<forall>i < 3. gone e u (snaps t - 1 - i)) \<or> 0 < snaps t \<and> kernel e (snaps t - 1) = None \<or> u < MIN_KILL_UID)"
proof (cases "u < MIN_KILL_UID")
  case True
  then show ?thesis using assms log_line_run [of "''Attempt to kill processes for system uid '' @ dec u @ ''\<newline>''" s]
    by (auto simp: killuser_def only_hits_def)
next
  case False
  obtain q v where q: "kill_passes e u MAX_KILL_PASS 0 0 s = (q, v)" by fastforce
  note run = kill_passes_run [OF q]
  have fields: "r = Ret () \<and> snaps t = snaps v \<and> deeds t = deeds v"
  proof -
    obtain p where p: "q = Ret p" using run by auto
    show ?thesis
    proof (cases p)
      case None
      then show ?thesis using assms q False p by (simp add: killuser_def bnd_def ret_def)
    next
      case (Some k)
      obtain x where "log_line (''user kill complete after '' @ dec (int k + 1) @ '' passes.\<newline>'') v = (Ret (), v\<lparr>logtext := x\<rparr>)"
        using log_line_run by blast
      then show ?thesis using assms q False p Some by (auto simp: killuser_def bnd_def)
    qed
  qed
  show ?thesis using run fields False by auto
qed

end
