(* ===== verification/Spec2Isabelle.thy ===== *)
theory Spec2Isabelle
  imports Grexhash BankRuns BankLocks WebCast CflRuns BbsRuns LetterRuns ReshProps ReshTools LcProps WnuFormFacts WnuProps WnuRuns WnuTerms WnuLid CopEnd CopSafe CopUsage
begin

text \<open>
  This library models programs of the Grex conferencing system that are written in C and live under
  \<open>src/soft\<close>: the password hash of the common library, the bank, the election programs, the builder of a
  user's conference list, the reader of conferences with its small companions, a word game, the shell of
  users who are not members yet with the tools it runs, the lister of directories, the program that takes
  applications for accounts over the web, and the daemon that ends what users leave running. Each theory says in its first block what it holds; this block says how
  they fit together.

  \<^bold>\<open>The common ground.\<close> \<open>Prelude\<close> fixes what a C statement is: a function from the program's state to an
  outcome (a value, a process exit with its status, behaviour C leaves undefined, a loop that never ends,
  exhausted fuel) and the state left. \<open>bnd\<close> and \<open>sq\<close> put statements one after the other, \<open>iter\<close> and
  \<open>first_of\<close> are loops over a body, and the locales \<open>frame_rel\<close>, \<open>guarded_body\<close>, \<open>shrinking_body\<close> and
  \<open>searching_body\<close> hold what is proved once for all programs: a relation that statements keep, and that a
  measure the body decreases makes the fuel irrelevant. \<open>safe\<close> is a pre- and postcondition. The C integer
  types are integers with their two's complement reading written out (\<open>s32\<close>, \<open>s64\<close>); \<open>CLib\<close> has the
  string, conversion and stream functions of the C library the programs use, with \<open>fgets\<close> and \<open>getchar\<close>
  on a record \<open>tty\<close> that every program's state extends. Both output streams go to the same terminal.

  \<^bold>\<open>Password hashes\<close> (\<open>libgrex/grexhash.c\<close>, theory \<open>Grexhash\<close>): the realm of a host name, the hash over a
  parametric SHA1, base 85 text in both directions with its passes over big-endian bytes.

  \<^bold>\<open>The bank\<close> (\<open>apps/bank/bank.c\<close>). \<open>BankStore\<close> has the account file, the transaction file, the two lock
  files and every operation on them; \<open>BankRich\<close> the listing of the ten wealthiest, \<open>BankTeller\<close> dialogue,
  command line and main. The state \<open>bank\<close> is the terminal, the files, the positions in them, the clock
  and the locks held; what other processes do to the files while this one sleeps is a parameter. The
  lemmas: \<open>BankFacts\<close> runs the operations on a store with no lock held, \<open>BankProps\<close> gives conservation of
  money and the life of a transaction record, \<open>BankLists\<close> the listings, \<open>BankSafety\<close> that every path gives
  its locks back, \<open>BankRuns\<close> that sessions end and who counts as a banker. \<open>BankLocks\<close> is the same
  \<open>setlock\<close> and \<open>unlock\<close> at the grain of system calls, any number of processes interleaved by the relation
  \<open>lock_step\<close>: exclusion while no lock file is old, and the race when one is.

  \<^bold>\<open>The elections\<close> (\<open>apps/vote/src\<close>). \<open>VoteFiles\<close> has directories, files, the opening hours and the random
  order of candidates common to \<open>board.c\<close> and \<open>vote.c\<close>; \<open>VoteBoard\<close> the terminal booth of \<open>board.c\<close> with its
  lemmas in \<open>VoteBoardFacts\<close> and \<open>VoteBoardRuns\<close>; \<open>VoteLib\<close> the library \<open>vote.c\<close> of the web programs;
  \<open>FormVars\<close> the decoding of form data of \<open>formvars.c\<close>; \<open>WebCast\<close> the program \<open>webcast.c\<close>, which composes the
  last two. What is written by one part is read by another: a vote the booth stores, a form a browser
  sends, the marks a voter made. What \<open>malloc\<close> answers to the bytes asked for is a parameter, so that the
  table of a form may be refused or too small for what is stored in it, and the theorem about \<open>webcast\<close> is an
  account of every case: the only one in which a file changes without the page of success is a history
  that cannot be written after the vote was. For the booth the questions (\<open>ask_ballot\<close>) and what follows
  them (\<open>finish_vote\<close>) are apart, since nothing is written unless the line after them says yes.

  \<^bold>\<open>The conference list\<close> (\<open>cmd/cflbuild\<close>). \<open>CflHeap\<close> has the doubly linked list of \<open>cflbuild.h\<close> as a heap
  of nodes with their pointers, and \<open>SwapNodes\<close>, \<open>Insert\<close> and unlinking on it; \<open>CflSort\<close> the sort by
  exchanging nodes; \<open>CflText\<close> input and tokens, \<open>CflPublic\<close> the list of public conferences, \<open>CflCmds\<close> the
  commands and \<open>main\<close>. The abstraction \<open>linked\<close> relates a heap to the list of its nodes in order; through
  it \<open>CflFacts\<close> and \<open>CflProps\<close> show that each command does to the list of names what its name says,
  \<open>CflLoad\<close> that a written file is read back, and \<open>CflReads\<close>, \<open>CflSafe\<close> and \<open>CflRuns\<close> that every command
  leaves the list well-formed and every run ends.

  \<^bold>\<open>The conference reader\<close> (\<open>cmd/bbsread\<close>). \<open>BbsText\<close> has the program's globals (record \<open>pico\<close>), names with
  abbreviations, ranges, the words of the command line, the list of conferences and the configuration
  (\<open>match.c\<close>, \<open>range.c\<close>, \<open>arg.c\<close>, \<open>parse.c\<close>, \<open>atoh.c\<close>, \<open>cfpath.c\<close>, \<open>config.c\<close>); \<open>BbsFile\<close> the participation
  file (\<open>pf.c\<close>), \<open>BbsSum\<close> the binary sum file (\<open>sum.c\<close>), \<open>BbsItem\<close> the display of an item as a machine
  over its lines (\<open>readitem.c\<close>), \<open>BbsRead\<close> the commands and the session (\<open>rfp.c\<close>, \<open>bbsread.c\<close>), \<open>BbsTools\<close>
  the programs \<open>forget\<close>, \<open>extract\<close>, \<open>findconf\<close> and \<open>partname\<close>. \<open>BbsProps\<close> shows that the participation
  list implements a map (through the locale \<open>keyed_store\<close>) and survives being written and read;
  \<open>BbsSumProps\<close> that steps over the bytes of the sum file are steps over its records; \<open>BbsShow\<close> what is
  shown of an item, against a description of item files and of the text expected; \<open>BbsRuns\<close> what
  showing does to the participation list, and that a session ends.

  \<^bold>\<open>The word game\<close> (\<open>games/letter\<close>). \<open>LetterGame\<close> has all of it: the dictionary file with the hash table of
  line starts in front, the search that reads the line a hash leads to and those after it, the game with
  its row of letters, the guesses the program makes and the file of best scores. \<open>LetterFacts\<close> describes a
  dictionary file by its list of words and shows that the search finds exactly those; \<open>LetterScores\<close> that
  the score file implements a map from players to their best; \<open>LetterRuns\<close> what a guess is, that naming
  the target wins, and that the program ends.

  \<^bold>\<open>The restricted shell\<close> (\<open>apps/resh\<close>). \<open>Resh\<close> models the words of a command line (\<open>token.c\<close>), the table of
  commands and the loading of one (\<open>dyncmd.c\<close>) and the shell's loop (\<open>resh.c\<close>, \<open>read.c\<close>) on a memory of
  strings with indices for the code's pointers; \<open>ReshTools\<close> the commands it may load: \<open>cat\<close>, the pager
  and \<open>fortune\<close>. A loaded object runs in the process of the shell: it is a parameter that may take the shell's
  input, print, change the environment, exit, misbehave or never come back (\<open>in_process\<close>), but not reach
  the list of what was loaded. \<open>ReshProps\<close> shows that a spelled command line is split into the words
  spelled, that no file outside the directory of commands is ever loaded, and that a session that does not end
  is in the code of an object that can run for ever.

  \<^bold>\<open>The directory lister\<close> (\<open>cmd/ylc.c\<close>). \<open>Lc\<close> sorts the names of a directory by kind and prints them in
  columns; \<open>LcProps\<close> shows that every name wanted is printed once, in order, on lines no wider than asked.

  \<^bold>\<open>Accounts over the web\<close> (\<open>apps/ownu\<close>). \<open>WnuForm\<close> loads a form into its own memory (\<open>cgi-decode.c\<close>): strings are
  blocks of bytes, a pointer is a block with an offset, and decoding overwrites the block it reads, so that what
  the code does at the end of a field is what the model does. \<open>WnuPage\<close> has the output formats
  (\<open>cgi-output.c\<close>), the error page and the log (\<open>wnu-error.c\<close>) on the record \<open>wnu\<close> of the program's globals;
  \<open>WnuCheck\<close> the checks of names, shells, terminals and keys and the cleaning of texts (\<open>wnu-getu.c\<close>,
  \<open>wnu-keys.c\<close>); \<open>WnuLogin\<close> logins, passwords and the password files (\<open>wnu-login.c\<close>); \<open>WnuMain\<close> the table of
  fields and \<open>main\<close>. The account library is not in the repository: its calls are recorded in \<open>calls\<close>, its
  answers are parameters. \<open>WnuFormFacts\<close> shows that an encoded form is read back, \<open>WnuText\<close> what wrapping and
  cleaning do to a text, \<open>WnuProps\<close> that an account is created only after every check passed, by relations that
  each statement keeps (\<open>reporting\<close>, \<open>rejecting\<close>, \<open>calling\<close>: errors once reported stay, calls are only
  appended), and \<open>WnuRuns\<close> that every run ends and that text put on a page stays text. \<open>WnuTerms\<close> is the
  page of terminal types (\<open>print-terms.c\<close>), \<open>WnuLid\<close> the form of a login in the text version (\<open>nu-lid.c\<close>),
  which agrees with the one asked here.

  \<^bold>\<open>The daemon\<close> (\<open>apps/robocop\<close>). \<open>CopTables\<close> has its globals (record \<open>cop\<close>) and the four hash tables with
  linear probing (\<open>active.c\<close>, \<open>screen.c\<close>, \<open>hen.c\<close>, \<open>ttynumber.c\<close>), which the locale of probed tables shows to be
  sets as long as they are not full; \<open>CopUsers\<close> counting, logging and killing the users over the limits
  (\<open>usermem.c\<close>, \<open>loguser.c\<close>, \<open>killuser.c\<close>); \<open>CopProcs\<close> system programs, the scan of the process table and of the
  users logged in (\<open>sysproc.c\<close>, \<open>scanproc.c\<close>, \<open>scanutmp.c\<close>); \<open>CopOrphans\<close> the passes over the linked list of
  processes and a round of \<open>main.c\<close>, whose endless loop is any number of rounds. The kernel's answers at each
  reading, the files and the clock are parameters, and what the daemon does to others, signals and pauses, is
  recorded in \<open>deeds\<close>. \<open>CopList\<close> relates the list in its store to the sequence of its processes, \<open>CopFind\<close> says
  who is an orphan without the passes and shows that they find exactly those, \<open>CopEnd\<close> that exactly those
  get the two signals, \<open>CopSafe\<close> that no run of the daemon sends a signal to anything but a fair target, and
  \<open>CopUsage\<close> that the table of users is the account of the processes and that killing a user ends.

  \<^bold>\<open>Bounds and fuel.\<close> Loops over data recurse over the data. A dialogue or a search that a C program
  writes as an endless loop spends fuel, which the model computes from the state at its start: the
  length of the input still to be read, the number of records, of list cells left or of nodes ever allocated, or their sum. Every
  such loop is an interpretation of one of the loop locales, which shows that this much is enough; so no
  theorem about a result has an outcome \<open>NoFuel\<close> to escape through, and the theorems that end in
  \<open>_ends\<close> or \<open>_exits\<close> say that no run has it. Array sizes and buffer lengths are those of the code; what
  is written or read beyond them is the outcome \<open>Undef\<close>.

  \<^bold>\<open>Not modelled\<close> of these programs: signals that arrive at any time and the jumps out of them; the
  pager and the shell \<open>bbsread\<close> starts, of which only whether they start and what they print is a
  parameter; the buffering of standard output, and \<open>fflush\<close> on input, which has no effect here; counters
  that overflow only beyond \<open>2 ^ 31\<close> items; failures of reads and writes of files once they are open and of
  allocations where the code does not test them; the variants of \<open>apps/ownu\<close> compiled with \<open>TESTING\<close> or
  \<open>GLOOP\<close>. SHA1, the file system's permissions, the clock, the account database, the account library with its
  locks and encryption, the terminal database's lookup and the random numbers are parameters.

  Of the daemon, the pid file, the wake-up signal, the challenge socket with its process listing and the
  priority it runs at are left out.

  The rest of the repository is not modelled: the other small commands, daemons and games under
  \<open>src/soft\<close>, its shell, perl and awk scripts, configuration and web pages, and everything under
  \<open>src/contrib\<close>, which is software of others kept with local patches.
\<close>

end
